(* ===== verification/Prelude.thy ===== *)
theory Prelude
  imports Main "HOL-Library.Multiset"
begin

text \<open>
  Shared vocabulary of the development: the Go values every component uses
  (64-bit \<^verbatim>\<open>int\<close> arithmetic with its wrap-around, truncating division,
  \<^verbatim>\<open>time.Time\<close> and \<^verbatim>\<open>time.Duration\<close>), removal of a slice element by index,
  and the named theorem collections that carry the component proofs.

  Conventions. A call of \<^verbatim>\<open>time.Now()\<close> is an extra argument of the operation (one
  per call in the source, in call order). A \<^verbatim>\<open>time.Time\<close> is its distance in
  nanoseconds from the zero time, so \<^verbatim>\<open>t.IsZero()\<close> is \<open>t = 0\<close>. A returned
  \<^verbatim>\<open>error\<close> is an option (\<open>None\<close> is \<^verbatim>\<open>nil\<close>) when it is the only result and the
  left of a sum otherwise; a run-time panic is \<open>None\<close> of an outer option.
\<close>

named_theorems model_defs \<open>unfolding equations of the model's operations\<close>
named_theorems inv_intro \<open>preservation of component invariants\<close>
named_theorems frame_simps \<open>what an operation leaves unchanged\<close>

section \<open>Time\<close>

type_synonym go_time = int
type_synonym duration = int

abbreviation (input) zero_time :: go_time where "zero_time \<equiv> 0"

abbreviation (input) millisecond :: duration where "millisecond \<equiv> 1000000"
abbreviation (input) second :: duration where "second \<equiv> 1000000000"
abbreviation (input) minute :: duration where "minute \<equiv> 60000000000"
abbreviation (input) hour :: duration where "hour \<equiv> 3600000000000"

definition max_int64 :: int where "max_int64 = 9223372036854775807"
definition min_int64 :: int where "min_int64 = -9223372036854775808"

text \<open>\<^verbatim>\<open>Time.Sub\<close> saturates at the ends of \<^verbatim>\<open>Duration\<close>.\<close>

definition time_sub :: "go_time \<Rightarrow> go_time \<Rightarrow> duration" where
  "time_sub t u = max min_int64 (min max_int64 (t - u))"

definition time_add :: "go_time \<Rightarrow> duration \<Rightarrow> go_time" where
  "time_add t d = t + d"

definition time_before :: "go_time \<Rightarrow> go_time \<Rightarrow> bool" where
  "time_before t u = (t < u)"

definition time_after :: "go_time \<Rightarrow> go_time \<Rightarrow> bool" where
  "time_after t u = (t > u)"

lemma time_sub_mono: "t \<le> t' \<Longrightarrow> time_sub t u \<le> time_sub t' u"
  by (auto simp: time_sub_def)

lemma time_sub_exact:
  "min_int64 \<le> t - u \<Longrightarrow> t - u \<le> max_int64 \<Longrightarrow> time_sub t u = t - u"
  by (simp add: time_sub_def)

section \<open>64-bit integers\<close>

text \<open>
  \<^verbatim>\<open>int\<close> and \<^verbatim>\<open>int64\<close> values are HOL integers; arithmetic that can leave the
  64-bit range is wrapped explicitly. Division truncates towards zero.
\<close>

definition wrap64 :: "int \<Rightarrow> int" where
  "wrap64 x = (x + 2 ^ 63) mod 2 ^ 64 - 2 ^ 63"

definition in_int64 :: "int \<Rightarrow> bool" where
  "in_int64 x \<longleftrightarrow> min_int64 \<le> x \<and> x \<le> max_int64"

definition go_div :: "int \<Rightarrow> int \<Rightarrow> int" where
  "go_div a b = sgn a * sgn b * (\<bar>a\<bar> div \<bar>b\<bar>)"

lemma wrap64_id [simp]: "in_int64 x \<Longrightarrow> wrap64 x = x"
  by (simp add: wrap64_def in_int64_def min_int64_def max_int64_def mod_pos_pos_trivial)

lemma wrap64_range [simp]: "in_int64 (wrap64 x)"
proof -
  have "0 \<le> (x + 2 ^ 63) mod 2 ^ 64" and "(x + 2 ^ 63) mod 2 ^ 64 < 2 ^ 64"
    by simp_all
  then show ?thesis
    by (simp add: wrap64_def in_int64_def min_int64_def max_int64_def)
qed

lemma go_div_nonneg: "0 \<le> a \<Longrightarrow> 0 < b \<Longrightarrow> go_div a b = a div b"
  by (cases "a = 0") (auto simp: go_div_def sgn_if)

section \<open>Slices\<close>

lemma length_filter_mset: "mset xs = mset ys \<Longrightarrow> length (filter P xs) = length (filter P ys)"
proof -
  assume "mset xs = mset ys"
  then have "mset (filter P xs) = mset (filter P ys)" by simp
  then show ?thesis by (rule mset_eq_length)
qed

text \<open>\<^verbatim>\<open>append(s[:i], s[i+1:]...)\<close>, for an index in range.\<close>

definition remove_nth :: "nat \<Rightarrow> 'a list \<Rightarrow> 'a list" where
  "remove_nth i xs = take i xs @ drop (Suc i) xs"

lemma length_remove_nth [simp]: "i < length xs \<Longrightarrow> length (remove_nth i xs) = length xs - 1"
  by (simp add: remove_nth_def)

lemma set_remove_nth_subset: "set (remove_nth i xs) \<subseteq> set xs"
  by (auto simp: remove_nth_def dest: in_set_takeD in_set_dropD)

lemma mset_remove_nth: "i < length xs \<Longrightarrow> mset (remove_nth i xs) = mset xs - {#xs ! i#}"
proof -
  assume i: "i < length xs"
  have "mset xs = mset (take i xs @ xs ! i # drop (Suc i) xs)"
    using i by (simp only: id_take_nth_drop [symmetric])
  then show ?thesis by (simp add: remove_nth_def)
qed

lemma nth_remove_nth:
  "i < length xs \<Longrightarrow> k < length xs - 1 \<Longrightarrow>
   remove_nth i xs ! k = (if k < i then xs ! k else xs ! Suc k)"
  by (auto simp: remove_nth_def nth_append min_def)

lemma take_remove_nth: "k \<le> i \<Longrightarrow> take k (remove_nth i xs) = take k xs"
  by (simp add: remove_nth_def min_def)

lemma nths_take_cong: "(\<And>j. j < i \<Longrightarrow> j \<in> A \<longleftrightarrow> j \<in> B) \<Longrightarrow> nths (take i xs) A = nths (take i xs) B"
proof (induction xs arbitrary: i A B)
  case (Cons x xs)
  have "nths (take (i - 1) xs) {j. Suc j \<in> A} = nths (take (i - 1) xs) {j. Suc j \<in> B}"
    by (rule Cons.IH) (use Cons.prems in auto)
  then show ?case using Cons.prems [of 0] by (cases i) (simp_all add: nths_Cons)
qed simp

text \<open>Removing an element above all the positions in \<open>M\<close>, then those.\<close>

lemma nths_remove_nth:
  assumes "i < length xs" and "M \<subseteq> {..<i}"
  shows "nths (remove_nth i xs) (- M) = nths xs (- insert i M)"
proof -
  have A: "{j. j + i \<notin> M} = UNIV" and B: "{j. Suc (j + i) \<notin> M} = UNIV" using assms(2) by auto
  have "nths xs (- insert i M) = nths (take i xs @ xs ! i # drop (Suc i) xs) (- insert i M)"
    using assms(1) by (simp only: id_take_nth_drop [symmetric])
  also have "\<dots> = nths (take i xs) (- insert i M) @ drop (Suc i) xs"
    using assms(1) by (simp add: nths_append nths_Cons B nths_all min_def)
  also have "nths (take i xs) (- insert i M) = nths (take i xs) (- M)"
    by (rule nths_take_cong) auto
  finally show ?thesis
    using assms(1) by (simp add: remove_nth_def nths_append A nths_all min_def)
qed

definition swap_nth :: "nat \<Rightarrow> nat \<Rightarrow> 'a list \<Rightarrow> 'a list" where
  "swap_nth i j xs = xs[i := xs ! j, j := xs ! i]"

lemma length_swap_nth [simp]: "length (swap_nth i j xs) = length xs"
  by (simp add: swap_nth_def)

lemma mset_swap_nth [simp]:
  "i < length xs \<Longrightarrow> j < length xs \<Longrightarrow> mset (swap_nth i j xs) = mset xs"
  by (simp add: swap_nth_def mset_swap)

lemma nth_swap_nth:
  "i < length xs \<Longrightarrow> j < length xs \<Longrightarrow>
   swap_nth i j xs ! k = (if k = i then xs ! j else if k = j then xs ! i else xs ! k)"
  by (auto simp: swap_nth_def nth_list_update)

lemma map_swap_nth:
  "i < length xs \<Longrightarrow> j < length xs \<Longrightarrow> map f (swap_nth i j xs) = swap_nth i j (map f xs)"
  by (simp add: swap_nth_def map_update)

section \<open>Ticker loops\<close>

text \<open>
  A goroutine that selects between the ticks of a ticker and a channel that ends it, over what it
  receives. \<^verbatim>\<open>NewTicker\<close> panics on an interval that is not positive, and the work of a tick may
  panic (\<open>None\<close>).
\<close>

datatype 'e wake = Tick 'e | LoopEnds

fun ticker_loop :: "('e \<Rightarrow> 's \<Rightarrow> 's option) \<Rightarrow> 'e wake list \<Rightarrow> 's \<Rightarrow> 's option" where
  "ticker_loop work [] s = Some s"
| "ticker_loop work (LoopEnds # wakes) s = Some s"
| "ticker_loop work (Tick e # wakes) s = (case work e s of None \<Rightarrow> None | Some s' \<Rightarrow> ticker_loop work wakes s')"

definition run_ticker :: "duration \<Rightarrow> ('e \<Rightarrow> 's \<Rightarrow> 's option) \<Rightarrow> 'e wake list \<Rightarrow> 's \<Rightarrow> 's option" where
  "run_ticker interval work wakes s = (if interval \<le> 0 then None else ticker_loop work wakes s)"

lemma ticker_loop_ends: "LoopEnds \<in> set wakes \<Longrightarrow> ticker_loop work (wakes @ more) s = ticker_loop work wakes s"
  by (induction work wakes s rule: ticker_loop.induct) (auto split: option.splits)

lemma ticker_loop_total: "(\<And>e s. work e s \<noteq> None) \<Longrightarrow> ticker_loop work wakes s \<noteq> None"
  by (induction work wakes s rule: ticker_loop.induct) (auto split: option.splits)

lemma ticker_loop_invariant:
  "ticker_loop work wakes s = Some s' \<Longrightarrow> P s \<Longrightarrow> (\<And>e s s'. work e s = Some s' \<Longrightarrow> P s \<Longrightarrow> P s') \<Longrightarrow> P s'"
  by (induction work wakes s rule: ticker_loop.induct) (auto split: option.splits)

end
