(* ===== verification/GoHeap.thy ===== *)
theory GoHeap
  imports Prelude
begin

text \<open>
  \<^verbatim>\<open>container/heap\<close> of the Go standard library, as the priority queue and the delayed
  queue use it. \<open>heap_up\<close>, \<open>heap_down\<close>, \<open>heap_Init\<close>, \<open>heap_Push\<close> and \<open>heap_Pop\<close>
  are the library's routines over an arbitrary \<^verbatim>\<open>heap.Interface\<close>, given by its
  methods. The locale \<open>heap_interface\<close> states what the library asks of an
  implementation of that interface (a view of its elements as a list, an ordering key,
  and a consistency condition its \<^verbatim>\<open>Swap\<close>, \<^verbatim>\<open>Push\<close> and \<^verbatim>\<open>Pop\<close> keep); inside
  it the routines are proved correct once: the heap order is kept, the multiset of
  elements is the expected one, and \<open>heap_Pop\<close> returns a least element. The two queues
  interpret it on their own methods.
\<close>

section \<open>The routines\<close>

function heap_up :: "('h \<Rightarrow> nat \<Rightarrow> nat \<Rightarrow> bool) \<Rightarrow> ('h \<Rightarrow> nat \<Rightarrow> nat \<Rightarrow> 'h) \<Rightarrow> 'h \<Rightarrow> nat \<Rightarrow> 'h" where
  "heap_up lt swap h j =
     (let i = (j - 1) div 2
      in if i = j \<or> \<not> lt h j i then h else heap_up lt swap (swap h i j) i)"
  by pat_completeness auto
termination
  by (relation "measure (\<lambda>(lt, swap, h, j). j)") auto

function heap_down :: "('h \<Rightarrow> nat \<Rightarrow> nat \<Rightarrow> bool) \<Rightarrow> ('h \<Rightarrow> nat \<Rightarrow> nat \<Rightarrow> 'h) \<Rightarrow> 'h \<Rightarrow> nat \<Rightarrow> nat \<Rightarrow> 'h"
where
  "heap_down lt swap h i n =
     (let j1 = 2 * i + 1; j2 = j1 + 1
      in if n \<le> j1 then h
         else let j = (if j2 < n \<and> lt h j2 j1 then j2 else j1)
              in if \<not> lt h j i then h else heap_down lt swap (swap h i j) j n)"
  by pat_completeness auto
termination
  by (relation "measure (\<lambda>(lt, swap, h, i, n). n - i)") (auto simp: Let_def split: if_splits)

declare heap_up.simps [simp del] heap_down.simps [simp del]

definition heap_Init :: "('h \<Rightarrow> nat) \<Rightarrow> ('h \<Rightarrow> nat \<Rightarrow> nat \<Rightarrow> bool) \<Rightarrow> ('h \<Rightarrow> nat \<Rightarrow> nat \<Rightarrow> 'h) \<Rightarrow> 'h \<Rightarrow> 'h"
where
  "heap_Init len lt swap h =
     (let n = len h in fold (\<lambda>i h. heap_down lt swap h i n) (rev [0..<n div 2]) h)"

definition heap_Push :: "('h \<Rightarrow> nat) \<Rightarrow> ('h \<Rightarrow> nat \<Rightarrow> nat \<Rightarrow> bool) \<Rightarrow> ('h \<Rightarrow> nat \<Rightarrow> nat \<Rightarrow> 'h) \<Rightarrow>
    ('h \<Rightarrow> 'a \<Rightarrow> 'h) \<Rightarrow> 'h \<Rightarrow> 'a \<Rightarrow> 'h" where
  "heap_Push len lt swap push h x = (let h' = push h x in heap_up lt swap h' (len h' - 1))"

text \<open>\<^verbatim>\<open>heap.Pop\<close> of an empty heap indexes out of range: the panic is \<open>None\<close>.\<close>

definition heap_Pop :: "('h \<Rightarrow> nat) \<Rightarrow> ('h \<Rightarrow> nat \<Rightarrow> nat \<Rightarrow> bool) \<Rightarrow> ('h \<Rightarrow> nat \<Rightarrow> nat \<Rightarrow> 'h) \<Rightarrow>
    ('h \<Rightarrow> 'a \<times> 'h) \<Rightarrow> 'h \<Rightarrow> ('a \<times> 'h) option" where
  "heap_Pop len lt swap pop h =
     (if len h = 0 then None
      else let n = len h - 1 in Some (pop (heap_down lt swap (swap h 0 n) 0 n)))"

section \<open>The heap order on a list of keys\<close>

lemma take_update_swap:
  "i < n \<Longrightarrow> j < n \<Longrightarrow> n \<le> length xs \<Longrightarrow>
   take n (xs[i := xs ! j, j := xs ! i]) = (take n xs)[i := take n xs ! j, j := take n xs ! i]"
  by (rule nth_equalityI) (auto simp: nth_list_update)

definition parent :: "nat \<Rightarrow> nat" where
  "parent c = (c - 1) div 2"

definition heap_from :: "nat \<Rightarrow> nat \<Rightarrow> 'k::linorder list \<Rightarrow> bool" where
  "heap_from lo n ks \<longleftrightarrow> (\<forall>c. 0 < c \<and> c < n \<and> lo \<le> parent c \<longrightarrow> ks ! parent c \<le> ks ! c)"

abbreviation is_heap :: "'k::linorder list \<Rightarrow> bool" where
  "is_heap ks \<equiv> heap_from 0 (length ks) ks"

text \<open>Heap order but for the element at \<open>j\<close>, which may be too small for its place.\<close>

definition up_inv :: "nat \<Rightarrow> 'k::linorder list \<Rightarrow> bool" where
  "up_inv j ks \<longleftrightarrow>
     (\<forall>c. 0 < c \<and> c < length ks \<and> c \<noteq> j \<longrightarrow> ks ! parent c \<le> ks ! c) \<and>
     (\<forall>c. 0 < c \<and> c < length ks \<and> parent c = j \<and> 0 < j \<longrightarrow> ks ! parent j \<le> ks ! c)"

text \<open>Heap order below \<open>n\<close> but for the element at \<open>i\<close>, which may be too large.\<close>

definition down_inv :: "nat \<Rightarrow> nat \<Rightarrow> nat \<Rightarrow> 'k::linorder list \<Rightarrow> bool" where
  "down_inv lo i n ks \<longleftrightarrow>
     (\<forall>c. 0 < c \<and> c < n \<and> lo \<le> parent c \<and> parent c \<noteq> i \<longrightarrow> ks ! parent c \<le> ks ! c) \<and>
     (\<forall>c. 0 < c \<and> c < n \<and> parent c = i \<and> 0 < i \<and> lo \<le> parent i \<longrightarrow> ks ! parent i \<le> ks ! c)"

lemma parent_less: "0 < c \<Longrightarrow> parent c < c"
  by (auto simp: parent_def)

lemma parent_le: "parent c \<le> c"
  by (auto simp: parent_def)

lemma parent_fixpoint: "parent c = c \<longleftrightarrow> c = 0"
  by (auto simp: parent_def)

lemma children: "0 < c \<Longrightarrow> parent c = i \<longleftrightarrow> c = 2 * i + 1 \<or> c = 2 * i + 2"
  by (auto simp: parent_def)

lemma heap_min:
  assumes h: "is_heap ks" and c: "c < length ks"
  shows "ks ! 0 \<le> ks ! c"
  using c
proof (induction c rule: less_induct)
  case (less c)
  show ?case
  proof (cases "c = 0")
    case False
    then have p: "parent c < c" by (simp add: parent_less)
    with less have "ks ! 0 \<le> ks ! parent c" by simp
    also have "\<dots> \<le> ks ! c" using h less.prems False by (simp add: heap_from_def)
    finally show ?thesis .
  qed simp
qed

lemma heap_from_Nil [simp]: "is_heap []"
  by (simp add: heap_from_def)

lemma up_inv_append:
  assumes h: "is_heap ks"
  shows "up_inv (length ks) (ks @ [k])"
proof -
  have "(ks @ [k]) ! parent c \<le> (ks @ [k]) ! c" if c: "0 < c" "c < length ks" for c
  proof -
    have "parent c < length ks" using parent_less [OF c(1)] c(2) by simp
    with h c show ?thesis by (simp add: heap_from_def nth_append)
  qed
  moreover have "parent c \<noteq> length ks" if "0 < c" "c < Suc (length ks)" for c
    using parent_less [OF that(1)] that(2) by simp
  ultimately show ?thesis unfolding up_inv_def by (auto simp del: nth_append_length)
qed

lemma up_inv_done:
  assumes inv: "up_inv j ks" and j: "j = 0 \<or> ks ! parent j \<le> ks ! j"
  shows "is_heap ks"
  unfolding heap_from_def
proof (intro allI impI, elim conjE)
  fix c assume "0 < c" "c < length ks"
  then show "ks ! parent c \<le> ks ! c"
    using inv j by (cases "c = j") (auto simp: up_inv_def)
qed

lemma up_inv_step:
  assumes inv: "up_inv j ks" and j: "0 < j" "j < length ks" and lt: "ks ! j < ks ! parent j"
  shows "up_inv (parent j) (swap_nth (parent j) j ks)"
proof -
  let ?p = "parent j" let ?ks = "swap_nth ?p j ks"
  have p: "?p < j" "?p < length ks" using parent_less [OF j(1)] j(2) by auto
  have nth: "?ks ! c = (if c = ?p then ks ! j else if c = j then ks ! ?p else ks ! c)" for c
    by (rule nth_swap_nth) (use p j in auto)
  have ord: "ks ! parent c \<le> ks ! c" if "0 < c" "c < length ks" "c \<noteq> j" for c
    using inv that by (auto simp: up_inv_def)
  have gr: "ks ! ?p \<le> ks ! c" if "0 < c" "c < length ks" "parent c = j" for c
    using inv that j by (auto simp: up_inv_def)
  have "?ks ! parent c \<le> ?ks ! c" if c: "0 < c" "c < length ks" "c \<noteq> ?p" for c
    using ord [OF c(1,2)] gr [OF c(1,2)] lt c parent_less [OF c(1)]
    by (auto simp: nth)
  moreover have "?ks ! parent ?p \<le> ?ks ! c" if c: "0 < c" "c < length ks" "parent c = ?p" "0 < ?p" for c
    using ord [of ?p] ord [OF c(1,2)] c p parent_less [OF c(1)] parent_less [OF c(4)]
    by (auto simp: nth)
  ultimately show ?thesis by (auto simp: up_inv_def)
qed

lemma down_inv_done:
  assumes inv: "down_inv lo i n ks"
    and i: "\<And>c. 0 < c \<Longrightarrow> c < n \<Longrightarrow> parent c = i \<Longrightarrow> ks ! i \<le> ks ! c"
  shows "heap_from lo n ks"
  using assms by (auto simp: down_inv_def heap_from_def)

lemma down_inv_start:
  assumes "heap_from (Suc m) n ks"
  shows "down_inv m m n ks"
proof -
  have "\<not> m \<le> parent m" if "0 < m" using parent_less [OF that] by simp
  with assms show ?thesis by (auto simp: down_inv_def heap_from_def)
qed

lemma down_inv_step:
  assumes inv: "down_inv lo i n ks" and n: "n \<le> length ks"
    and j: "0 < j" "j < n" "parent j = i" and lt: "ks ! j < ks ! i"
    and least: "\<And>c. 0 < c \<Longrightarrow> c < n \<Longrightarrow> parent c = i \<Longrightarrow> ks ! j \<le> ks ! c"
  shows "down_inv lo j n (swap_nth i j ks)"
proof -
  let ?ks = "swap_nth i j ks"
  have ij: "i < j" using parent_less [OF j(1)] j(3) by simp
  have nth: "?ks ! c = (if c = i then ks ! j else if c = j then ks ! i else ks ! c)" for c
    by (rule nth_swap_nth) (use ij j n in auto)
  have ord: "ks ! parent c \<le> ks ! c" if "0 < c" "c < n" "lo \<le> parent c" "parent c \<noteq> i" for c
    using inv that by (auto simp: down_inv_def)
  have up: "ks ! parent i \<le> ks ! j" if "0 < i" "lo \<le> parent i"
    using inv that j by (auto simp: down_inv_def)
  have "?ks ! parent c \<le> ?ks ! c" if c: "0 < c" "c < n" "lo \<le> parent c" "parent c \<noteq> j" for c
    using ord [OF c(1-3)] least [OF c(1,2)] up lt c j parent_less [OF c(1)]
    by (auto simp: nth)
  moreover have "?ks ! parent j \<le> ?ks ! c" if c: "0 < c" "c < n" "parent c = j" "lo \<le> parent j" for c
    using ord [OF c(1,2)] c ij j parent_less [OF c(1)] by (auto simp: nth)
  ultimately show ?thesis by (auto simp: down_inv_def)
qed

lemma heap_from_butlast:
  assumes "heap_from 0 (length ks - 1) ks"
  shows "is_heap (butlast ks)"
  unfolding heap_from_def
proof (intro allI impI, elim conjE)
  fix c assume c: "0 < c" "c < length (butlast ks)"
  then have "parent c < length (butlast ks)" using parent_less [of c] by simp
  with c assms show "butlast ks ! parent c \<le> butlast ks ! c"
    by (simp add: heap_from_def nth_butlast)
qed

lemma down_inv_root:
  assumes h: "is_heap ks" and ne: "ks \<noteq> []"
  shows "down_inv 0 0 (length ks - 1) (swap_nth 0 (length ks - 1) ks)"
proof -
  let ?n = "length ks - 1"
  have nth: "swap_nth 0 ?n ks ! c = (if c = 0 then ks ! ?n else if c = ?n then ks ! 0 else ks ! c)" for c
    by (rule nth_swap_nth) (use ne in auto)
  have "swap_nth 0 ?n ks ! parent c \<le> swap_nth 0 ?n ks ! c"
    if c: "0 < c" "c < ?n" "parent c \<noteq> 0" for c
    using h c parent_less [OF c(1)] unfolding nth by (simp add: heap_from_def)
  then show ?thesis by (simp add: down_inv_def)
qed

section \<open>The interface and the correctness of the routines\<close>

text \<open>
  \<open>elems\<close> is the implementation's slice as a list of what it stores (without the
  position the implementation may keep in each element), \<open>good\<close> the consistency of
  those positions, \<open>key\<close> the ordering \<^verbatim>\<open>Less\<close> compares.
\<close>

locale heap_interface =
  fixes len :: "'h \<Rightarrow> nat"
    and lt :: "'h \<Rightarrow> nat \<Rightarrow> nat \<Rightarrow> bool"
    and swap :: "'h \<Rightarrow> nat \<Rightarrow> nat \<Rightarrow> 'h"
    and push :: "'h \<Rightarrow> 'a \<Rightarrow> 'h"
    and pop :: "'h \<Rightarrow> 'a \<times> 'h"
    and elems :: "'h \<Rightarrow> 'e list"
    and view :: "'a \<Rightarrow> 'e"
    and key :: "'e \<Rightarrow> 'k::linorder"
    and good :: "'h \<Rightarrow> bool"
  assumes len: "len h = length (elems h)"
    and lt: "i < len h \<Longrightarrow> j < len h \<Longrightarrow> lt h i j \<longleftrightarrow> key (elems h ! i) < key (elems h ! j)"
    and swap: "i < len h \<Longrightarrow> j < len h \<Longrightarrow> elems (swap h i j) = swap_nth i j (elems h)"
    and push: "elems (push h x) = elems h @ [view x]"
    and pop_rest: "0 < len h \<Longrightarrow> elems (snd (pop h)) = butlast (elems h)"
    and pop_last: "0 < len h \<Longrightarrow> view (fst (pop h)) = last (elems h)"
    and good_swap: "good h \<Longrightarrow> i < len h \<Longrightarrow> j < len h \<Longrightarrow> good (swap h i j)"
    and good_push: "good h \<Longrightarrow> good (push h x)"
    and good_pop: "good h \<Longrightarrow> 0 < len h \<Longrightarrow> good (snd (pop h))"
begin

abbreviation keys :: "'h \<Rightarrow> 'k list" where
  "keys h \<equiv> map key (elems h)"

definition heap_ok :: "'h \<Rightarrow> bool" where
  "heap_ok h \<longleftrightarrow> good h \<and> is_heap (keys h)"

lemma len_swap: "i < len h \<Longrightarrow> j < len h \<Longrightarrow> len (swap h i j) = len h"
  by (simp add: len swap)

lemma keys_swap: "i < len h \<Longrightarrow> j < len h \<Longrightarrow> keys (swap h i j) = swap_nth i j (keys h)"
  by (simp add: len swap map_swap_nth)

lemma lt_keys: "i < len h \<Longrightarrow> j < len h \<Longrightarrow> lt h i j \<longleftrightarrow> keys h ! i < keys h ! j"
  by (simp add: lt len)

lemma up_correct:
  assumes "good h" and "up_inv j (keys h)" and "j < len h"
  shows "good (heap_up lt swap h j) \<and> is_heap (keys (heap_up lt swap h j)) \<and>
    mset (elems (heap_up lt swap h j)) = mset (elems h)"
  using assms
proof (induction j arbitrary: h rule: less_induct)
  case (less j)
  let ?p = "parent j"
  show ?case
  proof (cases "?p = j \<or> \<not> lt h j ?p")
    case True
    then have "j = 0 \<or> keys h ! ?p \<le> keys h ! j"
      using less.prems(3) le_less_trans [OF parent_le] parent_fixpoint
      by (metis lt_keys not_less)
    then have "is_heap (keys h)" by (rule up_inv_done [OF less.prems(2)])
    moreover have "heap_up lt swap h j = h"
      using True by (auto simp: heap_up.simps [of _ _ h j] Let_def parent_def)
    ultimately show ?thesis using less.prems(1) by simp
  next
    case False
    then have j: "0 < j" using parent_fixpoint by blast
    then have p: "?p < j" "?p < len h" using parent_less [OF j] less.prems(3) by auto
    have lt: "keys h ! j < keys h ! ?p" using False p less.prems(3) by (metis lt_keys)
    have up: "heap_up lt swap h j = heap_up lt swap (swap h ?p j) ?p"
      using False by (simp add: heap_up.simps [of _ _ h j] Let_def parent_def)
    have "up_inv ?p (keys (swap h ?p j))"
      using up_inv_step [OF less.prems(2) j _ lt] less.prems(3) p by (simp add: keys_swap len)
    then have "good (heap_up lt swap (swap h ?p j) ?p) \<and>
        is_heap (keys (heap_up lt swap (swap h ?p j) ?p)) \<and>
        mset (elems (heap_up lt swap (swap h ?p j) ?p)) = mset (elems (swap h ?p j))"
      using less.IH [OF p(1)] p less.prems by (simp add: good_swap len_swap)
    with p less.prems(3) show ?thesis by (simp add: up swap len)
  qed
qed

lemma down_correct:
  assumes "good h" and "down_inv lo i n (keys h)" and "n \<le> len h"
  shows "good (heap_down lt swap h i n) \<and>
    heap_from lo n (keys (heap_down lt swap h i n)) \<and>
    len (heap_down lt swap h i n) = len h \<and>
    mset (take n (elems (heap_down lt swap h i n))) = mset (take n (elems h)) \<and>
    drop n (elems (heap_down lt swap h i n)) = drop n (elems h)"
  using assms
proof (induction "n - i" arbitrary: h i rule: less_induct)
  case less
  let ?j1 = "2 * i + 1" let ?j2 = "2 * i + 2"
  define j where "j = (if ?j2 < n \<and> lt h ?j2 ?j1 then ?j2 else ?j1)"
  have unfold: "heap_down lt swap h i n =
    (if n \<le> ?j1 \<or> \<not> lt h j i then h else heap_down lt swap (swap h i j) j n)"
    by (simp add: heap_down.simps [of _ _ h i n] Let_def j_def)
  have least: "keys h ! j \<le> keys h ! c"
    if c: "0 < c" "c < n" "parent c = i" for c
  proof -
    have "c = ?j1 \<or> c = ?j2" using children [OF c(1), of i] c(3) by simp
    with c(2) less.prems(3) show ?thesis
      using lt_keys [of ?j2 h ?j1] by (auto simp: j_def)
  qed
  show ?case
  proof (cases "n \<le> ?j1 \<or> \<not> lt h j i")
    case True
    have "keys h ! i \<le> keys h ! c" if c: "0 < c" "c < n" "parent c = i" for c
    proof -
      have "?j1 < n" using children [OF c(1), of i] c by auto
      then have "\<not> lt h j i" "j < len h" "i < len h"
        using True less.prems(3) by (auto simp: j_def)
      then have "keys h ! i \<le> keys h ! j" by (metis lt_keys not_less)
      also have "\<dots> \<le> keys h ! c" by (rule least [OF c])
      finally show ?thesis .
    qed
    then have "heap_from lo n (keys h)" by (rule down_inv_done [OF less.prems(2)])
    with True less.prems show ?thesis by (simp add: unfold)
  next
    case False
    then have j: "0 < j" "j < n" "parent j = i" "i < j" "n - j < n - i"
      by (auto simp: parent_def j_def)
    then have ln: "i < len h" "j < len h" using less.prems(3) by auto
    have kl: "keys h ! j < keys h ! i" using False ln by (metis lt_keys)
    let ?h = "swap h i j"
    have nl: "n \<le> length (keys h)" using less.prems(3) by (simp add: len)
    have inv: "down_inv lo j n (keys ?h)"
      unfolding keys_swap [OF ln] using less.prems(2) nl j(1-3) kl least
      by (rule down_inv_step)
    have swp: "elems ?h = swap_nth i j (elems h)" using swap ln by simp
    have "mset (take n (elems ?h)) = mset (swap_nth i j (take n (elems h)))"
      unfolding swp swap_nth_def using j less.prems(3) by (subst take_update_swap) (auto simp: len)
    also have "\<dots> = mset (take n (elems h))"
      using j less.prems(3) by (intro mset_swap_nth) (auto simp: len)
    finally have tk: "mset (take n (elems ?h)) = mset (take n (elems h))" .
    have dr: "drop n (elems ?h) = drop n (elems h)"
      using j by (simp add: swp swap_nth_def)
    have "n \<le> len ?h" using less.prems(3) ln by (simp add: len_swap)
    note IH = less.hyps [OF j(5) good_swap [OF less.prems(1) ln] inv this]
    have eq: "heap_down lt swap h i n = heap_down lt swap ?h j n"
      by (subst unfold) (use False in auto)
    show ?thesis
      unfolding eq by (intro conjI) (simp_all only: IH tk dr len_swap [OF ln])
  qed
qed

lemma heap_Push_correct:
  assumes "heap_ok h"
  shows "heap_ok (heap_Push len lt swap push h x)"
    and "mset (elems (heap_Push len lt swap push h x)) = add_mset (view x) (mset (elems h))"
proof -
  have "is_heap (keys h)" using assms by (simp add: heap_ok_def)
  then have "up_inv (len (push h x) - 1) (keys (push h x))"
    using up_inv_append [of "keys h"] by (simp add: push len)
  moreover have "good (push h x)" using assms by (simp add: heap_ok_def good_push)
  moreover have "len (push h x) - 1 < len (push h x)" by (simp add: len push)
  ultimately have "good (heap_Push len lt swap push h x) \<and>
      is_heap (keys (heap_Push len lt swap push h x)) \<and>
      mset (elems (heap_Push len lt swap push h x)) = mset (elems (push h x))"
    unfolding heap_Push_def Let_def by (intro up_correct)
  then show "heap_ok (heap_Push len lt swap push h x)"
    and "mset (elems (heap_Push len lt swap push h x)) = add_mset (view x) (mset (elems h))"
    by (auto simp: heap_ok_def push)
qed

lemma heap_Push_len: "heap_ok h \<Longrightarrow> len (heap_Push len lt swap push h x) = Suc (len h)"
  using heap_Push_correct(2) [of h x] by (metis len size_mset size_add_mset)

lemma heap_Pop_None: "heap_Pop len lt swap pop h = None \<longleftrightarrow> elems h = []"
  by (simp add: heap_Pop_def len Let_def)

lemma heap_Pop_correct:
  assumes ok: "heap_ok h" and pop: "heap_Pop len lt swap pop h = Some (a, h')"
  shows "heap_ok h'" and "view a = elems h ! 0"
    and "mset (elems h) = add_mset (view a) (mset (elems h'))"
    and "\<And>e. e \<in> set (elems h) \<Longrightarrow> key (view a) \<le> key e"
proof -
  let ?n = "len h - 1"
  let ?s = "swap h 0 ?n"
  let ?d = "heap_down lt swap ?s 0 ?n"
  have ne: "0 < len h" and ph: "pop ?d = (a, h')"
    using pop by (auto simp: heap_Pop_def Let_def split: if_splits)
  have idx: "0 < len h" "?n < len h" using ne by auto
  have ks: "keys ?s = swap_nth 0 ?n (keys h)" by (rule keys_swap [OF idx])
  have es: "elems ?s = swap_nth 0 ?n (elems h)" by (rule swap [OF idx])
  have "down_inv 0 0 ?n (keys ?s)"
    using down_inv_root [of "keys h"] ok ne unfolding ks by (auto simp: heap_ok_def len)
  moreover have "good ?s" using ok idx by (simp add: heap_ok_def good_swap)
  ultimately have d: "good ?d" "heap_from 0 ?n (keys ?d)" "len ?d = len ?s"
      "mset (take ?n (elems ?d)) = mset (take ?n (elems ?s))"
      "drop ?n (elems ?d) = drop ?n (elems ?s)"
    using down_correct [of ?s 0 0 ?n] len_swap [OF idx] by auto
  have ld: "len ?d = len h" using d(3) len_swap [OF idx] by simp
  then have lde: "0 < len ?d" "length (elems ?d) = len h" using ne len by auto
  have last: "last (elems ?d) = elems h ! 0"
  proof -
    have "drop ?n (elems ?s) = [elems h ! 0]"
      unfolding es using ne by (simp add: len Cons_nth_drop_Suc [symmetric] nth_swap_nth)
    then have "drop ?n (elems ?d) = [elems h ! 0]" using d(5) by simp
    then show ?thesis using lde ne by (metis append_take_drop_id last_snoc)
  qed
  show v: "view a = elems h ! 0" using pop_last [OF lde(1)] ph last by simp
  have rest: "elems h' = butlast (elems ?d)" using pop_rest [OF lde(1)] ph by simp
  have "is_heap (keys h')"
    using heap_from_butlast [of "keys ?d"] d(2) lde(2) by (simp add: rest map_butlast)
  moreover have "good h'" using good_pop [OF d(1) lde(1)] ph by simp
  ultimately show "heap_ok h'" by (simp add: heap_ok_def)
  have "mset (elems ?d) = add_mset (last (elems ?d)) (mset (butlast (elems ?d)))"
    using lde ne by (metis append_butlast_last_id length_greater_0_conv mset_append
        add_mset_add_single mset_single_iff_right mset.simps(1) mset.simps(2))
  moreover have "mset (elems ?d) = mset (elems ?s)"
    using d(4,5) by (metis append_take_drop_id mset_append)
  moreover have "mset (elems ?s) = mset (elems h)" unfolding es using idx by (simp add: len)
  ultimately show "mset (elems h) = add_mset (view a) (mset (elems h'))"
    using last v rest by simp
  show "key (view a) \<le> key e" if e: "e \<in> set (elems h)" for e
  proof -
    obtain c where c: "c < length (elems h)" "e = elems h ! c" using e by (metis in_set_conv_nth)
    with ok heap_min [of "keys h" c] ne show ?thesis by (simp add: v heap_ok_def len)
  qed
qed

text \<open>
  The abstract queue: the elements in key order. When keys are unique the routines
  refine ordered insertion and taking the head.
\<close>

definition sorted_view :: "'h \<Rightarrow> 'e list" where
  "sorted_view h = sort_key key (elems h)"

lemma sorted_view_Push:
  assumes "heap_ok h" and "inj_on key (insert (view x) (set (elems h)))"
  shows "sorted_view (heap_Push len lt swap push h x) = insort_key key (view x) (sorted_view h)"
proof -
  let ?p = "heap_Push len lt swap push h x"
  have m: "mset (elems ?p) = add_mset (view x) (mset (elems h))"
    by (rule heap_Push_correct(2) [OF assms(1)])
  then have "set (elems ?p) = insert (view x) (set (elems h))"
    by (metis set_mset_mset set_mset_add_mset_insert)
  with assms(2) m show ?thesis
    unfolding sorted_view_def by (intro sort_key_inj_key_eq) (auto simp: sorted_insort_key)
qed

lemma sorted_view_Pop:
  assumes "heap_ok h" and "heap_Pop len lt swap pop h = Some (a, h')"
    and "inj_on key (set (elems h))"
  shows "sorted_view h = view a # sorted_view h'"
  unfolding sorted_view_def
proof (rule sort_key_inj_key_eq)
  note c = heap_Pop_correct [OF assms(1,2)]
  show "mset (elems h) = mset (view a # sort_key key (elems h'))" using c(3) by simp
  show "inj_on key (set (elems h))" by fact
  have "set (elems h') \<subseteq> set (elems h)"
    using c(3) by (metis set_mset_mset set_mset_add_mset_insert subset_insertI)
  with c(4) show "sorted (map key (view a # sort_key key (elems h')))" by auto
qed

lemma heap_Init_correct:
  assumes "good h"
  shows "heap_ok (heap_Init len lt swap h)"
    and "mset (elems (heap_Init len lt swap h)) = mset (elems h)"
proof -
  let ?n = "len h"
  have "good (fold (\<lambda>i h. heap_down lt swap h i ?n) (rev [m..<?n div 2]) h) \<and>
      heap_from m ?n (keys (fold (\<lambda>i h. heap_down lt swap h i ?n) (rev [m..<?n div 2]) h)) \<and>
      len (fold (\<lambda>i h. heap_down lt swap h i ?n) (rev [m..<?n div 2]) h) = ?n \<and>
      mset (elems (fold (\<lambda>i h. heap_down lt swap h i ?n) (rev [m..<?n div 2]) h)) = mset (elems h)"
    if "m \<le> ?n div 2" for m
    using that
  proof (induction rule: inc_induct)
    case base
    then show ?case using assms by (auto simp: heap_from_def parent_def)
  next
    case (step m)
    let ?f = "fold (\<lambda>i h. heap_down lt swap h i ?n) (rev [Suc m..<?n div 2]) h"
    have "down_inv m m ?n (keys ?f)"
      using step.IH by (intro down_inv_start) simp
    with step.IH have "good (heap_down lt swap ?f m ?n) \<and>
        heap_from m ?n (keys (heap_down lt swap ?f m ?n)) \<and>
        len (heap_down lt swap ?f m ?n) = len ?f \<and>
        mset (take ?n (elems (heap_down lt swap ?f m ?n))) = mset (take ?n (elems ?f)) \<and>
        drop ?n (elems (heap_down lt swap ?f m ?n)) = drop ?n (elems ?f)"
      by (intro down_correct) auto
    moreover from this step.IH have "len (heap_down lt swap ?f m ?n) = ?n" by simp
    ultimately show ?case
      using step by (simp add: upt_conv_Cons) (simp add: len)
  qed
  from this [of 0] show "heap_ok (heap_Init len lt swap h)"
    and "mset (elems (heap_Init len lt swap h)) = mset (elems h)"
    by (auto simp: heap_ok_def heap_Init_def Let_def len)
qed

end

end
