(* ===== verification/Float64.thy ===== *)
theory Float64
  imports Complex_Main Prelude "HOL-Library.Log_Nat"
begin

text \<open>
  \<^verbatim>\<open>float64\<close>: IEEE 754 binary64 as Go uses it on amd64, each operation rounding to
  nearest, ties to even, with subnormals and overflow to infinity (no fused
  multiply-add). Finite values are rationals; the sign of zero is not kept, because the
  program never divides by a zero it computed and \<open>0\<close> and \<open>-0\<close> compare equal.
  \<open>round64\<close> is the rounding; that it is monotone and exact on small integers is what
  the bounds of the load, error-rate and back-off computations rest on.
\<close>

datatype float64 = Fin rat | PInf | NInf | NaN

section \<open>Rounding\<close>

text \<open>The exponent \<open>k\<close> with \<open>2 ^ k \<le> q < 2 ^ (k + 1)\<close>, for a positive rational.\<close>

definition ilog2 :: "rat \<Rightarrow> int" where
  "ilog2 q = (case quotient_of q of (n, d) \<Rightarrow>
     let k = bitlen n - bitlen d in if 2 powi k \<le> q then k else k - 1)"

text \<open>Round half to even.\<close>

definition rne :: "rat \<Rightarrow> int" where
  "rne x = (let f = \<lfloor>x\<rfloor>; r = x - of_int f
     in if r < 1 / 2 then f else if 1 / 2 < r then f + 1 else if even f then f else f + 1)"

text \<open>The exponent of the last of the 53 bits; \<open>-1074\<close> is that of the subnormals.\<close>

definition ulp_exp :: "rat \<Rightarrow> int" where
  "ulp_exp q = max (ilog2 q - 52) (-1074)"

definition round_pos :: "rat \<Rightarrow> rat" where
  "round_pos q = of_int (rne (q / 2 powi ulp_exp q)) * 2 powi ulp_exp q"

definition round_rat :: "rat \<Rightarrow> rat" where
  "round_rat q = (if q = 0 then 0 else if 0 < q then round_pos q else - round_pos (- q))"

definition round64 :: "rat \<Rightarrow> float64" where
  "round64 q =
     (let v = round_rat q
      in if 2 ^ 1024 \<le> v then PInf else if v \<le> - (2 ^ 1024) then NInf else Fin v)"

section \<open>Operations\<close>

fun f64_neg :: "float64 \<Rightarrow> float64" where
  "f64_neg (Fin x) = Fin (- x)"
| "f64_neg PInf = NInf"
| "f64_neg NInf = PInf"
| "f64_neg NaN = NaN"

fun f64_add :: "float64 \<Rightarrow> float64 \<Rightarrow> float64" where
  "f64_add (Fin x) (Fin y) = round64 (x + y)"
| "f64_add NaN _ = NaN"
| "f64_add _ NaN = NaN"
| "f64_add PInf NInf = NaN"
| "f64_add NInf PInf = NaN"
| "f64_add PInf _ = PInf"
| "f64_add _ PInf = PInf"
| "f64_add NInf _ = NInf"
| "f64_add _ NInf = NInf"

definition f64_inf :: "rat \<Rightarrow> float64" where
  "f64_inf s = (if s = 0 then NaN else if 0 < s then PInf else NInf)"

fun f64_sgn :: "float64 \<Rightarrow> rat" where
  "f64_sgn (Fin x) = sgn x"
| "f64_sgn PInf = 1"
| "f64_sgn NInf = -1"
| "f64_sgn NaN = 0"

fun f64_mul :: "float64 \<Rightarrow> float64 \<Rightarrow> float64" where
  "f64_mul (Fin x) (Fin y) = round64 (x * y)"
| "f64_mul NaN _ = NaN"
| "f64_mul _ NaN = NaN"
| "f64_mul x y = f64_inf (f64_sgn x * f64_sgn y)"

text \<open>Division by zero follows the sign of the dividend (the divisor is \<open>+0\<close>).\<close>

fun f64_div :: "float64 \<Rightarrow> float64 \<Rightarrow> float64" where
  "f64_div (Fin x) (Fin y) = (if y = 0 then f64_inf (sgn x) else round64 (x / y))"
| "f64_div NaN _ = NaN"
| "f64_div _ NaN = NaN"
| "f64_div (Fin x) _ = Fin 0"
| "f64_div x (Fin y) = f64_inf (f64_sgn x * (if y < 0 then -1 else 1))"
| "f64_div _ _ = NaN"

fun f64_less :: "float64 \<Rightarrow> float64 \<Rightarrow> bool" where
  "f64_less (Fin x) (Fin y) = (x < y)"
| "f64_less NaN _ = False"
| "f64_less _ NaN = False"
| "f64_less NInf y = (y \<noteq> NInf)"
| "f64_less _ NInf = False"
| "f64_less x PInf = (x \<noteq> PInf)"
| "f64_less PInf _ = False"

definition f64_of_int :: "int \<Rightarrow> float64" where
  "f64_of_int n = round64 (of_int n)"

text \<open>
  Conversion to \<^verbatim>\<open>int64\<close> drops the fraction; out of range the language leaves the
  value to the implementation, so it is a parameter.
\<close>

definition rat_trunc :: "rat \<Rightarrow> int" where
  "rat_trunc x = (if 0 \<le> x then \<lfloor>x\<rfloor> else - \<lfloor>- x\<rfloor>)"

fun f64_to_int64 :: "(float64 \<Rightarrow> int) \<Rightarrow> float64 \<Rightarrow> int" where
  "f64_to_int64 impl (Fin x) =
     (if min_int64 \<le> rat_trunc x \<and> rat_trunc x \<le> max_int64 then rat_trunc x else impl (Fin x))"
| "f64_to_int64 impl x = impl x"

section \<open>Rounding to an integer\<close>

lemma rne_cases: "rne x = \<lfloor>x\<rfloor> \<or> rne x = \<lfloor>x\<rfloor> + 1"
  by (simp add: rne_def Let_def)

lemma rne_of_int [simp]: "rne (of_int k) = k"
  by (simp add: rne_def)

lemma rne_mono: "x \<le> y \<Longrightarrow> rne x \<le> rne y"
proof -
  assume le: "x \<le> y"
  then have fl: "\<lfloor>x\<rfloor> \<le> \<lfloor>y\<rfloor>" by (rule floor_mono)
  show ?thesis
  proof (cases "\<lfloor>x\<rfloor> = \<lfloor>y\<rfloor>")
    case True
    with le show ?thesis by (auto simp: rne_def Let_def)
  next
    case False
    with fl rne_cases [of x] rne_cases [of y] show ?thesis by linarith
  qed
qed

lemma rne_le_int: "x \<le> of_int k \<Longrightarrow> rne x \<le> k"
  using rne_mono [of x "of_int k"] by simp

lemma rne_ge_int: "of_int k \<le> x \<Longrightarrow> k \<le> rne x"
  using rne_mono [of "of_int k" x] by simp

section \<open>The binary exponent\<close>

lemma powi2_less_imp_less: "2 powi m < (2 powi n :: rat) \<Longrightarrow> m < n"
  using power_int_increasing [of n m "2 :: rat"] by (force simp: not_less [symmetric])

lemma powi2_le_imp_le: "2 powi m \<le> (2 powi n :: rat) \<Longrightarrow> m \<le> n"
  using power_int_strict_increasing [of n m "2 :: rat"] by force

lemma ilog2_bounds:
  assumes "0 < q"
  shows "2 powi ilog2 q \<le> q" and "q < 2 powi (ilog2 q + 1)"
proof -
  obtain n d where nd: "quotient_of q = (n, d)" by (cases "quotient_of q")
  have d: "0 < d" using nd by (rule quotient_of_denom_pos)
  have q: "q = of_int n / of_int d" using nd by (rule quotient_of_div)
  have n: "0 < n" using assms d by (simp add: q zero_less_divide_iff)
  let ?a = "bitlen n" let ?b = "bitlen d"
  have ab: "1 \<le> ?a" "1 \<le> ?b"
    using n d bitlen_eq_zero_iff [of n] bitlen_eq_zero_iff [of d] bitlen_nonneg [of n] bitlen_nonneg [of d]
    by linarith+
  have pw: "(of_int (2 ^ nat m) :: rat) = 2 powi m" if "0 \<le> m" for m
    using that by (simp add: power_int_def)
  have nb: "2 powi (?a - 1) \<le> (of_int n :: rat)" "(of_int n :: rat) < 2 powi ?a"
    using bitlen_bounds [OF n] ab by (simp_all flip: pw)
  have db: "2 powi (?b - 1) \<le> (of_int d :: rat)" "(of_int d :: rat) < 2 powi ?b"
    using bitlen_bounds [OF d] ab by (simp_all flip: pw)
  have lo: "2 powi (?a - ?b - 1) \<le> q"
  proof -
    have "2 powi (?a - ?b - 1) = 2 powi (?a - 1) / (2 powi ?b :: rat)"
      by (simp add: power_int_diff [symmetric] algebra_simps)
    also have "\<dots> \<le> of_int n / 2 powi ?b" using nb(1) by (simp add: divide_right_mono)
    also have "\<dots> \<le> of_int n / of_int d" using db(2) n d by (intro divide_left_mono) auto
    finally show ?thesis by (simp add: q)
  qed
  have hi: "q < 2 powi (?a - ?b + 1)"
  proof -
    have "q \<le> of_int n / 2 powi (?b - 1)"
      using db(1) n d unfolding q by (intro divide_left_mono) auto
    also have "\<dots> < 2 powi ?a / 2 powi (?b - 1)" using nb(2) by (simp add: divide_strict_right_mono)
    also have "\<dots> = 2 powi (?a - ?b + 1)" by (simp add: power_int_diff [symmetric] algebra_simps)
    finally show ?thesis .
  qed
  show "2 powi ilog2 q \<le> q" and "q < 2 powi (ilog2 q + 1)"
    using lo hi by (auto simp: ilog2_def nd Let_def)
qed

lemma ilog2_mono:
  assumes "0 < x" "x \<le> y"
  shows "ilog2 x \<le> ilog2 y"
proof (rule ccontr)
  assume "\<not> ilog2 x \<le> ilog2 y"
  then have "2 powi (ilog2 y + 1) \<le> (2 powi ilog2 x :: rat)"
    by (intro power_int_increasing) auto
  with ilog2_bounds [OF assms(1)] ilog2_bounds [of y] assms show False by linarith
qed

section \<open>Monotonicity and exactness\<close>

lemma round_pos_mono:
  assumes "0 < x" "x \<le> y"
  shows "round_pos x \<le> round_pos y"
proof -
  let ?e = "ulp_exp x" let ?f = "ulp_exp y"
  have ef: "?e \<le> ?f" using ilog2_mono [OF assms] by (simp add: ulp_exp_def)
  show ?thesis
  proof (cases "?e = ?f")
    case True
    have "x / 2 powi ?f \<le> y / 2 powi ?f" using assms by (simp add: divide_right_mono)
    then show ?thesis using True by (simp add: round_pos_def rne_mono mult_right_mono)
  next
    case False
    let ?k = "ilog2 y"
    have k: "?f = ?k - 52" "ilog2 x + 1 \<le> ?k" "?e \<le> ?k"
      using False ef by (auto simp: ulp_exp_def max_def split: if_splits)
    have scale: "of_int (2 ^ nat m) * 2 powi e = (2 powi (m + e) :: rat)" if "0 \<le> m" for m e
      using that by (simp add: power_int_add power_int_nonneg_exp)
    have "x < 2 powi (ilog2 x + 1)" using assms by (simp add: ilog2_bounds)
    also have "\<dots> \<le> 2 powi ?k" using k by (intro power_int_increasing) auto
    also have "\<dots> = of_int (2 ^ nat (?k - ?e)) * 2 powi ?e" using k scale [of "?k - ?e" ?e] by simp
    finally have "x / 2 powi ?e \<le> of_int (2 ^ nat (?k - ?e))" by (simp add: divide_le_eq)
    then have "rne (x / 2 powi ?e) \<le> 2 ^ nat (?k - ?e)" by (rule rne_le_int)
    then have "round_pos x \<le> of_int (2 ^ nat (?k - ?e)) * 2 powi ?e"
      unfolding round_pos_def by (intro mult_right_mono) (simp_all only: of_int_le_iff zero_le_power_int zero_le_numeral)
    also have "\<dots> = of_int (2 ^ nat (?k - ?f)) * 2 powi ?f"
      using k scale [of "?k - ?e" ?e] scale [of "?k - ?f" ?f] by simp
    also have "\<dots> \<le> round_pos y"
    proof -
      have "of_int (2 ^ nat (?k - ?f)) * 2 powi ?f \<le> y"
        using k scale [of "?k - ?f" ?f] ilog2_bounds(1) [of y] assms by simp
      then have "of_int (2 ^ nat (?k - ?f)) \<le> y / 2 powi ?f" by (simp add: le_divide_eq)
      then have "2 ^ nat (?k - ?f) \<le> rne (y / 2 powi ?f)" by (rule rne_ge_int)
      then show ?thesis
        unfolding round_pos_def by (intro mult_right_mono) (simp_all only: of_int_le_iff zero_le_power_int zero_le_numeral)
    qed
    finally show ?thesis .
  qed
qed

lemma round_pos_nonneg: "0 < q \<Longrightarrow> 0 \<le> round_pos q"
  unfolding round_pos_def by (intro mult_nonneg_nonneg) (simp_all add: rne_ge_int)

lemma round_pos_exact:
  assumes "0 < q" and "q = of_int m * 2 powi ulp_exp q"
  shows "round_pos q = q"
proof -
  have "q / 2 powi ulp_exp q = of_int m" by (subst assms(2)) simp
  then show ?thesis using assms(2) by (simp add: round_pos_def)
qed

lemma round_pos_int:
  assumes "0 < n" "n \<le> 2 ^ 53"
  shows "round_pos (of_int n) = of_int n"
proof (cases "n = 2 ^ 53")
  case True
  have "ilog2 (of_int n :: rat) = 53"
  proof (rule antisym)
    have "2 powi (ilog2 (of_int n :: rat)) \<le> (2 powi 53 :: rat)"
      using ilog2_bounds(1) [of "of_int n"] True by simp
    then show "ilog2 (of_int n :: rat) \<le> 53" by (rule powi2_le_imp_le)
    have "(2 powi 53 :: rat) < 2 powi (ilog2 (of_int n :: rat) + 1)"
      using ilog2_bounds(2) [of "of_int n"] True by simp
    then have "53 < ilog2 (of_int n :: rat) + 1" by (rule powi2_less_imp_less)
    then show "53 \<le> ilog2 (of_int n :: rat)" by simp
  qed
  then have "ulp_exp (of_int n) = 1" by (simp add: ulp_exp_def)
  then show ?thesis using True by (intro round_pos_exact [where m = "2 ^ 52"]) simp_all
next
  case False
  have "2 powi (ilog2 (of_int n :: rat)) \<le> (of_int n :: rat)"
    using ilog2_bounds(1) [of "of_int n"] assms by simp
  also have "\<dots> < 2 powi 53"
  proof -
    have "n < 2 ^ 53" using assms False by simp
    then have "(of_int n :: rat) < of_int (2 ^ 53)" by (simp only: of_int_less_iff)
    then show ?thesis by simp
  qed
  finally have "ilog2 (of_int n :: rat) < 53" by (rule powi2_less_imp_less)
  then have e: "ulp_exp (of_int n) \<le> 0" by (simp add: ulp_exp_def)
  let ?m = "n * 2 ^ nat (- ulp_exp (of_int n))"
  have "(of_int n :: rat) = of_int ?m * 2 powi ulp_exp (of_int n)"
    using e by (simp add: power_int_def power_inverse [symmetric] field_simps power_mult_distrib [symmetric])
  then show ?thesis using assms by (intro round_pos_exact [where m = ?m]) simp_all
qed

lemma round_rat_mono: "x \<le> y \<Longrightarrow> round_rat x \<le> round_rat y"
proof -
  assume le: "x \<le> y"
  consider "0 < x" | "x = 0" | "x < 0" "y < 0" | "x < 0" "0 \<le> y" by linarith
  then show ?thesis
  proof cases
    case 1
    then show ?thesis using le round_pos_mono [of x y] by (simp add: round_rat_def)
  next
    case 2
    then show ?thesis using le round_pos_nonneg [of y] by (auto simp: round_rat_def)
  next
    case 3
    then show ?thesis using le round_pos_mono [of "- y" "- x"] by (simp add: round_rat_def)
  next
    case 4
    then show ?thesis
      using round_pos_nonneg [of "- x"] round_pos_nonneg [of y] by (auto simp: round_rat_def)
  qed
qed

lemma round_rat_int: "\<bar>n\<bar> \<le> 2 ^ 53 \<Longrightarrow> round_rat (of_int n) = of_int n"
  using round_pos_int [of n] round_pos_int [of "- n"] by (auto simp: round_rat_def)

lemma round64_mono:
  "x \<le> y \<Longrightarrow> round64 x = Fin u \<Longrightarrow> round64 y = Fin v \<Longrightarrow> u \<le> v"
  using round_rat_mono [of x y] by (auto simp: round64_def Let_def split: if_splits)

lemma round64_between:
  assumes "of_int a \<le> x" "x \<le> of_int b" and "\<bar>a\<bar> \<le> 2 ^ 53" "\<bar>b\<bar> \<le> 2 ^ 53"
  shows "\<exists>v. round64 x = Fin v \<and> of_int a \<le> v \<and> v \<le> of_int b"
proof -
  have lo: "of_int a \<le> round_rat x" and hi: "round_rat x \<le> of_int b"
    using round_rat_mono [OF assms(1)] round_rat_mono [OF assms(2)] assms(3,4)
    by (simp_all add: round_rat_int)
  have big: "(2 ^ 53 :: rat) < 2 ^ 1024" by (rule power_strict_increasing) simp_all
  have "(of_int b :: rat) \<le> of_int (2 ^ 53)" "(of_int (- (2 ^ 53)) :: rat) \<le> of_int a"
    using assms(3,4) by (simp_all only: of_int_le_iff)
  then have b: "(of_int b :: rat) \<le> 2 ^ 53" "- (2 ^ 53) \<le> (of_int a :: rat)" by simp_all
  have "round_rat x < 2 ^ 1024" using hi b(1) big by (rule le_less_trans [OF order_trans])
  moreover have "- (2 ^ 1024) < round_rat x" using lo b(2) big by linarith
  ultimately show ?thesis using lo hi by (simp add: round64_def Let_def)
qed

lemma round64_int: "\<bar>n\<bar> \<le> 2 ^ 53 \<Longrightarrow> round64 (of_int n) = Fin (of_int n)"
  using round64_between [of n "of_int n" n] by force

lemma f64_of_int_exact: "\<bar>n\<bar> \<le> 2 ^ 53 \<Longrightarrow> f64_of_int n = Fin (of_int n)"
  by (simp add: f64_of_int_def round64_int)

text \<open>The 64-bit integers are far below the overflow threshold.\<close>

lemma f64_of_int_finite:
  assumes "0 \<le> n" and "n \<le> max_int64"
  shows "\<exists>v. f64_of_int n = Fin v \<and> 0 \<le> v \<and> (0 < n \<longrightarrow> 1 \<le> v)"
proof -
  have r: "round_rat (of_int n) \<le> round_rat (2 ^ 63)"
    using assms(2) by (intro round_rat_mono) (simp add: max_int64_def)
  have p: "round_rat (2 ^ 63) = 2 ^ 63" by code_simp
  have "(2 :: rat) ^ 63 < 2 ^ 1024" by (rule power_strict_increasing) simp_all
  then have lt: "round_rat (of_int n) < 2 ^ 1024" using r p by linarith
  have nn: "0 \<le> round_rat (of_int n)"
    using round_rat_mono [of 0 "of_int n"] round_rat_int [of 0] assms(1) by simp
  have n: "round64 (of_int n) = Fin (round_rat (of_int n)) \<and> 0 \<le> round_rat (of_int n)"
    using nn lt by (simp add: round64_def Let_def)
  have "1 \<le> round_rat (of_int n)" if "0 < n"
    using round_rat_mono [of 1 "of_int n"] round_rat_int [of 1] that by simp
  with n show ?thesis by (auto simp: f64_of_int_def)
qed

lemma f64_of_int_mono:
  assumes "0 \<le> m" "m \<le> n" "n \<le> max_int64" "f64_of_int m = Fin u" "f64_of_int n = Fin v"
  shows "u \<le> v"
proof -
  have "(of_int m :: rat) \<le> of_int n" using assms(2) by simp
  then show ?thesis by (rule round64_mono) (use assms(4,5) in \<open>simp_all only: f64_of_int_def\<close>)
qed

text \<open>Numbers in [0, 1].\<close>

definition f64_unit :: "float64 \<Rightarrow> bool" where
  "f64_unit x \<longleftrightarrow> (case x of Fin v \<Rightarrow> 0 \<le> v \<and> v \<le> 1 | _ \<Rightarrow> False)"

lemma f64_unitE: "f64_unit x \<Longrightarrow> (\<And>v. x = Fin v \<Longrightarrow> 0 \<le> v \<Longrightarrow> v \<le> 1 \<Longrightarrow> thesis) \<Longrightarrow> thesis"
  by (cases x) (simp_all add: f64_unit_def)

text \<open>A part of a positive whole.\<close>

lemma f64_div_unit:
  assumes "0 \<le> m" "m \<le> n" "0 < n" "n \<le> max_int64"
  shows "f64_unit (f64_div (f64_of_int m) (f64_of_int n))"
proof -
  obtain u where u: "f64_of_int m = Fin u" "0 \<le> u" using f64_of_int_finite [of m] assms by auto
  obtain v where v: "f64_of_int n = Fin v" "1 \<le> v" using f64_of_int_finite [of n] assms by auto
  have "u \<le> v" by (rule f64_of_int_mono [OF assms(1,2,4) u(1) v(1)])
  then have "0 \<le> u / v" "u / v \<le> 1" using u v by simp_all
  then show ?thesis using round64_between [of 0 "u / v" 1] u v by (auto simp: f64_unit_def)
qed

end
