(* ===== verification/Models.thy ===== *)
theory Models
  imports Float64
begin

text \<open>
  \<^verbatim>\<open>pkg/models/message.go\<close> and the error values of
  \<^verbatim>\<open>internal/priorityqueue\<close>: priorities (an \<^verbatim>\<open>int\<close> type, so a decoded message can
  carry any number), message and conversation records, and the store through which
  \<^verbatim>\<open>*models.Message\<close> pointers are read and written: a queue, a worker and the dead
  letter queue hold references to the same message, so a change made through one is seen
  through all.
\<close>

section \<open>Priorities\<close>

type_synonym Priority = int

definition PriorityRealtime :: Priority where "PriorityRealtime = 1"
definition PriorityHigh :: Priority where "PriorityHigh = 2"
definition PriorityNormal :: Priority where "PriorityNormal = 3"
definition PriorityLow :: Priority where "PriorityLow = 4"

lemmas priority_defs = PriorityRealtime_def PriorityHigh_def PriorityNormal_def PriorityLow_def

definition Priority_String :: "Priority \<Rightarrow> string" where
  "Priority_String p =
     (if p = PriorityRealtime then ''realtime''
      else if p = PriorityHigh then ''high''
      else if p = PriorityNormal then ''normal''
      else if p = PriorityLow then ''low''
      else ''unknown'')"

lemma Priority_String_inj:
  "p \<in> {1..4} \<Longrightarrow> Priority_String p = Priority_String q \<Longrightarrow> p = q"
  by (auto simp: Priority_String_def priority_defs split: if_splits)

section \<open>Messages and conversations\<close>

text \<open>Values of \<^verbatim>\<open>interface{}\<close> that the program stores in or reads from metadata.\<close>

datatype any =
    ANil
  | ABool bool
  | AInt int
  | AFloat float64
  | AString string
  | ATime go_time
  | AList "any list"
  | AMap "(string \<times> any) list"

type_synonym metadata = "string \<Rightarrow> any option"

type_synonym MessageStatus = string

definition StatusPending :: MessageStatus where "StatusPending = ''pending''"
definition StatusProcessing :: MessageStatus where "StatusProcessing = ''processing''"
definition StatusCompleted :: MessageStatus where "StatusCompleted = ''completed''"
definition StatusFailed :: MessageStatus where "StatusFailed = ''failed''"
definition StatusTimeout :: MessageStatus where "StatusTimeout = ''timeout''"

type_synonym ConversationState = string

definition ConversationStateActive :: ConversationState where
  "ConversationStateActive = ''active''"
definition ConversationStateInactive :: ConversationState where
  "ConversationStateInactive = ''inactive''"
definition ConversationStateCompleted :: ConversationState where
  "ConversationStateCompleted = ''completed''"
definition ConversationStateArchived :: ConversationState where
  "ConversationStateArchived = ''archived''"

text \<open>\<open>None\<close> in a pointer field, or as the metadata map, is \<^verbatim>\<open>nil\<close>.\<close>

record message =
  m_ID :: string
  m_ConversationID :: string
  m_UserID :: string
  m_Content :: string
  m_Priority :: Priority
  m_Status :: MessageStatus
  m_QueueName :: string
  m_RetryCount :: int
  m_MaxRetries :: int
  m_Timeout :: duration
  m_CreatedAt :: go_time
  m_UpdatedAt :: go_time
  m_ScheduledAt :: "go_time option"
  m_CompletedAt :: "go_time option"
  m_Metadata :: "metadata option"

text \<open>The new identifier is drawn from \<^verbatim>\<open>uuid.New()\<close>, a library: it is an argument.\<close>

definition NewMessage ::
    "string \<Rightarrow> string \<Rightarrow> string \<Rightarrow> string \<Rightarrow> Priority \<Rightarrow> go_time \<Rightarrow> go_time \<Rightarrow> message" where
  "NewMessage uuid conversationID userID content priority now1 now2 =
     \<lparr>m_ID = uuid, m_ConversationID = conversationID, m_UserID = userID, m_Content = content,
      m_Priority = priority, m_Status = StatusPending, m_QueueName = '''', m_RetryCount = 0,
      m_MaxRetries = 3, m_Timeout = 30 * second, m_CreatedAt = now1, m_UpdatedAt = now2,
      m_ScheduledAt = None, m_CompletedAt = None, m_Metadata = Some Map.empty\<rparr>"

record Conversation =
  c_ID :: string
  c_UserID :: string
  c_Title :: string
  c_Context :: string
  c_Status :: string
  c_State :: ConversationState
  c_Priority :: Priority
  c_MessageCount :: int
  c_LastActivity :: go_time
  c_LastActiveTime :: go_time
  c_CreatedAt :: go_time
  c_UpdatedAt :: go_time
  c_CompletedAt :: go_time
  c_Messages :: "message list"
  c_Metadata :: "metadata option"

section \<open>Message references\<close>

type_synonym mref = nat
type_synonym mstore = "mref \<Rightarrow> message"

section \<open>Queue errors\<close>

datatype QueueError = ErrQueueNotFound | ErrQueueFull | ErrQueueEmpty | ErrIndexOutOfRange

fun QueueError_Code :: "QueueError \<Rightarrow> string" where
  "QueueError_Code ErrQueueNotFound = ''QUEUE_NOT_FOUND''"
| "QueueError_Code ErrQueueFull = ''QUEUE_FULL''"
| "QueueError_Code ErrQueueEmpty = ''QUEUE_EMPTY''"
| "QueueError_Code ErrIndexOutOfRange = ''INDEX_OUT_OF_RANGE''"

fun QueueError_Error :: "QueueError \<Rightarrow> string" where
  "QueueError_Error ErrQueueNotFound = ''queue not found''"
| "QueueError_Error ErrQueueFull = ''queue is full''"
| "QueueError_Error ErrQueueEmpty = ''queue is empty''"
| "QueueError_Error ErrIndexOutOfRange = ''index out of range''"

end
