(* ===== verification/MultiLevelQueue.thy ===== *)
theory MultiLevelQueue
  imports GoHeap Models
begin

text \<open>
  \<^verbatim>\<open>internal/priorityqueue/queue.go\<close>: the heap of \<^verbatim>\<open>QueueItem\<close>s
  (\<open>pq_*\<close>, the methods of \<^verbatim>\<open>heap.Interface\<close>) and \<^verbatim>\<open>MultiLevelQueue\<close>, the named
  heaps with their size limit and counters (\<open>mlq_*\<close>). The heap interprets the
  interface of \<open>GoHeap\<close>; the queue is proved to keep its invariant, to hand messages out
  in (priority, arrival) order, and to account for every message in its counters.

  Each method holds \<^verbatim>\<open>mlq.mu\<close> (the counter updates \<^verbatim>\<open>mlq.statsMu\<close>), so a concurrent
  run is a sequence of whole operations, \<open>mlq_run\<close>. The payload \<open>'m\<close> is the message
  pointer.
\<close>

section \<open>The heap of items\<close>

record 'm QueueItem =
  qi_Message :: 'm
  qi_Priority :: int
  qi_Timestamp :: go_time
  qi_Index :: int

type_synonym 'm PriorityQueue = "'m QueueItem list"

definition pq_Len :: "'m PriorityQueue \<Rightarrow> nat" where
  "pq_Len pq = length pq"

definition pq_Less :: "'m PriorityQueue \<Rightarrow> nat \<Rightarrow> nat \<Rightarrow> bool" where
  "pq_Less pq i j =
     (if qi_Priority (pq ! i) = qi_Priority (pq ! j)
      then time_before (qi_Timestamp (pq ! i)) (qi_Timestamp (pq ! j))
      else qi_Priority (pq ! i) < qi_Priority (pq ! j))"

definition pq_Swap :: "'m PriorityQueue \<Rightarrow> nat \<Rightarrow> nat \<Rightarrow> 'm PriorityQueue" where
  "pq_Swap pq i j =
     (let pq1 = pq[i := pq ! j, j := pq ! i];
          pq2 = pq1[i := (pq1 ! i)\<lparr>qi_Index := int i\<rparr>]
      in pq2[j := (pq2 ! j)\<lparr>qi_Index := int j\<rparr>])"

definition pq_Push :: "'m PriorityQueue \<Rightarrow> 'm QueueItem \<Rightarrow> 'm PriorityQueue" where
  "pq_Push pq item = pq @ [item\<lparr>qi_Index := int (length pq)\<rparr>]"

definition pq_Pop :: "'m PriorityQueue \<Rightarrow> 'm QueueItem \<times> 'm PriorityQueue" where
  "pq_Pop pq = (let n = length pq in ((pq ! (n - 1))\<lparr>qi_Index := -1\<rparr>, take (n - 1) pq))"

definition pq_heap_Push :: "'m PriorityQueue \<Rightarrow> 'm QueueItem \<Rightarrow> 'm PriorityQueue" where
  "pq_heap_Push = heap_Push pq_Len pq_Less pq_Swap pq_Push"

definition pq_heap_Pop :: "'m PriorityQueue \<Rightarrow> ('m QueueItem \<times> 'm PriorityQueue) option" where
  "pq_heap_Pop = heap_Pop pq_Len pq_Less pq_Swap pq_Pop"

definition pq_heap_Init :: "'m PriorityQueue \<Rightarrow> 'm PriorityQueue" where
  "pq_heap_Init = heap_Init pq_Len pq_Less pq_Swap"

text \<open>
  The ordering key: priority first, arrival time second. Its order is the one
  \<^verbatim>\<open>Less\<close> computes.
\<close>

datatype item_key = Key (key_prio: int) (key_time: go_time)

instantiation item_key :: linorder
begin

definition less_item_key :: "item_key \<Rightarrow> item_key \<Rightarrow> bool" where
  "a < b \<longleftrightarrow> key_prio a < key_prio b \<or> key_prio a = key_prio b \<and> key_time a < key_time b"

definition less_eq_item_key :: "item_key \<Rightarrow> item_key \<Rightarrow> bool" where
  "a \<le> b \<longleftrightarrow> key_prio a < key_prio b \<or> key_prio a = key_prio b \<and> key_time a \<le> key_time b"

instance
  by standard
    (auto simp: less_item_key_def less_eq_item_key_def intro: item_key.expand)

end

type_synonym 'm entry = "'m \<times> int \<times> go_time"

definition entry_of :: "'m QueueItem \<Rightarrow> 'm entry" where
  "entry_of it = (qi_Message it, qi_Priority it, qi_Timestamp it)"

definition entry_key :: "'m entry \<Rightarrow> item_key" where
  "entry_key e = Key (fst (snd e)) (snd (snd e))"

definition pq_entries :: "'m PriorityQueue \<Rightarrow> 'm entry list" where
  "pq_entries pq = map entry_of pq"

definition pq_indexed :: "'m PriorityQueue \<Rightarrow> bool" where
  "pq_indexed pq \<longleftrightarrow> (\<forall>i < length pq. qi_Index (pq ! i) = int i)"

lemma entry_of_index [simp]: "entry_of (it\<lparr>qi_Index := k\<rparr>) = entry_of it"
  by (simp add: entry_of_def)

lemma pq_Less_key:
  "i < length pq \<Longrightarrow> j < length pq \<Longrightarrow>
   pq_Less pq i j \<longleftrightarrow> entry_key (pq_entries pq ! i) < entry_key (pq_entries pq ! j)"
  by (auto simp: pq_Less_def entry_key_def pq_entries_def entry_of_def less_item_key_def
      time_before_def)

lemma length_pq_Swap [simp]: "length (pq_Swap pq i j) = length pq"
  by (simp add: pq_Swap_def Let_def)

lemma pq_entries_Swap:
  "i < length pq \<Longrightarrow> j < length pq \<Longrightarrow> pq_entries (pq_Swap pq i j) = swap_nth i j (pq_entries pq)"
  by (rule nth_equalityI)
    (auto simp: pq_entries_def pq_Swap_def Let_def swap_nth_def nth_list_update)

lemma pq_indexed_Swap:
  "pq_indexed pq \<Longrightarrow> i < length pq \<Longrightarrow> j < length pq \<Longrightarrow> pq_indexed (pq_Swap pq i j)"
  by (auto simp: pq_indexed_def pq_Swap_def Let_def nth_list_update)

interpretation pq: heap_interface pq_Len pq_Less pq_Swap pq_Push pq_Pop
    pq_entries entry_of entry_key pq_indexed
proof unfold_locales
  show "pq_Len h = length (pq_entries h)" for h :: "'m PriorityQueue"
    by (simp add: pq_Len_def pq_entries_def)
  show "pq_Less h i j \<longleftrightarrow> entry_key (pq_entries h ! i) < entry_key (pq_entries h ! j)"
    if "i < pq_Len h" "j < pq_Len h" for h :: "'m PriorityQueue" and i j
    using that by (simp add: pq_Len_def pq_Less_key)
  show "pq_entries (pq_Swap h i j) = swap_nth i j (pq_entries h)"
    if "i < pq_Len h" "j < pq_Len h" for h :: "'m PriorityQueue" and i j
    using that by (simp add: pq_Len_def pq_entries_Swap)
  show "pq_entries (pq_Push h x) = pq_entries h @ [entry_of x]" for h :: "'m PriorityQueue" and x
    by (simp add: pq_entries_def pq_Push_def)
  show "pq_entries (snd (pq_Pop h)) = butlast (pq_entries h)"
    if "0 < pq_Len h" for h :: "'m PriorityQueue"
    by (simp add: pq_entries_def pq_Pop_def Let_def butlast_conv_take take_map)
  show "entry_of (fst (pq_Pop h)) = last (pq_entries h)"
    if "0 < pq_Len h" for h :: "'m PriorityQueue"
    using that by (simp add: pq_entries_def pq_Pop_def Let_def pq_Len_def last_conv_nth)
  show "pq_indexed (pq_Swap h i j)"
    if "pq_indexed h" "i < pq_Len h" "j < pq_Len h" for h :: "'m PriorityQueue" and i j
    using that by (simp add: pq_indexed_Swap pq_Len_def)
  show "pq_indexed (pq_Push h x)" if "pq_indexed h" for h :: "'m PriorityQueue" and x
    using that by (auto simp: pq_indexed_def pq_Push_def nth_append less_Suc_eq)
  show "pq_indexed (snd (pq_Pop h))" if "pq_indexed h" "0 < pq_Len h" for h :: "'m PriorityQueue"
    using that by (auto simp: pq_indexed_def pq_Pop_def Let_def)
qed

section \<open>The multi-level queue\<close>

record QueueStats =
  qs_PendingCount :: int
  qs_ProcessingCount :: int
  qs_CompletedCount :: int
  qs_FailedCount :: int
  qs_TotalWaitTime :: duration
  qs_TotalProcessTime :: duration
  qs_LastUpdate :: go_time

record 'm MultiLevelQueue =
  mlq_queues :: "string \<Rightarrow> 'm PriorityQueue option"
  mlq_maxSize :: int
  mlq_stats :: "string \<Rightarrow> QueueStats option"

definition NewMultiLevelQueue :: "int \<Rightarrow> 'm MultiLevelQueue" where
  "NewMultiLevelQueue maxSize =
     \<lparr>mlq_queues = Map.empty, mlq_maxSize = maxSize, mlq_stats = Map.empty\<rparr>"

definition new_stats :: "go_time \<Rightarrow> QueueStats" where
  "new_stats now =
     \<lparr>qs_PendingCount = 0, qs_ProcessingCount = 0, qs_CompletedCount = 0, qs_FailedCount = 0,
      qs_TotalWaitTime = 0, qs_TotalProcessTime = 0, qs_LastUpdate = now\<rparr>"

definition mlq_AddQueue :: "string \<Rightarrow> go_time \<Rightarrow> 'm MultiLevelQueue \<Rightarrow> 'm MultiLevelQueue" where
  "mlq_AddQueue name now s =
     (if mlq_queues s name = None
      then s\<lparr>mlq_queues := (mlq_queues s)(name \<mapsto> pq_heap_Init []),
             mlq_stats := (mlq_stats s)(name \<mapsto> new_stats now)\<rparr>
      else s)"

definition mlq_updateStats ::
    "string \<Rightarrow> (QueueStats \<Rightarrow> QueueStats) \<Rightarrow> 'm MultiLevelQueue \<Rightarrow> 'm MultiLevelQueue" where
  "mlq_updateStats queueName f s =
     (case mlq_stats s queueName of
        None \<Rightarrow> s
      | Some st \<Rightarrow> s\<lparr>mlq_stats := (mlq_stats s)(queueName \<mapsto> f st)\<rparr>)"

definition mlq_Push ::
    "string \<Rightarrow> 'm \<Rightarrow> int \<Rightarrow> go_time \<Rightarrow> go_time \<Rightarrow> 'm MultiLevelQueue
     \<Rightarrow> QueueError option \<times> 'm MultiLevelQueue" where
  "mlq_Push queueName message priority now now' s =
     (case mlq_queues s queueName of
        None \<Rightarrow> (Some ErrQueueNotFound, s)
      | Some queue \<Rightarrow>
          if mlq_maxSize s > 0 \<and> int (length queue) \<ge> mlq_maxSize s then (Some ErrQueueFull, s)
          else let item = \<lparr>qi_Message = message, qi_Priority = priority,
                           qi_Timestamp = now, qi_Index = 0\<rparr>;
                   s1 = s\<lparr>mlq_queues := (mlq_queues s)(queueName \<mapsto> pq_heap_Push queue item)\<rparr>
               in (None, mlq_updateStats queueName
                    (\<lambda>st. st\<lparr>qs_PendingCount := qs_PendingCount st + 1, qs_LastUpdate := now'\<rparr>) s1))"

text \<open>\<open>the\<close> is of a \<open>Some\<close>: \<^verbatim>\<open>heap.Pop\<close> is called on a heap that is not empty.\<close>

definition mlq_Pop ::
    "string \<Rightarrow> go_time \<Rightarrow> 'm MultiLevelQueue \<Rightarrow> (QueueError + 'm) \<times> 'm MultiLevelQueue" where
  "mlq_Pop queueName now s =
     (case mlq_queues s queueName of
        None \<Rightarrow> (Inl ErrQueueEmpty, s)
      | Some queue \<Rightarrow>
          if length queue = 0 then (Inl ErrQueueEmpty, s)
          else let (item, queue') = the (pq_heap_Pop queue);
                   s1 = s\<lparr>mlq_queues := (mlq_queues s)(queueName \<mapsto> queue')\<rparr>
               in (Inr (qi_Message item), mlq_updateStats queueName
                    (\<lambda>st. st\<lparr>qs_PendingCount := qs_PendingCount st - 1,
                             qs_ProcessingCount := qs_ProcessingCount st + 1,
                             qs_LastUpdate := now\<rparr>) s1))"

definition mlq_Peek :: "string \<Rightarrow> 'm MultiLevelQueue \<Rightarrow> QueueError + 'm" where
  "mlq_Peek queueName s =
     (case mlq_queues s queueName of
        None \<Rightarrow> Inl ErrQueueEmpty
      | Some queue \<Rightarrow>
          if length queue = 0 then Inl ErrQueueEmpty else Inr (qi_Message (queue ! 0)))"

definition mlq_Size :: "string \<Rightarrow> 'm MultiLevelQueue \<Rightarrow> QueueError + int" where
  "mlq_Size queueName s =
     (case mlq_queues s queueName of
        None \<Rightarrow> Inl ErrQueueNotFound
      | Some queue \<Rightarrow> Inr (int (length queue)))"

definition mlq_GetStats :: "string \<Rightarrow> 'm MultiLevelQueue \<Rightarrow> QueueError + QueueStats" where
  "mlq_GetStats queueName s =
     (case mlq_stats s queueName of None \<Rightarrow> Inl ErrQueueNotFound | Some st \<Rightarrow> Inr st)"

definition mlq_GetAllStats :: "'m MultiLevelQueue \<Rightarrow> string \<Rightarrow> QueueStats option" where
  "mlq_GetAllStats s = (\<lambda>name. mlq_stats s name)"

definition mlq_CompleteMessage :: "string \<Rightarrow> go_time \<Rightarrow> 'm MultiLevelQueue \<Rightarrow> 'm MultiLevelQueue" where
  "mlq_CompleteMessage queueName now =
     mlq_updateStats queueName
       (\<lambda>st. st\<lparr>qs_ProcessingCount := qs_ProcessingCount st - 1,
                qs_CompletedCount := qs_CompletedCount st + 1, qs_LastUpdate := now\<rparr>)"

definition mlq_FailMessage :: "string \<Rightarrow> go_time \<Rightarrow> 'm MultiLevelQueue \<Rightarrow> 'm MultiLevelQueue" where
  "mlq_FailMessage queueName now =
     mlq_updateStats queueName
       (\<lambda>st. st\<lparr>qs_ProcessingCount := qs_ProcessingCount st - 1,
                qs_FailedCount := qs_FailedCount st + 1, qs_LastUpdate := now\<rparr>)"

section \<open>Runs\<close>

datatype 'm mlq_op =
    OpAddQueue string go_time
  | OpPush string 'm int go_time go_time
  | OpPop string go_time
  | OpComplete string go_time
  | OpFail string go_time

datatype 'm mlq_out = ODone | OError QueueError | OMessage 'm

fun mlq_step :: "'m mlq_op \<Rightarrow> 'm MultiLevelQueue \<Rightarrow> 'm mlq_out \<times> 'm MultiLevelQueue" where
  "mlq_step (OpAddQueue n t) s = (ODone, mlq_AddQueue n t s)"
| "mlq_step (OpPush n m p t t') s =
     (case mlq_Push n m p t t' s of (None, s') \<Rightarrow> (ODone, s') | (Some e, s') \<Rightarrow> (OError e, s'))"
| "mlq_step (OpPop n t) s =
     (case mlq_Pop n t s of (Inl e, s') \<Rightarrow> (OError e, s') | (Inr m, s') \<Rightarrow> (OMessage m, s'))"
| "mlq_step (OpComplete n t) s = (ODone, mlq_CompleteMessage n t s)"
| "mlq_step (OpFail n t) s = (ODone, mlq_FailMessage n t s)"

fun mlq_run :: "'m mlq_op list \<Rightarrow> 'm MultiLevelQueue \<Rightarrow> 'm mlq_out list \<times> 'm MultiLevelQueue" where
  "mlq_run [] s = ([], s)"
| "mlq_run (op # ops) s =
     (case mlq_step op s of (out, s1) \<Rightarrow> case mlq_run ops s1 of (outs, s2) \<Rightarrow> (out # outs, s2))"

lemma mlq_run_Cons:
  "mlq_run (op # ops) s =
     (fst (mlq_step op s) # fst (mlq_run ops (snd (mlq_step op s))),
      snd (mlq_run ops (snd (mlq_step op s))))"
  by (simp add: case_prod_beta)

lemma mlq_run_append:
  "mlq_run (ops @ ops') s =
     (fst (mlq_run ops s) @ fst (mlq_run ops' (snd (mlq_run ops s))),
      snd (mlq_run ops' (snd (mlq_run ops s))))"
  by (induction ops arbitrary: s) (simp_all add: mlq_run_Cons del: mlq_run.simps(2))

declare mlq_run.simps(2) [simp del]

section \<open>The heap operations in the vocabulary of entries\<close>

abbreviation pq_wf :: "'m PriorityQueue \<Rightarrow> bool" where
  "pq_wf \<equiv> pq.heap_ok"

lemma length_pq_entries [simp]: "length (pq_entries pq) = length pq"
  by (simp add: pq_entries_def)

lemma pq_Init_Nil: "pq_heap_Init [] = []"
  by (simp add: pq_heap_Init_def heap_Init_def pq_Len_def)

lemma pq_wf_Nil: "pq_wf []"
  by (simp add: pq.heap_ok_def pq_indexed_def pq_entries_def heap_from_def)

lemma pq_wf_Push: "pq_wf pq \<Longrightarrow> pq_wf (pq_heap_Push pq it)"
  unfolding pq_heap_Push_def by (rule pq.heap_Push_correct)

lemma pq_mset_Push:
  "pq_wf pq \<Longrightarrow> mset (pq_entries (pq_heap_Push pq it)) = add_mset (entry_of it) (mset (pq_entries pq))"
  unfolding pq_heap_Push_def by (rule pq.heap_Push_correct)

lemma pq_length_Push: "pq_wf pq \<Longrightarrow> length (pq_heap_Push pq it) = Suc (length pq)"
  using pq.heap_Push_len [of pq it] by (simp add: pq_heap_Push_def pq_Len_def)

lemma pq_Pop_Some: "pq \<noteq> [] \<Longrightarrow> \<exists>it pq'. pq_heap_Pop pq = Some (it, pq')"
  using pq.heap_Pop_None [of pq] by (cases "pq_heap_Pop pq") (auto simp: pq_heap_Pop_def pq_entries_def)

lemma pq_Pop_correct:
  assumes "pq_wf pq" and "pq_heap_Pop pq = Some (it, pq')"
  shows "pq_wf pq'" and "entry_of it = pq_entries pq ! 0"
    and "mset (pq_entries pq) = add_mset (entry_of it) (mset (pq_entries pq'))"
    and "\<forall>e \<in> set (pq_entries pq). entry_key (entry_of it) \<le> entry_key e"
    and "length pq = Suc (length pq')"
proof -
  note c = pq.heap_Pop_correct [OF assms(1) assms(2) [unfolded pq_heap_Pop_def]]
  show "pq_wf pq'" and "entry_of it = pq_entries pq ! 0"
    and m: "mset (pq_entries pq) = add_mset (entry_of it) (mset (pq_entries pq'))"
    and "\<forall>e \<in> set (pq_entries pq). entry_key (entry_of it) \<le> entry_key e"
    using c by auto
  from m show "length pq = Suc (length pq')"
    by (metis length_pq_entries size_add_mset size_mset)
qed

section \<open>The invariant\<close>

definition mlq_inv :: "'m MultiLevelQueue \<Rightarrow> bool" where
  "mlq_inv s \<longleftrightarrow>
     dom (mlq_stats s) = dom (mlq_queues s) \<and>
     (\<forall>n q. mlq_queues s n = Some q \<longrightarrow>
        pq_wf q \<and> (0 < mlq_maxSize s \<longrightarrow> int (length q) \<le> mlq_maxSize s) \<and>
        (\<forall>st. mlq_stats s n = Some st \<longrightarrow> qs_PendingCount st = int (length q)))"

lemma mlq_inv_lookup:
  assumes "mlq_inv s" "mlq_queues s n = Some q"
  obtains st where "pq_wf q" "0 < mlq_maxSize s \<Longrightarrow> int (length q) \<le> mlq_maxSize s"
    "mlq_stats s n = Some st" "qs_PendingCount st = int (length q)"
  using assms unfolding mlq_inv_def by (metis domD domI)

lemma mlq_inv_new [inv_intro]: "mlq_inv (NewMultiLevelQueue k)"
  by (simp add: mlq_inv_def NewMultiLevelQueue_def)

lemma mlq_inv_AddQueue [inv_intro]: "mlq_inv s \<Longrightarrow> mlq_inv (mlq_AddQueue n t s)"
  using pq_wf_Nil by (auto simp: mlq_inv_def mlq_AddQueue_def pq_Init_Nil new_stats_def)

lemma mlq_inv_updateStats:
  assumes "mlq_inv s" and "\<And>st. qs_PendingCount (f st) = qs_PendingCount st"
  shows "mlq_inv (mlq_updateStats n f s)"
  using assms by (auto simp: mlq_inv_def mlq_updateStats_def split: option.splits)

lemma mlq_inv_replace:
  assumes "mlq_inv s" and "mlq_queues s n = Some q" and "pq_wf q'"
    and "0 < mlq_maxSize s \<Longrightarrow> int (length q') \<le> mlq_maxSize s"
    and "\<And>st. qs_PendingCount (f st) = qs_PendingCount st + int (length q') - int (length q)"
  shows "mlq_inv (mlq_updateStats n f (s\<lparr>mlq_queues := (mlq_queues s)(n \<mapsto> q')\<rparr>))"
proof -
  obtain st where "mlq_stats s n = Some st" "qs_PendingCount st = int (length q)"
    using mlq_inv_lookup [OF assms(1,2)] by blast
  with assms show ?thesis by (auto simp: mlq_inv_def mlq_updateStats_def)
qed

lemma mlq_inv_Push [inv_intro]:
  assumes inv: "mlq_inv s"
  shows "mlq_inv (snd (mlq_Push n m p t t' s))"
proof (cases "mlq_queues s n")
  case (Some q)
  then obtain "pq_wf q" using mlq_inv_lookup [OF inv] by blast
  then show ?thesis
    using Some by (auto simp: mlq_Push_def Let_def inv pq_wf_Push pq_length_Push
        intro!: mlq_inv_replace [OF inv Some])
qed (simp add: mlq_Push_def inv)

lemma mlq_inv_Pop [inv_intro]:
  assumes inv: "mlq_inv s"
  shows "mlq_inv (snd (mlq_Pop n t s))"
proof (cases "mlq_queues s n")
  case (Some q)
  show ?thesis
  proof (cases "q = []")
    case False
    then obtain it q' where pop: "pq_heap_Pop q = Some (it, q')" using pq_Pop_Some by blast
    have wf: "pq_wf q" "0 < mlq_maxSize s \<Longrightarrow> int (length q) \<le> mlq_maxSize s"
      using mlq_inv_lookup [OF inv Some] by blast+
    note c = pq_Pop_correct [OF wf(1) pop]
    show ?thesis
      using Some False c(1,5) wf(2) by (auto simp: mlq_Pop_def pop intro!: mlq_inv_replace [OF inv Some])
  qed (simp add: mlq_Pop_def inv Some)
qed (simp add: mlq_Pop_def inv)

lemma mlq_inv_Complete [inv_intro]: "mlq_inv s \<Longrightarrow> mlq_inv (mlq_CompleteMessage n t s)"
  by (simp add: mlq_CompleteMessage_def mlq_inv_updateStats)

lemma mlq_inv_Fail [inv_intro]: "mlq_inv s \<Longrightarrow> mlq_inv (mlq_FailMessage n t s)"
  by (simp add: mlq_FailMessage_def mlq_inv_updateStats)

lemma mlq_step_inv: "mlq_inv s \<Longrightarrow> mlq_inv (snd (mlq_step op s))"
proof (cases op)
  case (OpPush n m p t t')
  assume "mlq_inv s"
  with mlq_inv_Push [OF this, of n m p t t'] show ?thesis
    by (auto simp: OpPush split: prod.splits option.splits)
next
  case (OpPop n t)
  assume "mlq_inv s"
  with mlq_inv_Pop [OF this, of n t] show ?thesis
    by (auto simp: OpPop split: prod.splits sum.splits)
qed (simp_all add: inv_intro)

lemma mlq_run_inv: "mlq_inv s \<Longrightarrow> mlq_inv (snd (mlq_run ops s))"
proof (induction ops arbitrary: s)
  case (Cons op ops)
  then have "mlq_inv (snd (mlq_run ops (snd (mlq_step op s))))" by (simp add: mlq_step_inv)
  then show ?case by (simp add: mlq_run_Cons)
qed simp

section \<open>What push and pop do to a queue\<close>

lemma mlq_updateStats_queues [frame_simps, simp]:
  "mlq_queues (mlq_updateStats n f s) = mlq_queues s"
  "mlq_maxSize (mlq_updateStats n f s) = mlq_maxSize s"
  by (simp_all add: mlq_updateStats_def split: option.splits)

definition mlq_room :: "nat \<Rightarrow> 'm PriorityQueue \<Rightarrow> 'm MultiLevelQueue \<Rightarrow> bool" where
  "mlq_room k q s \<longleftrightarrow> mlq_maxSize s \<le> 0 \<or> int (length q + k) \<le> mlq_maxSize s"

lemma mlq_Push_ok:
  assumes inv: "mlq_inv s" and q: "mlq_queues s n = Some q" and room: "mlq_room (Suc k) q s"
  obtains s' q' where "mlq_Push n m p t t' s = (None, s')" and "mlq_inv s'"
    and "mlq_queues s' = (mlq_queues s)(n \<mapsto> q')" and "mlq_room k q' s'"
    and "mset (pq_entries q') = add_mset (m, p, t) (mset (pq_entries q))"
    and "mlq_maxSize s' = mlq_maxSize s"
proof -
  let ?it = "\<lparr>qi_Message = m, qi_Priority = p, qi_Timestamp = t, qi_Index = 0\<rparr>"
  have wf: "pq_wf q" using mlq_inv_lookup [OF inv q] by blast
  have "\<not> (0 < mlq_maxSize s \<and> mlq_maxSize s \<le> int (length q))"
    using room by (auto simp: mlq_room_def)
  then obtain s' where s': "mlq_Push n m p t t' s = (None, s')"
      "mlq_queues s' = (mlq_queues s)(n \<mapsto> pq_heap_Push q ?it)" "mlq_maxSize s' = mlq_maxSize s"
    using q by (auto simp: mlq_Push_def Let_def)
  moreover have "mlq_inv s'" using mlq_inv_Push [OF inv, of n m p t t'] s'(1) by simp
  moreover have "mset (pq_entries (pq_heap_Push q ?it)) = add_mset (m, p, t) (mset (pq_entries q))"
    using pq_mset_Push [OF wf, of ?it] by (simp add: entry_of_def)
  moreover have "mlq_room k (pq_heap_Push q ?it) s'"
    using room pq_length_Push [OF wf, of ?it] s'(3) by (auto simp: mlq_room_def)
  ultimately show thesis by (intro that)
qed

lemma mlq_Pop_ok:
  assumes inv: "mlq_inv s" and q: "mlq_queues s n = Some q" and ne: "q \<noteq> []"
  obtains e s' q' where "mlq_Pop n t s = (Inr (fst e), s')" and "mlq_inv s'"
    and "mlq_queues s' = (mlq_queues s)(n \<mapsto> q')"
    and "mset (pq_entries q) = add_mset e (mset (pq_entries q'))"
    and "\<forall>x \<in> set (pq_entries q). entry_key e \<le> entry_key x" and "e = pq_entries q ! 0"
proof -
  obtain it q' where pop: "pq_heap_Pop q = Some (it, q')" using pq_Pop_Some [OF ne] by blast
  have "pq_wf q" using mlq_inv_lookup [OF inv q] by blast
  note c = pq_Pop_correct [OF this pop]
  obtain s' where s': "mlq_Pop n t s = (Inr (fst (entry_of it)), s')"
      "mlq_queues s' = (mlq_queues s)(n \<mapsto> q')"
    using q ne by (auto simp: mlq_Pop_def pop entry_of_def)
  moreover have "mlq_inv s'" using mlq_inv_Pop [OF inv, of n t] s'(1) by simp
  ultimately show thesis using c by (intro that)
qed

lemma mlq_pushes_ok:
  assumes "mlq_inv s" and "mlq_queues s n = Some q" and "mlq_room (length ps) q s"
  obtains s' q' where
    "mlq_run (map (\<lambda>(m, p, t). OpPush n m p t t) ps) s = (replicate (length ps) ODone, s')"
    and "mlq_inv s'" and "mlq_queues s' n = Some q'"
    and "mset (pq_entries q') = mset (pq_entries q) + mset ps"
  using assms
proof (induction ps arbitrary: s q thesis)
  case Nil
  then show ?case by simp
next
  case (Cons x ps)
  obtain m p t where x: "x = (m, p, t)" by (cases x)
  from Cons.prems(4) have "mlq_room (Suc (length ps)) q s" by simp
  then obtain s1 q1 where 1: "mlq_Push n m p t t s = (None, s1)" "mlq_inv s1"
      "mlq_queues s1 = (mlq_queues s)(n \<mapsto> q1)" "mlq_room (length ps) q1 s1"
      "mset (pq_entries q1) = add_mset (m, p, t) (mset (pq_entries q))"
    by (rule mlq_Push_ok [OF Cons.prems(2,3)])
  have q1: "mlq_queues s1 n = Some q1" by (simp add: 1(3))
  obtain s' q' where
    "mlq_run (map (\<lambda>(m, p, t). OpPush n m p t t) ps) s1 = (replicate (length ps) ODone, s')"
    "mlq_inv s'" "mlq_queues s' n = Some q'"
    "mset (pq_entries q') = mset (pq_entries q1) + mset ps"
    by (rule Cons.IH [OF _ 1(2) q1 1(4)])
  with 1(1,5) show ?case by (intro Cons.prems(1)) (simp_all add: mlq_run_Cons x)
qed

lemma mlq_pops_ok:
  assumes "mlq_inv s" and "mlq_queues s n = Some q"
  obtains es s' where
    "mlq_run (replicate (length q) (OpPop n t)) s = (map (\<lambda>e. OMessage (fst e)) es, s')"
    and "mset es = mset (pq_entries q)" and "sorted (map entry_key es)"
    and "mlq_queues s' n = Some []"
  using assms
proof (induction "length q" arbitrary: s q thesis)
  case 0
  then show ?case by (simp add: pq_entries_def)
next
  case (Suc k)
  then have "q \<noteq> []" by auto
  then obtain e s1 q1 where 1: "mlq_Pop n t s = (Inr (fst e), s1)" "mlq_inv s1"
      "mlq_queues s1 = (mlq_queues s)(n \<mapsto> q1)"
      "mset (pq_entries q) = add_mset e (mset (pq_entries q1))"
      "\<forall>x \<in> set (pq_entries q). entry_key e \<le> entry_key x"
    by (rule mlq_Pop_ok [OF Suc.prems(2,3)])
  have q1: "mlq_queues s1 n = Some q1" by (simp add: 1(3))
  from 1(4) have "size (mset (pq_entries q)) = Suc (size (mset (pq_entries q1)))" by simp
  then have k: "k = length q1" using Suc.hyps(2) by simp
  obtain es s' where es: "mlq_run (replicate k (OpPop n t)) s1 = (map (\<lambda>e. OMessage (fst e)) es, s')"
      "mset es = mset (pq_entries q1)" "sorted (map entry_key es)" "mlq_queues s' n = Some []"
    using Suc.hyps(1) [OF k _ 1(2) q1] k by blast
  have "set es \<subseteq> set (pq_entries q)"
    using es(2) 1(4) by (metis set_mset_mset set_mset_add_mset_insert subset_insertI)
  then have "sorted (map entry_key (e # es))" using es(3) 1(5) by auto
  moreover have "mlq_run (replicate (length q) (OpPop n t)) s = (map (\<lambda>e. OMessage (fst e)) (e # es), s')"
    using es(1) 1(1) by (simp add: Suc.hyps(2) [symmetric] mlq_run_Cons)
  ultimately show ?case using es(2,4) 1(4) by (intro Suc.prems(1) [of "e # es" s']) auto
qed

text \<open>
  With strictly increasing arrival times, (priority, arrival) order is the stable sort by
  priority of the arrival order: first in, first out within a priority.
\<close>

lemma stable_sort_is_key_sort:
  fixes ps :: "'m entry list"
  assumes "sorted_wrt (\<lambda>x y. snd (snd x) < snd (snd y)) ps"
  shows "sort_key entry_key ps = sort_key (\<lambda>e. fst (snd e)) ps"
proof (rule sort_key_inj_key_eq)
  let ?p = "\<lambda>e :: 'm entry. fst (snd e)" and ?t = "\<lambda>e :: 'm entry. snd (snd e)"
  show "mset ps = mset (sort_key ?p ps)" by simp
  have "distinct (map ?t ps)"
    using assms by (induction ps) auto
  then show "inj_on entry_key (set ps)"
    by (auto simp: entry_key_def inj_on_def distinct_map)
  have key: "sorted (map entry_key es)"
    if "sorted (map ?p es)" "\<And>k. sorted (map ?t (filter (\<lambda>e. ?p e = k) es))" for es
    using that
  proof (induction es)
    case (Cons e es)
    have tail: "sorted (map ?t (filter (\<lambda>e. ?p e = k) es))" for k
      using Cons.prems(2) [of k] by (cases "?p e = k") auto
    have "entry_key e \<le> entry_key x" if x: "x \<in> set es" for x
    proof (cases "?p x = ?p e")
      case True
      then have "?t e \<le> ?t x" using Cons.prems(2) [of "?p e"] x by (cases x) auto
      with True show ?thesis by (simp add: entry_key_def less_eq_item_key_def)
    next
      case False
      with Cons.prems(1) x have "?p e < ?p x" by force
      then show ?thesis by (simp add: entry_key_def less_eq_item_key_def)
    qed
    with Cons.IH [OF _ tail] Cons.prems(1) show ?case by auto
  qed simp
  show "sorted (map entry_key (sort_key ?p ps))"
  proof (rule key)
    fix k
    have "sorted (map ?t ps)"
      using assms by (simp add: sorted_wrt_map sorted_wrt_mono_rel [OF _ assms] less_imp_le)
    then have "sorted (map ?t (filter (\<lambda>e. ?p e = k) ps))" by (rule sorted_filter)
    then show "sorted (map ?t (filter (\<lambda>e. ?p e = k) (sort_key ?p ps)))"
      by (simp add: sort_key_stable)
  qed simp
qed

section \<open>Accounting\<close>

fun pushed_to :: "string \<Rightarrow> 'm mlq_op \<times> 'm mlq_out \<Rightarrow> bool" where
  "pushed_to n (OpPush n' m p t t', ODone) = (n' = n)"
| "pushed_to n _ = False"

fun popped_from :: "string \<Rightarrow> 'm mlq_op \<times> 'm mlq_out \<Rightarrow> bool" where
  "popped_from n (OpPop n' t, OMessage m) = (n' = n)"
| "popped_from n _ = False"

definition occurrences :: "('a \<Rightarrow> bool) \<Rightarrow> 'a list \<Rightarrow> int" where
  "occurrences P xs = int (length (filter P xs))"

definition mlq_total :: "string \<Rightarrow> 'm MultiLevelQueue \<Rightarrow> int" where
  "mlq_total n s = (case mlq_stats s n of None \<Rightarrow> 0
     | Some st \<Rightarrow> qs_PendingCount st + qs_ProcessingCount st + qs_CompletedCount st + qs_FailedCount st)"

definition mlq_taken :: "string \<Rightarrow> 'm MultiLevelQueue \<Rightarrow> int" where
  "mlq_taken n s = (case mlq_stats s n of None \<Rightarrow> 0
     | Some st \<Rightarrow> qs_ProcessingCount st + qs_CompletedCount st + qs_FailedCount st)"

lemma mlq_counts_updateStats:
  assumes "\<And>st. qs_PendingCount (f st) = qs_PendingCount st + a"
    and "\<And>st. qs_ProcessingCount (f st) = qs_ProcessingCount st + b"
    and "\<And>st. qs_CompletedCount (f st) = qs_CompletedCount st + c"
    and "\<And>st. qs_FailedCount (f st) = qs_FailedCount st + d"
    and "mlq_stats s n \<noteq> None \<or> a + b + c + d = 0 \<and> b + c + d = 0"
  shows "mlq_total n' (mlq_updateStats n f s) = mlq_total n' s + (if n' = n then a + b + c + d else 0)"
    and "mlq_taken n' (mlq_updateStats n f s) = mlq_taken n' s + (if n' = n then b + c + d else 0)"
  using assms(5) by (auto simp: assms(1-4) mlq_total_def mlq_taken_def mlq_updateStats_def split: option.splits)

lemma mlq_counts_frame:
  "mlq_total n (s\<lparr>mlq_queues := q\<rparr>) = mlq_total n s"
  "mlq_taken n (s\<lparr>mlq_queues := q\<rparr>) = mlq_taken n s"
  by (simp_all add: mlq_total_def mlq_taken_def)

lemma mlq_inv_stats_None: "mlq_inv s \<Longrightarrow> mlq_stats s k = None \<longleftrightarrow> mlq_queues s k = None"
  unfolding mlq_inv_def by (metis domIff)

lemma mlq_step_counts:
  assumes "mlq_inv s"
  shows "mlq_total n (snd (mlq_step op s)) =
      mlq_total n s + (if pushed_to n (op, fst (mlq_step op s)) then 1 else 0) \<and>
    mlq_taken n (snd (mlq_step op s)) =
      mlq_taken n s + (if popped_from n (op, fst (mlq_step op s)) then 1 else 0)"
proof (cases op)
  case (OpAddQueue n' t)
  then show ?thesis
    using mlq_inv_stats_None [OF assms, of n']
    by (auto simp: mlq_AddQueue_def mlq_total_def mlq_taken_def new_stats_def)
next
  case (OpPush n' m p t t')
  show ?thesis
  proof (cases "mlq_queues s n'")
    case (Some q)
    then have "mlq_stats s n' \<noteq> None" using mlq_inv_stats_None [OF assms] by simp
    with Some show ?thesis
      by (auto simp: OpPush mlq_Push_def Let_def mlq_counts_updateStats [where a = 1 and b = 0 and c = 0 and d = 0]
          mlq_counts_frame)
  qed (simp add: OpPush mlq_Push_def)
next
  case (OpPop n' t)
  show ?thesis
  proof (cases "mlq_queues s n'")
    case (Some q)
    then have "mlq_stats s n' \<noteq> None" using mlq_inv_stats_None [OF assms] by simp
    with Some show ?thesis
      by (auto simp: OpPop mlq_Pop_def case_prod_beta mlq_counts_frame
          mlq_counts_updateStats [where a = "-1" and b = 1 and c = 0 and d = 0])
  qed (simp add: OpPop mlq_Pop_def)
next
  case (OpComplete n' t)
  show ?thesis
    by (simp add: OpComplete mlq_CompleteMessage_def
        mlq_counts_updateStats [where a = 0 and b = "-1" and c = 1 and d = 0])
next
  case (OpFail n' t)
  show ?thesis
    by (simp add: OpFail mlq_FailMessage_def
        mlq_counts_updateStats [where a = 0 and b = "-1" and c = 0 and d = 1])
qed

lemma mlq_run_counts:
  assumes "mlq_inv s"
  shows "mlq_total n (snd (mlq_run ops s)) =
      mlq_total n s + occurrences (pushed_to n) (zip ops (fst (mlq_run ops s))) \<and>
    mlq_taken n (snd (mlq_run ops s)) =
      mlq_taken n s + occurrences (popped_from n) (zip ops (fst (mlq_run ops s)))"
  using assms
proof (induction ops arbitrary: s)
  case (Cons op ops)
  let ?s1 = "snd (mlq_step op s)"
  have "mlq_inv ?s1" using Cons.prems by (rule mlq_step_inv)
  note IH = Cons.IH [OF this] and step = mlq_step_counts [OF Cons.prems, of n op]
  show ?case using IH step by (simp add: mlq_run_Cons occurrences_def)
qed (simp add: occurrences_def)

section \<open>The abstract queue and the refinement\<close>

text \<open>
  What the queue promises, without heaps or indices: each name has the list of its
  waiting entries in (priority, arrival) order; a push inserts in order unless the queue
  is missing or full, a pop takes the head.
\<close>

type_synonym 'm queue_spec = "string \<Rightarrow> 'm entry list option"

fun spec_step :: "int \<Rightarrow> 'm mlq_op \<Rightarrow> 'm queue_spec \<Rightarrow> 'm mlq_out \<times> 'm queue_spec" where
  "spec_step k (OpAddQueue n t) a = (ODone, if a n = None then a(n \<mapsto> []) else a)"
| "spec_step k (OpPush n m p t t') a =
     (case a n of
        None \<Rightarrow> (OError ErrQueueNotFound, a)
      | Some es \<Rightarrow>
          if 0 < k \<and> k \<le> int (length es) then (OError ErrQueueFull, a)
          else (ODone, a(n \<mapsto> insort_key entry_key (m, p, t) es)))"
| "spec_step k (OpPop n t) a =
     (case a n of
        None \<Rightarrow> (OError ErrQueueEmpty, a)
      | Some [] \<Rightarrow> (OError ErrQueueEmpty, a)
      | Some (e # es) \<Rightarrow> (OMessage (fst e), a(n \<mapsto> es)))"
| "spec_step k (OpComplete n t) a = (ODone, a)"
| "spec_step k (OpFail n t) a = (ODone, a)"

fun spec_run :: "int \<Rightarrow> 'm mlq_op list \<Rightarrow> 'm queue_spec \<Rightarrow> 'm mlq_out list \<times> 'm queue_spec" where
  "spec_run k [] a = ([], a)"
| "spec_run k (op # ops) a =
     (case spec_step k op a of (out, a1) \<Rightarrow> case spec_run k ops a1 of (outs, a2) \<Rightarrow> (out # outs, a2))"

definition mlq_abs :: "'m MultiLevelQueue \<Rightarrow> 'm queue_spec" where
  "mlq_abs s = (\<lambda>n. map_option pq.sorted_view (mlq_queues s n))"

text \<open>The clock: push times, and all entries arrived before a given time with unique keys.\<close>

fun push_times :: "'m mlq_op list \<Rightarrow> go_time list" where
  "push_times [] = []"
| "push_times (OpPush n m p t t' # ops) = t # push_times ops"
| "push_times (_ # ops) = push_times ops"

definition pq_unique :: "'m PriorityQueue \<Rightarrow> bool" where
  "pq_unique q \<longleftrightarrow> inj_on entry_key (set (pq_entries q))"

definition mlq_before :: "go_time \<Rightarrow> 'm MultiLevelQueue \<Rightarrow> bool" where
  "mlq_before t s \<longleftrightarrow> (\<forall>n q e. mlq_queues s n = Some q \<longrightarrow> e \<in> set (pq_entries q) \<longrightarrow> snd (snd e) < t)"

definition mlq_unique :: "'m MultiLevelQueue \<Rightarrow> bool" where
  "mlq_unique s \<longleftrightarrow> (\<forall>n q. mlq_queues s n = Some q \<longrightarrow> pq_unique q)"

lemma length_sorted_view [simp]: "length (pq.sorted_view q) = length q"
  by (simp add: pq.sorted_view_def)

lemma sorted_view_Nil [simp]: "pq.sorted_view [] = []"
  by (simp add: pq.sorted_view_def pq_entries_def)

lemma mlq_abs_upd: "mlq_queues s' = (mlq_queues s)(n \<mapsto> q) \<Longrightarrow> mlq_abs s' = (mlq_abs s)(n \<mapsto> pq.sorted_view q)"
  by (auto simp: mlq_abs_def)

lemma mlq_abs_same: "mlq_queues s' = mlq_queues s \<Longrightarrow> mlq_abs s' = mlq_abs s"
  by (simp add: mlq_abs_def)

lemma pq_view_Push:
  assumes "pq_wf q" and "pq_unique q" and "\<forall>e \<in> set (pq_entries q). snd (snd e) < qi_Timestamp it"
  shows "pq.sorted_view (pq_heap_Push q it) = insort_key entry_key (entry_of it) (pq.sorted_view q)"
    and "pq_unique (pq_heap_Push q it)"
proof -
  have fresh: "entry_key (entry_of it) \<noteq> entry_key e" if "e \<in> set (pq_entries q)" for e
    using assms(3) that by (auto simp: entry_key_def entry_of_def)
  have inj: "inj_on entry_key (insert (entry_of it) (set (pq_entries q)))"
    using assms(2) fresh by (auto simp: pq_unique_def)
  then show "pq.sorted_view (pq_heap_Push q it) = insort_key entry_key (entry_of it) (pq.sorted_view q)"
    unfolding pq_heap_Push_def by (rule pq.sorted_view_Push [OF assms(1)])
  have "set (pq_entries (pq_heap_Push q it)) = insert (entry_of it) (set (pq_entries q))"
    using pq_mset_Push [OF assms(1), of it] by (metis set_mset_mset set_mset_add_mset_insert)
  with inj show "pq_unique (pq_heap_Push q it)" by (simp add: pq_unique_def)
qed

lemma pq_view_Pop:
  assumes "pq_wf q" and "pq_unique q" and "pq_heap_Pop q = Some (it, q')"
  shows "pq.sorted_view q = entry_of it # pq.sorted_view q'" and "pq_unique q'"
    and "set (pq_entries q') \<subseteq> set (pq_entries q)"
proof -
  show "pq.sorted_view q = entry_of it # pq.sorted_view q'"
    using assms(2) by (intro pq.sorted_view_Pop [OF assms(1) assms(3) [unfolded pq_heap_Pop_def]])
      (simp add: pq_unique_def)
  show "set (pq_entries q') \<subseteq> set (pq_entries q)"
    using pq_Pop_correct(3) [OF assms(1,3)] by (metis set_mset_mset set_mset_add_mset_insert subset_insertI)
  then show "pq_unique q'" using assms(2) by (auto simp: pq_unique_def intro: inj_on_subset)
qed

lemma mlq_step_refines:
  assumes inv: "mlq_inv s" and uniq: "mlq_unique s"
    and clock: "\<And>n m p t t'. op = OpPush n m p t t' \<Longrightarrow> mlq_before t s"
  shows "spec_step (mlq_maxSize s) op (mlq_abs s) = (fst (mlq_step op s), mlq_abs (snd (mlq_step op s))) \<and>
    mlq_unique (snd (mlq_step op s)) \<and> mlq_maxSize (snd (mlq_step op s)) = mlq_maxSize s"
proof (cases op)
  case (OpAddQueue n t)
  then show ?thesis using uniq
    by (auto simp: mlq_AddQueue_def mlq_abs_def mlq_unique_def pq_Init_Nil pq_unique_def pq_entries_def)
next
  case (OpPush n m p t t')
  show ?thesis
  proof (cases "mlq_queues s n")
    case (Some q)
    let ?it = "\<lparr>qi_Message = m, qi_Priority = p, qi_Timestamp = t, qi_Index = 0\<rparr>"
    have wf: "pq_wf q" using mlq_inv_lookup [OF inv Some] by blast
    have "pq_unique q" "\<forall>e \<in> set (pq_entries q). snd (snd e) < qi_Timestamp ?it"
      using uniq clock [OF OpPush] Some by (auto simp: mlq_unique_def mlq_before_def)
    note v = pq_view_Push [OF wf this]
    have e: "entry_of ?it = (m, p, t)" by (simp add: entry_of_def)
    show ?thesis
      using Some v uniq by (auto simp: OpPush mlq_Push_def Let_def mlq_abs_def mlq_unique_def e)
  qed (simp add: OpPush mlq_Push_def mlq_abs_def uniq)
next
  case (OpPop n t)
  show ?thesis
  proof (cases "mlq_queues s n")
    case (Some q)
    show ?thesis
    proof (cases "q = []")
      case False
      then obtain it q' where pop: "pq_heap_Pop q = Some (it, q')" using pq_Pop_Some by blast
      have wf: "pq_wf q" using mlq_inv_lookup [OF inv Some] by blast
      have "pq_unique q" using uniq Some by (simp add: mlq_unique_def)
      note v = pq_view_Pop [OF wf this pop]
      show ?thesis
        using Some False v uniq
        by (auto simp: OpPop mlq_Pop_def pop mlq_abs_def mlq_unique_def entry_of_def)
    qed (simp add: OpPop mlq_Pop_def mlq_abs_def Some uniq)
  qed (simp add: OpPop mlq_Pop_def mlq_abs_def uniq)
qed (simp_all add: mlq_CompleteMessage_def mlq_FailMessage_def mlq_abs_def uniq mlq_unique_def
    uniq [unfolded mlq_unique_def])

lemma mlq_step_before:
  assumes inv: "mlq_inv s" and "mlq_before u s"
    and clock: "\<And>n m p t t'. op = OpPush n m p t t' \<Longrightarrow> t < u"
  shows "mlq_before u (snd (mlq_step op s))"
proof (cases op)
  case (OpPush n m p t t')
  show ?thesis
  proof (cases "mlq_queues s n")
    case (Some q)
    then have wf: "pq_wf q" using mlq_inv_lookup [OF inv] by blast
    let ?it = "\<lparr>qi_Message = m, qi_Priority = p, qi_Timestamp = t, qi_Index = 0\<rparr>"
    have "set (pq_entries (pq_heap_Push q ?it)) = insert (m, p, t) (set (pq_entries q))"
      using pq_mset_Push [OF wf, of ?it] by (metis set_mset_mset set_mset_add_mset_insert entry_of_def QueueItem.select_convs(1-3))
    with Some assms(2) clock [OF OpPush] show ?thesis
      by (auto simp: OpPush mlq_Push_def Let_def mlq_before_def)
  qed (simp add: OpPush mlq_Push_def assms)
next
  case (OpPop n t)
  show ?thesis
  proof (cases "mlq_queues s n")
    case (Some q)
    show ?thesis
    proof (cases "q = []")
      case False
      then obtain it q' where pop: "pq_heap_Pop q = Some (it, q')" using pq_Pop_Some by blast
      have wf: "pq_wf q" using mlq_inv_lookup [OF inv Some] by blast
      have "set (pq_entries q') \<subseteq> set (pq_entries q)"
        using pq_Pop_correct(3) [OF wf pop] by (metis set_mset_mset set_mset_add_mset_insert subset_insertI)
      then show ?thesis
        using Some False assms(2) by (auto simp: OpPop mlq_Pop_def pop mlq_before_def)
    qed (simp add: OpPop mlq_Pop_def Some assms)
  qed (simp add: OpPop mlq_Pop_def assms)
next
  case (OpAddQueue n t)
  then show ?thesis using assms(2)
    by (auto simp: mlq_AddQueue_def mlq_before_def pq_Init_Nil pq_entries_def)
qed (use assms(2) in \<open>simp_all add: mlq_CompleteMessage_def mlq_FailMessage_def mlq_before_def\<close>)

lemma mlq_run_refines:
  assumes "mlq_inv s" and "mlq_unique s"
    and "\<forall>t \<in> set (push_times ops). mlq_before t s" and "sorted_wrt (<) (push_times ops)"
  shows "spec_run (mlq_maxSize s) ops (mlq_abs s) = (fst (mlq_run ops s), mlq_abs (snd (mlq_run ops s))) \<and>
    mlq_unique (snd (mlq_run ops s))"
  using assms
proof (induction ops arbitrary: s)
  case (Cons op ops)
  let ?s1 = "snd (mlq_step op s)"
  have clock: "mlq_before t s" if "op = OpPush n m p t t'" for n m p t t'
    using Cons.prems(3) that by simp
  note r = mlq_step_refines [OF Cons.prems(1,2) clock]
  have rest: "set (push_times ops) \<subseteq> set (push_times (op # ops))" by (cases op) auto
  have "mlq_before u ?s1" if u: "u \<in> set (push_times ops)" for u
  proof (rule mlq_step_before [OF Cons.prems(1)])
    show "mlq_before u s" using Cons.prems(3) rest u by auto
    show "t < u" if "op = OpPush n m p t t'" for n m p t t'
      using Cons.prems(4) u that by simp
  qed
  moreover have "sorted_wrt (<) (push_times ops)" using Cons.prems(4) by (cases op) auto
  ultimately have "spec_run (mlq_maxSize ?s1) ops (mlq_abs ?s1) = (fst (mlq_run ops ?s1), mlq_abs (snd (mlq_run ops ?s1))) \<and>
      mlq_unique (snd (mlq_run ops ?s1))"
    using r mlq_step_inv [OF Cons.prems(1), of op] by (intro Cons.IH) auto
  with r show ?case by (simp add: mlq_run_Cons)
qed simp

lemma mlq_reachable_unique:
  assumes "sorted_wrt (<) (push_times ops)"
  shows "mlq_unique (snd (mlq_run ops (NewMultiLevelQueue k)))"
  by (rule mlq_run_refines [OF mlq_inv_new, THEN conjunct2])
    (simp_all add: assms NewMultiLevelQueue_def mlq_unique_def mlq_before_def)

section \<open>Properties\<close>

text \<open>
  C1 (order of delivery). Messages pushed to a queue with a strictly increasing clock are
  popped in the stable sort of the push order by priority number: a smaller number first,
  and first in, first out within a priority.
\<close>

theorem mlq_fifo:
  fixes ps :: "('m \<times> int \<times> go_time) list"
  assumes "sorted_wrt (\<lambda>x y. snd (snd x) < snd (snd y)) ps" and "k \<le> 0 \<or> int (length ps) \<le> k"
  shows "fst (mlq_run (OpAddQueue n t0 # map (\<lambda>(m, p, t). OpPush n m p t t) ps
            @ replicate (length ps) (OpPop n t1)) (NewMultiLevelQueue k)) =
    ODone # replicate (length ps) ODone @ map (\<lambda>e. OMessage (fst e)) (sort_key (\<lambda>e. fst (snd e)) ps)"
proof -
  let ?s0 = "mlq_AddQueue n t0 (NewMultiLevelQueue k) :: 'm MultiLevelQueue"
  have q0: "mlq_queues ?s0 n = Some []" "mlq_maxSize ?s0 = k"
    by (simp_all add: mlq_AddQueue_def NewMultiLevelQueue_def pq_Init_Nil)
  then have "mlq_room (length ps) [] ?s0" using assms(2) by (auto simp: mlq_room_def)
  then obtain s1 q1 where 1: "mlq_run (map (\<lambda>(m, p, t). OpPush n m p t t) ps) ?s0 = (replicate (length ps) ODone, s1)"
      "mlq_inv s1" "mlq_queues s1 n = Some q1" "mset (pq_entries q1) = mset (pq_entries []) + mset ps"
    by (rule mlq_pushes_ok [OF mlq_inv_AddQueue [OF mlq_inv_new] q0(1)])
  then have q1: "mset (pq_entries q1) = mset ps" by (simp add: pq_entries_def)
  then have len: "length q1 = length ps" by (metis length_pq_entries size_mset)
  obtain es s2 where 2: "mlq_run (replicate (length q1) (OpPop n t1)) s1 = (map (\<lambda>e. OMessage (fst e)) es, s2)"
      "mset es = mset (pq_entries q1)" "sorted (map entry_key es)"
    by (rule mlq_pops_ok [OF 1(2,3)])
  have inj: "inj_on entry_key (set ps)"
    using assms(1) by (induction ps) (auto simp: entry_key_def inj_on_def)
  have "es = sort_key entry_key ps"
    using 2(2,3) q1 inj by (intro sort_key_inj_key_eq [symmetric]) auto
  with stable_sort_is_key_sort [OF assms(1)] 1(1) 2(1) len show ?thesis
    by (simp add: mlq_run_Cons mlq_run_append)
qed

theorem mlq_fifo_witness:
  "fst (mlq_run (OpAddQueue ''high'' 1 #
        map (\<lambda>(m, p, t). OpPush ''high'' m p t t) [(10 :: nat, 3, 1), (11, 1, 2), (12, 3, 5)]
        @ replicate 3 (OpPop ''high'' 9)) (NewMultiLevelQueue 3)) =
   [ODone, ODone, ODone, ODone, OMessage 11, OMessage 10, OMessage 12]"
  using mlq_fifo [of "[(10 :: nat, 3, 1), (11, 1, 2), (12, 3, 5)]" 3 "''high''" 1 9]
  by (simp add: numeral_3_eq_3)

text \<open>
  C2 (refinement). On every sequence of operations whose push times strictly increase, the
  multi-level queue returns exactly what the abstract queue returns: per name an ordered
  list, with the same errors for missing, full and empty queues.
\<close>

theorem mlq_refines_spec:
  assumes "sorted_wrt (<) (push_times ops)"
  shows "fst (mlq_run ops (NewMultiLevelQueue k)) = fst (spec_run k ops Map.empty)"
proof -
  let ?s = "NewMultiLevelQueue k :: 'a MultiLevelQueue"
  have "mlq_abs ?s = Map.empty" "mlq_maxSize ?s = k" "mlq_unique ?s"
    and "\<forall>t \<in> set (push_times ops). mlq_before t ?s"
    by (simp_all add: mlq_abs_def NewMultiLevelQueue_def mlq_unique_def mlq_before_def)
  with mlq_run_refines [OF mlq_inv_new, of k ops] assms show ?thesis by simp
qed

theorem mlq_refines_spec_witness:
  "fst (mlq_run [OpAddQueue ''q'' 1, OpPush ''q'' (7 :: nat) 2 1 1, OpPush ''q'' 8 1 2 2, OpPush ''q'' 9 1 3 3,
      OpPop ''q'' 4, OpPop ''q'' 4, OpPop ''q'' 4, OpPop ''none'' 4] (NewMultiLevelQueue 2)) =
   [ODone, ODone, ODone, OError ErrQueueFull, OMessage 8, OMessage 7, OError ErrQueueEmpty, OError ErrQueueEmpty]"
  by (subst mlq_refines_spec) (simp_all add: entry_key_def less_eq_item_key_def)

text \<open>
  After any sequence of operations, in any interleaving, every queue is a
  heap whose items know their positions, no queue exceeds a positive size limit, every
  queue has counters, and the pending counter is the number of waiting messages.
\<close>

theorem mlq_reachable_inv: "mlq_inv (snd (mlq_run ops (NewMultiLevelQueue k)))"
  by (rule mlq_run_inv [OF mlq_inv_new])

text \<open>
  After any sequence of operations the four counters of a queue add up to
  the number of its successful pushes, and the processing, completed and failed counters
  to the number of its successful pops.
\<close>

theorem mlq_accounting:
  "case mlq_run ops (NewMultiLevelQueue k) of (outs, s) \<Rightarrow>
     mlq_total n s = occurrences (pushed_to n) (zip ops outs) \<and>
     mlq_taken n s = occurrences (popped_from n) (zip ops outs)"
  using mlq_run_counts [OF mlq_inv_new, of n ops k]
  by (simp add: case_prod_beta mlq_total_def mlq_taken_def NewMultiLevelQueue_def)

text \<open>
  From any reachable state, popping a queue as often as it has messages
  returns exactly its messages, each once, in (priority, arrival time) order, and leaves
  it empty, whatever the arrival times are.
\<close>

theorem mlq_drain:
  assumes "mlq_queues (snd (mlq_run ops (NewMultiLevelQueue k))) n = Some q"
  shows "\<exists>es s'. mlq_run (replicate (length q) (OpPop n t)) (snd (mlq_run ops (NewMultiLevelQueue k))) =
      (map (\<lambda>e. OMessage (fst e)) es, s') \<and>
    mset es = mset (pq_entries q) \<and> sorted (map entry_key es) \<and> mlq_queues s' n = Some []"
proof -
  have "mlq_inv (snd (mlq_run ops (NewMultiLevelQueue k)))" by (rule mlq_run_inv [OF mlq_inv_new])
  from mlq_pops_ok [OF this assms, of t] show ?thesis by blast
qed

theorem mlq_drain_witness:
  "\<exists>es s'. mlq_run [OpPop ''q'' 5] (snd (mlq_run [OpAddQueue ''q'' 1, OpPush ''q'' (7 :: nat) 2 1 1] (NewMultiLevelQueue 0))) =
      (map (\<lambda>e. OMessage (fst e)) es, s') \<and> sorted (map entry_key es) \<and> mlq_queues s' ''q'' = Some []"
proof -
  let ?ops = "[OpAddQueue ''q'' 1, OpPush ''q'' (7 :: nat) 2 1 1]"
  have "mlq_queues (snd (mlq_run ?ops (NewMultiLevelQueue 0))) ''q'' =
      Some [\<lparr>qi_Message = 7, qi_Priority = 2, qi_Timestamp = 1, qi_Index = 0\<rparr>]"
    by (simp add: mlq_run_Cons mlq_AddQueue_def NewMultiLevelQueue_def mlq_Push_def pq_Init_Nil
        pq_heap_Push_def heap_Push_def heap_up.simps Let_def pq_Push_def pq_Len_def)
  from mlq_drain [OF this, of 5] show ?thesis by auto
qed

end
