(* ===== verification/Interfaces.thy ===== *)
theory Interfaces
  imports Models
begin

text \<open>
  The contracts between components, as locales. \<open>message_sink\<close> is what the workers, the
  dead letter queue and the delayed queue rely on when they hand a message to the
  \<^verbatim>\<open>QueueManager\<close>; \<open>backoff_strategy\<close> is the \<^verbatim>\<open>BackoffStrategy\<close> interface of
  \<^verbatim>\<open>internal/priorityqueue/worker.go\<close>. Each is interpreted on the model of the code
  that provides it.
\<close>

section \<open>Handing a message to a queue\<close>

text \<open>
  A push either delivers the reference to the named queue and to no other, or returns an
  error and delivers nothing. It may rewrite the priority of the message, nothing else.
\<close>

locale message_sink =
  fixes push :: "go_time \<times> go_time \<Rightarrow> string \<Rightarrow> mref \<Rightarrow> 's \<times> mstore
      \<Rightarrow> QueueError option \<times> ('s \<times> mstore)"
    and waiting :: "'s \<Rightarrow> string \<Rightarrow> mref multiset"
    and ok :: "'s \<Rightarrow> bool"
  assumes push_keeps_ok: "ok s \<Longrightarrow> ok (fst (snd (push ts n r (s, st))))"
    and push_delivers: "ok s \<Longrightarrow> fst (push ts n r (s, st)) = None \<Longrightarrow>
      waiting (fst (snd (push ts n r (s, st)))) = (waiting s)(n := add_mset r (waiting s n))"
    and push_fails: "ok s \<Longrightarrow> fst (push ts n r (s, st)) = Some e \<Longrightarrow>
      waiting (fst (snd (push ts n r (s, st)))) = waiting s"
    and push_store: "\<exists>p. snd (snd (push ts n r (s, st))) r = (st r)\<lparr>m_Priority := p\<rparr>"
    and push_store_other: "r' \<noteq> r \<Longrightarrow> snd (snd (push ts n r (s, st))) r' = st r'"
begin

lemma push_cases:
  assumes "ok s"
  obtains (delivered) s' st' where "push ts n r (s, st) = (None, (s', st'))" "ok s'"
      "waiting s' = (waiting s)(n := add_mset r (waiting s n))"
  | (rejected) e s' st' where "push ts n r (s, st) = (Some e, (s', st'))" "ok s'" "waiting s' = waiting s"
proof (cases "push ts n r (s, st)")
  case (fields err s' st')
  show ?thesis
  proof (cases err)
    case None
    then show ?thesis
      using fields push_keeps_ok [OF assms, of ts n r st] push_delivers [OF assms, of ts n r st]
      by (intro delivered [of s' st']) auto
  next
    case (Some e)
    then show ?thesis
      using fields push_keeps_ok [OF assms, of ts n r st] push_fails [OF assms, of ts n r st]
      by (intro rejected [of e s' st']) auto
  qed
qed

end

text \<open>A sink with a test that guarantees delivery and that no push invalidates.\<close>

locale accepting_sink = message_sink push waiting ok
  for push :: "go_time \<times> go_time \<Rightarrow> string \<Rightarrow> mref \<Rightarrow> 's \<times> mstore
      \<Rightarrow> QueueError option \<times> ('s \<times> mstore)"
    and waiting :: "'s \<Rightarrow> string \<Rightarrow> mref multiset"
    and ok :: "'s \<Rightarrow> bool" +
  fixes accepts :: "'s \<Rightarrow> string \<Rightarrow> bool"
  assumes accepts_push: "ok s \<Longrightarrow> accepts s n \<Longrightarrow> fst (push ts n r (s, st)) = None"
    and accepts_stays: "ok s \<Longrightarrow> accepts s n \<Longrightarrow> accepts (fst (snd (push ts k r (s, st)))) n"

section \<open>Backoff\<close>

text \<open>
  The delay before a retry is never negative, never above the strategy's cap, and does not
  shrink as retries accumulate.
\<close>

locale backoff_strategy =
  fixes NextBackoff :: "'b \<Rightarrow> int \<Rightarrow> duration"
    and MaxRetries :: "'b \<Rightarrow> int"
    and valid :: "'b \<Rightarrow> bool"
    and cap :: "'b \<Rightarrow> duration"
  assumes backoff_nonneg: "valid b \<Longrightarrow> 0 \<le> NextBackoff b k"
    and backoff_cap: "valid b \<Longrightarrow> NextBackoff b k \<le> cap b"
    and backoff_mono: "valid b \<Longrightarrow> k \<le> k' \<Longrightarrow> NextBackoff b k \<le> NextBackoff b k'"
begin

text \<open>The delays of all the retries of a message, and the bound on their sum.\<close>

definition total_backoff :: "'b \<Rightarrow> duration" where
  "total_backoff b = sum_list (map (\<lambda>k. NextBackoff b (int k)) [1..<Suc (nat (MaxRetries b))])"

lemma total_backoff_bound:
  assumes "valid b"
  shows "0 \<le> total_backoff b" and "total_backoff b \<le> int (nat (MaxRetries b)) * cap b"
proof -
  show "0 \<le> total_backoff b"
    unfolding total_backoff_def by (rule sum_list_nonneg) (auto simp: backoff_nonneg [OF assms])
  have "sum_list (map (\<lambda>k. NextBackoff b (int k)) ks) \<le> int (length ks) * cap b" for ks
    using backoff_cap [OF assms] by (induction ks) (auto simp: algebra_simps add_mono)
  from this [of "[1..<Suc (nat (MaxRetries b))]"]
  show "total_backoff b \<le> int (nat (MaxRetries b)) * cap b"
    by (simp add: total_backoff_def del: upt_Suc)
qed

end

end
