(* ===== verification/QueueManager.thy ===== *)
theory QueueManager
  imports MultiLevelQueue Interfaces
begin

text \<open>
  \<^verbatim>\<open>internal/priorityqueue/queue_manager.go\<close>: \<^verbatim>\<open>QueueManager\<close> keeps one
  \<^verbatim>\<open>MultiLevelQueue\<close> per name, each holding the single queue of that name, applies
  the priority rules to a message before it is pushed, and mirrors the operations in
  Prometheus metrics. Messages are references into a store that the operations thread.

  Prometheus is a library: a call on a metric is an event appended to \<open>qm_metrics\<close>, and
  \<^verbatim>\<open>MustRegister\<close> is an argument of \<open>NewQueueManager\<close>. Iteration over a Go map is an
  argument listing the keys in the order the run took. The locale \<open>message_sink\<close> at the
  end is the contract \<^verbatim>\<open>PushMessage\<close> gives to the workers and to the dead letter
  queue; \<^verbatim>\<open>PushMessage\<close> is its interpretation.
\<close>

section \<open>Configuration, metrics, state\<close>

text \<open>A rule's \<^verbatim>\<open>Condition\<close> reads the message only.\<close>

record PriorityAdjustRule =
  par_Condition :: "message \<Rightarrow> bool"
  par_NewPriority :: Priority
  par_Description :: string

record QueueManagerConfig =
  qmc_DefaultMaxSize :: int
  qmc_MonitorInterval :: duration
  qmc_CleanupInterval :: duration
  qmc_MaxRetentionPeriod :: duration
  qmc_EnableMetrics :: bool
  qmc_EnableAutoScaling :: bool
  qmc_ScalingThresholds :: "string \<Rightarrow> int option"
  qmc_PriorityAdjustRules :: "PriorityAdjustRule list"

datatype metric =
    PendingMessages | ProcessingMessages | CompletedMessages | FailedMessages
  | MessageWaitTime | MessageProcessTime | QueueOperations

datatype metric_event =
    MInc metric string string
  | MDec metric string string
  | MSet metric string string int
  | MObserve metric string string duration

text \<open>Namespace, subsystem and name of each metric, in registration order.\<close>

fun metric_name :: "metric \<Rightarrow> string \<times> string \<times> string" where
  "metric_name PendingMessages = (''llm_queue'', ''messages'', ''pending_total'')"
| "metric_name ProcessingMessages = (''llm_queue'', ''messages'', ''processing_total'')"
| "metric_name CompletedMessages = (''llm_queue'', ''messages'', ''completed_total'')"
| "metric_name FailedMessages = (''llm_queue'', ''messages'', ''failed_total'')"
| "metric_name MessageWaitTime = (''llm_queue'', ''messages'', ''wait_time_seconds'')"
| "metric_name MessageProcessTime = (''llm_queue'', ''messages'', ''process_time_seconds'')"
| "metric_name QueueOperations = (''llm_queue'', ''operations'', ''total'')"

definition registered_metrics :: "metric list" where
  "registered_metrics = [PendingMessages, ProcessingMessages, CompletedMessages, FailedMessages,
     MessageWaitTime, MessageProcessTime, QueueOperations]"

record QueueManager =
  qm_queues :: "string \<Rightarrow> mref MultiLevelQueue option"
  qm_config :: QueueManagerConfig
  qm_metrics :: "metric_event list"

type_synonym qm_state = "QueueManager \<times> mstore"

text \<open>\<open>None\<close> is the panic of \<^verbatim>\<open>MustRegister\<close>; \<open>'r\<close> is the metrics registry.\<close>

definition initMetrics ::
    "((string \<times> string \<times> string) list \<Rightarrow> 'r \<Rightarrow> 'r option) \<Rightarrow> 'r \<Rightarrow> 'r option" where
  "initMetrics must_register reg = must_register (map metric_name registered_metrics) reg"

definition NewQueueManager ::
    "((string \<times> string \<times> string) list \<Rightarrow> 'r \<Rightarrow> 'r option) \<Rightarrow> QueueManagerConfig \<Rightarrow> 'r
     \<Rightarrow> (QueueManager \<times> 'r) option" where
  "NewQueueManager must_register config reg =
     (let manager = \<lparr>qm_queues = Map.empty, qm_config = config, qm_metrics = []\<rparr>
      in if qmc_EnableMetrics config
         then map_option (\<lambda>reg'. (manager, reg')) (initMetrics must_register reg)
         else Some (manager, reg))"

definition qm_emit :: "metric_event list \<Rightarrow> QueueManager \<Rightarrow> QueueManager" where
  "qm_emit evs qm =
     (if qmc_EnableMetrics (qm_config qm) then qm\<lparr>qm_metrics := qm_metrics qm @ evs\<rparr> else qm)"

definition qm_set_queue :: "string \<Rightarrow> mref MultiLevelQueue \<Rightarrow> QueueManager \<Rightarrow> QueueManager" where
  "qm_set_queue name q qm = qm\<lparr>qm_queues := (qm_queues qm)(name \<mapsto> q)\<rparr>"

section \<open>Operations\<close>

definition qm_CreateQueue :: "string \<Rightarrow> int \<Rightarrow> go_time \<Rightarrow> QueueManager \<Rightarrow> QueueManager" where
  "qm_CreateQueue name maxSize now qm =
     (if qm_queues qm name = None
      then let maxSize' = (if maxSize \<le> 0 then qmc_DefaultMaxSize (qm_config qm) else maxSize);
               mlq = mlq_AddQueue name now (NewMultiLevelQueue maxSize')
           in qm_emit [MInc QueueOperations name ''create''] (qm_set_queue name mlq qm)
      else qm)"

definition qm_DeleteQueue :: "string \<Rightarrow> QueueManager \<Rightarrow> QueueError option \<times> QueueManager" where
  "qm_DeleteQueue name qm =
     (if qm_queues qm name = None then (Some ErrQueueNotFound, qm)
      else (None, qm_emit [MInc QueueOperations name ''delete'']
                    (qm\<lparr>qm_queues := (qm_queues qm)(name := None)\<rparr>)))"

fun qm_applyPriorityRules :: "PriorityAdjustRule list \<Rightarrow> message \<Rightarrow> message" where
  "qm_applyPriorityRules [] message = message"
| "qm_applyPriorityRules (rule # rules) message =
     (if par_Condition rule message then message\<lparr>m_Priority := par_NewPriority rule\<rparr>
      else qm_applyPriorityRules rules message)"

definition qm_apply_rules :: "QueueManager \<Rightarrow> mref \<Rightarrow> mstore \<Rightarrow> mstore" where
  "qm_apply_rules qm r st =
     st(r := qm_applyPriorityRules (qmc_PriorityAdjustRules (qm_config qm)) (st r))"

definition qm_PushMessage ::
    "go_time \<times> go_time \<Rightarrow> string \<Rightarrow> mref \<Rightarrow> qm_state \<Rightarrow> QueueError option \<times> qm_state" where
  "qm_PushMessage nows queueName r s =
     (case s of (qm, st) \<Rightarrow>
        case qm_queues qm queueName of
          None \<Rightarrow> (Some ErrQueueNotFound, (qm, st))
        | Some queue \<Rightarrow>
            let st1 = qm_apply_rules qm r st; prio = m_Priority (st1 r)
            in case mlq_Push queueName r prio (fst nows) (snd nows) queue of
                 (Some err, queue') \<Rightarrow> (Some err, (qm_set_queue queueName queue' qm, st1))
               | (None, queue') \<Rightarrow>
                   (None, (qm_emit [MInc QueueOperations queueName ''push'',
                                    MInc PendingMessages queueName (Priority_String prio)]
                             (qm_set_queue queueName queue' qm), st1)))"

text \<open>The loop of \<^verbatim>\<open>BatchPushMessages\<close>, with the times of each push.\<close>

fun qm_batch_push ::
    "string \<Rightarrow> (mref \<times> go_time \<times> go_time) list \<Rightarrow> mref MultiLevelQueue \<Rightarrow> qm_state \<Rightarrow> int
     \<Rightarrow> int \<times> mref MultiLevelQueue \<times> qm_state" where
  "qm_batch_push queueName [] queue s successCount = (successCount, queue, s)"
| "qm_batch_push queueName ((r, now, now') # msgs) queue (qm, st) successCount =
     (let st1 = qm_apply_rules qm r st; prio = m_Priority (st1 r)
      in case mlq_Push queueName r prio now now' queue of
           (Some err, queue') \<Rightarrow> qm_batch_push queueName msgs queue' (qm, st1) successCount
         | (None, queue') \<Rightarrow>
             qm_batch_push queueName msgs queue'
               (qm_emit [MInc PendingMessages queueName (Priority_String prio)] qm, st1)
               (successCount + 1))"

definition qm_BatchPushMessages ::
    "string \<Rightarrow> (mref \<times> go_time \<times> go_time) list \<Rightarrow> qm_state \<Rightarrow> (QueueError + int) \<times> qm_state" where
  "qm_BatchPushMessages queueName msgs s =
     (case s of (qm, st) \<Rightarrow>
        case qm_queues qm queueName of
          None \<Rightarrow> (Inl ErrQueueNotFound, (qm, st))
        | Some queue \<Rightarrow>
            (case qm_batch_push queueName msgs queue (qm, st) 0 of
               (successCount, queue', (qm', st')) \<Rightarrow>
                 (Inr successCount,
                  (qm_emit [MInc QueueOperations queueName ''batch_push''] (qm_set_queue queueName queue' qm'), st'))))"

definition pop_metrics :: "string \<Rightarrow> mref \<Rightarrow> mstore \<Rightarrow> metric_event list" where
  "pop_metrics queueName r st =
     [MDec PendingMessages queueName (Priority_String (m_Priority (st r))),
      MInc ProcessingMessages queueName (Priority_String (m_Priority (st r)))]"

definition qm_PopMessage :: "go_time \<Rightarrow> string \<Rightarrow> qm_state \<Rightarrow> (QueueError + mref) \<times> qm_state" where
  "qm_PopMessage now queueName s =
     (case s of (qm, st) \<Rightarrow>
        case qm_queues qm queueName of
          None \<Rightarrow> (Inl ErrQueueNotFound, (qm, st))
        | Some queue \<Rightarrow>
            (case mlq_Pop queueName now queue of
               (Inl err, queue') \<Rightarrow> (Inl err, (qm_set_queue queueName queue' qm, st))
             | (Inr r, queue') \<Rightarrow>
                 (Inr r, (qm_emit (MInc QueueOperations queueName ''pop'' # pop_metrics queueName r st)
                            (qm_set_queue queueName queue' qm), st))))"

text \<open>The loop of \<^verbatim>\<open>BatchPopMessages\<close>: at most \<open>count\<close> pops, stopping at the first error.\<close>

fun qm_batch_pop ::
    "string \<Rightarrow> nat \<Rightarrow> (nat \<Rightarrow> go_time) \<Rightarrow> mref MultiLevelQueue \<Rightarrow> qm_state
     \<Rightarrow> mref list \<times> mref MultiLevelQueue \<times> qm_state" where
  "qm_batch_pop queueName 0 nows queue s = ([], queue, s)"
| "qm_batch_pop queueName (Suc k) nows queue (qm, st) =
     (case mlq_Pop queueName (nows 0) queue of
        (Inl err, queue') \<Rightarrow> ([], queue', (qm, st))
      | (Inr r, queue') \<Rightarrow>
          (case qm_batch_pop queueName k (\<lambda>i. nows (Suc i)) queue'
                  (qm_emit (pop_metrics queueName r st) qm, st) of
             (rs, queue'', s') \<Rightarrow> (r # rs, queue'', s')))"

text \<open>A negative \<open>count\<close> is a panic (\<open>None\<close>): \<^verbatim>\<open>make\<close> with a negative capacity.\<close>

definition qm_BatchPopMessages ::
    "(nat \<Rightarrow> go_time) \<Rightarrow> string \<Rightarrow> int \<Rightarrow> qm_state \<Rightarrow> ((QueueError + mref list) \<times> qm_state) option" where
  "qm_BatchPopMessages nows queueName n s =
     (case s of (qm, st) \<Rightarrow>
        case qm_queues qm queueName of
          None \<Rightarrow> Some (Inl ErrQueueNotFound, (qm, st))
        | Some queue \<Rightarrow>
            if n < 0 then None
            else (case qm_batch_pop queueName (nat n) nows queue (qm, st) of
                    (rs, queue', (qm', st')) \<Rightarrow>
                      Some (Inr rs, (qm_emit [MInc QueueOperations queueName ''batch_pop'']
                                       (qm_set_queue queueName queue' qm'), st'))))"

definition qm_CompleteMessage :: "go_time \<Rightarrow> string \<Rightarrow> duration \<Rightarrow> QueueManager \<Rightarrow> QueueManager" where
  "qm_CompleteMessage now queueName processingTime qm =
     (case qm_queues qm queueName of
        None \<Rightarrow> qm
      | Some queue \<Rightarrow>
          qm_emit [MDec ProcessingMessages queueName ''unknown'',
                   MInc CompletedMessages queueName ''unknown'',
                   MObserve MessageProcessTime queueName ''unknown'' processingTime]
            (qm_set_queue queueName (mlq_CompleteMessage queueName now queue) qm))"

definition qm_FailMessage :: "go_time \<Rightarrow> string \<Rightarrow> QueueManager \<Rightarrow> QueueManager" where
  "qm_FailMessage now queueName qm =
     (case qm_queues qm queueName of
        None \<Rightarrow> qm
      | Some queue \<Rightarrow>
          qm_emit [MDec ProcessingMessages queueName ''unknown'',
                   MInc FailedMessages queueName ''unknown'']
            (qm_set_queue queueName (mlq_FailMessage queueName now queue) qm))"

definition qm_GetQueueStats :: "string \<Rightarrow> QueueManager \<Rightarrow> QueueError + QueueStats" where
  "qm_GetQueueStats queueName qm =
     (case qm_queues qm queueName of
        None \<Rightarrow> Inl ErrQueueNotFound
      | Some queue \<Rightarrow> mlq_GetStats queueName queue)"

definition qm_GetAllQueueStats :: "QueueManager \<Rightarrow> string \<Rightarrow> QueueStats option" where
  "qm_GetAllQueueStats qm = (\<lambda>name.
     case qm_queues qm name of
       None \<Rightarrow> None
     | Some queue \<Rightarrow> (case mlq_GetStats name queue of Inl _ \<Rightarrow> None | Inr st \<Rightarrow> Some st))"

section \<open>The monitor's work\<close>

text \<open>\<open>names\<close> are the keys of \<^verbatim>\<open>qm.queues\<close> in iteration order.\<close>

fun qm_updateQueueMetrics :: "string list \<Rightarrow> QueueManager \<Rightarrow> QueueManager" where
  "qm_updateQueueMetrics [] qm = qm"
| "qm_updateQueueMetrics (name # names) qm =
     qm_updateQueueMetrics names
       (case qm_GetQueueStats name qm of
          Inl _ \<Rightarrow> qm
        | Inr st \<Rightarrow> qm_emit [MSet PendingMessages name ''all'' (qs_PendingCount st),
                             MSet ProcessingMessages name ''all'' (qs_ProcessingCount st)] qm)"

text \<open>The logged recommendations: queue, size, threshold.\<close>

fun qm_checkQueueThresholds :: "string list \<Rightarrow> QueueManager \<Rightarrow> (string \<times> int \<times> int) list" where
  "qm_checkQueueThresholds [] qm = []"
| "qm_checkQueueThresholds (name # names) qm =
     (case (qm_queues qm name, qmc_ScalingThresholds (qm_config qm) name) of
        (Some queue, Some threshold) \<Rightarrow>
          (case mlq_Size name queue of
             Inl _ \<Rightarrow> []
           | Inr sz \<Rightarrow> if sz > threshold then [(name, sz, threshold)] else [])
      | _ \<Rightarrow> []) @ qm_checkQueueThresholds names qm"

section \<open>Invariant\<close>

text \<open>The entry of a name holds the one queue of that name, in a consistent state.\<close>

definition mlq_only :: "string \<Rightarrow> 'm MultiLevelQueue \<Rightarrow> bool" where
  "mlq_only n q \<longleftrightarrow> mlq_inv q \<and> dom (mlq_queues q) = {n}"

definition qm_inv :: "QueueManager \<Rightarrow> bool" where
  "qm_inv qm \<longleftrightarrow> (\<forall>n q. qm_queues qm n = Some q \<longrightarrow> mlq_only n q)"

definition mlq_waiting :: "string \<Rightarrow> 'm MultiLevelQueue \<Rightarrow> 'm multiset" where
  "mlq_waiting n q =
     (case mlq_queues q n of None \<Rightarrow> {#} | Some pq \<Rightarrow> image_mset fst (mset (pq_entries pq)))"

definition qm_waiting :: "QueueManager \<Rightarrow> string \<Rightarrow> mref multiset" where
  "qm_waiting qm n = (case qm_queues qm n of None \<Rightarrow> {#} | Some q \<Rightarrow> mlq_waiting n q)"

definition mlq_stat :: "(QueueStats \<Rightarrow> int) \<Rightarrow> string \<Rightarrow> 'm MultiLevelQueue \<Rightarrow> int" where
  "mlq_stat f n q = (case mlq_stats q n of None \<Rightarrow> 0 | Some st \<Rightarrow> f st)"

definition qm_stat :: "(QueueStats \<Rightarrow> int) \<Rightarrow> string \<Rightarrow> QueueManager \<Rightarrow> int" where
  "qm_stat f n qm = (case qm_queues qm n of None \<Rightarrow> 0 | Some q \<Rightarrow> mlq_stat f n q)"

lemma mlq_only_lookup:
  assumes "mlq_only n q"
  obtains pq where "mlq_queues q n = Some pq" and "mlq_inv q"
  using assms by (auto simp: mlq_only_def)

lemma mlq_only_stats: "mlq_only n q \<Longrightarrow> mlq_stats q n \<noteq> None"
  using mlq_inv_stats_None [of q n] by (auto simp: mlq_only_def)

lemma mlq_only_new [inv_intro]: "mlq_only n (mlq_AddQueue n t (NewMultiLevelQueue k))"
  by (auto simp: mlq_only_def mlq_AddQueue_def NewMultiLevelQueue_def
      intro: mlq_inv_AddQueue [OF mlq_inv_new, of n t k, unfolded mlq_AddQueue_def NewMultiLevelQueue_def, simplified])

text \<open>Each operation on the one queue of an entry: what it returns and what it changes.\<close>

lemma mlq_Push_only:
  assumes q: "mlq_only n q" and p: "mlq_Push n m p t t' q = (res, q')"
  shows "mlq_only n q'"
    and "mlq_waiting n q' = (if res = None then add_mset m (mlq_waiting n q) else mlq_waiting n q)"
    and "mlq_stat qs_PendingCount n q' = mlq_stat qs_PendingCount n q + (if res = None then 1 else 0)"
    and "mlq_stat qs_ProcessingCount n q' = mlq_stat qs_ProcessingCount n q"
    and "res \<noteq> None \<Longrightarrow> res = Some ErrQueueFull \<and> q' = q"
proof -
  obtain pq where pq: "mlq_queues q n = Some pq" and inv: "mlq_inv q"
    using q by (rule mlq_only_lookup)
  have wf: "pq_wf pq" using mlq_inv_lookup [OF inv pq] by blast
  obtain st where st: "mlq_stats q n = Some st" using mlq_only_stats [OF q] by blast
  have "mlq_inv q'" using mlq_inv_Push [OF inv, of n m p t t'] p by simp
  then show "mlq_only n q'"
    using q p pq by (auto simp: mlq_only_def mlq_Push_def Let_def split: if_splits)
  show "mlq_waiting n q' = (if res = None then add_mset m (mlq_waiting n q) else mlq_waiting n q)"
    using p pq by (auto simp: mlq_Push_def Let_def mlq_waiting_def pq_mset_Push [OF wf] entry_of_def split: if_splits)
  show "mlq_stat qs_PendingCount n q' = mlq_stat qs_PendingCount n q + (if res = None then 1 else 0)"
    and "mlq_stat qs_ProcessingCount n q' = mlq_stat qs_ProcessingCount n q"
    and "res \<noteq> None \<Longrightarrow> res = Some ErrQueueFull \<and> q' = q"
    using p pq st by (auto simp: mlq_Push_def Let_def mlq_stat_def mlq_updateStats_def split: if_splits)
qed

lemma mlq_Pop_only:
  assumes q: "mlq_only n q" and p: "mlq_Pop n t q = (res, q')"
  shows "mlq_only n q'"
    and "res = Inr m \<Longrightarrow> mlq_waiting n q = add_mset m (mlq_waiting n q')"
    and "res = Inr m \<Longrightarrow> mlq_stat qs_PendingCount n q' = mlq_stat qs_PendingCount n q - 1"
    and "res = Inr m \<Longrightarrow> mlq_stat qs_ProcessingCount n q' = mlq_stat qs_ProcessingCount n q + 1"
    and "res = Inl e \<Longrightarrow> e = ErrQueueEmpty \<and> q' = q \<and> mlq_waiting n q = {#}"
proof -
  obtain pq where pq: "mlq_queues q n = Some pq" and inv: "mlq_inv q"
    using q by (rule mlq_only_lookup)
  have wf: "pq_wf pq" using mlq_inv_lookup [OF inv pq] by blast
  obtain st where st: "mlq_stats q n = Some st" using mlq_only_stats [OF q] by blast
  have "mlq_inv q'" using mlq_inv_Pop [OF inv, of n t] p by simp
  then show "mlq_only n q'"
    using q p pq by (auto simp: mlq_only_def mlq_Pop_def case_prod_beta split: if_splits)
  show "res = Inl e \<Longrightarrow> e = ErrQueueEmpty \<and> q' = q \<and> mlq_waiting n q = {#}"
    using p pq by (auto simp: mlq_Pop_def case_prod_beta mlq_waiting_def pq_entries_def split: if_splits)
  assume res: "res = Inr m"
  then have ne: "pq \<noteq> []" using p pq by (auto simp: mlq_Pop_def)
  then obtain it pq' where pop: "pq_heap_Pop pq = Some (it, pq')" using pq_Pop_Some by blast
  have "mset (pq_entries pq) = add_mset (entry_of it) (mset (pq_entries pq'))"
    using pq_Pop_correct [OF wf pop] by simp
  then show "mlq_waiting n q = add_mset m (mlq_waiting n q')"
    and "mlq_stat qs_PendingCount n q' = mlq_stat qs_PendingCount n q - 1"
    and "mlq_stat qs_ProcessingCount n q' = mlq_stat qs_ProcessingCount n q + 1"
    using p pq st ne res
    by (auto simp: mlq_Pop_def pop mlq_waiting_def mlq_stat_def mlq_updateStats_def entry_of_def)
qed

lemma mlq_mark_only:
  assumes "mlq_only n q" and "q' = mlq_CompleteMessage n t q \<or> q' = mlq_FailMessage n t q"
  shows "mlq_only n q'" and "mlq_waiting n q' = mlq_waiting n q"
    and "mlq_stat qs_PendingCount n q' = mlq_stat qs_PendingCount n q"
    and "mlq_stat qs_ProcessingCount n q' = mlq_stat qs_ProcessingCount n q - 1"
  using assms mlq_only_stats [OF assms(1)]
  by (auto simp: mlq_only_def inv_intro mlq_waiting_def mlq_stat_def mlq_CompleteMessage_def
      mlq_FailMessage_def mlq_updateStats_def split: option.splits
      dest: mlq_inv_Complete [of q n t] mlq_inv_Fail [of q n t])

section \<open>Metrics\<close>

text \<open>What the increments and decrements of a gauge add up to, over all labels; \<open>GaugeSeries\<close> has each series.\<close>

fun gauge_delta :: "metric \<Rightarrow> string \<Rightarrow> metric_event \<Rightarrow> int" where
  "gauge_delta m n (MInc m' n' l) = (if m' = m \<and> n' = n then 1 else 0)"
| "gauge_delta m n (MDec m' n' l) = (if m' = m \<and> n' = n then -1 else 0)"
| "gauge_delta m n _ = 0"

definition gauge_net :: "metric \<Rightarrow> string \<Rightarrow> metric_event list \<Rightarrow> int" where
  "gauge_net m n evs = sum_list (map (gauge_delta m n) evs)"

text \<open>Events for queue \<open>n\<close> that move its pending gauge by \<open>a\<close>, its processing gauge by \<open>b\<close>.\<close>

definition evs_move :: "string \<Rightarrow> int \<Rightarrow> int \<Rightarrow> metric_event list \<Rightarrow> bool" where
  "evs_move n a b evs \<longleftrightarrow>
     (\<forall>n'. gauge_net PendingMessages n' evs = (if n' = n then a else 0) \<and>
           gauge_net ProcessingMessages n' evs = (if n' = n then b else 0))"

lemma gauge_net_append [simp]: "gauge_net m n (xs @ ys) = gauge_net m n xs + gauge_net m n ys"
  by (simp add: gauge_net_def)

lemma gauge_net_Nil [simp]: "gauge_net m n [] = 0"
  by (simp add: gauge_net_def)

lemma evs_move_Nil [simp]: "evs_move n 0 0 []"
  by (simp add: evs_move_def)

lemma evs_move_append: "evs_move n a b xs \<Longrightarrow> evs_move n c d ys \<Longrightarrow> evs_move n (a + c) (b + d) (xs @ ys)"
  by (simp add: evs_move_def)

lemma evs_move_intros:
  "evs_move n 0 0 [MInc QueueOperations n l]"
  "evs_move n 1 0 [MInc PendingMessages n l]"
  "evs_move n 1 0 [MInc QueueOperations n k, MInc PendingMessages n l]"
  "evs_move n (-1) 1 (pop_metrics n r st)"
  "evs_move n (-1) 1 (MInc QueueOperations n k # pop_metrics n r st)"
  "evs_move n 0 (-1) [MDec ProcessingMessages n k, MInc CompletedMessages n l, MObserve MessageProcessTime n l d]"
  "evs_move n 0 (-1) [MDec ProcessingMessages n k, MInc FailedMessages n l]"
  by (auto simp: evs_move_def gauge_net_def pop_metrics_def)

text \<open>The distance between the two gauges of a queue and its counters.\<close>

definition qm_drift :: "string \<Rightarrow> QueueManager \<Rightarrow> int \<times> int" where
  "qm_drift n qm =
     (gauge_net PendingMessages n (qm_metrics qm) - qm_stat qs_PendingCount n qm,
      gauge_net ProcessingMessages n (qm_metrics qm) - qm_stat qs_ProcessingCount n qm)"

text \<open>What every operation on a manager keeps.\<close>

definition qm_sync :: "QueueManager \<Rightarrow> QueueManager \<Rightarrow> bool" where
  "qm_sync qm qm' \<longleftrightarrow> qm_inv qm' \<and> qm_config qm' = qm_config qm \<and>
     (qmc_EnableMetrics (qm_config qm) \<longrightarrow> (\<forall>n. qm_drift n qm' = qm_drift n qm))"

lemma qm_sync_refl: "qm_inv qm \<Longrightarrow> qm_sync qm qm"
  by (simp add: qm_sync_def)

lemma qm_emit_simps [simp]:
  "qm_queues (qm_emit evs qm) = qm_queues qm" "qm_config (qm_emit evs qm) = qm_config qm"
  "qm_emit ys (qm_emit xs qm) = qm_emit (xs @ ys) qm"
  "qm_set_queue n q (qm_emit xs qm) = qm_emit xs (qm_set_queue n q qm)"
  "qm_emit [] qm = qm"
  by (simp_all add: qm_emit_def qm_set_queue_def)

lemma qm_set_queue_simps [simp]:
  "qm_queues (qm_set_queue n q qm) = (qm_queues qm)(n \<mapsto> q)"
  "qm_config (qm_set_queue n q qm) = qm_config qm" "qm_metrics (qm_set_queue n q qm) = qm_metrics qm"
  by (simp_all add: qm_set_queue_def)

lemma qm_inv_lookup: "qm_inv qm \<Longrightarrow> qm_queues qm n = Some q \<Longrightarrow> mlq_only n q"
  by (simp add: qm_inv_def)

lemma qm_inv_set: "qm_inv qm \<Longrightarrow> mlq_only n q \<Longrightarrow> qm_inv (qm_emit evs (qm_set_queue n q qm))"
  by (simp add: qm_inv_def)

lemma qm_sync_set:
  assumes "qm_inv qm" and "qm_queues qm n = Some q" and "mlq_only n q'"
    and "mlq_stat qs_PendingCount n q' = mlq_stat qs_PendingCount n q + a"
    and "mlq_stat qs_ProcessingCount n q' = mlq_stat qs_ProcessingCount n q + b"
    and "evs_move n a b evs"
  shows "qm_sync qm (qm_emit evs (qm_set_queue n q' qm))"
proof -
  have "qm_drift n' (qm_emit evs (qm_set_queue n q' qm)) = qm_drift n' qm"
    if "qmc_EnableMetrics (qm_config qm)" for n'
  proof (cases "n' = n")
    case True
    with assms that show ?thesis
      by (simp add: qm_drift_def qm_stat_def qm_emit_def evs_move_def)
  next
    case False
    with assms that show ?thesis
      by (simp add: qm_drift_def qm_stat_def qm_emit_def evs_move_def)
  qed
  with assms show ?thesis by (simp add: qm_sync_def qm_inv_set)
qed

lemma mlq_stat_new:
  "mlq_stat qs_PendingCount n (mlq_AddQueue n t (NewMultiLevelQueue k)) = 0"
  "mlq_stat qs_ProcessingCount n (mlq_AddQueue n t (NewMultiLevelQueue k)) = 0"
  by (simp_all add: mlq_stat_def mlq_AddQueue_def NewMultiLevelQueue_def new_stats_def)

lemma qm_sync_new:
  assumes "qm_inv qm" and "qm_queues qm n = None" and "mlq_only n q"
    and "mlq_stat qs_PendingCount n q = 0" and "mlq_stat qs_ProcessingCount n q = 0"
    and "evs_move n 0 0 evs"
  shows "qm_sync qm (qm_emit evs (qm_set_queue n q qm))"
proof -
  have "qm_drift n' (qm_emit evs (qm_set_queue n q qm)) = qm_drift n' qm"
    if "qmc_EnableMetrics (qm_config qm)" for n'
    using assms that by (cases "n' = n") (simp_all add: qm_drift_def qm_stat_def qm_emit_def evs_move_def)
  with assms show ?thesis by (simp add: qm_sync_def qm_inv_set)
qed

lemma qm_sync_CreateQueue: "qm_inv qm \<Longrightarrow> qm_sync qm (qm_CreateQueue n k t qm)"
  by (cases "qm_queues qm n")
    (simp_all add: qm_CreateQueue_def Let_def qm_sync_refl qm_sync_new mlq_only_new mlq_stat_new evs_move_intros)

lemma qm_inv_DeleteQueue [inv_intro]: "qm_inv qm \<Longrightarrow> qm_inv (snd (qm_DeleteQueue n qm))"
  by (simp add: qm_DeleteQueue_def qm_inv_def)

lemma qm_sync_PushMessage:
  assumes inv: "qm_inv (fst s)"
  shows "qm_sync (fst s) (fst (snd (qm_PushMessage nows n r s)))"
proof (cases s)
  case (Pair qm st)
  show ?thesis
  proof (cases "qm_queues qm n")
    case (Some q)
    let ?p = "m_Priority (qm_apply_rules qm r st r)"
    obtain res q' where p: "mlq_Push n r ?p (fst nows) (snd nows) q = (res, q')" by force
    have inv': "qm_inv qm" using inv Pair by simp
    note c = mlq_Push_only [OF qm_inv_lookup [OF inv' Some] p]
    show ?thesis
    proof (cases res)
      case None
      with c show ?thesis
        by (auto simp: Pair qm_PushMessage_def Some Let_def p evs_move_intros
            intro!: qm_sync_set [OF inv' Some, where a = 1 and b = 0])
    next
      case (Some e)
      with c qm_sync_set [OF inv' \<open>qm_queues qm n = Some q\<close> c(1), where a = 0 and b = 0 and evs = "[]"]
      show ?thesis
        by (simp add: Pair qm_PushMessage_def \<open>qm_queues qm n = Some q\<close> Let_def p)
    qed
  qed (use inv Pair in \<open>simp add: qm_PushMessage_def qm_sync_refl\<close>)
qed

lemma qm_sync_PopMessage:
  assumes inv: "qm_inv (fst s)"
  shows "qm_sync (fst s) (fst (snd (qm_PopMessage t n s)))"
proof (cases s)
  case (Pair qm st)
  show ?thesis
  proof (cases "qm_queues qm n")
    case (Some q)
    obtain res q' where p: "mlq_Pop n t q = (res, q')" by force
    have inv': "qm_inv qm" using inv Pair by simp
    note c = mlq_Pop_only [OF qm_inv_lookup [OF inv' Some] p]
    show ?thesis
    proof (cases res)
      case (Inr m)
      with c show ?thesis
        by (auto simp: Pair qm_PopMessage_def Some p evs_move_intros
            intro!: qm_sync_set [OF inv' Some, where a = "-1" and b = 1])
    next
      case (Inl e)
      with c qm_sync_set [OF inv' Some c(1), where a = 0 and b = 0 and evs = "[]"]
      show ?thesis by (simp add: Pair qm_PopMessage_def Some p)
    qed
  qed (use inv Pair in \<open>simp add: qm_PopMessage_def qm_sync_refl\<close>)
qed

lemma qm_sync_Complete: "qm_inv qm \<Longrightarrow> qm_sync qm (qm_CompleteMessage t n d qm)"
  by (cases "qm_queues qm n")
    (auto simp: qm_CompleteMessage_def evs_move_intros qm_sync_refl
      mlq_mark_only [OF qm_inv_lookup disjI1, OF _ _ refl]
      intro!: qm_sync_set [where a = 0 and b = "-1"])

lemma qm_sync_Fail: "qm_inv qm \<Longrightarrow> qm_sync qm (qm_FailMessage t n qm)"
  by (cases "qm_queues qm n")
    (auto simp: qm_FailMessage_def evs_move_intros qm_sync_refl
      mlq_mark_only [OF qm_inv_lookup disjI2, OF _ _ refl]
      intro!: qm_sync_set [where a = 0 and b = "-1"])

section \<open>The batch loops\<close>

lemma qm_batch_push_only:
  assumes "mlq_only n q" and "qm_batch_push n msgs q (qm, st) c = (c', q', (qm', st'))"
  obtains evs where "qm' = qm_emit evs qm" and "evs_move n (c' - c) 0 evs" and "mlq_only n q'"
    and "mlq_stat qs_PendingCount n q' = mlq_stat qs_PendingCount n q + (c' - c)"
    and "mlq_stat qs_ProcessingCount n q' = mlq_stat qs_ProcessingCount n q"
  using assms
proof (induction msgs arbitrary: q qm st c thesis)
  case Nil
  then show ?case by (metis qm_batch_push.simps(1) prod.inject qm_emit_simps(5) evs_move_Nil diff_self add_0_right)
next
  case (Cons x msgs)
  obtain r t t' where x: "x = (r, t, t')" by (cases x)
  let ?st1 = "qm_apply_rules qm r st"
  let ?p = "m_Priority (?st1 r)"
  obtain res q1 where p: "mlq_Push n r ?p t t' q = (res, q1)" by force
  note o = mlq_Push_only [OF Cons.prems(2) p]
  show ?case
  proof (cases res)
    case (Some e)
    then have rec: "qm_batch_push n msgs q1 (qm, ?st1) c = (c', q', (qm', st'))"
      using Cons.prems(3) p by (simp add: x Let_def)
    have "q1 = q" using o(5) Some by simp
    with rec Cons.prems(2) show ?thesis by (intro Cons.IH [OF Cons.prems(1)]) simp_all
  next
    case None
    let ?ev = "[MInc PendingMessages n (Priority_String ?p)]"
    have rec: "qm_batch_push n msgs q1 (qm_emit ?ev qm, ?st1) (c + 1) = (c', q', (qm', st'))"
      using Cons.prems(3) p None by (simp add: x Let_def)
    obtain evs where evs: "qm' = qm_emit evs (qm_emit ?ev qm)" "evs_move n (c' - (c + 1)) 0 evs" "mlq_only n q'"
        "mlq_stat qs_PendingCount n q' = mlq_stat qs_PendingCount n q1 + (c' - (c + 1))"
        "mlq_stat qs_ProcessingCount n q' = mlq_stat qs_ProcessingCount n q1"
      by (rule Cons.IH [OF _ o(1) rec])
    show ?thesis
    proof (rule Cons.prems(1) [of "?ev @ evs"])
      show "evs_move n (c' - c) 0 (?ev @ evs)"
        using evs_move_append [OF evs_move_intros(2) evs(2)] by simp
      show "mlq_stat qs_PendingCount n q' = mlq_stat qs_PendingCount n q + (c' - c)"
        using evs(4) o(3) None by simp
      show "mlq_stat qs_ProcessingCount n q' = mlq_stat qs_ProcessingCount n q"
        using evs(5) o(4) by simp
    qed (simp_all add: evs(1,3))
  qed
qed

lemma qm_sync_BatchPush:
  assumes inv: "qm_inv (fst s)"
  shows "qm_sync (fst s) (fst (snd (qm_BatchPushMessages n msgs s)))"
proof (cases s)
  case (Pair qm st)
  show ?thesis
  proof (cases "qm_queues qm n")
    case (Some q)
    obtain c' q' qm' st' where b: "qm_batch_push n msgs q (qm, st) 0 = (c', q', (qm', st'))"
      by (metis prod.exhaust)
    have inv': "qm_inv qm" using inv Pair by simp
    obtain evs where evs: "qm' = qm_emit evs qm" "evs_move n (c' - 0) 0 evs" "mlq_only n q'"
        "mlq_stat qs_PendingCount n q' = mlq_stat qs_PendingCount n q + (c' - 0)"
        "mlq_stat qs_ProcessingCount n q' = mlq_stat qs_ProcessingCount n q"
      by (rule qm_batch_push_only [OF qm_inv_lookup [OF inv' Some] b])
    have "evs_move n (c' - 0 + 0) (0 + 0) (evs @ [MInc QueueOperations n ''batch_push''])"
      by (rule evs_move_append [OF evs(2) evs_move_intros(1)])
    with evs show ?thesis
      by (auto simp: Pair qm_BatchPushMessages_def Some b
          intro!: qm_sync_set [OF inv' Some, where a = c' and b = 0])
  qed (use inv Pair in \<open>simp add: qm_BatchPushMessages_def qm_sync_refl\<close>)
qed

lemma qm_batch_pop_only:
  assumes "mlq_only n q" and "qm_batch_pop n k ts q (qm, st) = (rs, q', (qm', st'))"
  obtains evs where "qm' = qm_emit evs qm" and "st' = st"
    and "evs_move n (- int (length rs)) (int (length rs)) evs" and "mlq_only n q'"
    and "mlq_stat qs_PendingCount n q' = mlq_stat qs_PendingCount n q - int (length rs)"
    and "mlq_stat qs_ProcessingCount n q' = mlq_stat qs_ProcessingCount n q + int (length rs)"
    and "mlq_waiting n q = mset rs + mlq_waiting n q'"
    and "length rs = min k (size (mlq_waiting n q))"
  using assms
proof (induction k arbitrary: ts q qm rs thesis)
  case 0
  have "rs = []" "q' = q" "qm' = qm" "st' = st" using 0(3) by simp_all
  with 0(2) show ?case by (intro 0(1) [of "[]"]) simp_all
next
  case (Suc k)
  obtain res q1 where p: "mlq_Pop n (ts 0) q = (res, q1)" by force
  note o = mlq_Pop_only [OF Suc.prems(2) p]
  show ?case
  proof (cases res)
    case (Inl e)
    have "rs = []" "q' = q" "qm' = qm" "st' = st" "mlq_waiting n q = {#}"
      using o(5) [OF Inl] Suc.prems(3) p Inl by simp_all
    with Suc.prems(2) show ?thesis by (intro Suc.prems(1) [of "[]"]) simp_all
  next
    case (Inr m)
    let ?ev = "pop_metrics n m st"
    obtain rs1 q2 qm2 st2 where rec: "qm_batch_pop n k (\<lambda>i. ts (Suc i)) q1 (qm_emit ?ev qm, st) = (rs1, q2, (qm2, st2))"
      by (metis prod.exhaust)
    then have eq: "rs = m # rs1" "q' = q2" "qm' = qm2" "st' = st2"
      using Suc.prems(3) p Inr by simp_all
    have rec': "qm_batch_pop n k (\<lambda>i. ts (Suc i)) q1 (qm_emit ?ev qm, st) = (rs1, q', (qm', st'))"
      using rec eq by simp
    obtain evs where evs: "qm' = qm_emit evs (qm_emit ?ev qm)" "st' = st"
        "evs_move n (- int (length rs1)) (int (length rs1)) evs" "mlq_only n q'"
        "mlq_stat qs_PendingCount n q' = mlq_stat qs_PendingCount n q1 - int (length rs1)"
        "mlq_stat qs_ProcessingCount n q' = mlq_stat qs_ProcessingCount n q1 + int (length rs1)"
        "mlq_waiting n q1 = mset rs1 + mlq_waiting n q'" "length rs1 = min k (size (mlq_waiting n q1))"
      by (rule Suc.IH [OF _ o(1) rec'])
    note moved = o(2) [OF Inr] o(3) [OF Inr] o(4) [OF Inr]
    show ?thesis
    proof (rule Suc.prems(1) [of "?ev @ evs"])
      show "evs_move n (- int (length rs)) (int (length rs)) (?ev @ evs)"
        using evs_move_append [OF evs_move_intros(4) evs(3)] by (simp add: eq)
      show "mlq_stat qs_PendingCount n q' = mlq_stat qs_PendingCount n q - int (length rs)"
        and "mlq_stat qs_ProcessingCount n q' = mlq_stat qs_ProcessingCount n q + int (length rs)"
        using evs(5,6) moved(2,3) by (simp_all add: eq(1))
      show "mlq_waiting n q = mset rs + mlq_waiting n q'"
        and "length rs = min (Suc k) (size (mlq_waiting n q))"
        using evs(7,8) moved(1) by (simp_all add: eq(1))
    qed (simp_all add: evs(1,2,4))
  qed
qed

lemma qm_sync_BatchPop:
  assumes inv: "qm_inv (fst s)" and run: "qm_BatchPopMessages ts n k s = Some (res, s')"
  shows "qm_sync (fst s) (fst s')"
proof (cases s)
  case (Pair qm st)
  show ?thesis
  proof (cases "qm_queues qm n")
    case (Some q)
    obtain rs q' qm' st' where b: "qm_batch_pop n (nat k) ts q (qm, st) = (rs, q', (qm', st'))"
      by (metis prod.exhaust)
    have inv': "qm_inv qm" using inv Pair by simp
    obtain evs where evs: "qm' = qm_emit evs qm" "evs_move n (- int (length rs)) (int (length rs)) evs" "mlq_only n q'"
        "mlq_stat qs_PendingCount n q' = mlq_stat qs_PendingCount n q - int (length rs)"
        "mlq_stat qs_ProcessingCount n q' = mlq_stat qs_ProcessingCount n q + int (length rs)"
      by (rule qm_batch_pop_only [OF qm_inv_lookup [OF inv' Some] b])
    have "evs_move n (- int (length rs) + 0) (int (length rs) + 0) (evs @ [MInc QueueOperations n ''batch_pop''])"
      by (rule evs_move_append [OF evs(2) evs_move_intros(1)])
    with evs run show ?thesis
      by (auto simp: Pair qm_BatchPopMessages_def Some b split: if_splits
          intro!: qm_sync_set [OF inv' Some, where a = "- int (length rs)" and b = "int (length rs)"])
  qed (use inv Pair run in \<open>auto simp: qm_BatchPopMessages_def qm_sync_refl\<close>)
qed

section \<open>The contract of \<open>PushMessage\<close>\<close>

lemma qm_waiting_set:
  "qm_waiting (qm_emit evs (qm_set_queue n q qm)) = (qm_waiting qm)(n := mlq_waiting n q)"
  by (auto simp: qm_waiting_def)

lemma qm_waiting_frame:
  assumes "qm_queues qm n = Some q"
  shows "(qm_waiting qm)(n := mlq_waiting n q) = qm_waiting qm"
  using assms by (auto simp: qm_waiting_def)

interpretation qm_sink: message_sink qm_PushMessage qm_waiting qm_inv
proof unfold_locales
  fix s :: QueueManager and ts n r st e r'
  show "\<exists>p. snd (snd (qm_PushMessage ts n r (s, st))) r = (st r)\<lparr>m_Priority := p\<rparr>"
  proof -
    have same: "\<exists>p. m = m\<lparr>m_Priority := p\<rparr>" for m :: message
      by (rule exI [of _ "m_Priority m"]) simp
    have "\<exists>p. qm_applyPriorityRules rules m = m\<lparr>m_Priority := p\<rparr>" for rules m
      using same by (induction rules) auto
    with same show ?thesis
      by (auto simp: qm_PushMessage_def qm_apply_rules_def Let_def split: option.splits prod.splits)
  qed
  show "r' \<noteq> r \<Longrightarrow> snd (snd (qm_PushMessage ts n r (s, st))) r' = st r'"
    by (auto simp: qm_PushMessage_def qm_apply_rules_def Let_def split: option.splits prod.splits)
  assume inv: "qm_inv s"
  show "qm_inv (fst (snd (qm_PushMessage ts n r (s, st))))"
    using qm_sync_PushMessage [of "(s, st)"] inv by (simp add: qm_sync_def)
  have "waits = (if fst (qm_PushMessage ts n r (s, st)) = None then (qm_waiting s)(n := add_mset r (qm_waiting s n)) else qm_waiting s)"
    if w: "waits = qm_waiting (fst (snd (qm_PushMessage ts n r (s, st))))" for waits
  proof (cases "qm_queues s n")
    case (Some q)
    obtain res q' where p: "mlq_Push n r (m_Priority (qm_apply_rules s r st r)) (fst ts) (snd ts) q = (res, q')" by force
    note o = mlq_Push_only [OF qm_inv_lookup [OF inv Some] p]
    have "qm_waiting s n = mlq_waiting n q" by (simp add: qm_waiting_def Some)
    with o qm_waiting_set [of "[]" n q' s] qm_waiting_set [of _ n q' s] qm_waiting_frame [OF Some] show ?thesis
      by (cases res) (simp_all add: w qm_PushMessage_def Some Let_def p)
  qed (simp add: w qm_PushMessage_def)
  then show "fst (qm_PushMessage ts n r (s, st)) = None \<Longrightarrow>
      qm_waiting (fst (snd (qm_PushMessage ts n r (s, st)))) = (qm_waiting s)(n := add_mset r (qm_waiting s n))"
    and "fst (qm_PushMessage ts n r (s, st)) = Some e \<Longrightarrow>
      qm_waiting (fst (snd (qm_PushMessage ts n r (s, st)))) = qm_waiting s"
    by auto
qed

text \<open>A queue that exists and has no size limit takes every message.\<close>

definition qm_unlimited :: "QueueManager \<Rightarrow> string \<Rightarrow> bool" where
  "qm_unlimited qm n \<longleftrightarrow> (case qm_queues qm n of None \<Rightarrow> False | Some q \<Rightarrow> mlq_maxSize q \<le> 0)"

lemma mlq_Push_maxSize: "mlq_maxSize (snd (mlq_Push n m p t t' q)) = mlq_maxSize q"
  by (simp add: mlq_Push_def Let_def split: option.split)

interpretation qm_sink: accepting_sink qm_PushMessage qm_waiting qm_inv qm_unlimited
proof unfold_locales
  fix s :: QueueManager and ts n k r st
  assume inv: "qm_inv s" and unl: "qm_unlimited s n"
  obtain q where q: "qm_queues s n = Some q" "mlq_maxSize q \<le> 0"
    using unl by (auto simp: qm_unlimited_def split: option.splits)
  then obtain pq where pq: "mlq_queues q n = Some pq"
    using qm_inv_lookup [OF inv q(1)] by (auto elim: mlq_only_lookup)
  show "fst (qm_PushMessage ts n r (s, st)) = None"
    using q pq by (simp add: qm_PushMessage_def mlq_Push_def Let_def)
  show "qm_unlimited (fst (snd (qm_PushMessage ts k r (s, st)))) n"
  proof (cases "qm_queues s k")
    case (Some qk)
    obtain res q' where p: "mlq_Push k r (m_Priority (qm_apply_rules s r st r)) (fst ts) (snd ts) qk = (res, q')" by force
    then have "mlq_maxSize q' = mlq_maxSize qk" using mlq_Push_maxSize by (metis snd_conv)
    with Some q p show ?thesis
      by (cases res) (auto simp: qm_PushMessage_def Let_def qm_unlimited_def)
  qed (use unl in \<open>simp add: qm_PushMessage_def\<close>)
qed

end
