(* ===== verification/ManagerRuns.thy ===== *)
theory ManagerRuns
  imports QueueManager
begin

text \<open>
  Runs of a \<^verbatim>\<open>QueueManager\<close>: any sequence of its public operations and of the
  monitor's metric refresh, and the properties that hold on all of them. The manager's
  methods lock per step; a run is a sequence of whole operations. A panic ends the run
  (\<open>None\<close>).
\<close>

section \<open>Runs\<close>

datatype qm_op =
    QCreate string int go_time
  | QDelete string
  | QPush "go_time \<times> go_time" string mref
  | QBatchPush string "(mref \<times> go_time \<times> go_time) list"
  | QPop go_time string
  | QBatchPop "nat \<Rightarrow> go_time" string int
  | QComplete go_time string duration
  | QFail go_time string
  | QRefresh "string list"

text \<open>\<^verbatim>\<open>updateQueueMetrics\<close> does nothing when metrics are off.\<close>

fun qm_step :: "qm_op \<Rightarrow> qm_state \<Rightarrow> qm_state option" where
  "qm_step (QCreate n k t) (qm, st) = Some (qm_CreateQueue n k t qm, st)"
| "qm_step (QDelete n) (qm, st) = Some (snd (qm_DeleteQueue n qm), st)"
| "qm_step (QPush ts n r) s = Some (snd (qm_PushMessage ts n r s))"
| "qm_step (QBatchPush n msgs) s = Some (snd (qm_BatchPushMessages n msgs s))"
| "qm_step (QPop t n) s = Some (snd (qm_PopMessage t n s))"
| "qm_step (QBatchPop ts n k) s = map_option snd (qm_BatchPopMessages ts n k s)"
| "qm_step (QComplete t n d) (qm, st) = Some (qm_CompleteMessage t n d qm, st)"
| "qm_step (QFail t n) (qm, st) = Some (qm_FailMessage t n qm, st)"
| "qm_step (QRefresh names) (qm, st) = Some (qm_updateQueueMetrics names qm, st)"

fun qm_run :: "qm_op list \<Rightarrow> qm_state \<Rightarrow> qm_state option" where
  "qm_run [] s = Some s"
| "qm_run (op # ops) s = (case qm_step op s of None \<Rightarrow> None | Some s' \<Rightarrow> qm_run ops s')"

definition qm_init :: "QueueManagerConfig \<Rightarrow> QueueManager" where
  "qm_init config = \<lparr>qm_queues = Map.empty, qm_config = config, qm_metrics = []\<rparr>"

lemma qm_inv_init [inv_intro]: "qm_inv (qm_init config)"
  by (simp add: qm_init_def qm_inv_def)

lemma NewQueueManager_init: "NewQueueManager must_register config reg = Some (qm, reg') \<Longrightarrow> qm = qm_init config"
  by (auto simp: NewQueueManager_def qm_init_def Let_def split: if_splits)

lemma qm_sync_trans: "qm_sync a b \<Longrightarrow> qm_sync b c \<Longrightarrow> qm_sync a c"
  by (simp add: qm_sync_def)

lemma qm_sync_emit_set: "qm_inv qm \<Longrightarrow> qm_sync qm (qm_emit [MSet m n l v, MSet m' n l' v'] qm)"
  by (simp add: qm_sync_def qm_inv_def qm_drift_def qm_stat_def qm_emit_def gauge_net_def)

lemma qm_sync_refresh: "qm_inv qm \<Longrightarrow> qm_sync qm (qm_updateQueueMetrics names qm)"
proof (induction names arbitrary: qm)
  case (Cons n names)
  let ?qm1 = "case qm_GetQueueStats n qm of Inl _ \<Rightarrow> qm
     | Inr st \<Rightarrow> qm_emit [MSet PendingMessages n ''all'' (qs_PendingCount st),
                          MSet ProcessingMessages n ''all'' (qs_ProcessingCount st)] qm"
  have "qm_sync qm ?qm1"
    by (simp add: qm_sync_refl qm_sync_emit_set Cons.prems split: sum.split)
  moreover from this have "qm_sync ?qm1 (qm_updateQueueMetrics names ?qm1)"
    by (intro Cons.IH) (simp add: qm_sync_def)
  ultimately show ?case by (auto intro: qm_sync_trans)
qed (simp add: qm_sync_refl)

fun is_delete :: "qm_op \<Rightarrow> bool" where
  "is_delete (QDelete n) = True"
| "is_delete _ = False"

lemma qm_step_sync:
  assumes "qm_inv (fst s)" and "\<not> is_delete op" and "qm_step op s = Some s'"
  shows "qm_sync (fst s) (fst s')"
proof (cases s)
  case (Pair qm st)
  show ?thesis
  proof (cases op)
    case (QBatchPop ts n k)
    then obtain r where "qm_BatchPopMessages ts n k s = Some (r, s')" using assms(3) by auto
    then show ?thesis by (rule qm_sync_BatchPop [OF assms(1)])
  qed (use assms Pair in \<open>auto simp: qm_sync_CreateQueue qm_sync_Complete qm_sync_Fail qm_sync_refresh
        qm_sync_PushMessage [OF assms(1), unfolded Pair, simplified]
        qm_sync_PopMessage [OF assms(1), unfolded Pair, simplified]
        qm_sync_BatchPush [OF assms(1), unfolded Pair, simplified]\<close>)
qed

lemma qm_step_inv:
  assumes "qm_inv (fst s)" and "qm_step op s = Some s'"
  shows "qm_inv (fst s') \<and> qm_config (fst s') = qm_config (fst s)"
proof (cases "is_delete op")
  case True
  then show ?thesis using assms qm_inv_DeleteQueue
    by (cases s; cases op) (auto simp: qm_DeleteQueue_def qm_inv_def split: if_splits)
next
  case False
  with qm_step_sync [OF assms(1) _ assms(2)] show ?thesis by (simp add: qm_sync_def)
qed

lemma qm_run_inv: "qm_inv (fst s) \<Longrightarrow> qm_run ops s = Some s' \<Longrightarrow> qm_inv (fst s')"
proof (induction ops arbitrary: s)
  case (Cons op ops)
  then obtain s1 where "qm_step op s = Some s1" "qm_run ops s1 = Some s'"
    by (auto split: option.splits)
  with Cons qm_step_inv show ?case by blast
qed simp

lemma qm_run_sync:
  "qm_inv (fst s) \<Longrightarrow> \<forall>op \<in> set ops. \<not> is_delete op \<Longrightarrow> qm_run ops s = Some s' \<Longrightarrow> qm_sync (fst s) (fst s')"
proof (induction ops arbitrary: s)
  case (Cons op ops)
  then obtain s1 where s1: "qm_step op s = Some s1" "qm_run ops s1 = Some s'"
    by (auto split: option.splits)
  have "qm_sync (fst s) (fst s1)"
    using Cons.prems(1,2) s1(1) by (intro qm_step_sync [of s op]) auto
  moreover from this have "qm_sync (fst s1) (fst s')"
    using Cons.prems(2) s1(2) by (intro Cons.IH [of s1]) (auto simp: qm_sync_def)
  ultimately show ?case by (rule qm_sync_trans)
qed (simp add: qm_sync_refl)

section \<open>What the batch operations return\<close>

definition qm_entries :: "QueueManager \<Rightarrow> string \<Rightarrow> mref entry list" where
  "qm_entries qm n = (case qm_queues qm n of None \<Rightarrow> []
     | Some q \<Rightarrow> (case mlq_queues q n of None \<Rightarrow> [] | Some pq \<Rightarrow> pq_entries pq))"

definition mlq_entries :: "string \<Rightarrow> 'm MultiLevelQueue \<Rightarrow> 'm entry list" where
  "mlq_entries n q = (case mlq_queues q n of None \<Rightarrow> [] | Some pq \<Rightarrow> pq_entries pq)"

lemma mlq_waiting_entries: "mlq_waiting n q = image_mset fst (mset (mlq_entries n q))"
  by (simp add: mlq_waiting_def mlq_entries_def split: option.split)

lemma mlq_Pop_entries:
  assumes q: "mlq_only n q" and p: "mlq_Pop n t q = (Inr m, q')"
  obtains e where "fst e = m" and "mset (mlq_entries n q) = add_mset e (mset (mlq_entries n q'))"
    and "\<forall>x \<in> set (mlq_entries n q). entry_key e \<le> entry_key x"
proof -
  obtain pq where pq: "mlq_queues q n = Some pq" and inv: "mlq_inv q"
    using q by (rule mlq_only_lookup)
  have "pq \<noteq> []" using p pq by (auto simp: mlq_Pop_def)
  then obtain e s' q1 where e: "mlq_Pop n t q = (Inr (fst e), s')" "mlq_queues s' = (mlq_queues q)(n \<mapsto> q1)"
    "mset (pq_entries pq) = add_mset e (mset (pq_entries q1))"
    "\<forall>x \<in> set (pq_entries pq). entry_key e \<le> entry_key x"
    by (rule mlq_Pop_ok [OF inv pq])
  then have "fst e = m" "q' = s'" using p by simp_all
  with e show ?thesis by (intro that [of e]) (simp_all add: mlq_entries_def pq)
qed

lemma qm_batch_pop_sorted:
  assumes "mlq_only n q" and "qm_batch_pop n k ts q (qm, st) = (rs, q', s')"
  obtains es where "rs = map fst es" and "sorted (map entry_key es)"
    and "mset (mlq_entries n q) = mset es + mset (mlq_entries n q')"
    and "\<forall>e \<in> set es. \<forall>x \<in> set (mlq_entries n q'). entry_key e \<le> entry_key x"
  using assms
proof (induction k arbitrary: ts q qm rs thesis)
  case 0
  have "rs = []" "q' = q" using 0(3) by simp_all
  then show ?case by (intro 0(1) [of "[]"]) simp_all
next
  case (Suc k)
  obtain res q1 where p: "mlq_Pop n (ts 0) q = (res, q1)" by force
  note o = mlq_Pop_only [OF Suc.prems(2) p]
  show ?case
  proof (cases res)
    case (Inl e)
    have "rs = []" "q' = q" using o(5) [OF Inl] Suc.prems(3) p Inl by simp_all
    then show ?thesis by (intro Suc.prems(1) [of "[]"]) simp_all
  next
    case (Inr m)
    obtain rs1 q2 s2 where rec: "qm_batch_pop n k (\<lambda>i. ts (Suc i)) q1 (qm_emit (pop_metrics n m st) qm, st) = (rs1, q2, s2)"
      by (metis prod.exhaust)
    then have eq: "rs = m # rs1" "q' = q2" "s' = s2"
      using Suc.prems(3) p Inr by simp_all
    obtain es where es: "rs1 = map fst es" "sorted (map entry_key es)"
        "mset (mlq_entries n q1) = mset es + mset (mlq_entries n q')"
        "\<forall>e \<in> set es. \<forall>x \<in> set (mlq_entries n q'). entry_key e \<le> entry_key x"
      by (rule Suc.IH [OF _ o(1) rec [folded eq(2,3)]])
    obtain e where e: "fst e = m" "mset (mlq_entries n q) = add_mset e (mset (mlq_entries n q1))"
        "\<forall>x \<in> set (mlq_entries n q). entry_key e \<le> entry_key x"
      using mlq_Pop_entries [OF Suc.prems(2) p [unfolded Inr]] by blast
    have "set (mlq_entries n q) = insert e (set es \<union> set (mlq_entries n q'))"
      using e(2) es(3) by (metis set_mset_mset set_mset_union set_mset_add_mset_insert)
    then have le: "\<forall>x \<in> set es \<union> set (mlq_entries n q'). entry_key e \<le> entry_key x"
      using e(3) by blast
    show ?thesis
    proof (rule Suc.prems(1) [of "e # es"])
      show "sorted (map entry_key (e # es))" using le es(2) by simp
      show "\<forall>x \<in> set (e # es). \<forall>y \<in> set (mlq_entries n q'). entry_key x \<le> entry_key y"
        using le es(4) by simp
    qed (simp_all add: eq(1) es(1,3) e(1,2))
  qed
qed

text \<open>How many more messages a queue takes.\<close>

definition mlq_space :: "string \<Rightarrow> 'm MultiLevelQueue \<Rightarrow> nat option" where
  "mlq_space n q = (if mlq_maxSize q \<le> 0 then None
     else Some (nat (mlq_maxSize q) - length (mlq_entries n q)))"

definition take_space :: "nat \<Rightarrow> nat option \<Rightarrow> nat" where
  "take_space k space = (case space of None \<Rightarrow> k | Some m \<Rightarrow> min k m)"

lemma mlq_Push_space:
  assumes q: "mlq_only n q" and p: "mlq_Push n m pr t t' q = (res, q')"
  shows "res = None \<longleftrightarrow> mlq_space n q \<noteq> Some 0"
    and "res = None \<Longrightarrow> mlq_space n q' = map_option (\<lambda>k. k - 1) (mlq_space n q)"
proof -
  obtain pq where pq: "mlq_queues q n = Some pq" and inv: "mlq_inv q"
    using q by (rule mlq_only_lookup)
  have wf: "pq_wf pq" using mlq_inv_lookup [OF inv pq] by blast
  have nat_le: "\<not> int a \<ge> k \<Longrightarrow> 0 < k \<Longrightarrow> nat k - a \<noteq> 0" for a k by linarith
  show "res = None \<longleftrightarrow> mlq_space n q \<noteq> Some 0"
    using p pq by (auto simp: mlq_Push_def mlq_space_def mlq_entries_def Let_def split: if_splits)
  show "res = None \<Longrightarrow> mlq_space n q' = map_option (\<lambda>k. k - 1) (mlq_space n q)"
    using p pq by (auto simp: mlq_Push_def mlq_space_def mlq_entries_def Let_def pq_length_Push [OF wf] split: if_splits)
qed

lemma qm_batch_push_count:
  assumes "mlq_only n q" and "qm_batch_push n msgs q (qm, st) c = (c', q', s')"
  shows "c' = c + int (take_space (length msgs) (mlq_space n q))"
  using assms
proof (induction msgs arbitrary: q qm st c)
  case (Cons x msgs)
  obtain r t t' where x: "x = (r, t, t')" by (cases x)
  obtain res q1 where p: "mlq_Push n r (m_Priority (qm_apply_rules qm r st r)) t t' q = (res, q1)" by force
  note o = mlq_Push_only [OF Cons.prems(1) p] and sp = mlq_Push_space [OF Cons.prems(1) p]
  show ?case
  proof (cases res)
    case (Some e)
    then have "q1 = q" "mlq_space n q = Some 0" using o(5) sp(1) by auto
    with Some Cons.prems p Cons.IH [OF Cons.prems(1)] show ?thesis
      by (fastforce simp: x Let_def take_space_def)
  next
    case None
    have "c' = c + 1 + int (take_space (length msgs) (mlq_space n q1))"
      using Cons.prems(2) p None by (intro Cons.IH [OF o(1)]) (simp add: x Let_def)
    with sp None show ?thesis by (cases "mlq_space n q") (auto simp: take_space_def)
  qed
qed (simp add: take_space_def split: option.split)

lemma mlq_Push_entries:
  assumes q: "mlq_only n q" and p: "mlq_Push n m pr t t' q = (None, q')"
  shows "mset (mlq_entries n q') = add_mset (m, pr, t) (mset (mlq_entries n q))"
proof -
  obtain pq where pq: "mlq_queues q n = Some pq" and inv: "mlq_inv q"
    using q by (rule mlq_only_lookup)
  have wf: "pq_wf pq" using mlq_inv_lookup [OF inv pq] by blast
  show ?thesis
    using p pq by (auto simp: mlq_Push_def Let_def mlq_entries_def pq_mset_Push [OF wf] entry_of_def split: if_splits)
qed

lemma applyPriorityRules_find:
  "qm_applyPriorityRules rules m = m\<lparr>m_Priority :=
     (case find (\<lambda>rule. par_Condition rule m) rules of
        None \<Rightarrow> m_Priority m | Some rule \<Rightarrow> par_NewPriority rule)\<rparr>"
  by (induction rules) simp_all

lemma qm_run_config: "qm_inv (fst s) \<Longrightarrow> qm_run ops s = Some s' \<Longrightarrow> qm_config (fst s') = qm_config (fst s)"
proof (induction ops arbitrary: s)
  case (Cons op ops)
  then obtain s1 where s1: "qm_step op s = Some s1" "qm_run ops s1 = Some s'"
    by (auto split: option.splits)
  from qm_step_inv [OF Cons.prems(1) s1(1)] Cons.IH [of s1] s1(2) show ?case by simp
qed simp

section \<open>A concrete run\<close>

definition sample_message :: message where
  "sample_message = NewMessage ''id'' ''conv'' ''vip'' ''hello'' PriorityNormal 1 1"

definition sample_config :: QueueManagerConfig where
  "sample_config = \<lparr>qmc_DefaultMaxSize = 2, qmc_MonitorInterval = second, qmc_CleanupInterval = minute,
     qmc_MaxRetentionPeriod = hour, qmc_EnableMetrics = True, qmc_EnableAutoScaling = False,
     qmc_ScalingThresholds = Map.empty,
     qmc_PriorityAdjustRules = [\<lparr>par_Condition = (\<lambda>m. m_UserID m = ''vip''),
        par_NewPriority = PriorityRealtime, par_Description = ''vip users''\<rparr>]\<rparr>"

definition sample_ops :: "qm_op list" where
  "sample_ops = [QCreate ''q'' 0 1, QPush (2, 2) ''q'' 0, QBatchPush ''q'' [(1, 3, 3), (2, 4, 4)], QPop 5 ''q'']"

definition sample_state :: qm_state where
  "sample_state = the (qm_run sample_ops (qm_init sample_config, \<lambda>r. sample_message))"

lemma sample_new: "NewQueueManager (\<lambda>_ r. Some r) sample_config () = Some (qm_init sample_config, ())"
  by (simp add: NewQueueManager_def initMetrics_def qm_init_def Let_def)

lemma sample_run:
  "qm_run sample_ops (qm_init sample_config, \<lambda>r. sample_message) = Some (fst sample_state, snd sample_state)"
proof -
  have "qm_run sample_ops (qm_init sample_config, \<lambda>r. sample_message) \<noteq> None" by code_simp
  then show ?thesis by (auto simp: sample_state_def)
qed

lemma sample_inv: "qm_inv (fst sample_state)"
  using qm_run_inv [OF _ sample_run] qm_inv_init by simp

lemma sample_queue: "qm_queues (fst sample_state) ''q'' = Some (the (qm_queues (fst sample_state) ''q''))"
proof -
  have "qm_queues (fst sample_state) ''q'' \<noteq> None" by code_simp
  then show ?thesis by auto
qed

section \<open>Properties\<close>

lemma qm_entries_set:
  "qm_entries (qm_emit evs (qm_set_queue n q qm)) n = mlq_entries n q"
  by (simp add: qm_entries_def mlq_entries_def)

lemma qm_batch_push_takes:
  assumes "mlq_only n q" and "qm_batch_push n msgs q (qm, st) c = (c', q', s')"
  shows "mlq_waiting n q' = mlq_waiting n q + mset (map fst (take (take_space (length msgs) (mlq_space n q)) msgs))"
  using assms
proof (induction msgs arbitrary: q qm st c)
  case (Cons x msgs)
  obtain r t t' where x: "x = (r, t, t')" by (cases x)
  obtain res q1 where p: "mlq_Push n r (m_Priority (qm_apply_rules qm r st r)) t t' q = (res, q1)" by force
  note o = mlq_Push_only [OF Cons.prems(1) p] and sp = mlq_Push_space [OF Cons.prems(1) p]
  show ?case
  proof (cases res)
    case (Some e)
    then have "q1 = q" "mlq_space n q = Some 0" using o(5) sp(1) by auto
    with Some Cons.prems(2) p have "qm_batch_push n msgs q (qm, qm_apply_rules qm r st) c = (c', q', s')"
      by (simp add: x Let_def)
    from Cons.IH [OF Cons.prems(1) this] \<open>mlq_space n q = Some 0\<close> show ?thesis
      by (simp add: take_space_def)
  next
    case None
    let ?qm1 = "qm_emit [MInc PendingMessages n (Priority_String (m_Priority (qm_apply_rules qm r st r)))] qm"
    have "qm_batch_push n msgs q1 (?qm1, qm_apply_rules qm r st) (c + 1) = (c', q', s')"
      using Cons.prems(2) p None by (simp add: x Let_def)
    from Cons.IH [OF o(1) this] o(2) sp None show ?thesis
      by (cases "mlq_space n q") (auto simp: take_space_def x min_def gr0_conv_Suc)
  qed
qed simp

text \<open>
  After any sequence of operations, deletions included, the
  entry of a name is a consistent multi-level queue holding that one queue; the statistics
  of a name exist exactly when its queue does, and their pending count is the number of
  messages waiting there.
\<close>

theorem qm_reachable_stats:
  assumes "NewQueueManager must_register config reg = Some (qm0, reg')"
    and "qm_run ops (qm0, st) = Some (qm, st')"
  shows "qm_inv qm \<and>
    (case qm_queues qm n of
       None \<Rightarrow> qm_GetQueueStats n qm = Inl ErrQueueNotFound
     | Some q \<Rightarrow> \<exists>s. qm_GetQueueStats n qm = Inr s \<and> qs_PendingCount s = int (size (qm_waiting qm n)))"
proof -
  have inv: "qm_inv qm"
    using qm_run_inv [of "(qm0, st)" ops "(qm, st')"] assms(2) NewQueueManager_init [OF assms(1)] qm_inv_init by simp
  have "\<exists>s. qm_GetQueueStats n qm = Inr s \<and> qs_PendingCount s = int (size (qm_waiting qm n))"
    if q: "qm_queues qm n = Some q" for q
  proof -
    obtain pq where pq: "mlq_queues q n = Some pq" and "mlq_inv q"
      using qm_inv_lookup [OF inv q] by (rule mlq_only_lookup)
    then obtain s where "mlq_stats q n = Some s" "qs_PendingCount s = int (length pq)"
      using mlq_inv_lookup by blast
    then show ?thesis by (simp add: qm_GetQueueStats_def q mlq_GetStats_def qm_waiting_def mlq_waiting_def pq)
  qed
  then show ?thesis using inv by (simp add: qm_GetQueueStats_def split: option.split)
qed

theorem qm_reachable_stats_witness:
  "qm_inv (fst sample_state) \<and> qm_GetQueueStats ''none'' (fst sample_state) = Inl ErrQueueNotFound"
proof -
  have "qm_queues (fst sample_state) ''none'' = None" by code_simp
  with qm_reachable_stats [OF sample_new sample_run, of "''none''"] show ?thesis by simp
qed


text \<open>
  In every reachable state a batch push to an existing queue takes the
  messages in order until the queue is full: it reports how many fitted, and exactly those
  are added to the queue.
\<close>

theorem qm_batch_push_fills:
  assumes "NewQueueManager must_register config reg = Some (qm0, reg')"
    and "qm_run ops (qm0, st) = Some (qm, st1)" and "qm_queues qm n = Some q"
  shows "\<exists>qm' st'. qm_BatchPushMessages n msgs (qm, st1) =
      (Inr (int (take_space (length msgs) (mlq_space n q))), (qm', st')) \<and>
    qm_waiting qm' n = qm_waiting qm n + mset (map fst (take (take_space (length msgs) (mlq_space n q)) msgs))"
proof -
  have "qm_inv qm"
    using qm_run_inv [of "(qm0, st)" ops "(qm, st1)"] assms(2) NewQueueManager_init [OF assms(1)] qm_inv_init by simp
  then have only: "mlq_only n q" using assms(3) by (rule qm_inv_lookup)
  obtain c' q' qm2 st2 where b: "qm_batch_push n msgs q (qm, st1) 0 = (c', q', (qm2, st2))"
    by (metis prod.exhaust)
  obtain evs where "qm2 = qm_emit evs qm" by (rule qm_batch_push_only [OF only b])
  then show ?thesis
    using qm_batch_push_count [OF only b] qm_batch_push_takes [OF only b] assms(3)
    by (simp add: qm_BatchPushMessages_def b qm_waiting_set) (simp add: qm_waiting_def)
qed

theorem qm_batch_push_fills_witness:
  "fst (qm_BatchPushMessages ''q'' [(3, 8, 8), (4, 9, 9)] sample_state) = Inr 1"
proof -
  have "take_space (length [(3 :: nat, 8 :: int, 8 :: int), (4, 9, 9)])
      (mlq_space ''q'' (the (qm_queues (fst sample_state) ''q''))) = 1" by code_simp
  with qm_batch_push_fills [OF sample_new sample_run sample_queue, of "[(3, 8, 8), (4, 9, 9)]"]
  show ?thesis by fastforce
qed


text \<open>
  In every reachable state a batch pop of \<open>k \<ge> 0\<close> from an existing queue
  returns as many messages as there are, up to \<open>k\<close>, in order of urgency; what it returns
  and what stays make up the queue, and nothing that stays is more urgent than anything
  returned.
\<close>

theorem qm_batch_pop_urgent:
  assumes "NewQueueManager must_register config reg = Some (qm0, reg')"
    and "qm_run ops (qm0, st) = Some (qm, st1)" and "qm_queues qm n = Some q" and "0 \<le> k"
  shows "\<exists>es qm'. qm_BatchPopMessages ts n k (qm, st1) = Some (Inr (map fst es), (qm', st1)) \<and>
    sorted (map entry_key es) \<and> length es = min (nat k) (length (qm_entries qm n)) \<and>
    mset (qm_entries qm n) = mset es + mset (qm_entries qm' n) \<and>
    (\<forall>e \<in> set es. \<forall>x \<in> set (qm_entries qm' n). entry_key e \<le> entry_key x)"
proof -
  have "qm_inv qm"
    using qm_run_inv [of "(qm0, st)" ops "(qm, st1)"] assms(2) NewQueueManager_init [OF assms(1)] qm_inv_init by simp
  then have only: "mlq_only n q" using assms(3) by (rule qm_inv_lookup)
  obtain rs q' qm2 st2 where b: "qm_batch_pop n (nat k) ts q (qm, st1) = (rs, q', (qm2, st2))"
    by (metis prod.exhaust)
  obtain es where es: "rs = map fst es" "sorted (map entry_key es)"
      "mset (mlq_entries n q) = mset es + mset (mlq_entries n q')"
      "\<forall>e \<in> set es. \<forall>x \<in> set (mlq_entries n q'). entry_key e \<le> entry_key x"
    by (rule qm_batch_pop_sorted [OF only b])
  obtain evs where qm2: "qm2 = qm_emit evs qm" "st2 = st1" and len: "length rs = min (nat k) (size (mlq_waiting n q))"
    by (rule qm_batch_pop_only [OF only b])
  have "qm_entries qm n = mlq_entries n q" by (simp add: qm_entries_def mlq_entries_def assms(3))
  moreover have "length es = min (nat k) (length (mlq_entries n q))"
    using len es(1) by (simp add: mlq_waiting_entries del: size_mset) (simp only: size_mset)
  ultimately show ?thesis
    using es assms(3,4)
    by (intro exI [of _ es]) (auto simp: qm_BatchPopMessages_def b qm2 qm_entries_set mlq_waiting_entries)
qed

theorem qm_batch_pop_urgent_witness:
  "\<exists>es qm'. qm_BatchPopMessages (\<lambda>i. 9) ''q'' 5 sample_state = Some (Inr (map fst es), (qm', snd sample_state)) \<and>
     sorted (map entry_key es) \<and> length es = 1"
proof -
  have "length (qm_entries (fst sample_state) ''q'') = 1" by code_simp
  with qm_batch_pop_urgent [OF sample_new sample_run sample_queue, of 5 "\<lambda>i. 9"]
  show ?thesis by auto
qed


text \<open>
  In every reachable state a push that succeeds puts the message in
  the named queue under the priority of the first rule whose condition it meets, or under
  its own when there is none, writes that priority into the message, and changes nothing
  else in the queue.
\<close>

theorem qm_push_first_rule:
  assumes "NewQueueManager must_register config reg = Some (qm0, reg')"
    and "qm_run ops (qm0, st) = Some (qm, st1)"
    and "qm_PushMessage (t, t') n r (qm, st1) = (None, (qm', st'))"
  shows "let p = (case find (\<lambda>rule. par_Condition rule (st1 r)) (qmc_PriorityAdjustRules config) of
                    None \<Rightarrow> m_Priority (st1 r) | Some rule \<Rightarrow> par_NewPriority rule)
    in st' = st1(r := (st1 r)\<lparr>m_Priority := p\<rparr>) \<and>
       mset (qm_entries qm' n) = add_mset (r, p, t) (mset (qm_entries qm n))"
proof -
  have inv: "qm_inv qm"
    using qm_run_inv [of "(qm0, st)" ops "(qm, st1)"] assms(2) NewQueueManager_init [OF assms(1)] qm_inv_init by simp
  have conf: "qm_config qm = config"
    using qm_run_config [of "(qm0, st)" ops "(qm, st1)"] assms(2) NewQueueManager_init [OF assms(1)] qm_inv_init
    by (simp add: qm_init_def)
  define p where "p = (case find (\<lambda>rule. par_Condition rule (st1 r)) (qmc_PriorityAdjustRules config) of
      None \<Rightarrow> m_Priority (st1 r) | Some rule \<Rightarrow> par_NewPriority rule)"
  obtain q where q: "qm_queues qm n = Some q"
    using assms(3) by (cases "qm_queues qm n") (simp_all add: qm_PushMessage_def)
  have st: "qm_apply_rules qm r st1 = st1(r := (st1 r)\<lparr>m_Priority := p\<rparr>)"
    by (simp add: qm_apply_rules_def applyPriorityRules_find conf p_def)
  obtain res q' where push: "mlq_Push n r p t t' q = (res, q')" by force
  have res: "res = None" "st' = st1(r := (st1 r)\<lparr>m_Priority := p\<rparr>)" "qm_entries qm' n = mlq_entries n q'"
    using assms(3) by (cases res; auto simp: qm_PushMessage_def q st push qm_entries_set Let_def)+
  have "qm_entries qm n = mlq_entries n q" by (simp add: qm_entries_def mlq_entries_def q)
  with mlq_Push_entries [OF qm_inv_lookup [OF inv q] push [unfolded res(1)]] res show ?thesis
    by (simp add: p_def [symmetric] Let_def)
qed

theorem qm_push_first_rule_witness:
  "snd (snd (qm_PushMessage (8, 9) ''q'' 7 sample_state)) =
    (snd sample_state)(7 := (snd sample_state 7)\<lparr>m_Priority := PriorityRealtime\<rparr>)"
proof -
  have ok: "fst (qm_PushMessage (8, 9) ''q'' 7 (fst sample_state, snd sample_state)) = None" by code_simp
  have m: "m_UserID (snd sample_state 7) = ''vip''" by code_simp
  obtain qm' st' where p: "qm_PushMessage (8, 9) ''q'' 7 (fst sample_state, snd sample_state) = (None, (qm', st'))"
    using ok by (metis prod.exhaust fst_conv)
  from qm_push_first_rule [OF sample_new sample_run p] p m show ?thesis
    by (simp add: sample_config_def Let_def)
qed

end
