(* ===== verification/GaugeSeries.thy ===== *)
theory GaugeSeries
  imports ManagerRuns
begin

text \<open>
  The gauges that a \<^verbatim>\<open>QueueManager\<close> writes (\<^verbatim>\<open>internal/priorityqueue/queue_manager.go\<close>), series by
  series: \<^verbatim>\<open>WithLabelValues(queue, priority)\<close> picks one, \<^verbatim>\<open>Inc\<close> and \<^verbatim>\<open>Dec\<close> move it, \<^verbatim>\<open>Set\<close> replaces its
  value. Pushes and pops use the priority of the message as the label, completions and failures
  \<open>unknown\<close>, and the monitor \<open>all\<close>.
\<close>

section \<open>Series\<close>

fun gauge_apply :: "metric \<Rightarrow> string \<Rightarrow> string \<Rightarrow> metric_event \<Rightarrow> int \<Rightarrow> int" where
  "gauge_apply m n l (MInc m' n' l') v = (if m' = m \<and> n' = n \<and> l' = l then v + 1 else v)"
| "gauge_apply m n l (MDec m' n' l') v = (if m' = m \<and> n' = n \<and> l' = l then v - 1 else v)"
| "gauge_apply m n l (MSet m' n' l' x) v = (if m' = m \<and> n' = n \<and> l' = l then x else v)"
| "gauge_apply m n l (MObserve m' n' l' d) v = v"

definition gauge :: "metric \<Rightarrow> string \<Rightarrow> string \<Rightarrow> metric_event list \<Rightarrow> int" where
  "gauge m n l evs = fold (gauge_apply m n l) evs 0"

lemma gauge_Nil [simp]: "gauge m n l [] = 0"
  by (simp add: gauge_def)

lemma gauge_snoc [simp]: "gauge m n l (evs @ [ev]) = gauge_apply m n l ev (gauge m n l evs)"
  by (simp add: gauge_def)

text \<open>The labels of the operations: the names of the priorities, the last also for any other number.\<close>

definition operation_labels :: "string list" where
  "operation_labels = [''realtime'', ''high'', ''normal'', ''low'', ''unknown'']"

lemma Priority_String_label [simp]: "Priority_String p \<in> set operation_labels"
  by (simp add: Priority_String_def operation_labels_def)

lemma labels_facts [simp]: "''unknown'' \<in> set operation_labels" "''all'' \<notin> set operation_labels" "distinct operation_labels"
  by (simp_all add: operation_labels_def)

section \<open>What the operations log\<close>

fun event_ok :: "metric_event \<Rightarrow> bool" where
  "event_ok (MInc m n l) \<longleftrightarrow> m \<in> {PendingMessages, ProcessingMessages} \<longrightarrow> l \<in> set operation_labels"
| "event_ok (MDec m n l) \<longleftrightarrow> m = PendingMessages \<and> l \<in> set operation_labels \<or> m = ProcessingMessages \<and> l = ''unknown''"
| "event_ok (MSet m n l v) \<longleftrightarrow> m \<in> {PendingMessages, ProcessingMessages} \<and> l = ''all''"
| "event_ok (MObserve m n l d) \<longleftrightarrow> True"

abbreviation ended :: "string \<Rightarrow> metric_event list \<Rightarrow> nat" where
  "ended n evs \<equiv> count_list evs (MInc CompletedMessages n ''unknown'') + count_list evs (MInc FailedMessages n ''unknown'')"

text \<open>Each decrement of the processing gauge comes with a completion or a failure.\<close>

definition log_ok :: "metric_event list \<Rightarrow> bool" where
  "log_ok evs \<longleftrightarrow> list_all event_ok evs \<and> (\<forall>n. count_list evs (MDec ProcessingMessages n ''unknown'') = ended n evs)"

lemma log_ok_Nil [simp]: "log_ok []"
  by (simp add: log_ok_def)

lemma log_ok_append: "log_ok xs \<Longrightarrow> log_ok ys \<Longrightarrow> log_ok (xs @ ys)"
  by (simp add: log_ok_def)

lemma log_ok_intros:
  "log_ok [MInc QueueOperations n l]"
  "log_ok [MInc PendingMessages n (Priority_String p)]"
  "log_ok [MInc QueueOperations n k, MInc PendingMessages n (Priority_String p)]"
  "log_ok (pop_metrics n r st)"
  "log_ok (MInc QueueOperations n k # pop_metrics n r st)"
  "log_ok [MDec ProcessingMessages n ''unknown'', MInc CompletedMessages n ''unknown'', MObserve MessageProcessTime n ''unknown'' d]"
  "log_ok [MDec ProcessingMessages n ''unknown'', MInc FailedMessages n ''unknown'']"
  "log_ok [MSet PendingMessages n ''all'' v, MSet ProcessingMessages n ''all'' v']"
  by (simp_all add: log_ok_def pop_metrics_def)

lemma log_ok_emit: "log_ok (qm_metrics qm) \<Longrightarrow> log_ok evs \<Longrightarrow> log_ok (qm_metrics (qm_emit evs qm))"
  by (simp add: qm_emit_def log_ok_append)

lemma log_ok_batch_push:
  "qm_batch_push n msgs q (qm, st) c = (c', q', (qm', st')) \<Longrightarrow> log_ok (qm_metrics qm) \<Longrightarrow> log_ok (qm_metrics qm')"
proof (induction msgs arbitrary: q qm st c)
  case (Cons x msgs)
  obtain r t t' where x: "x = (r, t, t')" by (cases x)
  obtain res q1 where p: "mlq_Push n r (m_Priority (qm_apply_rules qm r st r)) t t' q = (res, q1)" by force
  have "log_ok (qm_metrics (qm_emit [MInc PendingMessages n (Priority_String (m_Priority (qm_apply_rules qm r st r)))] qm))"
    by (intro log_ok_emit Cons.prems(2) log_ok_intros)
  then show ?case using Cons.prems p by (cases res) (auto simp: x Let_def dest: Cons.IH)
qed simp

lemma log_ok_batch_pop:
  "qm_batch_pop n k ts q (qm, st) = (rs, q', (qm', st')) \<Longrightarrow> log_ok (qm_metrics qm) \<Longrightarrow> log_ok (qm_metrics qm')"
proof (induction k arbitrary: ts q qm rs)
  case (Suc k)
  obtain res q1 where p: "mlq_Pop n (ts 0) q = (res, q1)" by force
  show ?case
  proof (cases res)
    case (Inr m)
    obtain rs1 q2 qm2 st2 where rec: "qm_batch_pop n k (\<lambda>i. ts (Suc i)) q1 (qm_emit (pop_metrics n m st) qm, st) = (rs1, q2, (qm2, st2))"
      by (metis prod.exhaust)
    have "log_ok (qm_metrics (qm_emit (pop_metrics n m st) qm))" by (intro log_ok_emit Suc.prems(2) log_ok_intros)
    moreover have "qm' = qm2" "st' = st2" "q' = q2" using Suc.prems(1) p rec Inr by simp_all
    ultimately show ?thesis using Suc.IH rec by blast
  qed (use Suc.prems p in simp)
qed simp

lemma log_ok_refresh: "log_ok (qm_metrics qm) \<Longrightarrow> log_ok (qm_metrics (qm_updateQueueMetrics names qm))"
  by (induction names arbitrary: qm) (auto intro: log_ok_emit log_ok_intros split: sum.split)

lemma log_ok_step:
  assumes "qm_step op (qm, st) = Some (qm', st')" and ok: "log_ok (qm_metrics qm)"
  shows "log_ok (qm_metrics qm')"
proof -
  note emit = log_ok_emit log_ok_intros
  have set: "log_ok (qm_metrics (qm_set_queue n q qm))" for n q using ok by simp
  show ?thesis
  proof (cases op)
    case (QBatchPush n msgs)
    then show ?thesis using assms
      by (auto simp: qm_BatchPushMessages_def qm_emit_def split: option.splits prod.splits if_splits dest!: log_ok_batch_push intro!: log_ok_append log_ok_intros)
  next
    case (QBatchPop ts n k)
    then show ?thesis using assms
      by (auto simp: qm_BatchPopMessages_def qm_emit_def split: option.splits prod.splits if_splits dest!: log_ok_batch_pop intro!: log_ok_append log_ok_intros)
  next
    case (QRefresh names)
    then show ?thesis using assms log_ok_refresh by auto
  qed (use assms set in \<open>auto simp: qm_CreateQueue_def qm_DeleteQueue_def qm_PushMessage_def qm_PopMessage_def qm_CompleteMessage_def
        qm_FailMessage_def Let_def split: option.splits prod.splits sum.splits if_splits intro: emit\<close>)
qed

lemma log_ok_run: "qm_run ops (qm, st) = Some (qm', st') \<Longrightarrow> log_ok (qm_metrics qm) \<Longrightarrow> log_ok (qm_metrics qm')"
proof (induction ops arbitrary: qm st)
  case (Cons op ops)
  then obtain qm1 st1 where "qm_step op (qm, st) = Some (qm1, st1)" "qm_run ops (qm1, st1) = Some (qm', st')"
    by (auto split: option.splits)
  with Cons log_ok_step show ?case by blast
qed simp

section \<open>The series of such a log\<close>

lemma gauge_counts:
  assumes "list_all event_ok evs" and "l \<in> set operation_labels \<or> m \<notin> {PendingMessages, ProcessingMessages}"
  shows "gauge m n l evs = int (count_list evs (MInc m n l)) - int (count_list evs (MDec m n l))"
  using assms(1)
proof (induction evs rule: rev_induct)
  case (snoc ev evs)
  then show ?case using assms(2) by (cases ev) auto
qed simp

lemma gauge_sum:
  "list_all event_ok evs \<Longrightarrow> m \<in> {PendingMessages, ProcessingMessages} \<Longrightarrow>
   (\<Sum>l\<leftarrow>operation_labels. gauge m n l evs) = gauge_net m n evs"
proof (induction evs rule: rev_induct)
  case Nil
  then show ?case by (simp add: operation_labels_def)
next
  case (snoc ev evs)
  have one: "(\<Sum>l\<leftarrow>operation_labels. if l' = l then g l + c else g l) = (\<Sum>l\<leftarrow>operation_labels. g l) + (if l' \<in> set operation_labels then c else 0)"
    for g :: "string \<Rightarrow> int" and l' c
    by (simp add: operation_labels_def)
  have dec: "(\<Sum>l\<leftarrow>operation_labels. if l' = l then g l - 1 else g l) = (\<Sum>l\<leftarrow>operation_labels. g l) - (if l' \<in> set operation_labels then 1 else 0)"
    for g :: "string \<Rightarrow> int" and l'
    by (simp add: operation_labels_def)
  have none: "(\<Sum>l\<leftarrow>operation_labels. if l' = l then x else g l) = (\<Sum>l\<leftarrow>operation_labels. g l)" if "l' = ''all''"
    for g :: "string \<Rightarrow> int" and l' x
    by (simp add: operation_labels_def that)
  show ?case
  proof (cases ev)
    case (MInc m' n' l')
    then show ?thesis using snoc one [of l' "\<lambda>l. gauge m n l evs" 1] by (cases "m' = m \<and> n' = n") (auto simp: gauge_net_def)
  next
    case (MDec m' n' l')
    then show ?thesis using snoc dec [of l' "\<lambda>l. gauge m n l evs"] by (cases "m' = m \<and> n' = n") (auto simp: gauge_net_def)
  next
    case (MSet m' n' l' x)
    then show ?thesis using snoc none [of l' x "\<lambda>l. gauge m n l evs"] by (cases "m' = m \<and> n' = n") (auto simp: gauge_net_def)
  qed (use snoc in \<open>simp add: gauge_net_def\<close>)
qed

lemma refresh_frame:
  "qm_queues (qm_updateQueueMetrics names qm) = qm_queues qm" "qm_config (qm_updateQueueMetrics names qm) = qm_config qm"
  by (induction names arbitrary: qm) (auto split: sum.split)

lemma refresh_other:
  "n \<notin> set names \<Longrightarrow> gauge m n l (qm_metrics (qm_updateQueueMetrics names qm)) = gauge m n l (qm_metrics qm)"
proof (induction names arbitrary: qm)
  case (Cons k names)
  then have "gauge m n l (qm_metrics (qm_emit [MSet PendingMessages k ''all'' v, MSet ProcessingMessages k ''all'' v'] qm)) = gauge m n l (qm_metrics qm)"
    for v v'
    by (auto simp: qm_emit_def gauge_def)
  then show ?case using Cons by (auto split: sum.split)
qed simp

text \<open>The monitor leaves the counters in the series \<open>all\<close>.\<close>

lemma refresh_sets:
  assumes "n \<in> set names" and "qmc_EnableMetrics (qm_config qm)" and "qm_GetQueueStats n qm = Inr stats"
  shows "gauge PendingMessages n ''all'' (qm_metrics (qm_updateQueueMetrics names qm)) = qs_PendingCount stats \<and>
    gauge ProcessingMessages n ''all'' (qm_metrics (qm_updateQueueMetrics names qm)) = qs_ProcessingCount stats"
  using assms
proof (induction names arbitrary: qm)
  case (Cons k names)
  let ?qm = "case qm_GetQueueStats k qm of Inl _ \<Rightarrow> qm
     | Inr st \<Rightarrow> qm_emit [MSet PendingMessages k ''all'' (qs_PendingCount st), MSet ProcessingMessages k ''all'' (qs_ProcessingCount st)] qm"
  have frame: "qm_config ?qm = qm_config qm" "qm_GetQueueStats n ?qm = qm_GetQueueStats n qm"
    by (simp_all add: qm_GetQueueStats_def split: sum.split)
  show ?case
  proof (cases "n \<in> set names")
    case True
    then show ?thesis using Cons.IH [of ?qm] Cons.prems frame by simp
  next
    case False
    then have "k = n" using Cons.prems(1) by simp
    then have "qm_metrics ?qm = qm_metrics qm @ [MSet PendingMessages n ''all'' (qs_PendingCount stats), MSet ProcessingMessages n ''all'' (qs_ProcessingCount stats)]"
      using Cons.prems by (simp add: qm_emit_def)
    then show ?thesis using refresh_other [OF False, of _ _ ?qm] by (simp add: gauge_def)
  qed
qed simp

section \<open>Property\<close>

text \<open>
  C10 (metrics). When metrics are on and no queue is deleted, then after any sequence of pushes, pops
  (single or batched), completions, failures and refreshes of the monitor, no single series of the
  processing gauge need be the counter of the queue, but together they account for it:
  the series of the pending gauge under the labels of the operations add up to the waiting messages,
  and so do those of the processing gauge to the messages in process. The series of a priority
  counts the pops with that priority and never falls; what completions and failures take away
  is taken from the series \<open>unknown\<close>, which therefore drifts below zero. Only the series \<open>all\<close> is the
  counter itself, as of the last refresh.
\<close>

theorem qm_gauges_mirror:
  assumes "NewQueueManager must_register config reg = Some (qm0, reg')"
    and "qm_run ops (qm0, st) = Some (qm, st')"
    and "qmc_EnableMetrics config" and "\<forall>op \<in> set ops. \<not> is_delete op"
  shows "(\<Sum>l\<leftarrow>operation_labels. gauge PendingMessages n l (qm_metrics qm)) = qm_stat qs_PendingCount n qm \<and>
    (\<Sum>l\<leftarrow>operation_labels. gauge ProcessingMessages n l (qm_metrics qm)) = qm_stat qs_ProcessingCount n qm \<and>
    (\<forall>l \<in> {''realtime'', ''high'', ''normal'', ''low''}.
       gauge ProcessingMessages n l (qm_metrics qm) = int (count_list (qm_metrics qm) (MInc ProcessingMessages n l))) \<and>
    gauge ProcessingMessages n ''unknown'' (qm_metrics qm) =
      int (count_list (qm_metrics qm) (MInc ProcessingMessages n ''unknown'')) -
      gauge CompletedMessages n ''unknown'' (qm_metrics qm) - gauge FailedMessages n ''unknown'' (qm_metrics qm) \<and>
    (\<forall>names q. n \<in> set names \<and> qm_queues qm n = Some q \<longrightarrow>
       gauge PendingMessages n ''all'' (qm_metrics (qm_updateQueueMetrics names qm)) = qm_stat qs_PendingCount n qm \<and>
       gauge ProcessingMessages n ''all'' (qm_metrics (qm_updateQueueMetrics names qm)) = qm_stat qs_ProcessingCount n qm)"
proof -
  note qm0 = NewQueueManager_init [OF assms(1)]
  have sync: "qm_sync (qm_init config) qm"
    using qm_run_sync [of "(qm0, st)" ops "(qm, st')"] assms(2,4) qm_inv_init qm0 by simp
  moreover have "qm_drift n (qm_init config) = (0, 0)"
    by (simp add: qm_drift_def qm_init_def qm_stat_def)
  ultimately have drift: "qm_drift n qm = (0, 0)" using assms(3) by (simp add: qm_sync_def qm_init_def)
  have log: "log_ok (qm_metrics qm)" by (rule log_ok_run [OF assms(2)]) (simp add: qm0 qm_init_def)
  then have events: "list_all event_ok (qm_metrics qm)" by (simp add: log_ok_def)
  have decs: "count_list (qm_metrics qm) (MDec m n l) = 0" if "\<not> event_ok (MDec m n l)" for m l
    using events that by (auto simp: count_list_0_iff list_all_iff)
  have refresh: "gauge PendingMessages n ''all'' (qm_metrics (qm_updateQueueMetrics names qm)) = qm_stat qs_PendingCount n qm \<and>
       gauge ProcessingMessages n ''all'' (qm_metrics (qm_updateQueueMetrics names qm)) = qm_stat qs_ProcessingCount n qm"
    if "n \<in> set names \<and> qm_queues qm n = Some q" for names q
  proof -
    have "mlq_only n q" using sync qm_inv_lookup that by (auto simp: qm_sync_def)
    then obtain s where "mlq_stats q n = Some s" using mlq_only_stats by blast
    then have s: "qm_GetQueueStats n qm = Inr s" "qm_stat f n qm = f s" for f
      using that by (simp_all add: qm_GetQueueStats_def mlq_GetStats_def qm_stat_def mlq_stat_def)
    have "qmc_EnableMetrics (qm_config qm)" using sync assms(3) by (simp add: qm_sync_def qm_init_def)
    from refresh_sets [OF _ this s(1)] that s(2) show ?thesis by simp
  qed
  show ?thesis
    using gauge_sum [OF events, of PendingMessages n] gauge_sum [OF events, of ProcessingMessages n] drift
      gauge_counts [OF events, of _ ProcessingMessages n] gauge_counts [OF events, of _ CompletedMessages n]
      gauge_counts [OF events, of _ FailedMessages n] decs log refresh
    by (auto simp: qm_drift_def operation_labels_def log_ok_def)
qed

definition sample_metric_ops :: "qm_op list" where
  "sample_metric_ops = sample_ops @ [QComplete 6 ''q'' 1]"

theorem qm_gauges_mirror_witness:
  "\<exists>qm st'. qm_run sample_metric_ops (qm_init sample_config, \<lambda>r. sample_message) = Some (qm, st') \<and>
     qm_stat qs_ProcessingCount ''q'' qm = 0 \<and> gauge ProcessingMessages ''q'' ''realtime'' (qm_metrics qm) = 1 \<and>
     gauge ProcessingMessages ''q'' ''unknown'' (qm_metrics qm) = -1 \<and>
     (\<Sum>l\<leftarrow>operation_labels. gauge ProcessingMessages ''q'' l (qm_metrics qm)) = 0"
proof -
  have run: "qm_run sample_metric_ops (qm_init sample_config, \<lambda>r. sample_message) \<noteq> None" by code_simp
  then obtain qm st' where s: "qm_run sample_metric_ops (qm_init sample_config, \<lambda>r. sample_message) = Some (qm, st')" by auto
  then have qm: "qm = fst (the (qm_run sample_metric_ops (qm_init sample_config, \<lambda>r. sample_message)))" by simp
  have "qm_stat qs_ProcessingCount ''q'' qm = 0 \<and> gauge ProcessingMessages ''q'' ''realtime'' (qm_metrics qm) = 1 \<and>
     gauge ProcessingMessages ''q'' ''unknown'' (qm_metrics qm) = -1"
    unfolding qm by code_simp
  moreover have "(\<Sum>l\<leftarrow>operation_labels. gauge ProcessingMessages ''q'' l (qm_metrics qm)) = qm_stat qs_ProcessingCount ''q'' qm"
    using qm_gauges_mirror [OF sample_new s, of "''q''"] by (simp add: sample_config_def sample_metric_ops_def sample_ops_def)
  ultimately show ?thesis using s by auto
qed

end
