(* ===== verification/MonitorLifecycle.thy ===== *)
theory MonitorLifecycle
  imports QueueManager
begin

text \<open>
  The monitor goroutine of \<^verbatim>\<open>internal/priorityqueue/queue_manager.go\<close>: \<^verbatim>\<open>Start\<close>
  spawns \<^verbatim>\<open>monitorQueues\<close>, \<^verbatim>\<open>Stop\<close> cancels the context and waits on
  \<^verbatim>\<open>monitorDone\<close>. A labelled step relation over the channels and goroutines; the work
  of a tick is \<open>qm_updateQueueMetrics\<close> and \<open>qm_checkQueueThresholds\<close> of
  \<open>QueueManager\<close> and leaves this state alone.
\<close>

section \<open>States and steps\<close>

record life =
  lf_cancelled :: bool
  lf_doneClosed :: bool
  lf_starting :: nat
  lf_looping :: nat
  lf_stopping :: nat
  lf_stopped :: nat
  lf_panicked :: bool

definition life_init :: life where
  "life_init = \<lparr>lf_cancelled = False, lf_doneClosed = False, lf_starting = 0, lf_looping = 0,
     lf_stopping = 0, lf_stopped = 0, lf_panicked = False\<rparr>"

datatype life_event = Start | Tickers | Exit | StopCall | StopReturn

definition tickers_ok :: "QueueManagerConfig \<Rightarrow> bool" where
  "tickers_ok config \<longleftrightarrow> 0 < qmc_MonitorInterval config \<and> 0 < qmc_CleanupInterval config"

text \<open>
  \<^verbatim>\<open>NewTicker\<close> panics on an interval that is not positive, closing a closed channel
  panics, and a panic in a goroutine ends the program: a panicked state has no step. The
  return of the loop and the deferred close of \<^verbatim>\<open>monitorDone\<close> are one step.
\<close>

inductive life_step :: "QueueManagerConfig \<Rightarrow> life_event \<Rightarrow> life \<Rightarrow> life \<Rightarrow> bool"
  for config where
  start: "\<not> lf_panicked s \<Longrightarrow>
    life_step config Start s (s\<lparr>lf_starting := lf_starting s + 1\<rparr>)"
| tickers: "\<not> lf_panicked s \<Longrightarrow> 0 < lf_starting s \<Longrightarrow> tickers_ok config \<Longrightarrow>
    life_step config Tickers s (s\<lparr>lf_starting := lf_starting s - 1, lf_looping := lf_looping s + 1\<rparr>)"
| tickers_panic: "\<not> lf_panicked s \<Longrightarrow> 0 < lf_starting s \<Longrightarrow> \<not> tickers_ok config \<Longrightarrow>
    life_step config Tickers s (s\<lparr>lf_panicked := True\<rparr>)"
| exit: "\<not> lf_panicked s \<Longrightarrow> 0 < lf_looping s \<Longrightarrow> lf_cancelled s \<Longrightarrow> \<not> lf_doneClosed s \<Longrightarrow>
    life_step config Exit s (s\<lparr>lf_looping := lf_looping s - 1, lf_doneClosed := True\<rparr>)"
| exit_panic: "\<not> lf_panicked s \<Longrightarrow> 0 < lf_looping s \<Longrightarrow> lf_cancelled s \<Longrightarrow> lf_doneClosed s \<Longrightarrow>
    life_step config Exit s (s\<lparr>lf_panicked := True\<rparr>)"
| stop_call: "\<not> lf_panicked s \<Longrightarrow>
    life_step config StopCall s (s\<lparr>lf_cancelled := True, lf_stopping := lf_stopping s + 1\<rparr>)"
| stop_return: "\<not> lf_panicked s \<Longrightarrow> 0 < lf_stopping s \<Longrightarrow> lf_doneClosed s \<Longrightarrow>
    life_step config StopReturn s (s\<lparr>lf_stopping := lf_stopping s - 1, lf_stopped := lf_stopped s + 1\<rparr>)"

inductive_cases life_stepE: "life_step config ev s s'"

inductive life_run :: "QueueManagerConfig \<Rightarrow> life \<Rightarrow> life_event list \<Rightarrow> life \<Rightarrow> bool"
  for config s where
  nil: "life_run config s [] s"
| snoc: "life_run config s evs s1 \<Longrightarrow> life_step config ev s1 s2 \<Longrightarrow> life_run config s (evs @ [ev]) s2"

code_pred life_step .

lemma life_run_single: "life_step config ev s s' \<Longrightarrow> life_run config s [ev] s'"
  using life_run.snoc [OF life_run.nil] by fastforce

lemma life_run_append:
  "life_run config s1 evs' s2 \<Longrightarrow> life_run config s evs s1 \<Longrightarrow> life_run config s (evs @ evs') s2"
  by (induction rule: life_run.induct) (auto simp: append_assoc [symmetric] intro: life_run.snoc simp del: append_assoc)

lemma life_run_Cons: "life_step config ev s s1 \<Longrightarrow> life_run config s1 evs s2 \<Longrightarrow> life_run config s (ev # evs) s2"
  using life_run_append [OF _ life_run_single] by fastforce

section \<open>Invariants\<close>

text \<open>Every goroutine started is starting, looping or the one that closed \<^verbatim>\<open>monitorDone\<close>.\<close>

definition life_inv :: "life_event list \<Rightarrow> life \<Rightarrow> bool" where
  "life_inv evs s \<longleftrightarrow>
     lf_starting s + lf_looping s + (if lf_doneClosed s then 1 else 0) = count_list evs Start \<and>
     (lf_doneClosed s \<longrightarrow> lf_cancelled s) \<and> (0 < lf_stopping s \<longrightarrow> lf_cancelled s) \<and>
     (0 < lf_stopped s \<longrightarrow> lf_doneClosed s)"

lemma count_list_snoc: "count_list (xs @ [y]) x = count_list xs x + (if y = x then 1 else 0)"
  by (induction xs) auto

lemma life_run_inv:
  "life_run config life_init evs s \<Longrightarrow> \<not> lf_panicked s \<Longrightarrow> life_inv evs s"
proof (induction rule: life_run.induct)
  case nil
  then show ?case by (simp add: life_inv_def life_init_def)
next
  case (snoc evs s1 ev s2)
  from snoc.hyps(2) snoc.prems have "\<not> lf_panicked s1" by (auto elim: life_stepE)
  with snoc.IH have "life_inv evs s1" .
  with snoc.hyps(2) snoc.prems show ?case
    by (auto elim!: life_stepE simp: life_inv_def count_list_snoc split: if_splits)
qed

lemma life_run_once:
  assumes "life_run config life_init evs s" and "count_list evs Start \<le> 1" and "tickers_ok config"
  shows "\<not> lf_panicked s"
  using assms(1,2)
proof (induction rule: life_run.induct)
  case (snoc evs s1 ev s2)
  have ok: "\<not> lf_panicked s1" using snoc by (simp add: count_list_snoc)
  then have "life_inv evs s1" using life_run_inv snoc.hyps(1) by blast
  with snoc.hyps(2) snoc.prems assms(3) show ?case
    by (auto elim!: life_stepE simp: life_inv_def count_list_snoc)
qed (simp add: life_init_def)

lemma life_run_never:
  "life_run config s evs s' \<Longrightarrow> count_list evs Start = 0 \<Longrightarrow> lf_starting s = 0 \<Longrightarrow> lf_looping s = 0 \<Longrightarrow>
   \<not> lf_doneClosed s \<Longrightarrow> lf_starting s' = 0 \<and> lf_looping s' = 0 \<and> \<not> lf_doneClosed s' \<and> lf_stopped s' = lf_stopped s"
  by (induction rule: life_run.induct) (auto elim!: life_stepE simp: count_list_snoc)

section \<open>Properties\<close>

text \<open>
  With positive intervals and at most one \<^verbatim>\<open>Start\<close>, no interleaving of
  the monitor with any number of \<^verbatim>\<open>Stop\<close> calls panics; a \<^verbatim>\<open>Stop\<close> that has returned
  means the monitor is gone; and once started, a waiting \<^verbatim>\<open>Stop\<close> can always still return.
\<close>

theorem monitor_start_once:
  assumes "life_run config life_init evs s" and "count_list evs Start \<le> 1" and "tickers_ok config"
  shows "\<not> lf_panicked s \<and>
    (0 < lf_stopped s \<longrightarrow> lf_starting s = 0 \<and> lf_looping s = 0) \<and>
    (0 < lf_stopping s \<and> count_list evs Start = 1 \<longrightarrow>
       (\<exists>evs' s'. life_run config s evs' s' \<and> lf_stopped s' = lf_stopped s + 1))"
proof -
  have np: "\<not> lf_panicked s" by (rule life_run_once [OF assms])
  then have inv: "life_inv evs s" by (rule life_run_inv [OF assms(1)])
  have return_now: "\<exists>evs' s'. life_run config t evs' s' \<and> lf_stopped s' = lf_stopped t + 1"
    if "\<not> lf_panicked t" "0 < lf_stopping t" "lf_doneClosed t" for t
    using life_run_single [OF life_step.stop_return [OF that]] by fastforce
  have exit_now: "\<exists>evs' s'. life_run config t evs' s' \<and> lf_stopped s' = lf_stopped t + 1"
    if t: "\<not> lf_panicked t" "0 < lf_looping t" "lf_cancelled t" "\<not> lf_doneClosed t" "0 < lf_stopping t" for t
  proof -
    let ?u = "t\<lparr>lf_looping := lf_looping t - 1, lf_doneClosed := True\<rparr>"
    have "life_run config t [Exit] ?u" by (rule life_run_single [OF life_step.exit [OF t(1-4)]])
    moreover obtain evs' s' where "life_run config ?u evs' s'" "lf_stopped s' = lf_stopped t + 1"
      using return_now [of ?u] t by auto
    ultimately show ?thesis using life_run_append by blast
  qed
  have "\<exists>evs' s'. life_run config s evs' s' \<and> lf_stopped s' = lf_stopped s + 1"
    if w: "0 < lf_stopping s" "count_list evs Start = 1"
  proof -
    consider "lf_doneClosed s" | "0 < lf_looping s" "\<not> lf_doneClosed s" | "0 < lf_starting s" "\<not> lf_doneClosed s"
      using inv w by (cases "lf_doneClosed s"; cases "lf_looping s") (auto simp: life_inv_def)
    then show ?thesis
    proof cases
      case 1
      then show ?thesis using return_now np w by blast
    next
      case 2
      moreover have "lf_cancelled s" using inv w by (simp add: life_inv_def)
      ultimately show ?thesis using exit_now [OF np] w(1) by blast
    next
      case 3
      let ?u = "s\<lparr>lf_starting := lf_starting s - 1, lf_looping := lf_looping s + 1\<rparr>"
      have "life_run config s [Tickers] ?u" by (rule life_run_single [OF life_step.tickers [OF np 3(1) assms(3)]])
      moreover have "lf_cancelled s" using inv w by (auto simp: life_inv_def)
      then obtain evs' s' where "life_run config ?u evs' s'" "lf_stopped s' = lf_stopped s + 1"
        using exit_now [of ?u] np 3 w by auto
      ultimately show ?thesis using life_run_append by blast
    qed
  qed
  with np inv assms(2) show ?thesis by (auto simp: life_inv_def)
qed

definition demo_config :: QueueManagerConfig where
  "demo_config = \<lparr>qmc_DefaultMaxSize = 10, qmc_MonitorInterval = second, qmc_CleanupInterval = minute,
     qmc_MaxRetentionPeriod = hour, qmc_EnableMetrics = False, qmc_EnableAutoScaling = False,
     qmc_ScalingThresholds = Map.empty, qmc_PriorityAdjustRules = []\<rparr>"

lemma demo_run_start_stop:
  "life_run demo_config life_init [Start, StopCall]
     (life_init\<lparr>lf_starting := 1, lf_cancelled := True, lf_stopping := 1\<rparr>)"
proof -
  have "life_run demo_config life_init ([] @ [Start] @ [StopCall])
      (life_init\<lparr>lf_starting := 1\<rparr>\<lparr>lf_cancelled := True, lf_stopping := 1\<rparr>)"
    unfolding append_assoc [symmetric]
    by (rule life_run.snoc [OF life_run.snoc [OF life_run.nil]])
      (auto simp: life_step.simps life_init_def)
  then show ?thesis by simp
qed

theorem monitor_start_once_witness:
  "\<exists>evs s. life_run demo_config (life_init\<lparr>lf_starting := 1, lf_cancelled := True, lf_stopping := 1\<rparr>) evs s
     \<and> lf_stopped s = 1"
  using monitor_start_once [OF demo_run_start_stop]
  by (simp add: life_init_def tickers_ok_def demo_config_def)

text \<open>
  A second \<^verbatim>\<open>Start\<close> can crash the program at shutdown, whatever the
  intervals that let it start; with an interval that is not positive the monitor crashes
  the program as soon as it runs; and without a \<^verbatim>\<open>Start\<close> no \<^verbatim>\<open>Stop\<close> ever returns.
\<close>

theorem monitor_misuse:
  "(if tickers_ok config
    then \<exists>s. life_run config life_init [Start, Start, Tickers, Tickers, StopCall, Exit, Exit] s \<and> lf_panicked s
    else \<forall>evs s s'. life_run config life_init evs s \<and> life_step config Tickers s s' \<longrightarrow> lf_panicked s') \<and>
   (\<forall>evs s. life_run config life_init evs s \<and> Start \<notin> set evs \<longrightarrow> lf_stopped s = 0)"
proof (intro conjI)
  have twice: "\<exists>s. life_run config life_init [Start, Start, Tickers, Tickers, StopCall, Exit, Exit] s \<and> lf_panicked s"
    if ok: "tickers_ok config"
  proof -
    let ?crash = "life_init\<lparr>lf_looping := 1, lf_cancelled := True, lf_stopping := 1, lf_doneClosed := True,
       lf_panicked := True\<rparr>"
    have "life_run config life_init [Start, Start, Tickers, Tickers, StopCall, Exit, Exit] ?crash"
      by (rule life_run_Cons, rule start, simp add: life_init_def,
          rule life_run_Cons, rule start, simp add: life_init_def,
          rule life_run_Cons, rule tickers, simp add: life_init_def, simp add: life_init_def, rule ok,
          rule life_run_Cons, rule tickers, simp add: life_init_def, simp add: life_init_def, rule ok,
          rule life_run_Cons, rule stop_call, simp add: life_init_def,
          rule life_run_Cons, rule exit, (simp add: life_init_def)+,
          rule life_run_Cons, rule exit_panic, (simp add: life_init_def)+)
        (simp add: life_init_def life_run.nil)
    then show ?thesis by fastforce
  qed
  have interval: "lf_panicked s'" if "\<not> tickers_ok config" "life_step config Tickers s s'" for s s'
    using that by (auto elim!: life_stepE)
  show "if tickers_ok config
    then \<exists>s. life_run config life_init [Start, Start, Tickers, Tickers, StopCall, Exit, Exit] s \<and> lf_panicked s
    else \<forall>evs s s'. life_run config life_init evs s \<and> life_step config Tickers s s' \<longrightarrow> lf_panicked s'"
    using twice interval by (auto split: if_splits)
  show "\<forall>evs s. life_run config life_init evs s \<and> Start \<notin> set evs \<longrightarrow> lf_stopped s = 0"
    using life_run_never [of config life_init] by (fastforce simp: life_init_def count_notin)
qed


theorem monitor_misuse_witness:
  "(\<exists>s. life_run demo_config life_init [Start, Start, Tickers, Tickers, StopCall, Exit, Exit] s \<and> lf_panicked s) \<and>
   lf_stopped (life_init\<lparr>lf_cancelled := True, lf_stopping := 1\<rparr>) = 0"
proof (intro conjI)
  have "tickers_ok demo_config" by (simp add: tickers_ok_def demo_config_def)
  then show "\<exists>s. life_run demo_config life_init [Start, Start, Tickers, Tickers, StopCall, Exit, Exit] s \<and> lf_panicked s"
    using monitor_misuse [of demo_config] by simp
  have "life_run demo_config life_init [StopCall] (life_init\<lparr>lf_cancelled := True, lf_stopping := 1\<rparr>)"
    by (rule life_run_single, rule stop_call [of life_init, THEN back_subst [of "life_step _ _ _"]]) (simp_all add: life_init_def)
  then show "lf_stopped (life_init\<lparr>lf_cancelled := True, lf_stopping := 1\<rparr>) = 0"
    by (rule monitor_misuse [THEN conjunct2, rule_format, OF conjI]) simp
qed

end
