(* ===== verification/ExchangeSort.thy ===== *)
theory ExchangeSort
  imports Prelude
begin

text \<open>
  The sorting loop that \<^verbatim>\<open>sortIndices\<close> (\<^verbatim>\<open>dead_letter_queue.go\<close>) and
  \<^verbatim>\<open>sortEndpointScores\<close> (\<^verbatim>\<open>load_balancer.go\<close>) share: two nested loops that exchange
  \<open>xs[i]\<close> and \<open>xs[j]\<close> when they are in the wrong order. It sorts when the comparison is a
  strict weak order on the elements (locale \<open>exchange_order\<close>), which the comparison of
  floating-point scores is only without NaN.
\<close>

definition exchange_inner :: "('a \<Rightarrow> 'a \<Rightarrow> bool) \<Rightarrow> nat \<Rightarrow> 'a list \<Rightarrow> 'a list" where
  "exchange_inner worse i xs =
     fold (\<lambda>j ys. if worse (ys ! i) (ys ! j) then swap_nth i j ys else ys) [Suc i..<length xs] xs"

definition exchange_sort :: "('a \<Rightarrow> 'a \<Rightarrow> bool) \<Rightarrow> 'a list \<Rightarrow> 'a list" where
  "exchange_sort worse xs = fold (exchange_inner worse) [0..<length xs] xs"

text \<open>The loops permute the list whatever the comparison is.\<close>

lemma mset_exchange_fold:
  assumes "i < length xs" and "\<forall>j \<in> set js. j < length xs"
  shows "mset (fold (\<lambda>j ys. if worse (ys ! i) (ys ! j) then swap_nth i j ys else ys) js xs) = mset xs"
  using assms
proof (induction js arbitrary: xs)
  case (Cons j js)
  let ?ys = "if worse (xs ! i) (xs ! j) then swap_nth i j xs else xs"
  have "mset (fold (\<lambda>j ys. if worse (ys ! i) (ys ! j) then swap_nth i j ys else ys) js ?ys) = mset ?ys"
    using Cons.prems by (intro Cons.IH) auto
  then show ?case using Cons.prems by simp
qed simp

lemma mset_exchange_inner: "i < length xs \<Longrightarrow> mset (exchange_inner worse i xs) = mset xs"
  unfolding exchange_inner_def by (rule mset_exchange_fold) auto

lemma mset_exchange_sort: "mset (exchange_sort worse xs) = mset xs"
proof -
  have "mset (fold (exchange_inner worse) is ys) = mset ys" if "\<forall>i \<in> set is. i < length ys" for "is" ys
    using that
  proof (induction "is" arbitrary: ys)
    case (Cons i "is")
    have m: "mset (exchange_inner worse i ys) = mset ys" using Cons.prems by (simp add: mset_exchange_inner)
    then have "length (exchange_inner worse i ys) = length ys" by (rule mset_eq_length)
    then have "mset (fold (exchange_inner worse) is (exchange_inner worse i ys)) = mset (exchange_inner worse i ys)"
      using Cons.prems by (intro Cons.IH) simp
    with m show ?case by simp
  qed simp
  then show ?thesis by (simp add: exchange_sort_def)
qed

locale exchange_order =
  fixes worse :: "'a \<Rightarrow> 'a \<Rightarrow> bool" and good :: "'a \<Rightarrow> bool"
  assumes worse_asym: "good a \<Longrightarrow> good b \<Longrightarrow> worse a b \<Longrightarrow> \<not> worse b a"
    and worse_negtrans: "good a \<Longrightarrow> good b \<Longrightarrow> good c \<Longrightarrow> \<not> worse a b \<Longrightarrow> \<not> worse b c \<Longrightarrow> \<not> worse a c"
begin

definition inner_inv :: "nat \<Rightarrow> 'a list \<Rightarrow> nat \<Rightarrow> 'a list \<Rightarrow> bool" where
  "inner_inv i xs j ys \<longleftrightarrow> mset ys = mset xs \<and> take i ys = take i xs \<and>
     (\<forall>k. i < k \<longrightarrow> k < j \<longrightarrow> \<not> worse (ys ! i) (ys ! k))"

lemma worse_irrefl: "good a \<Longrightarrow> \<not> worse a a"
  using worse_asym by blast

lemma inner_inv_length: "inner_inv i xs j ys \<Longrightarrow> length ys = length xs"
  unfolding inner_inv_def by (metis size_mset)

lemma inner_step:
  assumes inv: "inner_inv i xs j ys" and good: "\<forall>x \<in> set xs. good x" and ij: "i < j" and j: "j < length xs"
  shows "inner_inv i xs (Suc j) (if worse (ys ! i) (ys ! j) then swap_nth i j ys else ys)"
proof -
  have len: "length ys = length xs" by (rule inner_inv_length [OF inv])
  have "set ys = set xs" using inv unfolding inner_inv_def by (metis set_mset_mset)
  then have good: "good (ys ! k)" if "k < length xs" for k
    using good len that nth_mem [of k ys] by auto
  show ?thesis
  proof (cases "worse (ys ! i) (ys ! j)")
    case True
    then have ji: "\<not> worse (ys ! j) (ys ! i)" using worse_asym good ij j by simp
    have "\<not> worse (swap_nth i j ys ! i) (swap_nth i j ys ! k)" if k: "i < k" "k < Suc j" for k
    proof (cases "k = j")
      case True
      then show ?thesis using ji ij j len by (simp add: nth_swap_nth)
    next
      case False
      then have "\<not> worse (ys ! i) (ys ! k)" using inv k by (simp add: inner_inv_def)
      then have "\<not> worse (ys ! j) (ys ! k)" using worse_negtrans [OF _ _ _ ji] good ij j k by simp
      then show ?thesis using False k ij j len by (simp add: nth_swap_nth)
    qed
    moreover have "take i (swap_nth i j ys) = take i ys" using ij by (simp add: swap_nth_def)
    ultimately show ?thesis using True inv ij j len by (simp add: inner_inv_def)
  next
    case False
    then show ?thesis using inv by (auto simp: inner_inv_def less_Suc_eq)
  qed
qed

lemma inner_loop:
  assumes "\<forall>x \<in> set xs. good x" and "i < j" and "j \<le> length xs" and "inner_inv i xs j ys"
  shows "inner_inv i xs (length xs)
    (fold (\<lambda>j ys. if worse (ys ! i) (ys ! j) then swap_nth i j ys else ys) [j..<length xs] ys)"
  using assms(2-4)
proof (induction "length xs - j" arbitrary: j ys)
  case 0
  then show ?case by simp
next
  case (Suc k)
  then have j: "j < length xs" by simp
  have "inner_inv i xs (Suc j) (if worse (ys ! i) (ys ! j) then swap_nth i j ys else ys)"
    by (rule inner_step [OF Suc.prems(3) assms(1) Suc.prems(1) j])
  with Suc.hyps Suc.prems j show ?case by (simp add: upt_conv_Cons)
qed

lemma exchange_inner_inv:
  assumes "\<forall>x \<in> set xs. good x" and "i < length xs"
  shows "inner_inv i xs (length xs) (exchange_inner worse i xs)"
  unfolding exchange_inner_def
  by (rule inner_loop [OF assms(1)]) (use assms(2) in \<open>simp_all add: inner_inv_def\<close>)

lemma length_exchange_inner: "length (exchange_inner worse i xs) = length xs"
proof -
  have "length (fold (\<lambda>j ys. if worse (ys ! i) (ys ! j) then swap_nth i j ys else ys) js ys) = length ys" for js ys
    by (induction js arbitrary: ys) simp_all
  then show ?thesis by (simp add: exchange_inner_def)
qed

definition outer_inv :: "'a list \<Rightarrow> nat \<Rightarrow> 'a list \<Rightarrow> bool" where
  "outer_inv xs i ys \<longleftrightarrow> mset ys = mset xs \<and> sorted_wrt (\<lambda>a b. \<not> worse a b) (take i ys) \<and>
     (\<forall>a \<in> set (take i ys). \<forall>b \<in> set (drop i ys). \<not> worse a b)"

lemma outer_step:
  assumes inv: "outer_inv xs i ys" and good: "\<forall>x \<in> set xs. good x" and i: "i < length xs"
  shows "outer_inv xs (Suc i) (exchange_inner worse i ys)"
proof -
  let ?zs = "exchange_inner worse i ys"
  have ys: "mset ys = mset xs" "length ys = length xs" "set ys = set xs"
    using inv unfolding outer_inv_def by (metis, metis size_mset, metis set_mset_mset)
  have inner: "inner_inv i ys (length ys) ?zs"
    using exchange_inner_inv [of ys i] good ys i by simp
  then have take: "take i ?zs = take i ys" and m: "mset ?zs = mset ys" by (simp_all add: inner_inv_def)
  have "mset (take i ?zs) + mset (drop i ?zs) = mset (take i ys) + mset (drop i ys)"
    using m by (metis append_take_drop_id mset_append)
  then have "mset (drop i ?zs) = mset (drop i ys)" by (simp add: take)
  then have drop: "set (drop i ?zs) = set (drop i ys)" by (metis set_mset_mset)
  have len: "length ?zs = length ys" by (rule length_exchange_inner)
  have split: "drop i ?zs = ?zs ! i # drop (Suc i) ?zs"
    using i len ys(2) by (simp add: Cons_nth_drop_Suc)
  have take': "take (Suc i) ?zs = take i ys @ [?zs ! i]"
    using i len ys(2) take by (simp add: take_Suc_conv_app_nth)
  have min: "\<not> worse (?zs ! i) b" if b: "b \<in> set (drop (Suc i) ?zs)" for b
  proof -
    obtain k where "Suc i + k < length ?zs" "b = ?zs ! (Suc i + k)"
      using b unfolding in_set_conv_nth by (metis length_drop less_diff_conv add.commute nth_drop less_imp_le len i Suc_leI ys(2))
    with inner len show ?thesis by (simp add: inner_inv_def)
  qed
  have prefix: "\<not> worse a b" if "a \<in> set (take i ys)" "b \<in> set (drop i ?zs)" for a b
    using inv that drop by (simp add: outer_inv_def)
  have "sorted_wrt (\<lambda>a b. \<not> worse a b) (take i ys @ [?zs ! i])"
    using inv prefix split by (simp add: outer_inv_def sorted_wrt_append)
  moreover have "\<forall>a \<in> set (take (Suc i) ?zs). \<forall>b \<in> set (drop (Suc i) ?zs). \<not> worse a b"
    using prefix min split take' by auto
  ultimately show ?thesis using m ys(1) take' by (simp add: outer_inv_def)
qed

lemma outer_loop:
  assumes "\<forall>x \<in> set xs. good x" and "i \<le> length xs" and "outer_inv xs i ys"
  shows "outer_inv xs (length xs) (fold (exchange_inner worse) [i..<length xs] ys)"
  using assms(2,3)
proof (induction "length xs - i" arbitrary: i ys)
  case 0
  then show ?case by simp
next
  case (Suc k)
  then have i: "i < length xs" by simp
  from outer_step [OF Suc.prems(2) assms(1) i] Suc.hyps Suc.prems i show ?case
    by (simp add: upt_conv_Cons)
qed

lemma exchange_sort_correct:
  assumes "\<forall>x \<in> set xs. good x"
  shows "mset (exchange_sort worse xs) = mset xs"
    and "sorted_wrt (\<lambda>a b. \<not> worse a b) (exchange_sort worse xs)"
proof -
  have "outer_inv xs (length xs) (exchange_sort worse xs)"
    unfolding exchange_sort_def by (rule outer_loop [OF assms]) (simp_all add: outer_inv_def)
  moreover from this have "length (exchange_sort worse xs) = length xs"
    unfolding outer_inv_def by (metis size_mset)
  ultimately show "mset (exchange_sort worse xs) = mset xs"
    and "sorted_wrt (\<lambda>a b. \<not> worse a b) (exchange_sort worse xs)"
    by (simp_all add: outer_inv_def)
qed

lemma exchange_sort_head:
  assumes "\<forall>x \<in> set xs. good x" and "xs \<noteq> []"
  shows "hd (exchange_sort worse xs) \<in> set xs" and "\<forall>x \<in> set xs. \<not> worse (hd (exchange_sort worse xs)) x"
proof -
  note c = exchange_sort_correct [OF assms(1)]
  have s: "set (exchange_sort worse xs) = set xs" using c(1) by (metis set_mset_mset)
  then obtain y ys where y: "exchange_sort worse xs = y # ys" using assms(2) by (cases "exchange_sort worse xs") auto
  show "hd (exchange_sort worse xs) \<in> set xs" using s y by auto
  show "\<forall>x \<in> set xs. \<not> worse (hd (exchange_sort worse xs)) x"
  proof
    fix x assume "x \<in> set xs"
    moreover from this have "good x" using assms(1) by blast
    ultimately show "\<not> worse (hd (exchange_sort worse xs)) x"
      using c(2) s y worse_irrefl [of x] by auto
  qed
qed

end

end
