(* ===== verification/DeadLetterQueue.thy ===== *)
theory DeadLetterQueue
  imports ManagerRuns ExchangeSort
begin

text \<open>
  \<^verbatim>\<open>internal/priorityqueue/dead_letter_queue.go\<close>: the bounded list of messages that
  failed, with removal by index and requeueing through a \<^verbatim>\<open>QueueManager\<close>. The
  operations that push take the manager's \<^verbatim>\<open>PushMessage\<close> and its state as arguments;
  what they guarantee is proved in the locale \<open>message_sink\<close> for any sink and holds
  for the manager by its interpretation in \<open>QueueManager\<close>.

  Handlers and notification channels run in goroutines of their own: a push records the
  calls it spawns in \<open>dlq_spawned\<close>.
\<close>

section \<open>State and operations\<close>

record DeadLetterItem =
  di_Message :: mref
  di_FailReason :: string
  di_FailedAt :: go_time
  di_SourceQueue :: string
  di_RetryCount :: int

text \<open>\<open>'h\<close> and \<open>'c\<close> name handlers and channels.\<close>

datatype ('h, 'c) dlq_call = CallHandler 'h DeadLetterItem | SendNotification 'c DeadLetterItem

record ('h, 'c) DeadLetterQueue =
  dlq_items :: "DeadLetterItem list"
  dlq_maxSize :: int
  dlq_handlers :: "'h list"
  dlq_notifyChans :: "'c list"
  dlq_spawned :: "('h, 'c) dlq_call list"

definition NewDeadLetterQueue :: "int \<Rightarrow> ('h, 'c) DeadLetterQueue" where
  "NewDeadLetterQueue maxSize =
     \<lparr>dlq_items = [], dlq_maxSize = maxSize, dlq_handlers = [], dlq_notifyChans = [], dlq_spawned = []\<rparr>"

definition dlq_AddHandler :: "'h \<Rightarrow> ('h, 'c) DeadLetterQueue \<Rightarrow> ('h, 'c) DeadLetterQueue" where
  "dlq_AddHandler handler d = d\<lparr>dlq_handlers := dlq_handlers d @ [handler]\<rparr>"

definition dlq_AddNotificationChannel :: "'c \<Rightarrow> ('h, 'c) DeadLetterQueue \<Rightarrow> ('h, 'c) DeadLetterQueue" where
  "dlq_AddNotificationChannel ch d = d\<lparr>dlq_notifyChans := dlq_notifyChans d @ [ch]\<rparr>"

definition dlq_Push ::
    "mref \<Rightarrow> string \<Rightarrow> string \<Rightarrow> go_time \<Rightarrow> mstore \<Rightarrow> ('h, 'c) DeadLetterQueue
     \<Rightarrow> QueueError option \<times> ('h, 'c) DeadLetterQueue" where
  "dlq_Push r failReason sourceQueue now st d =
     (if dlq_maxSize d > 0 \<and> int (length (dlq_items d)) \<ge> dlq_maxSize d then (Some ErrQueueFull, d)
      else let item = \<lparr>di_Message = r, di_FailReason = failReason, di_FailedAt = now,
                       di_SourceQueue = sourceQueue, di_RetryCount = m_RetryCount (st r)\<rparr>
           in (None, d\<lparr>dlq_items := dlq_items d @ [item],
                       dlq_spawned := dlq_spawned d
                         @ map (\<lambda>h. CallHandler h item) (dlq_handlers d)
                         @ map (\<lambda>c. SendNotification c item) (dlq_notifyChans d)\<rparr>))"

definition dlq_in_range :: "int \<Rightarrow> ('h, 'c) DeadLetterQueue \<Rightarrow> bool" where
  "dlq_in_range index d \<longleftrightarrow> \<not> (index < 0 \<or> index \<ge> int (length (dlq_items d)))"

definition dlq_Get :: "int \<Rightarrow> ('h, 'c) DeadLetterQueue \<Rightarrow> QueueError + DeadLetterItem" where
  "dlq_Get index d =
     (if \<not> dlq_in_range index d then Inl ErrIndexOutOfRange else Inr (dlq_items d ! nat index))"

definition dlq_remove_at :: "int \<Rightarrow> ('h, 'c) DeadLetterQueue \<Rightarrow> ('h, 'c) DeadLetterQueue" where
  "dlq_remove_at index d = d\<lparr>dlq_items := remove_nth (nat index) (dlq_items d)\<rparr>"

definition dlq_Remove :: "int \<Rightarrow> ('h, 'c) DeadLetterQueue \<Rightarrow> QueueError option \<times> ('h, 'c) DeadLetterQueue" where
  "dlq_Remove index d =
     (if \<not> dlq_in_range index d then (Some ErrIndexOutOfRange, d) else (None, dlq_remove_at index d))"

definition dlq_Size :: "('h, 'c) DeadLetterQueue \<Rightarrow> int" where
  "dlq_Size d = int (length (dlq_items d))"

definition dlq_GetAll :: "('h, 'c) DeadLetterQueue \<Rightarrow> DeadLetterItem list" where
  "dlq_GetAll d = dlq_items d"

definition dlq_Clear :: "('h, 'c) DeadLetterQueue \<Rightarrow> ('h, 'c) DeadLetterQueue" where
  "dlq_Clear d = d\<lparr>dlq_items := []\<rparr>"

type_synonym 's push_fun = "go_time \<times> go_time \<Rightarrow> string \<Rightarrow> mref \<Rightarrow> 's \<times> mstore
  \<Rightarrow> QueueError option \<times> ('s \<times> mstore)"

definition dlq_Requeue ::
    "'s push_fun \<Rightarrow> go_time \<times> go_time \<Rightarrow> int \<Rightarrow> ('h, 'c) DeadLetterQueue \<Rightarrow> 's \<times> mstore
     \<Rightarrow> QueueError option \<times> ('h, 'c) DeadLetterQueue \<times> ('s \<times> mstore)" where
  "dlq_Requeue push nows index d s =
     (if \<not> dlq_in_range index d then (Some ErrIndexOutOfRange, d, s)
      else let item = dlq_items d ! nat index;
               s1 = (fst s, (snd s)(di_Message item := (snd s (di_Message item))\<lparr>m_RetryCount := 0\<rparr>))
           in case push nows (di_SourceQueue item) (di_Message item) s1 of
                (Some err, s2) \<Rightarrow> (Some err, d, s2)
              | (None, s2) \<Rightarrow> (None, dlq_remove_at index d, s2))"

definition sortIndices :: "int list \<Rightarrow> int list" where
  "sortIndices indices = exchange_sort (\<lambda>a b. a < b) indices"

text \<open>The loop of \<^verbatim>\<open>BatchRequeue\<close>; the function of times gives those of each push.\<close>

fun dlq_requeue_loop ::
    "'s push_fun \<Rightarrow> (nat \<Rightarrow> go_time \<times> go_time) \<Rightarrow> int list \<Rightarrow> ('h, 'c) DeadLetterQueue \<Rightarrow> 's \<times> mstore \<Rightarrow> int
     \<Rightarrow> int \<times> ('h, 'c) DeadLetterQueue \<times> ('s \<times> mstore)" where
  "dlq_requeue_loop push nows [] d s successCount = (successCount, d, s)"
| "dlq_requeue_loop push nows (index # indices) d s successCount =
     (if \<not> dlq_in_range index d
      then dlq_requeue_loop push (\<lambda>i. nows (Suc i)) indices d s successCount
      else let item = dlq_items d ! nat index;
               s1 = (fst s, (snd s)(di_Message item := (snd s (di_Message item))\<lparr>m_RetryCount := 0\<rparr>))
           in case push (nows 0) (di_SourceQueue item) (di_Message item) s1 of
                (Some err, s2) \<Rightarrow> dlq_requeue_loop push (\<lambda>i. nows (Suc i)) indices d s2 successCount
              | (None, s2) \<Rightarrow>
                  dlq_requeue_loop push (\<lambda>i. nows (Suc i)) indices (dlq_remove_at index d) s2 (successCount + 1))"

text \<open>The error result of \<^verbatim>\<open>BatchRequeue\<close> is always \<^verbatim>\<open>nil\<close>: it has no branch.\<close>

definition dlq_BatchRequeue ::
    "'s push_fun \<Rightarrow> (nat \<Rightarrow> go_time \<times> go_time) \<Rightarrow> int list \<Rightarrow> ('h, 'c) DeadLetterQueue \<Rightarrow> 's \<times> mstore
     \<Rightarrow> int \<times> ('h, 'c) DeadLetterQueue \<times> ('s \<times> mstore)" where
  "dlq_BatchRequeue push nows indices d s =
     (if length indices = 0 then (0, d, s)
      else dlq_requeue_loop push nows (sortIndices indices) d s 0)"

section \<open>Sorting the indices\<close>

interpretation desc: exchange_order "\<lambda>a b :: int. a < b" "\<lambda>_. True"
  by unfold_locales auto

lemma sortIndices_correct:
  "mset (sortIndices indices) = mset indices" "sorted_wrt (\<ge>) (sortIndices indices)"
  using desc.exchange_sort_correct [of indices] by (simp_all add: sortIndices_def not_less)

lemma sorted_desc_strict: "distinct xs \<Longrightarrow> sorted_wrt (\<ge>) xs \<Longrightarrow> sorted_wrt (>) (xs :: int list)"
  by (induction xs) (auto simp: le_less)

section \<open>What requeueing guarantees\<close>

text \<open>The messages in the dead letter queue that came from queue \<open>n\<close>.\<close>

definition dlq_from :: "string \<Rightarrow> ('h, 'c) DeadLetterQueue \<Rightarrow> mref multiset" where
  "dlq_from n d = image_mset di_Message (filter_mset (\<lambda>it. di_SourceQueue it = n) (mset (dlq_items d)))"

lemma dlq_from_remove:
  assumes "dlq_in_range index d"
  shows "dlq_from n d = dlq_from n (dlq_remove_at index d) +
    (if di_SourceQueue (dlq_items d ! nat index) = n then {#di_Message (dlq_items d ! nat index)#} else {#})"
proof -
  have i: "nat index < length (dlq_items d)" using assms by (auto simp: dlq_in_range_def)
  then have "mset (dlq_items d) = add_mset (dlq_items d ! nat index) (mset (remove_nth (nat index) (dlq_items d)))"
    by (simp add: mset_remove_nth)
  then show ?thesis by (simp add: dlq_from_def dlq_remove_at_def)
qed

lemma dlq_remove_length:
  "dlq_in_range index d \<Longrightarrow> int (length (dlq_items d)) = int (length (dlq_items (dlq_remove_at index d))) + 1"
  by (auto simp: dlq_in_range_def dlq_remove_at_def)

text \<open>The step shared by \<^verbatim>\<open>Requeue\<close> and the loop: reset the retry count, push.\<close>

definition dlq_push_item :: "'s push_fun \<Rightarrow> go_time \<times> go_time \<Rightarrow> DeadLetterItem \<Rightarrow> 's \<times> mstore
    \<Rightarrow> QueueError option \<times> ('s \<times> mstore)" where
  "dlq_push_item push ts item s = push ts (di_SourceQueue item) (di_Message item)
     (fst s, (snd s)(di_Message item := (snd s (di_Message item))\<lparr>m_RetryCount := 0\<rparr>))"

lemma dlq_Requeue_alt:
  "dlq_Requeue push ts index d s =
     (if \<not> dlq_in_range index d then (Some ErrIndexOutOfRange, d, s)
      else case dlq_push_item push ts (dlq_items d ! nat index) s of
             (Some err, s2) \<Rightarrow> (Some err, d, s2) | (None, s2) \<Rightarrow> (None, dlq_remove_at index d, s2))"
  by (simp add: dlq_Requeue_def dlq_push_item_def Let_def)

lemma dlq_requeue_loop_alt:
  "dlq_requeue_loop push ts (index # indices) d s c =
     (if \<not> dlq_in_range index d then dlq_requeue_loop push (\<lambda>i. ts (Suc i)) indices d s c
      else case dlq_push_item push (ts 0) (dlq_items d ! nat index) s of
             (Some err, s2) \<Rightarrow> dlq_requeue_loop push (\<lambda>i. ts (Suc i)) indices d s2 c
           | (None, s2) \<Rightarrow> dlq_requeue_loop push (\<lambda>i. ts (Suc i)) indices (dlq_remove_at index d) s2 (c + 1))"
  by (simp add: dlq_push_item_def Let_def)

declare dlq_requeue_loop.simps(2) [simp del]

context message_sink
begin

lemma push_item_cases:
  assumes "ok (fst s)"
  obtains (delivered) s2 where "dlq_push_item push ts it s = (None, s2)" "ok (fst s2)"
      "waiting (fst s2) = (waiting (fst s))(di_SourceQueue it := add_mset (di_Message it) (waiting (fst s) (di_SourceQueue it)))"
  | (rejected) e s2 where "dlq_push_item push ts it s = (Some e, s2)" "ok (fst s2)" "waiting (fst s2) = waiting (fst s)"
  unfolding dlq_push_item_def by (rule push_cases [OF assms]) (auto intro: delivered rejected)

text \<open>Nothing is lost or duplicated: per queue name, dead letters and waiting messages add up.\<close>

lemma requeue_loop_conserves:
  assumes "ok (fst s)" and "dlq_requeue_loop push ts indices d s c = (c', d', s')"
  shows "ok (fst s') \<and> (\<forall>n. waiting (fst s') n + dlq_from n d' = waiting (fst s) n + dlq_from n d) \<and>
    c' + int (length (dlq_items d')) = c + int (length (dlq_items d))"
  using assms
proof (induction indices arbitrary: ts d s c)
  case (Cons index indices)
  show ?case
  proof (cases "dlq_in_range index d")
    case True
    from Cons.prems(1) show ?thesis
    proof (cases rule: push_item_cases [where ts = "ts 0" and it = "dlq_items d ! nat index"])
      case (delivered s2)
      have "dlq_requeue_loop push (\<lambda>i. ts (Suc i)) indices (dlq_remove_at index d) s2 (c + 1) = (c', d', s')"
        using Cons.prems(2) True delivered(1) by (simp add: dlq_requeue_loop_alt)
      from Cons.IH [OF delivered(2) this] show ?thesis
        using delivered(3) dlq_from_remove [OF True] dlq_remove_length [OF True] by simp
    next
      case (rejected e s2)
      have "dlq_requeue_loop push (\<lambda>i. ts (Suc i)) indices d s2 c = (c', d', s')"
        using Cons.prems(2) True rejected(1) by (simp add: dlq_requeue_loop_alt)
      from Cons.IH [OF rejected(2) this] show ?thesis using rejected(3) by simp
    qed
  next
    case False
    with Cons.prems Cons.IH [OF Cons.prems(1)] show ?thesis by (simp add: dlq_requeue_loop_alt)
  qed
qed simp

lemma batch_requeue_conserves:
  assumes "ok (fst s)" and "dlq_BatchRequeue push ts indices d s = (c', d', s')"
  shows "ok (fst s') \<and> (\<forall>n. waiting (fst s') n + dlq_from n d' = waiting (fst s) n + dlq_from n d) \<and>
    c' + int (length (dlq_items d')) = int (length (dlq_items d))"
  using requeue_loop_conserves [OF assms(1), of ts "sortIndices indices" d 0 c' d' s'] assms
  by (auto simp: dlq_BatchRequeue_def split: if_splits)

lemma requeue_failure:
  assumes "dlq_Requeue push ts index d s = (Some e, d', s')" and "dlq_in_range index d" and "ok (fst s)"
  shows "d' = d" and "waiting (fst s') = waiting (fst s)" and "ok (fst s')"
    and "m_RetryCount (snd s' (di_Message (dlq_items d ! nat index))) = 0"
proof -
  let ?it = "dlq_items d ! nat index"
  have p: "dlq_push_item push ts ?it s = (Some e, s')" and "d' = d"
    using assms(1,2) by (auto simp: dlq_Requeue_alt split: prod.splits option.splits)
  then show "d' = d" by simp
  from assms(3) show "waiting (fst s') = waiting (fst s)" and "ok (fst s')"
    by (cases rule: push_item_cases [where ts = ts and it = ?it]; use p in simp)+
  from p show "m_RetryCount (snd s' (di_Message ?it)) = 0"
    using push_store [of ts "di_SourceQueue ?it" "di_Message ?it" "fst s"
        "(snd s)(di_Message ?it := (snd s (di_Message ?it))\<lparr>m_RetryCount := 0\<rparr>)"]
    by (auto simp: dlq_push_item_def)
qed

end

text \<open>For strictly descending indices the positions still to come are not disturbed.\<close>

context accepting_sink
begin

lemma requeue_loop_exact:
  assumes "ok (fst s)" and "\<forall>it \<in> set (dlq_items d). accepts (fst s) (di_SourceQueue it)"
    and "sorted_wrt (>) indices"
    and "dlq_requeue_loop push ts indices d s c = (c', d', s')"
  shows "dlq_items d' = nths (dlq_items d) (- {i. int i \<in> set indices})"
  using assms
proof (induction indices arbitrary: ts d s c)
  case Nil
  then show ?case by (simp add: nths_all)
next
  case (Cons index indices)
  show ?case
  proof (cases "dlq_in_range index d")
    case True
    then have i: "nat index < length (dlq_items d)" "index = int (nat index)" by (auto simp: dlq_in_range_def)
    let ?it = "dlq_items d ! nat index"
    have acc: "accepts (fst s) (di_SourceQueue ?it)" using Cons.prems(2) i(1) by simp
    obtain s2 where p: "dlq_push_item push (ts 0) ?it s = (None, s2)"
      using accepts_push [OF Cons.prems(1) acc] unfolding dlq_push_item_def by (metis prod.collapse)
    have ok2: "ok (fst s2)"
      using push_keeps_ok [OF Cons.prems(1)] p unfolding dlq_push_item_def by (metis snd_conv)
    have "accepts (fst s2) n" if "accepts (fst s) n" for n
      using accepts_stays [OF Cons.prems(1) that] p unfolding dlq_push_item_def by (metis snd_conv)
    then have acc2: "\<forall>it \<in> set (dlq_items (dlq_remove_at index d)). accepts (fst s2) (di_SourceQueue it)"
      using Cons.prems(2) set_remove_nth_subset by (fastforce simp: dlq_remove_at_def)
    have "dlq_requeue_loop push (\<lambda>i. ts (Suc i)) indices (dlq_remove_at index d) s2 (c + 1) = (c', d', s')"
      using Cons.prems(4) True p by (simp add: dlq_requeue_loop_alt)
    then have "dlq_items d' = nths (remove_nth (nat index) (dlq_items d)) (- {i. int i \<in> set indices})"
      using Cons.IH [OF ok2 acc2] Cons.prems(3) by (simp add: dlq_remove_at_def)
    also have "\<dots> = nths (dlq_items d) (- insert (nat index) {i. int i \<in> set indices})"
      by (rule nths_remove_nth) (use i Cons.prems(3) in auto)
    also have "insert (nat index) {i. int i \<in> set indices} = {i. int i \<in> set (index # indices)}"
      using i(2) by auto
    finally show ?thesis .
  next
    case False
    then have "dlq_items d' = nths (dlq_items d) (- {i. int i \<in> set indices})"
      using Cons.IH [OF Cons.prems(1,2)] Cons.prems(3,4) by (simp add: dlq_requeue_loop_alt)
    also have "\<dots> = nths (dlq_items d) (- {i. int i \<in> set (index # indices)})"
      using nths_take_cong [of "length (dlq_items d)" "- {i. int i \<in> set indices}" "- {i. int i \<in> set (index # indices)}" "dlq_items d"]
        False by (auto simp: dlq_in_range_def)
    finally show ?thesis .
  qed
qed

end

section \<open>Properties\<close>

text \<open>
  Batch requeueing through a queue manager in a consistent state, with any
  list of indices (repeated and out-of-range ones included), neither loses nor duplicates a
  message: for every queue name the messages waiting there and the dead letters that came
  from it add up to the same multiset, the reported count is the number of dead letters
  taken out, and the manager stays consistent.
\<close>

theorem dlq_requeue_conserves:
  assumes "qm_inv qm" and "dlq_BatchRequeue qm_PushMessage ts indices d (qm, st) = (c', d', (qm', st'))"
  shows "qm_inv qm' \<and>
    (\<forall>n. qm_waiting qm' n + dlq_from n d' = qm_waiting qm n + dlq_from n d) \<and>
    c' + int (length (dlq_items d')) = int (length (dlq_items d))"
  using qm_sink.batch_requeue_conserves [of "(qm, st)" ts indices d c' d' "(qm', st')"] assms by simp

definition sample_dlq :: "(nat, nat) DeadLetterQueue" where
  "sample_dlq = snd (dlq_Push 12 ''error'' ''q'' 6 (snd sample_state)
     (snd (dlq_Push 11 ''timeout'' ''q'' 5 (snd sample_state)
       (snd (dlq_Push 10 ''error'' ''none'' 4 (snd sample_state) (NewDeadLetterQueue 0))))))"

theorem dlq_requeue_conserves_witness:
  "fst (dlq_BatchRequeue qm_PushMessage (\<lambda>i. (9, 9)) [0, 0, 2, 7] sample_dlq sample_state) = 1"
proof -
  let ?r = "dlq_BatchRequeue qm_PushMessage (\<lambda>i. (9, 9)) [0, 0, 2, 7] sample_dlq (fst sample_state, snd sample_state)"
  obtain c' d' qm' st' where r: "?r = (c', d', (qm', st'))" by (metis prod.exhaust)
  have "length (dlq_items (fst (snd ?r))) = 2" and "length (dlq_items sample_dlq) = 3" by code_simp+
  with dlq_requeue_conserves [OF sample_inv r] r show ?thesis by simp
qed

text \<open>
  C9 (batch requeue). When the indices are distinct and the queues the dead letters came from
  exist and have no size limit, batch requeueing takes out exactly the dead letters at the
  given positions that exist, whatever the order of the indices, keeps the others in their
  order, and reports how many it took.
\<close>

theorem dlq_batch_requeue_exact:
  assumes "qm_inv qm" and "\<forall>it \<in> set (dlq_items d). qm_unlimited qm (di_SourceQueue it)"
    and "distinct indices"
    and "dlq_BatchRequeue qm_PushMessage ts indices d (qm, st) = (c', d', s')"
  shows "dlq_items d' = nths (dlq_items d) (- {i. int i \<in> set indices}) \<and>
    c' = int (card {i. i < length (dlq_items d) \<and> int i \<in> set indices})"
proof (cases "indices = []")
  case True
  then show ?thesis using assms(4) by (simp add: dlq_BatchRequeue_def nths_all)
next
  case False
  have sorted: "sorted_wrt (>) (sortIndices indices)"
  proof -
    have "distinct (sortIndices indices)" and "sorted_wrt (\<ge>) (sortIndices indices)"
      using sortIndices_correct [of indices] assms(3) by (metis distinct_count_atmost_1 set_mset_mset, simp)
    then show ?thesis by (rule sorted_desc_strict)
  qed
  have set: "set (sortIndices indices) = set indices"
    using sortIndices_correct(1) by (metis set_mset_mset)
  have loop: "dlq_requeue_loop qm_PushMessage ts (sortIndices indices) d (qm, st) 0 = (c', d', s')"
    using assms(4) False by (simp add: dlq_BatchRequeue_def)
  have items: "dlq_items d' = nths (dlq_items d) (- {i. int i \<in> set indices})"
    using qm_sink.requeue_loop_exact [OF _ _ sorted loop] assms(1,2) set by simp
  have "c' + int (length (dlq_items d')) = int (length (dlq_items d))"
    using qm_sink.batch_requeue_conserves [of "(qm, st)" ts indices d c' d' s'] assms(1,4) by simp
  moreover have "length (dlq_items d') = card {i. i < length (dlq_items d) \<and> int i \<notin> set indices}"
    by (simp add: items length_nths)
  moreover have "card {i. i < length (dlq_items d) \<and> int i \<in> set indices} +
      card {i. i < length (dlq_items d) \<and> int i \<notin> set indices} = length (dlq_items d)"
    by (subst card_Un_disjoint [symmetric]) (auto intro!: arg_cong [where f = card, of _ "{..<length (dlq_items d)}", simplified])
  ultimately show ?thesis using items by simp
qed

definition sample_unlimited :: QueueManager where
  "sample_unlimited = qm_CreateQueue ''q'' 0 1 (qm_init (sample_config\<lparr>qmc_DefaultMaxSize := 0\<rparr>))"

lemma sample_unlimited_inv: "qm_inv sample_unlimited"
  using qm_sync_CreateQueue [OF qm_inv_init] by (simp add: sample_unlimited_def qm_sync_def)

definition sample_dlq3 :: "(nat, nat) DeadLetterQueue" where
  "sample_dlq3 = (NewDeadLetterQueue 0)\<lparr>dlq_items :=
     map (\<lambda>r. \<lparr>di_Message = r, di_FailReason = ''error'', di_FailedAt = 3, di_SourceQueue = ''q'', di_RetryCount = 1\<rparr>)
       [10, 11, 12]\<rparr>"

theorem dlq_batch_requeue_exact_witness:
  "map di_Message (dlq_items (fst (snd (dlq_BatchRequeue qm_PushMessage (\<lambda>i. (9, 9)) [0, 7, 2] sample_dlq3
     (sample_unlimited, \<lambda>r. sample_message))))) = [11]"
proof -
  let ?r = "dlq_BatchRequeue qm_PushMessage (\<lambda>i. (9, 9)) [0, 7, 2] sample_dlq3 (sample_unlimited, \<lambda>r. sample_message)"
  obtain c' d' s' where r: "?r = (c', d', s')" by (metis prod.exhaust)
  have "qm_unlimited sample_unlimited ''q''" by code_simp
  then have "\<forall>it \<in> set (dlq_items sample_dlq3). qm_unlimited sample_unlimited (di_SourceQueue it)"
    by (simp add: sample_dlq3_def)
  moreover have "distinct [0, 7, 2 :: int]" by simp
  ultimately have "dlq_items d' = nths (dlq_items sample_dlq3) (- {i. int i \<in> set [0, 7, 2]})"
    by (rule dlq_batch_requeue_exact [OF sample_unlimited_inv _ _ r, THEN conjunct1])
  then have "map di_Message (dlq_items d') = [11]" by (simp add: sample_dlq3_def nths_Cons)
  then show ?thesis by (simp only: r fst_conv snd_conv)
qed

text \<open>
  A requeue that fails returns the error of the push and leaves the dead
  letter in place and every queue as it was, but the message has lost its retry count: it
  reads 0 afterwards, though it was never requeued.
\<close>

theorem dlq_requeue_error:
  assumes "qm_inv qm" and "0 \<le> index" and "index < dlq_Size d"
    and "dlq_Requeue qm_PushMessage ts index d (qm, st) = (Some e, d', (qm', st'))"
  shows "d' = d \<and> qm_waiting qm' = qm_waiting qm \<and> qm_inv qm' \<and>
    m_RetryCount (st' (di_Message (dlq_items d ! nat index))) = 0"
proof -
  have range: "dlq_in_range index d" using assms(2,3) by (simp add: dlq_in_range_def dlq_Size_def)
  from qm_sink.requeue_failure [OF assms(4) range] assms(1) show ?thesis by simp
qed

theorem dlq_requeue_error_witness:
  "m_RetryCount (snd (snd (snd (dlq_Requeue qm_PushMessage (9, 9) 0 sample_dlq sample_state))) 10) = 0"
proof -
  let ?r = "dlq_Requeue qm_PushMessage (9, 9) 0 sample_dlq (fst sample_state, snd sample_state)"
  have "fst ?r = Some ErrQueueNotFound" by code_simp
  then obtain d' qm' st' where r: "?r = (Some ErrQueueNotFound, d', (qm', st'))" by (metis prod.exhaust fst_conv)
  have "dlq_Size sample_dlq = 3" and "di_Message (dlq_items sample_dlq ! 0) = 10" by code_simp+
  then have "m_RetryCount (st' 10) = 0" using dlq_requeue_error [OF sample_inv _ _ r] by simp
  with r show ?thesis by simp
qed

text \<open>With a repeated index, batch requeueing takes a dead letter that was not asked for.\<close>

lemma dlq_repeated_index:
  "dlq_items (fst (snd (dlq_BatchRequeue qm_PushMessage (\<lambda>i. (9, 9)) [0, 0] sample_dlq3
     (sample_unlimited, \<lambda>r. sample_message)))) = drop 2 (dlq_items sample_dlq3)"
  by code_simp

end
