(* ===== verification/Backoff.thy ===== *)
theory Backoff
  imports Interfaces
begin

text \<open>
  The retry delays of \<^verbatim>\<open>internal/priorityqueue/worker.go\<close>: \<^verbatim>\<open>ExponentialBackoff\<close>
  computes in \<^verbatim>\<open>float64\<close> and truncates, \<^verbatim>\<open>FixedBackoff\<close> is constant. Both, and the
  dispatch through the \<^verbatim>\<open>BackoffStrategy\<close> interface, are interpretations of the
  locale \<open>backoff_strategy\<close>.

  The conversion of an out-of-range \<^verbatim>\<open>float64\<close> to \<^verbatim>\<open>time.Duration\<close> is the
  implementation's: it is the argument \<open>impl\<close>, and no property depends on it.
\<close>

section \<open>Strategies\<close>

record ExponentialBackoff =
  eb_InitialBackoff :: duration
  eb_MaxBackoff :: duration
  eb_Factor :: float64
  eb_maxRetries :: int

definition NewExponentialBackoff :: "duration \<Rightarrow> duration \<Rightarrow> float64 \<Rightarrow> int \<Rightarrow> ExponentialBackoff" where
  "NewExponentialBackoff initial maxb factor maxRetries =
     \<lparr>eb_InitialBackoff = initial, eb_MaxBackoff = maxb, eb_Factor = factor, eb_maxRetries = maxRetries\<rparr>"

text \<open>The loop \<^verbatim>\<open>for i := 1; i < retryCount; i++\<close> runs \<open>retryCount - 1\<close> times.\<close>

fun eb_loop :: "float64 \<Rightarrow> nat \<Rightarrow> float64 \<Rightarrow> float64" where
  "eb_loop factor 0 backoff = backoff"
| "eb_loop factor (Suc k) backoff = eb_loop factor k (f64_mul backoff factor)"

definition eb_NextBackoff :: "(float64 \<Rightarrow> int) \<Rightarrow> ExponentialBackoff \<Rightarrow> int \<Rightarrow> duration" where
  "eb_NextBackoff impl eb retryCount =
     (if retryCount \<le> 0 then eb_InitialBackoff eb
      else let backoff = eb_loop (eb_Factor eb) (nat (retryCount - 1)) (f64_of_int (eb_InitialBackoff eb))
           in if f64_less (f64_of_int (eb_MaxBackoff eb)) backoff then eb_MaxBackoff eb
              else f64_to_int64 impl backoff)"

definition eb_MaxRetries :: "ExponentialBackoff \<Rightarrow> int" where
  "eb_MaxRetries eb = eb_maxRetries eb"

record FixedBackoff =
  fb_Backoff :: duration
  fb_maxRetries :: int

definition NewFixedBackoff :: "duration \<Rightarrow> int \<Rightarrow> FixedBackoff" where
  "NewFixedBackoff backoff maxRetries = \<lparr>fb_Backoff = backoff, fb_maxRetries = maxRetries\<rparr>"

definition fb_NextBackoff :: "FixedBackoff \<Rightarrow> int \<Rightarrow> duration" where
  "fb_NextBackoff fb retryCount = fb_Backoff fb"

definition fb_MaxRetries :: "FixedBackoff \<Rightarrow> int" where
  "fb_MaxRetries fb = fb_maxRetries fb"

datatype BackoffStrategy = Exponential ExponentialBackoff | Fixed FixedBackoff

fun NextBackoff :: "(float64 \<Rightarrow> int) \<Rightarrow> BackoffStrategy \<Rightarrow> int \<Rightarrow> duration" where
  "NextBackoff impl (Exponential eb) retryCount = eb_NextBackoff impl eb retryCount"
| "NextBackoff impl (Fixed fb) retryCount = fb_NextBackoff fb retryCount"

fun MaxRetries :: "BackoffStrategy \<Rightarrow> int" where
  "MaxRetries (Exponential eb) = eb_MaxRetries eb"
| "MaxRetries (Fixed fb) = fb_MaxRetries fb"

section \<open>The exponential loop\<close>

text \<open>Non-negative values, infinity included, and their order.\<close>

fun f64_nonneg :: "float64 \<Rightarrow> bool" where
  "f64_nonneg (Fin x) = (0 \<le> x)"
| "f64_nonneg PInf = True"
| "f64_nonneg _ = False"

fun f64_le :: "float64 \<Rightarrow> float64 \<Rightarrow> bool" where
  "f64_le (Fin x) (Fin y) = (x \<le> y)"
| "f64_le (Fin x) PInf = True"
| "f64_le PInf PInf = True"
| "f64_le _ _ = False"

lemma f64_le_trans: "f64_le x y \<Longrightarrow> f64_le y z \<Longrightarrow> f64_le x z"
  by (cases x; cases y; cases z) auto

lemma f64_le_refl: "f64_nonneg x \<Longrightarrow> f64_le x x"
  by (cases x) auto

lemma f64_less_le_trans: "f64_less x y \<Longrightarrow> f64_le y z \<Longrightarrow> f64_nonneg x \<Longrightarrow> f64_less x z"
  by (cases x; cases y; cases z) auto

lemma round64_nonneg_cases:
  assumes "0 \<le> x"
  shows "round64 x = Fin (round_rat x) \<and> 0 \<le> round_rat x \<or> round64 x = PInf \<and> 2 ^ 1024 \<le> round_rat x"
proof -
  have "0 \<le> round_rat x" using round_rat_mono [OF assms] by (simp add: round_rat_def)
  then show ?thesis by (auto simp: round64_def Let_def)
qed

lemma round64_le:
  assumes "0 \<le> x" and "x \<le> y"
  shows "f64_le (round64 x) (round64 y)" and "f64_nonneg (round64 x)"
proof -
  show "f64_nonneg (round64 x)" using round64_nonneg_cases [OF assms(1)] by auto
  have y: "0 \<le> y" using assms by simp
  from round64_nonneg_cases [OF assms(1)] show "f64_le (round64 x) (round64 y)"
  proof
    assume "round64 x = Fin (round_rat x) \<and> 0 \<le> round_rat x"
    with round64_nonneg_cases [OF y] round_rat_mono [OF assms(2)] show ?thesis by auto
  next
    assume "round64 x = PInf \<and> 2 ^ 1024 \<le> round_rat x"
    moreover from this have "round64 y = PInf"
      using round_rat_mono [OF assms(2)] by (auto simp: round64_def Let_def)
    ultimately show ?thesis by simp
  qed
qed

lemma f64_mul_mono:
  assumes "f64_nonneg x" and "f64_le x y" and "1 \<le> q"
  shows "f64_le (f64_mul x (Fin q)) (f64_mul y (Fin q))" and "f64_nonneg (f64_mul x (Fin q))"
proof -
  have q: "0 < q" using assms(3) by simp
  have "f64_le (f64_mul x (Fin q)) (f64_mul y (Fin q)) \<and> f64_nonneg (f64_mul x (Fin q))"
  proof (cases x)
    case x: (Fin u)
    then have u: "0 \<le> u * q" using assms(1) q by simp
    show ?thesis
    proof (cases y)
      case y: (Fin v)
      have "u * q \<le> v * q" using assms(2) x y q by simp
      from round64_le [OF u this] show ?thesis by (simp add: x y)
    next
      case PInf
      have "f64_nonneg (round64 (u * q))" by (rule round64_le(2) [OF u order_refl])
      then show ?thesis using x PInf q by (cases "round64 (u * q)") (simp_all add: f64_inf_def)
    qed (use assms(2) x in simp_all)
  next
    case PInf
    with assms(2) q show ?thesis by (cases y) (simp_all add: f64_inf_def)
  qed (use assms(1) in simp_all)
  then show "f64_le (f64_mul x (Fin q)) (f64_mul y (Fin q))" and "f64_nonneg (f64_mul x (Fin q))"
    by simp_all
qed

lemma f64_le_PInf: "f64_nonneg x \<Longrightarrow> f64_le x PInf"
  by (cases x) auto

text \<open>The values of the loop, one step at a time.\<close>

definition eb_value :: "float64 \<Rightarrow> nat \<Rightarrow> float64 \<Rightarrow> float64" where
  "eb_value factor k x = ((\<lambda>y. f64_mul y factor) ^^ k) x"

lemma eb_loop_value: "eb_loop factor k x = eb_value factor k x"
  unfolding eb_value_def by (induction k arbitrary: x) (simp_all add: funpow_swap1 [of "\<lambda>y. f64_mul y factor"])

lemma eb_value_Suc: "eb_value factor (Suc k) x = f64_mul (eb_value factor k x) factor"
  by (simp add: eb_value_def)

lemma eb_value_step:
  assumes "0 \<le> n" "n \<le> 2 ^ 53" and "1 \<le> q"
  shows "f64_nonneg (eb_value (Fin q) k (f64_of_int n)) \<and>
    f64_le (eb_value (Fin q) k (f64_of_int n)) (eb_value (Fin q) (Suc k) (f64_of_int n))"
proof (induction k)
  case 0
  have n: "f64_of_int n = Fin (of_int n)" using assms by (simp add: f64_of_int_exact)
  have "(of_int n :: rat) \<le> of_int n * q" using assms(1,3) by (simp add: mult_left_mono [of 1 q "of_int n", simplified])
  then have "f64_le (round64 (of_int n)) (round64 (of_int n * q))" using assms(1) by (intro round64_le) simp
  with n assms show ?case by (simp add: eb_value_def round64_int)
next
  case (Suc k)
  then show ?case
    using f64_mul_mono [OF _ _ assms(3)] f64_le_refl by (metis eb_value_Suc f64_mul_mono(2))
qed

lemma eb_value_mono:
  assumes "0 \<le> n" "n \<le> 2 ^ 53" and "1 \<le> q" and "j \<le> k"
  shows "f64_le (eb_value (Fin q) j (f64_of_int n)) (eb_value (Fin q) k (f64_of_int n))"
  using assms(4)
proof (induction k rule: dec_induct)
  case base
  then show ?case using eb_value_step [OF assms(1-3)] f64_le_refl by blast
next
  case (step k)
  then show ?case using eb_value_step [OF assms(1-3)] f64_le_trans by blast
qed

section \<open>Interpretations\<close>

text \<open>
  Durations up to \<open>2 ^ 53\<close> nanoseconds (104 days) are exact in \<^verbatim>\<open>float64\<close>.
\<close>

definition eb_valid :: "ExponentialBackoff \<Rightarrow> bool" where
  "eb_valid eb \<longleftrightarrow> 0 \<le> eb_InitialBackoff eb \<and> eb_InitialBackoff eb \<le> eb_MaxBackoff eb \<and>
     eb_MaxBackoff eb \<le> 2 ^ 53 \<and> (case eb_Factor eb of Fin q \<Rightarrow> 1 \<le> q | _ \<Rightarrow> False)"

lemma eb_validE:
  assumes "eb_valid eb"
  obtains q where "eb_Factor eb = Fin q" "1 \<le> q" "0 \<le> eb_InitialBackoff eb"
    "eb_InitialBackoff eb \<le> eb_MaxBackoff eb" "eb_MaxBackoff eb \<le> 2 ^ 53"
  using assms unfolding eb_valid_def by (cases "eb_Factor eb") auto

lemma rat_trunc_bounds: "0 \<le> x \<Longrightarrow> x \<le> of_int m \<Longrightarrow> 0 \<le> rat_trunc x \<and> rat_trunc x \<le> m"
  by (simp add: rat_trunc_def floor_le_iff le_less_trans [of x "of_int m" "of_int m + 1"])

text \<open>What a loop value becomes: the cap, or itself truncated.\<close>

definition eb_result :: "(float64 \<Rightarrow> int) \<Rightarrow> duration \<Rightarrow> float64 \<Rightarrow> duration" where
  "eb_result impl m x = (if f64_less (f64_of_int m) x then m else f64_to_int64 impl x)"

lemma eb_result_bounds:
  assumes "f64_nonneg x" and "0 \<le> m" "m \<le> 2 ^ 53"
  shows "0 \<le> eb_result impl m x" and "eb_result impl m x \<le> m"
    and "\<not> f64_less (f64_of_int m) x \<Longrightarrow> \<exists>v. x = Fin v \<and> 0 \<le> v \<and> eb_result impl m x = rat_trunc v"
proof -
  have m: "f64_of_int m = Fin (of_int m)" using assms by (simp add: f64_of_int_exact)
  have fin: "\<exists>v. x = Fin v \<and> 0 \<le> v \<and> v \<le> of_int m \<and> eb_result impl m x = rat_trunc v"
    if le: "\<not> f64_less (f64_of_int m) x"
  proof -
    obtain v where v: "x = Fin v" "0 \<le> v" "v \<le> of_int m"
      using assms(1) le m by (cases x) auto
    then have "0 \<le> rat_trunc v" "rat_trunc v \<le> m" using rat_trunc_bounds by auto
    with v le assms(3) show ?thesis by (simp add: eb_result_def min_int64_def max_int64_def)
  qed
  then show "\<not> f64_less (f64_of_int m) x \<Longrightarrow> \<exists>v. x = Fin v \<and> 0 \<le> v \<and> eb_result impl m x = rat_trunc v"
    by blast
  show "0 \<le> eb_result impl m x" and "eb_result impl m x \<le> m"
    using fin rat_trunc_bounds assms(2) by (cases "f64_less (f64_of_int m) x"; fastforce simp: eb_result_def)+
qed

lemma eb_result_int:
  "0 \<le> w \<Longrightarrow> w \<le> m \<Longrightarrow> m < 2 ^ 53 \<Longrightarrow> eb_result impl m (Fin (of_int w)) = w"
  by (simp add: eb_result_def f64_of_int_exact rat_trunc_def min_int64_def max_int64_def)

lemma eb_result_mono:
  assumes "f64_nonneg x" "f64_nonneg y" "f64_le x y" and "0 \<le> m" "m \<le> 2 ^ 53"
  shows "eb_result impl m x \<le> eb_result impl m y"
proof (cases "f64_less (f64_of_int m) y")
  case True
  then show ?thesis using eb_result_bounds(2) [OF assms(1,4,5)] by (simp add: eb_result_def)
next
  case False
  moreover have "f64_nonneg (f64_of_int m)" using assms by (simp add: f64_of_int_exact)
  ultimately have "\<not> f64_less (f64_of_int m) x" using f64_less_le_trans [OF _ assms(3)] by blast
  then obtain u v where "x = Fin u" "eb_result impl m x = rat_trunc u" "0 \<le> u"
      "y = Fin v" "eb_result impl m y = rat_trunc v" "0 \<le> v"
    using eb_result_bounds(3) [OF assms(1,4,5), of impl] eb_result_bounds(3) [OF assms(2,4,5), of impl] False by blast
  with assms(3) show ?thesis by (simp add: rat_trunc_def floor_mono)
qed

lemma eb_NextBackoff_result:
  "0 < k \<Longrightarrow> eb_NextBackoff impl eb k =
     eb_result impl (eb_MaxBackoff eb) (eb_value (eb_Factor eb) (nat (k - 1)) (f64_of_int (eb_InitialBackoff eb)))"
  by (simp add: eb_NextBackoff_def eb_result_def eb_loop_value)

lemma eb_first: "eb_valid eb \<Longrightarrow> eb_NextBackoff impl eb 1 = eb_InitialBackoff eb"
  by (erule eb_validE)
    (simp add: eb_NextBackoff_def f64_of_int_exact rat_trunc_def min_int64_def max_int64_def)

interpretation exponential: backoff_strategy "eb_NextBackoff impl" eb_MaxRetries eb_valid eb_MaxBackoff
  for impl
proof unfold_locales
  fix eb k k'
  assume "eb_valid eb"
  then obtain q where q: "eb_Factor eb = Fin q" "1 \<le> q" "0 \<le> eb_InitialBackoff eb"
    "eb_InitialBackoff eb \<le> eb_MaxBackoff eb" "eb_MaxBackoff eb \<le> 2 ^ 53" by (rule eb_validE)
  note step = eb_value_step [of "eb_InitialBackoff eb" q] and mono = eb_value_mono [of "eb_InitialBackoff eb" q]
  show "0 \<le> eb_NextBackoff impl eb k" and "eb_NextBackoff impl eb k \<le> eb_MaxBackoff eb"
    using q step eb_result_bounds
    by (cases "0 < k"; simp add: eb_NextBackoff_result; simp add: eb_NextBackoff_def)+
  assume le: "k \<le> k'"
  have "eb_NextBackoff impl eb j \<le> eb_NextBackoff impl eb j'" if "0 < j" "j \<le> j'" for j j'
    using that q step by (auto simp: eb_NextBackoff_result intro!: eb_result_mono mono)
  moreover from this [of 1 k'] have "eb_NextBackoff impl eb k \<le> eb_NextBackoff impl eb k'" if "k \<le> 0" "0 < k'"
    using that eb_first [OF \<open>eb_valid eb\<close>] by (simp add: eb_NextBackoff_def [of _ _ k])
  ultimately show "eb_NextBackoff impl eb k \<le> eb_NextBackoff impl eb k'"
    using le by (cases "0 < k"; cases "0 < k'") (auto simp: eb_NextBackoff_def)
qed

interpretation fixed: backoff_strategy fb_NextBackoff fb_MaxRetries "\<lambda>fb. 0 \<le> fb_Backoff fb" fb_Backoff
  by unfold_locales (simp_all add: fb_NextBackoff_def)

fun backoff_valid :: "BackoffStrategy \<Rightarrow> bool" where
  "backoff_valid (Exponential eb) = eb_valid eb"
| "backoff_valid (Fixed fb) = (0 \<le> fb_Backoff fb)"

fun strategy_cap :: "BackoffStrategy \<Rightarrow> duration" where
  "strategy_cap (Exponential eb) = eb_MaxBackoff eb"
| "strategy_cap (Fixed fb) = fb_Backoff fb"

interpretation strategy: backoff_strategy "NextBackoff impl" MaxRetries backoff_valid strategy_cap for impl
proof unfold_locales
  fix b k k'
  assume v: "backoff_valid b"
  show "0 \<le> NextBackoff impl b k" and "NextBackoff impl b k \<le> strategy_cap b"
    and "k \<le> k' \<Longrightarrow> NextBackoff impl b k \<le> NextBackoff impl b k'"
    using v exponential.backoff_nonneg exponential.backoff_cap exponential.backoff_mono
      fixed.backoff_nonneg fixed.backoff_cap fixed.backoff_mono
    by (cases b; simp)+
qed

section \<open>Properties\<close>

text \<open>With an integral factor the loop is exact up to the cap, and stays above it after.\<close>

lemma eb_value_exact:
  assumes "0 \<le> n" "n \<le> m" and "m < 2 ^ 53" and "1 \<le> f"
  shows "if n * f ^ k \<le> m then eb_value (Fin (of_int f)) k (f64_of_int n) = Fin (of_int (n * f ^ k))
    else f64_le (Fin (of_int (m + 1))) (eb_value (Fin (of_int f)) k (f64_of_int n))"
proof (induction k)
  case 0
  then show ?case using assms by (simp add: eb_value_def f64_of_int_exact)
next
  case (Suc k)
  let ?x = "eb_value (Fin (of_int f)) k (f64_of_int n)"
  have grow: "n * f ^ k \<le> n * f ^ Suc k"
    using assms(1,4) by (intro mult_left_mono power_increasing) auto
  have pos: "0 \<le> n * f ^ Suc k" using assms(1,4) by simp
  have step: "f64_le ?x (eb_value (Fin (of_int f)) (Suc k) (f64_of_int n))"
    using eb_value_step [of n "of_int f" k] assms by simp
  have val: "eb_value (Fin (of_int f)) (Suc k) (f64_of_int n) = round64 (of_int (n * f ^ Suc k))"
    if "n * f ^ k \<le> m"
    using Suc that by (simp add: eb_value_Suc algebra_simps)
  show ?case
  proof (cases "n * f ^ Suc k \<le> m")
    case True
    then have "round64 (of_int (n * f ^ Suc k)) = Fin (of_int (n * f ^ Suc k))"
      using pos assms(3) by (intro round64_int) linarith
    with True grow val show ?thesis by simp
  next
    case big: False
    show ?thesis
    proof (cases "n * f ^ k \<le> m")
      case True
      have "round64 (of_int (m + 1)) = Fin (of_int (m + 1))"
        using assms(1-3) by (intro round64_int) linarith
      moreover have "(of_int (m + 1) :: rat) \<le> of_int (n * f ^ Suc k)"
        unfolding of_int_le_iff using big by linarith
      then have "f64_le (round64 (of_int (m + 1))) (round64 (of_int (n * f ^ Suc k)))"
        using assms(1,2) by (intro round64_le) simp_all
      ultimately show ?thesis using val [OF True] big by (simp del: power_Suc)
    next
      case False
      then show ?thesis using Suc step big f64_le_trans [OF _ step] by (simp del: power_Suc)
    qed
  qed
qed

text \<open>
  Every retry delay of a valid strategy is between 0 and the strategy's
  cap and no shorter than the delay before it, and all the delays of a message together are
  at most the number of retries times the cap. Exponential delays are computed in binary64
  and truncated; none of this depends on rounding or on out-of-range conversions.
\<close>

theorem backoff_bounds:
  assumes "backoff_valid b" and "k \<le> k'"
  shows "0 \<le> NextBackoff impl b k \<and> NextBackoff impl b k \<le> NextBackoff impl b k' \<and>
    NextBackoff impl b k' \<le> strategy_cap b \<and>
    sum_list (map (\<lambda>i. NextBackoff impl b (int i)) [1..<Suc (nat (MaxRetries b))])
      \<le> int (nat (MaxRetries b)) * strategy_cap b"
  using strategy.backoff_nonneg [OF assms(1)] strategy.backoff_mono [OF assms] strategy.backoff_cap [OF assms(1)]
    strategy.total_backoff_bound(2) [OF assms(1)]
  by (simp add: strategy.total_backoff_def del: upt_Suc)

definition sample_backoff :: ExponentialBackoff where
  "sample_backoff = NewExponentialBackoff second (minute) (Fin 2) 5"

theorem backoff_bounds_witness:
  "NextBackoff (\<lambda>_. 0) (Exponential sample_backoff) 7 \<le> minute"
  using backoff_bounds [of "Exponential sample_backoff" 1 7 "\<lambda>_. 0"]
  by (simp add: sample_backoff_def NewExponentialBackoff_def eb_valid_def)

text \<open>
  C26 (exponential backoff). With an integral factor and a cap below \<open>2 ^ 53\<close> nanoseconds, the
  delay before retry \<open>k \<ge> 1\<close> is exactly the initial delay times the factor to the power
  \<open>k - 1\<close>, or the cap when that is smaller: the floating-point loop, its overflow included,
  computes the mathematical function.
\<close>

theorem exponential_backoff_exact:
  assumes "0 \<le> initial" "initial \<le> maxb" "maxb < 2 ^ 53" and "1 \<le> f" and "1 \<le> k"
  shows "eb_NextBackoff impl (NewExponentialBackoff initial maxb (Fin (of_int f)) retries) k =
    min maxb (initial * f ^ nat (k - 1))"
proof -
  let ?x = "eb_value (Fin (of_int f)) (nat (k - 1)) (f64_of_int initial)"
  let ?v = "initial * f ^ nat (k - 1)"
  have "eb_NextBackoff impl (NewExponentialBackoff initial maxb (Fin (of_int f)) retries) k = eb_result impl maxb ?x"
    using assms(5) by (simp add: eb_NextBackoff_result NewExponentialBackoff_def)
  also have "\<dots> = min maxb ?v"
  proof (cases "?v \<le> maxb")
    case True
    then have x: "?x = Fin (of_int ?v)" using eb_value_exact [OF assms(1-4), of "nat (k - 1)"] by simp
    have "0 \<le> ?v" using assms by simp
    show ?thesis
      unfolding x using eb_result_int [OF \<open>0 \<le> ?v\<close> True assms(3)] True by (simp only: min.absorb2)
  next
    case False
    then have le: "f64_le (Fin (of_int (maxb + 1))) ?x" using eb_value_exact [OF assms(1-4), of "nat (k - 1)"] by simp
    have "f64_less (f64_of_int maxb) (Fin (of_int (maxb + 1)))"
      using assms by (simp add: f64_of_int_exact)
    moreover have "f64_nonneg (f64_of_int maxb)" using assms by (simp add: f64_of_int_exact)
    ultimately have "f64_less (f64_of_int maxb) ?x" using f64_less_le_trans le by blast
    with False show ?thesis by (simp add: eb_result_def)
  qed
  finally show ?thesis .
qed

theorem exponential_backoff_exact_witness:
  "eb_NextBackoff (\<lambda>_. 0) (NewExponentialBackoff second minute (Fin 2) 5) 4 = 8 * second"
  using exponential_backoff_exact [of second minute 2 4 "\<lambda>_. 0" 5] by simp

end
