(* ===== verification/Worker.thy ===== *)
theory Worker
  imports ManagerRuns Backoff
begin

text \<open>
  \<^verbatim>\<open>internal/priorityqueue/worker.go\<close>: what a goroutine of a \<^verbatim>\<open>Worker\<close> does with one message:
  it runs the client's \<^verbatim>\<open>ProcessFunc\<close>, completes the message on success and on failure pushes
  it back or gives it up. The loop that pops the batches and spawns the goroutines is in
  WorkerLifecycle.

  The process function is an argument: it returns an error or not and may write to messages.
  The context passed to it is not modelled.
\<close>

section \<open>State and operations\<close>

record WorkerMetrics =
  wm_ProcessedCount :: int
  wm_SuccessCount :: int
  wm_FailureCount :: int
  wm_RetryCount :: int
  wm_TotalProcessTime :: duration
  wm_LastProcessTime :: duration

record WorkerConfig =
  wc_ID :: string
  wc_QueueName :: string
  wc_MaxBatchSize :: int
  wc_ProcessInterval :: duration
  wc_MaxConcurrent :: int
  wc_BackoffStrategy :: BackoffStrategy

record Worker =
  w_ID :: string
  w_queueName :: string
  w_maxBatchSize :: int
  w_processInterval :: duration
  w_maxConcurrent :: int
  w_backoffStrategy :: BackoffStrategy
  w_metrics :: WorkerMetrics

text \<open>A negative \<^verbatim>\<open>MaxConcurrent\<close> is a panic: the size of a channel.\<close>

definition NewWorker :: "WorkerConfig \<Rightarrow> Worker option" where
  "NewWorker config =
     (if wc_MaxConcurrent config < 0 then None
      else Some \<lparr>w_ID = wc_ID config, w_queueName = wc_QueueName config,
        w_maxBatchSize = wc_MaxBatchSize config, w_processInterval = wc_ProcessInterval config,
        w_maxConcurrent = wc_MaxConcurrent config, w_backoffStrategy = wc_BackoffStrategy config,
        w_metrics = \<lparr>wm_ProcessedCount = 0, wm_SuccessCount = 0, wm_FailureCount = 0,
          wm_RetryCount = 0, wm_TotalProcessTime = 0, wm_LastProcessTime = 0\<rparr>\<rparr>)"

definition worker_GetMetrics :: "Worker \<Rightarrow> WorkerMetrics" where
  "worker_GetMetrics w = w_metrics w"

definition worker_updateMetrics :: "bool \<Rightarrow> duration \<Rightarrow> Worker \<Rightarrow> Worker" where
  "worker_updateMetrics failed processingTime w =
     (let m = w_metrics w;
          m1 = m\<lparr>wm_ProcessedCount := wm_ProcessedCount m + 1,
                 wm_TotalProcessTime := wrap64 (wm_TotalProcessTime m + processingTime),
                 wm_LastProcessTime := processingTime\<rparr>
      in w\<lparr>w_metrics := if failed then m1\<lparr>wm_FailureCount := wm_FailureCount m1 + 1\<rparr>
                       else m1\<lparr>wm_SuccessCount := wm_SuccessCount m1 + 1\<rparr>\<rparr>)"

text \<open>The readings of the clock while one message is processed, in call order.\<close>

record worker_times =
  wt_start :: go_time
  wt_end :: go_time
  wt_retry :: go_time
  wt_push :: "go_time \<times> go_time"
  wt_mark :: go_time

definition worker_handleSuccess ::
    "worker_times \<Rightarrow> mref \<Rightarrow> duration \<Rightarrow> Worker \<Rightarrow> qm_state \<Rightarrow> qm_state" where
  "worker_handleSuccess t r processingTime w s =
     (qm_CompleteMessage (wt_mark t) (w_queueName w) processingTime (fst s), snd s)"

text \<open>The error of the push is not looked at.\<close>

definition worker_handleFailure ::
    "(float64 \<Rightarrow> int) \<Rightarrow> worker_times \<Rightarrow> mref \<Rightarrow> Worker \<Rightarrow> qm_state \<Rightarrow> qm_state" where
  "worker_handleFailure impl t r w s =
     (case s of (qm, st) \<Rightarrow>
        if m_RetryCount (st r) < MaxRetries (w_backoffStrategy w)
        then let m1 = (st r)\<lparr>m_RetryCount := m_RetryCount (st r) + 1\<rparr>;
                 backoff = NextBackoff impl (w_backoffStrategy w) (m_RetryCount m1);
                 nextRetry = time_add (wt_retry t) backoff;
                 m2 = m1\<lparr>m_ScheduledAt := Some nextRetry\<rparr>
             in snd (qm_PushMessage (wt_push t) (w_queueName w) r (qm, st(r := m2)))
        else (qm_FailMessage (wt_mark t) (w_queueName w) qm, st))"

type_synonym process_fun = "mref \<Rightarrow> mstore \<Rightarrow> string option \<times> mstore"

definition worker_processMessage ::
    "(float64 \<Rightarrow> int) \<Rightarrow> process_fun \<Rightarrow> worker_times \<Rightarrow> mref \<Rightarrow> Worker \<times> qm_state \<Rightarrow> Worker \<times> qm_state" where
  "worker_processMessage impl processFunc t r ws =
     (case ws of (w, (qm, st)) \<Rightarrow>
        let (err, st1) = processFunc r st;
            processingTime = time_sub (wt_end t) (wt_start t);
            w1 = worker_updateMetrics (err \<noteq> None) processingTime w
        in (w1, if err \<noteq> None then worker_handleFailure impl t r w1 (qm, st1)
                else worker_handleSuccess t r processingTime w1 (qm, st1)))"

section \<open>What processing one message changes\<close>

lemma qm_mark_effect:
  assumes "qm_inv qm"
  shows "qm_waiting (qm_CompleteMessage t n d qm) = qm_waiting qm" "qm_inv (qm_CompleteMessage t n d qm)"
    and "qm_waiting (qm_FailMessage t n qm) = qm_waiting qm" "qm_inv (qm_FailMessage t n qm)"
proof -
  show "qm_inv (qm_CompleteMessage t n d qm)" "qm_inv (qm_FailMessage t n qm)"
    using qm_sync_Complete [OF assms] qm_sync_Fail [OF assms] by (simp_all add: qm_sync_def)
  show "qm_waiting (qm_CompleteMessage t n d qm) = qm_waiting qm" "qm_waiting (qm_FailMessage t n qm) = qm_waiting qm"
    using mlq_mark_only(2) [OF qm_inv_lookup [OF assms] disjI1 [OF refl], of n]
      mlq_mark_only(2) [OF qm_inv_lookup [OF assms] disjI2 [OF refl], of n] qm_waiting_frame
    by (auto simp: qm_CompleteMessage_def qm_FailMessage_def qm_waiting_set split: option.split)
qed

lemma worker_updateMetrics_frame [simp]:
  "w_queueName (worker_updateMetrics b d w) = w_queueName w"
  "w_backoffStrategy (worker_updateMetrics b d w) = w_backoffStrategy w"
  "w_maxBatchSize (worker_updateMetrics b d w) = w_maxBatchSize w"
  "w_maxConcurrent (worker_updateMetrics b d w) = w_maxConcurrent w"
  by (simp_all add: worker_updateMetrics_def Let_def)

text \<open>How often a message can still be processed before it is given up.\<close>

definition attempts_left :: "BackoffStrategy \<Rightarrow> message \<Rightarrow> nat" where
  "attempts_left b m = nat (MaxRetries b - m_RetryCount m) + 1"

definition total_attempts :: "BackoffStrategy \<Rightarrow> mstore \<Rightarrow> mref multiset \<Rightarrow> nat" where
  "total_attempts b st rs = sum_mset (image_mset (\<lambda>r. attempts_left b (st r)) rs)"

text \<open>The process function leaves the retry counts alone.\<close>

definition keeps_retries :: "process_fun \<Rightarrow> bool" where
  "keeps_retries f \<longleftrightarrow> (\<forall>r st r'. m_RetryCount (snd (f r st) r') = m_RetryCount (st r'))"

lemma total_attempts_mono:
  "(\<And>r. r \<in># rs \<Longrightarrow> attempts_left b (st' r) \<le> attempts_left b (st r)) \<Longrightarrow>
   total_attempts b st' rs \<le> total_attempts b st rs"
  unfolding total_attempts_def by (rule sum_mset_mono) simp

lemma attempts_left_priority: "attempts_left b (m\<lparr>m_Priority := p\<rparr>) = attempts_left b m"
  by (simp add: attempts_left_def)

lemma push_attempts:
  "attempts_left b (snd (snd (qm_PushMessage ts n r (qm, st))) r') = attempts_left b (st r')"
proof (cases "r' = r")
  case True
  then show ?thesis using qm_sink.push_store [of ts n r qm st] attempts_left_priority by auto
next
  case False
  then show ?thesis using qm_sink.push_store_other [of r' r ts n qm st] by simp
qed

text \<open>
  A message that is processed is either gone from the queue for good or back in it with
  fewer attempts left.
\<close>

lemma worker_processMessage_effect:
  assumes inv: "qm_inv qm" and keeps: "keeps_retries f"
    and run: "worker_processMessage impl f t r (w, (qm, st)) = (w', (qm', st'))"
  shows "qm_inv qm'" and "w_queueName w' = w_queueName w" and "w_backoffStrategy w' = w_backoffStrategy w"
    and "w_maxBatchSize w' = w_maxBatchSize w" and "w_maxConcurrent w' = w_maxConcurrent w"
    and "\<And>r'. attempts_left (w_backoffStrategy w) (st' r') \<le> attempts_left (w_backoffStrategy w) (st r')"
    and "total_attempts (w_backoffStrategy w) st' (qm_waiting qm' (w_queueName w)) <
      attempts_left (w_backoffStrategy w) (st r) + total_attempts (w_backoffStrategy w) st (qm_waiting qm (w_queueName w))"
proof -
  let ?b = "w_backoffStrategy w" and ?n = "w_queueName w"
  obtain err st1 where f: "f r st = (err, st1)" by force
  have st1: "attempts_left ?b (st1 r') = attempts_left ?b (st r')" for r'
    using keeps f unfolding keeps_retries_def attempts_left_def by (metis snd_conv)
  have fixed: "w' = worker_updateMetrics (err \<noteq> None) (time_sub (wt_end t) (wt_start t)) w"
    using run by (simp add: worker_processMessage_def f Let_def)
  then show "w_queueName w' = ?n" "w_backoffStrategy w' = ?b" "w_maxBatchSize w' = w_maxBatchSize w"
    "w_maxConcurrent w' = w_maxConcurrent w" by simp_all
  have gone: "qm_inv qm' \<and> (\<forall>r'. attempts_left ?b (st' r') \<le> attempts_left ?b (st r')) \<and>
      total_attempts ?b st' (qm_waiting qm' ?n) < attempts_left ?b (st r) + total_attempts ?b st (qm_waiting qm ?n)"
    if "qm_inv qm'" "qm_waiting qm' ?n = qm_waiting qm ?n" "st' = st1"
    using that st1 total_attempts_mono [of "qm_waiting qm ?n" ?b st1 st]
    by (simp add: attempts_left_def le_imp_less_Suc trans_le_add2)
  have "qm_inv qm' \<and> (\<forall>r'. attempts_left ?b (st' r') \<le> attempts_left ?b (st r')) \<and>
      total_attempts ?b st' (qm_waiting qm' ?n) < attempts_left ?b (st r) + total_attempts ?b st (qm_waiting qm ?n)"
  proof (cases "err \<noteq> None \<and> m_RetryCount (st1 r) < MaxRetries ?b")
    case False
    have "(qm', st') = (qm_CompleteMessage (wt_mark t) ?n (time_sub (wt_end t) (wt_start t)) qm, st1) \<or>
        (qm', st') = (qm_FailMessage (wt_mark t) ?n qm, st1)"
      using run False
      by (cases err) (simp_all add: worker_processMessage_def f worker_handleSuccess_def worker_handleFailure_def Let_def)
    then show ?thesis
    proof
      assume "(qm', st') = (qm_CompleteMessage (wt_mark t) ?n (time_sub (wt_end t) (wt_start t)) qm, st1)"
      then show ?thesis by (intro gone) (simp_all add: qm_mark_effect [OF inv])
    next
      assume "(qm', st') = (qm_FailMessage (wt_mark t) ?n qm, st1)"
      then show ?thesis by (intro gone) (simp_all add: qm_mark_effect [OF inv])
    qed
  next
    case True
    define st2 where "st2 = st1(r := (st1 r)\<lparr>m_RetryCount := m_RetryCount (st1 r) + 1,
      m_ScheduledAt := Some (time_add (wt_retry t) (NextBackoff impl ?b (m_RetryCount (st1 r) + 1)))\<rparr>)"
    have push: "(qm', st') = snd (qm_PushMessage (wt_push t) ?n r (qm, st2))"
      using run True by (auto simp: worker_processMessage_def f worker_handleFailure_def Let_def st2_def)
    have st2: "attempts_left ?b (st2 r') \<le> attempts_left ?b (st r')" for r'
      using st1 [of r'] by (auto simp: st2_def attempts_left_def)
    have r: "attempts_left ?b (st2 r) < attempts_left ?b (st r)"
      using st1 [of r] True by (auto simp: st2_def attempts_left_def)
    have st': "attempts_left ?b (st' r') = attempts_left ?b (st2 r')" for r'
      using push_attempts [of ?b "wt_push t" ?n r qm st2 r'] by (simp add: push [symmetric])
    have le: "total_attempts ?b st' rs \<le> total_attempts ?b st rs" for rs
      using st' st2 by (intro total_attempts_mono) simp
    from inv show ?thesis
    proof (cases rule: qm_sink.push_cases [where ts = "wt_push t" and n = ?n and r = r and st = st2])
      case (delivered s' st'')
      then have "qm_inv qm'" "qm_waiting qm' ?n = add_mset r (qm_waiting qm ?n)" using push by simp_all
      moreover have "total_attempts ?b st' (add_mset r (qm_waiting qm ?n)) =
          attempts_left ?b (st' r) + total_attempts ?b st' (qm_waiting qm ?n)"
        by (simp add: total_attempts_def)
      moreover have "attempts_left ?b (st' r) < attempts_left ?b (st r)" using r st' by simp
      ultimately show ?thesis using le [of "qm_waiting qm ?n"] st' st2 by simp
    next
      case (rejected e s' st'')
      then have "qm_inv qm'" "qm_waiting qm' ?n = qm_waiting qm ?n" using push by simp_all
      then show ?thesis using le [of "qm_waiting qm ?n"] st' st2
        by (simp add: attempts_left_def le_imp_less_Suc trans_le_add2)
    qed
  qed
  then show "qm_inv qm'" and "\<And>r'. attempts_left ?b (st' r') \<le> attempts_left ?b (st r')"
    and "total_attempts ?b st' (qm_waiting qm' ?n) < attempts_left ?b (st r) + total_attempts ?b st (qm_waiting qm ?n)"
    by auto
qed

lemma total_attempts_plus:
  "total_attempts b st (xs + ys) = total_attempts b st xs + total_attempts b st ys"
  by (simp add: total_attempts_def)

lemma qm_PushMessage_dom: "dom (qm_queues (fst (snd (qm_PushMessage ts n r s)))) = dom (qm_queues (fst s))"
  by (cases s) (auto simp: qm_PushMessage_def Let_def split: option.splits prod.splits)

lemma worker_processMessage_dom:
  "dom (qm_queues (fst (snd (worker_processMessage impl f t r ws)))) = dom (qm_queues (fst (snd ws)))"
proof -
  obtain w qm st where ws: "ws = (w, (qm, st))" by (metis prod.exhaust)
  show ?thesis
    by (auto simp: ws worker_processMessage_def Let_def worker_handleSuccess_def worker_handleFailure_def
        qm_PushMessage_dom qm_CompleteMessage_def qm_FailMessage_def split: prod.splits option.splits)
qed

section \<open>Counters\<close>

lemma qm_stat_set:
  "qm_stat f n (qm_emit evs (qm_set_queue n q qm)) = mlq_stat f n q"
  by (simp add: qm_stat_def)

lemma qm_stat_push:
  assumes "qm_inv qm"
  shows "qm_stat qs_PendingCount n (fst (snd (qm_PushMessage ts n r (qm, st)))) =
      qm_stat qs_PendingCount n qm + (if fst (qm_PushMessage ts n r (qm, st)) = None then 1 else 0)"
    and "qm_stat qs_ProcessingCount n (fst (snd (qm_PushMessage ts n r (qm, st)))) = qm_stat qs_ProcessingCount n qm"
proof -
  have "qm_stat qs_PendingCount n (fst (snd (qm_PushMessage ts n r (qm, st)))) =
      qm_stat qs_PendingCount n qm + (if fst (qm_PushMessage ts n r (qm, st)) = None then 1 else 0) \<and>
    qm_stat qs_ProcessingCount n (fst (snd (qm_PushMessage ts n r (qm, st)))) = qm_stat qs_ProcessingCount n qm"
  proof (cases "qm_queues qm n")
    case (Some q)
    obtain res q' where p: "mlq_Push n r (m_Priority (qm_apply_rules qm r st r)) (fst ts) (snd ts) q = (res, q')" by force
    note o = mlq_Push_only(3,4) [OF qm_inv_lookup [OF assms Some] p]
    have "qm_stat g n qm = mlq_stat g n q" for g by (simp add: qm_stat_def Some)
    with o show ?thesis
      using qm_stat_set [of _ n "[]" q' qm] qm_stat_set [of _ n _ q' qm]
      by (cases res) (simp_all add: qm_PushMessage_def Some Let_def p)
  qed (simp add: qm_PushMessage_def)
  then show "qm_stat qs_PendingCount n (fst (snd (qm_PushMessage ts n r (qm, st)))) =
      qm_stat qs_PendingCount n qm + (if fst (qm_PushMessage ts n r (qm, st)) = None then 1 else 0)"
    and "qm_stat qs_ProcessingCount n (fst (snd (qm_PushMessage ts n r (qm, st)))) = qm_stat qs_ProcessingCount n qm"
    by blast+
qed

lemma qm_stat_mark:
  assumes "qm_inv qm" and "qm_queues qm n = Some q"
  shows "qm_stat qs_PendingCount n (qm_CompleteMessage t n d qm) = qm_stat qs_PendingCount n qm"
    "qm_stat qs_ProcessingCount n (qm_CompleteMessage t n d qm) = qm_stat qs_ProcessingCount n qm - 1"
    and "qm_stat qs_PendingCount n (qm_FailMessage t n qm) = qm_stat qs_PendingCount n qm"
    "qm_stat qs_ProcessingCount n (qm_FailMessage t n qm) = qm_stat qs_ProcessingCount n qm - 1"
proof -
  have q: "qm_stat g n qm = mlq_stat g n q" for g by (simp add: qm_stat_def assms(2))
  note c = mlq_mark_only(3,4) [OF qm_inv_lookup [OF assms] disjI1 [OF refl], of t]
    and d = mlq_mark_only(3,4) [OF qm_inv_lookup [OF assms] disjI2 [OF refl], of t]
  show "qm_stat qs_PendingCount n (qm_CompleteMessage t n d qm) = qm_stat qs_PendingCount n qm"
    "qm_stat qs_ProcessingCount n (qm_CompleteMessage t n d qm) = qm_stat qs_ProcessingCount n qm - 1"
    by (simp_all add: qm_CompleteMessage_def assms(2) qm_stat_set q c)
  show "qm_stat qs_PendingCount n (qm_FailMessage t n qm) = qm_stat qs_PendingCount n qm"
    "qm_stat qs_ProcessingCount n (qm_FailMessage t n qm) = qm_stat qs_ProcessingCount n qm - 1"
    by (simp_all add: qm_FailMessage_def assms(2) qm_stat_set q d)
qed

section \<open>Properties\<close>

definition sample_worker :: Worker where
  "sample_worker = the (NewWorker \<lparr>wc_ID = ''w'', wc_QueueName = ''q'', wc_MaxBatchSize = 2,
     wc_ProcessInterval = millisecond, wc_MaxConcurrent = 1,
     wc_BackoffStrategy = Fixed (NewFixedBackoff second 3)\<rparr>)"

definition always_fails :: process_fun where
  "always_fails r st = (Some ''error'', st)"

definition sample_times :: worker_times where
  "sample_times = \<lparr>wt_start = 10, wt_end = 11, wt_retry = 12, wt_push = (13, 13), wt_mark = 14\<rparr>"

text \<open>
  A message processed to success or given up leaves the processing
  count of its queue; a retried one returns to the pending count when the queue has room but
  stays in the processing count too, and when the queue is full it is in neither queue nor
  counter: the message is gone and the processing count keeps it for ever.
\<close>

theorem worker_retry_counters:
  assumes "qm_inv qm" and "qm_queues qm (w_queueName w) = Some q"
    and "f r st = (err, st1)"
    and "worker_processMessage impl f t r (w, (qm, st)) = (w', (qm', st'))"
  shows "if err = None \<or> MaxRetries (w_backoffStrategy w) \<le> m_RetryCount (st1 r)
    then qm_stat qs_PendingCount (w_queueName w) qm' = qm_stat qs_PendingCount (w_queueName w) qm \<and>
      qm_stat qs_ProcessingCount (w_queueName w) qm' = qm_stat qs_ProcessingCount (w_queueName w) qm - 1
    else qm_stat qs_PendingCount (w_queueName w) qm' =
        qm_stat qs_PendingCount (w_queueName w) qm + (if mlq_space (w_queueName w) q = Some 0 then 0 else 1) \<and>
      qm_stat qs_ProcessingCount (w_queueName w) qm' = qm_stat qs_ProcessingCount (w_queueName w) qm"
proof (cases "err = None \<or> MaxRetries (w_backoffStrategy w) \<le> m_RetryCount (st1 r)")
  case True
  then have "qm' = qm_CompleteMessage (wt_mark t) (w_queueName w) (time_sub (wt_end t) (wt_start t)) qm \<or>
      qm' = qm_FailMessage (wt_mark t) (w_queueName w) qm"
    using assms(3,4)
    by (cases err) (simp_all add: worker_processMessage_def worker_handleSuccess_def worker_handleFailure_def Let_def)
  then show ?thesis using True qm_stat_mark [OF assms(1,2)] by auto
next
  case False
  let ?n = "w_queueName w"
  have "\<exists>st2. (qm', st') = snd (qm_PushMessage (wt_push t) ?n r (qm, st2))"
    using assms(3,4) False
    by (auto simp: worker_processMessage_def worker_handleFailure_def Let_def) (metis (no_types))
  then obtain st2 where push: "(qm', st') = snd (qm_PushMessage (wt_push t) ?n r (qm, st2))" by blast
  have "fst (qm_PushMessage (wt_push t) ?n r (qm, st2)) = None \<longleftrightarrow> mlq_space ?n q \<noteq> Some 0"
  proof -
    obtain res q' where p: "mlq_Push ?n r (m_Priority (qm_apply_rules qm r st2 r)) (fst (wt_push t)) (snd (wt_push t)) q = (res, q')"
      by force
    have "fst (qm_PushMessage (wt_push t) ?n r (qm, st2)) = res"
      by (cases res) (simp_all add: qm_PushMessage_def assms(2) Let_def p)
    then show ?thesis using mlq_Push_space(1) [OF qm_inv_lookup [OF assms(1,2)] p] by simp
  qed
  then show ?thesis
    using False qm_stat_push [OF assms(1), of ?n "wt_push t" r st2] by (simp add: push [symmetric])
qed

theorem worker_retry_counters_witness:
  "qm_stat qs_ProcessingCount ''q'' (fst (snd (worker_processMessage (\<lambda>_. 0) always_fails sample_times 0
     (sample_worker, sample_state)))) = qm_stat qs_ProcessingCount ''q'' (fst sample_state)"
proof -
  have w: "w_queueName sample_worker = ''q''" by (simp add: sample_worker_def NewWorker_def)
  obtain w' qm' st' where r: "worker_processMessage (\<lambda>_. 0) always_fails sample_times 0
      (sample_worker, (fst sample_state, snd sample_state)) = (w', (qm', st'))" by (metis prod.exhaust)
  have "\<not> MaxRetries (w_backoffStrategy sample_worker) \<le> m_RetryCount (snd sample_state 0)" by code_simp
  then have "qm_stat qs_ProcessingCount ''q'' qm' = qm_stat qs_ProcessingCount ''q'' (fst sample_state)"
    using worker_retry_counters [OF sample_inv _ _ r, unfolded w, OF sample_queue] by (simp add: always_fails_def)
  with r show ?thesis by simp
qed

end
