(* ===== verification/WorkerLifecycle.thy ===== *)
theory WorkerLifecycle
  imports Worker
begin

text \<open>
  The goroutines of a \<^verbatim>\<open>Worker\<close> (\<^verbatim>\<open>internal/priorityqueue/worker.go\<close>): \<^verbatim>\<open>Start\<close> spawns
  \<^verbatim>\<open>processLoop\<close>, whose ticks pop a batch and spawn a goroutine for each of its messages behind
  the semaphore, and \<^verbatim>\<open>Stop\<close> cancels the context and waits for all of them. A labelled step
  relation: \<open>ws_loops\<close> holds the local state of each loop, \<open>ws_running\<close> the messages whose
  goroutine runs, each with a place of the semaphore; the wait group counts both.
\<close>

section \<open>States and steps\<close>

text \<open>\<open>LSend\<close> is the loop over a batch, before it sends to the semaphore for the first of the messages left.\<close>

datatype loop_pc = LStarting | LSelect | LSend "mref list" | LEnded

record worker_sys =
  ws_worker :: Worker
  ws_queues :: qm_state
  ws_cancelled :: bool
  ws_loops :: "loop_pc list"
  ws_running :: "mref list"
  ws_stopping :: nat
  ws_panicked :: bool

definition ws_init :: "Worker \<Rightarrow> qm_state \<Rightarrow> worker_sys" where
  "ws_init w s = \<lparr>ws_worker = w, ws_queues = s, ws_cancelled = False, ws_loops = [], ws_running = [], ws_stopping = 0, ws_panicked = False\<rparr>"

datatype worker_event =
    WStart
  | WTicker nat
  | WTick nat "nat \<Rightarrow> go_time" "mref list"
  | WSpawn nat
  | WFinish nat worker_times mref
  | WExit nat
  | WStop
  | WStopped

text \<open>Back to the select when the batch is through.\<close>

definition after_send :: "mref list \<Rightarrow> loop_pc" where
  "after_send rs = (if rs = [] then LSelect else LSend rs)"

text \<open>
  \<^verbatim>\<open>NewTicker\<close> panics on an interval that is not positive, and a panic ends the program. A tick
  is also taken when the context is done, for the select chooses freely. A goroutine of a
  message processes it, frees its place and leaves the wait group in one step, for it shares
  with the others only what is behind the locks of the manager and of the metrics.
\<close>

inductive worker_step :: "(float64 \<Rightarrow> int) \<Rightarrow> process_fun \<Rightarrow> worker_event \<Rightarrow> worker_sys \<Rightarrow> worker_sys \<Rightarrow> bool"
  for impl f where
  start: "\<not> ws_panicked s \<Longrightarrow> worker_step impl f WStart s (s\<lparr>ws_loops := ws_loops s @ [LStarting]\<rparr>)"
| ticker: "\<not> ws_panicked s \<Longrightarrow> i < length (ws_loops s) \<Longrightarrow> ws_loops s ! i = LStarting \<Longrightarrow> 0 < w_processInterval (ws_worker s) \<Longrightarrow>
    worker_step impl f (WTicker i) s (s\<lparr>ws_loops := (ws_loops s)[i := LSelect]\<rparr>)"
| ticker_panic: "\<not> ws_panicked s \<Longrightarrow> i < length (ws_loops s) \<Longrightarrow> ws_loops s ! i = LStarting \<Longrightarrow> w_processInterval (ws_worker s) \<le> 0 \<Longrightarrow>
    worker_step impl f (WTicker i) s (s\<lparr>ws_panicked := True\<rparr>)"
| tick: "\<not> ws_panicked s \<Longrightarrow> i < length (ws_loops s) \<Longrightarrow> ws_loops s ! i = LSelect \<Longrightarrow>
    qm_BatchPopMessages nows (w_queueName (ws_worker s)) (w_maxBatchSize (ws_worker s)) (ws_queues s) = Some (res, qs) \<Longrightarrow>
    rs = (case res of Inl err \<Rightarrow> [] | Inr messages \<Rightarrow> messages) \<Longrightarrow>
    worker_step impl f (WTick i nows rs) s (s\<lparr>ws_queues := qs, ws_loops := (ws_loops s)[i := after_send rs]\<rparr>)"
| tick_panic: "\<not> ws_panicked s \<Longrightarrow> i < length (ws_loops s) \<Longrightarrow> ws_loops s ! i = LSelect \<Longrightarrow>
    qm_BatchPopMessages nows (w_queueName (ws_worker s)) (w_maxBatchSize (ws_worker s)) (ws_queues s) = None \<Longrightarrow>
    worker_step impl f (WTick i nows []) s (s\<lparr>ws_panicked := True\<rparr>)"
| spawn: "\<not> ws_panicked s \<Longrightarrow> i < length (ws_loops s) \<Longrightarrow> ws_loops s ! i = LSend (r # rs) \<Longrightarrow>
    int (length (ws_running s)) < w_maxConcurrent (ws_worker s) \<Longrightarrow>
    worker_step impl f (WSpawn i) s (s\<lparr>ws_running := ws_running s @ [r], ws_loops := (ws_loops s)[i := after_send rs]\<rparr>)"
| finish: "\<not> ws_panicked s \<Longrightarrow> k < length (ws_running s) \<Longrightarrow> ws_running s ! k = r \<Longrightarrow>
    worker_processMessage impl f t r (ws_worker s, ws_queues s) = (w, qs) \<Longrightarrow>
    worker_step impl f (WFinish k t r) s (s\<lparr>ws_worker := w, ws_queues := qs, ws_running := remove_nth k (ws_running s)\<rparr>)"
| exit: "\<not> ws_panicked s \<Longrightarrow> i < length (ws_loops s) \<Longrightarrow> ws_loops s ! i = LSelect \<Longrightarrow> ws_cancelled s \<Longrightarrow>
    worker_step impl f (WExit i) s (s\<lparr>ws_loops := (ws_loops s)[i := LEnded]\<rparr>)"
| stop: "\<not> ws_panicked s \<Longrightarrow> worker_step impl f WStop s (s\<lparr>ws_cancelled := True, ws_stopping := ws_stopping s + 1\<rparr>)"
| stopped: "\<not> ws_panicked s \<Longrightarrow> 0 < ws_stopping s \<Longrightarrow> list_all (\<lambda>pc. pc = LEnded) (ws_loops s) \<Longrightarrow> ws_running s = [] \<Longrightarrow>
    worker_step impl f WStopped s (s\<lparr>ws_stopping := ws_stopping s - 1\<rparr>)"

inductive_cases worker_stepE: "worker_step impl f ev s s'"

inductive worker_run :: "(float64 \<Rightarrow> int) \<Rightarrow> process_fun \<Rightarrow> worker_sys \<Rightarrow> worker_event list \<Rightarrow> worker_sys \<Rightarrow> bool"
  for impl f where
  nil: "worker_run impl f s [] s"
| snoc: "worker_run impl f s evs s1 \<Longrightarrow> worker_step impl f ev s1 s2 \<Longrightarrow> worker_run impl f s (evs @ [ev]) s2"

lemma worker_run_append:
  "worker_run impl f s1 evs' s2 \<Longrightarrow> worker_run impl f s evs s1 \<Longrightarrow> worker_run impl f s (evs @ evs') s2"
  by (induction rule: worker_run.induct) (auto simp: append_assoc [symmetric] intro: worker_run.snoc simp del: append_assoc)

lemma worker_run_single: "worker_step impl f ev s s' \<Longrightarrow> worker_run impl f s [ev] s'"
  using worker_run.snoc [OF worker_run.nil] by fastforce

lemma worker_run_Cons: "worker_step impl f ev s s1 \<Longrightarrow> worker_run impl f s1 evs s2 \<Longrightarrow> worker_run impl f s (ev # evs) s2"
  using worker_run_append [OF _ worker_run_single] by fastforce

section \<open>The messages of a run\<close>

fun popped :: "worker_event list \<Rightarrow> mref multiset" where
  "popped [] = {#}"
| "popped (WTick i nows rs # evs) = mset rs + popped evs"
| "popped (_ # evs) = popped evs"

fun finished :: "worker_event list \<Rightarrow> mref multiset" where
  "finished [] = {#}"
| "finished (WFinish k t r # evs) = add_mset r (finished evs)"
| "finished (_ # evs) = finished evs"

lemma popped_append [simp]: "popped (xs @ ys) = popped xs + popped ys"
  by (induction xs rule: popped.induct) simp_all

lemma finished_append [simp]: "finished (xs @ ys) = finished xs + finished ys"
  by (induction xs rule: finished.induct) simp_all

text \<open>What the loops still have to send, and everything that is on its way.\<close>

fun pc_messages :: "loop_pc \<Rightarrow> mref list" where
  "pc_messages (LSend rs) = rs"
| "pc_messages _ = []"

definition in_flight :: "worker_sys \<Rightarrow> mref multiset" where
  "in_flight s = mset (ws_running s) + mset (concat (map pc_messages (ws_loops s)))"

lemma after_send_messages [simp]: "pc_messages (after_send rs) = rs"
  by (simp add: after_send_def)

lemma mset_concat_update:
  "i < length xs \<Longrightarrow> mset (concat (map g (xs[i := x]))) + mset (g (xs ! i)) = mset (concat (map g xs)) + mset (g x)"
proof (induction xs arbitrary: i)
  case (Cons y ys)
  then show ?case by (cases i) (auto simp: union_assoc ac_simps)
qed simp

definition ws_inv :: "worker_event list \<Rightarrow> worker_sys \<Rightarrow> worker_sys \<Rightarrow> bool" where
  "ws_inv evs s0 s \<longleftrightarrow> w_maxConcurrent (ws_worker s) = w_maxConcurrent (ws_worker s0) \<and>
     w_processInterval (ws_worker s) = w_processInterval (ws_worker s0) \<and>
     popped evs = finished evs + in_flight s \<and> int (length (ws_running s)) \<le> max 0 (w_maxConcurrent (ws_worker s0)) \<and>
     (0 < ws_stopping s \<longrightarrow> ws_cancelled s)"

lemma processMessage_frame:
  assumes "worker_processMessage impl f t r (w, qs) = (w', qs')"
  shows "w_maxConcurrent w' = w_maxConcurrent w" "w_processInterval w' = w_processInterval w" "w_maxBatchSize w' = w_maxBatchSize w"
  using assms by (auto simp: worker_processMessage_def worker_updateMetrics_def Let_def split: prod.splits)

lemma worker_step_inv:
  assumes "ws_inv evs s0 s" and "worker_step impl f ev s s'"
  shows "ws_inv (evs @ [ev]) s0 s'"
  using assms(2)
proof cases
  case (tick i nows res qs rs)
  have "mset (concat (map pc_messages ((ws_loops s)[i := after_send rs]))) = mset (concat (map pc_messages (ws_loops s))) + mset rs"
    using mset_concat_update [OF tick(4), of pc_messages "after_send rs"] tick(5) by simp
  then show ?thesis using assms(1) tick by (simp add: ws_inv_def in_flight_def ac_simps)
next
  case (spawn i r rs)
  have "mset (concat (map pc_messages ((ws_loops s)[i := after_send rs]))) + mset (r # rs) = mset (concat (map pc_messages (ws_loops s))) + mset rs"
    using mset_concat_update [OF spawn(4), of pc_messages "after_send rs"] spawn(5) by simp
  then have "mset (concat (map pc_messages (ws_loops s))) = add_mset r (mset (concat (map pc_messages ((ws_loops s)[i := after_send rs]))))"
    by simp
  then show ?thesis using assms(1) spawn by (simp add: ws_inv_def in_flight_def)
next
  case (finish k r t w qs)
  have "mset (ws_running s) = add_mset r (mset (remove_nth k (ws_running s)))"
    using finish(4,5) by (metis insert_DiffM mset_remove_nth nth_mem set_mset_mset)
  then show ?thesis
    using assms(1) finish processMessage_frame [OF finish(6)] by (simp add: ws_inv_def in_flight_def)
next
  case (ticker i)
  have "mset (concat (map pc_messages ((ws_loops s)[i := LSelect]))) = mset (concat (map pc_messages (ws_loops s)))"
    using mset_concat_update [OF ticker(4), of pc_messages LSelect] ticker(5) by simp
  then show ?thesis using assms(1) ticker by (simp add: ws_inv_def in_flight_def)
next
  case (exit i)
  have "mset (concat (map pc_messages ((ws_loops s)[i := LEnded]))) = mset (concat (map pc_messages (ws_loops s)))"
    using mset_concat_update [OF exit(4), of pc_messages LEnded] exit(5) by simp
  then show ?thesis using assms(1) exit by (simp add: ws_inv_def in_flight_def)
qed (use assms(1) in \<open>auto simp: ws_inv_def in_flight_def\<close>)

lemma worker_run_inv: "worker_run impl f s0 evs s \<Longrightarrow> ws_inv [] s0 s0 \<Longrightarrow> ws_inv evs s0 s"
  by (induction rule: worker_run.induct) (auto intro: worker_step_inv)

section \<open>Stopping\<close>

text \<open>What is left to do until everything has ended, when no loop takes another tick.\<close>

fun pc_weight :: "loop_pc \<Rightarrow> nat" where
  "pc_weight LStarting = 2"
| "pc_weight LSelect = 1"
| "pc_weight (LSend rs) = 1 + 2 * length rs"
| "pc_weight LEnded = 0"

definition ws_weight :: "worker_sys \<Rightarrow> nat" where
  "ws_weight s = sum_list (map pc_weight (ws_loops s)) + length (ws_running s)"

text \<open>A batch that is being sent is not empty.\<close>

definition sends_something :: "worker_sys \<Rightarrow> bool" where
  "sends_something s \<longleftrightarrow> LSend [] \<notin> set (ws_loops s)"

lemma sum_list_update_less: "i < length xs \<Longrightarrow> (g x :: nat) < g (xs ! i) \<Longrightarrow> sum_list (map g (xs[i := x])) < sum_list (map g xs)"
  by (induction xs arbitrary: i) (auto simp: less_Suc_eq_0_disj nth_Cons split: nat.splits)

lemma sum_list_update_nat: "i < length xs \<Longrightarrow> sum_list (map g (xs[i := x])) + g (xs ! i) = sum_list (map g xs) + (g x :: nat)"
  by (induction xs arbitrary: i) (auto simp: nth_Cons split: nat.splits)

lemma sum_list_positive: "0 < sum_list (map g xs) \<Longrightarrow> \<exists>x \<in> set xs. g x \<noteq> (0 :: nat)"
  by (induction xs) auto

lemma sends_step: "sends_something s \<Longrightarrow> worker_step impl f ev s s' \<Longrightarrow> sends_something s'"
  by (erule worker_stepE) (auto simp: sends_something_def after_send_def set_update_subset_insert dest!: set_update_subset_insert [THEN subsetD] split: if_splits)

lemma sends_run: "worker_run impl f s0 evs s \<Longrightarrow> sends_something s0 \<Longrightarrow> sends_something s"
  by (induction rule: worker_run.induct) (auto intro: sends_step)

text \<open>While something is left, some goroutine can go on without a tick.\<close>

definition ws_ready :: "worker_sys \<Rightarrow> bool" where
  "ws_ready s \<longleftrightarrow> \<not> ws_panicked s \<and> ws_cancelled s \<and> 0 < w_processInterval (ws_worker s) \<and> 0 < w_maxConcurrent (ws_worker s) \<and> sends_something s"

text \<open>The steps of the goroutines, as opposed to the calls of \<^verbatim>\<open>Start\<close> and \<^verbatim>\<open>Stop\<close>.\<close>

fun ws_internal :: "worker_event \<Rightarrow> bool" where
  "ws_internal WStart \<longleftrightarrow> False"
| "ws_internal WStop \<longleftrightarrow> False"
| "ws_internal WStopped \<longleftrightarrow> False"
| "ws_internal _ \<longleftrightarrow> True"

lemma ws_progress:
  assumes "ws_ready s" and "0 < ws_weight s"
  shows "\<exists>ev s'. worker_step impl f ev s s' \<and> ws_internal ev \<and> ws_weight s' < ws_weight s \<and> ws_ready s' \<and> ws_stopping s' = ws_stopping s"
proof (cases "ws_running s = []")
  case False
  define t where "t = \<lparr>wt_start = 0, wt_end = 0, wt_retry = 0, wt_push = (0, 0), wt_mark = 0 :: go_time\<rparr>"
  obtain w qs where p: "worker_processMessage impl f t (ws_running s ! 0) (ws_worker s, ws_queues s) = (w, qs)" by (metis surj_pair)
  let ?s' = "s\<lparr>ws_worker := w, ws_queues := qs, ws_running := remove_nth 0 (ws_running s)\<rparr>"
  have "worker_step impl f (WFinish 0 t (ws_running s ! 0)) s ?s'"
    using assms(1) False p by (intro worker_step.finish) (simp_all add: ws_ready_def)
  then show ?thesis
    using assms(1) False processMessage_frame [OF p]
    by (intro exI [of _ "WFinish 0 t (ws_running s ! 0)"] exI [of _ ?s'] conjI) (auto simp: ws_weight_def ws_ready_def sends_something_def)
next
  case True
  then have "\<exists>pc \<in> set (ws_loops s). pc_weight pc \<noteq> 0"
    using assms(2) sum_list_positive [of pc_weight "ws_loops s"] by (simp add: ws_weight_def)
  then obtain i where i: "i < length (ws_loops s)" "ws_loops s ! i \<noteq> LEnded"
    by (metis in_set_conv_nth pc_weight.simps(4))
  have less: "sum_list (map pc_weight ((ws_loops s)[i := pc])) < sum_list (map pc_weight (ws_loops s))"
    if "pc_weight pc < pc_weight (ws_loops s ! i)" for pc
    by (rule sum_list_update_less [OF i(1) that])
  show ?thesis
  proof (cases "ws_loops s ! i")
    case LStarting
    have "worker_step impl f (WTicker i) s (s\<lparr>ws_loops := (ws_loops s)[i := LSelect]\<rparr>)"
      using assms(1) i LStarting by (intro worker_step.ticker) (simp_all add: ws_ready_def)
    moreover from this have "sends_something (s\<lparr>ws_loops := (ws_loops s)[i := LSelect]\<rparr>)"
      using assms(1) sends_step by (auto simp: ws_ready_def)
    ultimately show ?thesis using assms(1) less [of LSelect] LStarting
      by (intro exI [of _ "WTicker i"] exI [of _ "s\<lparr>ws_loops := (ws_loops s)[i := LSelect]\<rparr>"] conjI) (auto simp: ws_weight_def ws_ready_def)
  next
    case LSelect
    have "worker_step impl f (WExit i) s (s\<lparr>ws_loops := (ws_loops s)[i := LEnded]\<rparr>)"
      using assms(1) i LSelect by (intro worker_step.exit) (simp_all add: ws_ready_def)
    moreover from this have "sends_something (s\<lparr>ws_loops := (ws_loops s)[i := LEnded]\<rparr>)"
      using assms(1) sends_step by (auto simp: ws_ready_def)
    ultimately show ?thesis using assms(1) less [of LEnded] LSelect
      by (intro exI [of _ "WExit i"] exI [of _ "s\<lparr>ws_loops := (ws_loops s)[i := LEnded]\<rparr>"] conjI) (auto simp: ws_weight_def ws_ready_def)
  next
    case (LSend rs)
    then obtain r rs' where rs: "rs = r # rs'"
      using assms(1) i by (cases rs) (auto simp: ws_ready_def sends_something_def dest: nth_mem)
    let ?s' = "s\<lparr>ws_running := ws_running s @ [r], ws_loops := (ws_loops s)[i := after_send rs']\<rparr>"
    have step: "worker_step impl f (WSpawn i) s ?s'"
      using assms(1) i LSend rs True by (intro worker_step.spawn) (simp_all add: ws_ready_def)
    moreover from this have "sends_something ?s'" using assms(1) sends_step by (auto simp: ws_ready_def)
    moreover have "ws_weight ?s' < ws_weight s"
      using sum_list_update_nat [OF i(1), of pc_weight "after_send rs'"] LSend rs True
      by (cases rs') (simp_all add: ws_weight_def after_send_def)
    ultimately show ?thesis using assms(1)
      by (intro exI [of _ "WSpawn i"] exI [of _ ?s'] conjI) (auto simp: ws_ready_def)
  next
    case LEnded
    then show ?thesis using i by simp
  qed
qed

lemma ws_drains:
  assumes "ws_ready s"
  shows "\<exists>evs s'. worker_run impl f s evs s' \<and> list_all ws_internal evs \<and> ws_weight s' = 0 \<and> \<not> ws_panicked s' \<and> ws_stopping s' = ws_stopping s"
  using assms
proof (induction "ws_weight s" arbitrary: s rule: less_induct)
  case less
  show ?case
  proof (cases "ws_weight s = 0")
    case True
    then show ?thesis using less.prems by (intro exI [of _ "[]"] exI [of _ s]) (auto simp: ws_ready_def intro: worker_run.nil)
  next
    case False
    then obtain ev s1 where s1: "worker_step impl f ev s s1" "ws_internal ev" "ws_weight s1 < ws_weight s" "ws_ready s1"
      "ws_stopping s1 = ws_stopping s"
      using ws_progress [OF less.prems] by blast
    obtain evs s' where "worker_run impl f s1 evs s'" "list_all ws_internal evs" "ws_weight s' = 0" "\<not> ws_panicked s'" "ws_stopping s' = ws_stopping s1"
      using less.hyps [OF s1(3,4)] by blast
    then show ?thesis using worker_run_Cons [OF s1(1)] s1(2,5) by (intro exI [of _ "ev # evs"] exI [of _ s']) auto
  qed
qed

section \<open>Properties\<close>

lemma new_worker:
  assumes "NewWorker config = Some w"
  shows "0 \<le> w_maxConcurrent w" "w_maxConcurrent w = wc_MaxConcurrent config" "w_processInterval w = wc_ProcessInterval config"
  using assms by (auto simp: NewWorker_def split: if_splits)

lemma init_inv: "0 \<le> w_maxConcurrent w \<Longrightarrow> ws_inv [] (ws_init w qs) (ws_init w qs)"
  by (simp add: ws_inv_def ws_init_def in_flight_def)

definition all_ended :: "worker_sys \<Rightarrow> bool" where
  "all_ended s \<longleftrightarrow> list_all (\<lambda>pc. pc = LEnded) (ws_loops s) \<and> ws_running s = []"

lemma ended_in_flight: "all_ended s \<Longrightarrow> in_flight s = {#}"
  by (auto simp: all_ended_def in_flight_def list_all_iff)

lemma ended_run:
  "worker_run impl f s evs s' \<Longrightarrow> all_ended s \<Longrightarrow> WStart \<notin> set evs \<Longrightarrow> all_ended s' \<and> popped evs = {#} \<and> finished evs = {#}"
proof (induction rule: worker_run.induct)
  case (snoc s evs s1 ev s2)
  then have "all_ended s1" by simp
  then have "\<And>i. i < length (ws_loops s1) \<Longrightarrow> ws_loops s1 ! i = LEnded" "ws_running s1 = []"
    by (simp_all add: all_ended_def list_all_length)
  then show ?case using snoc by (auto elim!: worker_stepE simp: all_ended_def)
qed simp

definition sample_worker_config :: "int \<Rightarrow> WorkerConfig" where
  "sample_worker_config places = \<lparr>wc_ID = ''w'', wc_QueueName = ''q'', wc_MaxBatchSize = 2, wc_ProcessInterval = millisecond,
     wc_MaxConcurrent = places, wc_BackoffStrategy = Fixed (NewFixedBackoff second 3)\<rparr>"

text \<open>A sample: one loop has popped the message of the sample queue, and a \<^verbatim>\<open>Stop\<close> waits.\<close>

definition sample_batch :: "(QueueError + mref list) \<times> qm_state" where
  "sample_batch = the (qm_BatchPopMessages (\<lambda>_. 9) ''q'' 2 sample_state)"

definition sample_sending :: "Worker \<Rightarrow> worker_sys" where
  "sample_sending w = (ws_init w (snd sample_batch))\<lparr>ws_cancelled := True, ws_loops := [LSend [1]], ws_stopping := 1\<rparr>"

definition sample_popped :: "Worker \<Rightarrow> worker_sys" where
  "sample_popped w = (ws_init w (snd sample_batch))\<lparr>ws_loops := [LSend [1]]\<rparr>"

lemma sample_popped_run:
  assumes "w_queueName w = ''q''" and "w_maxBatchSize w = 2" and "0 < w_processInterval w"
  shows "worker_run impl f (ws_init w sample_state) [WStart, WTicker 0, WTick 0 (\<lambda>_. 9) [1]] (sample_popped w)"
proof -
  have "qm_BatchPopMessages (\<lambda>_. 9) ''q'' 2 sample_state \<noteq> None" "fst sample_batch = Inr [1]" by code_simp+
  then have pop: "qm_BatchPopMessages (\<lambda>_. 9) ''q'' 2 sample_state = Some (Inr [1], snd sample_batch)"
    by (auto simp: sample_batch_def)
  let ?s = "ws_init w sample_state"
  have 1: "worker_step impl f WStart ?s (?s\<lparr>ws_loops := [LStarting]\<rparr>)"
    using worker_step.start [of ?s impl f] by (simp add: ws_init_def)
  have 2: "worker_step impl f (WTicker 0) (?s\<lparr>ws_loops := [LStarting]\<rparr>) (?s\<lparr>ws_loops := [LSelect]\<rparr>)"
    using worker_step.ticker [of "?s\<lparr>ws_loops := [LStarting]\<rparr>" 0 impl f] assms(3) by (simp add: ws_init_def)
  have 3: "worker_step impl f (WTick 0 (\<lambda>_. 9) [1]) (?s\<lparr>ws_loops := [LSelect]\<rparr>) (sample_popped w)"
    using worker_step.tick [of "?s\<lparr>ws_loops := [LSelect]\<rparr>" 0 "\<lambda>_. 9" "Inr [1]" "snd sample_batch" "[1]" impl f] assms(1,2) pop
    by (simp add: ws_init_def after_send_def sample_popped_def)
  show ?thesis by (intro worker_run_Cons [OF 1] worker_run_Cons [OF 2] worker_run_single [OF 3])
qed

lemma sample_sending_run:
  assumes "w_queueName w = ''q''" and "w_maxBatchSize w = 2" and "0 < w_processInterval w"
  shows "worker_run impl f (ws_init w sample_state) [WStart, WTicker 0, WTick 0 (\<lambda>_. 9) [1], WStop] (sample_sending w)"
proof -
  have "worker_step impl f WStop (sample_popped w) (sample_sending w)"
    using worker_step.stop [of "sample_popped w" impl f] by (simp add: ws_init_def sample_sending_def sample_popped_def)
  from worker_run.snoc [OF sample_popped_run [OF assms] this] show ?thesis by simp
qed

text \<open>
  C7 (stopping waits). In every interleaving of the loops, the goroutines of the messages and any
  calls of \<^verbatim>\<open>Start\<close> and \<^verbatim>\<open>Stop\<close>, at most \<^verbatim>\<open>MaxConcurrent\<close> messages are being processed at once; when
  a \<^verbatim>\<open>Stop\<close> returns, every message that was popped has been processed, as often as it was popped;
  and without another \<^verbatim>\<open>Start\<close> nothing is popped or processed after that.
\<close>

theorem worker_stop_awaits_all:
  assumes "NewWorker config = Some w" and "worker_run impl f (ws_init w qs) evs s"
  shows "int (length (ws_running s)) \<le> wc_MaxConcurrent config \<and>
    (\<forall>s'. worker_step impl f WStopped s s' \<longrightarrow> popped evs = finished evs \<and>
       (\<forall>evs' s''. worker_run impl f s' evs' s'' \<longrightarrow> WStart \<notin> set evs' \<longrightarrow> popped evs' = {#} \<and> finished evs' = {#}))"
proof -
  note new = new_worker [OF assms(1)]
  have inv: "ws_inv evs (ws_init w qs) s" by (rule worker_run_inv [OF assms(2) init_inv [OF new(1)]])
  then have "int (length (ws_running s)) \<le> wc_MaxConcurrent config" "popped evs = finished evs + in_flight s"
    using new by (simp_all add: ws_inv_def ws_init_def)
  moreover have "all_ended s \<and> all_ended s'" if "worker_step impl f WStopped s s'" for s'
    using that by (auto elim!: worker_stepE simp: all_ended_def)
  ultimately show ?thesis using ended_in_flight ended_run by fastforce
qed

theorem worker_stop_awaits_all_witness:
  "\<exists>w s. NewWorker (sample_worker_config 1) = Some w \<and>
     worker_run (\<lambda>_. 0) always_fails (ws_init w sample_state)
       ([WStart, WTicker 0, WTick 0 (\<lambda>_. 9) [1], WStop] @ [WSpawn 0, WFinish 0 sample_times 1, WExit 0]) s \<and>
     int (length (ws_running s)) \<le> 1 \<and> (\<exists>s'. worker_step (\<lambda>_. 0) always_fails WStopped s s')"
proof -
  define w where "w = the (NewWorker (sample_worker_config 1))"
  have w: "NewWorker (sample_worker_config 1) = Some w" "w_queueName w = ''q''" "w_maxBatchSize w = 2" "0 < w_processInterval w"
    "w_maxConcurrent w = 1"
    by (simp_all add: w_def NewWorker_def sample_worker_config_def)
  note sending = sample_sending_run [OF w(2-4), where impl = "\<lambda>_. 0" and f = always_fails]
  let ?s1 = "(sample_sending w)\<lparr>ws_running := [1], ws_loops := [LSelect]\<rparr>"
  have 1: "worker_step (\<lambda>_. 0) always_fails (WSpawn 0) (sample_sending w) ?s1"
    using worker_step.spawn [of "sample_sending w" 0 1 "[]" "\<lambda>_. 0" always_fails] w(5)
    by (simp add: sample_sending_def ws_init_def after_send_def)
  obtain w' qs where p: "worker_processMessage (\<lambda>_. 0) always_fails sample_times 1 (w, snd sample_batch) = (w', qs)" by (metis surj_pair)
  let ?s2 = "?s1\<lparr>ws_worker := w', ws_queues := qs, ws_running := []\<rparr>"
  have 2: "worker_step (\<lambda>_. 0) always_fails (WFinish 0 sample_times 1) ?s1 ?s2"
    using worker_step.finish [of ?s1 0 1 "\<lambda>_. 0" always_fails sample_times w' qs] p
    by (simp add: sample_sending_def ws_init_def remove_nth_def)
  let ?s3 = "?s2\<lparr>ws_loops := [LEnded]\<rparr>"
  have 3: "worker_step (\<lambda>_. 0) always_fails (WExit 0) ?s2 ?s3"
    using worker_step.exit [of ?s2 0 "\<lambda>_. 0" always_fails] by (simp add: sample_sending_def ws_init_def)
  have 4: "worker_step (\<lambda>_. 0) always_fails WStopped ?s3 (?s3\<lparr>ws_stopping := 0\<rparr>)"
    using worker_step.stopped [of ?s3 "\<lambda>_. 0" always_fails] by (simp add: sample_sending_def ws_init_def)
  have run: "worker_run (\<lambda>_. 0) always_fails (ws_init w sample_state)
      ([WStart, WTicker 0, WTick 0 (\<lambda>_. 9) [1], WStop] @ [WSpawn 0, WFinish 0 sample_times 1, WExit 0]) ?s3"
    by (rule worker_run_append [OF _ sending]) (intro worker_run_Cons [OF 1] worker_run_Cons [OF 2] worker_run_single [OF 3])
  from worker_stop_awaits_all [OF w(1) run] have "int (length (ws_running ?s3)) \<le> 1" by (simp add: sample_worker_config_def)
  then show ?thesis using w(1) run 4 by blast
qed

text \<open>
  C23 (stopping returns). With a positive interval and at least one place for a message, a \<^verbatim>\<open>Stop\<close>
  that waits can always still return without another \<^verbatim>\<open>Start\<close>, whatever batch is on its way.
\<close>

theorem worker_can_stop:
  assumes "NewWorker config = Some w" and "0 < wc_ProcessInterval config" and "0 < wc_MaxConcurrent config"
    and "worker_run impl f (ws_init w qs) evs s" and "\<not> ws_panicked s" and "0 < ws_stopping s"
  shows "\<exists>evs' s'. worker_run impl f s (evs' @ [WStopped]) s' \<and> WStart \<notin> set evs' \<and> ws_stopping s' = ws_stopping s - 1"
proof -
  note new = new_worker [OF assms(1)]
  have inv: "ws_inv evs (ws_init w qs) s" by (rule worker_run_inv [OF assms(4) init_inv [OF new(1)]])
  have "sends_something s" by (rule sends_run [OF assms(4)]) (simp add: sends_something_def ws_init_def)
  then have "ws_ready s" using inv assms(2,3,5,6) new by (simp add: ws_ready_def ws_inv_def ws_init_def)
  then obtain evs' s1 where run: "worker_run impl f s evs' s1" "list_all ws_internal evs'" "ws_weight s1 = 0" "\<not> ws_panicked s1"
    "ws_stopping s1 = ws_stopping s" using ws_drains by blast
  have starts: "WStart \<notin> set evs'" using run(2) by (auto simp: list_all_iff)
  have "pc = LEnded" if "pc \<in> set (ws_loops s1)" for pc
    using run(3) that by (cases pc) (auto simp: ws_weight_def)
  then have "worker_step impl f WStopped s1 (s1\<lparr>ws_stopping := ws_stopping s1 - 1\<rparr>)"
    using run assms(6) by (intro worker_step.stopped) (auto simp: ws_weight_def list_all_iff)
  then show ?thesis using worker_run.snoc [OF run(1)] starts run(5) by fastforce
qed

theorem worker_can_stop_witness:
  "\<exists>w evs' s'. NewWorker (sample_worker_config 1) = Some w \<and>
     worker_run (\<lambda>_. 0) always_fails (sample_sending w) (evs' @ [WStopped]) s' \<and> ws_stopping s' = 0"
proof -
  define w where "w = the (NewWorker (sample_worker_config 1))"
  have w: "NewWorker (sample_worker_config 1) = Some w" "w_queueName w = ''q''" "w_maxBatchSize w = 2" "0 < w_processInterval w"
    by (simp_all add: w_def NewWorker_def sample_worker_config_def)
  from worker_can_stop [OF w(1) _ _ sample_sending_run [OF w(2-4)], of "\<lambda>_. 0" always_fails]
  obtain evs' s' where "worker_run (\<lambda>_. 0) always_fails (sample_sending w) (evs' @ [WStopped]) s'" "ws_stopping s' = 0"
    by (auto simp: sample_worker_config_def sample_sending_def ws_init_def)
  then show ?thesis using w(1) by blast
qed

lemma no_slots_inv:
  assumes "worker_run impl f s0 evs s" and "ws_inv [] s0 s0" and "w_maxConcurrent (ws_worker s0) = 0" and "finished evs0 = {#}"
  shows "finished evs = {#}"
  using assms
proof (induction rule: worker_run.induct)
  case (snoc s evs s1 ev s2)
  then have "finished evs = {#}" by simp
  moreover have "ws_running s1 = []" using worker_run_inv [OF snoc.hyps(1) snoc.prems(1)] snoc.prems(2) by (simp add: ws_inv_def)
  ultimately show ?case using snoc.hyps(2) by (auto elim!: worker_stepE)
qed simp

text \<open>
  With \<^verbatim>\<open>MaxConcurrent\<close> 0, once a batch of any messages has been popped, nothing is
  ever processed and no \<^verbatim>\<open>Stop\<close> ever returns: the loop waits at the semaphore for ever.
\<close>

theorem worker_without_places:
  assumes "NewWorker config = Some w" and "wc_MaxConcurrent config = 0"
    and "worker_run impl f (ws_init w qs) evs s" and "popped evs \<noteq> {#}" and "worker_run impl f s evs' s'"
  shows "finished (evs @ evs') = {#} \<and> \<not> (\<exists>s''. worker_step impl f WStopped s' s'')"
proof -
  note new = new_worker [OF assms(1)]
  have run: "worker_run impl f (ws_init w qs) (evs @ evs') s'" by (rule worker_run_append [OF assms(5,3)])
  have max: "w_maxConcurrent (ws_worker (ws_init w qs)) = 0" using new assms(2) by (simp add: ws_init_def)
  have fin: "finished (evs @ evs') = {#}" by (rule no_slots_inv [OF run init_inv [OF new(1)] max, of "[]"]) simp
  have "popped (evs @ evs') = finished (evs @ evs') + in_flight s'"
    using worker_run_inv [OF run init_inv [OF new(1)]] by (simp add: ws_inv_def)
  then have "in_flight s' \<noteq> {#}" using assms(4) fin by auto
  then have "\<not> all_ended s'" using ended_in_flight by blast
  then show ?thesis using fin by (auto elim!: worker_stepE simp: all_ended_def)
qed

theorem worker_without_places_witness:
  "\<exists>w. NewWorker (sample_worker_config 0) = Some w \<and>
     worker_run (\<lambda>_. 0) always_fails (ws_init w sample_state) [WStart, WTicker 0, WTick 0 (\<lambda>_. 9) [1], WStop] (sample_sending w) \<and>
     \<not> (\<exists>s''. worker_step (\<lambda>_. 0) always_fails WStopped (sample_sending w) s'')"
proof -
  define w where "w = the (NewWorker (sample_worker_config 0))"
  have w: "NewWorker (sample_worker_config 0) = Some w" "w_queueName w = ''q''" "w_maxBatchSize w = 2" "0 < w_processInterval w"
    by (simp_all add: w_def NewWorker_def sample_worker_config_def)
  note run = sample_sending_run [OF w(2-4), where impl = "\<lambda>_. 0" and f = always_fails]
  from worker_without_places [OF w(1) _ run _ worker_run.nil] show ?thesis
    using w(1) run by (simp add: sample_worker_config_def)
qed

end
