(* ===== verification/WorkerDrains.thy ===== *)
theory WorkerDrains
  imports WorkerLifecycle
begin

text \<open>
  A \<^verbatim>\<open>Worker\<close> empties its queue: over all interleavings of the loops and the goroutines of the
  messages (the step relation of WorkerLifecycle) the work that is left only falls, so that
  nothing is popped, sent, processed or retried without end, and while something is waiting or
  on its way some goroutine can go on.
\<close>

section \<open>The work that is left\<close>

text \<open>
  A message with \<open>a\<close> attempts left costs at most three steps for each of them: it is popped, its
  goroutine is spawned, and it is processed.
\<close>

definition weigh :: "nat \<Rightarrow> BackoffStrategy \<Rightarrow> mstore \<Rightarrow> mref multiset \<Rightarrow> nat" where
  "weigh done b st rs = sum_mset (image_mset (\<lambda>r. 3 * attempts_left b (st r) - done) rs)"

definition starting :: "worker_sys \<Rightarrow> nat" where
  "starting s = length (filter (\<lambda>pc. pc = LStarting) (ws_loops s))"

abbreviation unsent :: "worker_sys \<Rightarrow> mref multiset" where
  "unsent s \<equiv> mset (concat (map pc_messages (ws_loops s)))"

abbreviation own_waiting :: "worker_sys \<Rightarrow> mref multiset" where
  "own_waiting s \<equiv> qm_waiting (fst (ws_queues s)) (w_queueName (ws_worker s))"

definition work_left :: "worker_sys \<Rightarrow> nat" where
  "work_left s = (let b = w_backoffStrategy (ws_worker s); st = snd (ws_queues s)
     in weigh 0 b st (own_waiting s) + weigh 1 b st (unsent s) + weigh 2 b st (mset (ws_running s)) + starting s)"

lemma weigh_plus [simp]: "weigh d b st (xs + ys) = weigh d b st xs + weigh d b st ys"
  by (simp add: weigh_def)

lemma weigh_single [simp]: "weigh d b st (add_mset r rs) = (3 * attempts_left b (st r) - d) + weigh d b st rs"
  by (simp add: weigh_def)

lemma weigh_empty [simp]: "weigh d b st {#} = 0"
  by (simp add: weigh_def)

lemma weigh_zero: "weigh 0 b st rs = 3 * total_attempts b st rs"
  by (induction rs) (simp_all add: total_attempts_def)

lemma weigh_one: "weigh 0 b st rs = weigh 1 b st rs + size rs"
  by (induction rs) (simp_all add: attempts_left_def)

lemma weigh_mono:
  assumes "\<And>r. attempts_left b (st' r) \<le> attempts_left b (st r)"
  shows "weigh d b st' rs \<le> weigh d b st rs"
proof (induction rs)
  case (add r rs)
  have "3 * attempts_left b (st' r) - d \<le> 3 * attempts_left b (st r) - d"
    by (intro diff_le_mono mult_le_mono2 assms)
  with add show ?case by simp
qed simp

text \<open>The steps that do some of the work: all but a tick that finds nothing.\<close>

fun busy :: "worker_event \<Rightarrow> bool" where
  "busy (WTicker i) \<longleftrightarrow> True"
| "busy (WTick i nows rs) \<longleftrightarrow> rs \<noteq> []"
| "busy (WSpawn i) \<longleftrightarrow> True"
| "busy (WFinish k t r) \<longleftrightarrow> True"
| "busy _ \<longleftrightarrow> False"

definition busy_steps :: "worker_event list \<Rightarrow> nat" where
  "busy_steps evs = length (filter busy evs)"

definition starts :: "worker_event list \<Rightarrow> nat" where
  "starts evs = length (filter (\<lambda>ev. ev = WStart) evs)"

section \<open>The invariant of a run without a stop\<close>

definition working :: "worker_sys \<Rightarrow> bool" where
  "working s \<longleftrightarrow> \<not> ws_panicked s \<and> \<not> ws_cancelled s \<and> LEnded \<notin> set (ws_loops s) \<and> sends_something s \<and>
     qm_inv (fst (ws_queues s)) \<and> qm_queues (fst (ws_queues s)) (w_queueName (ws_worker s)) \<noteq> None \<and>
     0 < w_maxBatchSize (ws_worker s) \<and> 0 < w_processInterval (ws_worker s) \<and> 0 < w_maxConcurrent (ws_worker s)"

lemma starting_update:
  "i < length (ws_loops s) \<Longrightarrow>
   length (filter (\<lambda>pc. pc = LStarting) ((ws_loops s)[i := pc])) + (if ws_loops s ! i = LStarting then 1 else 0) =
     starting s + (if pc = LStarting then 1 else 0)"
proof -
  have count: "length (filter (\<lambda>pc. pc = LStarting) xs) = sum_list (map (\<lambda>pc. if pc = LStarting then 1 else 0) xs)" for xs
    by (induction xs) simp_all
  assume "i < length (ws_loops s)"
  from sum_list_update_nat [OF this, of "\<lambda>pc. if pc = LStarting then 1 else 0" pc]
  show ?thesis by (simp add: starting_def count)
qed

lemma not_ended_update: "LEnded \<notin> set xs \<Longrightarrow> pc \<noteq> LEnded \<Longrightarrow> LEnded \<notin> set (xs[i := pc])"
  using set_update_subset_insert [of xs i pc] by auto

lemma after_send_running [simp]: "after_send rs \<noteq> LStarting" "after_send rs \<noteq> LEnded"
  by (simp_all add: after_send_def)

lemma batch_pop_effect:
  assumes inv: "qm_inv qm" and q: "qm_queues qm n \<noteq> None" and size: "0 < k"
  obtains rs qm' where "qm_BatchPopMessages nows n k (qm, st) = Some (Inr rs, (qm', st))"
    "qm_inv qm'" "qm_queues qm' n \<noteq> None" "qm_waiting qm n = mset rs + qm_waiting qm' n"
    "length rs = min (nat k) (size (qm_waiting qm n))"
proof -
  obtain q where q: "qm_queues qm n = Some q" using q by blast
  obtain rs q' qm2 st2 where b: "qm_batch_pop n (nat k) nows q (qm, st) = (rs, q', (qm2, st2))"
    by (metis prod.exhaust)
  obtain evs where evs: "qm2 = qm_emit evs qm" "st2 = st" "mlq_only n q'"
      "mlq_waiting n q = mset rs + mlq_waiting n q'" "length rs = min (nat k) (size (mlq_waiting n q))"
    by (rule qm_batch_pop_only [OF qm_inv_lookup [OF inv q] b])
  let ?qm1 = "qm_emit (evs @ [MInc QueueOperations n ''batch_pop'']) (qm_set_queue n q' qm)"
  show ?thesis
  proof (rule that)
    show "qm_BatchPopMessages nows n k (qm, st) = Some (Inr rs, (?qm1, st))"
      using size by (simp add: qm_BatchPopMessages_def q b evs(1,2))
    show "qm_inv ?qm1" by (rule qm_inv_set [OF inv evs(3)])
    have "qm_waiting qm n = mlq_waiting n q" by (simp add: qm_waiting_def q)
    then show "qm_waiting qm n = mset rs + qm_waiting ?qm1 n" "length rs = min (nat k) (size (qm_waiting qm n))"
      using evs by (simp_all add: qm_waiting_set)
  qed simp
qed

lemma work_step:
  assumes work: "working s" and keeps: "keeps_retries f" and step: "worker_step impl f ev s s'" and stop: "ev \<noteq> WStop"
  shows "working s' \<and> work_left s' + (if busy ev then 1 else 0) \<le> work_left s + (if ev = WStart then 1 else 0) \<and>
    w_queueName (ws_worker s') = w_queueName (ws_worker s) \<and> length (ws_loops s) \<le> length (ws_loops s') \<and> (ev = WStart \<longrightarrow> ws_loops s' \<noteq> [])"
  using step
proof cases
  case start
  then show ?thesis using work by (auto simp: working_def work_left_def starting_def sends_something_def Let_def)
next
  case (ticker i)
  have "unsent s' = unsent s"
    using mset_concat_update [OF ticker(4), of pc_messages LSelect] ticker(1,2,5) by simp
  then show ?thesis
    using work ticker starting_update [OF ticker(4), of LSelect] not_ended_update [of "ws_loops s" LSelect i]
      sends_step [OF _ step]
    by (auto simp: working_def work_left_def starting_def Let_def)
next
  case (ticker_panic i)
  then show ?thesis using work by (simp add: working_def)
next
  case (tick i nows res qs rs)
  obtain qm st where qs: "ws_queues s = (qm, st)" by force
  have pre: "qm_inv qm" "qm_queues qm (w_queueName (ws_worker s)) \<noteq> None" "0 < w_maxBatchSize (ws_worker s)"
    using work by (simp_all add: working_def qs)
  obtain rs' qm' where pop: "qm_BatchPopMessages nows (w_queueName (ws_worker s)) (w_maxBatchSize (ws_worker s)) (qm, st) = Some (Inr rs', (qm', st))"
    "qm_inv qm'" "qm_queues qm' (w_queueName (ws_worker s)) \<noteq> None"
    "qm_waiting qm (w_queueName (ws_worker s)) = mset rs' + qm_waiting qm' (w_queueName (ws_worker s))"
    by (rule batch_pop_effect [OF pre, of nows st])
  have new: "qs = (qm', st)" "rs = rs'" using tick(6,7) pop(1) by (auto simp: qs)
  have "unsent s' = unsent s + mset rs"
    using mset_concat_update [OF tick(4), of pc_messages "after_send rs"] tick(2,5) by simp
  moreover have "starting s' = starting s"
    using starting_update [OF tick(4), of "after_send rs"] tick(2,5) by (simp add: starting_def)
  ultimately have "work_left s' + size (mset rs) = work_left s"
    using pop(4) new tick(2) weigh_one [of "w_backoffStrategy (ws_worker s)" st "mset rs"]
    by (simp add: work_left_def Let_def qs)
  moreover have "working s'"
    using work tick(2) new pop(2,3) not_ended_update [of "ws_loops s" "after_send rs" i] sends_step [OF _ step]
    by (simp add: working_def)
  moreover have "(if busy ev then 1 else 0) \<le> size (mset rs)" "ev \<noteq> WStart" using tick(1) by (cases rs; simp)+
  moreover have "w_queueName (ws_worker s') = w_queueName (ws_worker s)" "length (ws_loops s) \<le> length (ws_loops s')"
    using tick(2) by simp_all
  ultimately show ?thesis by auto
next
  case (tick_panic i nows)
  obtain qm st where qs: "ws_queues s = (qm, st)" by force
  have pre: "qm_inv qm" "qm_queues qm (w_queueName (ws_worker s)) \<noteq> None" "0 < w_maxBatchSize (ws_worker s)"
    using work by (simp_all add: working_def qs)
  obtain rs' qm' where "qm_BatchPopMessages nows (w_queueName (ws_worker s)) (w_maxBatchSize (ws_worker s)) (qm, st) = Some (Inr rs', (qm', st))"
    by (rule batch_pop_effect [OF pre, of nows st])
  then show ?thesis using tick_panic(6) by (simp add: qs)
next
  case (spawn i r rs)
  have "unsent s = add_mset r (unsent s')"
    using mset_concat_update [OF spawn(4), of pc_messages "after_send rs"] spawn(2,5) by simp
  moreover have "starting s' = starting s"
    using starting_update [OF spawn(4), of "after_send rs"] spawn(2,5) by (simp add: starting_def)
  ultimately have "work_left s' + 1 = work_left s"
    using spawn(2) by (simp add: work_left_def Let_def attempts_left_def)
  moreover have "working s'"
    using work spawn(2) not_ended_update [of "ws_loops s" "after_send rs" i] sends_step [OF _ step]
    by (simp add: working_def)
  ultimately show ?thesis using spawn(1,2) by simp
next
  case (finish k r t w qs)
  obtain qm st qm' st' where qs: "ws_queues s = (qm, st)" "qs = (qm', st')" by force
  let ?b = "w_backoffStrategy (ws_worker s)" and ?n = "w_queueName (ws_worker s)"
  have run: "worker_processMessage impl f t r (ws_worker s, (qm, st)) = (w, (qm', st'))" using finish(6) by (simp add: qs)
  note e = worker_processMessage_effect [OF _ keeps run]
  have inv: "qm_inv qm" using work by (simp add: working_def qs)
  have running: "mset (ws_running s) = add_mset r (mset (ws_running s'))"
  proof -
    have "r \<in># mset (ws_running s)" using finish(4,5) nth_mem by auto
    then show ?thesis using finish(2,4,5) mset_remove_nth [OF finish(4)] by simp
  qed
  have le: "weigh d ?b st' rs \<le> weigh d ?b st rs" for d rs by (rule weigh_mono) (rule e(6) [OF inv])
  have "weigh 0 ?b st' (qm_waiting qm' ?n) + 3 \<le> 3 * attempts_left ?b (st r) + weigh 0 ?b st (qm_waiting qm ?n)"
    using e(7) [OF inv] by (simp add: weigh_zero)
  then have "work_left s' + 1 \<le> work_left s"
    using finish(2) running le [of 1 "unsent s"] le [of 2 "mset (ws_running s')"] e(2,3) [OF inv]
    by (simp add: work_left_def Let_def qs starting_def attempts_left_def)
  moreover have "working s'"
    using work finish(2) e(1-5) [OF inv] processMessage_frame [OF run] worker_processMessage_dom [of impl f t r "(ws_worker s, (qm, st))"]
    by (auto simp: working_def qs run sends_something_def dom_def)
  ultimately show ?thesis using finish(1,2) e(2) [OF inv] by simp
next
  case (exit i)
  then show ?thesis using work by (simp add: working_def)
next
  case stop
  then show ?thesis using assms(4) by simp
next
  case stopped
  then show ?thesis using work by (simp add: working_def work_left_def starting_def sends_something_def Let_def)
qed

lemma work_run:
  "worker_run impl f s0 evs s \<Longrightarrow> working s0 \<Longrightarrow> keeps_retries f \<Longrightarrow> WStop \<notin> set evs \<Longrightarrow>
   working s \<and> work_left s + busy_steps evs \<le> work_left s0 + starts evs \<and>
   w_queueName (ws_worker s) = w_queueName (ws_worker s0) \<and> (WStart \<in> set evs \<or> ws_loops s0 \<noteq> [] \<longrightarrow> ws_loops s \<noteq> [])"
proof (induction rule: worker_run.induct)
  case (snoc s0 evs s1 ev s2)
  then have ih: "working s1 \<and> work_left s1 + busy_steps evs \<le> work_left s0 + starts evs \<and>
      w_queueName (ws_worker s1) = w_queueName (ws_worker s0) \<and> (WStart \<in> set evs \<or> ws_loops s0 \<noteq> [] \<longrightarrow> ws_loops s1 \<noteq> [])"
    by simp
  have stop: "ev \<noteq> WStop" using snoc.prems by auto
  note work_step [OF conjunct1 [OF ih] snoc.prems(2) snoc.hyps(2) stop]
  then show ?case using ih by (cases "busy ev"; cases "ev = WStart") (auto simp: busy_steps_def starts_def)
qed (simp add: busy_steps_def starts_def)

section \<open>Going on\<close>

text \<open>
  With a loop started, the goroutines can go on while something is waiting or on its way: a
  goroutine of a message ends, a loop spawns the next goroutine, makes its ticker, or pops.
\<close>

lemma work_goes_on:
  assumes work: "working s" and loops: "ws_loops s \<noteq> []" and left: "own_waiting s + in_flight s \<noteq> {#}"
  shows "\<exists>ev s'. worker_step impl f ev s s' \<and> busy ev"
proof (cases "ws_running s = []")
  case False
  define t where "t = \<lparr>wt_start = 0, wt_end = 0, wt_retry = 0, wt_push = (0, 0), wt_mark = 0 :: go_time\<rparr>"
  obtain w qs where run: "worker_processMessage impl f t (ws_running s ! 0) (ws_worker s, ws_queues s) = (w, qs)" by (metis surj_pair)
  have "\<not> ws_panicked s" "0 < length (ws_running s)" using work False by (simp_all add: working_def)
  from worker_step.finish [OF this refl run] show ?thesis by (intro exI conjI) (assumption, simp)
next
  case True
  obtain i where i: "i < length (ws_loops s)" "ws_loops s ! i \<noteq> LEnded" "unsent s \<noteq> {#} \<longrightarrow> pc_messages (ws_loops s ! i) \<noteq> []"
  proof (cases "unsent s = {#}")
    case True
    have "ws_loops s ! 0 \<noteq> LEnded" using work loops nth_mem [of 0 "ws_loops s"] by (force simp: working_def)
    then show ?thesis using that [of 0] loops True by simp
  next
    case False
    then obtain pc where "pc \<in> set (ws_loops s)" "pc_messages pc \<noteq> []" by auto
    then show ?thesis using that by (metis in_set_conv_nth pc_messages.simps(4))
  qed
  have ok: "\<not> ws_panicked s" "0 < w_processInterval (ws_worker s)" "0 < w_maxConcurrent (ws_worker s)" "sends_something s"
    using work by (simp_all add: working_def)
  show ?thesis
  proof (cases "ws_loops s ! i")
    case LStarting
    show ?thesis by (rule exI, rule exI, rule conjI, rule worker_step.ticker [OF ok(1) i(1) LStarting ok(2)]) simp
  next
    case (LSend rs)
    then have "rs \<noteq> []" using ok(4) i(1) nth_mem [OF i(1)] by (auto simp: sends_something_def)
    then obtain r rs' where send: "ws_loops s ! i = LSend (r # rs')" using LSend by (cases rs) auto
    have "int (length (ws_running s)) < w_maxConcurrent (ws_worker s)" using True ok(3) by simp
    from worker_step.spawn [OF ok(1) i(1) send this] show ?thesis by (intro exI conjI) (assumption, simp)
  next
    case LSelect
    then have waiting: "own_waiting s \<noteq> {#}" using left True i(3) by (auto simp: in_flight_def)
    obtain qm st where qs: "ws_queues s = (qm, st)" by force
    have pre: "qm_inv qm" "qm_queues qm (w_queueName (ws_worker s)) \<noteq> None" "0 < w_maxBatchSize (ws_worker s)"
      using work by (simp_all add: working_def qs)
    obtain rs qm' where pop: "qm_BatchPopMessages (\<lambda>_. 0) (w_queueName (ws_worker s)) (w_maxBatchSize (ws_worker s)) (qm, st) = Some (Inr rs, (qm', st))"
      "length rs = min (nat (w_maxBatchSize (ws_worker s))) (size (qm_waiting qm (w_queueName (ws_worker s))))"
      by (rule batch_pop_effect [OF pre, of "\<lambda>_. 0" st])
    have "rs \<noteq> []" using pop(2) waiting pre(3) by (auto simp: qs nonempty_has_size)
    with worker_step.tick [OF ok(1) i(1) LSelect pop(1) [folded qs] refl] show ?thesis by (intro exI conjI) (assumption, simp)
  next
    case LEnded
    then show ?thesis using i(2) by simp
  qed
qed

lemma busy_only: "busy ev \<Longrightarrow> ev \<noteq> WStop" "busy ev \<Longrightarrow> ev \<noteq> WStart" "busy ev \<Longrightarrow> ws_internal ev"
  by (cases ev; simp)+

lemma work_ends:
  assumes "working s" and "keeps_retries f" and "ws_loops s \<noteq> []"
  shows "\<exists>evs s'. worker_run impl f s evs s' \<and> list_all busy evs \<and> own_waiting s' = {#} \<and> in_flight s' = {#}"
  using assms
proof (induction "work_left s" arbitrary: s rule: less_induct)
  case less
  show ?case
  proof (cases "own_waiting s + in_flight s = {#}")
    case True
    then show ?thesis by (intro exI [of _ "[]"] exI [of _ s]) (auto intro: worker_run.nil)
  next
    case False
    obtain ev s1 where step: "worker_step impl f ev s s1" "busy ev"
      using work_goes_on [OF less.prems(1,3) False, of impl f] by blast
    have s1: "working s1" "work_left s1 < work_left s" "ws_loops s1 \<noteq> []"
      using work_step [OF less.prems(1,2) step(1) busy_only(1) [OF step(2)]] step(2) busy_only(2) less.prems(3) by auto
    obtain evs s' where "worker_run impl f s1 evs s'" "list_all busy evs" "own_waiting s' = {#}" "in_flight s' = {#}"
      using less.hyps [OF s1(2,1) less.prems(2) s1(3)] by blast
    then show ?thesis using worker_run_Cons [OF step(1)] step(2) by (intro exI [of _ "ev # evs"] exI [of _ s']) simp
  qed
qed

section \<open>Properties\<close>

lemma working_init:
  assumes "NewWorker config = Some w" and "0 < wc_MaxBatchSize config" "0 < wc_ProcessInterval config" "0 < wc_MaxConcurrent config"
    and "qm_inv (fst qs)" and "qm_queues (fst qs) (wc_QueueName config) \<noteq> None"
  shows "working (ws_init w qs)"
    and "work_left (ws_init w qs) = 3 * total_attempts (wc_BackoffStrategy config) (snd qs) (qm_waiting (fst qs) (wc_QueueName config))"
    and "w_queueName w = wc_QueueName config"
  using assms
  by (auto simp: NewWorker_def working_def ws_init_def sends_something_def work_left_def starting_def Let_def weigh_zero split: if_splits)

text \<open>
  C5 (drain). A worker made with a positive batch size, interval and concurrency, on an existing
  queue to which nobody else pushes and with a process function that leaves the retry counts
  alone, whatever it returns: in every interleaving of its loops and of the goroutines of the
  messages, \<^verbatim>\<open>Stop\<close> not called, nothing panics; the steps that do some work (a new ticker, a tick
  that pops something, a new goroutine, a message processed) are at most three for each attempt
  that the waiting messages have left at the start and one for each \<^verbatim>\<open>Start\<close>, so retrying ends;
  once a loop has been started, such a step is possible while any message is waiting, popped or
  running; and hence the goroutines alone can bring the worker to a state where none is.
\<close>

theorem worker_drains_queue:
  assumes "NewWorker config = Some w" and "0 < wc_MaxBatchSize config" "0 < wc_ProcessInterval config" "0 < wc_MaxConcurrent config"
    and "qm_inv (fst qs)" and "qm_queues (fst qs) (wc_QueueName config) \<noteq> None" and "keeps_retries f"
    and "worker_run impl f (ws_init w qs) evs s" and "WStop \<notin> set evs"
  shows "\<not> ws_panicked s \<and>
    busy_steps evs \<le> 3 * total_attempts (wc_BackoffStrategy config) (snd qs) (qm_waiting (fst qs) (wc_QueueName config)) + starts evs \<and>
    (WStart \<in> set evs \<longrightarrow>
      (qm_waiting (fst (ws_queues s)) (wc_QueueName config) + in_flight s \<noteq> {#} \<longrightarrow> (\<exists>ev s'. worker_step impl f ev s s' \<and> busy ev)) \<and>
      (\<exists>evs' s'. worker_run impl f s evs' s' \<and> list_all busy evs' \<and>
         qm_waiting (fst (ws_queues s')) (wc_QueueName config) = {#} \<and> in_flight s' = {#}))"
proof -
  note init = working_init [OF assms(1-6)]
  have run: "working s \<and> work_left s + busy_steps evs \<le> work_left (ws_init w qs) + starts evs \<and>
      w_queueName (ws_worker s) = wc_QueueName config \<and> (WStart \<in> set evs \<longrightarrow> ws_loops s \<noteq> [])"
    using work_run [OF assms(8) init(1) assms(7,9)] init(3) by (simp add: ws_init_def)
  have names: "w_queueName (ws_worker s') = wc_QueueName config" if "worker_run impl f s evs' s'" "list_all busy evs'" for evs' s'
    using work_run [OF that(1) _ assms(7)] run busy_only(1) that(2) by (auto simp: list_all_iff)
  have ends: "\<exists>evs' s'. worker_run impl f s evs' s' \<and> list_all busy evs' \<and>
      qm_waiting (fst (ws_queues s')) (wc_QueueName config) = {#} \<and> in_flight s' = {#}" if "WStart \<in> set evs"
    using work_ends [of s f impl] run that assms(7) names by metis
  have goes: "\<exists>ev s'. worker_step impl f ev s s' \<and> busy ev"
    if "WStart \<in> set evs" "qm_waiting (fst (ws_queues s)) (wc_QueueName config) + in_flight s \<noteq> {#}"
    using work_goes_on [of s impl f] run that by metis
  have "\<not> ws_panicked s" using run by (simp add: working_def)
  then show ?thesis using run init(2) ends goes by simp
qed

text \<open>A message popped by a worker whose function always fails: retried until it is given up.\<close>

theorem worker_drains_queue_witness:
  "\<exists>w. NewWorker (sample_worker_config 1) = Some w \<and>
     worker_run (\<lambda>_. 0) always_fails (ws_init w sample_state) [WStart, WTicker 0, WTick 0 (\<lambda>_. 9) [1]] (sample_popped w) \<and>
     in_flight (sample_popped w) = {#1#} \<and>
     (\<exists>evs' s'. worker_run (\<lambda>_. 0) always_fails (sample_popped w) evs' s' \<and> list_all busy evs' \<and>
        qm_waiting (fst (ws_queues s')) ''q'' = {#} \<and> in_flight s' = {#})"
proof -
  define w where "w = the (NewWorker (sample_worker_config 1))"
  have w: "NewWorker (sample_worker_config 1) = Some w" "w_queueName w = ''q''" "w_maxBatchSize w = 2" "0 < w_processInterval w"
    by (simp_all add: w_def NewWorker_def sample_worker_config_def)
  have config: "wc_QueueName (sample_worker_config 1) = ''q''" "0 < wc_MaxBatchSize (sample_worker_config 1)"
    "0 < wc_ProcessInterval (sample_worker_config 1)" "0 < wc_MaxConcurrent (sample_worker_config 1)"
    by (simp_all add: sample_worker_config_def)
  have keeps: "keeps_retries always_fails" by (simp add: keeps_retries_def always_fails_def)
  have queue: "qm_queues (fst sample_state) (wc_QueueName (sample_worker_config 1)) \<noteq> None"
    unfolding config(1) by (rule option.discI [OF sample_queue])
  note run = sample_popped_run [OF w(2-4), where impl = "\<lambda>_. 0" and f = always_fails]
  have "in_flight (sample_popped w) = {#1#}" by (simp add: in_flight_def sample_popped_def ws_init_def)
  moreover from worker_drains_queue [OF w(1) config(2-4) sample_inv queue keeps run]
  have "\<exists>evs' s'. worker_run (\<lambda>_. 0) always_fails (sample_popped w) evs' s' \<and> list_all busy evs' \<and>
      qm_waiting (fst (ws_queues s')) ''q'' = {#} \<and> in_flight s' = {#}"
    unfolding config(1) by simp
  ultimately show ?thesis using w(1) run by blast
qed

end
