(* ===== verification/DelayedQueue.thy ===== *)
theory DelayedQueue
  imports GoHeap Models
begin

text \<open>
  \<^verbatim>\<open>internal/priorityqueue/delayed_queue.go\<close>: a heap of messages by the time they
  become ready, the goroutine \<^verbatim>\<open>run\<close> that releases them, and the goroutine
  \<^verbatim>\<open>processReadyItems\<close> that receives them. The heap interprets \<open>heap_interface\<close>. The
  goroutines, the channels and the timer are a step relation \<open>dq_step\<close> over program
  points: every lock section, clock reading and channel operation is a step of its own, so
  \<^verbatim>\<open>Schedule\<close>, \<^verbatim>\<open>Clear\<close> and \<^verbatim>\<open>Stop\<close> interleave as they do in the program.
\<close>

section \<open>The heap of delayed items\<close>

record DelayedItem =
  dit_Message :: mref
  dit_ReadyAt :: go_time
  dit_Index :: int

type_synonym dq_heap = "DelayedItem list"

definition dq_Len :: "dq_heap \<Rightarrow> nat" where
  "dq_Len items = length items"

definition dq_Less :: "dq_heap \<Rightarrow> nat \<Rightarrow> nat \<Rightarrow> bool" where
  "dq_Less items i j = time_before (dit_ReadyAt (items ! i)) (dit_ReadyAt (items ! j))"

definition dq_Swap :: "dq_heap \<Rightarrow> nat \<Rightarrow> nat \<Rightarrow> dq_heap" where
  "dq_Swap items i j =
     (let items1 = items[i := items ! j, j := items ! i];
          items2 = items1[i := (items1 ! i)\<lparr>dit_Index := int i\<rparr>]
      in items2[j := (items2 ! j)\<lparr>dit_Index := int j\<rparr>])"

definition dq_Push :: "dq_heap \<Rightarrow> DelayedItem \<Rightarrow> dq_heap" where
  "dq_Push items item = items @ [item\<lparr>dit_Index := int (length items)\<rparr>]"

definition dq_Pop :: "dq_heap \<Rightarrow> DelayedItem \<times> dq_heap" where
  "dq_Pop items = (let n = length items in ((items ! (n - 1))\<lparr>dit_Index := -1\<rparr>, take (n - 1) items))"

definition dq_heap_Push :: "dq_heap \<Rightarrow> DelayedItem \<Rightarrow> dq_heap" where
  "dq_heap_Push = heap_Push dq_Len dq_Less dq_Swap dq_Push"

definition dq_heap_Pop :: "dq_heap \<Rightarrow> (DelayedItem \<times> dq_heap) option" where
  "dq_heap_Pop = heap_Pop dq_Len dq_Less dq_Swap dq_Pop"

definition dq_heap_Init :: "dq_heap \<Rightarrow> dq_heap" where
  "dq_heap_Init = heap_Init dq_Len dq_Less dq_Swap"

type_synonym delayed = "mref \<times> go_time"

definition delayed_of :: "DelayedItem \<Rightarrow> delayed" where
  "delayed_of it = (dit_Message it, dit_ReadyAt it)"

definition dq_entries :: "dq_heap \<Rightarrow> delayed list" where
  "dq_entries items = map delayed_of items"

definition dq_indexed :: "dq_heap \<Rightarrow> bool" where
  "dq_indexed items \<longleftrightarrow> (\<forall>i < length items. dit_Index (items ! i) = int i)"

lemma delayed_of_index [simp]: "delayed_of (it\<lparr>dit_Index := k\<rparr>) = delayed_of it"
  by (simp add: delayed_of_def)

lemma length_dq_entries [simp]: "length (dq_entries items) = length items"
  by (simp add: dq_entries_def)

interpretation dqh: heap_interface dq_Len dq_Less dq_Swap dq_Push dq_Pop
    dq_entries delayed_of snd dq_indexed
proof unfold_locales
  show "dq_Len h = length (dq_entries h)" for h :: dq_heap
    by (simp add: dq_Len_def)
  show "dq_Less h i j \<longleftrightarrow> snd (dq_entries h ! i) < snd (dq_entries h ! j)"
    if "i < dq_Len h" "j < dq_Len h" for h :: dq_heap and i j
    using that by (simp add: dq_Len_def dq_Less_def dq_entries_def delayed_of_def time_before_def)
  show "dq_entries (dq_Swap h i j) = swap_nth i j (dq_entries h)"
    if "i < dq_Len h" "j < dq_Len h" for h :: dq_heap and i j
    using that by (intro nth_equalityI)
      (auto simp: dq_Len_def dq_entries_def dq_Swap_def Let_def swap_nth_def nth_list_update)
  show "dq_entries (dq_Push h x) = dq_entries h @ [delayed_of x]" for h :: dq_heap and x
    by (simp add: dq_entries_def dq_Push_def)
  show "dq_entries (snd (dq_Pop h)) = butlast (dq_entries h)" if "0 < dq_Len h" for h :: dq_heap
    by (simp add: dq_entries_def dq_Pop_def Let_def butlast_conv_take take_map)
  show "delayed_of (fst (dq_Pop h)) = last (dq_entries h)" if "0 < dq_Len h" for h :: dq_heap
    using that by (simp add: dq_entries_def dq_Pop_def Let_def dq_Len_def last_conv_nth)
  show "dq_indexed (dq_Swap h i j)"
    if "dq_indexed h" "i < dq_Len h" "j < dq_Len h" for h :: dq_heap and i j
    using that by (auto simp: dq_Len_def dq_indexed_def dq_Swap_def Let_def nth_list_update)
  show "dq_indexed (dq_Push h x)" if "dq_indexed h" for h :: dq_heap and x
    using that by (auto simp: dq_indexed_def dq_Push_def nth_append less_Suc_eq)
  show "dq_indexed (snd (dq_Pop h))" if "dq_indexed h" "0 < dq_Len h" for h :: dq_heap
    using that by (auto simp: dq_indexed_def dq_Pop_def Let_def)
qed

section \<open>The queue and its goroutines\<close>

text \<open>
  Where \<^verbatim>\<open>run\<close> is: at the top of the loop; about to read the clock; in the lock section
  that pops a due item (with the clock reading); about to set the timer (clock reading and
  duration); in the \<^verbatim>\<open>select\<close> (timer deadline); blocked sending on \<^verbatim>\<open>readyCh\<close>; gone.
\<close>

datatype run_pc =
    RTop | RCheck | RDue go_time | RTimer go_time duration | RSelect go_time | RSend DelayedItem | RDone

datatype recv_pc = PWait | PBusy mref | PDone

text \<open>
  \<open>dq_scheduled\<close>, \<open>dq_released\<close> (with the time of release), \<open>dq_handled\<close> and \<open>dq_cleared\<close>
  record what happened; the program has no such fields.
\<close>

record DelayedQueue =
  dq_items :: dq_heap
  dq_nextItem :: "DelayedItem option"
  dq_cancelled :: bool
  dq_run :: run_pc
  dq_recv :: recv_pc
  dq_clock :: go_time
  dq_scheduled :: "delayed list"
  dq_released :: "(delayed \<times> go_time) list"
  dq_handled :: "mref list"
  dq_cleared :: "delayed list"

definition NewDelayedQueue :: "go_time \<Rightarrow> DelayedQueue" where
  "NewDelayedQueue now =
     \<lparr>dq_items = dq_heap_Init [], dq_nextItem = None, dq_cancelled = False, dq_run = RDone,
      dq_recv = PDone, dq_clock = now, dq_scheduled = [], dq_released = [], dq_handled = [], dq_cleared = []\<rparr>"

text \<open>Before \<^verbatim>\<open>Start\<close> there are no goroutines, as after their end.\<close>

definition dq_Start :: "DelayedQueue \<Rightarrow> DelayedQueue" where
  "dq_Start dq = dq\<lparr>dq_run := RTop, dq_recv := PWait\<rparr>"

definition dq_Size :: "DelayedQueue \<Rightarrow> int" where
  "dq_Size dq = int (dq_Len (dq_items dq))"

definition dq_Peek :: "DelayedQueue \<Rightarrow> (mref option \<times> go_time \<times> bool)" where
  "dq_Peek dq =
     (if dq_Len (dq_items dq) = 0 then (None, zero_time, False)
      else let item = dq_items dq ! 0 in (Some (dit_Message item), dit_ReadyAt item, True))"

definition dq_Clear :: "DelayedQueue \<Rightarrow> DelayedQueue" where
  "dq_Clear dq = dq\<lparr>dq_items := dq_heap_Init [], dq_cleared := dq_cleared dq @ dq_entries (dq_items dq)\<rparr>"

definition dq_Stop :: "DelayedQueue \<Rightarrow> DelayedQueue" where
  "dq_Stop dq = dq\<lparr>dq_cancelled := True\<rparr>"

definition dq_ScheduleAfter :: "go_time \<Rightarrow> duration \<Rightarrow> go_time" where
  "dq_ScheduleAfter now delay = time_add now delay"

text \<open>\<^verbatim>\<open>Schedule\<close> makes an item and sends it; the receive is in the \<^verbatim>\<open>select\<close> of \<^verbatim>\<open>run\<close>.\<close>

definition dq_Schedule :: "mref \<Rightarrow> go_time \<Rightarrow> DelayedItem" where
  [simp]: "dq_Schedule r readyAt = \<lparr>dit_Message = r, dit_ReadyAt = readyAt, dit_Index = 0\<rparr>"

definition dq_accept :: "mref \<Rightarrow> go_time \<Rightarrow> DelayedQueue \<Rightarrow> DelayedQueue" where
  "dq_accept r readyAt dq =
     dq\<lparr>dq_items := dq_heap_Push (dq_items dq) (dq_Schedule r readyAt),
        dq_scheduled := dq_scheduled dq @ [(r, readyAt)], dq_run := RTop\<rparr>"

definition dq_refresh :: "DelayedQueue \<Rightarrow> DelayedQueue" where
  "dq_refresh dq =
     (if dq_Len (dq_items dq) > 0 \<and>
         (case dq_nextItem dq of None \<Rightarrow> True
          | Some next \<Rightarrow> time_before (dit_ReadyAt (dq_items dq ! 0)) (dit_ReadyAt next))
      then dq\<lparr>dq_nextItem := Some (dq_items dq ! 0), dq_run := RCheck\<rparr>
      else dq\<lparr>dq_run := RCheck\<rparr>)"

definition dq_check :: "DelayedQueue \<Rightarrow> DelayedQueue" where
  "dq_check dq =
     (let now = dq_clock dq
      in case dq_nextItem dq of
           None \<Rightarrow> dq\<lparr>dq_run := RTimer now (24 * hour)\<rparr>
         | Some next \<Rightarrow>
             if time_after now (dit_ReadyAt next) \<or> now = dit_ReadyAt next then dq\<lparr>dq_run := RDue now\<rparr>
             else dq\<lparr>dq_run := RTimer now (time_sub (dit_ReadyAt next) now)\<rparr>)"

text \<open>
  The lock section that pops the first item when it is due at \<open>now\<close>, to within a
  millisecond; otherwise the run goes on at \<open>pc\<close>.
\<close>

definition dq_pop_ready :: "go_time \<Rightarrow> run_pc \<Rightarrow> DelayedQueue \<Rightarrow> DelayedQueue" where
  "dq_pop_ready now pc dq =
     (if dq_Len (dq_items dq) > 0 \<and> time_before (dit_ReadyAt (dq_items dq ! 0)) (time_add now millisecond)
      then let (item, items') = the (dq_heap_Pop (dq_items dq))
           in dq\<lparr>dq_items := items', dq_run := RSend item,
                 dq_released := dq_released dq @ [(delayed_of item, dq_clock dq)]\<rparr>
      else dq\<lparr>dq_run := pc\<rparr>)"

datatype dq_event = Advance | Run | Accept mref go_time | Receive | Handled | ReceiverExit | DoClear | DoStop

inductive dq_step :: "dq_event \<Rightarrow> DelayedQueue \<Rightarrow> DelayedQueue \<Rightarrow> bool" where
  advance: "dq_clock dq \<le> t \<Longrightarrow> dq_step Advance dq (dq\<lparr>dq_clock := t\<rparr>)"
| top: "dq_run dq = RTop \<Longrightarrow> dq_step Run dq (dq_refresh dq)"
| check: "dq_run dq = RCheck \<Longrightarrow> dq_step Run dq (dq_check dq)"
| due: "dq_run dq = RDue now \<Longrightarrow> dq_step Run dq (dq_pop_ready now (RTimer now 0) dq)"
| timer: "dq_run dq = RTimer now d \<Longrightarrow> dq_step Run dq (dq\<lparr>dq_run := RSelect (time_add (dq_clock dq) d)\<rparr>)"
| cancelled: "dq_run dq = RSelect t \<Longrightarrow> dq_cancelled dq \<Longrightarrow> dq_step Run dq (dq\<lparr>dq_run := RDone\<rparr>)"
| accept: "dq_run dq = RSelect t \<Longrightarrow> dq_step (Accept r readyAt) dq (dq_accept r readyAt dq)"
| fires: "dq_run dq = RSelect t \<Longrightarrow> t \<le> dq_clock dq \<Longrightarrow>
    dq_step Run dq (dq_pop_ready (dq_clock dq) RTop dq)"
| receive: "dq_run dq = RSend item \<Longrightarrow> dq_recv dq = PWait \<Longrightarrow>
    dq_step Receive dq (dq\<lparr>dq_run := RTop, dq_nextItem := None, dq_recv := PBusy (dit_Message item)\<rparr>)"
| handled: "dq_recv dq = PBusy r \<Longrightarrow>
    dq_step Handled dq (dq\<lparr>dq_recv := PWait, dq_handled := dq_handled dq @ [r]\<rparr>)"
| receiver_exit: "dq_recv dq = PWait \<Longrightarrow> dq_cancelled dq \<Longrightarrow> dq_step ReceiverExit dq (dq\<lparr>dq_recv := PDone\<rparr>)"
| clear: "dq_step DoClear dq (dq_Clear dq)"
| stop: "\<not> dq_cancelled dq \<Longrightarrow> dq_step DoStop dq (dq_Stop dq)"

inductive_cases dq_stepE: "dq_step ev dq dq'"

inductive dq_reach :: "go_time \<Rightarrow> dq_event list \<Rightarrow> DelayedQueue \<Rightarrow> bool" for now where
  init: "dq_reach now [] (dq_Start (NewDelayedQueue now))"
| step: "dq_reach now evs dq \<Longrightarrow> dq_step ev dq dq' \<Longrightarrow> dq_reach now (evs @ [ev]) dq'"

section \<open>Invariants\<close>

lemma dq_Init_Nil: "dq_heap_Init [] = []"
  by (simp add: dq_heap_Init_def heap_Init_def dq_Len_def)

lemma dq_ok_Nil: "dqh.heap_ok []"
  by (simp add: dqh.heap_ok_def dq_indexed_def dq_entries_def heap_from_def)

lemma dq_ok_Push:
  assumes "dqh.heap_ok items"
  shows "dqh.heap_ok (dq_heap_Push items it)"
    and "mset (dq_entries (dq_heap_Push items it)) = add_mset (delayed_of it) (mset (dq_entries items))"
  using dqh.heap_Push_correct [OF assms] by (simp_all add: dq_heap_Push_def)

lemma dq_ok_Pop:
  assumes "dqh.heap_ok items" and "items \<noteq> []"
  obtains it items' where "dq_heap_Pop items = Some (it, items')" "dqh.heap_ok items'"
    "delayed_of it = delayed_of (items ! 0)"
    "mset (dq_entries items) = add_mset (delayed_of it) (mset (dq_entries items'))"
    "\<forall>e \<in> set (dq_entries items). dit_ReadyAt it \<le> snd e"
proof -
  have "dq_heap_Pop items \<noteq> None"
    using dqh.heap_Pop_None [of items] assms(2) by (auto simp: dq_heap_Pop_def dq_entries_def)
  then obtain it items' where p: "dq_heap_Pop items = Some (it, items')" by auto
  note c = dqh.heap_Pop_correct [OF assms(1) p [unfolded dq_heap_Pop_def]]
  show ?thesis
  proof (rule that [OF p])
    show "delayed_of it = delayed_of (items ! 0)" using c(2) assms(2) by (simp add: dq_entries_def)
    show "\<forall>e \<in> set (dq_entries items). dit_ReadyAt it \<le> snd e" using c(4) by (simp add: delayed_of_def)
  qed (use c in simp_all)
qed

text \<open>The lock section either pops the earliest item or changes the program point only.\<close>

lemma dq_pop_ready_cases:
  assumes "dqh.heap_ok (dq_items dq)"
  obtains (kept) "dq_pop_ready now pc dq = dq\<lparr>dq_run := pc\<rparr>"
      "dq_items dq \<noteq> [] \<Longrightarrow> now + millisecond \<le> dit_ReadyAt (dq_items dq ! 0)"
  | (popped) it items' where "dq_pop_ready now pc dq =
        dq\<lparr>dq_items := items', dq_run := RSend it, dq_released := dq_released dq @ [(delayed_of it, dq_clock dq)]\<rparr>"
      "dqh.heap_ok items'" "mset (dq_entries (dq_items dq)) = add_mset (delayed_of it) (mset (dq_entries items'))"
      "\<forall>e \<in> set (dq_entries (dq_items dq)). dit_ReadyAt it \<le> snd e" "dit_ReadyAt it < now + millisecond"
      "delayed_of it = delayed_of (dq_items dq ! 0)"
proof (cases "dq_Len (dq_items dq) > 0 \<and> time_before (dit_ReadyAt (dq_items dq ! 0)) (time_add now millisecond)")
  case True
  then have ne: "dq_items dq \<noteq> []" by (auto simp: dq_Len_def)
  obtain it items' where i: "dq_heap_Pop (dq_items dq) = Some (it, items')" "dqh.heap_ok items'"
    "delayed_of it = delayed_of (dq_items dq ! 0)"
    "mset (dq_entries (dq_items dq)) = add_mset (delayed_of it) (mset (dq_entries items'))"
    "\<forall>e \<in> set (dq_entries (dq_items dq)). dit_ReadyAt it \<le> snd e"
    by (rule dq_ok_Pop [OF assms ne])
  then have "dit_ReadyAt it < now + millisecond"
    using True by (simp add: delayed_of_def time_before_def time_add_def)
  moreover have "dq_pop_ready now pc dq =
      dq\<lparr>dq_items := items', dq_run := RSend it, dq_released := dq_released dq @ [(delayed_of it, dq_clock dq)]\<rparr>"
    using True i(1) by (simp add: dq_pop_ready_def)
  ultimately show ?thesis using i by (intro popped)
next
  case False
  then show ?thesis
    by (intro kept) (auto simp: dq_pop_ready_def dq_Len_def time_before_def time_add_def)
qed

definition dq_in_flight :: "DelayedQueue \<Rightarrow> mref list" where
  "dq_in_flight dq = (case dq_recv dq of PBusy r \<Rightarrow> [r] | _ \<Rightarrow> [])
     @ (case dq_run dq of RSend it \<Rightarrow> [dit_Message it] | _ \<Rightarrow> [])"

definition dq_inv :: "DelayedQueue \<Rightarrow> bool" where
  "dq_inv dq \<longleftrightarrow> dqh.heap_ok (dq_items dq) \<and>
     mset (dq_scheduled dq) = mset (dq_entries (dq_items dq)) + mset (dq_cleared dq) + mset (map fst (dq_released dq)) \<and>
     map (fst \<circ> fst) (dq_released dq) = dq_handled dq @ dq_in_flight dq \<and>
     (\<forall>(d, t) \<in> set (dq_released dq). snd d < t + millisecond \<and> t \<le> dq_clock dq) \<and>
     (case dq_run dq of RDue now \<Rightarrow> now \<le> dq_clock dq | RTimer now d \<Rightarrow> now \<le> dq_clock dq | _ \<Rightarrow> True)"

lemma dq_inv_init: "dq_inv (dq_Start (NewDelayedQueue now))"
  by (simp add: dq_inv_def dq_Start_def NewDelayedQueue_def dq_Init_Nil dq_ok_Nil dq_entries_def dq_in_flight_def)

lemma dq_inv_pop_ready:
  assumes inv: "dq_inv dq" and pc: "dq_run dq = RDue now \<or> dq_run dq = RSelect t" "now \<le> dq_clock dq"
    and pc': "pc' = RTop \<or> pc' = RTimer now 0"
  shows "dq_inv (dq_pop_ready now pc' dq)"
proof -
  have heap: "dqh.heap_ok (dq_items dq)" using inv by (simp add: dq_inv_def)
  then show ?thesis
  proof (cases rule: dq_pop_ready_cases [where now = now and pc = pc'])
    case kept
    then show ?thesis using inv pc pc' by (auto simp: dq_inv_def dq_in_flight_def)
  next
    case (popped it items')
    have "dq_in_flight (dq\<lparr>dq_items := items', dq_run := RSend it,
        dq_released := dq_released dq @ [(delayed_of it, dq_clock dq)]\<rparr>) = dq_in_flight dq @ [dit_Message it]"
      using pc(1) by (auto simp: dq_in_flight_def)
    with popped inv pc show ?thesis
      unfolding popped(1) dq_inv_def by (auto simp: delayed_of_def)
  qed
qed

lemma dq_step_inv: "dq_step ev dq dq' \<Longrightarrow> dq_inv dq \<Longrightarrow> dq_inv dq'"
proof (induction rule: dq_step.induct)
  case (advance dq t)
  then show ?case by (fastforce simp: dq_inv_def dq_in_flight_def split: run_pc.splits)
next
  case (due dq now)
  then have "now \<le> dq_clock dq" by (simp add: dq_inv_def)
  with due show ?case by (intro dq_inv_pop_ready) auto
next
  case (fires dq t)
  then show ?case by (intro dq_inv_pop_ready) auto
next
  case (accept dq t r readyAt)
  have "dqh.heap_ok (dq_items dq)" using accept.prems by (simp add: dq_inv_def)
  from dq_ok_Push [OF this] accept show ?case
    by (simp add: dq_inv_def dq_accept_def dq_in_flight_def delayed_of_def)
next
  case (receiver_exit dq)
  then show ?case by (simp add: dq_inv_def dq_in_flight_def split: run_pc.splits)
next
  case (handled dq r)
  then show ?case by (simp add: dq_inv_def dq_in_flight_def split: run_pc.splits)
next
  case (clear dq)
  then show ?case
    by (simp add: dq_inv_def dq_in_flight_def dq_Clear_def dq_Init_Nil dq_ok_Nil dq_entries_def split: run_pc.splits)
next
  case (stop dq)
  then show ?case by (simp add: dq_inv_def dq_in_flight_def dq_Stop_def split: run_pc.splits)
qed (auto simp: dq_inv_def dq_in_flight_def dq_refresh_def dq_check_def Let_def dq_Clear_def dq_Stop_def
    dq_Init_Nil dq_ok_Nil dq_entries_def split: option.splits)

lemma dq_reach_inv: "dq_reach now evs dq \<Longrightarrow> dq_inv dq"
  by (induction rule: dq_reach.induct) (use dq_inv_init dq_step_inv in blast)+

section \<open>Progress\<close>

text \<open>Continuations in which nobody schedules, clears or stops.\<close>

definition dq_quiet :: "dq_event \<Rightarrow> bool" where
  "dq_quiet ev \<longleftrightarrow> ev \<in> {Advance, Run, Receive, Handled}"

inductive dq_quiet_steps :: "DelayedQueue \<Rightarrow> DelayedQueue \<Rightarrow> bool" where
  refl: "dq_quiet_steps dq dq"
| step: "dq_step ev dq dq1 \<Longrightarrow> dq_quiet ev \<Longrightarrow> dq_quiet_steps dq1 dq2 \<Longrightarrow> dq_quiet_steps dq dq2"

definition dq_can_release :: "DelayedQueue \<Rightarrow> bool" where
  "dq_can_release dq \<longleftrightarrow> (\<exists>dq'. dq_quiet_steps dq dq' \<and> length (dq_released dq') = Suc (length (dq_released dq)))"

lemma dq_can_release_step:
  assumes "dq_step ev dq dq1" and "dq_quiet ev" and "dq_released dq1 = dq_released dq" and "dq_can_release dq1"
  shows "dq_can_release dq"
  using assms dq_quiet_steps.step unfolding dq_can_release_def by metis

lemma dq_can_release_now:
  assumes "dq_step ev dq dq1" and "dq_quiet ev" and "length (dq_released dq1) = Suc (length (dq_released dq))"
  shows "dq_can_release dq"
  using assms dq_quiet_steps.step [OF _ _ dq_quiet_steps.refl] unfolding dq_can_release_def by metis

lemma dq_pop_ready_fields [simp]:
  "dq_nextItem (dq_pop_ready now pc dq) = dq_nextItem dq" "dq_recv (dq_pop_ready now pc dq) = dq_recv dq"
  by (simp_all add: dq_pop_ready_def case_prod_beta)

text \<open>From the \<^verbatim>\<open>select\<close> the clock can reach the timer and the first item.\<close>

lemma dq_progress_select:
  assumes inv: "dq_inv dq" and ne: "dq_items dq \<noteq> []" and pc: "dq_run dq = RSelect t"
  shows "dq_can_release dq"
proof -
  let ?now = "max (dq_clock dq) (max t (dit_ReadyAt (dq_items dq ! 0)))"
  let ?dq1 = "dq\<lparr>dq_clock := ?now\<rparr>"
  have adv: "dq_step Advance dq ?dq1" by (rule dq_step.advance) simp
  have fire: "dq_step Run ?dq1 (dq_pop_ready ?now RTop ?dq1)"
    using dq_step.fires [of ?dq1 t] pc by simp
  have heap: "dqh.heap_ok (dq_items ?dq1)" using inv by (simp add: dq_inv_def)
  from heap have "length (dq_released (dq_pop_ready ?now RTop ?dq1)) = Suc (length (dq_released ?dq1))"
  proof (cases rule: dq_pop_ready_cases [where now = ?now and pc = RTop])
    case kept
    from kept(2) ne have "?now + millisecond \<le> dit_ReadyAt (dq_items dq ! 0)" by simp
    then show ?thesis by linarith
  next
    case (popped it items')
    then show ?thesis by simp
  qed
  then have "dq_can_release ?dq1" by (intro dq_can_release_now [OF fire]) (simp_all add: dq_quiet_def)
  then show ?thesis by (intro dq_can_release_step [OF adv]) (simp_all add: dq_quiet_def)
qed

lemma dq_progress_timer:
  assumes inv: "dq_inv dq" and ne: "dq_items dq \<noteq> []" and pc: "dq_run dq = RTimer now d"
  shows "dq_can_release dq"
proof (rule dq_can_release_step [OF dq_step.timer [OF pc]])
  let ?dq1 = "dq\<lparr>dq_run := RSelect (time_add (dq_clock dq) d)\<rparr>"
  have "dq_inv ?dq1" by (rule dq_step_inv [OF dq_step.timer [OF pc] inv])
  then show "dq_can_release ?dq1" by (rule dq_progress_select) (use ne in simp_all)
qed (simp_all add: dq_quiet_def)

lemma dq_progress_due:
  assumes inv: "dq_inv dq" and ne: "dq_items dq \<noteq> []" and pc: "dq_run dq = RDue now"
  shows "dq_can_release dq"
proof -
  note step = dq_step.due [OF pc]
  have heap: "dqh.heap_ok (dq_items dq)" using inv by (simp add: dq_inv_def)
  then show ?thesis
  proof (cases rule: dq_pop_ready_cases [where now = now and pc = "RTimer now 0"])
    case kept
    have "dq_can_release (dq_pop_ready now (RTimer now 0) dq)"
      by (rule dq_progress_timer [OF dq_step_inv [OF step inv]]) (use kept(1) ne in simp_all)
    then show ?thesis by (rule dq_can_release_step [OF step, rotated 2]) (simp_all add: kept(1) dq_quiet_def)
  next
    case (popped it items')
    then show ?thesis by (intro dq_can_release_now [OF step]) (simp_all add: dq_quiet_def)
  qed
qed

lemma dq_progress_check:
  assumes inv: "dq_inv dq" and ne: "dq_items dq \<noteq> []" and pc: "dq_run dq = RCheck"
  shows "dq_can_release dq"
proof -
  note step = dq_step.check [OF pc]
  have same: "dq_items (dq_check dq) = dq_items dq" "dq_released (dq_check dq) = dq_released dq"
    by (simp_all add: dq_check_def Let_def split: option.split)
  have "\<exists>now d. dq_run (dq_check dq) = RDue now \<or> dq_run (dq_check dq) = RTimer now d"
    by (auto simp: dq_check_def Let_def split: option.split)
  then obtain now d where "dq_run (dq_check dq) = RDue now \<or> dq_run (dq_check dq) = RTimer now d" by blast
  then have "dq_can_release (dq_check dq)"
    using dq_progress_due dq_progress_timer dq_step_inv [OF step inv] ne same by metis
  then show ?thesis by (intro dq_can_release_step [OF step]) (simp_all add: same dq_quiet_def)
qed

lemma dq_progress_top:
  assumes inv: "dq_inv dq" and ne: "dq_items dq \<noteq> []" and pc: "dq_run dq = RTop"
  shows "dq_can_release dq"
proof -
  note step = dq_step.top [OF pc]
  have "dq_can_release (dq_refresh dq)"
    by (rule dq_progress_check [OF dq_step_inv [OF step inv]]) (use ne in \<open>simp_all add: dq_refresh_def\<close>)
  then show ?thesis by (intro dq_can_release_step [OF step]) (simp_all add: dq_refresh_def dq_quiet_def)
qed

lemma dq_progress_send:
  assumes inv: "dq_inv dq" and ne: "dq_items dq \<noteq> []" and pc: "dq_run dq = RSend it" and recv: "dq_recv dq = PWait"
  shows "dq_can_release dq"
proof (rule dq_can_release_step [OF dq_step.receive [OF pc recv]])
  let ?dq1 = "dq\<lparr>dq_run := RTop, dq_nextItem := None, dq_recv := PBusy (dit_Message it)\<rparr>"
  have "dq_inv ?dq1" by (rule dq_step_inv [OF dq_step.receive [OF pc recv] inv])
  then show "dq_can_release ?dq1" by (rule dq_progress_top) (use ne in simp_all)
qed (simp_all add: dq_quiet_def)

lemma dq_progress:
  assumes inv: "dq_inv dq" and ne: "dq_items dq \<noteq> []" and "dq_run dq \<noteq> RDone" and "dq_recv dq \<noteq> PDone"
  shows "dq_can_release dq"
proof (cases "dq_run dq")
  case (RSend it)
  show ?thesis
  proof (cases "dq_recv dq")
    case PWait
    show ?thesis by (rule dq_progress_send [OF inv ne RSend PWait])
  next
    case (PBusy r)
    note step = dq_step.handled [OF PBusy]
    have "dq_can_release (dq\<lparr>dq_recv := PWait, dq_handled := dq_handled dq @ [r]\<rparr>)"
      by (rule dq_progress_send [OF dq_step_inv [OF step inv]]) (use ne RSend in simp_all)
    then show ?thesis by (intro dq_can_release_step [OF step]) (simp_all add: dq_quiet_def)
  qed (use assms(4) in simp)
qed (use assms dq_progress_top dq_progress_check dq_progress_due dq_progress_timer dq_progress_select in auto)

section \<open>The timer\<close>

text \<open>Without \<^verbatim>\<open>Clear\<close>, \<^verbatim>\<open>nextItem\<close> is the first item whenever the loop acts on it.\<close>

definition dq_next_inv :: "DelayedQueue \<Rightarrow> bool" where
  "dq_next_inv dq \<longleftrightarrow>
     (\<forall>next. dq_nextItem dq = Some next \<longrightarrow> (case dq_run dq of RSend it \<Rightarrow> True | _ \<Rightarrow>
        dq_items dq \<noteq> [] \<and> dit_ReadyAt (dq_items dq ! 0) \<le> dit_ReadyAt next)) \<and>
     (case dq_run dq of
        RCheck \<Rightarrow> (dq_items dq \<noteq> [] \<longrightarrow> (\<exists>next. dq_nextItem dq = Some next \<and> dit_ReadyAt next = dit_ReadyAt (dq_items dq ! 0)))
      | RDue now \<Rightarrow> dq_items dq \<noteq> [] \<and> dit_ReadyAt (dq_items dq ! 0) \<le> now
      | RTimer now d \<Rightarrow> (if dq_items dq = [] then d = 24 * hour
          else now < dit_ReadyAt (dq_items dq ! 0) \<and> d = time_sub (dit_ReadyAt (dq_items dq ! 0)) now)
      | _ \<Rightarrow> True)"

lemma dq_Push_head:
  assumes "dqh.heap_ok items"
  shows "dq_heap_Push items it \<noteq> []" and "items \<noteq> [] \<Longrightarrow> dit_ReadyAt (dq_heap_Push items it ! 0) \<le> dit_ReadyAt (items ! 0)"
proof -
  have m: "mset (dq_entries (dq_heap_Push items it)) = add_mset (delayed_of it) (mset (dq_entries items))"
    by (rule dq_ok_Push [OF assms])
  then show ne: "dq_heap_Push items it \<noteq> []" by (auto simp: dq_entries_def)
  assume "items \<noteq> []"
  then have "delayed_of (items ! 0) \<in> set (dq_entries items)" by (simp add: dq_entries_def)
  then have mem: "delayed_of (items ! 0) \<in> set (dq_entries (dq_heap_Push items it))"
    using m by (metis set_mset_mset set_mset_add_mset_insert insertI2)
  obtain x items' where "delayed_of x = delayed_of (dq_heap_Push items it ! 0)"
    "\<forall>e \<in> set (dq_entries (dq_heap_Push items it)). dit_ReadyAt x \<le> snd e"
    by (rule dq_ok_Pop [OF dq_ok_Push(1) [OF assms] ne])
  with mem show "dit_ReadyAt (dq_heap_Push items it ! 0) \<le> dit_ReadyAt (items ! 0)"
    by (force simp: delayed_of_def)
qed

lemma dq_step_next:
  "dq_step ev dq dq' \<Longrightarrow> dq_inv dq \<Longrightarrow> ev \<noteq> DoClear \<Longrightarrow> dq_next_inv dq \<Longrightarrow> dq_next_inv dq'"
proof (induction rule: dq_step.induct)
  case (top dq)
  then show ?case
    by (auto simp: dq_next_inv_def dq_refresh_def dq_Len_def time_before_def split: option.splits)
next
  case (check dq)
  then show ?case
    by (auto simp: dq_next_inv_def dq_check_def Let_def time_after_def split: option.splits)
next
  case (due dq now)
  have heap: "dqh.heap_ok (dq_items dq)" using due.prems by (simp add: dq_inv_def)
  then show ?case
  proof (cases rule: dq_pop_ready_cases [where now = now and pc = "RTimer now 0"])
    case kept
    then show ?thesis using due by (auto simp: dq_next_inv_def)
  next
    case (popped it items')
    then show ?thesis by (simp add: dq_next_inv_def)
  qed
next
  case (fires dq t)
  have heap: "dqh.heap_ok (dq_items dq)" using fires.prems by (simp add: dq_inv_def)
  then show ?case
  proof (cases rule: dq_pop_ready_cases [where now = "dq_clock dq" and pc = RTop])
    case kept
    then show ?thesis using fires by (auto simp: dq_next_inv_def)
  next
    case (popped it items')
    then show ?thesis by (simp add: dq_next_inv_def)
  qed
next
  case (accept dq t r readyAt)
  have heap: "dqh.heap_ok (dq_items dq)" using accept.prems by (simp add: dq_inv_def)
  let ?it = "\<lparr>dit_Message = r, dit_ReadyAt = readyAt, dit_Index = 0\<rparr>"
  show ?case
    using accept dq_Push_head [OF heap, of ?it] by (auto simp: dq_next_inv_def dq_accept_def intro: order_trans)
qed (auto simp: dq_next_inv_def dq_Stop_def split: run_pc.splits)

lemma dq_reach_next:
  "dq_reach now evs dq \<Longrightarrow> DoClear \<notin> set evs \<Longrightarrow> dq_next_inv dq"
proof (induction rule: dq_reach.induct)
  case init
  then show ?case by (simp add: dq_next_inv_def NewDelayedQueue_def dq_Start_def)
next
  case (step evs dq ev dq')
  then show ?case using dq_step_next [OF step.hyps(2) dq_reach_inv [OF step.hyps(1)]] by auto
qed

section \<open>A concrete run\<close>

text \<open>The states of a run that schedules message 7 for time 5, clears, and idles.\<close>

definition sample_idle :: DelayedQueue where
  "sample_idle = (dq_Start (NewDelayedQueue 0))\<lparr>dq_run := RSelect (24 * hour)\<rparr>"

lemma sample_idle_reach: "dq_reach 0 [Run, Run, Run] sample_idle"
proof -
  have "dq_reach 0 ((([] @ [Run]) @ [Run]) @ [Run]) sample_idle"
    by (rule dq_reach.step, rule dq_reach.step, rule dq_reach.step [OF dq_reach.init], rule dq_step.top,
        simp add: NewDelayedQueue_def dq_Start_def, rule dq_step.check, simp add: dq_refresh_def,
        subst sample_idle_def, rule back_subst [of "dq_step Run _", OF dq_step.timer])
      (simp_all add: dq_refresh_def dq_check_def NewDelayedQueue_def dq_Start_def dq_Init_Nil dq_Len_def time_add_def)
  then show ?thesis by simp
qed

definition sample_waiting :: DelayedQueue where
  "sample_waiting = dq_accept 7 5 sample_idle"

lemma sample_waiting_reach: "dq_reach 0 [Run, Run, Run, Accept 7 5] sample_waiting"
  using dq_reach.step [OF sample_idle_reach dq_step.accept] by (simp add: sample_waiting_def sample_idle_def)

lemma sample_waiting_items:
  "dq_items sample_waiting = [\<lparr>dit_Message = 7, dit_ReadyAt = 5, dit_Index = 0\<rparr>]"
  by (simp add: sample_waiting_def sample_idle_def dq_accept_def NewDelayedQueue_def dq_Start_def dq_Init_Nil
      dq_heap_Push_def heap_Push_def heap_up.simps Let_def dq_Push_def dq_Len_def)

text \<open>
  Clearing leaves the loop with an item that is no longer queued. When that item's time has
  come the loop neither waits nor releases anything: five steps bring it back to the same
  state, at the same time.
\<close>

lemma dq_spin:
  assumes "dq_run dq = RTop" and "dq_items dq = []" and "dq_nextItem dq = Some it" and "dit_ReadyAt it \<le> dq_clock dq"
  shows "\<exists>a b c d. dq_step Run dq a \<and> dq_step Run a b \<and> dq_step Run b c \<and> dq_step Run c d \<and> dq_step Run d dq"
proof (intro exI conjI)
  let ?a = "dq\<lparr>dq_run := RCheck\<rparr>" and ?b = "dq\<lparr>dq_run := RDue (dq_clock dq)\<rparr>"
    and ?c = "dq\<lparr>dq_run := RTimer (dq_clock dq) 0\<rparr>" and ?d = "dq\<lparr>dq_run := RSelect (dq_clock dq)\<rparr>"
  show "dq_step Run dq ?a"
    using dq_step.top [OF assms(1)] assms by (simp add: dq_refresh_def dq_Len_def)
  show "dq_step Run ?a ?b"
    using dq_step.check [of ?a] assms by (auto simp: dq_check_def Let_def time_after_def le_less)
  show "dq_step Run ?b ?c"
    using dq_step.due [of ?b "dq_clock dq"] assms by (simp add: dq_pop_ready_def dq_Len_def)
  show "dq_step Run ?c ?d"
    using dq_step.timer [of ?c "dq_clock dq" 0] by (simp add: time_add_def)
  show "dq_step Run ?d dq"
    using dq_step.fires [of ?d "dq_clock dq"] assms
    by (simp add: dq_pop_ready_def dq_Len_def) (metis (mono_tags) DelayedQueue.surjective DelayedQueue.update_convs(4))
qed

section \<open>Properties\<close>

text \<open>
  In every interleaving of the two goroutines with \<^verbatim>\<open>Schedule\<close>,
  \<^verbatim>\<open>Clear\<close> and \<^verbatim>\<open>Stop\<close>, a message is released less than a millisecond before its
  time at the earliest, and none that is waiting has an earlier time.
\<close>

theorem dq_release_due:
  assumes "dq_reach now evs dq" and "dq_step ev dq dq'"
    and "dq_released dq' = dq_released dq @ [((r, readyAt), t)]"
  shows "readyAt < t + millisecond \<and> t = dq_clock dq \<and> (\<forall>x \<in> set (dq_entries (dq_items dq)). readyAt \<le> snd x)"
proof -
  have inv: "dq_inv dq" by (rule dq_reach_inv [OF assms(1)])
  then have heap: "dqh.heap_ok (dq_items dq)" by (simp add: dq_inv_def)
  have pop: ?thesis if dq': "dq' = dq_pop_ready now' pc dq" and le: "now' \<le> dq_clock dq" for now' pc
    using heap
  proof (cases rule: dq_pop_ready_cases [where now = now' and pc = pc])
    case kept
    then show ?thesis using assms(3) dq' by simp
  next
    case (popped it items')
    then show ?thesis using assms(3) dq' le by (auto simp: delayed_of_def)
  qed
  from assms(2) show ?thesis
  proof cases
    case (due now')
    then have "now' \<le> dq_clock dq" using inv by (simp add: dq_inv_def)
    with due show ?thesis by (intro pop)
  next
    case (fires t')
    then show ?thesis using pop [of "dq_clock dq" RTop] by simp
  qed (use assms(3) in \<open>auto simp: dq_refresh_def dq_check_def Let_def dq_accept_def dq_Clear_def dq_Stop_def
      split: option.splits if_splits\<close>)
qed

theorem dq_release_due_witness:
  "\<exists>(dq :: DelayedQueue) (dq' :: DelayedQueue) t. dq_step Run dq dq' \<and> dq_released dq' = [((7, 5), t)] \<and> 5 < t + millisecond"
proof -
  let ?w = "\<lparr>dit_Message = 7, dit_ReadyAt = 5, dit_Index = 0\<rparr>"
  define b where "b = sample_waiting\<lparr>dq_nextItem := Some ?w, dq_run := RCheck\<rparr>"
  define c where "c = b\<lparr>dq_clock := 5\<rparr>"
  define d where "d = c\<lparr>dq_run := RDue 5\<rparr>"
  have w: "dq_run sample_waiting = RTop" "dq_nextItem sample_waiting = None" "dq_clock sample_waiting = 0"
      "dq_released sample_waiting = []"
    by (simp_all add: sample_waiting_def dq_accept_def sample_idle_def NewDelayedQueue_def dq_Start_def)
  have "dq_step Run sample_waiting b"
    using dq_step.top [OF w(1)] by (simp add: dq_refresh_def w sample_waiting_items dq_Len_def b_def)
  moreover have "dq_step Advance b c" using dq_step.advance [of b 5] by (simp add: b_def c_def w)
  moreover have "dq_step Run c d"
    using dq_step.check [of c] by (simp add: c_def b_def d_def dq_check_def Let_def time_after_def)
  ultimately have reach: "dq_reach 0 ((([Run, Run, Run, Accept 7 5] @ [Run]) @ [Advance]) @ [Run]) d"
    using sample_waiting_reach by (intro dq_reach.step)
  have step: "dq_step Run d (dq_pop_ready 5 (RTimer 5 0) d)" by (rule dq_step.due) (simp add: d_def)
  have items: "dq_items d = [?w]" by (simp add: d_def c_def b_def sample_waiting_items)
  have heap: "dqh.heap_ok (dq_items d)" using dq_reach_inv [OF reach] by (simp add: dq_inv_def)
  have clock: "dq_clock d = 5" by (simp add: d_def c_def)
  from heap have rel: "dq_released (dq_pop_ready 5 (RTimer 5 0) d) = dq_released d @ [((7, 5), 5)]"
  proof (cases rule: dq_pop_ready_cases [where now = 5 and pc = "RTimer 5 0"])
    case kept
    then show ?thesis by (simp add: items)
  next
    case (popped it items')
    then show ?thesis by (simp add: items clock delayed_of_def)
  qed
  have "5 < (5 :: int) + millisecond" using dq_release_due [OF reach step rel] by simp
  moreover have "dq_released d = []" by (simp add: d_def c_def b_def w)
  ultimately show ?thesis using step rel by (metis append_Nil)
qed

text \<open>
  C16 (nothing lost). In every interleaving the scheduled messages are exactly those waiting,
  cleared or released, and the released ones reach the receiver in the order of their
  release: handled, being handled, or in transit.
\<close>

theorem dq_nothing_lost:
  assumes "dq_reach now evs dq"
  shows "mset (dq_scheduled dq) =
      mset (dq_entries (dq_items dq)) + mset (dq_cleared dq) + mset (map fst (dq_released dq)) \<and>
    map (fst \<circ> fst) (dq_released dq) = dq_handled dq @ dq_in_flight dq"
  using dq_reach_inv [OF assms] by (simp add: dq_inv_def)

theorem dq_nothing_lost_witness:
  "mset (dq_scheduled sample_waiting) = mset (dq_entries (dq_items sample_waiting))"
  using dq_nothing_lost [OF sample_waiting_reach]
  by (simp add: sample_waiting_def dq_accept_def sample_idle_def NewDelayedQueue_def dq_Start_def)

text \<open>
  C17 (progress). As long as a message waits and neither goroutine has returned, the two
  goroutines can release another one by themselves as time passes: whatever was scheduled,
  cleared or stopped before, the queue is not stuck.
\<close>

theorem dq_release_possible:
  assumes "dq_reach now evs dq" and "dq_items dq \<noteq> []" and "dq_run dq \<noteq> RDone" and "dq_recv dq \<noteq> PDone"
  shows "\<exists>dq'. dq_quiet_steps dq dq' \<and> length (dq_released dq') = Suc (length (dq_released dq))"
  using dq_progress [OF dq_reach_inv [OF assms(1)] assms(2-4)] by (simp add: dq_can_release_def)

theorem dq_release_possible_witness:
  "\<exists>dq'. dq_quiet_steps sample_waiting dq' \<and> length (dq_released dq') = 1"
  using dq_release_possible [OF sample_waiting_reach] sample_waiting_items
  by (simp add: sample_waiting_def dq_accept_def sample_idle_def NewDelayedQueue_def dq_Start_def)

text \<open>
  Unless the queue has been cleared, whenever the loop sets its timer it waits for
  exactly the time until the earliest waiting message, which is still to come, or for a day
  when none waits.
\<close>

theorem dq_timer_exact:
  assumes "dq_reach now evs dq" and "DoClear \<notin> set evs" and "dq_run dq = RTimer t d"
  shows "if dq_items dq = [] then d = 24 * hour
    else t < dit_ReadyAt (dq_items dq ! 0) \<and> d = time_sub (dit_ReadyAt (dq_items dq ! 0)) t \<and>
      (\<forall>x \<in> set (dq_entries (dq_items dq)). dit_ReadyAt (dq_items dq ! 0) \<le> snd x)"
proof -
  have heap: "dqh.heap_ok (dq_items dq)" using dq_reach_inv [OF assms(1)] by (simp add: dq_inv_def)
  have "\<forall>x \<in> set (dq_entries (dq_items dq)). dit_ReadyAt (dq_items dq ! 0) \<le> snd x" if "dq_items dq \<noteq> []"
    using dq_ok_Pop [OF heap that] by (metis delayed_of_def prod.inject)
  with dq_reach_next [OF assms(1,2)] assms(3) show ?thesis by (simp add: dq_next_inv_def)
qed

theorem dq_timer_exact_witness:
  "\<exists>(dq :: DelayedQueue) d. dq_run dq = RTimer 0 d \<and> dq_items dq \<noteq> [] \<and> d = 5"
proof -
  let ?w = "\<lparr>dit_Message = 7, dit_ReadyAt = 5, dit_Index = 0\<rparr>"
  define b where "b = sample_waiting\<lparr>dq_nextItem := Some ?w, dq_run := RCheck\<rparr>"
  define c where "c = b\<lparr>dq_run := RTimer 0 (time_sub 5 0)\<rparr>"
  have w: "dq_run sample_waiting = RTop" "dq_nextItem sample_waiting = None" "dq_clock sample_waiting = 0"
    by (simp_all add: sample_waiting_def dq_accept_def sample_idle_def NewDelayedQueue_def dq_Start_def)
  have "dq_step Run sample_waiting b"
    using dq_step.top [OF w(1)] by (simp add: dq_refresh_def w sample_waiting_items dq_Len_def b_def)
  moreover have "dq_step Run b c"
    using dq_step.check [of b] by (simp add: b_def c_def w dq_check_def Let_def time_after_def)
  ultimately have reach: "dq_reach 0 (([Run, Run, Run, Accept 7 5] @ [Run]) @ [Run]) c"
    using sample_waiting_reach by (intro dq_reach.step)
  have items: "dq_items c = [?w]" by (simp add: c_def b_def sample_waiting_items)
  have pc: "dq_run c = RTimer 0 (time_sub 5 0)" by (simp add: c_def)
  from dq_timer_exact [OF reach _ pc] items have "time_sub 5 0 = time_sub 5 (0 :: int)" by simp
  then have "time_sub 5 0 = (5 :: int)" by (simp add: time_sub_def max_int64_def min_int64_def)
  with pc items show ?thesis by (metis list.distinct(1))
qed

end
