(* ===== verification/Config.thy ===== *)
theory Config
  imports Float64
begin

text \<open>
  \<^verbatim>\<open>pkg/config/config.go\<close>: the configuration records and the built-in default.
  \<open>LoadConfig\<close>, which reads a file through a library, is in \<open>Startup\<close>.
\<close>

record ServerConfig =
  sc_Port :: int
  sc_Host :: string
  sc_Mode :: string

record PostgresConfig =
  pg_Host :: string
  pg_Port :: int
  pg_User :: string
  pg_Password :: string
  pg_DBName :: string
  pg_SSLMode :: string

record RedisConfig =
  rc_Addr :: string
  rc_Password :: string
  rc_DB :: int
  rc_PoolSize :: int

record DatabaseConfig =
  dc_Postgres :: PostgresConfig
  dc_Redis :: RedisConfig

record QueueLevel =
  ql_Name :: string
  ql_Priority :: int
  ql_MaxWaitTime :: duration
  ql_MaxConcurrent :: int

record WorkerSettings =
  ws_MaxBatchSize :: int
  ws_ProcessInterval :: duration
  ws_MaxConcurrent :: int

record RetryConfig =
  rt_InitialBackoff :: duration
  rt_MaxBackoff :: duration
  rt_Factor :: float64
  rt_MaxRetries :: int

record QueueConfig =
  qc_Levels :: "QueueLevel list"
  qc_DefaultMaxSize :: int
  qc_MonitorInterval :: duration
  qc_CleanupInterval :: duration
  qc_MaxRetentionPeriod :: duration
  qc_EnableMetrics :: bool
  qc_EnableAutoScaling :: bool
  qc_ScalingThresholds :: "string \<Rightarrow> int option"
  qc_Worker :: WorkerSettings
  qc_Retry :: RetryConfig

record SchedulerSettings =
  sd_Strategy :: string
  sd_CheckInterval :: duration
  sd_MaxRetries :: int
  sd_Timeout :: duration

record LoadBalancerSettings =
  lc_Algorithm :: string
  lc_HealthCheckInterval :: duration
  lc_MaxFailures :: int
  lc_EnableSessionAffinity :: bool
  lc_SessionTimeout :: duration

record LoggingConfig =
  lg_Level :: string
  lg_Format :: string
  lg_Output :: string

record MetricsConfig =
  mc_Enabled :: bool
  mc_Port :: int
  mc_Path :: string

record Config =
  cf_Server :: ServerConfig
  cf_Database :: DatabaseConfig
  cf_Queue :: QueueConfig
  cf_Scheduler :: SchedulerSettings
  cf_LoadBalancer :: LoadBalancerSettings
  cf_Logging :: LoggingConfig
  cf_Metrics :: MetricsConfig

definition GetDefaultConfig :: Config where
  "GetDefaultConfig =
     \<lparr>cf_Server = \<lparr>sc_Port = 8080, sc_Host = ''0.0.0.0'', sc_Mode = ''debug''\<rparr>,
      cf_Database =
        \<lparr>dc_Postgres = \<lparr>pg_Host = ''localhost'', pg_Port = 5432, pg_User = ''postgres'',
           pg_Password = ''password'', pg_DBName = ''llm_queue'', pg_SSLMode = ''disable''\<rparr>,
         dc_Redis = \<lparr>rc_Addr = ''localhost:6379'', rc_Password = '''', rc_DB = 0, rc_PoolSize = 100\<rparr>\<rparr>,
      cf_Queue =
        \<lparr>qc_Levels =
           [\<lparr>ql_Name = ''realtime'', ql_Priority = 1, ql_MaxWaitTime = second, ql_MaxConcurrent = 100\<rparr>,
            \<lparr>ql_Name = ''high'', ql_Priority = 2, ql_MaxWaitTime = 5 * second, ql_MaxConcurrent = 200\<rparr>,
            \<lparr>ql_Name = ''normal'', ql_Priority = 3, ql_MaxWaitTime = 30 * second, ql_MaxConcurrent = 500\<rparr>,
            \<lparr>ql_Name = ''low'', ql_Priority = 4, ql_MaxWaitTime = 5 * minute, ql_MaxConcurrent = 1000\<rparr>],
         qc_DefaultMaxSize = 10000, qc_MonitorInterval = 5 * second, qc_CleanupInterval = 1 * minute,
         qc_MaxRetentionPeriod = 24 * hour, qc_EnableMetrics = True, qc_EnableAutoScaling = True,
         qc_ScalingThresholds =
           [''realtime'' \<mapsto> 100, ''high'' \<mapsto> 500, ''normal'' \<mapsto> 1000, ''low'' \<mapsto> 5000],
         qc_Worker = \<lparr>ws_MaxBatchSize = 10, ws_ProcessInterval = 100 * millisecond, ws_MaxConcurrent = 50\<rparr>,
         qc_Retry = \<lparr>rt_InitialBackoff = 1 * second, rt_MaxBackoff = 1 * minute, rt_Factor = Fin 2,
           rt_MaxRetries = 3\<rparr>\<rparr>,
      cf_Scheduler = \<lparr>sd_Strategy = ''priority_weighted'', sd_CheckInterval = 100 * millisecond,
        sd_MaxRetries = 3, sd_Timeout = 30 * second\<rparr>,
      cf_LoadBalancer = \<lparr>lc_Algorithm = ''weighted_round_robin'', lc_HealthCheckInterval = 30 * second,
        lc_MaxFailures = 3, lc_EnableSessionAffinity = False, lc_SessionTimeout = 0\<rparr>,
      cf_Logging = \<lparr>lg_Level = ''info'', lg_Format = ''json'', lg_Output = ''stdout''\<rparr>,
      cf_Metrics = \<lparr>mc_Enabled = True, mc_Port = 9090, mc_Path = ''/metrics''\<rparr>\<rparr>"

end
