(* ===== verification/Printing.thy ===== *)
theory Printing
  imports Main
begin

text \<open>
  \<^verbatim>\<open>fmt.Sprint\<close> and the \<^verbatim>\<open>%d\<close> verb of an \<^verbatim>\<open>int\<close>, and that different numbers print
  differently: worker and endpoint identifiers rest on it.
\<close>

definition digit :: "nat \<Rightarrow> char" where
  "digit d = char_of (d + 48)"

fun sprint_nat :: "nat \<Rightarrow> string" where
  "sprint_nat n = (if n < 10 then [digit n] else sprint_nat (n div 10) @ [digit (n mod 10)])"

definition sprint_int :: "int \<Rightarrow> string" where
  "sprint_int i = (if i < 0 then CHR ''-'' # sprint_nat (nat (- i)) else sprint_nat (nat i))"

declare sprint_nat.simps [simp del]

lemma digit_inj: "a < 10 \<Longrightarrow> b < 10 \<Longrightarrow> digit a = digit b \<Longrightarrow> a = b"
  by (simp add: digit_def char_of_eq_iff take_bit_eq_mod)

lemma sprint_nat_ne [simp]: "sprint_nat n \<noteq> []" "[] \<noteq> sprint_nat n"
  by (subst sprint_nat.simps, simp)+

lemma sprint_nat_inj: "sprint_nat m = sprint_nat n \<Longrightarrow> m = n"
proof (induction m arbitrary: n rule: less_induct)
  case (less m)
  have small: "sprint_nat k = [digit k]" if "k < 10" for k using that by (simp add: sprint_nat.simps)
  have big: "sprint_nat k = sprint_nat (k div 10) @ [digit (k mod 10)]" if "\<not> k < 10" for k
    using that by (subst sprint_nat.simps) simp
  show ?case
  proof (cases "m < 10")
    case True
    then show ?thesis using less.prems small big [of n] digit_inj by (cases "n < 10") auto
  next
    case m: False
    then have n: "\<not> n < 10" using less.prems small [of n] big [of m] by auto
    have "sprint_nat (m div 10) = sprint_nat (n div 10)" "digit (m mod 10) = digit (n mod 10)"
      using less.prems big [OF m] big [OF n] by simp_all
    then have "m div 10 = n div 10" "m mod 10 = n mod 10"
      using less.IH [of "m div 10"] m digit_inj by simp_all
    then show ?thesis by (metis div_mult_mod_eq)
  qed
qed

lemma sprint_int_nat [simp]: "sprint_int (int n) = sprint_nat n"
  by (simp add: sprint_int_def)

end
