(* ===== verification/QueueFactory.thy ===== *)
theory QueueFactory
  imports ManagerRuns MonitorLifecycle Worker Config Printing
begin

text \<open>
  \<^verbatim>\<open>internal/priorityqueue/queue_factory.go\<close>: named queue managers and their workers,
  built from the configuration. The factory owns its managers; a worker refers to its
  manager by name. The metrics registry is threaded as in \<open>NewQueueManager\<close>, and a panic
  there, or in making the workers, is \<open>None\<close>.
\<close>

section \<open>State and operations\<close>

type_synonym QueueType = string

definition StandardQueueType :: QueueType where "StandardQueueType = ''standard''"
definition DelayedQueueType :: QueueType where "DelayedQueueType = ''delayed''"
definition DeadLetterQueueType :: QueueType where "DeadLetterQueueType = ''dead_letter''"
definition PriorityQueueType :: QueueType where "PriorityQueueType = ''priority''"

text \<open>A manager with the state of its monitor.\<close>

type_synonym managed = "QueueManager \<times> life"

record QueueFactory =
  qf_managers :: "string \<Rightarrow> managed option"
  qf_workers :: "string \<Rightarrow> Worker list option"
  qf_config :: QueueConfig

definition NewQueueFactory :: "QueueConfig \<Rightarrow> QueueFactory" where
  "NewQueueFactory config = \<lparr>qf_managers = Map.empty, qf_workers = Map.empty, qf_config = config\<rparr>"

text \<open>Reading a key of a \<^verbatim>\<open>nil\<close> map finds nothing; \<^verbatim>\<open>len\<close> counts bytes.\<close>

definition qf_createPriorityRules :: "PriorityAdjustRule list" where
  "qf_createPriorityRules =
     [\<lparr>par_Condition = (\<lambda>msg. case m_Metadata msg of None \<Rightarrow> False | Some md \<Rightarrow> md ''vip_user'' \<noteq> None),
       par_NewPriority = PriorityHigh, par_Description = ''VIP''\<rparr>,
      \<lparr>par_Condition = (\<lambda>msg. length (m_Content msg) > 10000),
       par_NewPriority = PriorityLow, par_Description = ''long''\<rparr>]"

definition qf_createManagerConfig :: "QueueType \<Rightarrow> QueueFactory \<Rightarrow> QueueManagerConfig" where
  "qf_createManagerConfig queueType qf =
     (let c = qf_config qf;
          baseConfig = \<lparr>qmc_DefaultMaxSize = qc_DefaultMaxSize c, qmc_MonitorInterval = qc_MonitorInterval c,
            qmc_CleanupInterval = qc_CleanupInterval c, qmc_MaxRetentionPeriod = qc_MaxRetentionPeriod c,
            qmc_EnableMetrics = qc_EnableMetrics c, qmc_EnableAutoScaling = qc_EnableAutoScaling c,
            qmc_ScalingThresholds = qc_ScalingThresholds c, qmc_PriorityAdjustRules = []\<rparr>
      in if queueType = DelayedQueueType then baseConfig
         else if queueType = DeadLetterQueueType then baseConfig
         else if queueType = PriorityQueueType
         then baseConfig\<lparr>qmc_PriorityAdjustRules := qf_createPriorityRules\<rparr>
         else baseConfig)"

text \<open>\<^verbatim>\<open>Start\<close> of the monitor adds a goroutine.\<close>

definition life_Start :: "life \<Rightarrow> life" where
  "life_Start s = s\<lparr>lf_starting := lf_starting s + 1\<rparr>"

text \<open>\<^verbatim>\<open>Stop\<close> cancels the context and then waits for \<^verbatim>\<open>monitorDone\<close>; the wait ends with the step \<open>StopReturn\<close>.\<close>

definition life_Stop :: "life \<Rightarrow> life" where
  "life_Stop s = s\<lparr>lf_cancelled := True, lf_stopping := lf_stopping s + 1\<rparr>"

lemma life_Stop_step: "\<not> lf_panicked s \<Longrightarrow> life_step config StopCall s (life_Stop s)"
  unfolding life_Stop_def by (rule life_step.stop_call)

definition qf_CreateQueueManager ::
    "((string \<times> string \<times> string) list \<Rightarrow> 'r \<Rightarrow> 'r option) \<Rightarrow> string \<Rightarrow> QueueType \<Rightarrow> QueueFactory \<times> 'r
     \<Rightarrow> (managed \<times> QueueFactory \<times> 'r) option" where
  "qf_CreateQueueManager must_register name queueType s =
     (case s of (qf, reg) \<Rightarrow>
        case qf_managers qf name of
          Some manager \<Rightarrow> Some (manager, qf, reg)
        | None \<Rightarrow>
            (case NewQueueManager must_register (qf_createManagerConfig queueType qf) reg of
               None \<Rightarrow> None
             | Some (qm, reg') \<Rightarrow>
                 let manager = (qm, life_Start life_init)
                 in Some (manager, qf\<lparr>qf_managers := (qf_managers qf)(name \<mapsto> manager)\<rparr>, reg')))"

definition qf_GetQueueManager :: "string \<Rightarrow> QueueFactory \<Rightarrow> managed option" where
  "qf_GetQueueManager name qf = qf_managers qf name"

definition qf_generateWorkerID :: "string \<Rightarrow> int \<Rightarrow> string" where
  "qf_generateWorkerID queueName index = queueName @ ''-worker-'' @ sprint_int index"

definition qf_worker_config :: "string \<Rightarrow> int \<Rightarrow> QueueFactory \<Rightarrow> WorkerConfig" where
  "qf_worker_config queueName i qf =
     (let c = qf_config qf
      in \<lparr>wc_ID = qf_generateWorkerID queueName i, wc_QueueName = queueName,
          wc_MaxBatchSize = ws_MaxBatchSize (qc_Worker c), wc_ProcessInterval = ws_ProcessInterval (qc_Worker c),
          wc_MaxConcurrent = ws_MaxConcurrent (qc_Worker c),
          wc_BackoffStrategy = Exponential (NewExponentialBackoff (rt_InitialBackoff (qc_Retry c))
            (rt_MaxBackoff (qc_Retry c)) (rt_Factor (qc_Retry c)) (rt_MaxRetries (qc_Retry c)))\<rparr>)"

fun qf_make_workers :: "string \<Rightarrow> nat list \<Rightarrow> QueueFactory \<Rightarrow> Worker list option" where
  "qf_make_workers queueName [] qf = Some []"
| "qf_make_workers queueName (i # is) qf =
     (case NewWorker (qf_worker_config queueName (int i) qf) of
        None \<Rightarrow> None
      | Some w \<Rightarrow> map_option (\<lambda>ws. w # ws) (qf_make_workers queueName is qf))"

text \<open>The inner option is the returned slice (\<^verbatim>\<open>nil\<close> when there is no manager).\<close>

definition qf_CreateWorkers ::
    "string \<Rightarrow> int \<Rightarrow> QueueFactory \<Rightarrow> (Worker list option \<times> QueueFactory) option" where
  "qf_CreateWorkers queueName n qf =
     (if qf_managers qf queueName = None then Some (None, qf)
      else if n < 0 then None
      else case qf_make_workers queueName [0..<nat n] qf of
             None \<Rightarrow> None
           | Some workers \<Rightarrow>
               let old = (case qf_workers qf queueName of None \<Rightarrow> [] | Some ws \<Rightarrow> ws)
               in Some (Some workers, qf\<lparr>qf_workers := (qf_workers qf)(queueName \<mapsto> old @ workers)\<rparr>))"

definition qf_StopAll :: "QueueFactory \<Rightarrow> QueueFactory" where
  "qf_StopAll qf = qf\<lparr>qf_workers := Map.empty, qf_managers := Map.empty\<rparr>"

definition qf_GetWorkerStats :: "QueueFactory \<Rightarrow> string \<Rightarrow> WorkerMetrics list option" where
  "qf_GetWorkerStats qf = (\<lambda>queueName. map_option (map worker_GetMetrics) (qf_workers qf queueName))"

section \<open>Worker identifiers\<close>

lemma generateWorkerID_inj:
  "qf_generateWorkerID q (int i) = qf_generateWorkerID q (int j) \<Longrightarrow> i = j"
  by (auto simp: qf_generateWorkerID_def sprint_int_def dest: sprint_nat_inj)

lemma qf_make_workers_spec:
  "0 \<le> ws_MaxConcurrent (qc_Worker (qf_config qf)) \<Longrightarrow>
   \<exists>ws. qf_make_workers q is qf = Some ws \<and> map w_ID ws = map (\<lambda>i. qf_generateWorkerID q (int i)) is \<and>
     (\<forall>w \<in> set ws. w_queueName w = q \<and> w_maxConcurrent w = ws_MaxConcurrent (qc_Worker (qf_config qf)))"
  by (induction "is") (auto simp: NewWorker_def qf_worker_config_def Let_def)

section \<open>Properties\<close>

text \<open>
  A manager of type \<open>priority\<close> gives the high priority to every message
  whose metadata has the key \<open>vip_user\<close>, the low priority to every other message of more
  than 10000 bytes, and leaves the rest as they are; a realtime message with the key is thus
  demoted. Managers of the other types change no priority.
\<close>

theorem qf_priority_rules:
  "m_Priority (qm_applyPriorityRules (qmc_PriorityAdjustRules (qf_createManagerConfig queueType qf)) msg) =
    (if queueType \<noteq> PriorityQueueType then m_Priority msg
     else if (\<exists>md v. m_Metadata msg = Some md \<and> md ''vip_user'' = Some v) then PriorityHigh
     else if 10000 < length (m_Content msg) then PriorityLow
     else m_Priority msg)"
proof (cases "queueType = PriorityQueueType")
  case True
  then have "qmc_PriorityAdjustRules (qf_createManagerConfig queueType qf) = qf_createPriorityRules"
    by (simp add: qf_createManagerConfig_def Let_def DelayedQueueType_def DeadLetterQueueType_def PriorityQueueType_def)
  then show ?thesis using True by (cases "m_Metadata msg") (auto simp: qf_createPriorityRules_def)
next
  case False
  then have "qmc_PriorityAdjustRules (qf_createManagerConfig queueType qf) = []"
    by (simp add: qf_createManagerConfig_def Let_def)
  then show ?thesis using False by simp
qed

text \<open>
  When the registry refuses a name it already holds, a factory with
  metrics enabled cannot make a second manager: once it has made one from a new registry,
  asking for a manager under any other name panics, whatever the types.
\<close>

theorem qf_second_manager_panics:
  assumes refuses: "\<And>names reg n. n \<in> set names \<Longrightarrow> n \<in> held reg \<Longrightarrow> must_register names reg = None"
    and holds: "\<And>names reg reg'. must_register names reg = Some reg' \<Longrightarrow> set names \<subseteq> held reg'"
    and "qc_EnableMetrics config"
    and first: "qf_CreateQueueManager must_register name queueType (NewQueueFactory config, reg0) = Some (manager, qf, reg)"
    and "name' \<noteq> name"
  shows "qf_CreateQueueManager must_register name' queueType' (qf, reg) = None"
proof -
  have em: "qmc_EnableMetrics (qf_createManagerConfig t f) \<longleftrightarrow> qc_EnableMetrics (qf_config f)" for t f
    by (simp add: qf_createManagerConfig_def Let_def)
  have conf: "qf_config qf = config" and free: "qf_managers qf name' = None"
    and reg: "initMetrics must_register reg0 = Some reg"
    using first assms(3,5) em [of queueType "NewQueueFactory config"]
    by (auto simp: qf_CreateQueueManager_def NewQueueFactory_def NewQueueManager_def Let_def split: option.splits)
  have "metric_name PendingMessages \<in> set (map metric_name registered_metrics)"
    by (simp add: registered_metrics_def)
  moreover from this have "metric_name PendingMessages \<in> held reg"
    using holds reg unfolding initMetrics_def by blast
  ultimately have "initMetrics must_register reg = None"
    unfolding initMetrics_def by (rule refuses)
  then show ?thesis
    using free em [of queueType' qf] conf assms(3)
    by (simp add: qf_CreateQueueManager_def NewQueueManager_def Let_def)
qed

definition sample_register :: "(string \<times> string \<times> string) list \<Rightarrow> (string \<times> string \<times> string) list
    \<Rightarrow> (string \<times> string \<times> string) list option" where
  "sample_register names reg = (if \<exists>n \<in> set names. n \<in> set reg then None else Some (names @ reg))"

theorem qf_second_manager_panics_witness:
  "qf_CreateQueueManager sample_register ''delayed'' DelayedQueueType
     (snd (the (qf_CreateQueueManager sample_register ''standard'' StandardQueueType
       (NewQueueFactory (cf_Queue GetDefaultConfig), [])))) = None"
proof -
  let ?first = "qf_CreateQueueManager sample_register ''standard'' StandardQueueType
    (NewQueueFactory (cf_Queue GetDefaultConfig), [])"
  have "?first \<noteq> None"
    by (simp add: qf_CreateQueueManager_def NewQueueFactory_def NewQueueManager_def initMetrics_def sample_register_def Let_def)
  then obtain manager qf reg where f: "?first = Some (manager, qf, reg)" by auto
  have "qf_CreateQueueManager sample_register ''delayed'' DelayedQueueType (qf, reg) = None"
    by (rule qf_second_manager_panics [where held = set, OF _ _ _ f])
      (auto simp: sample_register_def GetDefaultConfig_def split: if_splits)
  with f show ?thesis by simp
qed

text \<open>
  Under the built-in configuration the monitor's intervals are
  positive, workers are made without panic with the identifiers all different, their batch
  size and concurrency are positive and their backoff strategy is valid: the hypotheses of
  the life cycle, drain and backoff properties hold.
\<close>

theorem qf_default_config:
  assumes "qf_managers qf queueName \<noteq> None" and "qf_config qf = cf_Queue GetDefaultConfig" and "0 \<le> n"
  shows "tickers_ok (qf_createManagerConfig queueType qf) \<and>
    (\<exists>workers qf'. qf_CreateWorkers queueName n qf = Some (Some workers, qf') \<and>
       int (length workers) = n \<and> distinct (map w_ID workers) \<and>
       (\<forall>w \<in> set workers. w_queueName w = queueName \<and> 0 < w_maxBatchSize w \<and> 0 < w_maxConcurrent w \<and>
          backoff_valid (w_backoffStrategy w)))"
proof -
  have t: "tickers_ok (qf_createManagerConfig queueType qf)"
    by (simp add: tickers_ok_def qf_createManagerConfig_def Let_def assms(2) GetDefaultConfig_def)
  have ok: "\<exists>ws. qf_make_workers q is qf = Some ws \<and> map w_ID ws = map (\<lambda>i. qf_generateWorkerID q (int i)) is \<and>
     (\<forall>w \<in> set ws. w_queueName w = q \<and> 0 < w_maxBatchSize w \<and> 0 < w_maxConcurrent w \<and>
        backoff_valid (w_backoffStrategy w))" for q "is"
    by (induction "is") (auto simp: NewWorker_def qf_worker_config_def Let_def assms(2) GetDefaultConfig_def
        NewExponentialBackoff_def eb_valid_def)
  obtain ws where ws: "qf_make_workers queueName [0..<nat n] qf = Some ws"
    "map w_ID ws = map (\<lambda>i. qf_generateWorkerID queueName (int i)) [0..<nat n]"
    "\<forall>w \<in> set ws. w_queueName w = queueName \<and> 0 < w_maxBatchSize w \<and> 0 < w_maxConcurrent w \<and>
        backoff_valid (w_backoffStrategy w)"
    using ok by blast
  have "length ws = nat n" using ws(2) by (metis length_map length_upt diff_zero)
  moreover have "distinct (map w_ID ws)"
    unfolding ws(2) by (auto simp: distinct_map inj_on_def dest: generateWorkerID_inj)
  ultimately show ?thesis
    using t ws(1,3) assms(1,3) by (simp add: qf_CreateWorkers_def Let_def)
qed

theorem qf_default_config_witness:
  "tickers_ok (qf_createManagerConfig StandardQueueType
     ((NewQueueFactory (cf_Queue GetDefaultConfig))\<lparr>qf_managers := [''q'' \<mapsto> (qm_init sample_config, life_init)]\<rparr>))"
  by (rule qf_default_config [THEN conjunct1, of _ "''q''" 2]) (simp_all add: NewQueueFactory_def)

end
