(* ===== verification/EndpointSelection.thy ===== *)
theory EndpointSelection
  imports Backoff ExchangeSort
begin

text \<open>
  The selection strategies of \<^verbatim>\<open>internal/loadbalancer/load_balancer.go\<close>, on a list of
  endpoint pointers (references into a store of endpoints): round robin, least
  connections, weighted random, adaptive load. The random source is an argument, the
  number or float it returns.
\<close>

section \<open>Endpoints\<close>

type_synonym EndpointStatus = string

definition EndpointStatusHealthy :: EndpointStatus where "EndpointStatusHealthy = ''healthy''"
definition EndpointStatusDegraded :: EndpointStatus where "EndpointStatusDegraded = ''degraded''"
definition EndpointStatusUnhealthy :: EndpointStatus where "EndpointStatusUnhealthy = ''unhealthy''"

record Endpoint =
  ep_ID :: string
  ep_URL :: string
  ep_Name :: string
  ep_Type :: string
  ep_Capabilities :: "string list"
  ep_Weight :: int
  ep_Status :: EndpointStatus
  ep_Connections :: int
  ep_MaxConnections :: int
  ep_ResponseTime :: duration
  ep_ErrorRate :: float64
  ep_LastCheck :: go_time
  ep_Metadata :: "metadata option"

type_synonym eref = nat
type_synonym estore = "eref \<Rightarrow> Endpoint"

definition getHealthyEndpoints :: "estore \<Rightarrow> eref list \<Rightarrow> eref list" where
  "getHealthyEndpoints st endpoints =
     filter (\<lambda>r. ep_Status (st r) = EndpointStatusHealthy \<or> ep_Status (st r) = EndpointStatusDegraded) endpoints"

section \<open>Round robin\<close>

text \<open>An index is 0 or a remainder, never negative.\<close>

definition lb_roundRobinSelect ::
    "(string \<Rightarrow> nat option) \<Rightarrow> string \<Rightarrow> eref list \<Rightarrow> eref option \<times> (string \<Rightarrow> nat option)" where
  "lb_roundRobinSelect indices endpointType endpoints =
     (if length endpoints = 0 then (None, indices)
      else let currentIndex = (case indices endpointType of None \<Rightarrow> 0 | Some i \<Rightarrow> i);
               endpoint = endpoints ! (currentIndex mod length endpoints)
           in (Some endpoint, indices(endpointType \<mapsto> (currentIndex + 1) mod length endpoints)))"

section \<open>Least connections\<close>

fun least_loop :: "estore \<Rightarrow> eref list \<Rightarrow> int \<Rightarrow> eref option \<Rightarrow> eref option" where
  "least_loop st [] leastConn best = best"
| "least_loop st (ep # eps) leastConn best =
     (if leastConn = -1 \<or> ep_Connections (st ep) < leastConn
      then least_loop st eps (ep_Connections (st ep)) (Some ep)
      else least_loop st eps leastConn best)"

definition lb_leastConnectionsSelect :: "estore \<Rightarrow> eref list \<Rightarrow> eref option" where
  "lb_leastConnectionsSelect st endpoints =
     (if length endpoints = 0 then None else least_loop st endpoints (-1) None)"

section \<open>Weighted random\<close>

definition ep_weight :: "estore \<Rightarrow> eref \<Rightarrow> int" where
  "ep_weight st ep = (let weight = ep_Weight (st ep) in if weight \<le> 0 then 1 else weight)"

fun total_weight :: "estore \<Rightarrow> eref list \<Rightarrow> int \<Rightarrow> int" where
  "total_weight st [] totalWeight = totalWeight"
| "total_weight st (ep # eps) totalWeight = total_weight st eps (wrap64 (totalWeight + ep_weight st ep))"

fun weighted_loop :: "estore \<Rightarrow> int \<Rightarrow> eref list \<Rightarrow> int \<Rightarrow> eref option" where
  "weighted_loop st randomWeight [] currentWeight = None"
| "weighted_loop st randomWeight (ep # eps) currentWeight =
     (let currentWeight' = wrap64 (currentWeight + ep_weight st ep)
      in if randomWeight \<le> currentWeight' then Some ep
         else weighted_loop st randomWeight eps currentWeight')"

text \<open>\<open>intn\<close> is \<^verbatim>\<open>rand.Intn\<close>; it panics (outer \<open>None\<close>) unless its argument is positive.\<close>

definition lb_weightedRandomSelect :: "(int \<Rightarrow> int) \<Rightarrow> estore \<Rightarrow> eref list \<Rightarrow> eref option option" where
  "lb_weightedRandomSelect intn st endpoints =
     (if length endpoints = 0 then Some None
      else let totalWeight = total_weight st endpoints 0
           in if totalWeight \<le> 0 then None
              else let randomWeight = wrap64 (intn totalWeight + 1)
                   in Some (case weighted_loop st randomWeight endpoints 0 of
                              Some ep \<Rightarrow> Some ep | None \<Rightarrow> Some (endpoints ! 0)))"

section \<open>Adaptive load\<close>

definition ep_score :: "Endpoint \<Rightarrow> float64" where
  "ep_score ep =
     (let loadScore = (if ep_MaxConnections ep \<le> 0
                       then f64_div (f64_of_int (ep_Connections ep)) (f64_of_int 100)
                       else f64_div (f64_of_int (ep_Connections ep)) (f64_of_int (ep_MaxConnections ep)));
          timeScore0 = f64_div (f64_of_int (ep_ResponseTime ep)) (f64_of_int second);
          timeScore = (if f64_less (f64_of_int 10) timeScore0 then f64_of_int 10 else timeScore0);
          errorScore = f64_mul (ep_ErrorRate ep) (f64_of_int 10)
      in f64_add (f64_add (f64_mul loadScore (round64 (4 / 10))) (f64_mul timeScore (round64 (4 / 10))))
           (f64_mul errorScore (round64 (2 / 10))))"

type_synonym endpointScore = "eref \<times> float64"

definition sortEndpointScores :: "endpointScore list \<Rightarrow> endpointScore list" where
  "sortEndpointScores scores = exchange_sort (\<lambda>a b. f64_less (snd b) (snd a)) scores"

text \<open>\<open>draw\<close> is the float the random source returns.\<close>

definition lb_adaptiveLoadSelect :: "float64 \<Rightarrow> estore \<Rightarrow> eref list \<Rightarrow> eref option" where
  "lb_adaptiveLoadSelect draw st endpoints =
     (if length endpoints = 0 then None
      else let scores = sortEndpointScores (map (\<lambda>ep. (ep, ep_score (st ep))) endpoints)
           in if length scores > 1 \<and> f64_less draw (round64 (1 / 10)) then Some (fst (scores ! 1))
              else Some (fst (scores ! 0)))"

section \<open>Lemmas\<close>

text \<open>Repeated selections from one list.\<close>

fun rr_rounds :: "nat \<Rightarrow> (string \<Rightarrow> nat option) \<Rightarrow> string \<Rightarrow> eref list \<Rightarrow> eref option list" where
  "rr_rounds 0 indices ty eps = []"
| "rr_rounds (Suc k) indices ty eps =
     (case lb_roundRobinSelect indices ty eps of (r, indices') \<Rightarrow> r # rr_rounds k indices' ty eps)"

definition rr_index :: "(string \<Rightarrow> nat option) \<Rightarrow> string \<Rightarrow> nat" where
  "rr_index indices ty = (case indices ty of None \<Rightarrow> 0 | Some i \<Rightarrow> i)"

lemma mset_rotate: "mset (rotate n xs) = mset xs"
  by (simp add: rotate_drop_take) (metis append_take_drop_id mset_append union_commute)

lemma rr_rounds_nth:
  assumes "eps \<noteq> []"
  shows "rr_rounds k indices ty eps = map (\<lambda>i. Some (eps ! ((rr_index indices ty + i) mod length eps))) [0..<k]"
proof (induction k arbitrary: indices)
  case 0
  then show ?case by simp
next
  case (Suc k)
  let ?c = "rr_index indices ty"
  let ?indices' = "indices(ty \<mapsto> (?c + 1) mod length eps)"
  have sel: "lb_roundRobinSelect indices ty eps = (Some (eps ! (?c mod length eps)), ?indices')"
    using assms by (simp add: lb_roundRobinSelect_def rr_index_def Let_def)
  have idx: "rr_index ?indices' ty = (?c + 1) mod length eps" by (simp add: rr_index_def)
  have "((?c + 1) mod length eps + i) mod length eps = (?c + Suc i) mod length eps" for i
    by (simp add: mod_add_left_eq)
  then have "rr_rounds k ?indices' ty eps = map (\<lambda>i. Some (eps ! ((?c + Suc i) mod length eps))) [0..<k]"
    unfolding Suc idx by simp
  then show ?case using sel by (simp add: upt_conv_Cons map_Suc_upt [symmetric] del: upt_Suc)
qed

lemma least_loop_min:
  assumes "\<forall>ep \<in> set eps. 0 \<le> ep_Connections (st ep)"
    and "lc = -1 \<and> best = None \<and> eps \<noteq> [] \<or> 0 \<le> lc \<and> (\<exists>b. best = Some b \<and> ep_Connections (st b) = lc)"
  shows "\<exists>b. least_loop st eps lc best = Some b \<and> (b \<in> set eps \<or> best = Some b) \<and>
    (\<forall>ep \<in> set eps. ep_Connections (st b) \<le> ep_Connections (st ep)) \<and>
    (0 \<le> lc \<longrightarrow> ep_Connections (st b) \<le> lc)"
  using assms
proof (induction eps arbitrary: lc best)
  case Nil
  then show ?case by auto
next
  case (Cons ep eps)
  have pos: "0 \<le> ep_Connections (st ep)" "\<forall>e \<in> set eps. 0 \<le> ep_Connections (st e)" using Cons.prems(1) by auto
  show ?case
  proof (cases "lc = -1 \<or> ep_Connections (st ep) < lc")
    case True
    have "\<exists>b. least_loop st eps (ep_Connections (st ep)) (Some ep) = Some b \<and> (b \<in> set eps \<or> Some ep = Some b) \<and>
        (\<forall>e \<in> set eps. ep_Connections (st b) \<le> ep_Connections (st e)) \<and>
        (0 \<le> ep_Connections (st ep) \<longrightarrow> ep_Connections (st b) \<le> ep_Connections (st ep))"
      using pos by (intro Cons.IH) auto
    then show ?thesis using True pos Cons.prems(2) by fastforce
  next
    case False
    then have "\<exists>b. least_loop st eps lc best = Some b \<and> (b \<in> set eps \<or> best = Some b) \<and>
        (\<forall>e \<in> set eps. ep_Connections (st b) \<le> ep_Connections (st e)) \<and>
        (0 \<le> lc \<longrightarrow> ep_Connections (st b) \<le> lc)"
      using pos Cons.prems(2) by (intro Cons.IH) auto
    then show ?thesis using False Cons.prems(2) by fastforce
  qed
qed

text \<open>The weights as partial sums, when they fit the machine's integers.\<close>

definition weights :: "estore \<Rightarrow> eref list \<Rightarrow> int" where
  "weights st eps = sum_list (map (ep_weight st) eps)"

lemma ep_weight_pos: "0 < ep_weight st ep"
  by (simp add: ep_weight_def Let_def)

lemma weights_nonneg: "0 \<le> weights st eps"
  unfolding weights_def by (rule sum_list_nonneg) (use ep_weight_pos less_imp_le in auto)

lemma weights_Cons: "weights st (ep # eps) = ep_weight st ep + weights st eps"
  by (simp add: weights_def)

lemma total_weight_eq:
  "0 \<le> a \<Longrightarrow> a + weights st eps \<le> max_int64 \<Longrightarrow> total_weight st eps a = a + weights st eps"
proof (induction eps arbitrary: a)
  case (Cons ep eps)
  have "in_int64 (a + ep_weight st ep)"
    using Cons.prems ep_weight_pos [of st ep] weights_nonneg [of st eps]
    by (simp add: in_int64_def weights_Cons min_int64_def)
  then show ?case
    using Cons.prems ep_weight_pos [of st ep] by (simp add: Cons.IH weights_Cons add.assoc less_imp_le)
qed (simp add: weights_def)

text \<open>The random weights that stop the loop at position \<open>i\<close>.\<close>

lemma weighted_loop_iff:
  assumes "0 \<le> a" and "a + weights st eps \<le> max_int64" and "a < w" and "distinct eps" and "i < length eps"
  shows "weighted_loop st w eps a = Some (eps ! i) \<longleftrightarrow>
    a + weights st (take i eps) < w \<and> w \<le> a + weights st (take (Suc i) eps)"
  using assms
proof (induction eps arbitrary: a i)
  case (Cons ep eps)
  have fit: "wrap64 (a + ep_weight st ep) = a + ep_weight st ep"
    using Cons.prems(1,2) ep_weight_pos [of st ep] weights_nonneg [of st eps]
    by (intro wrap64_id) (simp add: in_int64_def weights_Cons min_int64_def)
  show ?case
  proof (cases i)
    case 0
    have "weighted_loop st w eps b \<noteq> Some ep" for b
    proof -
      have "weighted_loop st w xs b = Some e \<Longrightarrow> e \<in> set xs" for xs b e
        by (induction xs arbitrary: b) (auto simp: Let_def split: if_splits)
      then show ?thesis using Cons.prems(4) by auto
    qed
    then show ?thesis using 0 Cons.prems fit by (simp add: weights_Cons weights_def Let_def)
  next
    case (Suc j)
    show ?thesis
    proof (cases "w \<le> a + ep_weight st ep")
      case True
      have "ep \<noteq> eps ! j" using Cons.prems(4,5) Suc by auto
      moreover have "0 \<le> weights st (take j eps)" by (rule weights_nonneg)
      ultimately show ?thesis using True Suc fit by (simp add: weights_Cons)
    next
      case False
      have "weighted_loop st w eps (a + ep_weight st ep) = Some (eps ! j) \<longleftrightarrow>
          a + ep_weight st ep + weights st (take j eps) < w \<and>
          w \<le> a + ep_weight st ep + weights st (take (Suc j) eps)"
        using Cons.prems False Suc ep_weight_pos [of st ep]
        by (intro Cons.IH) (auto simp: weights_Cons)
      with False Suc fit show ?thesis by (simp add: weights_Cons add.assoc)
    qed
  qed
qed simp

lemma weighted_loop_total:
  "0 \<le> a \<Longrightarrow> a + weights st eps \<le> max_int64 \<Longrightarrow> a < w \<Longrightarrow> w \<le> a + weights st eps \<Longrightarrow>
   weighted_loop st w eps a \<noteq> None"
proof (induction eps arbitrary: a)
  case (Cons ep eps)
  have fit: "wrap64 (a + ep_weight st ep) = a + ep_weight st ep"
    using Cons.prems(1,2) ep_weight_pos [of st ep] weights_nonneg [of st eps]
    by (intro wrap64_id) (simp add: in_int64_def weights_Cons min_int64_def)
  show ?case
  proof (cases "w \<le> a + ep_weight st ep")
    case True
    then show ?thesis using fit by (simp add: Let_def)
  next
    case False
    have "weighted_loop st w eps (a + ep_weight st ep) \<noteq> None"
      using Cons.prems False ep_weight_pos [of st ep] by (intro Cons.IH) (auto simp: weights_Cons)
    with False fit show ?thesis by (simp add: Let_def)
  qed
qed (simp add: weights_def)

text \<open>Scores are never NaN, so their comparison orders the list.\<close>

lemma f64_nonneg_add: "f64_nonneg x \<Longrightarrow> f64_nonneg y \<Longrightarrow> f64_nonneg (f64_add x y)"
  using round64_le(2) [OF _ order_refl] by (cases x; cases y) auto

lemma f64_nonneg_mul: "f64_nonneg x \<Longrightarrow> 0 < q \<Longrightarrow> f64_nonneg (f64_mul x (Fin q))"
  using round64_le(2) [OF _ order_refl] by (cases x) (auto simp: f64_inf_def)

lemma f64_nonneg_div: "f64_nonneg x \<Longrightarrow> f64_nonneg y \<Longrightarrow> f64_less (Fin 0) y \<Longrightarrow> x \<noteq> PInf \<Longrightarrow> f64_nonneg (f64_div x y)"
  using round64_le(2) [OF _ order_refl] by (cases x; cases y) auto

lemma f64_of_int_nonneg: "0 \<le> n \<Longrightarrow> f64_nonneg (f64_of_int n)"
  unfolding f64_of_int_def by (rule round64_le(2) [OF _ order_refl]) simp

lemma round64_pos_consts:
  "\<exists>v. round64 (4 / 10) = Fin v \<and> 0 < v" "\<exists>v. round64 (2 / 10) = Fin v \<and> 0 < v"
proof -
  have "\<exists>v. round64 q = Fin v \<and> 0 < v" if q: "1 / 8 \<le> q" "q \<le> 1" for q
  proof -
    have "round_rat (1 / 8) \<le> round_rat q" by (rule round_rat_mono [OF q(1)])
    moreover have "round_rat (1 / 8) = 1 / 8" by code_simp
    moreover have "0 \<le> q" using q(1) by linarith
    then obtain v where "round64 q = Fin v" using round64_between [of 0 q 1] q(2) by auto
    moreover from this have "v = round_rat q" by (simp add: round64_def Let_def split: if_splits)
    ultimately show ?thesis by force
  qed
  then show "\<exists>v. round64 (4 / 10) = Fin v \<and> 0 < v" "\<exists>v. round64 (2 / 10) = Fin v \<and> 0 < v" by simp_all
qed

text \<open>What the program keeps of an endpoint's measurements.\<close>

definition ep_measures_ok :: "Endpoint \<Rightarrow> bool" where
  "ep_measures_ok ep \<longleftrightarrow> 0 \<le> ep_Connections ep \<and> ep_Connections ep \<le> max_int64 \<and>
     ep_MaxConnections ep \<le> max_int64 \<and> 0 \<le> ep_ResponseTime ep \<and> ep_ResponseTime ep \<le> max_int64 \<and>
     (case ep_ErrorRate ep of Fin e \<Rightarrow> 0 \<le> e \<and> e \<le> 1 | _ \<Rightarrow> False)"

lemma ep_score_nonneg:
  assumes "ep_measures_ok ep"
  shows "f64_nonneg (ep_score ep)"
proof -
  obtain e where e: "ep_ErrorRate ep = Fin e" "0 \<le> e" "e \<le> 1"
    using assms by (auto simp: ep_measures_ok_def split: float64.splits)
  obtain c where c: "f64_of_int (ep_Connections ep) = Fin c" "0 \<le> c"
    using f64_of_int_finite [of "ep_Connections ep"] assms by (auto simp: ep_measures_ok_def)
  obtain r where r: "f64_of_int (ep_ResponseTime ep) = Fin r" "0 \<le> r"
    using f64_of_int_finite [of "ep_ResponseTime ep"] assms by (auto simp: ep_measures_ok_def)
  have cst: "f64_of_int 100 = Fin 100" "f64_of_int second = Fin 1000000000" "f64_of_int 10 = Fin 10"
    using f64_of_int_exact [of 100] f64_of_int_exact [of second] f64_of_int_exact [of 10] by simp_all
  have load: "f64_nonneg (f64_div (Fin c) (f64_of_int m))" if "0 < m" "m \<le> max_int64" for m
    using f64_of_int_finite [of m] that c(2) round64_le(2) [OF _ order_refl] by auto
  have "f64_nonneg (if ep_MaxConnections ep \<le> 0 then f64_div (Fin c) (Fin 100)
      else f64_div (Fin c) (f64_of_int (ep_MaxConnections ep)))"
    using load [of 100] load [of "ep_MaxConnections ep"] assms cst(1)
    by (simp add: ep_measures_ok_def max_int64_def)
  moreover have "f64_nonneg (f64_div (Fin r) (Fin 1000000000))"
    using r(2) round64_le(2) [OF _ order_refl] by simp
  moreover have "f64_nonneg (f64_mul (Fin e) (Fin 10))" using e by (intro f64_nonneg_mul) simp_all
  moreover obtain a where a: "round64 (4 / 10) = Fin a" "0 < a" using round64_pos_consts(1) by blast
  moreover obtain b where b: "round64 (2 / 10) = Fin b" "0 < b" using round64_pos_consts(2) by blast
  ultimately show ?thesis
    using e(2) unfolding ep_score_def Let_def e(1) c(1) r(1) cst a(1) b(1)
    by (intro f64_nonneg_add f64_nonneg_mul) auto
qed

interpretation by_score: exchange_order "\<lambda>a b :: endpointScore. f64_less (snd b) (snd a)" "\<lambda>a. f64_nonneg (snd a)"
proof unfold_locales
  fix a b c :: endpointScore
  assume a: "f64_nonneg (snd a)" and b: "f64_nonneg (snd b)"
  show "f64_less (snd b) (snd a) \<Longrightarrow> \<not> f64_less (snd a) (snd b)"
    using a b by (cases "snd a"; cases "snd b") auto
  assume c: "f64_nonneg (snd c)"
  show "\<not> f64_less (snd b) (snd a) \<Longrightarrow> \<not> f64_less (snd c) (snd b) \<Longrightarrow> \<not> f64_less (snd c) (snd a)"
    using a b c by (cases "snd a"; cases "snd b"; cases "snd c") auto
qed

section \<open>Properties\<close>

text \<open>
  Repeated selections from a list of \<open>n\<close> endpoints go round it from the
  current index, whatever that index is: selection \<open>i\<close> is endpoint \<open>index + i\<close> modulo \<open>n\<close>,
  so any \<open>n\<close> selections in a row pick every endpoint exactly once.
\<close>

theorem round_robin_fair:
  assumes "eps \<noteq> []"
  shows "rr_rounds k indices ty eps = map (\<lambda>i. Some (eps ! ((rr_index indices ty + i) mod length eps))) [0..<k] \<and>
    mset (rr_rounds (length eps) indices ty eps) = image_mset Some (mset eps)"
proof -
  let ?n = "length eps" and ?c = "rr_index indices ty"
  have "rr_rounds ?n indices ty eps = map Some (rotate ?c eps)"
    unfolding rr_rounds_nth [OF assms]
    by (rule nth_equalityI) (simp_all add: nth_rotate add.commute)
  then have "mset (rr_rounds ?n indices ty eps) = image_mset Some (mset eps)"
    by (simp add: mset_rotate)
  with rr_rounds_nth [OF assms] show ?thesis by blast
qed

theorem round_robin_fair_witness:
  "rr_rounds 4 [''llm'' \<mapsto> 7] ''llm'' [10, 11, 12] = map Some [11, 12, 10, 11]"
  using round_robin_fair [of "[10, 11, 12]" 4 "[''llm'' \<mapsto> 7]" "''llm''"]
  by (simp add: rr_index_def upt_rec)

text \<open>
  As long as connection counts are not negative, the least-connections
  strategy returns an endpoint of the list with the fewest connections.
\<close>

theorem least_connections_min:
  assumes "endpoints \<noteq> []" and "\<forall>ep \<in> set endpoints. 0 \<le> ep_Connections (st ep)"
  shows "\<exists>b \<in> set endpoints. lb_leastConnectionsSelect st endpoints = Some b \<and>
    (\<forall>ep \<in> set endpoints. ep_Connections (st b) \<le> ep_Connections (st ep))"
  using least_loop_min [OF assms(2), of "-1" None] assms(1) by (auto simp: lb_leastConnectionsSelect_def)

definition sample_endpoint :: Endpoint where
  "sample_endpoint = \<lparr>ep_ID = ''e'', ep_URL = ''http://e'', ep_Name = ''e'', ep_Type = ''llm'', ep_Capabilities = [],
     ep_Weight = 1, ep_Status = EndpointStatusHealthy, ep_Connections = 0, ep_MaxConnections = 10,
     ep_ResponseTime = 0, ep_ErrorRate = Fin 0, ep_LastCheck = 0, ep_Metadata = None\<rparr>"

theorem least_connections_min_witness:
  "lb_leastConnectionsSelect (\<lambda>r. sample_endpoint\<lparr>ep_Connections := if r = 2 then 1 else 5\<rparr>) [1, 2, 3] = Some 2"
  using least_connections_min [of "[1, 2, 3]" "\<lambda>r. sample_endpoint\<lparr>ep_Connections := if r = 2 then 1 else 5\<rparr>"]
  by (auto split: if_splits)

text \<open>
  When the weights (1 where not positive) fit the machine's integers, the
  number of values of the random source, out of as many as the total weight, for which the
  strategy picks an endpoint is that endpoint's weight: a uniform source makes the choice
  proportional to the weights, and there is no panic and no fallback to the first endpoint.
\<close>

theorem weighted_random_share:
  assumes "distinct endpoints" and "weights st endpoints < max_int64" and "i < length endpoints"
  shows "int (card {r. 0 \<le> r \<and> r < weights st endpoints \<and>
      lb_weightedRandomSelect (\<lambda>_. r) st endpoints = Some (Some (endpoints ! i))}) = ep_weight st (endpoints ! i)"
proof -
  let ?W = "weights st endpoints" and ?a = "weights st (take i endpoints)" and ?b = "weights st (take (Suc i) endpoints)"
  have W: "?W = ?a + weights st (drop i endpoints)"
    unfolding weights_def by (simp add: sum_list_append [symmetric] map_append [symmetric] del: map_append sum_list_append)
  have step: "?b = ?a + ep_weight st (endpoints ! i)"
    using assms(3) by (simp add: weights_def take_Suc_conv_app_nth)
  have "drop i endpoints = endpoints ! i # drop (Suc i) endpoints" using assms(3) by (simp add: Cons_nth_drop_Suc)
  then have bW: "?b \<le> ?W" using W step weights_nonneg [of st "drop (Suc i) endpoints"] by (simp add: weights_Cons)
  have total: "total_weight st endpoints 0 = ?W" using total_weight_eq [of 0 st endpoints] assms(2) by simp
  have pos: "0 < ?W"
    using W step bW ep_weight_pos [of st "endpoints ! i"] weights_nonneg [of st "take i endpoints"] by linarith
  have sel: "lb_weightedRandomSelect (\<lambda>_. r) st endpoints = Some (Some (endpoints ! i)) \<longleftrightarrow> ?a \<le> r \<and> r < ?b"
    if r: "0 \<le> r" "r < ?W" for r
  proof -
    have fit: "wrap64 (r + 1) = r + 1"
      using r assms(2) by (intro wrap64_id) (simp add: in_int64_def min_int64_def max_int64_def)
    have it: "weighted_loop st (r + 1) endpoints 0 = Some (endpoints ! j) \<longleftrightarrow>
        weights st (take j endpoints) < r + 1 \<and> r + 1 \<le> weights st (take (Suc j) endpoints)"
      if "j < length endpoints" for j
      using weighted_loop_iff [of 0 st endpoints "r + 1" j] assms(1,2) r that by simp
    have "weighted_loop st (r + 1) endpoints 0 \<noteq> None"
      using weighted_loop_total [of 0 st endpoints "r + 1"] r assms(2) by simp
    then show ?thesis using assms(3) total pos fit it [OF assms(3)]
      by (auto simp: lb_weightedRandomSelect_def Let_def split: option.splits)
  qed
  have "{r. 0 \<le> r \<and> r < ?W \<and> lb_weightedRandomSelect (\<lambda>_. r) st endpoints = Some (Some (endpoints ! i))} = {?a..<?b}"
    using sel bW weights_nonneg [of st "take i endpoints"] by auto
  then show ?thesis using step ep_weight_pos [of st "endpoints ! i"] by simp
qed

theorem weighted_random_share_witness:
  "int (card {r. 0 \<le> r \<and> r < 5 \<and> lb_weightedRandomSelect (\<lambda>_. r)
      (\<lambda>e. sample_endpoint\<lparr>ep_Weight := int e - 7\<rparr>) [9, 10] = Some (Some 10)}) = 3"
  using weighted_random_share [of "[9, 10]" "\<lambda>e. sample_endpoint\<lparr>ep_Weight := int e - 7\<rparr>" 1]
  by (simp add: weights_def ep_weight_def max_int64_def)

text \<open>
  C25 (adaptive load). For endpoints whose measurements are in range (error rate in [0, 1],
  nothing negative) the binary64 scores are never NaN, the exchange sort orders them, and the
  strategy returns an endpoint that no other beats, unless the draw is below 0.1 and there is
  a second one: then at most one position of the list beats the one returned.
\<close>

theorem adaptive_load_best:
  assumes "endpoints \<noteq> []" and "\<forall>ep \<in> set endpoints. ep_measures_ok (st ep)"
  shows "\<exists>b \<in> set endpoints. lb_adaptiveLoadSelect draw st endpoints = Some b \<and>
    length (filter (\<lambda>ep. f64_less (ep_score (st ep)) (ep_score (st b))) endpoints) \<le>
      (if 1 < length endpoints \<and> f64_less draw (round64 (1 / 10)) then 1 else 0)"
proof -
  let ?xs = "map (\<lambda>ep. (ep, ep_score (st ep))) endpoints"
  let ?ys = "sortEndpointScores ?xs"
  let ?k = "(if 1 < length endpoints \<and> f64_less draw (round64 (1 / 10)) then 1 else 0) :: nat"
  have good: "\<forall>x \<in> set ?xs. f64_nonneg (snd x)" using assms(2) ep_score_nonneg by auto
  note c = by_score.exchange_sort_correct [OF good, folded sortEndpointScores_def]
  have len: "length ?ys = length endpoints" using c(1) by (metis size_mset length_map)
  have k: "?k < length ?ys" using assms(1) len by (cases endpoints) auto
  have set: "set ?ys = set ?xs" using c(1) by (metis set_mset_mset)
  let ?y = "?ys ! ?k"
  have "?y \<in> set ?xs" using k set nth_mem by blast
  then have y: "fst ?y \<in> set endpoints" "snd ?y = ep_score (st (fst ?y))" by auto
  have good_y: "f64_nonneg (snd z)" if "z \<in> set ?ys" for z using good set that by blast
  have late: "\<not> f64_less (snd (?ys ! j)) (snd ?y)" if j: "j < length ?ys" "?k \<le> j" for j
  proof (cases "j = ?k")
    case True
    then show ?thesis using by_score.worse_irrefl [of ?y] good_y [of ?y] k by (simp add: nth_mem)
  next
    case False
    then show ?thesis using c(2) j by (simp add: sorted_wrt_iff_nth_less)
  qed
  have "length (filter (\<lambda>ep. f64_less (ep_score (st ep)) (snd ?y)) endpoints) =
      length (filter (\<lambda>x. f64_less (snd x) (snd ?y)) ?xs)"
    by (simp add: filter_map comp_def)
  also have "\<dots> = length (filter (\<lambda>x. f64_less (snd x) (snd ?y)) ?ys)"
    by (rule length_filter_mset [OF c(1) [symmetric]])
  also have "\<dots> = card {j. j < length ?ys \<and> f64_less (snd (?ys ! j)) (snd ?y)}"
    by (rule length_filter_conv_card)
  also have "\<dots> \<le> card {..<?k}"
  proof (rule card_mono)
    show "{j. j < length ?ys \<and> f64_less (snd (?ys ! j)) (snd ?y)} \<subseteq> {..<?k}"
      using late leI by blast
  qed simp
  finally have "length (filter (\<lambda>ep. f64_less (ep_score (st ep)) (snd ?y)) endpoints) \<le> ?k" by simp
  moreover have "lb_adaptiveLoadSelect draw st endpoints = Some (fst ?y)"
    using assms(1) len by (simp add: lb_adaptiveLoadSelect_def Let_def)
  ultimately show ?thesis using y by (intro bexI [of _ "fst ?y"]) simp_all
qed

theorem adaptive_load_best_witness:
  "\<exists>b \<in> {1, 2}. lb_adaptiveLoadSelect (Fin 1) (\<lambda>_. sample_endpoint) [1, 2] = Some b"
  using adaptive_load_best [of "[1, 2]" "\<lambda>_. sample_endpoint" "Fin 1"]
  by (auto simp: ep_measures_ok_def sample_endpoint_def max_int64_def)

end
