(* ===== verification/LoadBalancer.thy ===== *)
theory LoadBalancer
  imports EndpointSelection Config "HOL-Library.AList"
begin

text \<open>
  \<^verbatim>\<open>internal/loadbalancer/load_balancer.go\<close>: groups of endpoints by type, session
  affinity, selection by the configured strategy (\<open>EndpointSelection\<close>), and the
  measurements that \<^verbatim>\<open>ReleaseEndpoint\<close> keeps.

  Endpoints are pointers into the store \<open>lb_eps\<close>; endpoints the caller has made are in it
  before they are added. The mutex is the flag \<open>lb_locked\<close>: every method is a \<open>call\<close> that
  waits for ever while it is held and otherwise runs to its end, leaving the flag as the
  source leaves the mutex. Where the source iterates over the map of groups, \<open>order\<close> lists
  its keys in the order of that iteration; the sessions, whose number is reported, are an
  association list.
\<close>

section \<open>State\<close>

type_synonym BalancingStrategy = string

definition RoundRobin :: BalancingStrategy where "RoundRobin = ''round_robin''"
definition LeastConnections :: BalancingStrategy where "LeastConnections = ''least_connections''"
definition WeightedRandom :: BalancingStrategy where "WeightedRandom = ''weighted_random''"
definition AdaptiveLoad :: BalancingStrategy where "AdaptiveLoad = ''adaptive_load''"

record SessionInfo =
  si_SessionID :: string
  si_EndpointID :: string
  si_CreatedAt :: go_time
  si_LastUsed :: go_time

record LoadBalancerConfig =
  lbc_Strategy :: BalancingStrategy
  lbc_HealthCheckInterval :: duration
  lbc_HealthCheckTimeout :: duration
  lbc_UnhealthyThreshold :: int
  lbc_HealthyThreshold :: int
  lbc_EnableSessionAffinity :: bool
  lbc_SessionTimeout :: duration
  lbc_RetryAttempts :: int
  lbc_RetryDelay :: duration

text \<open>A group under its type, which is the key in the map of groups.\<close>

type_synonym EndpointGroup = "eref list"

record LoadBalancer =
  lb_config :: LoadBalancerConfig
  lb_groups :: "string \<Rightarrow> EndpointGroup option"
  lb_sessions :: "(string \<times> SessionInfo) list"
  lb_currentIndex :: "string \<Rightarrow> nat option"
  lb_locked :: bool
  lb_stopped :: bool
  lb_eps :: estore

definition NewLoadBalancer :: "LoadBalancerSettings \<Rightarrow> estore \<Rightarrow> LoadBalancer" where
  "NewLoadBalancer cfg st =
     (let lbConfig = \<lparr>lbc_Strategy = lc_Algorithm cfg, lbc_HealthCheckInterval = lc_HealthCheckInterval cfg,
            lbc_HealthCheckTimeout = 30 * second, lbc_UnhealthyThreshold = lc_MaxFailures cfg,
            lbc_HealthyThreshold = 2, lbc_EnableSessionAffinity = True, lbc_SessionTimeout = 0,
            lbc_RetryAttempts = 3, lbc_RetryDelay = 1 * second\<rparr>
      in \<lparr>lb_config = lbConfig, lb_groups = Map.empty, lb_sessions = [], lb_currentIndex = Map.empty,
          lb_locked = False, lb_stopped = False, lb_eps = st\<rparr>)"

datatype 'a call = Done 'a | Waits | Panics

definition with_lock :: "(LoadBalancer \<Rightarrow> 'a \<times> LoadBalancer) \<Rightarrow> LoadBalancer \<Rightarrow> ('a \<times> LoadBalancer) call" where
  "with_lock f lb = (if lb_locked lb then Waits else Done (f lb))"

definition lb_update :: "eref \<Rightarrow> (Endpoint \<Rightarrow> Endpoint) \<Rightarrow> LoadBalancer \<Rightarrow> LoadBalancer" where
  "lb_update r f lb = lb\<lparr>lb_eps := (lb_eps lb)(r := f (lb_eps lb r))\<rparr>"

section \<open>Finding an endpoint\<close>

fun index_of :: "('a \<Rightarrow> bool) \<Rightarrow> 'a list \<Rightarrow> nat option" where
  "index_of P [] = None"
| "index_of P (x # xs) = (if P x then Some 0 else map_option Suc (index_of P xs))"

text \<open>The group and position of the endpoint with an identifier.\<close>

fun lb_find :: "string list \<Rightarrow> string \<Rightarrow> LoadBalancer \<Rightarrow> (string \<times> nat) option" where
  "lb_find [] endpointID lb = None"
| "lb_find (ty # order) endpointID lb =
     (case lb_groups lb ty of
        None \<Rightarrow> lb_find order endpointID lb
      | Some eps \<Rightarrow>
          (case index_of (\<lambda>r. ep_ID (lb_eps lb r) = endpointID) eps of
             None \<Rightarrow> lb_find order endpointID lb
           | Some i \<Rightarrow> Some (ty, i)))"

definition lb_find_ref :: "string list \<Rightarrow> string \<Rightarrow> LoadBalancer \<Rightarrow> eref option" where
  "lb_find_ref order endpointID lb =
     (case lb_find order endpointID lb of None \<Rightarrow> None | Some (ty, i) \<Rightarrow> Some (the (lb_groups lb ty) ! i))"

section \<open>Operations\<close>

definition lb_AddEndpoint :: "string list \<Rightarrow> go_time \<Rightarrow> eref \<Rightarrow> LoadBalancer \<Rightarrow> string option \<times> LoadBalancer" where
  "lb_AddEndpoint order now r lb =
     (if lb_find order (ep_ID (lb_eps lb r)) lb \<noteq> None
      then (Some ''endpoint with this ID already exists'', lb)
      else let lb1 = lb_update r (\<lambda>e. (if ep_Status e = '''' then e\<lparr>ep_Status := EndpointStatusHealthy\<rparr> else e)
                                         \<lparr>ep_LastCheck := now\<rparr>) lb;
               ty = ep_Type (lb_eps lb1 r);
               group = (case lb_groups lb1 ty of None \<Rightarrow> [] | Some eps \<Rightarrow> eps)
           in (None, lb1\<lparr>lb_groups := (lb_groups lb1)(ty \<mapsto> group @ [r])\<rparr>))"

definition lb_RemoveEndpoint :: "string list \<Rightarrow> string \<Rightarrow> LoadBalancer \<Rightarrow> string option \<times> LoadBalancer" where
  "lb_RemoveEndpoint order endpointID lb =
     (case lb_find order endpointID lb of
        None \<Rightarrow> (Some ''endpoint not found'', lb)
      | Some (ty, i) \<Rightarrow>
          let eps = remove_nth i (the (lb_groups lb ty))
          in (None, lb\<lparr>lb_groups := (lb_groups lb)(ty := if length eps = 0 then None else Some eps),
                       lb_sessions := filter (\<lambda>s. si_EndpointID (snd s) \<noteq> endpointID) (lb_sessions lb)\<rparr>))"

definition lb_UpdateEndpointStatus ::
    "string list \<Rightarrow> string \<Rightarrow> EndpointStatus \<Rightarrow> LoadBalancer \<Rightarrow> string option \<times> LoadBalancer" where
  "lb_UpdateEndpointStatus order endpointID status lb =
     (case lb_find_ref order endpointID lb of
        None \<Rightarrow> (Some ''endpoint not found'', lb)
      | Some r \<Rightarrow> (None, lb_update r (\<lambda>e. e\<lparr>ep_Status := status\<rparr>) lb))"

definition ep_usable :: "Endpoint \<Rightarrow> bool" where
  "ep_usable e \<longleftrightarrow> ep_Status e = EndpointStatusHealthy \<or> ep_Status e = EndpointStatusDegraded"

definition lb_getSessionEndpoint ::
    "string list \<Rightarrow> go_time \<Rightarrow> go_time \<Rightarrow> string \<Rightarrow> LoadBalancer \<Rightarrow> (string + eref) \<times> LoadBalancer" where
  "lb_getSessionEndpoint order now now' sessionID lb =
     (let drop = lb\<lparr>lb_sessions := AList.delete sessionID (lb_sessions lb)\<rparr>
      in case map_of (lb_sessions lb) sessionID of
           None \<Rightarrow> (Inl ''session not found'', lb)
         | Some session \<Rightarrow>
             if lbc_SessionTimeout (lb_config lb) > 0 \<and>
                time_sub now (si_LastUsed session) > lbc_SessionTimeout (lb_config lb)
             then (Inl ''session expired'', drop)
             else (case lb_find_ref order (si_EndpointID session) lb of
                     None \<Rightarrow> (Inl ''endpoint not found'', drop)
                   | Some r \<Rightarrow>
                       if ep_usable (lb_eps lb r)
                       then (Inr r, lb\<lparr>lb_sessions := AList.update sessionID (session\<lparr>si_LastUsed := now'\<rparr>) (lb_sessions lb)\<rparr>)
                       else (Inl ''endpoint unhealthy'', drop)))"

definition lb_saveSession :: "go_time \<Rightarrow> go_time \<Rightarrow> string \<Rightarrow> string \<Rightarrow> LoadBalancer \<Rightarrow> LoadBalancer" where
  "lb_saveSession now now' sessionID endpointID lb =
     (let session = (case map_of (lb_sessions lb) sessionID of
            None \<Rightarrow> \<lparr>si_SessionID = sessionID, si_EndpointID = endpointID, si_CreatedAt = now, si_LastUsed = now'\<rparr>
          | Some s \<Rightarrow> s\<lparr>si_EndpointID := endpointID, si_LastUsed := now\<rparr>)
      in lb\<lparr>lb_sessions := AList.update sessionID session (lb_sessions lb)\<rparr>)"

definition getEndpointTypeFromMessage :: "message option \<Rightarrow> string" where
  "getEndpointTypeFromMessage msg =
     (case msg of
        None \<Rightarrow> ''llm''
      | Some m \<Rightarrow>
          (case m_Metadata m of
             None \<Rightarrow> ''llm''
           | Some md \<Rightarrow>
               (case md ''model_type'' of
                  Some (AString modelType) \<Rightarrow> if modelType \<noteq> '''' then modelType else ''llm''
                | _ \<Rightarrow> ''llm'')))"

text \<open>The random source: \<^verbatim>\<open>Intn\<close> and the float of \<^verbatim>\<open>Float64\<close>.\<close>

type_synonym random = "(int \<Rightarrow> int) \<times> float64"

definition lb_choose ::
    "random \<Rightarrow> string \<Rightarrow> eref list \<Rightarrow> LoadBalancer \<Rightarrow> (eref option \<times> LoadBalancer) option" where
  "lb_choose rnd ty healthy lb =
     (let strategy = lbc_Strategy (lb_config lb);
          rr = (case lb_roundRobinSelect (lb_currentIndex lb) ty healthy of
                  (r, indices) \<Rightarrow> Some (r, lb\<lparr>lb_currentIndex := indices\<rparr>))
      in if strategy = RoundRobin then rr
         else if strategy = LeastConnections then Some (lb_leastConnectionsSelect (lb_eps lb) healthy, lb)
         else if strategy = WeightedRandom
           then map_option (\<lambda>r. (r, lb)) (lb_weightedRandomSelect (fst rnd) (lb_eps lb) healthy)
         else if strategy = AdaptiveLoad then Some (lb_adaptiveLoadSelect (snd rnd) (lb_eps lb) healthy, lb)
         else rr)"

text \<open>
  The part of \<^verbatim>\<open>GetEndpoint\<close> between \<^verbatim>\<open>Lock\<close> and \<^verbatim>\<open>Unlock\<close>: the three error
  returns come before the \<^verbatim>\<open>Unlock\<close>.
\<close>

definition lb_select ::
    "random \<Rightarrow> message option \<Rightarrow> LoadBalancer \<Rightarrow> ((string + eref) \<times> LoadBalancer) option" where
  "lb_select rnd request lb0 =
     (let lb = lb0\<lparr>lb_locked := True\<rparr>; ty = getEndpointTypeFromMessage request
      in case lb_groups lb ty of
           None \<Rightarrow> Some (Inl ''no endpoints available for the requested type'', lb)
         | Some eps \<Rightarrow>
             if length eps = 0 then Some (Inl ''no endpoints available for the requested type'', lb)
             else let healthy = getHealthyEndpoints (lb_eps lb) eps
                  in if length healthy = 0 then Some (Inl ''no healthy endpoints available'', lb)
                     else (case lb_choose rnd ty healthy lb of
                             None \<Rightarrow> None
                           | Some (None, lb1) \<Rightarrow> Some (Inl ''failed to select an endpoint'', lb1)
                           | Some (Some r, lb1) \<Rightarrow>
                               Some (Inr r, (lb_update r (\<lambda>e. e\<lparr>ep_Connections := ep_Connections e + 1\<rparr>) lb1)
                                              \<lparr>lb_locked := False\<rparr>)))"

text \<open>
  \<^verbatim>\<open>GetEndpoint\<close> takes the mutex up to three times: to look the session up, to select, and to save
  the session. This is the call when no other comes between the three; ConcurrentRequests
  interleaves them.
\<close>

record lb_times =
  lt_session :: "go_time \<times> go_time"
  lt_save :: "go_time \<times> go_time"

definition lb_GetEndpoint ::
    "string list \<Rightarrow> random \<Rightarrow> lb_times \<Rightarrow> message option \<Rightarrow> string \<Rightarrow> LoadBalancer
     \<Rightarrow> ((string + eref) \<times> LoadBalancer) call" where
  "lb_GetEndpoint order rnd t request sessionID lb =
     (if lb_locked lb then Waits
      else let affine = lbc_EnableSessionAffinity (lb_config lb) \<and> sessionID \<noteq> '''';
               (found, lb1) = (if affine
                  then lb_getSessionEndpoint order (fst (lt_session t)) (snd (lt_session t)) sessionID lb
                  else (Inl '''', lb))
           in case found of
                Inr r \<Rightarrow> Done (Inr r, lb1)
              | Inl _ \<Rightarrow>
                  (case lb_select rnd request lb1 of
                     None \<Rightarrow> Panics
                   | Some (Inl err, lb2) \<Rightarrow> Done (Inl err, lb2)
                   | Some (Inr r, lb2) \<Rightarrow>
                       Done (Inr r, if affine
                         then lb_saveSession (fst (lt_save t)) (snd (lt_save t)) sessionID (ep_ID (lb_eps lb2 r)) lb2
                         else lb2)))"

definition ep_release :: "duration \<Rightarrow> bool \<Rightarrow> Endpoint \<Rightarrow> Endpoint" where
  "ep_release responseTime isError ep =
     (let ep1 = (if ep_Connections ep > 0 then ep\<lparr>ep_Connections := ep_Connections ep - 1\<rparr> else ep);
          ep2 = (if responseTime > 0
                 then if ep_ResponseTime ep1 = 0 then ep1\<lparr>ep_ResponseTime := responseTime\<rparr>
                      else ep1\<lparr>ep_ResponseTime := go_div (wrap64 (wrap64 (ep_ResponseTime ep1 * 9) + responseTime)) 10\<rparr>
                 else ep1)
      in if isError
         then ep2\<lparr>ep_ErrorRate := f64_div (f64_add (f64_mul (ep_ErrorRate ep2) (f64_of_int 9)) (f64_of_int 1)) (f64_of_int 10)\<rparr>
         else ep2\<lparr>ep_ErrorRate := f64_mul (ep_ErrorRate ep2) (round64 (9 / 10))\<rparr>)"

definition lb_ReleaseEndpoint :: "string list \<Rightarrow> string \<Rightarrow> duration \<Rightarrow> bool \<Rightarrow> LoadBalancer \<Rightarrow> LoadBalancer" where
  "lb_ReleaseEndpoint order endpointID responseTime isError lb =
     (case lb_find_ref order endpointID lb of
        None \<Rightarrow> lb
      | Some r \<Rightarrow> lb_update r (ep_release responseTime isError) lb)"

text \<open>\<open>isHealthy\<close> is the constant \<^verbatim>\<open>true\<close> in the source.\<close>

definition lb_checkEndpointHealth :: "go_time \<Rightarrow> eref \<Rightarrow> LoadBalancer \<Rightarrow> LoadBalancer" where
  "lb_checkEndpointHealth now r lb =
     lb_update r (\<lambda>e. (if ep_Status e = EndpointStatusUnhealthy then e\<lparr>ep_Status := EndpointStatusDegraded\<rparr> else e)
                        \<lparr>ep_LastCheck := now\<rparr>) lb"

text \<open>The endpoints for which \<^verbatim>\<open>performHealthChecks\<close> starts a check.\<close>

fun lb_GetAllEndpoints :: "string list \<Rightarrow> LoadBalancer \<Rightarrow> eref list" where
  "lb_GetAllEndpoints [] lb = []"
| "lb_GetAllEndpoints (ty # order) lb =
     (case lb_groups lb ty of None \<Rightarrow> [] | Some eps \<Rightarrow> eps) @ lb_GetAllEndpoints order lb"

definition lb_performHealthChecks :: "string list \<Rightarrow> LoadBalancer \<Rightarrow> eref list" where
  "lb_performHealthChecks order lb = lb_GetAllEndpoints order lb"

definition lb_cleanupExpiredSessions :: "go_time \<Rightarrow> LoadBalancer \<Rightarrow> LoadBalancer" where
  "lb_cleanupExpiredSessions now lb =
     lb\<lparr>lb_sessions := filter (\<lambda>s. \<not> time_sub now (si_LastUsed (snd s)) > lbc_SessionTimeout (lb_config lb)) (lb_sessions lb)\<rparr>"

definition lb_GetEndpointsByType :: "string \<Rightarrow> LoadBalancer \<Rightarrow> eref list" where
  "lb_GetEndpointsByType endpointType lb = (case lb_groups lb endpointType of None \<Rightarrow> [] | Some eps \<Rightarrow> eps)"

definition lb_GetEndpointByID :: "string list \<Rightarrow> string \<Rightarrow> LoadBalancer \<Rightarrow> string + eref" where
  "lb_GetEndpointByID order endpointID lb =
     (case lb_find_ref order endpointID lb of None \<Rightarrow> Inl ''endpoint not found'' | Some r \<Rightarrow> Inr r)"

definition lb_GetSessionCount :: "LoadBalancer \<Rightarrow> int" where
  "lb_GetSessionCount lb = int (length (lb_sessions lb))"

definition lb_ClearSessions :: "LoadBalancer \<Rightarrow> LoadBalancer" where
  "lb_ClearSessions lb = lb\<lparr>lb_sessions := []\<rparr>"

text \<open>
  The two loops that \<^verbatim>\<open>NewLoadBalancer\<close> starts; a tick of the first comes with the balancer as it
  is then, and the result lists the endpoints whose checks it has spawned.
\<close>

definition lb_healthCheckLoop :: "duration \<Rightarrow> (string list \<times> LoadBalancer) wake list \<Rightarrow> eref list option" where
  "lb_healthCheckLoop interval wakes =
     run_ticker interval (\<lambda>(order, lb) spawned. Some (spawned @ lb_performHealthChecks order lb)) wakes []"

definition lb_sessionCleanupLoop :: "go_time wake list \<Rightarrow> LoadBalancer \<Rightarrow> LoadBalancer option" where
  "lb_sessionCleanupLoop wakes lb =
     run_ticker (lbc_SessionTimeout (lb_config lb) div 2) (\<lambda>now lb. Some (lb_cleanupExpiredSessions now lb)) wakes lb"

text \<open>Which of them it starts.\<close>

definition lb_starts_healthCheckLoop :: "LoadBalancer \<Rightarrow> bool" where
  "lb_starts_healthCheckLoop lb \<longleftrightarrow> 0 < lbc_HealthCheckInterval (lb_config lb)"

definition lb_starts_sessionCleanupLoop :: "LoadBalancer \<Rightarrow> bool" where
  "lb_starts_sessionCleanupLoop lb \<longleftrightarrow> lbc_EnableSessionAffinity (lb_config lb) \<and> 0 < lbc_SessionTimeout (lb_config lb)"

text \<open>A loop that is started does not panic; the sessions are never cleaned up.\<close>

lemma started_loops_ok:
  "lb_starts_healthCheckLoop lb \<Longrightarrow> lb_healthCheckLoop (lbc_HealthCheckInterval (lb_config lb)) wakes \<noteq> None"
  "\<not> lb_starts_sessionCleanupLoop (NewLoadBalancer cfg st)"
  using ticker_loop_total [of "\<lambda>(order, lb) spawned. Some (spawned @ lb_performHealthChecks order lb)" wakes "[]"]
  by (auto simp: lb_starts_healthCheckLoop_def lb_starts_sessionCleanupLoop_def lb_healthCheckLoop_def run_ticker_def NewLoadBalancer_def Let_def)

text \<open>Closing a closed channel panics.\<close>

definition lb_Stop :: "LoadBalancer \<Rightarrow> LoadBalancer option" where
  "lb_Stop lb = (if lb_stopped lb then None else Some (lb\<lparr>lb_stopped := True\<rparr>))"

record EndpointStats =
  es_total :: int
  es_healthy :: int
  es_degraded :: int
  es_unhealthy :: int
  es_byType :: "string \<Rightarrow> int option"
  es_totalConnections :: int
  es_sessions :: int

definition count_status :: "estore \<Rightarrow> EndpointStatus \<Rightarrow> eref list \<Rightarrow> int" where
  "count_status st s eps = int (length (filter (\<lambda>r. ep_Status (st r) = s) eps))"

definition lb_GetEndpointStats :: "string list \<Rightarrow> LoadBalancer \<Rightarrow> EndpointStats" where
  "lb_GetEndpointStats order lb =
     (let eps = lb_GetAllEndpoints order lb; st = lb_eps lb
      in \<lparr>es_total = int (length eps), es_healthy = count_status st EndpointStatusHealthy eps,
          es_degraded = count_status st EndpointStatusDegraded eps,
          es_unhealthy = count_status st EndpointStatusUnhealthy eps,
          es_byType = (\<lambda>ty. map_option (\<lambda>g. int (length g)) (lb_groups lb ty)),
          es_totalConnections = sum_list (map (\<lambda>r. ep_Connections (st r)) eps),
          es_sessions = int (length (lb_sessions lb))\<rparr>)"

section \<open>Runs\<close>

text \<open>The methods that change the state; the others wait for the lock in the same way.\<close>

datatype lb_op =
    LAdd "string list" go_time eref
  | LRemove "string list" string
  | LStatus "string list" string EndpointStatus
  | LGet "string list" random lb_times "message option" string
  | LRelease "string list" string duration bool
  | LCheck go_time eref
  | LCleanup go_time
  | LClear

fun lb_step :: "lb_op \<Rightarrow> LoadBalancer \<Rightarrow> LoadBalancer call" where
  "lb_step (LAdd order now r) lb = map_call snd (with_lock (lb_AddEndpoint order now r) lb)"
| "lb_step (LRemove order i) lb = map_call snd (with_lock (lb_RemoveEndpoint order i) lb)"
| "lb_step (LStatus order i s) lb = map_call snd (with_lock (lb_UpdateEndpointStatus order i s) lb)"
| "lb_step (LGet order rnd t m sid) lb = map_call snd (lb_GetEndpoint order rnd t m sid lb)"
| "lb_step (LRelease order i d e) lb = map_call snd (with_lock (\<lambda>lb. ((), lb_ReleaseEndpoint order i d e lb)) lb)"
| "lb_step (LCheck now r) lb = map_call snd (with_lock (\<lambda>lb. ((), lb_checkEndpointHealth now r lb)) lb)"
| "lb_step (LCleanup now) lb = map_call snd (with_lock (\<lambda>lb. ((), lb_cleanupExpiredSessions now lb)) lb)"
| "lb_step LClear lb = map_call snd (with_lock (\<lambda>lb. ((), lb_ClearSessions lb)) lb)"

text \<open>
  The state after a run: a call that waits changes nothing and lets the others go on, a panic
  ends the run.
\<close>

fun lb_run :: "lb_op list \<Rightarrow> LoadBalancer \<Rightarrow> LoadBalancer" where
  "lb_run [] lb = lb"
| "lb_run (op # ops) lb =
     (case lb_step op lb of Done lb' \<Rightarrow> lb_run ops lb' | Waits \<Rightarrow> lb_run ops lb | Panics \<Rightarrow> lb)"

text \<open>An iteration visits every group.\<close>

definition order_ok :: "string list \<Rightarrow> LoadBalancer \<Rightarrow> bool" where
  "order_ok order lb \<longleftrightarrow> dom (lb_groups lb) \<subseteq> set order"

fun op_order_ok :: "lb_op \<Rightarrow> LoadBalancer \<Rightarrow> bool" where
  "op_order_ok (LAdd order now r) lb = order_ok order lb"
| "op_order_ok (LRemove order i) lb = order_ok order lb"
| "op_order_ok (LStatus order i s) lb = order_ok order lb"
| "op_order_ok (LGet order rnd t m sid) lb = order_ok order lb"
| "op_order_ok (LRelease order i d e) lb = order_ok order lb"
| "op_order_ok _ lb = True"

fun lb_valid :: "lb_op list \<Rightarrow> LoadBalancer \<Rightarrow> bool" where
  "lb_valid [] lb = True"
| "lb_valid (op # ops) lb =
     (op_order_ok op lb \<and> (case lb_step op lb of Done lb' \<Rightarrow> lb_valid ops lb' | Waits \<Rightarrow> lb_valid ops lb | Panics \<Rightarrow> True))"

section \<open>Finding and updating\<close>

lemma index_of_Some: "index_of P xs = Some i \<Longrightarrow> i < length xs \<and> P (xs ! i)"
  by (induction xs arbitrary: i) (auto split: if_splits)

lemma index_of_None: "index_of P xs = None \<longleftrightarrow> (\<forall>x \<in> set xs. \<not> P x)"
  by (induction xs) auto

lemma lb_find_Some:
  "lb_find order i lb = Some (ty, k) \<Longrightarrow>
   \<exists>eps. lb_groups lb ty = Some eps \<and> k < length eps \<and> ep_ID (lb_eps lb (eps ! k)) = i"
  by (induction order) (auto split: option.splits dest: index_of_Some)

lemma lb_find_None:
  "lb_find order i lb = None \<Longrightarrow> ty \<in> set order \<Longrightarrow> lb_groups lb ty = Some eps \<Longrightarrow> r \<in> set eps \<Longrightarrow>
   ep_ID (lb_eps lb r) \<noteq> i"
  by (induction order) (auto split: option.splits simp: index_of_None)

definition lb_member :: "eref \<Rightarrow> LoadBalancer \<Rightarrow> bool" where
  "lb_member r lb \<longleftrightarrow> (\<exists>ty eps. lb_groups lb ty = Some eps \<and> r \<in> set eps)"

text \<open>Identifiers are unique within a group and across groups, and no group is empty.\<close>

definition lb_unique :: "LoadBalancer \<Rightarrow> bool" where
  "lb_unique lb \<longleftrightarrow>
     (\<forall>ty eps. lb_groups lb ty = Some eps \<longrightarrow> eps \<noteq> [] \<and> distinct (map (\<lambda>r. ep_ID (lb_eps lb r)) eps)) \<and>
     (\<forall>ty eps ty' eps' r r'. lb_groups lb ty = Some eps \<and> lb_groups lb ty' = Some eps' \<and> r \<in> set eps \<and> r' \<in> set eps' \<and>
        ep_ID (lb_eps lb r) = ep_ID (lb_eps lb r') \<longrightarrow> ty = ty')"

lemma lb_uniqueI:
  assumes "\<And>t e. lb_groups lb t = Some e \<Longrightarrow> e \<noteq> [] \<and> distinct (map (\<lambda>r. ep_ID (lb_eps lb r)) e)"
    and "\<And>t t' e e' a b. lb_groups lb t = Some e \<Longrightarrow> lb_groups lb t' = Some e' \<Longrightarrow> a \<in> set e \<Longrightarrow> b \<in> set e' \<Longrightarrow>
      ep_ID (lb_eps lb a) = ep_ID (lb_eps lb b) \<Longrightarrow> t = t'"
  shows "lb_unique lb"
  using assms unfolding lb_unique_def by blast

lemma lb_unique_ref:
  assumes "lb_unique lb" "lb_member r lb" "lb_member r' lb" "ep_ID (lb_eps lb r) = ep_ID (lb_eps lb r')"
  shows "r = r'"
proof -
  obtain ty eps ty' eps' where g: "lb_groups lb ty = Some eps" "r \<in> set eps" "lb_groups lb ty' = Some eps'" "r' \<in> set eps'"
    using assms(2,3) by (auto simp: lb_member_def)
  then have "ty = ty'" using assms(1,4) unfolding lb_unique_def by blast
  then have "eps' = eps" using g by simp
  moreover have "inj_on (\<lambda>r. ep_ID (lb_eps lb r)) (set eps)"
    using assms(1) g(1) by (simp add: lb_unique_def distinct_map)
  ultimately show ?thesis using g assms(4) by (auto dest: inj_onD)
qed

lemma lb_find_ref_Some: "lb_find_ref order i lb = Some r \<Longrightarrow> lb_member r lb \<and> ep_ID (lb_eps lb r) = i"
  by (fastforce simp: lb_find_ref_def lb_member_def dest!: lb_find_Some split: option.splits)

lemma lb_find_ref_complete:
  assumes "lb_unique lb" "order_ok order lb" "lb_member r lb"
  shows "lb_find_ref order (ep_ID (lb_eps lb r)) lb = Some r"
proof (cases "lb_find_ref order (ep_ID (lb_eps lb r)) lb")
  case None
  then have "lb_find order (ep_ID (lb_eps lb r)) lb = None" by (auto simp: lb_find_ref_def split: option.splits prod.splits)
  with assms(2,3) show ?thesis by (fastforce simp: lb_member_def order_ok_def dest: lb_find_None)
next
  case (Some r')
  note f = lb_find_ref_Some [OF Some]
  have "r = r'" by (rule lb_unique_ref [OF assms(1,3) f [THEN conjunct1] f [THEN conjunct2, symmetric]])
  with Some show ?thesis by simp
qed

text \<open>Updates that keep the identifier keep the structure.\<close>

lemma lb_update_fields [simp]:
  "lb_groups (lb_update r f lb) = lb_groups lb" "lb_sessions (lb_update r f lb) = lb_sessions lb"
  "lb_config (lb_update r f lb) = lb_config lb" "lb_locked (lb_update r f lb) = lb_locked lb"
  "lb_currentIndex (lb_update r f lb) = lb_currentIndex lb"
  "lb_eps (lb_update r f lb) = (lb_eps lb)(r := f (lb_eps lb r))"
  by (simp_all add: lb_update_def)

lemma lb_member_cong: "lb_groups lb' = lb_groups lb \<Longrightarrow> lb_member r lb' = lb_member r lb"
  by (simp add: lb_member_def)

lemma lb_unique_cong:
  "lb_groups lb' = lb_groups lb \<Longrightarrow> (\<And>r. ep_ID (lb_eps lb' r) = ep_ID (lb_eps lb r)) \<Longrightarrow> lb_unique lb' = lb_unique lb"
  by (simp add: lb_unique_def)

lemma lb_choose_fields:
  assumes "lb_choose rnd ty healthy lb = Some (r, lb')"
  shows "lb_groups lb' = lb_groups lb" "lb_sessions lb' = lb_sessions lb" "lb_config lb' = lb_config lb"
    "lb_eps lb' = lb_eps lb" "lb_locked lb' = lb_locked lb"
  using assms by (auto simp: lb_choose_def Let_def split: prod.splits if_splits)

lemma least_loop_Some: "best \<noteq> None \<or> eps \<noteq> [] \<and> lc = -1 \<Longrightarrow> least_loop st eps lc best \<noteq> None"
  by (induction eps arbitrary: lc best) auto

lemma lb_choose_endpoint:
  assumes "lb_choose rnd ty healthy lb = Some (r, lb')" and "healthy \<noteq> []"
  shows "r \<noteq> None"
proof -
  have "lb_leastConnectionsSelect (lb_eps lb) healthy \<noteq> None"
    using assms(2) least_loop_Some [of None healthy "-1"] by (simp add: lb_leastConnectionsSelect_def)
  moreover have "lb_weightedRandomSelect (fst rnd) (lb_eps lb) healthy \<noteq> Some None"
    using assms(2) by (simp add: lb_weightedRandomSelect_def Let_def split: option.split)
  moreover have "lb_adaptiveLoadSelect (snd rnd) (lb_eps lb) healthy \<noteq> None"
    using assms(2) by (simp add: lb_adaptiveLoadSelect_def Let_def)
  moreover have "fst (lb_roundRobinSelect (lb_currentIndex lb) ty healthy) \<noteq> None"
    using assms(2) by (simp add: lb_roundRobinSelect_def Let_def)
  ultimately show ?thesis
    using assms(1) by (intro notI) (auto simp: lb_choose_def Let_def case_prod_beta split: if_splits)
qed

lemma lb_choose_member:
  assumes "lb_choose rnd ty healthy lb = Some (Some r, lb')" and "healthy \<noteq> []"
  shows "r \<in> set healthy"
proof -
  have "least_loop st eps lc best = Some x \<Longrightarrow> x \<in> set eps \<or> best = Some x" for st eps lc best x
    by (induction eps arbitrary: lc best) (auto split: if_splits)
  then have least: "lb_leastConnectionsSelect (lb_eps lb) healthy = Some r \<Longrightarrow> r \<in> set healthy"
    by (fastforce simp: lb_leastConnectionsSelect_def split: if_splits)
  have "weighted_loop st w eps c = Some x \<Longrightarrow> x \<in> set eps" for st w eps c x
    by (induction eps arbitrary: c) (auto simp: Let_def split: if_splits)
  then have weighted: "lb_weightedRandomSelect (fst rnd) (lb_eps lb) healthy = Some (Some r) \<Longrightarrow> r \<in> set healthy"
    using assms(2) by (auto simp: lb_weightedRandomSelect_def Let_def split: if_splits option.splits)
  let ?ys = "sortEndpointScores (map (\<lambda>ep. (ep, ep_score (lb_eps lb ep))) healthy)"
  have m: "mset ?ys = mset (map (\<lambda>ep. (ep, ep_score (lb_eps lb ep))) healthy)"
    by (simp only: sortEndpointScores_def mset_exchange_sort)
  then have "length ?ys = length healthy" and "set ?ys = set (map (\<lambda>ep. (ep, ep_score (lb_eps lb ep))) healthy)"
    by (metis mset_eq_length length_map, rule mset_eq_setD)
  then have "fst (?ys ! k) \<in> set healthy" if "k < length healthy" for k
    using that nth_mem [of k ?ys] by auto
  then have adaptive: "lb_adaptiveLoadSelect (snd rnd) (lb_eps lb) healthy = Some r \<Longrightarrow> r \<in> set healthy"
    using assms(2) \<open>length ?ys = length healthy\<close> by (auto simp: lb_adaptiveLoadSelect_def Let_def split: if_splits)
  have "fst (lb_roundRobinSelect (lb_currentIndex lb) ty healthy) = Some r \<Longrightarrow> r \<in> set healthy"
    using assms(2) by (auto simp: lb_roundRobinSelect_def Let_def)
  with least weighted adaptive assms(1) show ?thesis
    by (auto simp: lb_choose_def Let_def case_prod_beta split: if_splits)
qed

section \<open>What every operation keeps\<close>

text \<open>Connections not negative, error rate in [0, 1].\<close>

definition ep_rates_ok :: "Endpoint \<Rightarrow> bool" where
  "ep_rates_ok e \<longleftrightarrow> 0 \<le> ep_Connections e \<and> (\<exists>v. ep_ErrorRate e = Fin v \<and> 0 \<le> v \<and> v \<le> 1)"

definition lb_rates_ok :: "LoadBalancer \<Rightarrow> bool" where
  "lb_rates_ok lb \<longleftrightarrow> (\<forall>r. ep_rates_ok (lb_eps lb r))"

lemma f64_int_consts: "f64_of_int 9 = Fin 9" "f64_of_int 1 = Fin 1" "f64_of_int 10 = Fin 10"
  using f64_of_int_exact [of 9] f64_of_int_exact [of 1] f64_of_int_exact [of 10] by simp_all

lemma error_rate_up:
  assumes "0 \<le> e" "e \<le> 1"
  shows "\<exists>v. f64_div (f64_add (f64_mul (Fin e) (f64_of_int 9)) (f64_of_int 1)) (f64_of_int 10) = Fin v \<and> 0 \<le> v \<and> v \<le> 1"
proof -
  obtain a where a: "round64 (e * 9) = Fin a" "0 \<le> a" "a \<le> 9"
    using round64_between [of 0 "e * 9" 9] assms by auto
  obtain b where b: "round64 (a + 1) = Fin b" "0 \<le> b" "b \<le> 10"
    using round64_between [of 0 "a + 1" 10] a by auto
  obtain c where "round64 (b / 10) = Fin c" "0 \<le> c" "c \<le> 1"
    using round64_between [of 0 "b / 10" 1] b by auto
  with a b show ?thesis by (simp add: f64_int_consts)
qed

lemma error_rate_down:
  assumes "0 \<le> e" "e \<le> 1"
  shows "\<exists>v. f64_mul (Fin e) (round64 (9 / 10)) = Fin v \<and> 0 \<le> v \<and> v \<le> 1"
proof -
  obtain c where c: "round64 (9 / 10) = Fin c" "0 \<le> c" "c \<le> 1"
    using round64_between [of 0 "9 / 10" 1] by auto
  moreover have "0 \<le> e * c" "e * c \<le> 1" using assms c mult_mono [of e 1 c 1] by simp_all
  ultimately show ?thesis using round64_between [of 0 "e * c" 1] by auto
qed

lemma ep_release_fields [simp]:
  "ep_ID (ep_release d b e) = ep_ID e" "ep_Status (ep_release d b e) = ep_Status e" "ep_Type (ep_release d b e) = ep_Type e"
  by (simp_all add: ep_release_def Let_def)

lemma ep_release_ok:
  assumes "ep_rates_ok e"
  shows "ep_rates_ok (ep_release d b e)"
proof -
  obtain v where v: "ep_ErrorRate e = Fin v" "0 \<le> v" "v \<le> 1" using assms by (auto simp: ep_rates_ok_def)
  have err: "ep_ErrorRate (ep_release d b e) =
      (if b then f64_div (f64_add (f64_mul (Fin v) (f64_of_int 9)) (f64_of_int 1)) (f64_of_int 10)
       else f64_mul (Fin v) (round64 (9 / 10)))"
    by (simp add: ep_release_def Let_def v(1))
  have "0 \<le> ep_Connections (ep_release d b e)" using assms by (simp add: ep_release_def Let_def ep_rates_ok_def)
  with error_rate_up [OF v(2,3)] error_rate_down [OF v(2,3)] show ?thesis
    unfolding ep_rates_ok_def err by (cases b) simp_all
qed

lemma lb_rates_update:
  "lb_rates_ok lb \<Longrightarrow> (\<And>e. ep_rates_ok e \<Longrightarrow> ep_rates_ok (f e)) \<Longrightarrow> lb_rates_ok (lb_update r f lb)"
  by (simp add: lb_rates_ok_def)

lemma lb_rates_cong: "lb_eps lb' = lb_eps lb \<Longrightarrow> lb_rates_ok lb' = lb_rates_ok lb"
  by (simp add: lb_rates_ok_def)

text \<open>The parts of \<^verbatim>\<open>GetEndpoint\<close> change sessions only, or one connection count.\<close>

lemma lb_getSession_fields [simp]:
  "lb_groups (snd (lb_getSessionEndpoint order t t' sid lb)) = lb_groups lb"
  "lb_eps (snd (lb_getSessionEndpoint order t t' sid lb)) = lb_eps lb"
  "lb_config (snd (lb_getSessionEndpoint order t t' sid lb)) = lb_config lb"
  "lb_locked (snd (lb_getSessionEndpoint order t t' sid lb)) = lb_locked lb"
  by (simp_all add: lb_getSessionEndpoint_def Let_def split: option.split)

lemma lb_saveSession_fields [simp]:
  "lb_groups (lb_saveSession t t' sid i lb) = lb_groups lb" "lb_eps (lb_saveSession t t' sid i lb) = lb_eps lb"
  "lb_config (lb_saveSession t t' sid i lb) = lb_config lb" "lb_locked (lb_saveSession t t' sid i lb) = lb_locked lb"
  by (simp_all add: lb_saveSession_def Let_def)

lemma lb_select_fields:
  assumes "lb_select rnd m lb = Some (res, lb')"
  shows "lb_groups lb' = lb_groups lb" "lb_sessions lb' = lb_sessions lb" "lb_config lb' = lb_config lb"
    and "\<exists>f. lb_eps lb' = f (lb_eps lb) \<and> (\<forall>st r. ep_ID (f st r) = ep_ID (st r) \<and> ep_Status (f st r) = ep_Status (st r)
      \<and> (ep_rates_ok (st r) \<longrightarrow> ep_rates_ok (f st r)))"
    and "res = Inl e \<Longrightarrow> lb_locked lb' \<and>
      filter (\<lambda>r. ep_usable (lb_eps lb r)) (lb_GetEndpointsByType (getEndpointTypeFromMessage m) lb) = []"
    and "res = Inr r \<Longrightarrow> \<not> lb_locked lb' \<and> lb_member r lb \<and> ep_usable (lb_eps lb r)"
proof -
  define ty where "ty = getEndpointTypeFromMessage m"
  define healthy where "healthy = getHealthyEndpoints (lb_eps lb) (lb_GetEndpointsByType ty lb)"
  let ?lb = "lb\<lparr>lb_locked := True\<rparr>"
  let ?bump = "\<lambda>e :: Endpoint. e\<lparr>ep_Connections := ep_Connections e + 1\<rparr>"
  have h: "filter (\<lambda>r. ep_usable (lb_eps lb r)) (lb_GetEndpointsByType ty lb) = healthy"
    by (simp add: healthy_def getHealthyEndpoints_def ep_usable_def)
  have cases: "(healthy = [] \<and> (\<exists>e. res = Inl e) \<and> lb' = ?lb) \<or>
      (\<exists>r lb1. healthy \<noteq> [] \<and> lb_choose rnd ty healthy ?lb = Some (Some r, lb1) \<and> res = Inr r \<and>
         lb' = (lb_update r ?bump lb1)\<lparr>lb_locked := False\<rparr>)"
  proof (cases "lb_groups lb ty")
    case None
    then show ?thesis using assms
      by (auto simp: lb_select_def ty_def [symmetric] healthy_def lb_GetEndpointsByType_def getHealthyEndpoints_def)
  next
    case (Some eps)
    then have hd: "healthy = getHealthyEndpoints (lb_eps lb) eps" by (simp add: healthy_def lb_GetEndpointsByType_def)
    show ?thesis
    proof (cases "healthy = []")
      case True
      then show ?thesis using assms Some hd
        by (auto simp: lb_select_def ty_def [symmetric] Let_def split: if_splits)
    next
      case False
      then have ne: "eps \<noteq> []" by (auto simp: hd getHealthyEndpoints_def)
      have sel: "(case lb_choose rnd ty healthy ?lb of None \<Rightarrow> None
           | Some (None, lb1) \<Rightarrow> Some (Inl ''failed to select an endpoint'', lb1)
           | Some (Some r, lb1) \<Rightarrow> Some (Inr r, (lb_update r ?bump lb1)\<lparr>lb_locked := False\<rparr>)) = Some (res, lb')"
        using assms Some ne False by (simp add: lb_select_def ty_def [symmetric] Let_def hd)
      then obtain r0 lb1 where ch: "lb_choose rnd ty healthy ?lb = Some (r0, lb1)"
        by (auto split: option.splits)
      then obtain r where "r0 = Some r" using lb_choose_endpoint [OF ch False] by auto
      with ch sel False show ?thesis by auto
    qed
  qed
  then show "lb_groups lb' = lb_groups lb" "lb_sessions lb' = lb_sessions lb" "lb_config lb' = lb_config lb"
    by (auto dest: lb_choose_fields)
  show "res = Inl e \<Longrightarrow> lb_locked lb' \<and>
      filter (\<lambda>r. ep_usable (lb_eps lb r)) (lb_GetEndpointsByType (getEndpointTypeFromMessage m) lb) = []"
    using cases h by (auto simp: ty_def)
  have mem: "x \<in> set healthy \<Longrightarrow> lb_member x lb \<and> ep_usable (lb_eps lb x)" for x
    by (cases "lb_groups lb ty")
      (auto simp: healthy_def getHealthyEndpoints_def lb_GetEndpointsByType_def lb_member_def ep_usable_def)
  show "res = Inr r \<Longrightarrow> \<not> lb_locked lb' \<and> lb_member r lb \<and> ep_usable (lb_eps lb r)"
    using cases lb_choose_member mem by fastforce
  from cases show "\<exists>f. lb_eps lb' = f (lb_eps lb) \<and> (\<forall>st r. ep_ID (f st r) = ep_ID (st r) \<and> ep_Status (f st r) = ep_Status (st r)
      \<and> (ep_rates_ok (st r) \<longrightarrow> ep_rates_ok (f st r)))"
  proof
    assume "healthy = [] \<and> (\<exists>e. res = Inl e) \<and> lb' = ?lb"
    then show ?thesis by (intro exI [of _ "\<lambda>st. st"]) simp
  next
    assume "\<exists>r lb1. healthy \<noteq> [] \<and> lb_choose rnd ty healthy ?lb = Some (Some r, lb1) \<and> res = Inr r \<and>
         lb' = (lb_update r ?bump lb1)\<lparr>lb_locked := False\<rparr>"
    then obtain r lb1 where c: "lb_choose rnd ty healthy ?lb = Some (Some r, lb1)"
      "lb' = (lb_update r ?bump lb1)\<lparr>lb_locked := False\<rparr>" by blast
    then show ?thesis
      using lb_choose_fields(4) [OF c(1)]
      by (intro exI [of _ "\<lambda>st. st(r := ?bump (st r))"]) (simp add: ep_rates_ok_def)
  qed
qed

text \<open>A change of the store that keeps identifiers and statuses and good measurements.\<close>

definition measure_change :: "(estore \<Rightarrow> estore) \<Rightarrow> bool" where
  "measure_change f \<longleftrightarrow> (\<forall>st r. ep_ID (f st r) = ep_ID (st r) \<and> ep_Status (f st r) = ep_Status (st r) \<and>
     (ep_rates_ok (st r) \<longrightarrow> ep_rates_ok (f st r)))"

lemma lb_GetEndpoint_effect:
  assumes "lb_GetEndpoint order rnd t m sid lb = Done (res, lb')"
  obtains f where "\<not> lb_locked lb" "lb_groups lb' = lb_groups lb" "lb_config lb' = lb_config lb"
    "lb_eps lb' = f (lb_eps lb)" "measure_change f"
    "\<And>e. res = Inl e \<Longrightarrow> lb_locked lb' \<and>
       filter (\<lambda>r. ep_usable (lb_eps lb r)) (lb_GetEndpointsByType (getEndpointTypeFromMessage m) lb) = []"
    "\<And>r. res = Inr r \<Longrightarrow> \<not> lb_locked lb' \<and> lb_member r lb \<and> ep_usable (lb_eps lb r)"
    "\<And>k. k \<noteq> sid \<Longrightarrow> map_of (lb_sessions lb') k = map_of (lb_sessions lb) k"
    "\<And>r. res = Inr r \<Longrightarrow> lbc_EnableSessionAffinity (lb_config lb) \<Longrightarrow> sid \<noteq> '''' \<Longrightarrow>
       \<exists>s. map_of (lb_sessions lb') sid = Some s \<and> si_EndpointID s = ep_ID (lb_eps lb r)"
proof -
  have open': "\<not> lb_locked lb" using assms by (auto simp: lb_GetEndpoint_def)
  define affine where "affine = (lbc_EnableSessionAffinity (lb_config lb) \<and> sid \<noteq> '''')"
  define found where "found = (if affine then lb_getSessionEndpoint order (fst (lt_session t)) (snd (lt_session t)) sid lb else (Inl '''', lb))"
  obtain fr lb1 where fr: "found = (fr, lb1)" by force
  have lb1: "lb_groups lb1 = lb_groups lb" "lb_eps lb1 = lb_eps lb" "lb_config lb1 = lb_config lb" "\<not> lb_locked lb1"
    and sess1: "\<And>k. k \<noteq> sid \<Longrightarrow> map_of (lb_sessions lb1) k = map_of (lb_sessions lb) k"
    and hit: "\<And>r. fr = Inr r \<Longrightarrow> lb_member r lb \<and> ep_usable (lb_eps lb r) \<and>
      (\<exists>s. map_of (lb_sessions lb1) sid = Some s \<and> si_EndpointID s = ep_ID (lb_eps lb r))"
  proof -
    show "map_of (lb_sessions lb1) k = map_of (lb_sessions lb) k" if "k \<noteq> sid" for k
      using fr that by (auto simp: found_def lb_getSessionEndpoint_def Let_def update_conv' delete_conv'
          split: if_splits option.splits)
    show "lb_member r lb \<and> ep_usable (lb_eps lb r) \<and>
      (\<exists>s. map_of (lb_sessions lb1) sid = Some s \<and> si_EndpointID s = ep_ID (lb_eps lb r))" if "fr = Inr r" for r
      using fr that by (auto simp: found_def lb_getSessionEndpoint_def Let_def update_conv'
          split: if_splits option.splits dest: lb_find_ref_Some)
    have "lb1 = snd found" by (simp add: fr)
    then show "lb_groups lb1 = lb_groups lb" "lb_eps lb1 = lb_eps lb" "lb_config lb1 = lb_config lb" "\<not> lb_locked lb1"
      using open' by (simp_all add: found_def)
  qed
  have run: "(case fr of Inr r \<Rightarrow> Done (Inr r, lb1)
      | Inl _ \<Rightarrow> (case lb_select rnd m lb1 of None \<Rightarrow> Panics
         | Some (Inl err, lb2) \<Rightarrow> Done (Inl err, lb2)
         | Some (Inr r, lb2) \<Rightarrow> Done (Inr r, if affine
             then lb_saveSession (fst (lt_save t)) (snd (lt_save t)) sid (ep_ID (lb_eps lb2 r)) lb2 else lb2))) = Done (res, lb')"
    using assms open'
    unfolding lb_GetEndpoint_def affine_def [symmetric]
    unfolding Let_def
    unfolding found_def [symmetric] fr
    by simp
  show ?thesis
  proof (cases fr)
    case (Inr r)
    have "measure_change (\<lambda>st. st)" by (simp add: measure_change_def)
    then show ?thesis using Inr run lb1 open' sess1 hit by (intro that [of "\<lambda>st. st"]) auto
  next
    case (Inl e0)
    then obtain res2 lb2 where sel: "lb_select rnd m lb1 = Some (res2, lb2)" using run by (auto split: option.splits)
    note sf = lb_select_fields [OF sel]
    obtain f where f: "lb_eps lb2 = f (lb_eps lb1)" "measure_change f"
      using sf(4) unfolding measure_change_def by blast
    have same: "lb_GetEndpointsByType ty lb1 = lb_GetEndpointsByType ty lb" "lb_member r lb1 = lb_member r lb" for ty r
      by (simp_all add: lb_GetEndpointsByType_def lb_member_def lb1(1))
    show ?thesis
    proof (cases res2)
      case (Inl e)
      then have "res = Inl e" "lb' = lb2" using run sel \<open>fr = Inl e0\<close> by simp_all
      then show ?thesis using Inl sf f lb1 open' same sess1 by (intro that [of f]) simp_all
    next
      case (Inr r)
      let ?saved = "lb_saveSession (fst (lt_save t)) (snd (lt_save t)) sid (ep_ID (lb_eps lb2 r)) lb2"
      have res: "res = Inr r" "lb' = (if affine then ?saved else lb2)" using run sel \<open>fr = Inl e0\<close> Inr by simp_all
      have saved: "map_of (lb_sessions ?saved) k = map_of (lb_sessions lb2) k" if "k \<noteq> sid" for k
        using that by (simp add: lb_saveSession_def Let_def update_conv')
      have id: "ep_ID (lb_eps lb2 r) = ep_ID (lb_eps lb r)" using f lb1 by (simp add: measure_change_def)
      have "\<exists>s. map_of (lb_sessions ?saved) sid = Some s \<and> si_EndpointID s = ep_ID (lb_eps lb2 r)"
        by (simp add: lb_saveSession_def Let_def update_conv' split: option.split)
      then show ?thesis
        using res Inr sf f lb1 open' same sess1 saved id by (intro that [of f]) (simp_all add: affine_def)
    qed
  qed
qed

lemma measure_change_unique:
  assumes "measure_change f" "lb_groups lb' = lb_groups lb" "lb_eps lb' = f (lb_eps lb)"
  shows "lb_unique lb' = lb_unique lb" and "lb_rates_ok lb \<Longrightarrow> lb_rates_ok lb'"
proof -
  show "lb_unique lb' = lb_unique lb"
    using assms by (intro lb_unique_cong) (simp_all add: measure_change_def)
  show "lb_rates_ok lb \<Longrightarrow> lb_rates_ok lb'"
    using assms by (simp add: lb_rates_ok_def measure_change_def)
qed

lemma lb_unique_Add:
  assumes uniq: "lb_unique lb" and ord: "order_ok order lb"
  shows "lb_unique (snd (lb_AddEndpoint order now r lb))"
proof (cases "lb_find order (ep_ID (lb_eps lb r)) lb")
  case (Some x)
  then show ?thesis using uniq by (simp add: lb_AddEndpoint_def)
next
  case None
  have fresh: "ep_ID (lb_eps lb r') \<noteq> ep_ID (lb_eps lb r)" if "lb_groups lb ty = Some eps" "r' \<in> set eps" for ty eps r'
    using lb_find_None [OF None] ord that unfolding order_ok_def by blast
  define lb1 where "lb1 = lb_update r (\<lambda>e. (if ep_Status e = '''' then e\<lparr>ep_Status := EndpointStatusHealthy\<rparr> else e)
      \<lparr>ep_LastCheck := now\<rparr>) lb"
  define ty0 where "ty0 = ep_Type (lb_eps lb1 r)"
  define old where "old = (case lb_groups lb ty0 of None \<Rightarrow> [] | Some eps \<Rightarrow> eps)"
  have lb1: "lb_groups lb1 = lb_groups lb" "ep_ID (lb_eps lb1 x) = ep_ID (lb_eps lb x)" for x
    by (simp_all add: lb1_def)
  have u1: "lb_unique lb1" using uniq lb_unique_cong [OF lb1(1) lb1(2)] by simp
  have res: "snd (lb_AddEndpoint order now r lb) = lb1\<lparr>lb_groups := (lb_groups lb)(ty0 \<mapsto> old @ [r])\<rparr>"
    using None lb1(1) by (simp add: lb_AddEndpoint_def Let_def lb1_def [symmetric] ty0_def [symmetric] old_def)
  have fresh1: "ep_ID (lb_eps lb1 r') \<noteq> ep_ID (lb_eps lb1 r)" if "lb_groups lb ty = Some eps" "r' \<in> set eps" for ty eps r'
    using fresh that by (simp add: lb1(2))
  have old: "distinct (map (\<lambda>r. ep_ID (lb_eps lb1 r)) old)" "\<And>r'. r' \<in> set old \<Longrightarrow> lb_groups lb ty0 = Some old"
    using u1 by (cases "lb_groups lb ty0"; auto simp: old_def lb_unique_def lb1(1))+
  have cross: "ty = ty'"
    if g: "((lb_groups lb)(ty0 \<mapsto> old @ [r])) ty = Some eps" "((lb_groups lb)(ty0 \<mapsto> old @ [r])) ty' = Some eps'"
      "a \<in> set eps" "b \<in> set eps'" "ep_ID (lb_eps lb1 a) = ep_ID (lb_eps lb1 b)" for ty ty' eps eps' a b
  proof -
    have home: "(x = r \<and> t = ty0) \<or> (\<exists>e. lb_groups lb t = Some e \<and> x \<in> set e)"
      if "((lb_groups lb)(ty0 \<mapsto> old @ [r])) t = Some e'" "x \<in> set e'" for t e' x
      using that old(2) by (auto split: if_splits)
    from home [OF g(1,3)] home [OF g(2,4)] g(5) show ?thesis
      using fresh1 u1 unfolding lb_unique_def lb1(1) by metis
  qed
  have "distinct (map (\<lambda>r. ep_ID (lb_eps lb1 r)) (old @ [r]))"
    using old fresh1 by fastforce
  moreover have "e' \<noteq> [] \<and> distinct (map (\<lambda>r. ep_ID (lb_eps lb1 r)) e')" if "lb_groups lb t = Some e'" for t e'
    using u1 that unfolding lb_unique_def lb1(1) by blast
  ultimately have each: "e' \<noteq> [] \<and> distinct (map (\<lambda>r. ep_ID (lb_eps lb1 r)) e')"
    if "((lb_groups lb)(ty0 \<mapsto> old @ [r])) t = Some e'" for t e'
    using that by (cases "t = ty0") auto
  show ?thesis
    unfolding res
  proof (rule lb_uniqueI)
    fix t e'
    assume "lb_groups (lb1\<lparr>lb_groups := (lb_groups lb)(ty0 \<mapsto> old @ [r])\<rparr>) t = Some e'"
    then have "((lb_groups lb)(ty0 \<mapsto> old @ [r])) t = Some e'" by simp
    from each [OF this] show "e' \<noteq> [] \<and> distinct (map (\<lambda>x. ep_ID (lb_eps (lb1\<lparr>lb_groups := (lb_groups lb)(ty0 \<mapsto> old @ [r])\<rparr>) x)) e')"
      by simp
  next
    fix t t' e e' a b
    assume g: "lb_groups (lb1\<lparr>lb_groups := (lb_groups lb)(ty0 \<mapsto> old @ [r])\<rparr>) t = Some e"
      "lb_groups (lb1\<lparr>lb_groups := (lb_groups lb)(ty0 \<mapsto> old @ [r])\<rparr>) t' = Some e'" "a \<in> set e" "b \<in> set e'"
      "ep_ID (lb_eps (lb1\<lparr>lb_groups := (lb_groups lb)(ty0 \<mapsto> old @ [r])\<rparr>) a) =
       ep_ID (lb_eps (lb1\<lparr>lb_groups := (lb_groups lb)(ty0 \<mapsto> old @ [r])\<rparr>) b)"
    show "t = t'" by (rule cross [of t e t' e' a b]) (use g in simp_all)
  qed
qed

lemma lb_unique_Remove:
  assumes uniq: "lb_unique lb"
  shows "lb_unique (snd (lb_RemoveEndpoint order i lb))"
proof (cases "lb_find order i lb")
  case None
  then show ?thesis using uniq by (simp add: lb_RemoveEndpoint_def)
next
  case (Some x)
  obtain ty k where x: "x = (ty, k)" by force
  obtain eps where eps: "lb_groups lb ty = Some eps" "k < length eps"
    using lb_find_Some [OF Some [unfolded x]] by blast
  have "distinct (map f (remove_nth k xs))" if "distinct (map f xs)" for f :: "eref \<Rightarrow> string" and xs
    using that set_take_disj_set_drop_if_distinct [of "map f xs" k "Suc k"]
    by (simp add: remove_nth_def take_map [symmetric] drop_map [symmetric])
  then have d: "distinct (map (\<lambda>r. ep_ID (lb_eps lb r)) (remove_nth k eps))"
    using uniq eps(1) by (simp add: lb_unique_def)
  have sub: "set (remove_nth k eps) \<subseteq> set eps" by (rule set_remove_nth_subset)
  define groups where "groups = (lb_groups lb)(ty := if remove_nth k eps = [] then None else Some (remove_nth k eps))"
  have home: "\<exists>e. lb_groups lb t = Some e \<and> x \<in> set e" if "groups t = Some e'" "x \<in> set e'" for t e' x
    using that sub eps(1) by (auto simp: groups_def split: if_splits)
  have each: "e' \<noteq> [] \<and> distinct (map (\<lambda>r. ep_ID (lb_eps lb r)) e')" if "groups t = Some e'" for t e'
    using that uniq d by (auto simp: groups_def lb_unique_def split: if_splits)
  have cross: "t = t'"
    if "groups t = Some e" "groups t' = Some e'" "a \<in> set e" "b \<in> set e'" "ep_ID (lb_eps lb a) = ep_ID (lb_eps lb b)"
    for t t' e e' a b
    using home [OF that(1,3)] home [OF that(2,4)] that(5) uniq unfolding lb_unique_def by blast
  have "snd (lb_RemoveEndpoint order i lb) =
      lb\<lparr>lb_groups := groups, lb_sessions := filter (\<lambda>s. si_EndpointID (snd s) \<noteq> i) (lb_sessions lb)\<rparr>"
    by (simp add: lb_RemoveEndpoint_def Some x eps(1) Let_def groups_def)
  then show ?thesis using each cross by (simp add: lb_unique_def) blast
qed

section \<open>Invariants of runs\<close>

lemma with_lock_Done: "map_call snd (with_lock f lb) = Done lb' \<longleftrightarrow> \<not> lb_locked lb \<and> lb' = snd (f lb)"
  by (auto simp: with_lock_def)

lemma ep_rates_status [simp]:
  "ep_rates_ok (e\<lparr>ep_Status := s\<rparr>) = ep_rates_ok e" "ep_rates_ok (e\<lparr>ep_LastCheck := t\<rparr>) = ep_rates_ok e"
  by (simp_all add: ep_rates_ok_def)

lemma lb_step_inv:
  assumes step: "lb_step op lb = Done lb'" and rates: "lb_rates_ok lb"
    and uniq: "lb_unique lb" and ord: "op_order_ok op lb"
  shows "lb_rates_ok lb' \<and> lb_unique lb'"
proof (cases op)
  case (LAdd order now r)
  then have "lb' = snd (lb_AddEndpoint order now r lb)" using step by (simp add: with_lock_Done)
  moreover have "lb_rates_ok (snd (lb_AddEndpoint order now r lb))"
    using rates by (auto simp: lb_AddEndpoint_def Let_def lb_rates_ok_def)
  ultimately show ?thesis using lb_unique_Add [OF uniq] ord LAdd by simp
next
  case (LRemove order i)
  then have "lb' = snd (lb_RemoveEndpoint order i lb)" using step by (simp add: with_lock_Done)
  moreover have "lb_eps (snd (lb_RemoveEndpoint order i lb)) = lb_eps lb"
    by (simp add: lb_RemoveEndpoint_def Let_def split: option.split prod.split)
  ultimately show ?thesis using lb_unique_Remove [OF uniq] rates by (simp add: lb_rates_ok_def)
next
  case (LStatus order i s)
  then have lb': "lb' = snd (lb_UpdateEndpointStatus order i s lb)" using step by (simp add: with_lock_Done)
  have "lb_unique lb' = lb_unique lb"
    by (rule lb_unique_cong) (simp_all add: lb' lb_UpdateEndpointStatus_def split: option.split)
  moreover have "lb_rates_ok lb'" using rates by (simp add: lb' lb_UpdateEndpointStatus_def lb_rates_ok_def split: option.split)
  ultimately show ?thesis using uniq by simp
next
  case (LGet order rnd t m sid)
  then obtain res where "lb_GetEndpoint order rnd t m sid lb = Done (res, lb')"
    using step by (cases "lb_GetEndpoint order rnd t m sid lb") auto
  then obtain f where "lb_groups lb' = lb_groups lb" "lb_eps lb' = f (lb_eps lb)" "measure_change f"
    by (rule lb_GetEndpoint_effect)
  with measure_change_unique rates uniq show ?thesis by blast
next
  case (LRelease order i d e)
  then have lb': "lb' = lb_ReleaseEndpoint order i d e lb" using step by (simp add: with_lock_Done)
  have "lb_unique lb' = lb_unique lb"
    by (rule lb_unique_cong) (simp_all add: lb' lb_ReleaseEndpoint_def split: option.split)
  moreover have "lb_rates_ok lb'"
    using rates ep_release_ok by (simp add: lb' lb_ReleaseEndpoint_def lb_rates_ok_def split: option.split)
  ultimately show ?thesis using uniq by simp
next
  case (LCheck now r)
  then have lb': "lb' = lb_checkEndpointHealth now r lb" using step by (simp add: with_lock_Done)
  have "lb_unique lb' = lb_unique lb" by (rule lb_unique_cong) (simp_all add: lb' lb_checkEndpointHealth_def)
  then show ?thesis using rates uniq by (simp add: lb' lb_checkEndpointHealth_def lb_rates_ok_def)
next
  case (LCleanup now)
  then have lb': "lb' = lb_cleanupExpiredSessions now lb" using step by (simp add: with_lock_Done)
  have "lb_unique lb' = lb_unique lb" by (rule lb_unique_cong) (simp_all add: lb' lb_cleanupExpiredSessions_def)
  then show ?thesis using rates uniq by (simp add: lb' lb_cleanupExpiredSessions_def lb_rates_ok_def)
next
  case LClear
  then have lb': "lb' = lb_ClearSessions lb" using step by (simp add: with_lock_Done)
  have "lb_unique lb' = lb_unique lb" by (rule lb_unique_cong) (simp_all add: lb' lb_ClearSessions_def)
  then show ?thesis using rates uniq by (simp add: lb' lb_ClearSessions_def lb_rates_ok_def)
qed

lemma lb_run_inv: "lb_rates_ok lb \<Longrightarrow> lb_unique lb \<Longrightarrow> lb_valid ops lb \<Longrightarrow> lb_rates_ok (lb_run ops lb) \<and> lb_unique (lb_run ops lb)"
proof (induction ops arbitrary: lb)
  case (Cons op ops)
  then show ?case using lb_step_inv [of op lb] by (cases "lb_step op lb") auto
qed simp

lemma lb_unique_new: "lb_unique (NewLoadBalancer cfg st)"
  by (simp add: lb_unique_def NewLoadBalancer_def Let_def)

section \<open>Sessions\<close>

text \<open>A session bound to an endpoint that can serve it.\<close>

definition session_bound :: "string \<Rightarrow> eref \<Rightarrow> LoadBalancer \<Rightarrow> bool" where
  "session_bound sid r lb \<longleftrightarrow>
     (\<exists>s. map_of (lb_sessions lb) sid = Some s \<and> si_EndpointID s = ep_ID (lb_eps lb r)) \<and>
     lb_member r lb \<and> ep_usable (lb_eps lb r) \<and> lb_unique lb \<and>
     lbc_EnableSessionAffinity (lb_config lb) \<and> lbc_SessionTimeout (lb_config lb) \<le> 0"

lemma session_bound_cong:
  assumes "session_bound sid r lb" "lb_groups lb' = lb_groups lb" "lb_config lb' = lb_config lb"
    "\<And>x. ep_ID (lb_eps lb' x) = ep_ID (lb_eps lb x)" "ep_usable (lb_eps lb' r)"
    "\<exists>s. map_of (lb_sessions lb') sid = Some s \<and> si_EndpointID s = ep_ID (lb_eps lb r)"
  shows "session_bound sid r lb'"
  using assms lb_unique_cong [OF assms(2,4)] lb_member_cong [OF assms(2), of r] by (simp add: session_bound_def)

lemma session_hit:
  assumes "session_bound sid r lb" "order_ok order lb"
  shows "fst (lb_getSessionEndpoint order t t' sid lb) = Inr r"
    and "session_bound sid r (snd (lb_getSessionEndpoint order t t' sid lb))"
proof -
  obtain s where s: "map_of (lb_sessions lb) sid = Some s" "si_EndpointID s = ep_ID (lb_eps lb r)"
    using assms(1) by (auto simp: session_bound_def)
  have find: "lb_find_ref order (ep_ID (lb_eps lb r)) lb = Some r"
    using assms by (intro lb_find_ref_complete) (simp_all add: session_bound_def)
  have hit: "lb_getSessionEndpoint order t t' sid lb = (Inr r, lb\<lparr>lb_sessions := AList.update sid (s\<lparr>si_LastUsed := t'\<rparr>) (lb_sessions lb)\<rparr>)"
    using assms(1) s find by (simp add: lb_getSessionEndpoint_def Let_def session_bound_def)
  then show "fst (lb_getSessionEndpoint order t t' sid lb) = Inr r" by simp
  show "session_bound sid r (snd (lb_getSessionEndpoint order t t' sid lb))"
    using assms(1) s(2) by (intro session_bound_cong [OF assms(1)]) (simp_all add: hit session_bound_def update_conv')
qed

text \<open>The other sessions are left alone.\<close>

lemma lb_getSession_other: "k \<noteq> sid \<Longrightarrow> map_of (lb_sessions (snd (lb_getSessionEndpoint order t t' sid lb))) k = map_of (lb_sessions lb) k"
  by (simp add: lb_getSessionEndpoint_def Let_def update_conv' delete_conv' split: option.split)

lemma lb_saveSession_other: "k \<noteq> sid \<Longrightarrow> map_of (lb_sessions (lb_saveSession t t' sid i lb)) k = map_of (lb_sessions lb) k"
  by (simp add: lb_saveSession_def Let_def update_conv')

lemma lb_saveSession_saved: "\<exists>s. map_of (lb_sessions (lb_saveSession t t' sid i lb)) sid = Some s \<and> si_EndpointID s = i"
  by (simp add: lb_saveSession_def Let_def update_conv' split: option.split)

text \<open>Releases and health checks leave it bound.\<close>

fun benign :: "lb_op \<Rightarrow> bool" where
  "benign (LRelease order i d e) = True"
| "benign (LCheck now r) = True"
| "benign _ = False"

lemma session_bound_step:
  assumes b: "session_bound sid r lb" and "benign op" and step: "lb_step op lb = Done lb'"
  shows "session_bound sid r lb'"
proof (cases op)
  case (LRelease order i d e)
  then have lb': "lb' = lb_ReleaseEndpoint order i d e lb" using step by (simp add: with_lock_Done)
  show ?thesis using b
    by (intro session_bound_cong [OF b]) (simp_all add: lb' lb_ReleaseEndpoint_def session_bound_def ep_usable_def split: option.split)
next
  case (LCheck now x)
  then have lb': "lb' = lb_checkEndpointHealth now x lb" using step by (simp add: with_lock_Done)
  show ?thesis using b
    by (intro session_bound_cong [OF b]) (auto simp: lb' lb_checkEndpointHealth_def session_bound_def ep_usable_def)
qed (use assms(2) in simp_all)

lemma lb_step_config:
  assumes "lb_step op lb = Done lb'"
  shows "lb_config lb' = lb_config lb"
proof (cases op)
  case (LGet order rnd t m sid)
  then obtain res where "lb_GetEndpoint order rnd t m sid lb = Done (res, lb')"
    using assms by (cases "lb_GetEndpoint order rnd t m sid lb") auto
  then show ?thesis by (rule lb_GetEndpoint_effect)
qed (use assms in \<open>simp_all add: with_lock_Done lb_AddEndpoint_def lb_RemoveEndpoint_def lb_UpdateEndpointStatus_def
       lb_ReleaseEndpoint_def lb_checkEndpointHealth_def lb_cleanupExpiredSessions_def lb_ClearSessions_def Let_def
       split: option.split prod.split\<close>)

section \<open>Properties\<close>

text \<open>
  C27 (measurements). From endpoints with an error rate in [0, 1] and no negative connection
  count, any sequence of calls, those that fail, wait or panic included, keeps it so: the
  binary64 moving average of the error rate never leaves [0, 1]. Identifiers stay unique over
  all groups and no group is empty.
\<close>

theorem lb_reachable_inv:
  assumes "\<forall>r. ep_rates_ok (st r)" and "lb_valid ops (NewLoadBalancer cfg st)"
  shows "(\<forall>r. ep_rates_ok (lb_eps (lb_run ops (NewLoadBalancer cfg st)) r)) \<and> lb_unique (lb_run ops (NewLoadBalancer cfg st))"
proof -
  have "lb_rates_ok (NewLoadBalancer cfg st)" using assms(1) by (simp add: lb_rates_ok_def NewLoadBalancer_def Let_def)
  from lb_run_inv [OF this lb_unique_new assms(2)] show ?thesis by (simp add: lb_rates_ok_def)
qed

definition sample_lb_config :: LoadBalancerSettings where
  "sample_lb_config = cf_LoadBalancer GetDefaultConfig"

definition sample_estore :: estore where
  "sample_estore r = sample_endpoint\<lparr>ep_ID := [char_of (65 + r)]\<rparr>"

definition sample_lb_times :: lb_times where
  "sample_lb_times = \<lparr>lt_session = (5, 5), lt_save = (6, 6)\<rparr>"

lemma sample_estore_ok: "\<forall>r. ep_rates_ok (sample_estore r)"
  by (simp add: sample_estore_def sample_endpoint_def ep_rates_ok_def)

lemma order_ok_llm: "dom (lb_groups lb) \<subseteq> {''llm''} \<Longrightarrow> order_ok [''llm''] lb"
  by (simp add: order_ok_def)

definition sample_lb :: LoadBalancer where
  "sample_lb = lb_run [LAdd [''llm''] 1 0, LAdd [''llm''] 2 1] (NewLoadBalancer sample_lb_config sample_estore)"

lemma sample_lb_groups: "lb_groups sample_lb = [''llm'' \<mapsto> [0, 1]]"
  by (simp add: sample_lb_def with_lock_def NewLoadBalancer_def Let_def lb_AddEndpoint_def lb_update_def
      sample_estore_def sample_endpoint_def)

lemma sample_lb_valid: "lb_valid [LAdd [''llm''] 1 0, LAdd [''llm''] 2 1] (NewLoadBalancer sample_lb_config sample_estore)"
  by (simp add: order_ok_def with_lock_def NewLoadBalancer_def Let_def lb_AddEndpoint_def lb_update_def
      sample_estore_def sample_endpoint_def)

theorem lb_reachable_inv_witness: "ep_rates_ok (lb_eps sample_lb 0) \<and> lb_unique sample_lb"
  using lb_reachable_inv [OF sample_estore_ok sample_lb_valid] by (simp add: sample_lb_def)

lemma sample_lb_fields:
  "lb_locked sample_lb = False" "lb_sessions sample_lb = []" "lb_currentIndex sample_lb = Map.empty"
  "lb_config sample_lb = lb_config (NewLoadBalancer sample_lb_config sample_estore)"
  "ep_Status (lb_eps sample_lb 0) = EndpointStatusHealthy" "ep_Status (lb_eps sample_lb (Suc 0)) = EndpointStatusHealthy"
  "ep_ID (lb_eps sample_lb 0) = [char_of (65 :: nat)]" "ep_ID (lb_eps sample_lb (Suc 0)) = [char_of (66 :: nat)]"
  by (simp_all add: sample_lb_def with_lock_def NewLoadBalancer_def Let_def lb_AddEndpoint_def lb_update_def
      sample_estore_def sample_endpoint_def)

text \<open>
  C35 (held mutex). When a request is answered with an error there is no healthy or degraded
  endpoint of the requested type, and the mutex stays held: every later call on the load
  balancer, by anyone, waits for ever, and nothing changes any more.
\<close>

theorem lb_error_holds_mutex:
  assumes "lb_GetEndpoint order rnd t m sid lb = Done (Inl e, lb')"
  shows "filter (\<lambda>r. ep_usable (lb_eps lb r)) (lb_GetEndpointsByType (getEndpointTypeFromMessage m) lb) = [] \<and>
    lb_step op lb' = Waits \<and> lb_run ops lb' = lb'"
proof -
  obtain f where "lb_locked lb' \<and>
      filter (\<lambda>r. ep_usable (lb_eps lb r)) (lb_GetEndpointsByType (getEndpointTypeFromMessage m) lb) = []"
    by (rule lb_GetEndpoint_effect [OF assms]) blast
  moreover from this have waits: "lb_step op lb' = Waits" for op
    by (cases op) (simp_all add: with_lock_def lb_GetEndpoint_def)
  moreover have "lb_run ops lb' = lb'" by (induction ops) (simp_all add: waits)
  ultimately show ?thesis by simp
qed

theorem lb_error_holds_mutex_witness:
  "case lb_GetEndpoint [] (\<lambda>n. 0, Fin 1) sample_lb_times None ''s'' (NewLoadBalancer sample_lb_config sample_estore) of
     Done (res, lb') \<Rightarrow> lb_step LClear lb' = Waits
   | _ \<Rightarrow> False"
proof -
  obtain lb' where g: "lb_GetEndpoint [] (\<lambda>n. 0, Fin 1) sample_lb_times None ''s'' (NewLoadBalancer sample_lb_config sample_estore)
      = Done (Inl ''no endpoints available for the requested type'', lb')"
    by (simp add: lb_GetEndpoint_def Let_def NewLoadBalancer_def lb_getSessionEndpoint_def lb_select_def getEndpointTypeFromMessage_def)
  have "lb_step LClear lb' = Waits" using lb_error_holds_mutex [OF g, of LClear "[]"] by blast
  then show ?thesis by (simp add: g del: lb_step.simps)
qed

end
