(* ===== verification/ConcurrentRequests.thy ===== *)
theory ConcurrentRequests
  imports LoadBalancer
begin

text \<open>
  \<^verbatim>\<open>GetEndpoint\<close> of \<^verbatim>\<open>internal/loadbalancer/load_balancer.go\<close> called by many goroutines at once: it
  takes the mutex up to three times, to look the session up (\<^verbatim>\<open>getSessionEndpoint\<close>), to select an
  endpoint, and to save the session (\<^verbatim>\<open>saveSession\<close>), and anything may come between. A step
  relation over the balancer and the calls in progress: a step is one of these sections, or another
  method, each under the mutex, so that nothing steps while the mutex is held for good.
\<close>

section \<open>States and steps\<close>

text \<open>Where a call is: before the lookup, before the selection, before the session is saved, or back.\<close>

datatype get_pc = GLookup | GChoose | GSave eref | GReturned "string + eref"

record lb_request =
  rq_message :: "message option"
  rq_session :: string
  rq_pc :: get_pc

record lb_sys =
  ls_lb :: LoadBalancer
  ls_requests :: "lb_request list"
  ls_panicked :: bool

definition lb_sys_init :: "LoadBalancer \<Rightarrow> lb_sys" where
  "lb_sys_init lb = \<lparr>ls_lb = lb, ls_requests = [], ls_panicked = False\<rparr>"

text \<open>Whether a call has to do with sessions: the two tests of \<^verbatim>\<open>GetEndpoint\<close>.\<close>

definition lb_affine :: "LoadBalancer \<Rightarrow> string \<Rightarrow> bool" where
  "lb_affine lb sessionID \<longleftrightarrow> lbc_EnableSessionAffinity (lb_config lb) \<and> sessionID \<noteq> ''''"

definition set_pc :: "nat \<Rightarrow> get_pc \<Rightarrow> lb_request list \<Rightarrow> lb_request list" where
  "set_pc k pc rqs = rqs[k := (rqs ! k)\<lparr>rq_pc := pc\<rparr>]"

datatype lb_event =
    ECall "message option" string
  | ELookup nat "string list" "go_time \<times> go_time"
  | EChoose nat random
  | ESave nat "go_time \<times> go_time"
  | EOther lb_op

fun is_get :: "lb_op \<Rightarrow> bool" where
  "is_get (LGet order rnd t m sid) = True"
| "is_get _ = False"

text \<open>
  An iteration over the groups visits each of them, in some order. A panic of the selection ends
  the program.
\<close>

inductive lb_sys_step :: "lb_event \<Rightarrow> lb_sys \<Rightarrow> lb_sys \<Rightarrow> bool" where
  call: "\<not> ls_panicked s \<Longrightarrow>
    lb_sys_step (ECall m sid) s (s\<lparr>ls_requests := ls_requests s @
      [\<lparr>rq_message = m, rq_session = sid, rq_pc = (if lb_affine (ls_lb s) sid then GLookup else GChoose)\<rparr>]\<rparr>)"
| lookup: "\<not> ls_panicked s \<Longrightarrow> k < length (ls_requests s) \<Longrightarrow> rq_pc (ls_requests s ! k) = GLookup \<Longrightarrow> \<not> lb_locked (ls_lb s) \<Longrightarrow>
    order_ok order (ls_lb s) \<Longrightarrow>
    lb_getSessionEndpoint order (fst t) (snd t) (rq_session (ls_requests s ! k)) (ls_lb s) = (found, lb) \<Longrightarrow>
    lb_sys_step (ELookup k order t) s
      (s\<lparr>ls_lb := lb, ls_requests := set_pc k (case found of Inr r \<Rightarrow> GReturned (Inr r) | Inl _ \<Rightarrow> GChoose) (ls_requests s)\<rparr>)"
| choose: "\<not> ls_panicked s \<Longrightarrow> k < length (ls_requests s) \<Longrightarrow> rq_pc (ls_requests s ! k) = GChoose \<Longrightarrow> \<not> lb_locked (ls_lb s) \<Longrightarrow>
    lb_select rnd (rq_message (ls_requests s ! k)) (ls_lb s) = Some (res, lb) \<Longrightarrow>
    lb_sys_step (EChoose k rnd) s
      (s\<lparr>ls_lb := lb, ls_requests := set_pc k
        (case res of Inl err \<Rightarrow> GReturned (Inl err)
         | Inr r \<Rightarrow> if lb_affine (ls_lb s) (rq_session (ls_requests s ! k)) then GSave r else GReturned (Inr r)) (ls_requests s)\<rparr>)"
| choose_panic: "\<not> ls_panicked s \<Longrightarrow> k < length (ls_requests s) \<Longrightarrow> rq_pc (ls_requests s ! k) = GChoose \<Longrightarrow> \<not> lb_locked (ls_lb s) \<Longrightarrow>
    lb_select rnd (rq_message (ls_requests s ! k)) (ls_lb s) = None \<Longrightarrow>
    lb_sys_step (EChoose k rnd) s (s\<lparr>ls_panicked := True\<rparr>)"
| save: "\<not> ls_panicked s \<Longrightarrow> k < length (ls_requests s) \<Longrightarrow> rq_pc (ls_requests s ! k) = GSave r \<Longrightarrow> \<not> lb_locked (ls_lb s) \<Longrightarrow>
    lb_sys_step (ESave k t) s
      (s\<lparr>ls_lb := lb_saveSession (fst t) (snd t) (rq_session (ls_requests s ! k)) (ep_ID (lb_eps (ls_lb s) r)) (ls_lb s),
         ls_requests := set_pc k (GReturned (Inr r)) (ls_requests s)\<rparr>)"
| other: "\<not> ls_panicked s \<Longrightarrow> \<not> is_get op \<Longrightarrow> op_order_ok op (ls_lb s) \<Longrightarrow> lb_step op (ls_lb s) = Done lb \<Longrightarrow>
    lb_sys_step (EOther op) s (s\<lparr>ls_lb := lb\<rparr>)"

inductive_cases lb_sys_stepE: "lb_sys_step ev s s'"

inductive lb_sys_run :: "lb_sys \<Rightarrow> lb_event list \<Rightarrow> lb_sys \<Rightarrow> bool" where
  nil: "lb_sys_run s [] s"
| snoc: "lb_sys_run s evs s1 \<Longrightarrow> lb_sys_step ev s1 s2 \<Longrightarrow> lb_sys_run s (evs @ [ev]) s2"

lemma lb_sys_run_single: "lb_sys_step ev s s' \<Longrightarrow> lb_sys_run s [ev] s'"
  using lb_sys_run.snoc [OF lb_sys_run.nil] by fastforce

lemma lb_sys_run_append: "lb_sys_run s1 evs' s2 \<Longrightarrow> lb_sys_run s evs s1 \<Longrightarrow> lb_sys_run s (evs @ evs') s2"
  by (induction rule: lb_sys_run.induct) (auto simp: append_assoc [symmetric] intro: lb_sys_run.snoc simp del: append_assoc)

lemma lb_sys_run_Cons: "lb_sys_step ev s s1 \<Longrightarrow> lb_sys_run s1 evs s2 \<Longrightarrow> lb_sys_run s (ev # evs) s2"
  using lb_sys_run_append [OF _ lb_sys_run_single] by fastforce

lemma set_pc_nth [simp]:
  "length (set_pc k pc rqs) = length rqs"
  "j < length rqs \<Longrightarrow> set_pc k pc rqs ! j = (if j = k then (rqs ! k)\<lparr>rq_pc := pc\<rparr> else rqs ! j)"
  by (auto simp: set_pc_def nth_list_update)

section \<open>A call that nothing interrupts\<close>

lemma lone_call:
  assumes run: "lb_GetEndpoint order rnd t m sid (ls_lb s) = Done (res, lb)" and ok: "\<not> ls_panicked s" "order_ok order (ls_lb s)"
  shows "\<exists>evs. lb_sys_run s evs (s\<lparr>ls_lb := lb, ls_requests := ls_requests s @ [\<lparr>rq_message = m, rq_session = sid, rq_pc = GReturned res\<rparr>]\<rparr>)"
proof -
  have unlocked: "\<not> lb_locked (ls_lb s)" using run by (auto simp: lb_GetEndpoint_def)
  let ?n = "length (ls_requests s)"
  let ?at = "\<lambda>pc lb. s\<lparr>ls_lb := lb, ls_requests := ls_requests s @ [\<lparr>rq_message = m, rq_session = sid, rq_pc = pc\<rparr>]\<rparr>"
  have at: "set_pc ?n pc' (ls_requests (?at pc l)) = ls_requests (?at pc' l)" for pc pc' l by (simp add: set_pc_def list_update_append)
  have save: "lb_sys_step (ESave ?n (lt_save t)) (?at (GSave r) l) (?at (GReturned (Inr r)) (lb_saveSession (fst (lt_save t)) (snd (lt_save t)) sid (ep_ID (lb_eps l r)) l))"
    if "\<not> lb_locked l" for r l
    using lb_sys_step.save [of "?at (GSave r) l" ?n r "lt_save t"] ok that at [of "GReturned (Inr r)" "GSave r" l] by simp
  have choose: "\<exists>evs. lb_sys_run (?at GChoose l) evs (?at (GReturned res) lb)"
    if "lb_config l = lb_config (ls_lb s)" "\<not> lb_locked l"
      "(case lb_select rnd m l of None \<Rightarrow> Panics | Some (Inl err, l2) \<Rightarrow> Done (Inl err, l2)
        | Some (Inr r, l2) \<Rightarrow> Done (Inr r, if lb_affine (ls_lb s) sid
            then lb_saveSession (fst (lt_save t)) (snd (lt_save t)) sid (ep_ID (lb_eps l2 r)) l2 else l2)) = Done (res, lb)" for l
  proof -
    note c = that
    obtain res2 l2 where sel: "lb_select rnd m l = Some (res2, l2)" using c(3) by (auto split: option.splits)
    have aff: "lb_affine l sid = lb_affine (ls_lb s) sid" using c(1) by (simp add: lb_affine_def)
    note step = lb_sys_step.choose [of "?at GChoose l" ?n rnd res2 l2]
    show ?thesis
    proof (cases res2)
      case (Inl err)
      then have "lb_sys_step (EChoose ?n rnd) (?at GChoose l) (?at (GReturned res) lb)"
        using step ok c(2,3) sel at [of "GReturned (Inl err)" GChoose l] by simp
      then show ?thesis using lb_sys_run_single by blast
    next
      case (Inr r)
      have "lb_sys_step (EChoose ?n rnd) (?at GChoose l) (?at (if lb_affine (ls_lb s) sid then GSave r else GReturned (Inr r)) l2)"
        using step ok c(2) sel Inr aff at [of _ GChoose l] by simp
      moreover have "\<not> lb_locked l2" using lb_select_fields(6) [OF sel Inr] by simp
      moreover have "lb_sys_step (ESave ?n (lt_save t)) (?at (GSave r) l2) (?at (GReturned res) lb)" if "lb_affine (ls_lb s) sid"
        using save [of l2 r] c(3) sel Inr that calculation(2) by simp
      moreover have "lb = l2" "res = Inr r" if "\<not> lb_affine (ls_lb s) sid" using c(3) sel Inr that by simp_all
      ultimately show ?thesis using lb_sys_run_single lb_sys_run_Cons by (cases "lb_affine (ls_lb s) sid") (auto, blast+)
    qed
  qed
  have call: "lb_sys_step (ECall m sid) s (?at (if lb_affine (ls_lb s) sid then GLookup else GChoose) (ls_lb s))"
    using lb_sys_step.call [of s m sid] ok by simp
  show ?thesis
  proof (cases "lb_affine (ls_lb s) sid")
    case False
    then have "\<exists>evs. lb_sys_run (?at GChoose (ls_lb s)) evs (?at (GReturned res) lb)"
      using run unlocked by (intro choose) (simp_all add: lb_GetEndpoint_def lb_affine_def [symmetric] cong: option.case_cong sum.case_cong)
    then show ?thesis using lb_sys_run_Cons [OF call] False by auto
  next
    case True
    obtain found l where f: "lb_getSessionEndpoint order (fst (lt_session t)) (snd (lt_session t)) sid (ls_lb s) = (found, l)" by force
    have l: "lb_config l = lb_config (ls_lb s)" "lb_locked l = lb_locked (ls_lb s)"
      using lb_getSession_fields(3,4) [of order "fst (lt_session t)" "snd (lt_session t)" sid "ls_lb s"] f by simp_all
    have step: "lb_sys_step (ELookup ?n order (lt_session t)) (?at GLookup (ls_lb s))
        (?at (case found of Inr r \<Rightarrow> GReturned (Inr r) | Inl _ \<Rightarrow> GChoose) l)"
      using lb_sys_step.lookup [of "?at GLookup (ls_lb s)" ?n order "lt_session t" found l] ok f unlocked at [of _ GLookup "ls_lb s"] by simp
    have "\<exists>evs. lb_sys_run (?at (case found of Inr r \<Rightarrow> GReturned (Inr r) | Inl _ \<Rightarrow> GChoose) l) evs (?at (GReturned res) lb)"
    proof (cases found)
      case (Inl e)
      then have "\<exists>evs. lb_sys_run (?at GChoose l) evs (?at (GReturned res) lb)"
        using run unlocked l f True by (intro choose) (simp_all add: lb_GetEndpoint_def lb_affine_def [symmetric] cong: option.case_cong sum.case_cong)
      then show ?thesis using Inl by simp
    next
      case (Inr r)
      then have "res = Inr r" "lb = l" using run unlocked f True by (simp_all add: lb_GetEndpoint_def lb_affine_def [symmetric])
      then show ?thesis using Inr lb_sys_run.nil by fastforce
    qed
    then show ?thesis using lb_sys_run_Cons [OF step] lb_sys_run_Cons [OF call] True by fastforce
  qed
qed

section \<open>What every run keeps\<close>

definition lb_sys_inv :: "lb_sys \<Rightarrow> bool" where
  "lb_sys_inv s \<longleftrightarrow> lb_rates_ok (ls_lb s) \<and> lb_unique (ls_lb s) \<and>
     lbc_EnableSessionAffinity (lb_config (ls_lb s)) \<and> lbc_SessionTimeout (lb_config (ls_lb s)) \<le> 0"

text \<open>Each section of a call changes sessions only, or the connections of one endpoint.\<close>

lemma section_effect:
  assumes "\<not> (\<exists>op. ev = EOther op)" and "lb_sys_step ev s s'"
  obtains f where "lb_groups (ls_lb s') = lb_groups (ls_lb s)" "lb_config (ls_lb s') = lb_config (ls_lb s)"
    "lb_eps (ls_lb s') = f (lb_eps (ls_lb s))" "measure_change f"
  using assms(2)
proof cases
  case (lookup k order t found lb)
  have "lb = snd (lb_getSessionEndpoint order (fst t) (snd t) (rq_session (ls_requests s ! k)) (ls_lb s))" using lookup by simp
  then show ?thesis using lookup(2) by (intro that [of "\<lambda>st. st"]) (simp_all add: measure_change_def)
next
  case (choose k rnd res lb)
  note sf = lb_select_fields [OF choose(7)]
  obtain f where "lb_eps lb = f (lb_eps (ls_lb s))" "measure_change f" using sf(4) unfolding measure_change_def by blast
  then show ?thesis using choose(2) sf(1,3) by (intro that [of f]) simp_all
next
  case (other op lb)
  then show ?thesis using assms(1) by blast
qed (intro that [of "\<lambda>st. st"]; simp add: measure_change_def)+

lemma lb_sys_step_inv: "lb_sys_inv s \<Longrightarrow> lb_sys_step ev s s' \<Longrightarrow> lb_sys_inv s'"
proof (cases "\<exists>op. ev = EOther op")
  case True
  assume "lb_sys_inv s" "lb_sys_step ev s s'"
  with True show ?thesis using lb_step_inv lb_step_config by (auto elim!: lb_sys_stepE simp: lb_sys_inv_def)
next
  case False
  assume inv: "lb_sys_inv s" and step: "lb_sys_step ev s s'"
  obtain f where "lb_groups (ls_lb s') = lb_groups (ls_lb s)" "lb_config (ls_lb s') = lb_config (ls_lb s)"
    "lb_eps (ls_lb s') = f (lb_eps (ls_lb s))" "measure_change f" by (rule section_effect [OF False step])
  then show ?thesis using inv measure_change_unique by (simp add: lb_sys_inv_def)
qed

lemma lb_sys_run_inv: "lb_sys_run s evs s' \<Longrightarrow> lb_sys_inv s \<Longrightarrow> lb_sys_inv s'"
  by (induction rule: lb_sys_run.induct) (auto intro: lb_sys_step_inv)

lemma lb_sys_init_inv: "\<forall>r. ep_rates_ok (st r) \<Longrightarrow> lb_sys_inv (lb_sys_init (NewLoadBalancer cfg st))"
  using lb_unique_new [of cfg st] by (simp add: lb_sys_inv_def lb_sys_init_def lb_rates_ok_def NewLoadBalancer_def Let_def)

section \<open>Settled sessions\<close>

text \<open>
  The session is bound to the endpoint, and since the requests were \<open>rqs0\<close> each of its requests
  waits at the lookup, has been given the endpoint, or was back before.
\<close>

definition request_settled :: "eref \<Rightarrow> lb_request list \<Rightarrow> lb_request list \<Rightarrow> nat \<Rightarrow> bool" where
  "request_settled r rqs0 rqs j \<longleftrightarrow> rq_pc (rqs ! j) = GLookup \<or> rq_pc (rqs ! j) = GReturned (Inr r) \<or>
     (j < length rqs0 \<and> rqs ! j = rqs0 ! j \<and> (\<exists>res. rq_pc (rqs0 ! j) = GReturned res))"

definition settled :: "string \<Rightarrow> eref \<Rightarrow> lb_request list \<Rightarrow> lb_sys \<Rightarrow> bool" where
  "settled sid r rqs0 s \<longleftrightarrow> session_bound sid r (ls_lb s) \<and>
     (\<forall>j < length (ls_requests s). rq_session (ls_requests s ! j) = sid \<longrightarrow> request_settled r rqs0 (ls_requests s) j)"

text \<open>The step of one request leaves the others settled.\<close>

lemma settled_set_pc:
  assumes "settled sid r rqs0 s" and "k < length (ls_requests s)"
    and "rq_session (ls_requests s ! k) = sid \<Longrightarrow> pc = GLookup \<or> pc = GReturned (Inr r)"
    and "session_bound sid r lb"
  shows "settled sid r rqs0 (s\<lparr>ls_lb := lb, ls_requests := set_pc k pc (ls_requests s)\<rparr>)"
  using assms by (auto simp: settled_def request_settled_def)

lemma bound_by_effect:
  assumes b: "session_bound sid r lb" and f: "lb_groups lb' = lb_groups lb" "lb_config lb' = lb_config lb"
    "lb_eps lb' = f (lb_eps lb)" "measure_change f" and same: "map_of (lb_sessions lb') sid = map_of (lb_sessions lb) sid"
  shows "session_bound sid r lb'"
proof -
  have "ep_usable (lb_eps lb' x) = ep_usable (lb_eps lb x)" "ep_ID (lb_eps lb' x) = ep_ID (lb_eps lb x)" for x
    using f(3,4) by (simp_all add: ep_usable_def measure_change_def)
  then show ?thesis using b same by (intro session_bound_cong [OF b f(1,2)]) (simp_all add: session_bound_def)
qed

fun benign_event :: "lb_event \<Rightarrow> bool" where
  "benign_event (EOther op) \<longleftrightarrow> benign op"
| "benign_event _ \<longleftrightarrow> True"

lemma settled_step:
  assumes settled: "settled sid r rqs0 s" and sid: "sid \<noteq> ''''" and benign: "benign_event ev" and step: "lb_sys_step ev s s'"
  shows "settled sid r rqs0 s'"
proof -
  have bound: "session_bound sid r (ls_lb s)" using settled by (simp add: settled_def)
  have aff: "lb_affine (ls_lb s) sid" using bound sid by (simp add: session_bound_def lb_affine_def)
  have at: "rq_pc (ls_requests s ! k) = GLookup \<or> (\<exists>res. rq_pc (ls_requests s ! k) = GReturned res)"
    if "k < length (ls_requests s)" "rq_session (ls_requests s ! k) = sid" for k
    using settled that by (auto simp: settled_def request_settled_def)
  from step show ?thesis
  proof cases
    case (call m sid')
    then show ?thesis using settled aff by (auto simp: settled_def request_settled_def nth_append less_Suc_eq)
  next
    case (lookup k order t found lb)
    have "found = Inr r \<and> session_bound sid r lb" if "rq_session (ls_requests s ! k) = sid"
      using session_hit [OF bound lookup(7), of "fst t" "snd t"] lookup(8) that by simp
    moreover have "session_bound sid r lb" if "rq_session (ls_requests s ! k) \<noteq> sid"
    proof -
      have lb: "lb = snd (lb_getSessionEndpoint order (fst t) (snd t) (rq_session (ls_requests s ! k)) (ls_lb s))"
        using lookup(8) by simp
      have "sid \<noteq> rq_session (ls_requests s ! k)" using that by simp
      from lb_getSession_other [OF this] show ?thesis
        by (intro bound_by_effect [OF bound, of _ "\<lambda>st. st"]) (simp_all add: lb measure_change_def)
    qed
    ultimately show ?thesis unfolding lookup(2) by (intro settled_set_pc [OF settled lookup(4)]) auto
  next
    case (choose k rnd res lb)
    have other: "rq_session (ls_requests s ! k) \<noteq> sid" using at [OF choose(4)] choose(5) by auto
    note sf = lb_select_fields [OF choose(7)]
    obtain f where "lb_eps lb = f (lb_eps (ls_lb s))" "measure_change f" using sf(4) unfolding measure_change_def by blast
    then have "session_bound sid r lb" using sf(1-3) by (intro bound_by_effect [OF bound, of _ f]) simp_all
    then show ?thesis unfolding choose(2) using other by (intro settled_set_pc [OF settled choose(4)]) auto
  next
    case choose_panic
    then show ?thesis using settled by (simp add: settled_def)
  next
    case (save k r' t)
    have other: "rq_session (ls_requests s ! k) \<noteq> sid" using at [OF save(4)] save(5) by auto
    then have "sid \<noteq> rq_session (ls_requests s ! k)" by simp
    then have "session_bound sid r (lb_saveSession (fst t) (snd t) (rq_session (ls_requests s ! k)) (ep_ID (lb_eps (ls_lb s) r')) (ls_lb s))"
      by (intro bound_by_effect [OF bound, of _ "\<lambda>st. st"]) (simp_all add: lb_saveSession_other measure_change_def)
    then show ?thesis unfolding save(2) using other by (intro settled_set_pc [OF settled save(4)]) auto
  next
    case (other op lb)
    then show ?thesis using settled session_bound_step [OF bound] benign by (simp add: settled_def)
  qed
qed

lemma settled_run:
  "lb_sys_run s evs s' \<Longrightarrow> settled sid r rqs0 s \<Longrightarrow> sid \<noteq> '''' \<Longrightarrow> \<forall>ev \<in> set evs. benign_event ev \<Longrightarrow> settled sid r rqs0 s'"
  by (induction rule: lb_sys_run.induct) (auto intro: settled_step)

section \<open>Properties\<close>

text \<open>
  C15 (session affinity). When a request saves its session with an endpoint that is still there
  and healthy or degraded, while no other request of that session is between its lookup and its
  end, then whatever goes on, calls of any sessions at any stage, releases and health checks
  interleaved, no request of that session is given another endpoint, and none of them selects or
  counts a connection: each waits at the lookup, or has been given this endpoint, or was back
  before; and one that waits is given it by its next section unless the mutex is held for good.
\<close>

theorem lb_session_sticky:
  assumes "\<forall>r. ep_rates_ok (st r)" and "lb_sys_run (lb_sys_init (NewLoadBalancer cfg st)) evs s"
    and "lb_sys_step (ESave k t) s s1" and "rq_pc (ls_requests s ! k) = GSave r"
    and "rq_session (ls_requests s ! k) = sid" and "sid \<noteq> ''''"
    and "lb_member r (ls_lb s)" and "ep_usable (lb_eps (ls_lb s) r)"
    and "\<forall>j < length (ls_requests s). j \<noteq> k \<and> rq_session (ls_requests s ! j) = sid \<longrightarrow>
      rq_pc (ls_requests s ! j) = GLookup \<or> (\<exists>res. rq_pc (ls_requests s ! j) = GReturned res)"
    and "lb_sys_run s1 evs' s2" and "\<forall>ev \<in> set evs'. benign_event ev"
  shows "(\<forall>j < length (ls_requests s2). rq_session (ls_requests s2 ! j) = sid \<longrightarrow>
      request_settled r (ls_requests s1) (ls_requests s2) j) \<and>
    (\<forall>j order t'. j < length (ls_requests s2) \<and> rq_session (ls_requests s2 ! j) = sid \<and> rq_pc (ls_requests s2 ! j) = GLookup \<and>
       order_ok order (ls_lb s2) \<and> \<not> lb_locked (ls_lb s2) \<and> \<not> ls_panicked s2 \<longrightarrow>
       (\<exists>s3. lb_sys_step (ELookup j order t') s2 s3 \<and> rq_pc (ls_requests s3 ! j) = GReturned (Inr r) \<and>
         lb_eps (ls_lb s3) = lb_eps (ls_lb s2)))"
proof -
  have inv: "lb_sys_inv s" by (rule lb_sys_run_inv [OF assms(2) lb_sys_init_inv [OF assms(1)]])
  have s1: "k < length (ls_requests s)" "s1 = s\<lparr>ls_lb := lb_saveSession (fst t) (snd t) sid (ep_ID (lb_eps (ls_lb s) r)) (ls_lb s),
      ls_requests := set_pc k (GReturned (Inr r)) (ls_requests s)\<rparr>"
    using assms(3-5) by (auto elim: lb_sys_stepE)
  have "lb_unique (ls_lb s1)" using inv lb_unique_cong [of "ls_lb s1" "ls_lb s"] by (simp add: s1(2) lb_sys_inv_def)
  then have "session_bound sid r (ls_lb s1)"
    using assms(7,8) inv lb_saveSession_saved lb_member_cong [of "ls_lb s1" "ls_lb s" r] by (simp add: s1(2) session_bound_def lb_sys_inv_def)
  then have "settled sid r (ls_requests s1) s1"
    using assms(9) s1 by (auto simp: settled_def request_settled_def)
  then have settled: "settled sid r (ls_requests s1) s2" by (rule settled_run [OF assms(10) _ assms(6,11)])
  have "\<exists>s3. lb_sys_step (ELookup j order t') s2 s3 \<and> rq_pc (ls_requests s3 ! j) = GReturned (Inr r) \<and> lb_eps (ls_lb s3) = lb_eps (ls_lb s2)"
    if j: "j < length (ls_requests s2)" "rq_session (ls_requests s2 ! j) = sid" "rq_pc (ls_requests s2 ! j) = GLookup"
      and ok: "order_ok order (ls_lb s2)" "\<not> lb_locked (ls_lb s2)" "\<not> ls_panicked s2" for j order t'
  proof -
    let ?get = "lb_getSessionEndpoint order (fst t') (snd t') sid (ls_lb s2)"
    have "fst ?get = Inr r" using session_hit(1) [OF _ ok(1)] settled by (simp add: settled_def)
    then have "?get = (Inr r, snd ?get)" by (metis prod.collapse)
    from lb_sys_step.lookup [OF ok(3) j(1,3) ok(2,1), of t'] this j(2)
    have "lb_sys_step (ELookup j order t') s2 (s2\<lparr>ls_lb := snd ?get, ls_requests := set_pc j (GReturned (Inr r)) (ls_requests s2)\<rparr>)"
      by fastforce
    then show ?thesis using j(1) by fastforce
  qed
  then show ?thesis using settled by (simp add: settled_def)
qed

text \<open>Samples: the two endpoints of the sample balancer, of which the next is selected in turn.\<close>

definition sample_turn :: "LoadBalancer \<Rightarrow> nat \<Rightarrow> bool" where
  "sample_turn lb i \<longleftrightarrow> lb_groups lb = [''llm'' \<mapsto> [0, Suc 0]] \<and> \<not> lb_locked lb \<and>
     ep_Status (lb_eps lb 0) = EndpointStatusHealthy \<and> ep_Status (lb_eps lb (Suc 0)) = EndpointStatusHealthy \<and>
     ep_ID (lb_eps lb 0) = [char_of (65 :: nat)] \<and> ep_ID (lb_eps lb (Suc 0)) = [char_of (66 :: nat)] \<and>
     lb_config lb = lb_config (NewLoadBalancer sample_lb_config sample_estore) \<and>
     i < 2 \<and> (case lb_currentIndex lb ''llm'' of None \<Rightarrow> i = 0 | Some j \<Rightarrow> i = j)"

lemma sample_lb_turn: "sample_turn sample_lb 0"
  by (simp add: sample_turn_def sample_lb_fields sample_lb_groups)

lemma sample_turn_select:
  assumes "sample_turn lb i"
  shows "\<exists>lb'. lb_select rnd None lb = Some (Inr i, lb') \<and> sample_turn lb' (1 - i) \<and> lb_sessions lb' = lb_sessions lb"
proof -
  have healthy: "getHealthyEndpoints (lb_eps lb) [0, Suc 0] = [0, Suc 0]" using assms by (simp add: getHealthyEndpoints_def sample_turn_def)
  have strategy: "lbc_Strategy (lb_config lb) = ''weighted_round_robin''"
    using assms by (simp add: sample_turn_def NewLoadBalancer_def Let_def sample_lb_config_def GetDefaultConfig_def)
  have i: "i = 0 \<or> i = Suc 0" using assms by (auto simp: sample_turn_def)
  let ?lb' = "(lb_update i (\<lambda>e. e\<lparr>ep_Connections := ep_Connections e + 1\<rparr>)
    (lb\<lparr>lb_locked := True, lb_currentIndex := (lb_currentIndex lb)(''llm'' \<mapsto> 1 - i)\<rparr>))\<lparr>lb_locked := False\<rparr>"
  have rr: "lb_roundRobinSelect (lb_currentIndex lb) ''llm'' [0, Suc 0] = (Some i, (lb_currentIndex lb)(''llm'' \<mapsto> 1 - i))"
    using i assms by (cases "lb_currentIndex lb ''llm''") (auto simp: lb_roundRobinSelect_def sample_turn_def)
  have groups: "lb_groups lb = [''llm'' \<mapsto> [0, Suc 0]]" using assms by (simp add: sample_turn_def)
  have "lb_select rnd None lb = Some (Inr i, ?lb')"
    by (simp add: lb_select_def getEndpointTypeFromMessage_def groups healthy lb_choose_def strategy RoundRobin_def
        LeastConnections_def WeightedRandom_def AdaptiveLoad_def rr)
  moreover have "sample_turn ?lb' (1 - i)" using i assms by (auto simp: sample_turn_def)
  ultimately show ?thesis by auto
qed

text \<open>Requests of one session, by where they are.\<close>

definition sample_sys :: "LoadBalancer \<Rightarrow> get_pc list \<Rightarrow> lb_sys" where
  "sample_sys lb pcs = \<lparr>ls_lb = lb, ls_requests = map (\<lambda>pc. \<lparr>rq_message = None, rq_session = ''s'', rq_pc = pc\<rparr>) pcs, ls_panicked = False\<rparr>"

lemma sample_set_pc: "k < length pcs \<Longrightarrow>
    set_pc k pc (map (\<lambda>pc. \<lparr>rq_message = None, rq_session = ''s'', rq_pc = pc\<rparr>) pcs) = map (\<lambda>pc. \<lparr>rq_message = None, rq_session = ''s'', rq_pc = pc\<rparr>) (pcs[k := pc])"
  by (simp add: set_pc_def map_update)

lemma sample_turn_affine: "sample_turn lb i \<Longrightarrow> lb_affine lb ''s''" "sample_turn lb i \<Longrightarrow> order_ok [''llm''] lb"
  "sample_turn lb i \<Longrightarrow> \<not> lb_locked lb"
  by (simp_all add: sample_turn_def lb_affine_def order_ok_def NewLoadBalancer_def Let_def)

lemma sample_call: "sample_turn lb i \<Longrightarrow> lb_sys_step (ECall None ''s'') (sample_sys lb pcs) (sample_sys lb (pcs @ [GLookup]))"
  using lb_sys_step.call [of "sample_sys lb pcs" None "''s''"] sample_turn_affine by (simp add: sample_sys_def)

lemma sample_lookup:
  assumes "sample_turn lb i" and "lb_getSessionEndpoint [''llm''] 5 5 ''s'' lb = (found, lb')" and "k < length pcs" and "pcs ! k = GLookup"
  shows "lb_sys_step (ELookup k [''llm''] (5, 5)) (sample_sys lb pcs)
    (sample_sys lb' (pcs[k := (case found of Inr r \<Rightarrow> GReturned (Inr r) | Inl _ \<Rightarrow> GChoose)]))"
  using lb_sys_step.lookup [of "sample_sys lb pcs" k "[''llm'']" "(5, 5)" found lb'] assms(2-4) sample_turn_affine(2,3) [OF assms(1)]
  by (simp add: sample_sys_def sample_set_pc)

lemma sample_miss:
  assumes "sample_turn lb i" and "lb_sessions lb = []" and "k < length pcs" and "pcs ! k = GLookup"
  shows "lb_sys_step (ELookup k [''llm''] (5, 5)) (sample_sys lb pcs) (sample_sys lb (pcs[k := GChoose]))"
  using sample_lookup [OF assms(1) _ assms(3,4), of "Inl ''session not found''" lb] assms(2) by (simp add: lb_getSessionEndpoint_def)

lemma sample_choose:
  assumes "sample_turn lb i" and "k < length pcs" and "pcs ! k = GChoose"
  shows "\<exists>lb'. lb_sys_step (EChoose k (\<lambda>n. 0, Fin 1)) (sample_sys lb pcs) (sample_sys lb' (pcs[k := GSave i])) \<and>
    sample_turn lb' (1 - i) \<and> lb_sessions lb' = lb_sessions lb"
proof -
  obtain lb' where "lb_select (\<lambda>n. 0, Fin 1) None lb = Some (Inr i, lb')" "sample_turn lb' (1 - i)" "lb_sessions lb' = lb_sessions lb"
    using sample_turn_select [OF assms(1)] by blast
  then show ?thesis
    using lb_sys_step.choose [of "sample_sys lb pcs" k "(\<lambda>n. 0, Fin 1)" "Inr i" lb'] assms(2,3) sample_turn_affine(1,3) [OF assms(1)]
    by (auto simp: sample_sys_def sample_set_pc)
qed

lemma sample_save:
  assumes "sample_turn lb i" and "k < length pcs" and "pcs ! k = GSave r"
  shows "lb_sys_step (ESave k (6, 6)) (sample_sys lb pcs)
      (sample_sys (lb_saveSession 6 6 ''s'' (ep_ID (lb_eps lb r)) lb) (pcs[k := GReturned (Inr r)]))"
    and "sample_turn (lb_saveSession 6 6 ''s'' (ep_ID (lb_eps lb r)) lb) i"
  using lb_sys_step.save [of "sample_sys lb pcs" k r "(6, 6)"] assms sample_turn_affine(3) [OF assms(1)]
  by (simp_all add: sample_sys_def sample_set_pc) (simp add: sample_turn_def lb_saveSession_def Let_def)

text \<open>
  Two requests of a new session at the same time: both miss the lookup, each is given another
  endpoint, the session keeps the last that is saved, and a third request is given that one: the
  session has moved away from the endpoint of the first.
\<close>

theorem session_race:
  "\<exists>s. lb_sys_run (lb_sys_init sample_lb) [ECall None ''s'', ECall None ''s'', ELookup 0 [''llm''] (5, 5), ELookup 1 [''llm''] (5, 5),
       EChoose 0 (\<lambda>n. 0, Fin 1), EChoose 1 (\<lambda>n. 0, Fin 1), ESave 0 (6, 6), ESave 1 (6, 6), ECall None ''s'', ELookup 2 [''llm''] (5, 5)] s \<and>
     map rq_pc (ls_requests s) = [GReturned (Inr 0), GReturned (Inr 1), GReturned (Inr 1)]"
proof -
  have init: "lb_sys_init sample_lb = sample_sys sample_lb []" by (simp add: lb_sys_init_def sample_sys_def)
  note t0 = sample_lb_turn
  have empty: "lb_sessions sample_lb = []" by (simp add: sample_lb_fields)
  obtain lb1 where lb1: "lb_sys_step (EChoose 0 (\<lambda>n. 0, Fin 1)) (sample_sys sample_lb [GChoose, GChoose]) (sample_sys lb1 [GSave 0, GChoose])"
    "sample_turn lb1 1" "lb_sessions lb1 = []"
    using sample_choose [OF t0, of 0 "[GChoose, GChoose]"] empty by auto
  obtain lb2 where lb2: "lb_sys_step (EChoose 1 (\<lambda>n. 0, Fin 1)) (sample_sys lb1 [GSave 0, GChoose]) (sample_sys lb2 [GSave 0, GSave 1])"
    "sample_turn lb2 0" "lb_sessions lb2 = []"
    using sample_choose [OF lb1(2), of 1 "[GSave 0, GChoose]"] lb1(3) by auto
  define lb3 where "lb3 = lb_saveSession 6 6 ''s'' (ep_ID (lb_eps lb2 0)) lb2"
  define lb4 where "lb4 = lb_saveSession 6 6 ''s'' (ep_ID (lb_eps lb3 1)) lb3"
  note save1 = sample_save [OF lb2(2), of 0 "[GSave 0, GSave 1]" 0, folded lb3_def, simplified]
  note save2 = sample_save [OF save1(2), of 1 "[GReturned (Inr 0), GSave 1]" 1, folded lb4_def, simplified]
  have "\<exists>lb5. lb_getSessionEndpoint [''llm''] 5 5 ''s'' lb4 = (Inr 1, lb5)"
  proof -
    have ids: "ep_ID (lb_eps lb4 0) = [char_of (65 :: nat)]" "ep_ID (lb_eps lb4 (Suc 0)) = [char_of (66 :: nat)]"
      "ep_Status (lb_eps lb4 (Suc 0)) = EndpointStatusHealthy" "lb_groups lb4 = [''llm'' \<mapsto> [0, Suc 0]]"
      "lb_config lb4 = lb_config (NewLoadBalancer sample_lb_config sample_estore)"
      using save2(2) by (simp_all add: sample_turn_def)
    have "lb_eps lb4 = lb_eps lb3" by (simp add: lb4_def)
    then obtain si where si: "map_of (lb_sessions lb4) ''s'' = Some si" "si_EndpointID si = [char_of (66 :: nat)]"
      using lb_saveSession_saved [of 6 6 "''s''" "ep_ID (lb_eps lb3 1)" lb3] ids(2) by (auto simp: lb4_def)
    have "[char_of (65 :: nat)] \<noteq> ([char_of (66 :: nat)] :: string)" by code_simp
    then have "lb_find_ref [''llm''] (si_EndpointID si) lb4 = Some 1" using ids si(2) by (simp add: lb_find_ref_def)
    then show ?thesis
      using si(1) ids by (simp add: lb_getSessionEndpoint_def Let_def ep_usable_def NewLoadBalancer_def)
  qed
  then obtain lb5 where hit: "lb_getSessionEndpoint [''llm''] 5 5 ''s'' lb4 = (Inr 1, lb5)" by blast
  have last: "lb_sys_step (ELookup 2 [''llm''] (5, 5)) (sample_sys lb4 [GReturned (Inr 0), GReturned (Inr 1), GLookup])
      (sample_sys lb5 [GReturned (Inr 0), GReturned (Inr 1), GReturned (Inr 1)])"
    using sample_lookup [OF save2(2) hit, of 2 "[GReturned (Inr 0), GReturned (Inr 1), GLookup]"] by simp
  have "lb_sys_run (sample_sys sample_lb []) [ECall None ''s'', ECall None ''s'', ELookup 0 [''llm''] (5, 5), ELookup 1 [''llm''] (5, 5),
      EChoose 0 (\<lambda>n. 0, Fin 1), EChoose 1 (\<lambda>n. 0, Fin 1), ESave 0 (6, 6), ESave 1 (6, 6), ECall None ''s'', ELookup 2 [''llm''] (5, 5)]
      (sample_sys lb5 [GReturned (Inr 0), GReturned (Inr 1), GReturned (Inr 1)])"
    using sample_call [OF t0, of "[]"] sample_call [OF t0, of "[GLookup]"] sample_miss [OF t0 empty, of 0 "[GLookup, GLookup]"]
      sample_miss [OF t0 empty, of 1 "[GChoose, GLookup]"] lb1(1) lb2(1) save1(1) save2(1)
      sample_call [OF save2(2), of "[GReturned (Inr 0), GReturned (Inr 1)]"] last
    by (intro lb_sys_run_Cons [OF _ lb_sys_run_Cons [OF _ lb_sys_run_Cons [OF _ lb_sys_run_Cons [OF _ lb_sys_run_Cons [OF _
        lb_sys_run_Cons [OF _ lb_sys_run_Cons [OF _ lb_sys_run_Cons [OF _ lb_sys_run_Cons [OF _ lb_sys_run_single]]]]]]]]]) simp_all
  then show ?thesis unfolding init by (intro exI conjI) (assumption, simp add: sample_sys_def)
qed

lemma init_other: "\<not> is_get op \<Longrightarrow> op_order_ok op lb \<Longrightarrow> lb_step op lb = Done lb' \<Longrightarrow> lb_sys_step (EOther op) (lb_sys_init lb) (lb_sys_init lb')"
  using lb_sys_step.other [of "lb_sys_init lb" op lb'] by (simp add: lb_sys_init_def)

lemma sample_adds:
  "lb_sys_run (lb_sys_init (NewLoadBalancer sample_lb_config sample_estore))
     [EOther (LAdd [''llm''] 1 0), EOther (LAdd [''llm''] 2 1)] (sample_sys sample_lb [])"
proof -
  let ?lb0 = "NewLoadBalancer sample_lb_config sample_estore"
  obtain lb1 lb2 where adds: "lb_step (LAdd [''llm''] 1 0) ?lb0 = Done lb1" "lb_step (LAdd [''llm''] 2 1) lb1 = Done lb2"
    by (simp add: with_lock_def NewLoadBalancer_def Let_def lb_AddEndpoint_def lb_update_def)
  then have lb2: "lb2 = sample_lb" by (simp add: sample_lb_def)
  have ok: "op_order_ok (LAdd [''llm''] 1 0) ?lb0" "op_order_ok (LAdd [''llm''] 2 1) lb1"
    using sample_lb_valid unfolding lb_valid.simps adds call.case by blast+
  have "lb_sys_init sample_lb = sample_sys sample_lb []" by (simp add: lb_sys_init_def sample_sys_def)
  then show ?thesis
    using init_other [OF _ ok(1) adds(1)] init_other [OF _ ok(2) adds(2)] unfolding lb2
    by (intro lb_sys_run_Cons [OF _ lb_sys_run_single]) simp_all
qed

theorem lb_session_sticky_witness:
  "\<exists>s s1 s2 s3. lb_sys_run (lb_sys_init (NewLoadBalancer sample_lb_config sample_estore))
       ([EOther (LAdd [''llm''] 1 0), EOther (LAdd [''llm''] 2 1)] @
        [ECall None ''s'', ELookup 0 [''llm''] (5, 5), EChoose 0 (\<lambda>n. 0, Fin 1)]) s \<and>
     lb_sys_step (ESave 0 (6, 6)) s s1 \<and> lb_sys_run s1 [ECall None ''s''] s2 \<and>
     lb_sys_step (ELookup 1 [''llm''] (7, 7)) s2 s3 \<and> rq_pc (ls_requests s3 ! 1) = GReturned (Inr 0)"
proof -
  have empty: "lb_sessions sample_lb = []" by (simp add: sample_lb_fields)
  obtain lb1 where lb1: "lb_sys_step (EChoose 0 (\<lambda>n. 0, Fin 1)) (sample_sys sample_lb [GChoose]) (sample_sys lb1 [GSave 0])"
    "sample_turn lb1 1"
    using sample_choose [OF sample_lb_turn, of 0 "[GChoose]"] by auto
  let ?s = "sample_sys lb1 [GSave 0]"
  have run: "lb_sys_run (lb_sys_init (NewLoadBalancer sample_lb_config sample_estore))
      ([EOther (LAdd [''llm''] 1 0), EOther (LAdd [''llm''] 2 1)] @ [ECall None ''s'', ELookup 0 [''llm''] (5, 5), EChoose 0 (\<lambda>n. 0, Fin 1)]) ?s"
    using sample_call [OF sample_lb_turn, of "[]"] sample_miss [OF sample_lb_turn empty, of 0 "[GLookup]"] lb1(1)
    by (intro lb_sys_run_append [OF _ sample_adds] lb_sys_run_Cons [OF _ lb_sys_run_Cons [OF _ lb_sys_run_single]]) simp_all
  note save = sample_save [OF lb1(2), of 0 "[GSave 0]" 0, simplified]
  note call = lb_sys_run_single [OF sample_call [OF save(2)], of "[GReturned (Inr 0)]", simplified]
  have member: "lb_member 0 (ls_lb ?s)" "ep_usable (lb_eps (ls_lb ?s) 0)"
    using lb1(2) by (auto simp: sample_sys_def lb_member_def sample_turn_def ep_usable_def)
  note order = sample_turn_affine(2,3) [OF save(2)]
  have "rq_session (ls_requests (sample_sys lb1 [GSave 0]) ! 0) = ''s''" "rq_pc (ls_requests ?s ! 0) = GSave 0" by (simp_all add: sample_sys_def)
  note sticky = lb_session_sticky [OF sample_estore_ok run save(1) this(2,1) _ member _ call]
  have "\<exists>s3. lb_sys_step (ELookup 1 [''llm''] (7, 7)) (sample_sys (lb_saveSession 6 6 ''s'' (ep_ID (lb_eps lb1 0)) lb1) [GReturned (Inr 0), GLookup]) s3 \<and>
      rq_pc (ls_requests s3 ! 1) = GReturned (Inr 0) \<and>
      lb_eps (ls_lb s3) = lb_eps (ls_lb (sample_sys (lb_saveSession 6 6 ''s'' (ep_ID (lb_eps lb1 0)) lb1) [GReturned (Inr 0), GLookup]))"
    by (rule sticky [THEN conjunct2, rule_format]) (use order in \<open>simp_all add: sample_sys_def\<close>)
  with run save(1) call show ?thesis by blast
qed

end
