(* ===== verification/Resources.thy ===== *)
theory Resources
  imports Models
begin

text \<open>
  The data and the pure functions of \<^verbatim>\<open>internal/scheduler/resource_scheduler.go\<close>:
  resources, requests, allocations, whether a resource fits a request, and its load.

  \<^verbatim>\<open>Capacity\<close> and \<^verbatim>\<open>Requirements\<close> are Go maps that the code iterates: association
  lists with distinct keys. Go visits the keys in any order; \<open>visit\<close>, a permutation, is the
  order of one iteration where the result depends on it (the sum of the loads). \<^verbatim>\<open>Used\<close>
  is only read by key and is \<^verbatim>\<open>nil\<close> (\<open>None\<close>) until it is first written.
\<close>

section \<open>Data\<close>

type_synonym ResourceType = string

definition ResourceTypeCPU :: ResourceType where "ResourceTypeCPU = ''cpu''"
definition ResourceTypeGPU :: ResourceType where "ResourceTypeGPU = ''gpu''"
definition ResourceTypeMemory :: ResourceType where "ResourceTypeMemory = ''memory''"
definition ResourceTypeTokens :: ResourceType where "ResourceTypeTokens = ''tokens''"

type_synonym ResourceStatus = string

definition ResourceStatusAvailable :: ResourceStatus where "ResourceStatusAvailable = ''available''"
definition ResourceStatusBusy :: ResourceStatus where "ResourceStatusBusy = ''busy''"
definition ResourceStatusOffline :: ResourceStatus where "ResourceStatusOffline = ''offline''"
definition ResourceStatusError :: ResourceStatus where "ResourceStatusError = ''error''"

type_synonym amounts = "(ResourceType \<times> int) list"

record Resource =
  res_ID :: string
  res_Name :: string
  res_Type :: string
  res_Capabilities :: "string list"
  res_Status :: ResourceStatus
  res_Load :: float64
  res_Capacity :: amounts
  res_Used :: "(ResourceType \<Rightarrow> int option) option"
  res_Endpoint :: string
  res_LastHeartbeat :: go_time
  res_Metadata :: "metadata option"

record ResourceRequest =
  req_RequestID :: string
  req_ModelType :: string
  req_Requirements :: amounts
  req_Priority :: int
  req_Timeout :: duration
  req_Capabilities :: "string list"
  req_Metadata :: "metadata option"

record ResourceAllocation =
  al_RequestID :: string
  al_ResourceID :: string
  al_Endpoint :: string
  al_Allocated :: go_time
  al_Expires :: go_time
  al_Token :: string

section \<open>Fitting a request\<close>

definition hasRequiredCapabilities :: "Resource \<Rightarrow> string list \<Rightarrow> bool" where
  "hasRequiredCapabilities resource required \<longleftrightarrow>
     (if length required = 0 then True
      else list_all (\<lambda>c. list_ex (\<lambda>capability. capability = c) (res_Capabilities resource)) required)"

text \<open>A missing key, or a \<^verbatim>\<open>nil\<close> map, counts as 0.\<close>

definition res_used :: "Resource \<Rightarrow> ResourceType \<Rightarrow> int" where
  "res_used resource ty =
     (case res_Used resource of None \<Rightarrow> 0 | Some m \<Rightarrow> (case m ty of None \<Rightarrow> 0 | Some u \<Rightarrow> u))"

definition hasEnoughCapacity :: "Resource \<Rightarrow> amounts \<Rightarrow> bool" where
  "hasEnoughCapacity resource requirements \<longleftrightarrow>
     list_all (\<lambda>(ty, required).
       case map_of (res_Capacity resource) ty of
         None \<Rightarrow> False
       | Some capacity \<Rightarrow> \<not> wrap64 (capacity - res_used resource ty) < required) requirements"

section \<open>Load\<close>

text \<open>The loop of \<^verbatim>\<open>calculateResourceLoad\<close>: the sum so far and the number of types counted.\<close>

fun load_loop :: "Resource \<Rightarrow> amounts \<Rightarrow> float64 \<Rightarrow> nat \<Rightarrow> float64 \<times> nat" where
  "load_loop resource [] load types = (load, types)"
| "load_loop resource ((ty, capacity) # caps) load types =
     (if capacity \<le> 0 then load_loop resource caps load types
      else load_loop resource caps
             (f64_add load (f64_div (f64_of_int (res_used resource ty)) (f64_of_int capacity))) (types + 1))"

definition calculateResourceLoad :: "(amounts \<Rightarrow> amounts) \<Rightarrow> Resource \<Rightarrow> float64" where
  "calculateResourceLoad visit resource =
     (if length (res_Capacity resource) = 0 then Fin 0
      else case load_loop resource (visit (res_Capacity resource)) (Fin 0) 0 of
             (load, types) \<Rightarrow> if types = 0 then Fin 0 else f64_div load (f64_of_int (int types)))"

definition calculateNewLoad :: "Resource \<Rightarrow> float64" where
  "calculateNewLoad resource = f64_mul (res_Load resource) (Fin (1 / 2))"

text \<open>The loop of \<^verbatim>\<open>updateResourceAfterAllocation\<close>; the map is made when it is \<^verbatim>\<open>nil\<close>.\<close>

fun use_amounts :: "amounts \<Rightarrow> Resource \<Rightarrow> Resource" where
  "use_amounts [] resource = resource"
| "use_amounts ((ty, required) # requirements) resource =
     (let used = (case res_Used resource of None \<Rightarrow> Map.empty | Some m \<Rightarrow> m)
      in use_amounts requirements
           (resource\<lparr>res_Used := Some (used(ty \<mapsto> wrap64 (res_used resource ty + required)))\<rparr>))"

definition updateResourceAfterAllocation :: "(amounts \<Rightarrow> amounts) \<Rightarrow> amounts \<Rightarrow> Resource \<Rightarrow> Resource" where
  "updateResourceAfterAllocation visit requirements resource0 =
     (let resource1 = use_amounts requirements resource0;
          resource = resource1\<lparr>res_Load := calculateResourceLoad visit resource1\<rparr>
      in if f64_less (round64 (9 / 10)) (res_Load resource)
         then resource\<lparr>res_Status := ResourceStatusBusy\<rparr> else resource)"

text \<open>
  What releasing an allocation does to its resource, in \<^verbatim>\<open>ReleaseResource\<close> and
  \<^verbatim>\<open>checkAllocations\<close>: the load is halved, \<^verbatim>\<open>Used\<close> stays.
\<close>

definition release_from :: "Resource \<Rightarrow> Resource" where
  "release_from resource0 =
     (let resource = resource0\<lparr>res_Load := calculateNewLoad resource0\<rparr>
      in if f64_less (res_Load resource) (round64 (1 / 100))
         then resource\<lparr>res_Status := ResourceStatusAvailable\<rparr> else resource)"

section \<open>Resources in order\<close>

text \<open>
  Capacities are 64-bit and not negative, of each no more is used than there is, and the load
  is a number in [0, 1].
\<close>

definition amounts_ok :: "amounts \<Rightarrow> bool" where
  "amounts_ok xs \<longleftrightarrow> distinct (map fst xs) \<and> (\<forall>(ty, n) \<in> set xs. 0 \<le> n \<and> n \<le> max_int64)"

definition res_fits :: "Resource \<Rightarrow> bool" where
  "res_fits r \<longleftrightarrow> (\<forall>(ty, capacity) \<in> set (res_Capacity r). 0 \<le> res_used r ty \<and> res_used r ty \<le> capacity)"

definition res_ok :: "Resource \<Rightarrow> bool" where
  "res_ok r \<longleftrightarrow> amounts_ok (res_Capacity r) \<and> length (res_Capacity r) \<le> 2 ^ 53 \<and> res_fits r \<and> f64_unit (res_Load r)"

text \<open>What a request requires of a type.\<close>

definition required_of :: "amounts \<Rightarrow> ResourceType \<Rightarrow> int" where
  "required_of requirements ty = (case map_of requirements ty of None \<Rightarrow> 0 | Some n \<Rightarrow> n)"

lemma amounts_ok_Cons: "amounts_ok ((ty, n) # xs) \<Longrightarrow> amounts_ok xs \<and> map_of xs ty = None \<and> 0 \<le> n \<and> n \<le> max_int64"
  by (auto simp: amounts_ok_def map_of_eq_None_iff)

lemma use_amounts_fields [simp]:
  "res_Capacity (use_amounts xs r) = res_Capacity r" "res_Load (use_amounts xs r) = res_Load r"
  "res_Type (use_amounts xs r) = res_Type r" "res_ID (use_amounts xs r) = res_ID r"
  "res_Status (use_amounts xs r) = res_Status r"
  by (induction xs r rule: use_amounts.induct) (simp_all add: Let_def)

lemma res_used_upd:
  "res_used (r\<lparr>res_Used := Some ((case res_Used r of None \<Rightarrow> Map.empty | Some m \<Rightarrow> m)(ty \<mapsto> n))\<rparr>) ty' =
     (if ty' = ty then n else res_used r ty')"
  by (simp add: res_used_def split: option.split)

lemma hasEnoughCapacity_Cons:
  "hasEnoughCapacity r ((ty, n) # xs) \<longleftrightarrow>
     (\<exists>capacity. map_of (res_Capacity r) ty = Some capacity \<and> n \<le> wrap64 (capacity - res_used r ty)) \<and> hasEnoughCapacity r xs"
  by (auto simp: hasEnoughCapacity_def split: option.splits)

lemma res_fits_lookup:
  assumes "amounts_ok (res_Capacity r)" "res_fits r" "map_of (res_Capacity r) ty = Some capacity"
  shows "0 \<le> res_used r ty" "res_used r ty \<le> capacity" "capacity \<le> max_int64"
  using map_of_SomeD [OF assms(3)] assms(1,2) by (auto simp: res_fits_def amounts_ok_def)

text \<open>Checking and using in one pass: no requirement is added twice, so the check covers the sum.\<close>

lemma use_amounts_fits:
  assumes "amounts_ok (res_Capacity r)" "res_fits r" "amounts_ok xs" "hasEnoughCapacity r xs"
  shows "res_fits (use_amounts xs r) \<and> (\<forall>ty. res_used (use_amounts xs r) ty = res_used r ty + required_of xs ty)"
  using assms
proof (induction xs arbitrary: r)
  case (Cons x xs)
  obtain ty n where x: "x = (ty, n)" by force
  note xs = amounts_ok_Cons [OF Cons.prems(3) [unfolded x]]
  obtain capacity where c: "map_of (res_Capacity r) ty = Some capacity" "n \<le> wrap64 (capacity - res_used r ty)"
    and more: "hasEnoughCapacity r xs"
    using Cons.prems(4) unfolding x hasEnoughCapacity_Cons by blast
  note u = res_fits_lookup [OF Cons.prems(1,2) c(1)]
  have "wrap64 (capacity - res_used r ty) = capacity - res_used r ty"
    using u by (intro wrap64_id) (simp add: in_int64_def min_int64_def max_int64_def)
  then have n: "res_used r ty + n \<le> capacity" using c(2) by simp
  then have add: "wrap64 (res_used r ty + n) = res_used r ty + n"
    using u xs by (intro wrap64_id) (simp add: in_int64_def min_int64_def max_int64_def)
  define r' where "r' = r\<lparr>res_Used := Some ((case res_Used r of None \<Rightarrow> Map.empty | Some m \<Rightarrow> m)(ty \<mapsto> res_used r ty + n))\<rparr>"
  have used: "res_used r' ty' = (if ty' = ty then res_used r ty + n else res_used r ty')" for ty'
    by (simp add: r'_def res_used_upd)
  have cap: "res_Capacity r' = res_Capacity r" by (simp add: r'_def)
  have "res_fits r'"
    unfolding res_fits_def cap
  proof clarify
    fix ty' capacity' assume mem: "(ty', capacity') \<in> set (res_Capacity r)"
    show "0 \<le> res_used r' ty' \<and> res_used r' ty' \<le> capacity'"
    proof (cases "ty' = ty")
      case True
      then have "capacity' = capacity"
        using mem c(1) Cons.prems(1) by (auto simp: amounts_ok_def)
      then show ?thesis using True n u xs by (simp add: used)
    next
      case False
      then show ?thesis using mem Cons.prems(2) by (auto simp: used res_fits_def)
    qed
  qed
  moreover have "hasEnoughCapacity r' xs"
  proof -
    have "res_used r' (fst y) = res_used r (fst y)" if "y \<in> set xs" for y
      using that xs by (auto simp: used map_of_eq_None_iff image_iff)
    then show ?thesis using more
      by (simp add: hasEnoughCapacity_def list_all_iff cap case_prod_beta cong: option.case_cong)
  qed
  ultimately have "res_fits (use_amounts xs r') \<and> (\<forall>ty. res_used (use_amounts xs r') ty = res_used r' ty + required_of xs ty)"
    using Cons.IH [of r'] Cons.prems(1) xs cap by simp
  moreover have "use_amounts (x # xs) r = use_amounts xs r'" by (simp add: x Let_def add r'_def)
  ultimately show ?case using xs by (auto simp: used required_of_def x)
qed (simp add: required_of_def)

section \<open>The load is a number in [0, 1]\<close>

text \<open>A sum of \<open>n\<close> loads is at most \<open>n\<close>, in floating point too.\<close>

lemma load_loop_bounds:
  assumes "\<forall>(ty, capacity) \<in> set caps. 0 \<le> res_used r ty \<and> res_used r ty \<le> capacity \<and> capacity \<le> max_int64"
    and "load = Fin v" "0 \<le> v" "v \<le> of_nat types" "types + length caps \<le> 2 ^ 53"
  shows "\<exists>v' types'. load_loop r caps load types = (Fin v', types') \<and> 0 \<le> v' \<and> v' \<le> of_nat types' \<and> types' \<le> types + length caps"
  using assms
proof (induction r caps load types arbitrary: v rule: load_loop.induct)
  case (2 r ty capacity caps load types)
  show ?case
  proof (cases "capacity \<le> 0")
    case True
    then obtain v' types' where "load_loop r caps load types = (Fin v', types')" "0 \<le> v'" "v' \<le> of_nat types'"
        "types' \<le> types + length caps"
      using 2(1) [OF True, of v] 2(3-7) by auto
    then show ?thesis using True by auto
  next
    case False
    have "f64_unit (f64_div (f64_of_int (res_used r ty)) (f64_of_int capacity))"
      using 2(3) False by (intro f64_div_unit) auto
    then obtain w where w: "f64_div (f64_of_int (res_used r ty)) (f64_of_int capacity) = Fin w" "0 \<le> w" "w \<le> 1"
      by (rule f64_unitE)
    have "of_int 0 \<le> v + w" "v + w \<le> of_int (int types + 1)" using 2(5,6) w by simp_all
    then obtain v2 where v2: "round64 (v + w) = Fin v2" "0 \<le> v2" "v2 \<le> of_nat (types + 1)"
      using round64_between [of 0 "v + w" "int types + 1"] 2(7) by (auto simp: add.commute)
    have add: "f64_add load (f64_div (f64_of_int (res_used r ty)) (f64_of_int capacity)) = Fin v2"
      using 2(4) w(1) v2(1) by simp
    obtain v' types' where "load_loop r caps (Fin v2) (types + 1) = (Fin v', types')" "0 \<le> v'" "v' \<le> of_nat types'"
        "types' \<le> types + 1 + length caps"
      using 2(2) [OF False, of v2] 2(3,7) v2 add by auto
    then show ?thesis using False add by auto
  qed
qed auto

lemma calculateResourceLoad_unit:
  assumes "amounts_ok (res_Capacity r)" "res_fits r" "length (res_Capacity r) \<le> 2 ^ 53"
    and visit: "mset (visit (res_Capacity r)) = mset (res_Capacity r)"
  shows "f64_unit (calculateResourceLoad visit r)"
proof -
  have set: "set (visit (res_Capacity r)) = set (res_Capacity r)" by (rule mset_eq_setD [OF visit])
  have len: "length (visit (res_Capacity r)) = length (res_Capacity r)" by (rule mset_eq_length [OF visit])
  have ok: "\<forall>(ty, capacity) \<in> set (visit (res_Capacity r)).
      0 \<le> res_used r ty \<and> res_used r ty \<le> capacity \<and> capacity \<le> max_int64"
    using assms(1,2) unfolding set by (auto simp: res_fits_def amounts_ok_def)
  obtain v types where l: "load_loop r (visit (res_Capacity r)) (Fin 0) 0 = (Fin v, types)" "0 \<le> v" "v \<le> of_nat types"
      "types \<le> length (res_Capacity r)"
    using load_loop_bounds [OF ok refl, of 0 0] assms(3) len by auto
  have "f64_unit (f64_div (Fin v) (f64_of_int (int types)))" if "types \<noteq> 0"
  proof -
    have n: "f64_of_int (int types) = Fin (of_nat types)" using f64_of_int_exact [of "int types"] l(4) assms(3) by simp
    have "0 \<le> v / of_nat types" "v / of_nat types \<le> 1" using l that by simp_all
    then show ?thesis using round64_between [of 0 "v / of_nat types" 1] n that by (auto simp: f64_unit_def)
  qed
  then show ?thesis by (auto simp: calculateResourceLoad_def l(1) f64_unit_def)
qed

lemma calculateNewLoad_unit:
  assumes "f64_unit (res_Load r)"
  shows "f64_unit (calculateNewLoad r)"
proof -
  obtain v where "res_Load r = Fin v" "0 \<le> v" "v \<le> 1" using assms by (rule f64_unitE)
  then show ?thesis using round64_between [of 0 "v * (1 / 2)" 1] by (auto simp: calculateNewLoad_def f64_unit_def)
qed

section \<open>What the two updates of a resource keep\<close>

lemma updateResource_fields [simp]:
  "res_Capacity (updateResourceAfterAllocation visit xs r) = res_Capacity r"
  "res_Type (updateResourceAfterAllocation visit xs r) = res_Type r"
  "res_ID (updateResourceAfterAllocation visit xs r) = res_ID r"
  "res_used (updateResourceAfterAllocation visit xs r) ty = res_used (use_amounts xs r) ty"
  by (simp_all add: updateResourceAfterAllocation_def Let_def res_used_def)

lemma release_from_fields [simp]:
  "res_Capacity (release_from r) = res_Capacity r" "res_Type (release_from r) = res_Type r"
  "res_ID (release_from r) = res_ID r" "res_used (release_from r) ty = res_used r ty"
  by (simp_all add: release_from_def Let_def res_used_def)

lemma updateResource_ok:
  assumes "res_ok r" "amounts_ok xs" "hasEnoughCapacity r xs" and visit: "\<And>xs. mset (visit xs) = mset xs"
  shows "res_ok (updateResourceAfterAllocation visit xs r)"
proof -
  have fits: "res_fits (use_amounts xs r)" using use_amounts_fits [OF _ _ assms(2,3)] assms(1) by (simp add: res_ok_def)
  have "res_fits (updateResourceAfterAllocation visit xs r)" using fits by (simp add: res_fits_def)
  moreover have "res_Load (updateResourceAfterAllocation visit xs r) = calculateResourceLoad visit (use_amounts xs r)"
    by (simp add: updateResourceAfterAllocation_def Let_def)
  moreover have "f64_unit (calculateResourceLoad visit (use_amounts xs r))"
    using assms(1) fits by (intro calculateResourceLoad_unit visit) (simp_all add: res_ok_def)
  ultimately show ?thesis using assms(1) by (simp add: res_ok_def)
qed

lemma release_from_ok: "res_ok r \<Longrightarrow> res_ok (release_from r)"
  using calculateNewLoad_unit [of r] by (simp add: res_ok_def res_fits_def) (simp add: release_from_def Let_def)

end
