(* ===== verification/ResourceScheduler.thy ===== *)
theory ResourceScheduler
  imports Resources Config
begin

text \<open>
  \<^verbatim>\<open>ResourceScheduler\<close> of \<^verbatim>\<open>internal/scheduler/resource_scheduler.go\<close>: the resource and
  allocation tables, the queue of waiting requests, and the goroutines that work on them.

  The scheduler owns its \<^verbatim>\<open>*Resource\<close> values, which are part of the table. An iteration of
  a table visits its keys in an order that is an argument. The text of a time
  (\<^verbatim>\<open>Format(time.RFC3339)\<close>) depends on the local time zone and is a parameter \<open>fmt\<close>. What
  the two scaling triggers would do is not in the source (they log): the result of
  \<open>rs_checkAutoScaling\<close> says which was called.
\<close>

section \<open>State\<close>

record ResourceSchedulerConfig =
  rsc_HeartbeatTimeout :: duration
  rsc_AllocationTimeout :: duration
  rsc_ResourceCheckPeriod :: duration
  rsc_EnableAutoScaling :: bool
  rsc_MinResources :: int
  rsc_MaxResources :: int
  rsc_ScaleUpThreshold :: float64
  rsc_ScaleDownThreshold :: float64
  rsc_ScaleCooldown :: duration

record ResourceScheduler =
  rs_config :: ResourceSchedulerConfig
  rs_resources :: "string \<Rightarrow> Resource option"
  rs_allocations :: "string \<Rightarrow> ResourceAllocation option"
  rs_pendingQueue :: "ResourceRequest list"
  rs_lastScaleAction :: go_time
  rs_cancelled :: bool

definition NewResourceScheduler :: "SchedulerSettings \<Rightarrow> ResourceScheduler" where
  "NewResourceScheduler cfg =
     \<lparr>rs_config = \<lparr>rsc_HeartbeatTimeout = 30 * second, rsc_AllocationTimeout = sd_Timeout cfg,
        rsc_ResourceCheckPeriod = sd_CheckInterval cfg, rsc_EnableAutoScaling = False,
        rsc_MinResources = 1, rsc_MaxResources = 10, rsc_ScaleUpThreshold = round64 (8 / 10),
        rsc_ScaleDownThreshold = round64 (2 / 10), rsc_ScaleCooldown = 5 * minute\<rparr>,
      rs_resources = Map.empty, rs_allocations = Map.empty, rs_pendingQueue = [],
      rs_lastScaleAction = zero_time, rs_cancelled = False\<rparr>"

abbreviation rs_set :: "string \<Rightarrow> Resource \<Rightarrow> ResourceScheduler \<Rightarrow> ResourceScheduler" where
  "rs_set i r s \<equiv> s\<lparr>rs_resources := (rs_resources s)(i \<mapsto> r)\<rparr>"

section \<open>Resources\<close>

definition rs_RegisterResource :: "go_time \<Rightarrow> Resource \<Rightarrow> ResourceScheduler \<Rightarrow> string option \<times> ResourceScheduler" where
  "rs_RegisterResource now resource s =
     (case rs_resources s (res_ID resource) of
        Some _ \<Rightarrow> (Some ''resource with this ID already exists'', s)
      | None \<Rightarrow> (None, rs_set (res_ID resource)
          (resource\<lparr>res_Status := ResourceStatusAvailable, res_Load := Fin 0, res_LastHeartbeat := now\<rparr>) s))"

definition rs_UpdateResourceStatus ::
    "go_time \<Rightarrow> string \<Rightarrow> ResourceStatus \<Rightarrow> float64 \<Rightarrow> ResourceScheduler \<Rightarrow> string option \<times> ResourceScheduler" where
  "rs_UpdateResourceStatus now resourceID status load s =
     (case rs_resources s resourceID of
        None \<Rightarrow> (Some ''resource not found'', s)
      | Some resource \<Rightarrow>
          (None, rs_set resourceID (resource\<lparr>res_Status := status, res_Load := load, res_LastHeartbeat := now\<rparr>) s))"

definition rs_Heartbeat ::
    "go_time \<Rightarrow> string \<Rightarrow> float64 \<Rightarrow> (ResourceType \<Rightarrow> int option) option \<Rightarrow> ResourceScheduler
     \<Rightarrow> string option \<times> ResourceScheduler" where
  "rs_Heartbeat now resourceID load usedResources s =
     (case rs_resources s resourceID of
        None \<Rightarrow> (Some ''resource not found'', s)
      | Some resource \<Rightarrow>
          let resource1 = resource\<lparr>res_LastHeartbeat := now, res_Load := load\<rparr>
          in (None, rs_set resourceID
                (if usedResources \<noteq> None then resource1\<lparr>res_Used := usedResources\<rparr> else resource1) s))"

section \<open>Allocation\<close>

text \<open>The four checks of \<^verbatim>\<open>tryAllocateResource\<close>.\<close>

definition rs_suits :: "Resource \<Rightarrow> ResourceRequest \<Rightarrow> bool" where
  "rs_suits resource req \<longleftrightarrow>
     (res_Status resource = ResourceStatusAvailable \<or> res_Status resource = ResourceStatusBusy) \<and>
     res_Type resource = req_ModelType req \<and>
     hasRequiredCapabilities resource (req_Capabilities req) \<and>
     hasEnoughCapacity resource (req_Requirements req)"

text \<open>The search for the least loaded one.\<close>

fun rs_best_loop ::
    "ResourceRequest \<Rightarrow> (string \<Rightarrow> Resource option) \<Rightarrow> string list \<Rightarrow> float64 \<Rightarrow> string option \<Rightarrow> string option" where
  "rs_best_loop req resources [] lowestLoad best = best"
| "rs_best_loop req resources (i # order) lowestLoad best =
     (case resources i of
        None \<Rightarrow> rs_best_loop req resources order lowestLoad best
      | Some resource \<Rightarrow>
          if \<not> rs_suits resource req then rs_best_loop req resources order lowestLoad best
          else if f64_less (res_Load resource) lowestLoad
          then rs_best_loop req resources order (res_Load resource) (Some i)
          else rs_best_loop req resources order lowestLoad best)"

text \<open>What one attempt reads from outside: the orders of iteration and three times.\<close>

record attempt =
  at_fmt :: "go_time \<Rightarrow> string"
  at_visit :: "amounts \<Rightarrow> amounts"
  at_order :: "string list"
  at_allocated :: go_time
  at_expires :: go_time
  at_token :: go_time

definition generateAllocationToken :: "(go_time \<Rightarrow> string) \<Rightarrow> go_time \<Rightarrow> string \<Rightarrow> string \<Rightarrow> string" where
  "generateAllocationToken fmt now requestID resourceID = requestID @ ''-'' @ resourceID @ ''-'' @ fmt now"

definition rs_tryAllocateResource ::
    "attempt \<Rightarrow> ResourceRequest \<Rightarrow> ResourceScheduler \<Rightarrow> (string + ResourceAllocation) \<times> ResourceScheduler" where
  "rs_tryAllocateResource t req s =
     (case rs_best_loop req (rs_resources s) (at_order t) (round64 (11 / 10)) None of
        None \<Rightarrow> (Inl ''no suitable resource found'', s)
      | Some i \<Rightarrow>
          let bestResource = the (rs_resources s i);
              allocation = \<lparr>al_RequestID = req_RequestID req, al_ResourceID = res_ID bestResource,
                al_Endpoint = res_Endpoint bestResource, al_Allocated = at_allocated t,
                al_Expires = time_add (at_expires t) (req_Timeout req),
                al_Token = generateAllocationToken (at_fmt t) (at_token t) (req_RequestID req) (res_ID bestResource)\<rparr>
          in (Inr allocation,
              s\<lparr>rs_resources := (rs_resources s)
                  (i \<mapsto> updateResourceAfterAllocation (at_visit t) (req_Requirements req) bestResource),
                rs_allocations := (rs_allocations s)(req_RequestID req \<mapsto> allocation)\<rparr>))"

fun insert_request :: "ResourceRequest \<Rightarrow> ResourceRequest list \<Rightarrow> ResourceRequest list" where
  "insert_request req [] = [req]"
| "insert_request req (pendingReq # pending) =
     (if req_Priority req > req_Priority pendingReq then req # pendingReq # pending
      else pendingReq # insert_request req pending)"

text \<open>The second lock section of \<^verbatim>\<open>RequestResource\<close>.\<close>

definition rs_enqueue :: "ResourceRequest \<Rightarrow> ResourceScheduler \<Rightarrow> ResourceScheduler" where
  "rs_enqueue req s = s\<lparr>rs_pendingQueue := insert_request req (rs_pendingQueue s)\<rparr>"

definition rs_RequestResource ::
    "attempt \<Rightarrow> ResourceRequest \<Rightarrow> ResourceScheduler \<Rightarrow> (string + ResourceAllocation) \<times> ResourceScheduler" where
  "rs_RequestResource t req s =
     (case rs_tryAllocateResource t req s of
        (Inr allocation, s1) \<Rightarrow> (Inr allocation, s1)
      | (Inl _, s1) \<Rightarrow> (Inl ''no resources available, request queued'', rs_enqueue req s1))"

definition rs_free :: "string \<Rightarrow> ResourceScheduler \<Rightarrow> ResourceScheduler" where
  "rs_free resourceID s =
     (case rs_resources s resourceID of
        None \<Rightarrow> s
      | Some resource \<Rightarrow> rs_set resourceID (release_from resource) s)"

definition rs_ReleaseResource :: "string \<Rightarrow> ResourceScheduler \<Rightarrow> string option \<times> ResourceScheduler" where
  "rs_ReleaseResource requestID s =
     (case rs_allocations s requestID of
        None \<Rightarrow> (Some ''allocation not found'', s)
      | Some allocation \<Rightarrow>
          (None, rs_free (al_ResourceID allocation) (s\<lparr>rs_allocations := (rs_allocations s)(requestID := None)\<rparr>)))"

section \<open>Waiting requests\<close>

datatype attempt_result = TimedOut | Granted ResourceAllocation | StillWaiting

text \<open>
  One request of \<^verbatim>\<open>processPendingRequests\<close>. The type assertion on the metadata panics
  (\<open>None\<close>) when there is no time under \<^verbatim>\<open>queuedAt\<close>, the \<^verbatim>\<open>nil\<close> map included; it is
  evaluated only when the timeout is positive.
\<close>

definition req_queuedAt :: "ResourceRequest \<Rightarrow> go_time option" where
  "req_queuedAt req =
     (case req_Metadata req of
        None \<Rightarrow> None
      | Some md \<Rightarrow> (case md ''queuedAt'' of Some (ATime queuedAt) \<Rightarrow> Some queuedAt | _ \<Rightarrow> None))"

definition rs_process_one ::
    "go_time \<Rightarrow> attempt \<Rightarrow> ResourceRequest \<Rightarrow> ResourceScheduler \<Rightarrow> (attempt_result \<times> ResourceScheduler) option" where
  "rs_process_one now t req s =
     (let try = (case rs_tryAllocateResource t req s of
                   (Inr allocation, s1) \<Rightarrow> Some (Granted allocation, s1)
                 | (Inl _, s1) \<Rightarrow> Some (StillWaiting, s1))
      in if req_Timeout req > 0
         then (case req_queuedAt req of
                 None \<Rightarrow> None
               | Some queuedAt \<Rightarrow> if time_sub now queuedAt > req_Timeout req then Some (TimedOut, s) else try)
         else try)"

text \<open>The three stages: take the queue, try each request, put back what remains.\<close>

definition rs_take_queue :: "ResourceScheduler \<Rightarrow> ResourceRequest list \<times> ResourceScheduler" where
  "rs_take_queue s = (rs_pendingQueue s, s\<lparr>rs_pendingQueue := []\<rparr>)"

definition rs_put_back :: "ResourceRequest list \<Rightarrow> ResourceScheduler \<Rightarrow> ResourceScheduler" where
  "rs_put_back remainingRequests s =
     (if length remainingRequests > 0
      then s\<lparr>rs_pendingQueue := rs_pendingQueue s @ remainingRequests\<rparr> else s)"

fun rs_process_loop ::
    "(nat \<Rightarrow> go_time \<times> attempt) \<Rightarrow> ResourceRequest list \<Rightarrow> ResourceRequest list \<Rightarrow> ResourceScheduler
     \<Rightarrow> (ResourceRequest list \<times> ResourceScheduler) option" where
  "rs_process_loop ts [] remaining s = Some (remaining, s)"
| "rs_process_loop ts (req # reqs) remaining s =
     (case rs_process_one (fst (ts 0)) (snd (ts 0)) req s of
        None \<Rightarrow> None
      | Some (StillWaiting, s1) \<Rightarrow> rs_process_loop (\<lambda>i. ts (Suc i)) reqs (remaining @ [req]) s1
      | Some (_, s1) \<Rightarrow> rs_process_loop (\<lambda>i. ts (Suc i)) reqs remaining s1)"

text \<open>The whole of it, when no other goroutine comes between its lock sections.\<close>

definition rs_processPendingRequests ::
    "(nat \<Rightarrow> go_time \<times> attempt) \<Rightarrow> ResourceScheduler \<Rightarrow> ResourceScheduler option" where
  "rs_processPendingRequests ts s =
     (if length (rs_pendingQueue s) = 0 then Some s
      else case rs_take_queue s of
             (pendingRequests, s1) \<Rightarrow>
               map_option (\<lambda>(remaining, s2). rs_put_back remaining s2) (rs_process_loop ts pendingRequests [] s1))"

fun remove_request :: "string \<Rightarrow> ResourceRequest list \<Rightarrow> ResourceRequest list" where
  "remove_request requestID [] = []"
| "remove_request requestID (req # pending) =
     (if req_RequestID req = requestID then pending else req # remove_request requestID pending)"

definition rs_removeFromPendingQueue :: "string \<Rightarrow> ResourceScheduler \<Rightarrow> ResourceScheduler" where
  "rs_removeFromPendingQueue requestID s = s\<lparr>rs_pendingQueue := remove_request requestID (rs_pendingQueue s)\<rparr>"

section \<open>Monitoring\<close>

definition rs_checkResourceStatus :: "go_time \<Rightarrow> ResourceScheduler \<Rightarrow> ResourceScheduler" where
  "rs_checkResourceStatus now s =
     s\<lparr>rs_resources := (\<lambda>i. map_option
         (\<lambda>resource. if time_sub now (res_LastHeartbeat resource) > rsc_HeartbeatTimeout (rs_config s)
                     then resource\<lparr>res_Status := ResourceStatusOffline\<rparr> else resource)
         (rs_resources s i))\<rparr>"

text \<open>The iteration over the allocations, deleting the expired ones.\<close>

fun rs_checkAllocations :: "go_time \<Rightarrow> string list \<Rightarrow> ResourceScheduler \<Rightarrow> ResourceScheduler" where
  "rs_checkAllocations now [] s = s"
| "rs_checkAllocations now (requestID # order) s =
     (case rs_allocations s requestID of
        None \<Rightarrow> rs_checkAllocations now order s
      | Some allocation \<Rightarrow>
          if time_after now (al_Expires allocation)
          then rs_checkAllocations now order
                 (rs_free (al_ResourceID allocation) (s\<lparr>rs_allocations := (rs_allocations s)(requestID := None)\<rparr>))
          else rs_checkAllocations now order s)"

text \<open>The sum of the loads of the active resources, and their number.\<close>

fun rs_active_load :: "(string \<Rightarrow> Resource option) \<Rightarrow> string list \<Rightarrow> float64 \<Rightarrow> int \<Rightarrow> float64 \<times> int" where
  "rs_active_load resources [] load active = (load, active)"
| "rs_active_load resources (i # order) load active =
     (case resources i of
        None \<Rightarrow> rs_active_load resources order load active
      | Some resource \<Rightarrow>
          if res_Status resource \<noteq> ResourceStatusOffline \<and> res_Status resource \<noteq> ResourceStatusError
          then rs_active_load resources order (f64_add load (res_Load resource)) (active + 1)
          else rs_active_load resources order load active)"

definition rs_average_load :: "string list \<Rightarrow> ResourceScheduler \<Rightarrow> float64 \<times> int" where
  "rs_average_load order s =
     (case rs_active_load (rs_resources s) order (Fin 0) 0 of
        (load, active) \<Rightarrow> (if active > 0 then f64_div load (f64_of_int active) else Fin 0, active))"

datatype scale_action = ScaleUp | ScaleDown

definition rs_checkAutoScaling ::
    "go_time \<Rightarrow> go_time \<Rightarrow> string list \<Rightarrow> ResourceScheduler \<Rightarrow> scale_action option \<times> ResourceScheduler" where
  "rs_checkAutoScaling now now' order s =
     (let cfg = rs_config s
      in if \<not> rsc_EnableAutoScaling cfg then (None, s)
         else if time_sub now (rs_lastScaleAction s) < rsc_ScaleCooldown cfg then (None, s)
         else case rs_average_load order s of
                (averageLoad, activeResources) \<Rightarrow>
                  if (f64_less (rsc_ScaleUpThreshold cfg) averageLoad \<or> length (rs_pendingQueue s) > 0) \<and>
                     activeResources < rsc_MaxResources cfg
                  then (Some ScaleUp, s\<lparr>rs_lastScaleAction := now'\<rparr>)
                  else if f64_less averageLoad (rsc_ScaleDownThreshold cfg) \<and>
                     length (rs_pendingQueue s) = 0 \<and> activeResources > rsc_MinResources cfg
                  then (Some ScaleDown, s\<lparr>rs_lastScaleAction := now'\<rparr>)
                  else (None, s))"

text \<open>A tick of the monitor: the three checks one after the other, with the clock and the order of each.\<close>

definition rs_monitor_tick ::
    "go_time \<times> go_time \<times> go_time \<times> go_time \<Rightarrow> string list \<times> string list \<Rightarrow> ResourceScheduler
     \<Rightarrow> scale_action option \<times> ResourceScheduler" where
  "rs_monitor_tick nows orders s =
     (case nows of (t1, t2, t3, t4) \<Rightarrow>
        rs_checkAutoScaling t3 t4 (snd orders) (rs_checkAllocations t2 (fst orders) (rs_checkResourceStatus t1 s)))"

text \<open>The two background tasks over what they receive; each ends only after \<^verbatim>\<open>Stop\<close> has cancelled the context.\<close>

definition rs_resourceMonitor ::
    "((go_time \<times> go_time \<times> go_time \<times> go_time) \<times> string list \<times> string list) wake list \<Rightarrow> ResourceScheduler \<Rightarrow> ResourceScheduler option" where
  "rs_resourceMonitor wakes s =
     run_ticker (rsc_ResourceCheckPeriod (rs_config s)) (\<lambda>(nows, orders) s. Some (snd (rs_monitor_tick nows orders s))) wakes s"

definition rs_pendingRequestProcessor :: "(nat \<Rightarrow> go_time \<times> attempt) wake list \<Rightarrow> ResourceScheduler \<Rightarrow> ResourceScheduler option" where
  "rs_pendingRequestProcessor wakes s = run_ticker (1 * second) rs_processPendingRequests wakes s"

definition rs_Stop :: "ResourceScheduler \<Rightarrow> ResourceScheduler" where
  "rs_Stop s = s\<lparr>rs_cancelled := True\<rparr>"

section \<open>Queries\<close>

record ResourceStats =
  rst_status :: "string \<Rightarrow> int"
  rst_byType :: "string \<Rightarrow> int"
  rst_averageLoad :: float64
  rst_allocations :: int
  rst_pending :: int

definition rs_count :: "(Resource \<Rightarrow> bool) \<Rightarrow> string list \<Rightarrow> ResourceScheduler \<Rightarrow> int" where
  "rs_count P order s =
     int (length (filter (\<lambda>i. case rs_resources s i of None \<Rightarrow> False | Some r \<Rightarrow> P r) order))"

text \<open>\<open>order\<close> lists the resources, \<open>requests\<close> the allocations.\<close>

definition rs_GetResourceStats :: "string list \<Rightarrow> string list \<Rightarrow> ResourceScheduler \<Rightarrow> ResourceStats" where
  "rs_GetResourceStats order requests s =
     \<lparr>rst_status = (\<lambda>k. if k = ''total'' then rs_count (\<lambda>_. True) order s
                       else if k \<in> {''available'', ''busy'', ''offline'', ''error''}
                       then rs_count (\<lambda>r. res_Status r = k) order s else 0),
      rst_byType = (\<lambda>ty. rs_count (\<lambda>r. res_Type r = ty) order s),
      rst_averageLoad = fst (rs_average_load order s),
      rst_allocations = int (length (filter (\<lambda>i. rs_allocations s i \<noteq> None) requests)),
      rst_pending = int (length (rs_pendingQueue s))\<rparr>"

definition rs_GetAllocation :: "string \<Rightarrow> ResourceScheduler \<Rightarrow> string + ResourceAllocation" where
  "rs_GetAllocation requestID s =
     (case rs_allocations s requestID of None \<Rightarrow> Inl ''allocation not found'' | Some a \<Rightarrow> Inr a)"

definition rs_GetResource :: "string \<Rightarrow> ResourceScheduler \<Rightarrow> string + Resource" where
  "rs_GetResource resourceID s =
     (case rs_resources s resourceID of None \<Rightarrow> Inl ''resource not found'' | Some r \<Rightarrow> Inr r)"

definition rs_GetAllResources :: "string list \<Rightarrow> ResourceScheduler \<Rightarrow> Resource list" where
  "rs_GetAllResources order s = List.map_filter (rs_resources s) order"

definition rs_GetAllAllocations :: "string list \<Rightarrow> ResourceScheduler \<Rightarrow> ResourceAllocation list" where
  "rs_GetAllAllocations order s = List.map_filter (rs_allocations s) order"

definition rs_GetPendingQueueLength :: "ResourceScheduler \<Rightarrow> int" where
  "rs_GetPendingQueueLength s = int (length (rs_pendingQueue s))"

end
