(* ===== verification/ResourceRuns.thy ===== *)
theory ResourceRuns
  imports ResourceScheduler
begin

text \<open>
  Runs of the resource scheduler: any interleaving of the lock sections of its callers, of
  the goroutines that process the waiting requests, and of the monitor. A request that found
  no resource is held by its caller until the second lock section queues it; a processor
  holds the requests it took and those it will put back.
\<close>

section \<open>Interleavings\<close>

record rs_system =
  sys_rs :: ResourceScheduler
  sys_callers :: "ResourceRequest list"
  sys_procs :: "(ResourceRequest list \<times> ResourceRequest list) list"
  sys_asked :: "ResourceRequest list"
  sys_grants :: "(ResourceRequest \<times> string) list"
  sys_timedout :: "ResourceRequest list"
  sys_panicked :: bool

text \<open>\<open>sys_asked\<close>, \<open>sys_grants\<close> and \<open>sys_timedout\<close> record what happened.\<close>

definition sys_init :: "SchedulerSettings \<Rightarrow> rs_system" where
  "sys_init cfg = \<lparr>sys_rs = NewResourceScheduler cfg, sys_callers = [], sys_procs = [], sys_asked = [],
     sys_grants = [], sys_timedout = [], sys_panicked = False\<rparr>"

datatype rs_event =
    EvRegister go_time Resource
  | EvStatus go_time string ResourceStatus float64
  | EvHeartbeat go_time string float64 "(ResourceType \<Rightarrow> int option) option"
  | EvAsk attempt ResourceRequest
  | EvQueue nat
  | EvRelease string
  | EvTake
  | EvTry nat go_time attempt
  | EvPutBack nat
  | EvCheckStatus go_time
  | EvCheckAllocations go_time "string list"
  | EvCheckScaling go_time go_time "string list"

definition sys_upd :: "rs_system \<Rightarrow> ResourceScheduler \<Rightarrow> rs_system" where
  "sys_upd y s = y\<lparr>sys_rs := s\<rparr>"

definition sys_grant :: "ResourceRequest \<Rightarrow> ResourceAllocation \<Rightarrow> rs_system \<Rightarrow> rs_system" where
  "sys_grant req a y = y\<lparr>sys_grants := sys_grants y @ [(req, al_ResourceID a)]\<rparr>"

text \<open>\<open>None\<close>: the event cannot happen in this state; nothing happens after a panic.\<close>

fun rs_step :: "rs_event \<Rightarrow> rs_system \<Rightarrow> rs_system option" where
  "rs_step (EvRegister now r) y = Some (sys_upd y (snd (rs_RegisterResource now r (sys_rs y))))"
| "rs_step (EvStatus now i status load) y = Some (sys_upd y (snd (rs_UpdateResourceStatus now i status load (sys_rs y))))"
| "rs_step (EvHeartbeat now i load used) y = Some (sys_upd y (snd (rs_Heartbeat now i load used (sys_rs y))))"
| "rs_step (EvAsk t req) y =
     (let y1 = y\<lparr>sys_asked := sys_asked y @ [req]\<rparr>
      in case rs_tryAllocateResource t req (sys_rs y) of
           (Inr a, s) \<Rightarrow> Some (sys_grant req a (sys_upd y1 s))
         | (Inl _, s) \<Rightarrow> Some ((sys_upd y1 s)\<lparr>sys_callers := sys_callers y @ [req]\<rparr>))"
| "rs_step (EvQueue k) y =
     (if k < length (sys_callers y)
      then Some ((sys_upd y (rs_enqueue (sys_callers y ! k) (sys_rs y)))\<lparr>sys_callers := remove_nth k (sys_callers y)\<rparr>)
      else None)"
| "rs_step (EvRelease i) y = Some (sys_upd y (snd (rs_ReleaseResource i (sys_rs y))))"
| "rs_step EvTake y =
     (if length (rs_pendingQueue (sys_rs y)) = 0 then Some y
      else case rs_take_queue (sys_rs y) of
             (reqs, s) \<Rightarrow> Some ((sys_upd y s)\<lparr>sys_procs := sys_procs y @ [(reqs, [])]\<rparr>))"
| "rs_step (EvTry k now t) y =
     (if k < length (sys_procs y)
      then case sys_procs y ! k of
             ([], remaining) \<Rightarrow> None
           | (req # reqs, remaining) \<Rightarrow>
               (case rs_process_one now t req (sys_rs y) of
                  None \<Rightarrow> Some (y\<lparr>sys_panicked := True\<rparr>)
                | Some (TimedOut, s) \<Rightarrow>
                    Some ((sys_upd y s)\<lparr>sys_procs := (sys_procs y)[k := (reqs, remaining)],
                                       sys_timedout := sys_timedout y @ [req]\<rparr>)
                | Some (Granted a, s) \<Rightarrow>
                    Some (sys_grant req a ((sys_upd y s)\<lparr>sys_procs := (sys_procs y)[k := (reqs, remaining)]\<rparr>))
                | Some (StillWaiting, s) \<Rightarrow>
                    Some ((sys_upd y s)\<lparr>sys_procs := (sys_procs y)[k := (reqs, remaining @ [req])]\<rparr>))
      else None)"
| "rs_step (EvPutBack k) y =
     (if k < length (sys_procs y)
      then case sys_procs y ! k of
             ([], remaining) \<Rightarrow>
               Some ((sys_upd y (rs_put_back remaining (sys_rs y)))\<lparr>sys_procs := remove_nth k (sys_procs y)\<rparr>)
           | _ \<Rightarrow> None
      else None)"
| "rs_step (EvCheckStatus now) y = Some (sys_upd y (rs_checkResourceStatus now (sys_rs y)))"
| "rs_step (EvCheckAllocations now order) y = Some (sys_upd y (rs_checkAllocations now order (sys_rs y)))"
| "rs_step (EvCheckScaling now now' order) y = Some (sys_upd y (snd (rs_checkAutoScaling now now' order (sys_rs y))))"

fun rs_run :: "rs_event list \<Rightarrow> rs_system \<Rightarrow> rs_system option" where
  "rs_run [] y = Some y"
| "rs_run (ev # evs) y =
     (if sys_panicked y then None
      else case rs_step ev y of None \<Rightarrow> None | Some y' \<Rightarrow> rs_run evs y')"

section \<open>What a search finds\<close>

text \<open>The start value is above every load.\<close>

lemma lowest_start: "\<exists>c. round64 (11 / 10) = Fin c \<and> 1 < c"
proof -
  obtain c where c: "round64 (11 / 10) = Fin c" using round64_between [of 1 "11 / 10" 2] by auto
  have "round_rat (17 / 16) = 17 / 16" by code_simp
  moreover have "round_rat (17 / 16) \<le> round_rat (11 / 10)" by (rule round_rat_mono) simp
  moreover have "c = round_rat (11 / 10)" using c by (simp add: round64_def Let_def split: if_splits)
  ultimately show ?thesis using c by simp
qed

definition rs_best_so_far :: "ResourceRequest \<Rightarrow> (string \<Rightarrow> Resource option) \<Rightarrow> rat \<Rightarrow> string option \<Rightarrow> bool" where
  "rs_best_so_far req res l best \<longleftrightarrow>
     (case best of None \<Rightarrow> 1 < l | Some b \<Rightarrow> \<exists>r. res b = Some r \<and> rs_suits r req \<and> res_Load r = Fin l)"

definition rs_at_least :: "ResourceRequest \<Rightarrow> (string \<Rightarrow> Resource option) \<Rightarrow> rat \<Rightarrow> string \<Rightarrow> bool" where
  "rs_at_least req res l i \<longleftrightarrow> (\<forall>r. res i = Some r \<and> rs_suits r req \<longrightarrow> (\<exists>v. res_Load r = Fin v \<and> l \<le> v))"

lemma rs_best_loop_cases:
  assumes load: "\<And>i r. res i = Some r \<Longrightarrow> \<exists>v. res_Load r = Fin v \<and> v \<le> 1"
    and "rs_best_so_far req res l best"
  shows "\<exists>l'. rs_best_so_far req res l' (rs_best_loop req res order (Fin l) best) \<and> l' \<le> l \<and>
    list_all (rs_at_least req res l') order"
  using assms(2)
proof (induction order arbitrary: l best)
  case (Cons i order)
  show ?case
  proof (cases "\<exists>r v. res i = Some r \<and> rs_suits r req \<and> res_Load r = Fin v \<and> v < l")
    case True
    then obtain r v where r: "res i = Some r" "rs_suits r req" "res_Load r = Fin v" "v < l" by blast
    then have "rs_best_so_far req res v (Some i)" by (simp add: rs_best_so_far_def)
    from Cons.IH [OF this] obtain l' where
      l': "rs_best_so_far req res l' (rs_best_loop req res order (Fin v) (Some i))" "l' \<le> v" "list_all (rs_at_least req res l') order"
      by blast
    have "rs_at_least req res l' i" using r(1,3) l'(2) by (simp add: rs_at_least_def)
    with l' r show ?thesis by (intro exI [of _ l']) simp
  next
    case False
    then have "rs_best_loop req res (i # order) (Fin l) best = rs_best_loop req res order (Fin l) best"
      using load [of i] by (cases "res i") auto
    moreover obtain l' where
      l': "rs_best_so_far req res l' (rs_best_loop req res order (Fin l) best)" "l' \<le> l" "list_all (rs_at_least req res l') order"
      using Cons.IH [OF Cons.prems] by blast
    moreover have "rs_at_least req res l' i"
    proof -
      have "l' \<le> v" if "res i = Some r" "rs_suits r req" "res_Load r = Fin v" for r v
        using False that l'(2) by (meson dual_order.trans not_le)
      then show ?thesis using load [of i] by (fastforce simp: rs_at_least_def)
    qed
    ultimately show ?thesis by (intro exI [of _ l']) simp
  qed
qed auto

section \<open>Tables in order\<close>

definition rs_inv :: "ResourceScheduler \<Rightarrow> bool" where
  "rs_inv s \<longleftrightarrow> (\<forall>i r. rs_resources s i = Some r \<longrightarrow> res_ok r \<and> res_ID r = i)"

lemma rs_inv_lookup: "rs_inv s \<Longrightarrow> rs_resources s i = Some r \<Longrightarrow> res_ok r \<and> res_ID r = i"
  by (simp add: rs_inv_def)

lemma rs_inv_set: "rs_inv s \<Longrightarrow> res_ok r \<Longrightarrow> res_ID r = i \<Longrightarrow> rs_inv (rs_set i r s)"
  by (simp add: rs_inv_def)

lemma rs_inv_cong: "rs_resources s' = rs_resources s \<Longrightarrow> rs_inv s' = rs_inv s"
  by (simp add: rs_inv_def)

text \<open>What an attempt does, by outcome.\<close>

lemma rs_try_cases:
  assumes inv: "rs_inv s" and att: "rs_tryAllocateResource t req s = (res, s')"
  shows "case res of
      Inl e \<Rightarrow> s' = s \<and> (\<forall>i r. i \<in> set (at_order t) \<and> rs_resources s i = Some r \<longrightarrow> \<not> rs_suits r req)
    | Inr a \<Rightarrow> \<exists>r. rs_resources s (al_ResourceID a) = Some r \<and> rs_suits r req \<and>
        s' = s\<lparr>rs_resources := (rs_resources s)
                (al_ResourceID a \<mapsto> updateResourceAfterAllocation (at_visit t) (req_Requirements req) r),
              rs_allocations := (rs_allocations s)(req_RequestID req \<mapsto> a)\<rparr> \<and>
        (\<forall>i r'. i \<in> set (at_order t) \<and> rs_resources s i = Some r' \<and> rs_suits r' req \<longrightarrow>
           \<not> f64_less (res_Load r') (res_Load r))"
proof -
  obtain c where c: "round64 (11 / 10) = Fin c" "1 < c" using lowest_start by blast
  have load: "\<exists>v. res_Load r = Fin v \<and> v \<le> 1" if "rs_resources s i = Some r" for i r
    using rs_inv_lookup [OF inv that] by (auto simp: res_ok_def elim: f64_unitE)
  let ?b = "rs_best_loop req (rs_resources s) (at_order t) (Fin c) None"
  have start: "rs_best_so_far req (rs_resources s) c None" using c by (simp add: rs_best_so_far_def)
  have "\<exists>l. rs_best_so_far req (rs_resources s) l ?b \<and> l \<le> c \<and> list_all (rs_at_least req (rs_resources s) l) (at_order t)"
    by (rule rs_best_loop_cases [OF _ start]) (rule load)
  then obtain l where
    l: "rs_best_so_far req (rs_resources s) l ?b"
    and all: "\<And>i r. i \<in> set (at_order t) \<Longrightarrow> rs_resources s i = Some r \<Longrightarrow> rs_suits r req \<Longrightarrow> \<exists>v. res_Load r = Fin v \<and> l \<le> v"
    unfolding list_all_iff rs_at_least_def by blast
  show ?thesis
  proof (cases ?b)
    case None
    then have "1 < l" using l by (simp add: rs_best_so_far_def)
    have "\<not> rs_suits r req" if mem: "i \<in> set (at_order t)" "rs_resources s i = Some r" for i r
    proof
      assume "rs_suits r req"
      from all [OF mem this] load [OF mem(2)] \<open>1 < l\<close> show False by auto
    qed
    moreover have "res = Inl ''no suitable resource found'' \<and> s' = s"
      using att None c(1) by (simp add: rs_tryAllocateResource_def)
    ultimately show ?thesis by auto
  next
    case (Some b)
    then obtain r where r: "rs_resources s b = Some r" "rs_suits r req" "res_Load r = Fin l"
      using l by (auto simp: rs_best_so_far_def)
    have id: "res_ID r = b" using rs_inv_lookup [OF inv r(1)] by simp
    obtain a where a: "res = Inr a" "al_ResourceID a = b"
      "s' = s\<lparr>rs_resources := (rs_resources s)(b \<mapsto> updateResourceAfterAllocation (at_visit t) (req_Requirements req) r),
              rs_allocations := (rs_allocations s)(req_RequestID req \<mapsto> a)\<rparr>"
      using att Some c(1) r(1) id by (auto simp: rs_tryAllocateResource_def Let_def)
    have "\<not> f64_less (res_Load r') (res_Load r)"
      if "i \<in> set (at_order t)" "rs_resources s i = Some r'" "rs_suits r' req" for i r'
      using all [OF that] r(3) by auto
    then show ?thesis using a r by auto
  qed
qed


section \<open>What the operations leave alone\<close>

lemma rs_free_frame [simp]:
  "rs_pendingQueue (rs_free i s) = rs_pendingQueue s" "rs_allocations (rs_free i s) = rs_allocations s"
  "rs_config (rs_free i s) = rs_config s"
  by (simp_all add: rs_free_def split: option.split)

lemma rs_checkAllocations_frame [simp]:
  "rs_pendingQueue (rs_checkAllocations now order s) = rs_pendingQueue s"
  "rs_config (rs_checkAllocations now order s) = rs_config s"
  by (induction now order s rule: rs_checkAllocations.induct) (simp_all split: option.split)

lemma rs_pending_frame [simp]:
  "rs_pendingQueue (snd (rs_RegisterResource now r s)) = rs_pendingQueue s"
  "rs_pendingQueue (snd (rs_UpdateResourceStatus now i status load s)) = rs_pendingQueue s"
  "rs_pendingQueue (snd (rs_Heartbeat now i load used s)) = rs_pendingQueue s"
  "rs_pendingQueue (snd (rs_ReleaseResource i s)) = rs_pendingQueue s"
  "rs_pendingQueue (rs_checkResourceStatus now s) = rs_pendingQueue s"
  "rs_pendingQueue (snd (rs_checkAutoScaling now now' order s)) = rs_pendingQueue s"
  "rs_pendingQueue (snd (rs_tryAllocateResource t req s)) = rs_pendingQueue s"
  by (simp_all add: rs_RegisterResource_def rs_UpdateResourceStatus_def rs_Heartbeat_def Let_def rs_ReleaseResource_def
      rs_checkResourceStatus_def rs_checkAutoScaling_def rs_tryAllocateResource_def split: option.split prod.split)

lemma rs_process_one_cases:
  assumes "rs_process_one now t req s = Some (res, s')"
  shows "rs_pendingQueue s' = rs_pendingQueue s"
    and "case res of
      TimedOut \<Rightarrow> s' = s
    | Granted a \<Rightarrow> rs_tryAllocateResource t req s = (Inr a, s')
    | StillWaiting \<Rightarrow> \<exists>e. rs_tryAllocateResource t req s = (Inl e, s')"
proof -
  obtain r s1 where t: "rs_tryAllocateResource t req s = (r, s1)" by force
  have "rs_pendingQueue s1 = rs_pendingQueue s" using rs_pending_frame(7) [of t req s] t by simp
  then show "rs_pendingQueue s' = rs_pendingQueue s"
    using assms t by (cases r) (auto simp: rs_process_one_def Let_def split: option.splits if_splits)
  show "case res of
      TimedOut \<Rightarrow> s' = s
    | Granted a \<Rightarrow> rs_tryAllocateResource t req s = (Inr a, s')
    | StillWaiting \<Rightarrow> \<exists>e. rs_tryAllocateResource t req s = (Inl e, s')"
    using assms t by (cases r) (auto simp: rs_process_one_def Let_def split: option.splits if_splits)
qed

section \<open>Where the requests are\<close>

definition proc_reqs :: "ResourceRequest list \<times> ResourceRequest list \<Rightarrow> ResourceRequest multiset" where
  "proc_reqs p = mset (fst p) + mset (snd p)"

definition sys_held :: "rs_system \<Rightarrow> ResourceRequest multiset" where
  "sys_held y = mset (rs_pendingQueue (sys_rs y)) + mset (sys_callers y) + (\<Sum>p\<leftarrow>sys_procs y. proc_reqs p)"

definition sys_done :: "rs_system \<Rightarrow> ResourceRequest multiset" where
  "sys_done y = mset (map fst (sys_grants y)) + mset (sys_timedout y)"

lemma set_insert_request [simp]: "set (insert_request req pending) = insert req (set pending)"
  by (induction req pending rule: insert_request.induct) auto

lemma mset_insert_request [simp]: "mset (insert_request req pending) = add_mset req (mset pending)"
  by (induction req pending rule: insert_request.induct) simp_all

lemma mset_remove_nth_add: "k < length xs \<Longrightarrow> add_mset (xs ! k) (mset (remove_nth k xs)) = mset xs"
  by (simp add: mset_remove_nth)

lemma procs_update:
  "k < length ps \<Longrightarrow> (\<Sum>p\<leftarrow>ps[k := p']. proc_reqs p) + proc_reqs (ps ! k) = (\<Sum>p\<leftarrow>ps. proc_reqs p) + proc_reqs p'"
proof (induction ps arbitrary: k)
  case (Cons p ps)
  then show ?case by (cases k) (simp_all add: ac_simps)
qed simp

lemma procs_remove:
  "k < length ps \<Longrightarrow> (\<Sum>p\<leftarrow>remove_nth k ps. proc_reqs p) + proc_reqs (ps ! k) = (\<Sum>p\<leftarrow>ps. proc_reqs p)"
proof (induction ps arbitrary: k)
  case (Cons p ps)
  then show ?case by (cases k) (simp_all add: ac_simps remove_nth_def)
qed simp

lemmas sys_simps = sys_upd_def sys_grant_def sys_held_def sys_done_def

lemma procs_move:
  assumes "k < length ps" and "ps ! k = (req # reqs, remaining)" and "proc_reqs p' = mset reqs + mset remaining + M"
  shows "(\<Sum>p\<leftarrow>ps[k := p']. proc_reqs p) + {#req#} = (\<Sum>p\<leftarrow>ps. proc_reqs p) + M"
  using procs_update [OF assms(1), of p'] assms(2,3) by (simp add: proc_reqs_def)

lemma rs_step_balance:
  assumes "rs_step ev y = Some y'"
  shows "sys_held y' + sys_done y' + mset (sys_asked y) = sys_held y + sys_done y + mset (sys_asked y')"
proof (cases ev)
  case (EvAsk t req)
  obtain res s where t: "rs_tryAllocateResource t req (sys_rs y) = (res, s)" by force
  have "rs_pendingQueue s = rs_pendingQueue (sys_rs y)" using rs_pending_frame(7) [of t req "sys_rs y"] t by simp
  then show ?thesis using assms EvAsk t by (cases res) (auto simp: sys_simps)
next
  case (EvQueue k)
  then have k: "k < length (sys_callers y)" using assms by (auto split: if_splits)
  with mset_remove_nth_add [OF k] show ?thesis using assms EvQueue
    by (auto simp: sys_simps rs_enqueue_def)
next
  case EvTake
  then show ?thesis using assms by (auto simp: sys_simps rs_take_queue_def proc_reqs_def split: if_splits)
next
  case (EvTry k now t)
  then obtain req reqs remaining where k: "k < length (sys_procs y)" "sys_procs y ! k = (req # reqs, remaining)"
    using assms by (cases "sys_procs y ! k"; cases "fst (sys_procs y ! k)") (auto split: if_splits)
  show ?thesis
  proof (cases "rs_process_one now t req (sys_rs y)")
    case None
    then show ?thesis using assms EvTry k by (auto simp: sys_simps)
  next
    case (Some p)
    then obtain res s where p: "rs_process_one now t req (sys_rs y) = Some (res, s)" by (cases p) auto
    have pend: "rs_pendingQueue s = rs_pendingQueue (sys_rs y)" by (rule rs_process_one_cases(1) [OF p])
    have out: "(\<Sum>p\<leftarrow>(sys_procs y)[k := (reqs, remaining)]. proc_reqs p) + {#req#} = (\<Sum>p\<leftarrow>sys_procs y. proc_reqs p)"
      using procs_move [OF k, of "(reqs, remaining)" "{#}"] by (simp add: proc_reqs_def)
    have keep: "(\<Sum>p\<leftarrow>(sys_procs y)[k := (reqs, remaining @ [req])]. proc_reqs p) = (\<Sum>p\<leftarrow>sys_procs y. proc_reqs p)"
      using procs_move [OF k, of "(reqs, remaining @ [req])" "{#req#}"] by (simp add: proc_reqs_def)
    show ?thesis
    proof (cases res)
      case TimedOut
      then have "y' = (sys_upd y s)\<lparr>sys_procs := (sys_procs y)[k := (reqs, remaining)], sys_timedout := sys_timedout y @ [req]\<rparr>"
        using assms EvTry k p by simp
      then show ?thesis using pend by (simp add: sys_simps out [symmetric])
    next
      case (Granted a)
      then have "y' = sys_grant req a ((sys_upd y s)\<lparr>sys_procs := (sys_procs y)[k := (reqs, remaining)]\<rparr>)"
        using assms EvTry k p by simp
      then show ?thesis using pend by (simp add: sys_simps out [symmetric])
    next
      case StillWaiting
      then have "y' = (sys_upd y s)\<lparr>sys_procs := (sys_procs y)[k := (reqs, remaining @ [req])]\<rparr>"
        using assms EvTry k p by simp
      then show ?thesis using pend keep by (simp add: sys_simps)
    qed
  qed
next
  case (EvPutBack k)
  then obtain remaining where k: "k < length (sys_procs y)" "sys_procs y ! k = ([], remaining)"
    and y': "y' = (sys_upd y (rs_put_back remaining (sys_rs y)))\<lparr>sys_procs := remove_nth k (sys_procs y)\<rparr>"
    using assms by (cases "sys_procs y ! k"; cases "fst (sys_procs y ! k)") (auto split: if_splits)
  have "mset (rs_pendingQueue (rs_put_back remaining s)) = mset (rs_pendingQueue s) + mset remaining" for s
    by (simp add: rs_put_back_def)
  with procs_remove [OF k(1)] k(2) show ?thesis
    by (simp add: y' sys_simps proc_reqs_def ac_simps)
qed (use assms in \<open>auto simp: sys_simps\<close>)

lemma balance_trans:
  fixes h0 :: "'a multiset"
  assumes "h1 + a0 = h0 + a1" "h2 + a1 = h1 + a2"
  shows "h2 + a0 = h0 + a2"
proof -
  have "h2 + a0 + a1 = (h2 + a1) + a0" by (simp add: ac_simps)
  also have "\<dots> = (h1 + a2) + a0" by (simp add: assms(2))
  also have "\<dots> = (h1 + a0) + a2" by (simp add: ac_simps)
  also have "\<dots> = (h0 + a1) + a2" by (simp add: assms(1))
  also have "\<dots> = h0 + a2 + a1" by (simp add: ac_simps)
  finally show ?thesis by (rule add_right_imp_eq)
qed

lemma rs_run_balance:
  "rs_run evs y = Some y' \<Longrightarrow> sys_held y' + sys_done y' + mset (sys_asked y) = sys_held y + sys_done y + mset (sys_asked y')"
proof (induction evs arbitrary: y)
  case (Cons ev evs)
  then obtain y1 where y1: "rs_step ev y = Some y1" "rs_run evs y1 = Some y'" by (auto split: if_splits option.splits)
  show ?case by (rule balance_trans [OF rs_step_balance [OF y1(1)] Cons.IH [OF y1(2)]])
qed simp


section \<open>Capacity\<close>

definition visit_ok :: "(amounts \<Rightarrow> amounts) \<Rightarrow> bool" where
  "visit_ok visit \<longleftrightarrow> (\<forall>xs. mset (visit xs) = mset xs)"

text \<open>
  Events whose data come from outside in order: a registered resource or a heartbeat does not
  report more in use than there is, loads are in [0, 1], requirements are distinct 64-bit
  numbers that are not negative.
\<close>

fun ev_ok :: "rs_event \<Rightarrow> ResourceScheduler \<Rightarrow> bool" where
  "ev_ok (EvRegister now r) s = (amounts_ok (res_Capacity r) \<and> length (res_Capacity r) \<le> 2 ^ 53 \<and> res_fits r)"
| "ev_ok (EvStatus now i status load) s = f64_unit load"
| "ev_ok (EvHeartbeat now i load used) s =
     (f64_unit load \<and> (used = None \<or>
        (case rs_resources s i of None \<Rightarrow> True | Some r \<Rightarrow> res_fits (r\<lparr>res_Used := used\<rparr>))))"
| "ev_ok (EvAsk t req) s = (visit_ok (at_visit t) \<and> amounts_ok (req_Requirements req))"
| "ev_ok (EvTry k now t) s = visit_ok (at_visit t)"
| "ev_ok _ s = True"

fun rs_valid :: "rs_event list \<Rightarrow> rs_system \<Rightarrow> bool" where
  "rs_valid [] y = True"
| "rs_valid (ev # evs) y =
     (ev_ok ev (sys_rs y) \<and> (case rs_step ev y of None \<Rightarrow> True | Some y' \<Rightarrow> rs_valid evs y'))"

text \<open>A heartbeat that reports what is in use overwrites what the scheduler has counted.\<close>

fun reports_use :: "rs_event \<Rightarrow> bool" where
  "reports_use (EvHeartbeat now i load used) = (used \<noteq> None)"
| "reports_use _ = False"

text \<open>What a list of grants took from a resource, and a table that has grown by that.\<close>

definition granted :: "(ResourceRequest \<times> string) list \<Rightarrow> string \<Rightarrow> ResourceType \<Rightarrow> int" where
  "granted gs i ty = (\<Sum>g\<leftarrow>gs. if snd g = i then required_of (req_Requirements (fst g)) ty else 0)"

definition rs_grows :: "ResourceScheduler \<Rightarrow> ResourceScheduler \<Rightarrow> (ResourceRequest \<times> string) list \<Rightarrow> bool" where
  "rs_grows s s' gs \<longleftrightarrow> (\<forall>i r. rs_resources s i = Some r \<longrightarrow>
     (\<exists>r'. rs_resources s' i = Some r' \<and> res_Capacity r' = res_Capacity r \<and>
        (\<forall>ty. res_used r' ty = res_used r ty + granted gs i ty)))"

lemma granted_simps [simp]:
  "granted [] i ty = 0" "granted (gs @ gs') i ty = granted gs i ty + granted gs' i ty"
  "granted [(q, j)] i ty = (if j = i then required_of (req_Requirements q) ty else 0)"
  by (simp_all add: granted_def)

lemma rs_grows_refl: "rs_resources s' = rs_resources s \<Longrightarrow> rs_grows s s' []"
  by (simp add: rs_grows_def)

lemma rs_grows_trans:
  assumes "rs_grows s s1 gs" "rs_grows s1 s2 gs'"
  shows "rs_grows s s2 (gs @ gs')"
  unfolding rs_grows_def
proof (intro allI impI)
  fix i r assume "rs_resources s i = Some r"
  then obtain r1 where r1: "rs_resources s1 i = Some r1" "res_Capacity r1 = res_Capacity r"
    "\<forall>ty. res_used r1 ty = res_used r ty + granted gs i ty"
    using assms(1) unfolding rs_grows_def by blast
  then obtain r2 where r2: "rs_resources s2 i = Some r2" "res_Capacity r2 = res_Capacity r1"
    "\<forall>ty. res_used r2 ty = res_used r1 ty + granted gs' i ty"
    using assms(2) unfolding rs_grows_def by blast
  show "\<exists>r'. rs_resources s2 i = Some r' \<and> res_Capacity r' = res_Capacity r \<and>
      (\<forall>ty. res_used r' ty = res_used r ty + granted (gs @ gs') i ty)"
    using r1 r2 by (intro exI [of _ r2]) simp
qed

lemma rs_grows_new: "rs_resources s i = None \<Longrightarrow> rs_grows s (rs_set i r s) []"
  by (auto simp: rs_grows_def)

lemma rs_grows_set:
  "rs_resources s i = Some r \<Longrightarrow> res_Capacity r' = res_Capacity r \<Longrightarrow> (\<And>ty. res_used r' ty = res_used r ty) \<Longrightarrow>
   rs_grows s (rs_set i r' s) []"
  by (auto simp: rs_grows_def)

lemma rs_free_good: "rs_inv s \<Longrightarrow> rs_inv (rs_free i s) \<and> rs_grows s (rs_free i s) []"
proof (cases "rs_resources s i")
  case None
  assume "rs_inv s"
  with None show ?thesis by (simp add: rs_free_def rs_grows_refl)
next
  case (Some r)
  assume inv: "rs_inv s"
  note r = rs_inv_lookup [OF inv Some]
  have "rs_inv (rs_set i (release_from r) s)" using r by (intro rs_inv_set [OF inv] release_from_ok) simp_all
  moreover have "rs_grows s (rs_set i (release_from r) s) []" by (rule rs_grows_set [OF Some]) simp_all
  ultimately show ?thesis by (simp add: rs_free_def Some)
qed

lemma rs_table_cong:
  "rs_resources s1 = rs_resources s \<Longrightarrow> rs_inv s \<Longrightarrow> rs_inv s1"
  "rs_resources s1 = rs_resources s \<Longrightarrow> rs_grows s1 s' gs = rs_grows s s' gs"
  by (simp_all add: rs_inv_def rs_grows_def)

lemma rs_checkAllocations_good:
  "rs_inv s \<Longrightarrow> rs_inv (rs_checkAllocations now order s) \<and> rs_grows s (rs_checkAllocations now order s) []"
proof (induction now order s rule: rs_checkAllocations.induct)
  case (2 now i order s)
  show ?case
  proof (cases "\<exists>a. rs_allocations s i = Some a \<and> time_after now (al_Expires a)")
    case True
    then obtain a where a: "rs_allocations s i = Some a" "time_after now (al_Expires a)" by blast
    let ?s0 = "s\<lparr>rs_allocations := (rs_allocations s)(i := None)\<rparr>"
    let ?s1 = "rs_free (al_ResourceID a) ?s0"
    have "rs_inv ?s0" by (rule rs_table_cong(1) [OF _ 2(4)]) simp
    then have f: "rs_inv ?s1" "rs_grows ?s0 ?s1 []" using rs_free_good by blast+
    have "rs_grows s ?s1 []" using f(2) by (simp add: rs_grows_def)
    moreover note 2(2) [OF a f(1)]
    ultimately show ?thesis using a rs_grows_trans [of s ?s1 "[]" _ "[]"] by simp
  next
    case False
    then show ?thesis using 2(1,3,4) by (auto split: option.splits)
  qed
qed (simp add: rs_grows_refl)

lemma rs_try_good:
  assumes inv: "rs_inv s" and t: "rs_tryAllocateResource t req s = (res, s')"
    and ok: "amounts_ok (req_Requirements req)" "visit_ok (at_visit t)"
  shows "rs_inv s' \<and> rs_grows s s' (case res of Inl e \<Rightarrow> [] | Inr a \<Rightarrow> [(req, al_ResourceID a)])"
proof (cases res)
  case (Inl e)
  then have "s' = s" using rs_try_cases [OF inv t] by simp
  then show ?thesis using inv Inl by (simp add: rs_grows_refl)
next
  case (Inr a)
  obtain r where r: "rs_resources s (al_ResourceID a) = Some r" "rs_suits r req"
    and s': "s' = s\<lparr>rs_resources := (rs_resources s)
                (al_ResourceID a \<mapsto> updateResourceAfterAllocation (at_visit t) (req_Requirements req) r),
              rs_allocations := (rs_allocations s)(req_RequestID req \<mapsto> a)\<rparr>"
    using rs_try_cases [OF inv t] Inr by auto
  note good = rs_inv_lookup [OF inv r(1)]
  have enough: "hasEnoughCapacity r (req_Requirements req)" using r(2) by (simp add: rs_suits_def)
  have "res_ok (updateResourceAfterAllocation (at_visit t) (req_Requirements req) r)"
    using good ok by (intro updateResource_ok [OF _ _ enough]) (simp_all add: visit_ok_def)
  then have "rs_inv s'" using inv good by (simp add: s' rs_inv_def)
  moreover have "rs_grows s s' [(req, al_ResourceID a)]"
    using use_amounts_fits [OF _ _ ok(1) enough] good r(1) by (auto simp: rs_grows_def s' res_ok_def)
  ultimately show ?thesis using Inr by simp
qed

definition sys_inv :: "rs_system \<Rightarrow> bool" where
  "sys_inv y \<longleftrightarrow> rs_inv (sys_rs y) \<and> sys_held y + sys_done y = mset (sys_asked y) \<and>
     (\<forall>q \<in> set (sys_asked y). amounts_ok (req_Requirements q))"


lemma sys_step_asked: "rs_step ev y = Some y' \<Longrightarrow> set (sys_asked y') \<subseteq> set (sys_asked y) \<union> (case ev of EvAsk t req \<Rightarrow> {req} | _ \<Rightarrow> {})"
  by (cases ev) (auto simp: sys_simps Let_def split: if_splits option.splits sum.splits prod.splits list.splits attempt_result.splits)

text \<open>A request at the head of a processor has been asked for.\<close>

lemma proc_head_asked:
  assumes k: "k < length (sys_procs y)" "sys_procs y ! k = (req # reqs, remaining)"
    and "sys_held y + sys_done y = mset (sys_asked y)"
  shows "req \<in> set (sys_asked y)"
proof -
  have "(\<Sum>p\<leftarrow>sys_procs y. proc_reqs p) = (\<Sum>p\<leftarrow>remove_nth k (sys_procs y). proc_reqs p) + proc_reqs (req # reqs, remaining)"
    using procs_remove [OF k(1)] k(2) by simp
  then have "req \<in># sys_held y" by (simp add: sys_held_def proc_reqs_def)
  then have "req \<in># mset (sys_asked y)" unfolding assms(3) [symmetric] by simp
  then show ?thesis by simp
qed

lemma res_ok_Status: "res_ok (r\<lparr>res_Status := status\<rparr>) = res_ok r"
  by (simp add: res_ok_def res_fits_def res_used_def)

text \<open>The step on the tables, with the grants it makes.\<close>

lemma rs_step_tables:
  assumes inv: "sys_inv y" and ok: "ev_ok ev (sys_rs y)" and step: "rs_step ev y = Some y'"
  shows "rs_inv (sys_rs y') \<and> (\<exists>gs. sys_grants y' = sys_grants y @ gs \<and>
    (\<not> reports_use ev \<longrightarrow> rs_grows (sys_rs y) (sys_rs y') gs))"
proof -
  let ?s = "sys_rs y"
  have rs: "rs_inv ?s" using inv by (simp add: sys_inv_def)
  have none: "rs_inv (sys_rs y') \<and> (\<exists>gs. sys_grants y' = sys_grants y @ gs \<and> (\<not> reports_use ev \<longrightarrow> rs_grows ?s (sys_rs y') gs))"
    if "sys_grants y' = sys_grants y" "rs_inv (sys_rs y')" "\<not> reports_use ev \<longrightarrow> rs_grows ?s (sys_rs y') []"
    using that by simp
  have same: ?thesis if "sys_grants y' = sys_grants y" "rs_resources (sys_rs y') = rs_resources ?s"
    using rs_table_cong(1) [OF that(2) rs] rs_grows_refl [OF that(2)] that(1) by (intro none) simp_all
  have try_ok: ?thesis
    if t: "rs_tryAllocateResource t req ?s = (res, sys_rs y')" "amounts_ok (req_Requirements req)" "visit_ok (at_visit t)"
      "sys_grants y' = sys_grants y @ (case res of Inl e \<Rightarrow> [] | Inr a \<Rightarrow> [(req, al_ResourceID a)])" for t req res
    using rs_try_good [OF rs t(1-3)] t(4) by blast
  show ?thesis
  proof (cases ev)
    case (EvRegister now r)
    show ?thesis
    proof (cases "rs_resources ?s (res_ID r)")
      case None
      let ?r = "r\<lparr>res_Status := ResourceStatusAvailable, res_Load := Fin 0, res_LastHeartbeat := now\<rparr>"
      have y': "sys_rs y' = rs_set (res_ID r) ?r ?s" "sys_grants y' = sys_grants y"
        using step EvRegister None by (auto simp: sys_simps rs_RegisterResource_def)
      have "res_ok ?r" using ok EvRegister by (simp add: res_ok_def f64_unit_def res_fits_def res_used_def)
      then have "rs_inv (sys_rs y')" unfolding y' by (intro rs_inv_set rs) simp_all
      then show ?thesis using y' rs_grows_new [OF None] by (intro none) simp_all
    qed (rule same; use step EvRegister in \<open>auto simp: sys_simps rs_RegisterResource_def\<close>)
  next
    case (EvStatus now i status load)
    show ?thesis
    proof (cases "rs_resources ?s i")
      case (Some r)
      let ?r = "r\<lparr>res_Status := status, res_Load := load, res_LastHeartbeat := now\<rparr>"
      have y': "sys_rs y' = rs_set i ?r ?s" "sys_grants y' = sys_grants y"
        using step EvStatus Some by (auto simp: sys_simps rs_UpdateResourceStatus_def)
      have "res_ok ?r" using ok EvStatus rs_inv_lookup [OF rs Some] by (simp add: res_ok_def res_fits_def res_used_def)
      then have "rs_inv (sys_rs y')" unfolding y' by (intro rs_inv_set rs) (simp_all add: rs_inv_lookup [OF rs Some])
      moreover have "rs_grows ?s (sys_rs y') []" unfolding y' by (rule rs_grows_set [OF Some]) (simp_all add: res_used_def)
      ultimately show ?thesis using y' by (intro none) simp_all
    qed (rule same; use step EvStatus in \<open>auto simp: sys_simps rs_UpdateResourceStatus_def\<close>)
  next
    case (EvHeartbeat now i load used)
    show ?thesis
    proof (cases "rs_resources ?s i")
      case (Some r)
      let ?r0 = "r\<lparr>res_LastHeartbeat := now, res_Load := load\<rparr>"
      let ?r = "if used \<noteq> None then ?r0\<lparr>res_Used := used\<rparr> else ?r0"
      have y': "sys_rs y' = rs_set i ?r ?s" "sys_grants y' = sys_grants y"
        using step EvHeartbeat Some by (auto simp: sys_simps rs_Heartbeat_def Let_def)
      have "res_ok ?r" using ok EvHeartbeat rs_inv_lookup [OF rs Some] Some
        by (auto simp: res_ok_def res_fits_def res_used_def)
      then have "rs_inv (sys_rs y')" unfolding y' by (intro rs_inv_set rs) (simp_all add: rs_inv_lookup [OF rs Some])
      moreover have "\<not> reports_use ev \<longrightarrow> rs_grows ?s (sys_rs y') []" unfolding y' EvHeartbeat
        by (intro impI rs_grows_set [OF Some]) (simp_all add: res_used_def)
      ultimately show ?thesis using y' by (intro none) simp_all
    qed (rule same; use step EvHeartbeat in \<open>auto simp: sys_simps rs_Heartbeat_def\<close>)
  next
    case (EvAsk t req)
    obtain res s where t: "rs_tryAllocateResource t req ?s = (res, s)" by force
    have "sys_rs y' = s" "sys_grants y' = sys_grants y @ (case res of Inl e \<Rightarrow> [] | Inr a \<Rightarrow> [(req, al_ResourceID a)])"
      using step EvAsk t by (auto simp: sys_simps Let_def split: sum.splits)
    then show ?thesis using t ok EvAsk by (intro try_ok [of t req res]) simp_all
  next
    case (EvQueue k)
    then show ?thesis using step by (intro same) (auto simp: sys_simps rs_enqueue_def split: if_splits)
  next
    case (EvRelease i)
    show ?thesis
    proof (cases "rs_allocations ?s i")
      case (Some a)
      let ?s0 = "?s\<lparr>rs_allocations := (rs_allocations ?s)(i := None)\<rparr>"
      have y': "sys_rs y' = rs_free (al_ResourceID a) ?s0" "sys_grants y' = sys_grants y"
        using step EvRelease Some by (auto simp: sys_simps rs_ReleaseResource_def)
      have "rs_inv ?s0" by (rule rs_table_cong(1) [OF _ rs]) simp
      then have "rs_inv (sys_rs y')" "rs_grows ?s0 (sys_rs y') []" unfolding y' using rs_free_good by blast+
      then show ?thesis using y'(2) by (intro none) (simp_all add: rs_grows_def)
    qed (rule same; use step EvRelease in \<open>auto simp: sys_simps rs_ReleaseResource_def\<close>)
  next
    case EvTake
    then show ?thesis using step by (intro same) (auto simp: sys_simps rs_take_queue_def split: if_splits)
  next
    case (EvTry k now t)
    then obtain req reqs remaining where k: "k < length (sys_procs y)" "sys_procs y ! k = (req # reqs, remaining)"
      using step by (cases "sys_procs y ! k"; cases "fst (sys_procs y ! k)") (auto split: if_splits)
    have "req \<in> set (sys_asked y)"
      using inv by (intro proc_head_asked [OF k]) (simp add: sys_inv_def)
    then have req: "amounts_ok (req_Requirements req)" using inv by (simp add: sys_inv_def)
    show ?thesis
    proof (cases "rs_process_one now t req ?s")
      case None
      then show ?thesis using step EvTry k by (intro same) auto
    next
      case (Some p)
      then obtain res s where p: "rs_process_one now t req ?s = Some (res, s)" by (cases p) auto
      note out = rs_process_one_cases(2) [OF p]
      show ?thesis
      proof (cases res)
        case TimedOut
        then show ?thesis using step EvTry k p out by (intro same) (auto simp: sys_simps)
      next
        case (Granted a)
        then show ?thesis using step EvTry k p out ok req by (intro try_ok [of t req "Inr a"]) (auto simp: sys_simps)
      next
        case StillWaiting
        then obtain e where "rs_tryAllocateResource t req ?s = (Inl e, s)" using out by auto
        then show ?thesis using step EvTry k p StillWaiting ok req by (intro try_ok [of t req "Inl e"]) (auto simp: sys_simps)
      qed
    qed
  next
    case (EvPutBack k)
    then show ?thesis using step
      by (intro same) (auto simp: sys_simps rs_put_back_def split: if_splits list.splits prod.splits)
  next
    case (EvCheckStatus now)
    then have y': "sys_rs y' = rs_checkResourceStatus now ?s" "sys_grants y' = sys_grants y" using step by (auto simp: sys_simps)
    have "rs_inv (sys_rs y')" using rs
      by (auto simp: y' rs_inv_def rs_checkResourceStatus_def res_ok_Status)
    moreover have "rs_grows ?s (sys_rs y') []" by (auto simp: y' rs_grows_def rs_checkResourceStatus_def res_used_def)
    ultimately show ?thesis using y' by (intro none) simp_all
  next
    case (EvCheckAllocations now order)
    then have "sys_rs y' = rs_checkAllocations now order ?s" "sys_grants y' = sys_grants y" using step by (auto simp: sys_simps)
    then show ?thesis using rs_checkAllocations_good [OF rs] by (intro none) simp_all
  next
    case (EvCheckScaling now now' order)
    then show ?thesis using step
      by (intro same) (auto simp: sys_simps rs_checkAutoScaling_def Let_def split: if_splits prod.splits)
  qed
qed


lemma rs_step_inv:
  assumes "sys_inv y" and "ev_ok ev (sys_rs y)" and "rs_step ev y = Some y'"
  shows "sys_inv y'"
proof -
  have "sys_held y + sys_done y = mset (sys_asked y)" using assms(1) by (simp add: sys_inv_def)
  with rs_step_balance [OF assms(3)] have "sys_held y' + sys_done y' = mset (sys_asked y')"
    by (metis add.commute add_right_imp_eq)
  moreover have "\<forall>q \<in> set (sys_asked y'). amounts_ok (req_Requirements q)"
  proof
    fix q assume "q \<in> set (sys_asked y')"
    then have "q \<in> set (sys_asked y) \<or> (\<exists>t. ev = EvAsk t q)"
      using sys_step_asked [OF assms(3)] by (auto split: rs_event.splits)
    then show "amounts_ok (req_Requirements q)" using assms(1,2) by (auto simp: sys_inv_def)
  qed
  ultimately show ?thesis using rs_step_tables [OF assms] by (simp add: sys_inv_def)
qed

lemma rs_run_good:
  "rs_run evs y = Some y' \<Longrightarrow> sys_inv y \<Longrightarrow> rs_valid evs y \<Longrightarrow>
   sys_inv y' \<and> (\<exists>gs. sys_grants y' = sys_grants y @ gs \<and>
     ((\<forall>ev \<in> set evs. \<not> reports_use ev) \<longrightarrow> rs_grows (sys_rs y) (sys_rs y') gs))"
proof (induction evs arbitrary: y)
  case (Cons ev evs)
  then obtain y1 where y1: "rs_step ev y = Some y1" "rs_run evs y1 = Some y'" by (auto split: if_splits option.splits)
  have ok: "ev_ok ev (sys_rs y)" "rs_valid evs y1" using Cons.prems(3) y1(1) by simp_all
  obtain gs1 where gs1: "sys_grants y1 = sys_grants y @ gs1"
    "\<not> reports_use ev \<longrightarrow> rs_grows (sys_rs y) (sys_rs y1) gs1"
    using rs_step_tables [OF Cons.prems(2) ok(1) y1(1)] by blast
  obtain gs2 where gs2: "sys_inv y'" "sys_grants y' = sys_grants y1 @ gs2"
    "(\<forall>ev \<in> set evs. \<not> reports_use ev) \<longrightarrow> rs_grows (sys_rs y1) (sys_rs y') gs2"
    using Cons.IH [OF y1(2) rs_step_inv [OF Cons.prems(2) ok(1) y1(1)] ok(2)] by blast
  have "(\<forall>e \<in> set (ev # evs). \<not> reports_use e) \<longrightarrow> rs_grows (sys_rs y) (sys_rs y') (gs1 @ gs2)"
    using gs1(2) gs2(3) by (auto intro: rs_grows_trans)
  then show ?case using gs1(1) gs2(1,2) by (intro conjI exI [of _ "gs1 @ gs2"]) simp_all
qed (simp add: rs_grows_refl)

lemma sys_inv_init: "sys_inv (sys_init cfg)"
  by (simp add: sys_inv_def sys_init_def rs_inv_def NewResourceScheduler_def sys_held_def sys_done_def)


section \<open>Panics\<close>

lemma rs_step_panic:
  assumes "rs_step ev y = Some y'" "\<not> sys_panicked y" "sys_panicked y'" "sys_held y + sys_done y = mset (sys_asked y)"
  shows "\<exists>q \<in> set (sys_asked y'). 0 < req_Timeout q \<and> req_queuedAt q = None"
proof (cases "\<exists>k now t. ev = EvTry k now t")
  case True
  then obtain k now t where ev: "ev = EvTry k now t" by blast
  then obtain req reqs remaining where k: "k < length (sys_procs y)" "sys_procs y ! k = (req # reqs, remaining)"
    using assms(1) by (cases "sys_procs y ! k"; cases "fst (sys_procs y ! k)") (auto split: if_splits)
  have none: "rs_process_one now t req (sys_rs y) = None"
  proof (rule ccontr)
    assume "rs_process_one now t req (sys_rs y) \<noteq> None"
    then have "sys_panicked y' = sys_panicked y"
      using assms(1) ev k by (auto simp: sys_simps split: attempt_result.splits)
    with assms(2,3) show False by simp
  qed
  then have "0 < req_Timeout req" "req_queuedAt req = None"
    by (auto simp: rs_process_one_def Let_def split: if_splits option.splits sum.splits prod.splits)
  moreover have "req \<in> set (sys_asked y')"
    using proc_head_asked [OF k assms(4)] assms(1) ev k none by (auto simp: sys_simps)
  ultimately show ?thesis by blast
next
  case False
  then have "sys_panicked y' = sys_panicked y"
    using assms(1) by (cases ev) (auto simp: sys_simps Let_def split: if_splits sum.splits prod.splits list.splits)
  with assms(2,3) show ?thesis by simp
qed

lemma rs_run_panic:
  "rs_run evs y = Some y' \<Longrightarrow> \<not> sys_panicked y \<Longrightarrow> sys_panicked y' \<Longrightarrow> sys_held y + sys_done y = mset (sys_asked y) \<Longrightarrow>
   \<exists>q \<in> set (sys_asked y'). 0 < req_Timeout q \<and> req_queuedAt q = None"
proof (induction evs arbitrary: y)
  case (Cons ev evs)
  then obtain y1 where y1: "rs_step ev y = Some y1" "rs_run evs y1 = Some y'" by (auto split: if_splits option.splits)
  show ?case
  proof (cases "sys_panicked y1")
    case True
    then have "y' = y1" using y1(2) by (cases evs) simp_all
    then show ?thesis using rs_step_panic [OF y1(1) Cons.prems(2) True Cons.prems(4)] by simp
  next
    case False
    have "sys_held y1 + sys_done y1 = mset (sys_asked y1)"
      using rs_step_balance [OF y1(1)] Cons.prems(4) by (metis add.commute add_right_imp_eq)
    then show ?thesis using Cons.IH [OF y1(2) False Cons.prems(3)] by blast
  qed
qed simp

lemma rs_process_loop_panic:
  "\<exists>q \<in> set reqs. 0 < req_Timeout q \<and> req_queuedAt q = None \<Longrightarrow> rs_process_loop ts reqs remaining s = None"
proof (induction ts reqs remaining s rule: rs_process_loop.induct)
  case (2 ts req reqs remaining s)
  show ?case
  proof (cases "0 < req_Timeout req \<and> req_queuedAt req = None")
    case True
    then show ?thesis by (simp add: rs_process_one_def)
  next
    case False
    then have "\<exists>q \<in> set reqs. 0 < req_Timeout q \<and> req_queuedAt q = None" using 2(4) by auto
    then show ?thesis using 2(1-3) by (auto split: option.split prod.split attempt_result.split)
  qed
qed simp


section \<open>Properties\<close>

text \<open>
  On tables in order an attempt fails only if no resource visited suits the
  request, and then changes nothing. Otherwise it takes a resource that suits it, no visited
  one that suits it having a lower load, and records the allocation under the request's
  identifier: a resource whose load is 1 is still found, the search starting above every load.
\<close>

theorem rs_allocates_least_loaded:
  assumes "rs_inv s" and "rs_tryAllocateResource t req s = (res, s')"
  shows "case res of
      Inl e \<Rightarrow> s' = s \<and> (\<forall>i r. i \<in> set (at_order t) \<and> rs_resources s i = Some r \<longrightarrow> \<not> rs_suits r req)
    | Inr a \<Rightarrow> rs_GetAllocation (req_RequestID req) s' = Inr a \<and> al_RequestID a = req_RequestID req \<and>
        (\<exists>r. rs_resources s (al_ResourceID a) = Some r \<and> rs_suits r req \<and> al_Endpoint a = res_Endpoint r \<and>
          (\<forall>i r'. i \<in> set (at_order t) \<and> rs_resources s i = Some r' \<and> rs_suits r' req \<longrightarrow>
             \<not> f64_less (res_Load r') (res_Load r)))"
proof (cases res)
  case (Inl e)
  then show ?thesis using rs_try_cases [OF assms] by simp
next
  case (Inr a)
  obtain i where i: "rs_best_loop req (rs_resources s) (at_order t) (round64 (11 / 10)) None = Some i"
    using assms(2) Inr by (auto simp: rs_tryAllocateResource_def split: option.splits)
  obtain r where r: "rs_resources s (al_ResourceID a) = Some r" "rs_suits r req"
    "rs_allocations s' = (rs_allocations s)(req_RequestID req \<mapsto> a)"
    "\<forall>i r'. i \<in> set (at_order t) \<and> rs_resources s i = Some r' \<and> rs_suits r' req \<longrightarrow> \<not> f64_less (res_Load r') (res_Load r)"
    using rs_try_cases [OF assms] Inr by auto
  obtain l where "rs_best_so_far req (rs_resources s) l (Some i)"
  proof -
    obtain c where c: "round64 (11 / 10) = Fin c" "1 < c" using lowest_start by blast
    have "\<exists>v. res_Load r = Fin v \<and> v \<le> 1" if "rs_resources s j = Some r" for j r
      using rs_inv_lookup [OF assms(1) that] by (auto simp: res_ok_def elim: f64_unitE)
    then have "\<exists>l. rs_best_so_far req (rs_resources s) l (rs_best_loop req (rs_resources s) (at_order t) (Fin c) None) \<and>
        l \<le> c \<and> list_all (rs_at_least req (rs_resources s) l) (at_order t)"
      by (intro rs_best_loop_cases) (simp_all add: rs_best_so_far_def c(2))
    with that i c(1) show ?thesis by auto
  qed
  then obtain b where b: "rs_resources s i = Some b" by (auto simp: rs_best_so_far_def)
  have a: "al_RequestID a = req_RequestID req" "al_ResourceID a = res_ID b" "al_Endpoint a = res_Endpoint b"
    using assms(2) Inr i b by (auto simp: rs_tryAllocateResource_def Let_def)
  moreover have "b = r" using r(1) b a(2) rs_inv_lookup [OF assms(1) b] by simp
  ultimately show ?thesis using r Inr by (auto simp: rs_GetAllocation_def)
qed

definition sample_resource :: "string \<Rightarrow> float64 \<Rightarrow> Resource" where
  "sample_resource i load = \<lparr>res_ID = i, res_Name = i, res_Type = ''gpt'', res_Capabilities = [],
     res_Status = ResourceStatusAvailable, res_Load = load, res_Capacity = [(''gpu'', 4)], res_Used = None,
     res_Endpoint = ''http'', res_LastHeartbeat = 0, res_Metadata = None\<rparr>"

definition sample_request :: "int \<Rightarrow> duration \<Rightarrow> ResourceRequest" where
  "sample_request p timeout = \<lparr>req_RequestID = ''q'', req_ModelType = ''gpt'', req_Requirements = [(''gpu'', 3)],
     req_Priority = p, req_Timeout = timeout, req_Capabilities = [], req_Metadata = None\<rparr>"

definition sample_attempt :: "string list \<Rightarrow> attempt" where
  "sample_attempt order = \<lparr>at_fmt = (\<lambda>_. ''t''), at_visit = (\<lambda>xs. xs), at_order = order,
     at_allocated = 1, at_expires = 2, at_token = 3\<rparr>"

definition sample_table :: ResourceScheduler where
  "sample_table = (NewResourceScheduler (cf_Scheduler GetDefaultConfig))
     \<lparr>rs_resources := [''a'' \<mapsto> sample_resource ''a'' (Fin 1), ''b'' \<mapsto> sample_resource ''b'' (Fin (1 / 2))]\<rparr>"

lemma sample_table_inv: "rs_inv sample_table"
  by (auto simp: rs_inv_def sample_table_def sample_resource_def res_ok_def amounts_ok_def res_fits_def res_used_def
      max_int64_def f64_unit_def split: if_splits)

lemma sample_suits: "rs_suits (sample_resource i load) (sample_request p timeout)"
  by (simp add: rs_suits_def sample_resource_def sample_request_def hasRequiredCapabilities_def hasEnoughCapacity_def
      res_used_def wrap64_def)

theorem rs_allocates_least_loaded_witness:
  "case rs_tryAllocateResource (sample_attempt [''a'', ''b'']) (sample_request 0 0) sample_table of
     (Inr a, s') \<Rightarrow> al_ResourceID a = ''b'' \<and> rs_GetAllocation ''q'' s' = Inr a
   | _ \<Rightarrow> False"
proof -
  obtain res s' where t: "rs_tryAllocateResource (sample_attempt [''a'', ''b'']) (sample_request 0 0) sample_table = (res, s')"
    by force
  have suits: "rs_resources sample_table ''b'' = Some (sample_resource ''b'' (Fin (1 / 2)))"
    "rs_suits (sample_resource ''b'' (Fin (1 / 2))) (sample_request 0 0)"
    by (simp_all add: sample_table_def sample_suits)
  have order: "''b'' \<in> set (at_order (sample_attempt [''a'', ''b'']))" by (simp add: sample_attempt_def)
  note best = rs_allocates_least_loaded [OF sample_table_inv t]
  show ?thesis
  proof (cases res)
    case (Inl e)
    with best suits order show ?thesis by auto
  next
    case (Inr a)
    obtain r where r: "rs_resources sample_table (al_ResourceID a) = Some r"
      and all: "\<forall>i r'. i \<in> set (at_order (sample_attempt [''a'', ''b''])) \<and> rs_resources sample_table i = Some r' \<and>
        rs_suits r' (sample_request 0 0) \<longrightarrow> \<not> f64_less (res_Load r') (res_Load r)"
      using best Inr by auto
    have "\<not> f64_less (res_Load (sample_resource ''b'' (Fin (1 / 2)))) (res_Load r)" using all order suits by blast
    then have "al_ResourceID a = ''b''" using r by (auto simp: sample_table_def sample_resource_def split: if_splits)
    then show ?thesis using best Inr t by (simp add: sample_request_def)
  qed
qed

text \<open>
  C28 (capacity). In every interleaving of requests, releases, processors and the monitor, as
  long as what is reported from outside is in order, no resource has more in use than its
  capacity, in any of its types, nor less than nothing, and its load is a number in [0, 1]:
  the check and the update, in 64-bit and binary64 arithmetic, never overcommit.
\<close>

theorem rs_capacity_safe:
  assumes "rs_run evs (sys_init cfg) = Some y" and "rs_valid evs (sys_init cfg)"
    and "rs_resources (sys_rs y) i = Some r" and "(ty, capacity) \<in> set (res_Capacity r)"
  shows "0 \<le> res_used r ty \<and> res_used r ty \<le> capacity \<and> f64_unit (res_Load r) \<and> res_ID r = i"
proof -
  have "rs_inv (sys_rs y)" using rs_run_good [OF assms(1) sys_inv_init assms(2)] by (simp add: sys_inv_def)
  from rs_inv_lookup [OF this assms(3)] assms(4) show ?thesis by (auto simp: res_ok_def res_fits_def)
qed

definition sample_events :: "rs_event list" where
  "sample_events = [EvRegister 0 (sample_resource ''a'' (Fin 0)), EvAsk (sample_attempt [''a'']) (sample_request 0 0),
     EvRelease ''q'']"

definition sample_sys :: rs_system where
  "sample_sys = the (rs_run sample_events (sys_init (cf_Scheduler GetDefaultConfig)))"

lemma sample_registered:
  "sample_resource ''a'' (Fin 0)\<lparr>res_Status := ResourceStatusAvailable, res_Load := Fin 0, res_LastHeartbeat := 0\<rparr> =
   sample_resource ''a'' (Fin 0)"
  by (simp add: sample_resource_def)

lemma sample_granted:
  "\<exists>s. rs_tryAllocateResource (sample_attempt [''a'']) (sample_request 0 0)
     (rs_set ''a'' (sample_resource ''a'' (Fin 0)) (NewResourceScheduler cfg)) =
   (Inr \<lparr>al_RequestID = ''q'', al_ResourceID = ''a'', al_Endpoint = ''http'', al_Allocated = 1,
         al_Expires = 2, al_Token = ''q-a-t''\<rparr>, s) \<and>
   rs_resources s = [''a'' \<mapsto> updateResourceAfterAllocation (\<lambda>xs. xs) [(''gpu'', 3)] (sample_resource ''a'' (Fin 0))] \<and>
   rs_allocations s = [''q'' \<mapsto> \<lparr>al_RequestID = ''q'', al_ResourceID = ''a'', al_Endpoint = ''http'', al_Allocated = 1,
         al_Expires = 2, al_Token = ''q-a-t''\<rparr>]"
proof -
  obtain c where c: "round64 (11 / 10) = Fin c" "1 < c" using lowest_start by blast
  have "0 < c" using c(2) by linarith
  then have less: "f64_less (res_Load (sample_resource ''a'' (Fin 0))) (Fin c)" by (simp add: sample_resource_def)
  have att: "at_order (sample_attempt [''a'']) = [''a'']" "at_visit (sample_attempt [''a'']) = (\<lambda>xs. xs)"
    "at_fmt (sample_attempt [''a'']) = (\<lambda>_. ''t'')" "at_allocated (sample_attempt [''a'']) = 1"
    "at_expires (sample_attempt [''a'']) = 2"
    by (simp_all add: sample_attempt_def)
  have req: "req_RequestID (sample_request 0 0) = ''q''" "req_Requirements (sample_request 0 0) = [(''gpu'', 3)]"
    "req_Timeout (sample_request 0 0) = 0"
    by (simp_all add: sample_request_def)
  have res: "res_ID (sample_resource ''a'' (Fin 0)) = ''a''" "res_Endpoint (sample_resource ''a'' (Fin 0)) = ''http''"
    by (simp_all add: sample_resource_def)
  show ?thesis
    by (simp add: rs_tryAllocateResource_def att req res c(1) less sample_suits Let_def time_add_def
        generateAllocationToken_def NewResourceScheduler_def)
qed


definition sample_used :: Resource where
  "sample_used = updateResourceAfterAllocation (\<lambda>xs. xs) [(''gpu'', 3)] (sample_resource ''a'' (Fin 0))"

lemma sample_used_amount: "res_used sample_used ''gpu'' = 3" "res_Capacity sample_used = [(''gpu'', 4)]"
  by (simp_all add: sample_used_def) (simp_all add: sample_resource_def res_used_def wrap64_def)

definition sample_start :: rs_system where
  "sample_start = (sys_init (cf_Scheduler GetDefaultConfig))
     \<lparr>sys_rs := rs_set ''a'' (sample_resource ''a'' (Fin 0)) (NewResourceScheduler (cf_Scheduler GetDefaultConfig))\<rparr>"

lemma sample_register:
  "rs_run [EvRegister 0 (sample_resource ''a'' (Fin 0))] (sys_init (cf_Scheduler GetDefaultConfig)) = Some sample_start"
  "rs_valid [EvRegister 0 (sample_resource ''a'' (Fin 0))] (sys_init (cf_Scheduler GetDefaultConfig))"
proof -
  let ?a = "sample_resource ''a'' (Fin 0)"
  have "res_ID ?a = ''a''" "rs_resources (NewResourceScheduler cfg) ''a'' = None" for cfg
    by (simp_all add: sample_resource_def NewResourceScheduler_def)
  then show "rs_run [EvRegister 0 ?a] (sys_init (cf_Scheduler GetDefaultConfig)) = Some sample_start"
    by (simp add: sys_init_def rs_RegisterResource_def sample_registered sys_upd_def sample_start_def)
  have "amounts_ok (res_Capacity ?a)" "length (res_Capacity ?a) \<le> 2 ^ 53" "res_fits ?a"
    by (simp_all add: sample_resource_def amounts_ok_def res_fits_def res_used_def max_int64_def)
  then show "rs_valid [EvRegister 0 ?a] (sys_init (cf_Scheduler GetDefaultConfig))" by (simp split: option.split)
qed

lemma sample_ask_release:
  "\<exists>y. rs_run [EvAsk (sample_attempt [''a'']) (sample_request 0 0), EvRelease ''q''] sample_start = Some y \<and>
     rs_resources (sys_rs y) = [''a'' \<mapsto> release_from sample_used] \<and> sys_grants y = [(sample_request 0 0, ''a'')] \<and>
     sys_asked y = [sample_request 0 0]"
  "rs_valid [EvAsk (sample_attempt [''a'']) (sample_request 0 0), EvRelease ''q''] sample_start"
proof -
  let ?al = "\<lparr>al_RequestID = ''q'', al_ResourceID = ''a'', al_Endpoint = ''http'', al_Allocated = 1,
         al_Expires = 2, al_Token = ''q-a-t''\<rparr>"
  obtain s where s: "rs_tryAllocateResource (sample_attempt [''a'']) (sample_request 0 0) (sys_rs sample_start) = (Inr ?al, s)"
    "rs_resources s = [''a'' \<mapsto> sample_used]" "rs_allocations s = [''q'' \<mapsto> ?al]"
    using sample_granted [of "cf_Scheduler GetDefaultConfig"] by (auto simp: sample_start_def sample_used_def)
  have flags: "sys_panicked sample_start = False" "sys_grants sample_start = []" "sys_asked sample_start = []"
    by (simp_all add: sample_start_def sys_init_def)
  show "\<exists>y. rs_run [EvAsk (sample_attempt [''a'']) (sample_request 0 0), EvRelease ''q''] sample_start = Some y \<and>
     rs_resources (sys_rs y) = [''a'' \<mapsto> release_from sample_used] \<and> sys_grants y = [(sample_request 0 0, ''a'')] \<and>
     sys_asked y = [sample_request 0 0]"
    by (simp add: s flags sys_grant_def sys_upd_def Let_def rs_ReleaseResource_def rs_free_def)
  have "amounts_ok (req_Requirements (sample_request 0 0))" "visit_ok (at_visit (sample_attempt [''a'']))"
    by (simp_all add: sample_request_def sample_attempt_def amounts_ok_def visit_ok_def max_int64_def)
  then show "rs_valid [EvAsk (sample_attempt [''a'']) (sample_request 0 0), EvRelease ''q''] sample_start"
    by (simp split: option.split)
qed

theorem rs_capacity_safe_witness:
  "res_used (sample_resource ''a'' (Fin 0)) ''gpu'' \<le> 4 \<and> f64_unit (res_Load (sample_resource ''a'' (Fin 0)))"
proof -
  have "rs_resources (sys_rs sample_start) ''a'' = Some (sample_resource ''a'' (Fin 0))" by (simp add: sample_start_def)
  moreover have "(''gpu'', 4) \<in> set (res_Capacity (sample_resource ''a'' (Fin 0)))" by (simp add: sample_resource_def)
  ultimately show ?thesis using rs_capacity_safe [OF sample_register] by blast
qed

text \<open>
  C18 (capacity is never given back). From any reachable state on, however many allocations are
  released or expire: unless a heartbeat reports what is in use, all that is granted from a
  resource ever after, in any of its types, fits into what was free at the start, and stays in
  use. The halved load of a release does not make room.
\<close>

theorem rs_grants_bounded:
  assumes "rs_run evs0 (sys_init cfg) = Some y" and "rs_valid evs0 (sys_init cfg)"
    and "rs_run evs y = Some y'" and "rs_valid evs y" and "\<forall>ev \<in> set evs. \<not> reports_use ev"
    and "rs_resources (sys_rs y) i = Some r" and "(ty, capacity) \<in> set (res_Capacity r)"
  shows "\<exists>gs r'. sys_grants y' = sys_grants y @ gs \<and> rs_resources (sys_rs y') i = Some r' \<and>
    res_used r' ty = res_used r ty + granted gs i ty \<and> granted gs i ty \<le> capacity - res_used r ty"
proof -
  have "sys_inv y" using rs_run_good [OF assms(1) sys_inv_init assms(2)] by blast
  from rs_run_good [OF assms(3) this assms(4)] obtain gs where
    gs: "sys_inv y'" "sys_grants y' = sys_grants y @ gs" "rs_grows (sys_rs y) (sys_rs y') gs"
    using assms(5) by blast
  then obtain r' where r': "rs_resources (sys_rs y') i = Some r'" "res_Capacity r' = res_Capacity r"
    "res_used r' ty = res_used r ty + granted gs i ty"
    using assms(6) unfolding rs_grows_def by blast
  have "res_ok r'" using gs(1) rs_inv_lookup [OF _ r'(1)] by (simp add: sys_inv_def)
  then have "res_used r' ty \<le> capacity" using r'(2) assms(7) by (auto simp: res_ok_def res_fits_def)
  with gs(2) r' show ?thesis by (intro exI [of _ gs] exI [of _ r']) simp
qed

theorem rs_grants_bounded_witness:
  "\<exists>y gs r'. rs_run [EvAsk (sample_attempt [''a'']) (sample_request 0 0), EvRelease ''q''] sample_start = Some y \<and>
     sys_grants y = gs \<and> rs_resources (sys_rs y) ''a'' = Some r' \<and> res_used r' ''gpu'' = granted gs ''a'' ''gpu'' \<and>
     granted gs ''a'' ''gpu'' = 3"
proof -
  obtain y where y: "rs_run [EvAsk (sample_attempt [''a'']) (sample_request 0 0), EvRelease ''q''] sample_start = Some y"
    "sys_grants y = [(sample_request 0 0, ''a'')]"
    using sample_ask_release(1) by blast
  have "rs_resources (sys_rs sample_start) ''a'' = Some (sample_resource ''a'' (Fin 0))" by (simp add: sample_start_def)
  moreover have "(''gpu'', 4) \<in> set (res_Capacity (sample_resource ''a'' (Fin 0)))" by (simp add: sample_resource_def)
  moreover have "sys_grants sample_start = []" by (simp add: sample_start_def sys_init_def)
  ultimately obtain r' where "rs_resources (sys_rs y) ''a'' = Some r'"
    "res_used r' ''gpu'' = res_used (sample_resource ''a'' (Fin 0)) ''gpu'' + granted (sys_grants y) ''a'' ''gpu''"
    using rs_grants_bounded [OF sample_register y(1) sample_ask_release(2)] by fastforce
  then show ?thesis using y
    by (intro exI [of _ y] exI [of _ "sys_grants y"] exI [of _ r'])
      (simp add: sample_resource_def res_used_def granted_def required_of_def sample_request_def)
qed

text \<open>
  C19 (no request lost). In every interleaving each request that was made is, exactly once,
  granted, timed out, waiting in the queue, held by its caller before it is queued, or held by
  a processor; and the program can only panic on a request with a positive timeout whose
  metadata has no time under \<^verbatim>\<open>queuedAt\<close>.
\<close>

theorem rs_requests_conserved:
  assumes "rs_run evs (sys_init cfg) = Some y"
  shows "mset (sys_asked y) = mset (map fst (sys_grants y)) + mset (sys_timedout y) +
      mset (rs_pendingQueue (sys_rs y)) + mset (sys_callers y) +
      (\<Sum>(reqs, remaining)\<leftarrow>sys_procs y. mset reqs + mset remaining) \<and>
    (sys_panicked y \<longrightarrow> (\<exists>q \<in> set (sys_asked y). 0 < req_Timeout q \<and> req_queuedAt q = None))"
proof
  have b: "sys_held (sys_init cfg) + sys_done (sys_init cfg) = mset (sys_asked (sys_init cfg))"
    using sys_inv_init [of cfg] by (simp add: sys_inv_def)
  have "sys_held y + sys_done y + mset (sys_asked (sys_init cfg)) =
      mset (sys_asked (sys_init cfg)) + mset (sys_asked y)"
    using rs_run_balance [OF assms] b by simp
  then have eq: "mset (sys_asked y) = sys_held y + sys_done y" by (metis add.commute add_right_imp_eq)
  have sum: "(\<Sum>(reqs, remaining)\<leftarrow>sys_procs y. mset reqs + mset remaining) = (\<Sum>p\<leftarrow>sys_procs y. proc_reqs p)"
    by (rule arg_cong [where f = "\<lambda>f. sum_list (map f (sys_procs y))"]) (auto simp: fun_eq_iff proc_reqs_def)
  show "mset (sys_asked y) = mset (map fst (sys_grants y)) + mset (sys_timedout y) +
      mset (rs_pendingQueue (sys_rs y)) + mset (sys_callers y) +
      (\<Sum>(reqs, remaining)\<leftarrow>sys_procs y. mset reqs + mset remaining)"
    unfolding eq sum by (simp add: sys_held_def sys_done_def)
  show "sys_panicked y \<longrightarrow> (\<exists>q \<in> set (sys_asked y). 0 < req_Timeout q \<and> req_queuedAt q = None)"
    using rs_run_panic [OF assms _ _ b] by (auto simp: sys_init_def)
qed

theorem rs_requests_conserved_witness:
  "\<exists>y. rs_run sample_events (sys_init (cf_Scheduler GetDefaultConfig)) = Some y \<and> sys_asked y = [sample_request 0 0] \<and>
     mset (sys_asked y) = mset (map fst (sys_grants y)) + mset (sys_timedout y) +
      mset (rs_pendingQueue (sys_rs y)) + mset (sys_callers y) +
      (\<Sum>(reqs, remaining)\<leftarrow>sys_procs y. mset reqs + mset remaining)"
proof -
  obtain y where y: "rs_run [EvAsk (sample_attempt [''a'']) (sample_request 0 0), EvRelease ''q''] sample_start = Some y"
    "sys_asked y = [sample_request 0 0]"
    using sample_ask_release(1) by blast
  have "rs_run sample_events (sys_init (cf_Scheduler GetDefaultConfig)) = Some y"
    using sample_register(1) y(1) by (auto simp: sample_events_def split: if_splits option.splits simp del: rs_step.simps)
  from rs_requests_conserved [OF this] this y(2) show ?thesis by blast
qed

text \<open>
  A request with a positive timeout that has to wait and carries no time
  under \<^verbatim>\<open>queuedAt\<close> (\<^verbatim>\<open>RequestResource\<close> stores none) makes the next pass over the waiting
  requests panic, whatever the pass finds.
\<close>

theorem rs_timeout_request_panics:
  assumes "rs_RequestResource t req s = (Inl e, s')" and "0 < req_Timeout req" and "req_queuedAt req = None"
  shows "rs_processPendingRequests ts s' = None"
proof -
  have "req \<in> set (rs_pendingQueue s')"
    using assms(1) by (auto simp: rs_RequestResource_def rs_enqueue_def split: prod.splits sum.splits)
  then show ?thesis using assms(2,3) rs_process_loop_panic [of "rs_pendingQueue s'"]
    by (auto simp: rs_processPendingRequests_def rs_take_queue_def)
qed

theorem rs_timeout_request_panics_witness:
  "rs_processPendingRequests (\<lambda>_. (9, sample_attempt [])) (snd (rs_RequestResource (sample_attempt []) (sample_request 0 5) sample_table)) = None"
  using rs_timeout_request_panics [of "sample_attempt []" "sample_request 0 5" sample_table]
  by (simp add: rs_RequestResource_def rs_tryAllocateResource_def sample_attempt_def sample_request_def req_queuedAt_def)

end
