(* ===== verification/PendingOrder.thy ===== *)
theory PendingOrder
  imports ResourceRuns "HOL-Library.Sublist"
begin

text \<open>
  The order of the requests that wait in the resource scheduler
  (\<^verbatim>\<open>internal/scheduler/resource_scheduler.go\<close>), over the interleavings of \<open>ResourceRuns\<close>.
  \<^verbatim>\<open>RequestResource\<close> inserts by priority, \<^verbatim>\<open>processPendingRequests\<close> takes the whole queue and later
  appends what remains. The order survives a pass unless something was queued meanwhile.
\<close>

section \<open>Insertions\<close>

abbreviation urgency :: "ResourceRequest \<Rightarrow> int" where "urgency req \<equiv> - req_Priority req"

lemma insert_request_sorted: "sorted (map urgency pending) \<Longrightarrow> sorted (map urgency (insert_request req pending))"
  by (induction req pending rule: insert_request.induct) (auto simp: not_less)

lemma insert_request_stable:
  "sorted (map urgency pending) \<Longrightarrow>
   filter (\<lambda>x. c = urgency x) (insert_request req pending) = filter (\<lambda>x. c = urgency x) (pending @ [req])"
proof (induction req pending rule: insert_request.induct)
  case (2 req p pending)
  show ?case
  proof (cases "req_Priority p < req_Priority req")
    case True
    then have "\<forall>x \<in> set (p # pending). urgency req < urgency x" using 2(2) by fastforce
    then have "filter (\<lambda>x. c = urgency x) (p # pending) = []" if "c = urgency req"
      using that by (auto simp: filter_empty_conv)
    then show ?thesis using True by auto
  qed (use 2 in auto)
qed simp

lemma insert_request_sort: "insert_request req (sort_key urgency reqs) = sort_key urgency (reqs @ [req])"
proof (rule properties_for_sort_key [symmetric])
  show "sorted (map urgency (insert_request req (sort_key urgency reqs)))" by (rule insert_request_sorted) simp
  show "filter (\<lambda>x. urgency k = urgency x) (insert_request req (sort_key urgency reqs)) =
      filter (\<lambda>x. urgency k = urgency x) (reqs @ [req])" for k
    using insert_request_stable [of "sort_key urgency reqs" "urgency k" req] sort_key_stable [of urgency "urgency k" reqs]
    by (simp add: eq_commute)
qed simp

section \<open>Removals\<close>

text \<open>What is left of a stable sort, when some elements are taken out, is the stable sort of the rest.\<close>

lemma subseq_insort:
  assumes "subseq ys (insort_key f x zs)" and "sorted (map f zs)"
  shows "subseq ys zs \<or> (\<exists>ys'. subseq ys' zs \<and> ys = insort_key f x ys')"
  using assms
proof (induction zs arbitrary: ys)
  case Nil
  then show ?case by (cases ys) (auto split: if_splits)
next
  case (Cons z zs)
  show ?case
  proof (cases "f x \<le> f z")
    case True
    have first: "insort_key f x ys' = x # ys'" if "subseq ys' (z # zs)" for ys'
    proof -
      have "set ys' \<subseteq> set (z # zs)" using list_emb_set [OF that] by blast
      then have "\<forall>y \<in> set ys'. f x \<le> f y" using Cons.prems(2) True by fastforce
      then show ?thesis by (cases ys') auto
    qed
    have "subseq ys (x # z # zs)" using Cons.prems(1) True by simp
    then have "subseq ys (z # zs) \<or> (\<exists>ys'. ys = x # ys' \<and> subseq ys' (z # zs))" by (cases rule: list_emb.cases) auto
    with first show ?thesis by metis
  next
    case False
    have "subseq ys (z # insort_key f x zs)" using Cons.prems(1) False by simp
    then have "subseq ys (insort_key f x zs) \<or> (\<exists>ys1. ys = z # ys1 \<and> subseq ys1 (insort_key f x zs))"
      by (cases rule: list_emb.cases) auto
    then show ?thesis
    proof
      assume "subseq ys (insort_key f x zs)"
      with Cons.IH [of ys] Cons.prems(2) show ?thesis by (auto intro: list_emb_Cons)
    next
      assume "\<exists>ys1. ys = z # ys1 \<and> subseq ys1 (insort_key f x zs)"
      then obtain ys1 where ys1: "ys = z # ys1" "subseq ys1 (insort_key f x zs)" by blast
      from Cons.IH [OF ys1(2)] Cons.prems(2) consider
          "subseq ys1 zs" | ys' where "subseq ys' zs" "ys1 = insort_key f x ys'" by auto
      then show ?thesis
      proof cases
        case 1
        then show ?thesis using ys1(1) by simp
      next
        case 2
        then have "subseq (z # ys') (z # zs)" "ys = insort_key f x (z # ys')" using ys1(1) False by simp_all
        then show ?thesis by blast
      qed
    qed
  qed
qed

lemma subseq_sort_key: "subseq ys (sort_key f xs) \<Longrightarrow> \<exists>xs'. subseq xs' xs \<and> ys = sort_key f xs'"
proof (induction xs arbitrary: ys)
  case (Cons x xs)
  have "subseq ys (insort_key f x (sort_key f xs))" using Cons.prems by simp
  from subseq_insort [OF this] consider "subseq ys (sort_key f xs)"
    | ys' where "subseq ys' (sort_key f xs)" "ys = insort_key f x ys'" by auto
  then show ?case
  proof cases
    case 1
    with Cons.IH show ?thesis by (meson list_emb_Cons)
  next
    case 2
    with Cons.IH obtain xs' where "subseq xs' xs" "ys' = sort_key f xs'" by blast
    with 2 have "subseq (x # xs') (x # xs) \<and> ys = sort_key f (x # xs')" by simp
    then show ?thesis by blast
  qed
qed (auto dest: list_emb_Nil2)

section \<open>Runs\<close>

text \<open>The requests that a run queues, in the order in which it does.\<close>

fun queued :: "rs_event list \<Rightarrow> rs_system \<Rightarrow> ResourceRequest list" where
  "queued [] y = []"
| "queued (ev # evs) y = (case ev of EvQueue k \<Rightarrow> [sys_callers y ! k] | _ \<Rightarrow> []) @
     (case rs_step ev y of None \<Rightarrow> [] | Some y' \<Rightarrow> queued evs y')"

text \<open>No request is queued between the taking of the queue and the return of what remains.\<close>

fun undisturbed :: "rs_event list \<Rightarrow> rs_system \<Rightarrow> bool" where
  "undisturbed [] y \<longleftrightarrow> True"
| "undisturbed (ev # evs) y \<longleftrightarrow>
     (case ev of EvPutBack k \<Rightarrow> rs_pendingQueue (sys_rs y) = [] \<or> snd (sys_procs y ! k) = [] | _ \<Rightarrow> True) \<and>
     (case rs_step ev y of None \<Rightarrow> True | Some y' \<Rightarrow> undisturbed evs y')"

definition in_order :: "ResourceRequest list \<Rightarrow> ResourceRequest list \<Rightarrow> bool" where
  "in_order arrived reqs \<longleftrightarrow> (\<exists>sub. subseq sub arrived \<and> reqs = sort_key urgency sub)"

lemma in_order_subseq: "in_order arrived reqs \<Longrightarrow> subseq reqs' reqs \<Longrightarrow> in_order arrived reqs'"
  unfolding in_order_def by (meson subseq_sort_key subseq_order.order_trans)

lemma in_order_Nil [simp]: "in_order arrived []"
  by (auto simp: in_order_def intro: exI [of _ "[]"])

lemma in_order_later: "in_order arrived reqs \<Longrightarrow> in_order (arrived @ later) reqs"
proof -
  have "subseq sub (arrived @ later)" if "subseq sub arrived" for sub
    using list_emb_append_mono [OF that list_emb_Nil, of later] by simp
  then show "in_order arrived reqs \<Longrightarrow> in_order (arrived @ later) reqs" unfolding in_order_def by blast
qed

lemma in_order_insert: "in_order arrived reqs \<Longrightarrow> in_order (arrived @ [req]) (insert_request req reqs)"
proof -
  assume "in_order arrived reqs"
  then obtain sub where sub: "subseq sub arrived" "reqs = sort_key urgency sub" by (auto simp: in_order_def)
  then have "insert_request req reqs = sort_key urgency (sub @ [req])" by (simp add: insert_request_sort)
  moreover have "subseq (sub @ [req]) (arrived @ [req])" using sub(1) by (intro list_emb_append_mono) simp_all
  ultimately show ?thesis unfolding in_order_def by blast
qed

text \<open>The queue and what each processor holds are in order.\<close>

definition order_inv :: "ResourceRequest list \<Rightarrow> rs_system \<Rightarrow> bool" where
  "order_inv arrived y \<longleftrightarrow> in_order arrived (rs_pendingQueue (sys_rs y)) \<and>
     (\<forall>(reqs, remaining) \<in> set (sys_procs y). in_order arrived (remaining @ reqs))"

lemma order_inv_later: "order_inv arrived y \<Longrightarrow> order_inv (arrived @ later) y"
  by (auto simp: order_inv_def in_order_later)

lemma order_inv_same:
  "order_inv arrived y \<Longrightarrow> rs_pendingQueue (sys_rs y') = rs_pendingQueue (sys_rs y) \<Longrightarrow> sys_procs y' = sys_procs y \<Longrightarrow> order_inv arrived y'"
  by (simp add: order_inv_def)

lemma order_inv_proc:
  assumes "order_inv arrived y" and "sys_procs y ! k = (reqs, remaining)" and "k < length (sys_procs y)"
    and "rs_pendingQueue (sys_rs y') = rs_pendingQueue (sys_rs y)" and "sys_procs y' = (sys_procs y)[k := (reqs', remaining')]"
    and "subseq (remaining' @ reqs') (remaining @ reqs)"
  shows "order_inv arrived y'"
proof -
  have "in_order arrived (remaining @ reqs)" using assms(1-3) nth_mem [of k "sys_procs y"] by (auto simp: order_inv_def)
  then have "in_order arrived (remaining' @ reqs')" by (rule in_order_subseq [OF _ assms(6)])
  then show ?thesis using assms(1,4,5) by (auto simp: order_inv_def dest!: set_update_subset_insert [THEN subsetD])
qed

lemma set_remove_nth: "x \<in> set (remove_nth k xs) \<Longrightarrow> x \<in> set xs"
  using set_remove_nth_subset by fastforce

lemma order_step:
  assumes inv: "order_inv arrived y" and step: "rs_step ev y = Some y'" and "undisturbed [ev] y"
  shows "order_inv (arrived @ queued [ev] y) y'"
proof (cases ev)
  case (EvAsk t req)
  obtain res s where t: "rs_tryAllocateResource t req (sys_rs y) = (res, s)" by force
  have "rs_pendingQueue s = rs_pendingQueue (sys_rs y)" using rs_pending_frame(7) [of t req "sys_rs y"] t by simp
  then have "rs_pendingQueue (sys_rs y') = rs_pendingQueue (sys_rs y)" "sys_procs y' = sys_procs y"
    using step EvAsk t by (cases res; auto simp: sys_simps)+
  from order_inv_same [OF inv this] show ?thesis by (simp add: EvAsk split: option.split)
next
  case (EvQueue k)
  then have "k < length (sys_callers y)" "sys_procs y' = sys_procs y"
    "rs_pendingQueue (sys_rs y') = insert_request (sys_callers y ! k) (rs_pendingQueue (sys_rs y))"
    using step by (auto simp: sys_simps rs_enqueue_def split: if_splits)
  moreover have "queued [ev] y = [sys_callers y ! k]" using step by (simp add: EvQueue)
  ultimately show ?thesis using inv by (auto simp: order_inv_def in_order_insert in_order_later simp del: queued.simps)
next
  case EvTake
  then show ?thesis using step inv by (auto simp: sys_simps rs_take_queue_def order_inv_def split: if_splits)
next
  case (EvTry k now t)
  then obtain req reqs remaining where k: "k < length (sys_procs y)" "sys_procs y ! k = (req # reqs, remaining)"
    using step by (cases "sys_procs y ! k"; cases "fst (sys_procs y ! k)") (auto split: if_splits)
  have none: "queued [ev] y = []" using step by (simp add: EvTry)
  show ?thesis
  proof (cases "rs_process_one now t req (sys_rs y)")
    case None
    then show ?thesis using step EvTry k none inv by (auto simp: order_inv_def simp del: queued.simps)
  next
    case (Some p)
    then obtain res s where p: "rs_process_one now t req (sys_rs y) = Some (res, s)" by (cases p) auto
    have pend: "rs_pendingQueue s = rs_pendingQueue (sys_rs y)" by (rule rs_process_one_cases(1) [OF p])
    let ?kept = "if res = StillWaiting then remaining @ [req] else remaining"
    have "rs_pendingQueue (sys_rs y') = rs_pendingQueue (sys_rs y)" "sys_procs y' = (sys_procs y)[k := (reqs, ?kept)]"
      using step EvTry k p pend by (cases res; auto simp: sys_simps)+
    moreover have "subseq (?kept @ reqs) (remaining @ req # reqs)"
      by (auto intro: list_emb_append_mono subseq_order.order_refl)
    ultimately have "order_inv arrived y'" by (rule order_inv_proc [OF inv k(2,1)])
    then show ?thesis by (simp add: none del: queued.simps)
  qed
next
  case (EvPutBack k)
  then obtain remaining where k: "k < length (sys_procs y)" "sys_procs y ! k = ([], remaining)"
    using step by (cases "sys_procs y ! k"; cases "fst (sys_procs y ! k)") (auto split: if_splits)
  have none: "queued [ev] y = []" using step by (simp add: EvPutBack)
  have "in_order arrived remaining" using inv k nth_mem [OF k(1)] by (auto simp: order_inv_def)
  moreover have "rs_pendingQueue (sys_rs y) = [] \<or> remaining = []" using assms(3) EvPutBack k by simp
  moreover have "sys_rs y' = rs_put_back remaining (sys_rs y)" "sys_procs y' = remove_nth k (sys_procs y)"
    using step EvPutBack k by (auto simp: sys_simps)
  ultimately have "order_inv arrived y'"
    using inv by (auto simp: order_inv_def rs_put_back_def dest!: set_remove_nth)
  then show ?thesis by (simp add: none del: queued.simps)
qed (use step inv in \<open>auto simp: order_inv_def sys_simps split: option.split\<close>)

lemma order_run:
  "rs_run evs y = Some y' \<Longrightarrow> undisturbed evs y \<Longrightarrow> order_inv arrived y \<Longrightarrow> order_inv (arrived @ queued evs y) y'"
proof (induction evs arbitrary: y arrived)
  case (Cons ev evs)
  then obtain y1 where y1: "rs_step ev y = Some y1" "rs_run evs y1 = Some y'" by (auto split: if_splits option.splits)
  have u: "undisturbed [ev] y" "undisturbed evs y1" using Cons.prems(2) y1(1) by auto
  have "queued (ev # evs) y = queued [ev] y @ queued evs y1" using y1(1) by simp
  with Cons.IH [OF y1(2) u(2) order_step [OF Cons.prems(3) y1(1) u(1)]] show ?case by simp
qed simp

section \<open>Property\<close>

text \<open>
  C29 (order of the queue). In every interleaving of requests, releases, monitor and passes over the
  queue in which no pass puts requests back behind others that were queued meanwhile, the waiting
  requests are in the stable order by descending priority: the queue is the stable sort of some
  of the requests in the order in which they were queued, those that still wait. The exception is
  needed: a pass that puts back a request behind one of lower priority leaves a queue that is not
  sorted.
\<close>

theorem rs_pending_is_stable_sort:
  assumes "rs_run evs (sys_init cfg) = Some y" and "undisturbed evs (sys_init cfg)"
  shows "(\<exists>sub. subseq sub (queued evs (sys_init cfg)) \<and> rs_pendingQueue (sys_rs y) = sort_key (\<lambda>req. - req_Priority req) sub) \<and>
    (\<forall>k remaining y'. k < length (sys_procs y) \<and> sys_procs y ! k = ([], remaining) \<and> remaining \<noteq> [] \<and>
       rs_pendingQueue (sys_rs y) \<noteq> [] \<and> req_Priority (last (rs_pendingQueue (sys_rs y))) < req_Priority (hd remaining) \<and>
       rs_step (EvPutBack k) y = Some y' \<longrightarrow> \<not> sorted (map (\<lambda>req. - req_Priority req) (rs_pendingQueue (sys_rs y'))))"
proof (intro conjI allI impI)
  have "order_inv [] (sys_init cfg)" by (simp add: order_inv_def sys_init_def NewResourceScheduler_def)
  from order_run [OF assms this] show "\<exists>sub. subseq sub (queued evs (sys_init cfg)) \<and>
      rs_pendingQueue (sys_rs y) = sort_key (\<lambda>req. - req_Priority req) sub"
    by (simp add: order_inv_def in_order_def)
  fix k remaining y'
  assume a: "k < length (sys_procs y) \<and> sys_procs y ! k = ([], remaining) \<and> remaining \<noteq> [] \<and>
       rs_pendingQueue (sys_rs y) \<noteq> [] \<and> req_Priority (last (rs_pendingQueue (sys_rs y))) < req_Priority (hd remaining) \<and>
       rs_step (EvPutBack k) y = Some y'"
  then have eq: "rs_pendingQueue (sys_rs y') = rs_pendingQueue (sys_rs y) @ remaining"
    by (auto simp: sys_simps rs_put_back_def)
  have "last (rs_pendingQueue (sys_rs y)) \<in> set (rs_pendingQueue (sys_rs y))" "hd remaining \<in> set remaining" using a by simp_all
  moreover have "\<not> urgency (last (rs_pendingQueue (sys_rs y))) \<le> urgency (hd remaining)" using a by simp
  ultimately show "\<not> sorted (map (\<lambda>req. - req_Priority req) (rs_pendingQueue (sys_rs y')))"
    unfolding eq map_append sorted_append set_map by blast
qed

definition sample_order_events :: "rs_event list" where
  "sample_order_events = concat (map (\<lambda>p. [EvAsk (sample_attempt []) (sample_request p 0), EvQueue 0]) [1, 3, 2]) @
     [EvTake, EvTry 0 9 (sample_attempt []), EvTry 0 9 (sample_attempt []), EvTry 0 9 (sample_attempt []), EvPutBack 0]"

theorem rs_pending_is_stable_sort_witness:
  "\<exists>y sub. rs_run sample_order_events (sys_init (cf_Scheduler GetDefaultConfig)) = Some y \<and>
     subseq sub (map (\<lambda>p. sample_request p 0) [1, 3, 2]) \<and> rs_pendingQueue (sys_rs y) = sort_key (\<lambda>req. - req_Priority req) sub \<and>
     map req_Priority (rs_pendingQueue (sys_rs y)) = [3, 2, 1]"
proof -
  let ?y0 = "sys_init (cf_Scheduler GetDefaultConfig)"
  have none: "rs_tryAllocateResource (sample_attempt []) req s = (Inl ''no suitable resource found'', s)" for req s
    by (simp add: rs_tryAllocateResource_def sample_attempt_def)
  have "\<exists>y. rs_run sample_order_events ?y0 = Some y \<and> undisturbed sample_order_events ?y0 \<and>
      queued sample_order_events ?y0 = map (\<lambda>p. sample_request p 0) [1, 3, 2] \<and>
      rs_pendingQueue (sys_rs y) = map (\<lambda>p. sample_request p 0) [3, 2, 1]"
    by (simp add: sample_order_events_def none rs_process_one_def Let_def sys_upd_def rs_enqueue_def rs_take_queue_def rs_put_back_def
        sys_init_def NewResourceScheduler_def remove_nth_def sample_request_def)
  then obtain y where y: "rs_run sample_order_events ?y0 = Some y" "undisturbed sample_order_events ?y0"
    "queued sample_order_events ?y0 = map (\<lambda>p. sample_request p 0) [1, 3, 2]"
    "rs_pendingQueue (sys_rs y) = map (\<lambda>p. sample_request p 0) [3, 2, 1]" by blast
  from rs_pending_is_stable_sort [OF y(1,2)] y(1,3,4) show ?thesis
    by (auto simp: sample_request_def)
qed

end
