(* ===== verification/Scheduler.thy ===== *)
theory Scheduler
  imports MultiLevelQueue LoadBalancer Printing
begin

text \<open>
  \<^verbatim>\<open>internal/scheduler/scheduler.go\<close>: at every tick the scheduler reads the statistics of
  the multi-level queue and adds endpoints to the load balancer or removes them.

  A tick is one step here: nobody else uses the load balancer while it runs. A new endpoint
  is stored at an address the allocator gives (\<open>se_fresh\<close>). Iterations over the groups
  follow the given orders. The hour and the weekday depend on the local zone and are
  arguments. What the source only logs (the advice on the strategy, the weights) is a result.
\<close>

section \<open>Configuration and state\<close>

type_synonym Strategy = string

definition Static :: Strategy where "Static = ''static''"
definition Dynamic :: Strategy where "Dynamic = ''dynamic''"
definition Adaptive :: Strategy where "Adaptive = ''adaptive''"
definition Hybrid :: Strategy where "Hybrid = ''hybrid''"

record SchedulerConfig =
  sc_Strategy :: Strategy
  sc_MonitorInterval :: duration
  sc_ScalingThresholds :: "string \<Rightarrow> int option"
  sc_ResourceLimits :: "string \<Rightarrow> int option"
  sc_AdaptiveParameters :: "string \<Rightarrow> float64 option"

record Scheduler =
  sch_config :: SchedulerConfig
  sch_isRunning :: bool

definition NewScheduler :: "SchedulerConfig \<Rightarrow> Scheduler" where
  "NewScheduler config = \<lparr>sch_config = config, sch_isRunning = False\<rparr>"

text \<open>Reading an \<^verbatim>\<open>int\<close> map: 0 for a missing key.\<close>

definition map_get :: "(string \<Rightarrow> int option) \<Rightarrow> string \<Rightarrow> int" where
  "map_get m k = (case m k of None \<Rightarrow> 0 | Some v \<Rightarrow> v)"

definition min_endpoints :: "SchedulerConfig \<Rightarrow> int" where
  "min_endpoints c = map_get (sc_ResourceLimits c) ''min_endpoints''"
definition max_endpoints :: "SchedulerConfig \<Rightarrow> int" where
  "max_endpoints c = map_get (sc_ResourceLimits c) ''max_endpoints''"
definition scale_up_length :: "SchedulerConfig \<Rightarrow> int" where
  "scale_up_length c = map_get (sc_ScalingThresholds c) ''scale_up_queue_length''"
definition scale_down_length :: "SchedulerConfig \<Rightarrow> int" where
  "scale_down_length c = map_get (sc_ScalingThresholds c) ''scale_down_queue_length''"

section \<open>Changing the endpoints\<close>

text \<open>The keys of the statistics in the order visited, and the pending messages of all queues.\<close>

type_synonym queue_stats = "string \<Rightarrow> QueueStats option"

definition total_pending :: "string list \<Rightarrow> queue_stats \<Rightarrow> int" where
  "total_pending names stats =
     sum_list (map (\<lambda>n. case stats n of None \<Rightarrow> 0 | Some st \<Rightarrow> qs_PendingCount st) names)"

definition generateEndpointURL :: "int \<Rightarrow> string" where
  "generateEndpointURL index = ''http://llm-processor-'' @ sprint_int index @ '':8080''"

text \<open>A literal \<^verbatim>\<open>&Endpoint{...}\<close>: the fields not named are zero.\<close>

definition new_endpoint :: "string \<Rightarrow> string \<Rightarrow> int \<Rightarrow> Endpoint" where
  "new_endpoint id_prefix name_prefix index =
     \<lparr>ep_ID = id_prefix @ sprint_int index, ep_URL = generateEndpointURL index,
      ep_Name = name_prefix @ sprint_int index, ep_Type = ''llm'', ep_Capabilities = [], ep_Weight = 1,
      ep_Status = '''', ep_Connections = 0, ep_MaxConnections = 100, ep_ResponseTime = 0,
      ep_ErrorRate = Fin 0, ep_LastCheck = zero_time, ep_Metadata = None\<rparr>"

record sched_env =
  se_order :: "string list"
  se_now :: go_time
  se_fresh :: eref

text \<open>The error of \<^verbatim>\<open>AddEndpoint\<close>, and that of \<^verbatim>\<open>RemoveEndpoint\<close>, is dropped.\<close>

definition sch_add :: "sched_env \<Rightarrow> Endpoint \<Rightarrow> LoadBalancer \<Rightarrow> LoadBalancer" where
  "sch_add env e lb =
     snd (lb_AddEndpoint (se_order env) (se_now env) (se_fresh env) (lb\<lparr>lb_eps := (lb_eps lb)(se_fresh env := e)\<rparr>))"

definition sch_remove :: "sched_env \<Rightarrow> eref \<Rightarrow> LoadBalancer \<Rightarrow> LoadBalancer" where
  "sch_remove env r lb = snd (lb_RemoveEndpoint (se_order env) (ep_ID (lb_eps lb r)) lb)"

datatype advice = UseLeastConnections | UseAdaptiveLoad | UseWeightedRandom

definition sch_advice :: "SchedulerConfig \<Rightarrow> queue_stats \<Rightarrow> int \<Rightarrow> advice" where
  "sch_advice c stats totalPending =
     (let realtimePending = (case stats ''realtime'' of None \<Rightarrow> 0 | Some st \<Rightarrow> qs_PendingCount st);
          highPending = (case stats ''high'' of None \<Rightarrow> 0 | Some st \<Rightarrow> qs_PendingCount st)
      in if realtimePending > highPending * 2 then UseLeastConnections
         else if totalPending > scale_up_length c then UseAdaptiveLoad
         else UseWeightedRandom)"

text \<open>
  \<open>order\<close> is the iteration of \<^verbatim>\<open>GetAllEndpoints\<close>, \<open>env\<close> that of the call that changes the
  load balancer. Indexing the last of no endpoints panics.
\<close>

definition applyDynamicScheduling ::
    "string list \<Rightarrow> string list \<Rightarrow> sched_env \<Rightarrow> SchedulerConfig \<Rightarrow> queue_stats \<Rightarrow> LoadBalancer
     \<Rightarrow> (advice \<times> LoadBalancer) call" where
  "applyDynamicScheduling names order env c stats lb =
     (if lb_locked lb then Waits
      else let endpoints = lb_GetAllEndpoints order lb; currentEndpointCount = int (length endpoints);
               totalPending = total_pending names stats; advice = sch_advice c stats totalPending
           in if totalPending > scale_up_length c \<and> currentEndpointCount < max_endpoints c
              then Done (advice, sch_add env (new_endpoint ''endpoint-'' ''Endpoint '' (currentEndpointCount + 1)) lb)
              else if totalPending < scale_down_length c \<and> currentEndpointCount > min_endpoints c
              then (if endpoints = [] then Panics
                    else Done (advice, sch_remove env (endpoints ! (length endpoints - 1)) lb))
              else Done (advice, lb))"

text \<open>The two loops of the adaptive strategy; \<open>envs i\<close> belongs to iteration \<open>i\<close>.\<close>

fun adaptive_up :: "(nat \<Rightarrow> sched_env) \<Rightarrow> nat list \<Rightarrow> LoadBalancer \<Rightarrow> LoadBalancer" where
  "adaptive_up envs [] lb = lb"
| "adaptive_up envs (i # is) lb =
     adaptive_up envs is
       (sch_add (envs i) (new_endpoint ''adaptive-endpoint-'' ''Adaptive Endpoint '' (int i + 1)) lb)"

fun adaptive_down :: "(nat \<Rightarrow> sched_env) \<Rightarrow> eref list \<Rightarrow> int list \<Rightarrow> LoadBalancer \<Rightarrow> LoadBalancer call" where
  "adaptive_down envs endpoints [] lb = Done lb"
| "adaptive_down envs endpoints (i # is) lb =
     (if i < 0 \<or> int (length endpoints) \<le> i then Panics
      else adaptive_down envs endpoints is (sch_remove (envs (nat i)) (endpoints ! nat i) lb))"

definition business_hours :: "int \<Rightarrow> int \<Rightarrow> bool" where
  "business_hours h weekday \<longleftrightarrow> h \<ge> 9 \<and> h < 17 \<and> weekday \<ge> 1 \<and> weekday \<le> 5"

definition adaptive_target :: "bool \<Rightarrow> SchedulerConfig \<Rightarrow> int \<Rightarrow> int" where
  "adaptive_target isBusinessHours c totalPending =
     (if isBusinessHours
      then (if totalPending > scale_up_length c then max_endpoints c else max_endpoints c - 1)
      else (if totalPending < scale_down_length c then min_endpoints c else min_endpoints c + 1))"

definition applyAdaptiveScheduling ::
    "int \<times> int \<Rightarrow> string list \<Rightarrow> string list \<Rightarrow> (nat \<Rightarrow> sched_env) \<Rightarrow> SchedulerConfig \<Rightarrow> queue_stats \<Rightarrow> LoadBalancer
     \<Rightarrow> LoadBalancer call" where
  "applyAdaptiveScheduling clock names order envs c stats lb =
     (if lb_locked lb then Waits
      else let endpoints = lb_GetAllEndpoints order lb; currentEndpointCount = int (length endpoints);
               target = adaptive_target (business_hours (fst clock) (snd clock)) c (total_pending names stats)
           in if target > currentEndpointCount
              then Done (adaptive_up envs [length endpoints..<nat target] lb)
              else if target < currentEndpointCount
              then adaptive_down envs endpoints (rev [target..currentEndpointCount - 1]) lb
              else Done lb)"

text \<open>The weight the hybrid strategy logs for an endpoint with a response time.\<close>

definition hybrid_weight :: "duration \<Rightarrow> int" where
  "hybrid_weight avgResponseTime =
     (let baseWeight = go_div (100 * millisecond) avgResponseTime
      in if baseWeight < 1 then 1 else if baseWeight > 10 then 10 else baseWeight)"

definition applyHybridScheduling ::
    "string list \<Rightarrow> string list \<Rightarrow> string list \<Rightarrow> sched_env \<Rightarrow> SchedulerConfig \<Rightarrow> queue_stats \<Rightarrow> LoadBalancer
     \<Rightarrow> (advice \<times> (string \<times> int) list \<times> LoadBalancer) call" where
  "applyHybridScheduling names order order' env c stats lb =
     (case applyDynamicScheduling names order env c stats lb of
        Done (advice, lb1) \<Rightarrow>
          Done (advice,
            map (\<lambda>r. (ep_URL (lb_eps lb1 r), hybrid_weight (ep_ResponseTime (lb_eps lb1 r))))
              (filter (\<lambda>r. ep_ResponseTime (lb_eps lb1 r) > 0) (lb_GetAllEndpoints order' lb1)),
            lb1)
      | Waits \<Rightarrow> Waits
      | Panics \<Rightarrow> Panics)"

section \<open>Ticks\<close>

record tick =
  tk_clock :: "int \<times> int"
  tk_names :: "string list"
  tk_order :: "string list"
  tk_order' :: "string list"
  tk_envs :: "nat \<Rightarrow> sched_env"

definition applyStaticScheduling :: "LoadBalancer \<Rightarrow> LoadBalancer call" where
  "applyStaticScheduling lb = Done lb"

text \<open>The first log line reads the statistics of four queues and panics when one is missing.\<close>

definition scheduleResources :: "tick \<Rightarrow> 'm MultiLevelQueue \<Rightarrow> Scheduler \<Rightarrow> LoadBalancer \<Rightarrow> LoadBalancer call" where
  "scheduleResources t queue s lb =
     (let stats = mlq_GetAllStats queue; c = sch_config s;
          dynamic = (case applyDynamicScheduling (tk_names t) (tk_order t) (tk_envs t 0) c stats lb of
                       Done (_, lb1) \<Rightarrow> Done lb1 | Waits \<Rightarrow> Waits | Panics \<Rightarrow> Panics)
      in if \<not> list_all (\<lambda>n. stats n \<noteq> None) [''realtime'', ''high'', ''normal'', ''low''] then Panics
         else if sc_Strategy c = Static then applyStaticScheduling lb
         else if sc_Strategy c = Dynamic then dynamic
         else if sc_Strategy c = Adaptive
           then applyAdaptiveScheduling (tk_clock t) (tk_names t) (tk_order t) (tk_envs t) c stats lb
         else if sc_Strategy c = Hybrid
           then (case applyHybridScheduling (tk_names t) (tk_order t) (tk_order' t) (tk_envs t 0) c stats lb of
                   Done (_, _, lb1) \<Rightarrow> Done lb1 | Waits \<Rightarrow> Waits | Panics \<Rightarrow> Panics)
         else dynamic)"

text \<open>The ticks of \<^verbatim>\<open>Start\<close> until the context is cancelled, each with the queue it finds.\<close>

fun sch_ticks :: "(tick \<times> 'm MultiLevelQueue) list \<Rightarrow> Scheduler \<Rightarrow> LoadBalancer \<Rightarrow> LoadBalancer call" where
  "sch_ticks [] s lb = Done lb"
| "sch_ticks ((t, queue) # ts) s lb =
     (case scheduleResources t queue s lb of
        Done lb1 \<Rightarrow> sch_ticks ts s lb1 | Waits \<Rightarrow> Waits | Panics \<Rightarrow> Panics)"

definition sch_Start ::
    "(tick \<times> 'm MultiLevelQueue) list \<Rightarrow> Scheduler \<Rightarrow> LoadBalancer \<Rightarrow> (Scheduler \<times> LoadBalancer) call" where
  "sch_Start ts s lb =
     (if sch_isRunning s then Done (s, lb)
      else if sc_MonitorInterval (sch_config s) \<le> 0 then Panics
      else (case sch_ticks ts s lb of
              Done lb1 \<Rightarrow> Done (s\<lparr>sch_isRunning := False\<rparr>, lb1) | Waits \<Rightarrow> Waits | Panics \<Rightarrow> Panics))"

definition sch_Stop :: "Scheduler \<Rightarrow> Scheduler" where
  "sch_Stop s = s\<lparr>sch_isRunning := False\<rparr>"

definition sch_IsRunning :: "Scheduler \<Rightarrow> bool" where
  "sch_IsRunning s = sch_isRunning s"


section \<open>The scheduler's own endpoints\<close>

text \<open>
  A load balancer that holds just the \<open>n\<close> endpoints numbered from 1 with the given prefix, in
  order, and whose mutex is free.
\<close>

definition owns :: "string \<Rightarrow> nat \<Rightarrow> LoadBalancer \<Rightarrow> bool" where
  "owns p n lb \<longleftrightarrow> \<not> lb_locked lb \<and>
     (\<exists>rs. lb_groups lb = (if n = 0 then Map.empty else [''llm'' \<mapsto> rs]) \<and>
        map (\<lambda>r. ep_ID (lb_eps lb r)) rs = map (\<lambda>i. p @ sprint_nat (Suc i)) [0..<n])"

text \<open>An iteration over the groups visits each once; the allocator gives an address not in use.\<close>

definition full_order :: "string list \<Rightarrow> LoadBalancer \<Rightarrow> bool" where
  "full_order order lb \<longleftrightarrow> distinct order \<and> ''llm'' \<in> set order"

definition env_ok :: "sched_env \<Rightarrow> LoadBalancer \<Rightarrow> bool" where
  "env_ok env lb \<longleftrightarrow> ''llm'' \<in> set (se_order env) \<and> \<not> lb_member (se_fresh env) lb"

lemma ownsE:
  assumes "owns p n lb"
  obtains rs where "\<not> lb_locked lb" "lb_groups lb = (if n = 0 then Map.empty else [''llm'' \<mapsto> rs])" "length rs = n"
    "\<And>k. k < n \<Longrightarrow> ep_ID (lb_eps lb (rs ! k)) = p @ sprint_nat (Suc k)"
proof -
  obtain rs where rs: "\<not> lb_locked lb" "lb_groups lb = (if n = 0 then Map.empty else [''llm'' \<mapsto> rs])"
    "map (\<lambda>r. ep_ID (lb_eps lb r)) rs = map (\<lambda>i. p @ sprint_nat (Suc i)) [0..<n]"
    using assms unfolding owns_def by blast
  have len: "length rs = n" using arg_cong [OF rs(3), of length] by simp
  have "ep_ID (lb_eps lb (rs ! k)) = p @ sprint_nat (Suc k)" if "k < n" for k
    using arg_cong [OF rs(3), of "\<lambda>xs. xs ! k"] that len by simp
  with rs len that show thesis by blast
qed

lemma ownsI:
  assumes "\<not> lb_locked lb" "lb_groups lb = (if n = 0 then Map.empty else [''llm'' \<mapsto> rs])" "length rs = n"
    "\<And>k. k < n \<Longrightarrow> ep_ID (lb_eps lb (rs ! k)) = p @ sprint_nat (Suc k)"
  shows "owns p n lb"
proof -
  have "map (\<lambda>r. ep_ID (lb_eps lb r)) rs = map (\<lambda>i. p @ sprint_nat (Suc i)) [0..<n]"
    by (rule nth_equalityI) (simp_all add: assms)
  with assms(1,2) show ?thesis unfolding owns_def by blast
qed

lemma owned_endpoints:
  assumes "lb_groups lb = (if n = 0 then Map.empty else [''llm'' \<mapsto> rs])" "length rs = n" "full_order order lb"
  shows "lb_GetAllEndpoints order lb = rs"
proof -
  have none: "''llm'' \<notin> set xs \<Longrightarrow> lb_GetAllEndpoints xs lb = []" for xs
    by (induction xs) (use assms(1) in \<open>auto split: if_splits\<close>)
  have "distinct xs \<Longrightarrow> ''llm'' \<in> set xs \<Longrightarrow> lb_GetAllEndpoints xs lb = rs" for xs
  proof (induction xs)
    case (Cons x xs)
    then show ?case using none [of xs] assms(1,2) by (cases "x = ''llm''") (auto split: if_splits)
  qed simp
  then show ?thesis using assms(3) by (simp add: full_order_def)
qed

lemma owns_add:
  assumes own: "owns p n lb" and env: "env_ok env lb" and e: "ep_ID e = p @ sprint_nat (Suc n)" "ep_Type e = ''llm''"
  shows "owns p (Suc n) (sch_add env e lb)"
proof -
  obtain rs where rs: "\<not> lb_locked lb" "lb_groups lb = (if n = 0 then Map.empty else [''llm'' \<mapsto> rs])" "length rs = n"
    "\<And>k. k < n \<Longrightarrow> ep_ID (lb_eps lb (rs ! k)) = p @ sprint_nat (Suc k)"
    using own by (rule ownsE) blast
  let ?r = "se_fresh env" and ?lb = "lb\<lparr>lb_eps := (lb_eps lb)(se_fresh env := e)\<rparr>"
  have fresh: "rs ! k \<noteq> ?r" if "k < n" for k
  proof -
    have "rs ! k \<in> set rs" using that rs(3) by simp
    then have "lb_member (rs ! k) lb" using rs(2) that by (auto simp: lb_member_def)
    then show ?thesis using env by (auto simp: env_ok_def)
  qed
  have none: "lb_find (se_order env) (ep_ID e) ?lb = None"
  proof (cases "lb_find (se_order env) (ep_ID e) ?lb")
    case (Some x)
    then obtain ty k eps where k: "lb_groups lb ty = Some eps" "k < length eps" "ep_ID (lb_eps ?lb (eps ! k)) = ep_ID e"
      using lb_find_Some [of "se_order env" "ep_ID e" ?lb] by (cases x) auto
    then have "eps = rs" "k < n" using rs(2,3) by (auto split: if_splits)
    then have "p @ sprint_nat (Suc k) = p @ sprint_nat (Suc n)" using k(3) rs(4) [of k] fresh [of k] e(1) by simp
    then show ?thesis using sprint_nat_inj [of "Suc k" "Suc n"] \<open>k < n\<close> by simp
  qed simp
  have groups: "lb_groups (sch_add env e lb) = [''llm'' \<mapsto> rs @ [?r]]"
    using none e(2) rs(2,3) by (cases n) (simp_all add: sch_add_def lb_AddEndpoint_def Let_def)
  have eps: "ep_ID (lb_eps (sch_add env e lb) x) = (if x = ?r then ep_ID e else ep_ID (lb_eps lb x))" for x
    using none by (simp add: sch_add_def lb_AddEndpoint_def Let_def)
  have "\<not> lb_locked (sch_add env e lb)" using none rs(1) by (simp add: sch_add_def lb_AddEndpoint_def Let_def)
  then show ?thesis
    using groups rs(3,4) fresh e(1) by (intro ownsI [where rs = "rs @ [?r]"]) (auto simp: eps nth_append less_Suc_eq)
qed

lemma owns_remove:
  assumes own: "owns p (Suc n) lb" and env: "''llm'' \<in> set (se_order env)"
    and r: "ep_ID (lb_eps lb r) = p @ sprint_nat (Suc n)"
  shows "owns p n (sch_remove env r lb)" and "lb_eps (sch_remove env r lb) = lb_eps lb"
proof -
  let ?id = "p @ sprint_nat (Suc n)"
  obtain rs where rs: "\<not> lb_locked lb" "lb_groups lb = [''llm'' \<mapsto> rs]" "length rs = Suc n"
    "\<And>k. k < Suc n \<Longrightarrow> ep_ID (lb_eps lb (rs ! k)) = p @ sprint_nat (Suc k)"
    using own by (rule ownsE) simp
  have last: "rs ! n \<in> set rs" using rs(3) by simp
  obtain ty k where f: "lb_find (se_order env) ?id lb = Some (ty, k)"
    using lb_find_None [of "se_order env" ?id lb "''llm''" rs "rs ! n"] env rs(2) last rs(4) [of n]
    by (cases "lb_find (se_order env) ?id lb") auto
  then obtain eps where k: "lb_groups lb ty = Some eps" "k < length eps" "ep_ID (lb_eps lb (eps ! k)) = ?id"
    using lb_find_Some by blast
  then have ty: "ty = ''llm''" "eps = rs" using rs(2) by (auto split: if_splits)
  then have "sprint_nat (Suc k) = sprint_nat (Suc n)" using k(2,3) rs(3,4) by simp
  then have "k = n" using sprint_nat_inj by blast
  then have rm: "remove_nth k rs = take n rs" using rs(3) by (simp add: remove_nth_def)
  have groups: "lb_groups (sch_remove env r lb) = (if n = 0 then Map.empty else [''llm'' \<mapsto> take n rs])"
    using f ty rm rs(2,3) by (auto simp: sch_remove_def r lb_RemoveEndpoint_def Let_def fun_eq_iff)
  show eps: "lb_eps (sch_remove env r lb) = lb_eps lb"
    using f by (simp add: sch_remove_def r lb_RemoveEndpoint_def Let_def)
  have "\<not> lb_locked (sch_remove env r lb)" using f rs(1) by (simp add: sch_remove_def r lb_RemoveEndpoint_def Let_def)
  then show "owns p n (sch_remove env r lb)"
    using groups rs(3,4) by (intro ownsI [where rs = "take n rs"]) (simp_all add: eps)
qed


section \<open>The loops of the adaptive strategy\<close>

lemma sch_add_member: "lb_member x (sch_add env e lb) \<Longrightarrow> x = se_fresh env \<or> lb_member x lb"
  by (auto simp: sch_add_def lb_AddEndpoint_def Let_def lb_member_def split: if_splits option.splits)

lemma adaptive_up_owns:
  assumes "n \<le> m" and "owns ''adaptive-endpoint-'' n lb" and "\<forall>i \<in> {n..<m}. env_ok (envs i) lb"
    and "inj_on (\<lambda>i. se_fresh (envs i)) {n..<m}"
  shows "owns ''adaptive-endpoint-'' m (adaptive_up envs [n..<m] lb)"
  using assms
proof (induction "m - n" arbitrary: n lb)
  case (Suc d)
  then have nm: "n < m" by simp
  let ?lb = "sch_add (envs n) (new_endpoint ''adaptive-endpoint-'' ''Adaptive Endpoint '' (int n + 1)) lb"
  have "sprint_int (int n + 1) = sprint_nat (Suc n)" using sprint_int_nat [of "Suc n"] by (simp add: add.commute)
  moreover have "env_ok (envs n) lb" using Suc.prems(3) nm by simp
  ultimately have own: "owns ''adaptive-endpoint-'' (Suc n) ?lb"
    by (intro owns_add [OF Suc.prems(2)]) (simp_all add: new_endpoint_def)
  have "env_ok (envs i) ?lb" if i: "i \<in> {Suc n..<m}" for i
  proof -
    have "env_ok (envs i) lb" using Suc.prems(3) i by simp
    moreover have "se_fresh (envs i) \<noteq> se_fresh (envs n)"
      using inj_onD [OF Suc.prems(4), of i n] i nm by auto
    ultimately show ?thesis using sch_add_member by (auto simp: env_ok_def)
  qed
  moreover have "inj_on (\<lambda>i. se_fresh (envs i)) {Suc n..<m}"
    by (rule inj_on_subset [OF Suc.prems(4)]) auto
  ultimately have "owns ''adaptive-endpoint-'' m (adaptive_up envs [Suc n..<m] ?lb)"
    using nm Suc.hyps(2) own by (intro Suc.hyps(1)) auto
  then show ?case using nm by (simp add: upt_conv_Cons)
qed simp

lemma adaptive_down_owns:
  assumes "t \<le> n" and "owns p n lb" and "n \<le> length rs" and "\<forall>i. ''llm'' \<in> set (se_order (envs i))"
    and "\<And>k. k < n \<Longrightarrow> ep_ID (lb_eps lb (rs ! k)) = p @ sprint_nat (Suc k)"
  shows "\<exists>lb'. adaptive_down envs rs (rev [int t..int n - 1]) lb = Done lb' \<and> owns p t lb'"
  using assms
proof (induction n arbitrary: lb)
  case (Suc n)
  show ?case
  proof (cases "t = Suc n")
    case True
    then show ?thesis using Suc.prems by simp
  next
    case False
    then have t: "t \<le> n" using Suc.prems by simp
    let ?lb = "sch_remove (envs n) (rs ! n) lb"
    have own: "owns p n ?lb" and eps: "lb_eps ?lb = lb_eps lb"
      using owns_remove [OF Suc.prems(2), of "envs n" "rs ! n"] Suc.prems(4,5) by simp_all
    have "[int t..int (Suc n) - 1] = [int t..int n - 1] @ [int n]" using t upto_rec2 [of "int t" "int n"] by simp
    then have list: "rev [int t..int (Suc n) - 1] = int n # rev [int t..int n - 1]" by simp
    obtain lb' where "adaptive_down envs rs (rev [int t..int n - 1]) ?lb = Done lb'" "owns p t lb'"
      using Suc.IH [OF t own] Suc.prems(3-5) eps by auto
    then show ?thesis using Suc.prems(3) by (simp only: list) simp
  qed
qed simp

lemma adaptive_down_panics: "\<exists>i \<in> set is. i < 0 \<Longrightarrow> adaptive_down envs rs is lb = Panics"
  by (induction envs rs "is" lb rule: adaptive_down.induct) auto

section \<open>Properties\<close>

text \<open>
  C32 (dynamic scaling). A dynamic tick on the scheduler's own endpoints, \<open>n\<close> of them within the
  limits, adds one when more messages are pending than the upper threshold and the maximum is
  not reached, otherwise removes the one with the highest number when fewer are pending than
  the lower threshold and the minimum is not reached, and otherwise changes nothing: it neither
  panics nor waits, the new identifier is never taken, and the endpoints stay numbered without
  gaps and within the limits.
\<close>

theorem dynamic_scaling_step:
  assumes "owns ''endpoint-'' n lb" and "full_order order lb" and "env_ok env lb"
    and "0 \<le> min_endpoints c" and "min_endpoints c \<le> int n" and "int n \<le> max_endpoints c"
  shows "\<exists>advice lb' n'. applyDynamicScheduling names order env c stats lb = Done (advice, lb') \<and>
    owns ''endpoint-'' n' lb' \<and> min_endpoints c \<le> int n' \<and> int n' \<le> max_endpoints c \<and>
    n' = (if scale_up_length c < total_pending names stats \<and> int n < max_endpoints c then n + 1
          else if total_pending names stats < scale_down_length c \<and> min_endpoints c < int n then n - 1 else n)"
proof -
  obtain rs where rs: "\<not> lb_locked lb" "lb_groups lb = (if n = 0 then Map.empty else [''llm'' \<mapsto> rs])" "length rs = n"
    "\<And>k. k < n \<Longrightarrow> ep_ID (lb_eps lb (rs ! k)) = ''endpoint-'' @ sprint_nat (Suc k)"
    using assms(1) by (rule ownsE) blast
  have all: "lb_GetAllEndpoints order lb = rs" by (rule owned_endpoints [OF rs(2,3) assms(2)])
  let ?up = "scale_up_length c < total_pending names stats \<and> int n < max_endpoints c"
  let ?down = "total_pending names stats < scale_down_length c \<and> min_endpoints c < int n"
  let ?run = "applyDynamicScheduling names order env c stats lb"
  consider (up) "?up" | (down) "\<not> ?up" "?down" | (none) "\<not> ?up" "\<not> ?down" by blast
  then show ?thesis
  proof cases
    case up
    let ?lb = "sch_add env (new_endpoint ''endpoint-'' ''Endpoint '' (int n + 1)) lb"
    have "sprint_int (int n + 1) = sprint_nat (Suc n)" using sprint_int_nat [of "Suc n"] by (simp add: add.commute)
    then have "owns ''endpoint-'' (Suc n) ?lb"
      by (intro owns_add [OF assms(1,3)]) (simp_all add: new_endpoint_def)
    moreover obtain a where "?run = Done (a, ?lb)" using up rs(1,3) all by (simp add: applyDynamicScheduling_def Let_def)
    ultimately show ?thesis using up assms(4-6)
      by (intro exI [of _ a] exI [of _ ?lb] exI [of _ "Suc n"]) simp
  next
    case down
    then have n: "0 < n" "Suc (n - 1) = n" using assms(4) by simp_all
    let ?lb = "sch_remove env (rs ! (n - 1)) lb"
    have "owns ''endpoint-'' (n - 1) ?lb"
      using assms(1,3) rs(4) [of "n - 1"] n by (intro owns_remove(1)) (simp_all add: env_ok_def)
    moreover obtain a where "?run = Done (a, ?lb)"
    proof -
      have "rs \<noteq> []" using n(1) rs(3) by auto
      then show thesis using down rs(1,3) all that by (auto simp: applyDynamicScheduling_def Let_def)
    qed
    ultimately show ?thesis using down assms(4-6) n
      by (intro exI [of _ a] exI [of _ ?lb] exI [of _ "n - 1"]) auto
  next
    case none
    then obtain a where "?run = Done (a, lb)" using rs(1,3) all by (auto simp: applyDynamicScheduling_def Let_def)
    then show ?thesis using none assms by (intro exI [of _ a] exI [of _ lb] exI [of _ n]) auto
  qed
qed

lemma owns_new: "owns p 0 (NewLoadBalancer cfg st)"
  by (simp add: owns_def NewLoadBalancer_def Let_def)

definition sample_sched_config :: SchedulerConfig where
  "sample_sched_config = \<lparr>sc_Strategy = Dynamic, sc_MonitorInterval = second,
     sc_ScalingThresholds = [''scale_up_queue_length'' \<mapsto> 10, ''scale_down_queue_length'' \<mapsto> 5],
     sc_ResourceLimits = [''min_endpoints'' \<mapsto> 0, ''max_endpoints'' \<mapsto> 3], sc_AdaptiveParameters = Map.empty\<rparr>"

definition sample_stats :: "int \<Rightarrow> queue_stats" where
  "sample_stats n = [''high'' \<mapsto> new_stats 0\<lparr>qs_PendingCount := n\<rparr>]"

definition sample_env :: sched_env where
  "sample_env = \<lparr>se_order = [''llm''], se_now = 7, se_fresh = 0\<rparr>"

theorem dynamic_scaling_step_witness:
  "\<exists>advice lb'. applyDynamicScheduling [''high''] [''llm''] sample_env sample_sched_config (sample_stats 50)
     (NewLoadBalancer sample_lb_config sample_estore) = Done (advice, lb') \<and> owns ''endpoint-'' 1 lb'"
proof -
  have "full_order [''llm''] (NewLoadBalancer sample_lb_config sample_estore)" by (simp add: full_order_def)
  moreover have "env_ok sample_env (NewLoadBalancer sample_lb_config sample_estore)"
    by (simp add: env_ok_def sample_env_def lb_member_def NewLoadBalancer_def Let_def)
  moreover have "min_endpoints sample_sched_config = 0" "max_endpoints sample_sched_config = 3"
    "scale_up_length sample_sched_config = 10" "total_pending [''high''] (sample_stats 50) = 50"
    by (simp_all add: min_endpoints_def max_endpoints_def scale_up_length_def map_get_def sample_sched_config_def
        total_pending_def sample_stats_def)
  ultimately show ?thesis
    using dynamic_scaling_step [OF owns_new, of "[''llm'']" sample_lb_config sample_estore sample_env sample_sched_config
        "[''high'']" "sample_stats 50"] by auto
qed


text \<open>
  An adaptive tick on the scheduler's own endpoints reaches its target in
  one go, whatever their number was: from the target up by adding, down to it by removing, the
  endpoints staying numbered without gaps. A target below 0, as with a maximum of 0 in business
  hours, is a panic.
\<close>

theorem adaptive_scaling_step:
  assumes "owns ''adaptive-endpoint-'' n lb" and "full_order order lb"
    and "\<forall>i. env_ok (envs i) lb" and "inj (\<lambda>i. se_fresh (envs i))"
    and "target = adaptive_target (business_hours h weekday) c (total_pending names stats)"
  shows "if target < 0 then applyAdaptiveScheduling (h, weekday) names order envs c stats lb = Panics
    else \<exists>lb'. applyAdaptiveScheduling (h, weekday) names order envs c stats lb = Done lb' \<and>
      owns ''adaptive-endpoint-'' (nat target) lb'"
proof -
  obtain rs where rs: "\<not> lb_locked lb" "lb_groups lb = (if n = 0 then Map.empty else [''llm'' \<mapsto> rs])" "length rs = n"
    "\<And>k. k < n \<Longrightarrow> ep_ID (lb_eps lb (rs ! k)) = ''adaptive-endpoint-'' @ sprint_nat (Suc k)"
    using assms(1) by (rule ownsE) blast
  have all: "lb_GetAllEndpoints order lb = rs" by (rule owned_endpoints [OF rs(2,3) assms(2)])
  have run: "applyAdaptiveScheduling (h, weekday) names order envs c stats lb =
      (if target > int n then Done (adaptive_up envs [n..<nat target] lb)
       else if target < int n then adaptive_down envs rs (rev [target..int n - 1]) lb else Done lb)"
    using rs(1,3) all assms(5) by (simp add: applyAdaptiveScheduling_def Let_def)
  consider (panic) "target < 0" | (up) "int n < target" | (down) "0 \<le> target" "target < int n" | (same) "target = int n"
    by linarith
  then show ?thesis
  proof cases
    case panic
    then have "\<exists>i \<in> set (rev [target..int n - 1]). i < 0" by (intro bexI [of _ target]) simp_all
    then show ?thesis using panic by (simp add: run adaptive_down_panics)
  next
    case up
    have "inj_on (\<lambda>i. se_fresh (envs i)) {n..<nat target}" by (rule inj_on_subset [OF assms(4)]) simp
    with assms(3) up have "owns ''adaptive-endpoint-'' (nat target) (adaptive_up envs [n..<nat target] lb)"
      by (intro adaptive_up_owns [OF _ assms(1)]) auto
    then show ?thesis using up by (simp add: run)
  next
    case down
    have visits: "\<forall>i. ''llm'' \<in> set (se_order (envs i))" using assms(3) by (simp add: env_ok_def)
    have "\<exists>lb'. adaptive_down envs rs (rev [int (nat target)..int n - 1]) lb = Done lb' \<and>
        owns ''adaptive-endpoint-'' (nat target) lb'"
      by (rule adaptive_down_owns [OF _ assms(1) _ visits rs(4)]) (use down rs(3) in simp_all)
    then show ?thesis using down by (simp add: run)
  next
    case same
    then show ?thesis using assms(1) by (simp add: run)
  qed
qed

theorem adaptive_scaling_step_witness:
  "\<exists>lb'. applyAdaptiveScheduling (10, 1) [''high''] [''llm''] (\<lambda>i. sample_env\<lparr>se_fresh := i\<rparr>) sample_sched_config
     (sample_stats 50) (NewLoadBalancer sample_lb_config sample_estore) = Done lb' \<and> owns ''adaptive-endpoint-'' 3 lb'"
proof -
  have a: "full_order [''llm''] (NewLoadBalancer sample_lb_config sample_estore)" by (simp add: full_order_def)
  have b: "\<forall>i. env_ok (sample_env\<lparr>se_fresh := i\<rparr>) (NewLoadBalancer sample_lb_config sample_estore)"
    by (simp add: env_ok_def sample_env_def lb_member_def NewLoadBalancer_def Let_def)
  have c: "inj (\<lambda>i. se_fresh (sample_env\<lparr>se_fresh := i\<rparr>))" by (simp add: inj_def)
  have t: "3 = adaptive_target (business_hours 10 1) sample_sched_config (total_pending [''high''] (sample_stats 50))"
    by (simp add: adaptive_target_def business_hours_def max_endpoints_def scale_up_length_def map_get_def
        sample_sched_config_def total_pending_def sample_stats_def)
  show ?thesis using adaptive_scaling_step [OF owns_new a b c t] by simp
qed

text \<open>The tick reads four queues and panics when one of them does not exist.\<close>

lemma scheduleResources_missing:
  "n \<in> {''realtime'', ''high'', ''normal'', ''low''} \<Longrightarrow> mlq_stats queue n = None \<Longrightarrow>
   scheduleResources t queue s lb = Panics"
  by (auto simp: scheduleResources_def mlq_GetAllStats_def Let_def)

lemma scheduleResources_new_queue: "scheduleResources t (NewMultiLevelQueue maxSize) s lb = Panics"
  by (rule scheduleResources_missing [of "''high''"]) (simp_all add: NewMultiLevelQueue_def)

end
