(* ===== verification/GoStrings.thy ===== *)
theory GoStrings
  imports Prelude "HOL-Library.Sublist"
begin

text \<open>
  The functions of Go's \<^verbatim>\<open>strings\<close> and \<^verbatim>\<open>regexp\<close> packages that the program uses, for
  ASCII text: \<^verbatim>\<open>ToLower\<close>, \<^verbatim>\<open>Fields\<close>, \<^verbatim>\<open>HasSuffix\<close>, \<^verbatim>\<open>HasPrefix\<close>,
  \<^verbatim>\<open>Contains\<close>, and \<^verbatim>\<open>FindAllString\<close> for a literal pattern matched without regard to
  case. Outside ASCII the library folds case and splits at more characters than these do.
\<close>

section \<open>Case\<close>

definition lower_char :: "char \<Rightarrow> char" where
  "lower_char c = (if 65 \<le> (of_char c :: nat) \<and> (of_char c :: nat) \<le> 90 then char_of ((of_char c :: nat) + 32) else c)"

definition to_lower :: "string \<Rightarrow> string" where
  "to_lower s = map lower_char s"

section \<open>Searching\<close>

definition has_prefix :: "string \<Rightarrow> string \<Rightarrow> bool" where
  "has_prefix s p \<longleftrightarrow> take (length p) s = p"

definition has_suffix :: "string \<Rightarrow> string \<Rightarrow> bool" where
  "has_suffix s p \<longleftrightarrow> length p \<le> length s \<and> drop (length s - length p) s = p"

fun contains :: "string \<Rightarrow> string \<Rightarrow> bool" where
  "contains [] p = (p = [])"
| "contains (c # s) p = (has_prefix (c # s) p \<or> contains s p)"

text \<open>
  The matches of a literal (in lower case), leftmost first and not overlapping: \<open>skip\<close>
  characters of the last match are still to be passed.
\<close>

fun find_all_ci :: "string \<Rightarrow> nat \<Rightarrow> string \<Rightarrow> string list" where
  "find_all_ci lit skip [] = []"
| "find_all_ci lit skip (c # s) =
     (if skip > 0 then find_all_ci lit (skip - 1) s
      else if has_prefix (to_lower (c # s)) lit then take (length lit) (c # s) # find_all_ci lit (length lit - 1) s
      else find_all_ci lit 0 s)"

lemma contains_sublist: "contains s p \<longleftrightarrow> sublist p s"
proof (induction s)
  case (Cons c s)
  then show ?case by (auto simp: sublist_Cons_right prefix_def has_prefix_def) (metis append_take_drop_id)
qed simp

lemma find_all_ci_occurs: "lit \<noteq> [] \<Longrightarrow> find_all_ci lit 0 s \<noteq> [] \<longleftrightarrow> contains (to_lower s) lit"
  by (induction s) (auto simp: to_lower_def has_prefix_def)

section \<open>Words\<close>

definition is_space :: "char \<Rightarrow> bool" where
  "is_space c \<longleftrightarrow> (of_char c :: nat) \<in> {9, 10, 11, 12, 13, 32}"

fun fields_loop :: "string \<Rightarrow> string \<Rightarrow> string list" where
  "fields_loop word [] = (if word = [] then [] else [word])"
| "fields_loop word (c # s) =
     (if is_space c then (if word = [] then fields_loop [] s else word # fields_loop [] s)
      else fields_loop (word @ [c]) s)"

definition go_fields :: "string \<Rightarrow> string list" where
  "go_fields s = fields_loop [] s"

lemma fields_loop_word: "\<forall>c \<in> set w. \<not> is_space c \<Longrightarrow> fields_loop u (w @ s) = fields_loop (u @ w) s"
  by (induction w arbitrary: u) simp_all

lemma fields_loop_spaces: "\<forall>c \<in> set sp. is_space c \<Longrightarrow> fields_loop [] (sp @ s) = fields_loop [] s"
  by (induction sp) simp_all

text \<open>Words without spaces, each followed by at least one space, are read back.\<close>

lemma fields_words:
  assumes "\<forall>(w, sp) \<in> set ws. w \<noteq> [] \<and> (\<forall>c \<in> set w. \<not> is_space c) \<and> sp \<noteq> [] \<and> (\<forall>c \<in> set sp. is_space c)"
  shows "go_fields (concat (map (\<lambda>(w, sp). w @ sp) ws)) = map fst ws"
  unfolding go_fields_def using assms
proof (induction ws)
  case (Cons x ws)
  obtain w sp where x: "x = (w, sp)" by force
  then have w: "w \<noteq> []" "\<forall>c \<in> set w. \<not> is_space c" "sp \<noteq> []" "\<forall>c \<in> set sp. is_space c" using Cons.prems by auto
  obtain c sp' where sp: "sp = c # sp'" using w(3) by (cases sp) auto
  have "fields_loop [] (w @ sp @ s) = w # fields_loop [] s" for s
    using w sp fields_loop_spaces [of sp' s] by (simp add: fields_loop_word)
  then show ?case using Cons by (simp add: x)
qed simp

end
