(* ===== verification/Preprocessor.thy ===== *)
theory Preprocessor
  imports Models GoStrings
begin

text \<open>
  \<^verbatim>\<open>internal/preprocessor/preprocessor.go\<close>: the priority of a message from its metadata, its
  user and the keywords in its content, and the analysis of the content.

  Text is ASCII. A compiled pattern is what the program asks of it, its
  \<^verbatim>\<open>FindAllString(content, -1)\<close>; the built-in ones are literals without regard to case
  (\<open>find_all_ci\<close>), others come from \<^verbatim>\<open>regexp.Compile\<close>, the parameter \<open>compile\<close>. The two
  iterations over priorities follow the orders given.
\<close>

section \<open>State\<close>

type_synonym regexp = "string \<Rightarrow> string list"

record Preprocessor =
  pp_keywordPatterns :: "Priority \<Rightarrow> regexp list option"
  pp_userPriorities :: "string \<Rightarrow> Priority option"
  pp_defaultPriority :: Priority
  pp_positiveWords :: "string list"
  pp_negativeWords :: "string list"
  pp_questionWords :: "string list"

definition realtime_patterns :: "string list" where
  "realtime_patterns = [''immediate'', ''emergency'', ''asap'', ''right now'']"
definition high_patterns :: "string list" where
  "high_patterns = [''urgent'', ''important'', ''priority'', ''critical'', ''soon'']"

text \<open>The built-in patterns compile, so the error branch of the constructor is not taken.\<close>

definition literal_ci :: "string \<Rightarrow> regexp" where
  "literal_ci lit = find_all_ci lit 0"

definition NewPreprocessor :: Preprocessor where
  "NewPreprocessor =
     \<lparr>pp_keywordPatterns = [PriorityRealtime \<mapsto> map literal_ci realtime_patterns, PriorityHigh \<mapsto> map literal_ci high_patterns],
      pp_userPriorities = Map.empty, pp_defaultPriority = PriorityNormal,
      pp_positiveWords = [''good'', ''great'', ''excellent'', ''happy'', ''satisfied''],
      pp_negativeWords = [''bad'', ''terrible'', ''awful'', ''angry'', ''frustrated''],
      pp_questionWords = [''what'', ''how'', ''why'', ''when'', ''where'', ''who'']\<rparr>"

definition pp_SetUserPriority :: "string \<Rightarrow> Priority \<Rightarrow> Preprocessor \<Rightarrow> Preprocessor" where
  "pp_SetUserPriority userID priority p = p\<lparr>pp_userPriorities := (pp_userPriorities p)(userID \<mapsto> priority)\<rparr>"

definition pp_GetKeywordPatterns :: "Priority \<Rightarrow> Preprocessor \<Rightarrow> regexp list" where
  "pp_GetKeywordPatterns priority p = (case pp_keywordPatterns p priority of None \<Rightarrow> [] | Some rs \<Rightarrow> rs)"

definition pp_AddKeywordPattern ::
    "(string \<Rightarrow> string + regexp) \<Rightarrow> Priority \<Rightarrow> string \<Rightarrow> Preprocessor \<Rightarrow> string option \<times> Preprocessor" where
  "pp_AddKeywordPattern compile priority pattern p =
     (case compile pattern of
        Inl err \<Rightarrow> (Some err, p)
      | Inr regex \<Rightarrow>
          (None, p\<lparr>pp_keywordPatterns := (pp_keywordPatterns p)(priority \<mapsto> pp_GetKeywordPatterns priority p @ [regex])\<rparr>))"

definition pp_SetDefaultPriority :: "Priority \<Rightarrow> Preprocessor \<Rightarrow> Preprocessor" where
  "pp_SetDefaultPriority priority p = p\<lparr>pp_defaultPriority := priority\<rparr>"

section \<open>Priority from the content\<close>

text \<open>The names both metadata switches know; \<open>None\<close> falls through.\<close>

definition priority_named :: "string \<Rightarrow> Priority option" where
  "priority_named s =
     (let l = to_lower s
      in if l = ''realtime'' then Some PriorityRealtime
         else if l = ''high'' then Some PriorityHigh
         else if l = ''normal'' then Some PriorityNormal
         else if l = ''low'' then Some PriorityLow
         else None)"

definition metadata_string :: "metadata \<Rightarrow> string \<Rightarrow> string option" where
  "metadata_string md k = (case md k of Some (AString s) \<Rightarrow> Some s | _ \<Rightarrow> None)"

definition pp_score :: "Preprocessor \<Rightarrow> string \<Rightarrow> Priority \<Rightarrow> nat" where
  "pp_score p content priority =
     sum_list (map (\<lambda>pattern. length (pattern content)) (pp_GetKeywordPatterns priority p))"

text \<open>The scores in the order in which they are visited, and the search for the highest.\<close>

definition pp_scores :: "Preprocessor \<Rightarrow> string \<Rightarrow> Priority list \<Rightarrow> (Priority \<times> nat) list" where
  "pp_scores p content order = map (\<lambda>q. (q, pp_score p content q)) (filter (\<lambda>q. pp_keywordPatterns p q \<noteq> None) order)"

fun highest_loop :: "(Priority \<times> nat) list \<Rightarrow> nat \<Rightarrow> Priority \<Rightarrow> nat \<times> Priority" where
  "highest_loop [] highestScore highestPriority = (highestScore, highestPriority)"
| "highest_loop ((priority, score) # scores) highestScore highestPriority =
     (if score > highestScore then highest_loop scores score priority
      else highest_loop scores highestScore highestPriority)"

definition pp_analyzePriority :: "Priority list \<Rightarrow> message \<Rightarrow> Preprocessor \<Rightarrow> Priority" where
  "pp_analyzePriority order msg p =
     (let content = m_Content msg; md = (case m_Metadata msg of None \<Rightarrow> Map.empty | Some md \<Rightarrow> md)
      in if content = ''''
         then (case metadata_string md ''priority'' of
                 None \<Rightarrow> pp_defaultPriority p
               | Some s \<Rightarrow> (case priority_named s of None \<Rightarrow> pp_defaultPriority p | Some q \<Rightarrow> q))
         else (case highest_loop (pp_scores p content order) 0 (pp_defaultPriority p) of
                 (highestScore, highestPriority) \<Rightarrow>
                   if highestScore = 0 then pp_defaultPriority p else highestPriority))"

section \<open>Content analysis\<close>

definition count_words :: "string list \<Rightarrow> string list \<Rightarrow> nat" where
  "count_words vocabulary words =
     sum_list (map (\<lambda>w. length (filter (\<lambda>v. to_lower w = v) vocabulary)) words)"

definition pp_sentiment :: "Preprocessor \<Rightarrow> string list \<Rightarrow> string" where
  "pp_sentiment p words =
     (let positive = count_words (pp_positiveWords p) words; negative = count_words (pp_negativeWords p) words
      in if positive > negative then ''positive'' else if negative > positive then ''negative'' else ''neutral'')"

definition pp_is_question :: "Preprocessor \<Rightarrow> string \<Rightarrow> bool" where
  "pp_is_question p content =
     (if has_suffix content ''?'' then True
      else list_ex (\<lambda>keyword. contains (to_lower content) (keyword @ '' '') \<or> has_prefix (to_lower content) (keyword @ '' ''))
             (pp_questionWords p))"

definition pp_performContentAnalysis :: "message \<Rightarrow> Preprocessor \<Rightarrow> metadata \<Rightarrow> metadata" where
  "pp_performContentAnalysis msg p md =
     (let content = m_Content msg
      in if content = '''' then md
         else let words = go_fields content
              in md(''word_count'' \<mapsto> AInt (int (length words)), ''sentiment'' \<mapsto> AString (pp_sentiment p words),
                    ''contains_question'' \<mapsto> AString (if pp_is_question p content then ''true'' else ''false'')))"

text \<open>\<^verbatim>\<open>AnalyzeMessageContent\<close>, with its own copy of the three steps.\<close>

fun analyze_words :: "Preprocessor \<Rightarrow> string list \<Rightarrow> int \<Rightarrow> int \<Rightarrow> int \<times> int" where
  "analyze_words p [] positive negative = (positive, negative)"
| "analyze_words p (word # words) positive negative =
     (let wordLower = to_lower word
      in analyze_words p words
           (foldl (\<lambda>n v. if wordLower = v then n + 1 else n) positive (pp_positiveWords p))
           (foldl (\<lambda>n v. if wordLower = v then n + 1 else n) negative (pp_negativeWords p)))"

fun analyze_question :: "string \<Rightarrow> string list \<Rightarrow> bool" where
  "analyze_question content [] = False"
| "analyze_question content (keyword # keywords) =
     (if contains (to_lower content) (keyword @ '' '') \<or> has_prefix (to_lower content) (keyword @ '' '') then True
      else analyze_question content keywords)"

definition pp_AnalyzeMessageContent :: "string \<Rightarrow> Preprocessor \<Rightarrow> metadata" where
  "pp_AnalyzeMessageContent content p =
     (let words = go_fields content; (positive, negative) = analyze_words p words 0 0
      in [''word_count'' \<mapsto> AInt (int (length words)),
          ''sentiment'' \<mapsto> AString (if positive > negative then ''positive''
                                   else if negative > positive then ''negative'' else ''neutral''),
          ''is_question'' \<mapsto> ABool (has_suffix content ''?'' \<or> analyze_question content (pp_questionWords p))])"

section \<open>Processing a message\<close>

text \<open>The priority and the reason recorded for it, as the three branches set them.\<close>

definition pp_decide :: "Priority list \<Rightarrow> message \<Rightarrow> metadata \<Rightarrow> Preprocessor \<Rightarrow> Priority \<times> metadata" where
  "pp_decide order msg md p =
     (case metadata_string md ''user_priority'' of
        Some s \<Rightarrow>
          (case priority_named s of
             Some q \<Rightarrow> (q, md(''priority_reason'' \<mapsto> AString ''user_override''))
           | None \<Rightarrow> (m_Priority msg, md))
      | None \<Rightarrow>
          (case pp_userPriorities p (m_UserID msg) of
             Some q \<Rightarrow> (q, md(''priority_reason'' \<mapsto> AString ''user_default''))
           | None \<Rightarrow>
               let q = pp_analyzePriority order (msg\<lparr>m_Metadata := Some md\<rparr>) p
               in (q, if q \<noteq> m_Priority msg then md(''priority_reason'' \<mapsto> AString ''content_keywords'') else md)))"

definition pp_ProcessMessage :: "go_time \<times> go_time \<Rightarrow> Priority list \<Rightarrow> message \<Rightarrow> Preprocessor \<Rightarrow> message" where
  "pp_ProcessMessage nows order msg p =
     (let md = (case m_Metadata msg of None \<Rightarrow> Map.empty | Some md \<Rightarrow> md)
      in if m_Priority msg \<noteq> PriorityNormal \<and> m_Priority msg \<noteq> 0 then msg\<lparr>m_Metadata := Some md\<rparr>
         else let (priority, md1) = pp_decide order msg md p;
                  md2 = (pp_performContentAnalysis msg p md1)(''analyzed'' \<mapsto> ABool True)
              in msg\<lparr>m_Priority := priority, m_Metadata := Some md2,
                     m_QueueName := (if m_QueueName msg = '''' then Priority_String priority else m_QueueName msg),
                     m_CreatedAt := (if m_CreatedAt msg = zero_time then fst nows else m_CreatedAt msg),
                     m_UpdatedAt := snd nows\<rparr>)"


section \<open>The highest score\<close>

lemma highest_loop_spec:
  "highest_loop scores hs hp = (hs', hp') \<Longrightarrow>
   hs \<le> hs' \<and> (\<forall>(q, n) \<in> set scores. n \<le> hs') \<and> ((hs', hp') = (hs, hp) \<or> hs < hs' \<and> (hp', hs') \<in> set scores)"
proof (induction scores hs hp rule: highest_loop.induct)
  case (2 q n scores hs hp)
  show ?case
  proof (cases "hs < n")
    case True
    then show ?thesis using 2(1) [OF True] 2(3) by auto
  next
    case False
    then show ?thesis using 2(2) [OF False] 2(3) by auto
  qed
qed simp

lemma pp_scores_set:
  "(q, n) \<in> set (pp_scores p content order) \<longleftrightarrow> q \<in> set order \<and> pp_keywordPatterns p q \<noteq> None \<and> n = pp_score p content q"
  by (auto simp: pp_scores_def)

text \<open>The result is a priority with the highest score, or the default when all scores are 0.\<close>

lemma pp_analyzePriority_spec:
  assumes "m_Content msg \<noteq> ''''" and "dom (pp_keywordPatterns p) \<subseteq> set order"
  shows "let q = pp_analyzePriority order msg p; score = pp_score p (m_Content msg)
    in (\<forall>q'. score q' = 0) \<and> q = pp_defaultPriority p \<or> 0 < score q \<and> (\<forall>q'. score q' \<le> score q)"
proof -
  let ?c = "m_Content msg"
  obtain hs hp where h: "highest_loop (pp_scores p ?c order) 0 (pp_defaultPriority p) = (hs, hp)" by force
  note spec = highest_loop_spec [OF h]
  have le: "pp_score p ?c q \<le> hs" for q
  proof (cases "pp_keywordPatterns p q")
    case None
    then show ?thesis by (simp add: pp_score_def pp_GetKeywordPatterns_def)
  next
    case (Some rs)
    then have "(q, pp_score p ?c q) \<in> set (pp_scores p ?c order)" using assms(2) by (auto simp: pp_scores_set)
    then show ?thesis using spec by auto
  qed
  have res: "pp_analyzePriority order msg p = (if hs = 0 then pp_defaultPriority p else hp)"
    using assms(1) h by (simp add: pp_analyzePriority_def Let_def)
  show ?thesis
  proof (cases "hs = 0")
    case True
    then show ?thesis using le res by simp
  next
    case False
    then have "hs = pp_score p ?c hp" using spec by (auto simp: pp_scores_set)
    then show ?thesis using le res False by simp
  qed
qed

text \<open>The decision records only its reason, and is taken again on what it has left.\<close>

lemma pp_decide_metadata:
  assumes "pp_decide order msg md p = (q, md1)" and "k \<noteq> ''priority_reason''"
  shows "md1 k = md k"
  using assms by (auto simp: pp_decide_def Let_def split: option.splits if_splits)

lemma pp_decide_again:
  assumes "metadata_string md2 ''user_priority'' = metadata_string md ''user_priority''"
    and "metadata_string md2 ''priority'' = metadata_string md ''priority''"
    and "m_Content msg1 = m_Content msg" and "m_UserID msg1 = m_UserID msg"
    and "m_Priority msg1 = fst (pp_decide order msg md p)"
  shows "fst (pp_decide order msg1 md2 p) = fst (pp_decide order msg md p)"
proof -
  have "pp_analyzePriority order (msg1\<lparr>m_Metadata := Some md2\<rparr>) p = pp_analyzePriority order (msg\<lparr>m_Metadata := Some md\<rparr>) p"
    using assms by (simp add: pp_analyzePriority_def Let_def)
  then show ?thesis
    using assms by (simp add: pp_decide_def Let_def split: option.splits)
qed

section \<open>The two copies of the analysis\<close>

lemma foldl_count: "foldl (\<lambda>n v. if w = v then n + 1 else n) k vs = k + int (length (filter (\<lambda>v. w = v) vs))"
  by (induction vs arbitrary: k) simp_all

lemma analyze_words_count:
  "analyze_words p words k l =
   (k + int (count_words (pp_positiveWords p) words), l + int (count_words (pp_negativeWords p) words))"
  by (induction p words k l rule: analyze_words.induct) (simp_all add: Let_def foldl_count count_words_def)

lemma analyze_question_ex:
  "analyze_question content ks =
   list_ex (\<lambda>k. contains (to_lower content) (k @ '' '') \<or> has_prefix (to_lower content) (k @ '' '')) ks"
  by (induction ks) auto

section \<open>Keywords\<close>

lemma literal_ci_occurs: "lit \<noteq> [] \<Longrightarrow> literal_ci lit content = [] \<longleftrightarrow> \<not> sublist lit (to_lower content)"
  using find_all_ci_occurs [of lit content] by (auto simp: literal_ci_def contains_sublist)

lemma new_score:
  "pp_score NewPreprocessor content q =
     (if q = PriorityRealtime then sum_list (map (\<lambda>l. length (literal_ci l content)) realtime_patterns)
      else if q = PriorityHigh then sum_list (map (\<lambda>l. length (literal_ci l content)) high_patterns) else 0)"
  by (simp add: pp_score_def pp_GetKeywordPatterns_def NewPreprocessor_def comp_def priority_defs)

lemma new_score_zero:
  "pp_score NewPreprocessor content PriorityRealtime = 0 \<longleftrightarrow> \<not> (\<exists>k \<in> set realtime_patterns. sublist k (to_lower content))"
  "pp_score NewPreprocessor content PriorityHigh = 0 \<longleftrightarrow> \<not> (\<exists>k \<in> set high_patterns. sublist k (to_lower content))"
proof -
  have "[] \<notin> set realtime_patterns" "[] \<notin> set high_patterns" by (simp_all add: realtime_patterns_def high_patterns_def)
  then have "literal_ci k content = [] \<longleftrightarrow> \<not> sublist k (to_lower content)"
    if "k \<in> set realtime_patterns \<union> set high_patterns" for k
    using that by (intro literal_ci_occurs) auto
  then show "pp_score NewPreprocessor content PriorityRealtime = 0 \<longleftrightarrow> \<not> (\<exists>k \<in> set realtime_patterns. sublist k (to_lower content))"
    "pp_score NewPreprocessor content PriorityHigh = 0 \<longleftrightarrow> \<not> (\<exists>k \<in> set high_patterns. sublist k (to_lower content))"
    by (auto simp: new_score priority_defs sum_list_eq_0_iff)
qed


section \<open>Properties\<close>

text \<open>
  With the built-in patterns, a message with content, of normal or unset
  priority and without a priority from its user, becomes realtime when the realtime keywords
  match more often than the high ones, high in the opposite case, and stays normal exactly
  when no keyword occurs in it, in whatever case it is written; when both match equally often
  it is one of the two, which one depending on the order in which Go visits the map.
\<close>

theorem pp_keyword_priority:
  assumes "m_Content msg \<noteq> ''''" and "m_Priority msg = PriorityNormal \<or> m_Priority msg = 0"
    and "\<forall>md. m_Metadata msg = Some md \<longrightarrow> metadata_string md ''user_priority'' = None"
    and "{PriorityRealtime, PriorityHigh} \<subseteq> set order"
  shows "let q = m_Priority (pp_ProcessMessage nows order msg NewPreprocessor);
      r = pp_score NewPreprocessor (m_Content msg) PriorityRealtime; h = pp_score NewPreprocessor (m_Content msg) PriorityHigh
    in q \<in> {PriorityRealtime, PriorityHigh, PriorityNormal} \<and>
      (q = PriorityNormal \<longleftrightarrow> \<not> (\<exists>k \<in> set (realtime_patterns @ high_patterns). sublist k (to_lower (m_Content msg)))) \<and>
      (h < r \<longrightarrow> q = PriorityRealtime) \<and> (r < h \<longrightarrow> q = PriorityHigh)"
proof -
  define md where "md = (case m_Metadata msg of None \<Rightarrow> Map.empty | Some md \<Rightarrow> md)"
  let ?msg = "msg\<lparr>m_Metadata := Some md\<rparr>" and ?score = "pp_score NewPreprocessor (m_Content msg)"
  have none: "metadata_string md ''user_priority'' = None"
    using assms(3) by (cases "m_Metadata msg") (simp_all add: md_def metadata_string_def)
  have q: "m_Priority (pp_ProcessMessage nows order msg NewPreprocessor) = pp_analyzePriority order ?msg NewPreprocessor"
    using assms(2) none
    by (auto simp: pp_ProcessMessage_def md_def [symmetric] Let_def pp_decide_def NewPreprocessor_def case_prod_beta)
  have "dom (pp_keywordPatterns NewPreprocessor) \<subseteq> set order" using assms(4) by (auto simp: NewPreprocessor_def)
  from pp_analyzePriority_spec [of ?msg, OF _ this] assms(1)
  have spec: "(\<forall>q'. ?score q' = 0) \<and> pp_analyzePriority order ?msg NewPreprocessor = PriorityNormal \<or>
      0 < ?score (pp_analyzePriority order ?msg NewPreprocessor) \<and>
      (\<forall>q'. ?score q' \<le> ?score (pp_analyzePriority order ?msg NewPreprocessor))"
    by (simp add: Let_def NewPreprocessor_def)
  have other: "?score q' = 0" if "q' \<noteq> PriorityRealtime" "q' \<noteq> PriorityHigh" for q' using that by (simp add: new_score)
  have zero: "(?score PriorityRealtime = 0 \<and> ?score PriorityHigh = 0) \<longleftrightarrow>
      \<not> (\<exists>k \<in> set (realtime_patterns @ high_patterns). sublist k (to_lower (m_Content msg)))"
    unfolding new_score_zero by auto
  show ?thesis
    using spec
  proof
    assume z: "(\<forall>q'. ?score q' = 0) \<and> pp_analyzePriority order ?msg NewPreprocessor = PriorityNormal"
    then show ?thesis unfolding q zero [symmetric] by (simp add: Let_def)
  next
    assume p: "0 < ?score (pp_analyzePriority order ?msg NewPreprocessor) \<and>
      (\<forall>q'. ?score q' \<le> ?score (pp_analyzePriority order ?msg NewPreprocessor))"
    then have two: "pp_analyzePriority order ?msg NewPreprocessor = PriorityRealtime \<or>
        pp_analyzePriority order ?msg NewPreprocessor = PriorityHigh" using other by force
    have ne: "PriorityRealtime \<noteq> PriorityNormal" "PriorityHigh \<noteq> PriorityNormal" by (simp_all add: priority_defs)
    have R: "?score PriorityRealtime \<le> ?score (pp_analyzePriority order ?msg NewPreprocessor)"
      and H: "?score PriorityHigh \<le> ?score (pp_analyzePriority order ?msg NewPreprocessor)" using p by blast+
    have pos: "0 < ?score (pp_analyzePriority order ?msg NewPreprocessor)" using p by simp
    show ?thesis unfolding q zero [symmetric] Let_def using two R H pos ne by (elim disjE) auto
  qed
qed

definition sample_text :: "string \<Rightarrow> message" where
  "sample_text content = NewMessage ''id'' ''c'' ''u'' content PriorityNormal 1 2"

theorem pp_keyword_priority_witness:
  "m_Priority (pp_ProcessMessage (3, 4) [PriorityHigh, PriorityRealtime] (sample_text ''URGENT'') NewPreprocessor) = PriorityHigh"
proof -
  have "pp_score NewPreprocessor ''URGENT'' PriorityRealtime = 0" "pp_score NewPreprocessor ''URGENT'' PriorityHigh = 1"
    by (simp_all add: new_score priority_defs realtime_patterns_def high_patterns_def literal_ci_def to_lower_def
        lower_char_def has_prefix_def char_of_def bit_Suc_0_iff)
  then show ?thesis
    using pp_keyword_priority [of "sample_text ''URGENT''" "[PriorityHigh, PriorityRealtime]" "(3, 4)"]
    by (simp add: sample_text_def NewMessage_def metadata_string_def Let_def)
qed

text \<open>
  The two copies of the content analysis agree, for any word lists: the
  metadata that processing a message adds has the word count and the sentiment that
  \<^verbatim>\<open>AnalyzeMessageContent\<close> returns, and says \<open>true\<close> where that finds a question.
\<close>

theorem pp_analyses_agree:
  assumes "m_Content msg \<noteq> ''''"
  shows "let md' = pp_performContentAnalysis msg p md; res = pp_AnalyzeMessageContent (m_Content msg) p
    in md' ''word_count'' = res ''word_count'' \<and> md' ''sentiment'' = res ''sentiment'' \<and>
      (md' ''contains_question'' = Some (AString ''true'') \<longleftrightarrow> res ''is_question'' = Some (ABool True))"
  using assms
  by (simp add: pp_performContentAnalysis_def pp_AnalyzeMessageContent_def Let_def analyze_words_count pp_sentiment_def
      analyze_question_ex pp_is_question_def)

theorem pp_analyses_agree_witness:
  "pp_performContentAnalysis (sample_text ''how good'') NewPreprocessor Map.empty ''sentiment'' =
   pp_AnalyzeMessageContent ''how good'' NewPreprocessor ''sentiment''"
  using pp_analyses_agree [of "sample_text ''how good''" NewPreprocessor Map.empty]
  by (simp add: sample_text_def NewMessage_def Let_def)

text \<open>
  Processing a processed message again, at any later time, with any
  preprocessor settings and the maps visited in the same order, changes neither its priority
  nor its queue.
\<close>

theorem pp_process_again:
  "let msg1 = pp_ProcessMessage nows order msg p; msg2 = pp_ProcessMessage nows' order msg1 p
   in m_Priority msg2 = m_Priority msg1 \<and> m_QueueName msg2 = m_QueueName msg1 \<and> m_Content msg2 = m_Content msg"
proof (cases "m_Priority msg \<noteq> PriorityNormal \<and> m_Priority msg \<noteq> 0")
  case True
  then show ?thesis by (simp add: pp_ProcessMessage_def Let_def)
next
  case False
  define md where "md = (case m_Metadata msg of None \<Rightarrow> Map.empty | Some md \<Rightarrow> md)"
  obtain q md1 where d: "pp_decide order msg md p = (q, md1)" by force
  define md2 where "md2 = (pp_performContentAnalysis msg p md1)(''analyzed'' \<mapsto> ABool True)"
  define msg1 where "msg1 = pp_ProcessMessage nows order msg p"
  have m1: "m_Priority msg1 = q" "m_Metadata msg1 = Some md2" "m_Content msg1 = m_Content msg"
      "m_UserID msg1 = m_UserID msg" "m_QueueName msg1 \<noteq> ''''"
    using False d by (auto simp: msg1_def pp_ProcessMessage_def md_def [symmetric] Let_def md2_def Priority_String_def)
  have keys: "md2 ''user_priority'' = md ''user_priority''" "md2 ''priority'' = md ''priority''"
    using pp_decide_metadata [OF d] by (simp_all add: md2_def pp_performContentAnalysis_def Let_def)
  have again: "fst (pp_decide order msg1 md2 p) = q"
    using pp_decide_again [of md2 md msg1 msg order p] m1 d by (simp add: metadata_string_def keys)
  have m2: "m_Priority (pp_ProcessMessage nows' order msg1 p) = q"
    "m_QueueName (pp_ProcessMessage nows' order msg1 p) = m_QueueName msg1"
    "m_Content (pp_ProcessMessage nows' order msg1 p) = m_Content msg1"
    using again m1(1,2,5)
    by (simp_all add: pp_ProcessMessage_def [of nows' order msg1] Let_def case_prod_beta)
  show ?thesis by (simp add: Let_def msg1_def [symmetric] m1 m2)
qed

text \<open>
  Words without white space, each followed by any white space, are counted
  and read back whatever that white space is.
\<close>

theorem pp_word_count:
  assumes "\<forall>(w, sp) \<in> set ws. w \<noteq> [] \<and> (\<forall>c \<in> set w. \<not> is_space c) \<and> sp \<noteq> [] \<and> (\<forall>c \<in> set sp. is_space c)"
  shows "pp_AnalyzeMessageContent (concat (map (\<lambda>(w, sp). w @ sp) ws)) p ''word_count'' = Some (AInt (int (length ws))) \<and>
    go_fields (concat (map (\<lambda>(w, sp). w @ sp) ws)) = map fst ws"
  using fields_words [OF assms] by (simp add: pp_AnalyzeMessageContent_def Let_def case_prod_beta)

theorem pp_word_count_witness: "pp_AnalyzeMessageContent ''go  fast '' NewPreprocessor ''word_count'' = Some (AInt 2)"
proof -
  have "\<forall>(w, sp) \<in> set [(''go'', ''  ''), (''fast'', '' '')].
      w \<noteq> [] \<and> (\<forall>c \<in> set w. \<not> is_space c) \<and> sp \<noteq> [] \<and> (\<forall>c \<in> set sp. is_space c)"
    by (simp add: is_space_def)
  from pp_word_count [OF this] show ?thesis by simp
qed

end
