(* ===== verification/GoTime.thy ===== *)
theory GoTime
  imports Prelude Printing
begin

text \<open>
  The text of a \<^verbatim>\<open>time.Time\<close> in JSON (RFC 3339 with nanoseconds, in UTC) and its reading:
  the proleptic Gregorian calendar from year 0, fixed-width decimal fields, and that the
  reading gives the time back. \<^verbatim>\<open>MarshalJSON\<close> refuses years outside 0 to 9999.
\<close>

section \<open>Calendar\<close>

definition leap :: "nat \<Rightarrow> bool" where
  "leap y \<longleftrightarrow> y mod 4 = 0 \<and> (y mod 100 \<noteq> 0 \<or> y mod 400 = 0)"

definition days_before_year :: "nat \<Rightarrow> nat" where
  "days_before_year y = 365 * y + (y + 3) div 4 + (y + 399) div 400 - (y + 99) div 100"

lemma days_before_Suc: "days_before_year (Suc y) = days_before_year y + (if leap y then 366 else 365)"
proof -
  have step: "(Suc y + k) div Suc k = (y + k) div Suc k + (if y mod Suc k = 0 then 1 else 0)" for k
  proof -
    have "(Suc y + k) mod Suc k = y mod Suc k" using mod_add_self2 [of y "Suc k"] by simp
    then show ?thesis using div_Suc [of "y + k" "Suc k"] by simp
  qed
  have le: "(y + 99) div 100 \<le> (y + 3) div 4"
    using div_mult_mod_eq [of "y + 99" 100] div_mult_mod_eq [of "y + 3" 4] mod_less_divisor [of 4 "y + 3"] by linarith
  have "y mod 4 = y mod 100 mod 4" "y mod 100 = y mod 400 mod 100" by (simp_all add: mod_mod_cancel)
  then have imp: "y mod 100 = 0 \<Longrightarrow> y mod 4 = 0" "y mod 400 = 0 \<Longrightarrow> y mod 100 = 0" by auto
  have s: "(Suc y + 3) div 4 = (y + 3) div 4 + (if y mod 4 = 0 then 1 else 0)"
    "(Suc y + 99) div 100 = (y + 99) div 100 + (if y mod 100 = 0 then 1 else 0)"
    "(Suc y + 399) div 400 = (y + 399) div 400 + (if y mod 400 = 0 then 1 else 0)"
    using step [of 3] step [of 99] step [of 399] by simp_all
  define A B C where "A = (y + 3) div 4" and "B = (y + 99) div 100" and "C = (y + 399) div 400"
  show ?thesis
    unfolding days_before_year_def leap_def s A_def [symmetric] B_def [symmetric] C_def [symmetric]
    using imp le [folded A_def B_def] by auto
qed

lemma days_before_ge: "y \<le> days_before_year y"
  by (induction y) (simp_all add: days_before_Suc days_before_year_def [of 0])

function year_from :: "nat \<Rightarrow> nat \<Rightarrow> nat" where
  "year_from y n = (if days_before_year (Suc y) \<le> n then year_from (Suc y) n else y)"
  by auto
termination
  by (relation "measure (\<lambda>(y, n). n + 1 - y)") (auto dest: order.trans [OF days_before_ge])

declare year_from.simps [simp del]

lemma year_from_spec:
  "days_before_year y \<le> n \<Longrightarrow>
   days_before_year (year_from y n) \<le> n \<and> n < days_before_year (Suc (year_from y n))"
proof (induction y n rule: year_from.induct)
  case (1 y n)
  then show ?case by (subst (1 2) year_from.simps) auto
qed

lemma days_before_le: "days_before_year y \<le> 366 * y"
  by (induction y) (simp_all add: days_before_Suc days_before_year_def [of 0])

definition month_lengths :: "nat \<Rightarrow> nat list" where
  "month_lengths y = [31, if leap y then 29 else 28, 31, 30, 31, 30, 31, 31, 30, 31, 30, 31]"

fun month_of :: "nat list \<Rightarrow> nat \<Rightarrow> nat \<times> nat" where
  "month_of [] d = (0, d)"
| "month_of (l # ls) d = (if d < l then (0, d) else case month_of ls (d - l) of (m, r) \<Rightarrow> (Suc m, r))"

lemma month_of_spec:
  "month_of ls d = (m, r) \<Longrightarrow> d < sum_list ls \<Longrightarrow> m < length ls \<and> r < ls ! m \<and> sum_list (take m ls) + r = d"
proof (induction ls d arbitrary: m r rule: month_of.induct)
  case (2 l ls d)
  show ?case
  proof (cases "d < l")
    case True
    then show ?thesis using 2(2) by auto
  next
    case False
    obtain m' where m': "month_of ls (d - l) = (m', r)" "m = Suc m'" using 2(2) False by (auto split: prod.splits)
    have "d - l < sum_list ls" using 2(3) False by simp
    from 2(1) [OF False m'(1) this] show ?thesis using False by (auto simp: m'(2))
  qed
qed simp

text \<open>Year, month and day from the number of days since January 1 of year 0, and back.\<close>

definition civil :: "nat \<Rightarrow> nat \<times> nat \<times> nat" where
  "civil n =
     (let y = year_from (n div 366) n; (m, r) = month_of (month_lengths y) (n - days_before_year y)
      in (y, Suc m, Suc r))"

definition of_civil :: "nat \<Rightarrow> nat \<Rightarrow> nat \<Rightarrow> nat" where
  "of_civil y m d = days_before_year y + sum_list (take (m - 1) (month_lengths y)) + (d - 1)"

definition valid_date :: "nat \<Rightarrow> nat \<Rightarrow> nat \<Rightarrow> bool" where
  "valid_date y m d \<longleftrightarrow> 1 \<le> m \<and> m \<le> 12 \<and> 1 \<le> d \<and> d \<le> month_lengths y ! (m - 1)"

lemma civil_spec:
  assumes "civil n = (y, m, d)"
  shows "of_civil y m d = n" and "valid_date y m d" and "d < 100"
proof -
  obtain m' r where m: "month_of (month_lengths y) (n - days_before_year y) = (m', r)" by force
  have y: "year_from (n div 366) n = y" using assms by (simp add: civil_def Let_def split: prod.splits)
  have md: "m = Suc m'" "d = Suc r" using assms m by (simp_all add: civil_def Let_def y)
  have "days_before_year (n div 366) \<le> n" using days_before_le [of "n div 366"] by (auto dest: order.trans)
  from year_from_spec [OF this] have le: "days_before_year y \<le> n" "n < days_before_year (Suc y)" by (simp_all add: y)
  have "n - days_before_year y < sum_list (month_lengths y)"
    using le by (simp add: days_before_Suc month_lengths_def split: if_splits)
  from month_of_spec [OF m this] have spec: "m' < 12" "r < month_lengths y ! m'"
    "sum_list (take m' (month_lengths y)) + r = n - days_before_year y"
    by (simp_all add: month_lengths_def)
  show "of_civil y m d = n" using spec le md by (simp add: of_civil_def)
  show "valid_date y m d" using spec md by (simp add: valid_date_def)
  have "month_lengths y ! m' \<in> set (month_lengths y)" using spec(1) by (intro nth_mem) (simp add: month_lengths_def)
  then have "month_lengths y ! m' \<le> 31" by (auto simp: month_lengths_def split: if_splits)
  then show "d < 100" using spec(2) md by simp
qed

section \<open>Decimal fields\<close>

fun pad :: "nat \<Rightarrow> nat \<Rightarrow> string" where
  "pad 0 n = []"
| "pad (Suc w) n = pad w (n div 10) @ [digit (n mod 10)]"

definition digit_value :: "char \<Rightarrow> nat option" where
  "digit_value c = (let v = of_char c in if 48 \<le> v \<and> v \<le> 57 then Some (v - 48) else None)"

fun read_digits :: "nat \<Rightarrow> string \<Rightarrow> nat option" where
  "read_digits acc [] = Some acc"
| "read_digits acc (c # s) = (case digit_value c of None \<Rightarrow> None | Some v \<Rightarrow> read_digits (acc * 10 + v) s)"

lemma digit_value_digit [simp]: "d < 10 \<Longrightarrow> digit_value (digit d) = Some d"
  by (simp add: digit_value_def digit_def)

lemma length_pad [simp]: "length (pad w n) = w"
  by (induction w n rule: pad.induct) simp_all

lemma read_digits_append:
  "read_digits acc (s @ t) = (case read_digits acc s of None \<Rightarrow> None | Some acc' \<Rightarrow> read_digits acc' t)"
  by (induction acc s rule: read_digits.induct) (simp_all split: option.split)

lemma read_pad: "read_digits acc (pad w n) = Some (acc * 10 ^ w + n mod 10 ^ w)"
proof (induction w n rule: pad.induct)
  case (2 w n)
  have "n mod (10 * 10 ^ w) = 10 * (n div 10 mod 10 ^ w) + n mod 10" by (rule mod_mult2_eq)
  then show ?case using 2 by (simp add: read_digits_append algebra_simps)
qed simp

lemma read_pad_small [simp]: "n < 10 ^ w \<Longrightarrow> read_digits 0 (pad w n) = Some n"
  by (simp add: read_pad)

section \<open>Times\<close>

text \<open>The fraction of a second, without trailing zeros; nothing when it is 0.\<close>

definition show_fraction :: "nat \<Rightarrow> string" where
  "show_fraction ns =
     (if ns = 0 then [] else CHR ''.'' # rev (dropWhile (\<lambda>c. c = CHR ''0'') (rev (pad 9 ns))))"

definition read_fraction :: "string \<Rightarrow> nat option" where
  "read_fraction s =
     (case s of
        [] \<Rightarrow> Some 0
      | c # digits \<Rightarrow>
          if c = CHR ''.'' \<and> digits \<noteq> [] \<and> length digits \<le> 9
          then read_digits 0 (digits @ replicate (9 - length digits) (CHR ''0'')) else None)"

text \<open>Years 0 to 9999 are 366 days before the zero time to 3652059 after it.\<close>

definition year0_days :: nat where "year0_days = 366"

definition show_instant :: "nat \<Rightarrow> nat \<Rightarrow> string option" where
  "show_instant days ns =
     (case civil days of
        (y, m, d) \<Rightarrow>
          if 9999 < y then None
          else Some (pad 4 y @ ''-'' @ pad 2 m @ ''-'' @ pad 2 d @ ''T'' @
                 pad 2 (ns div 3600000000000) @ '':'' @ pad 2 (ns div 60000000000 mod 60) @ '':'' @
                 pad 2 (ns div 1000000000 mod 60) @ show_fraction (ns mod 1000000000) @ ''Z''))"

definition show_time :: "go_time \<Rightarrow> string option" where
  "show_time t =
     (let n = t + int year0_days * (24 * hour)
      in if n < 0 then None else show_instant (nat (n div (24 * hour))) (nat (n mod (24 * hour))))"

definition time_of_fields :: "nat \<Rightarrow> nat \<Rightarrow> nat \<Rightarrow> nat \<Rightarrow> nat \<Rightarrow> nat \<Rightarrow> nat \<Rightarrow> go_time" where
  "time_of_fields y m d h mi sec ns =
     (int (of_civil y m d) - int year0_days) * (24 * hour) +
     int (((h * 60 + mi) * 60 + sec) * 1000000000 + ns)"

text \<open>Reading: the separators are in place, every field is a number in its range.\<close>

definition read_time :: "string \<Rightarrow> go_time option" where
  "read_time s =
     (if length s < 20 \<or> s ! 4 \<noteq> CHR ''-'' \<or> s ! 7 \<noteq> CHR ''-'' \<or> s ! 10 \<noteq> CHR ''T'' \<or> s ! 13 \<noteq> CHR '':'' \<or>
         s ! 16 \<noteq> CHR '':'' \<or> last s \<noteq> CHR ''Z'' then None
      else case (read_digits 0 (take 4 s), read_digits 0 (take 2 (drop 5 s)), read_digits 0 (take 2 (drop 8 s)),
                 read_digits 0 (take 2 (drop 11 s)), read_digits 0 (take 2 (drop 14 s)),
                 read_digits 0 (take 2 (drop 17 s)), read_fraction (butlast (drop 19 s)))
           of (Some y, Some m, Some d, Some h, Some mi, Some sec, Some ns) \<Rightarrow>
                if valid_date y m d \<and> h < 24 \<and> mi < 60 \<and> sec < 60 then Some (time_of_fields y m d h mi sec ns) else None
            | _ \<Rightarrow> None)"

lemma read_show_fraction: "ns < 1000000000 \<Longrightarrow> read_fraction (show_fraction ns) = Some ns"
proof -
  assume ns: "ns < 1000000000"
  show ?thesis
  proof (cases "ns = 0")
    case False
    let ?z = "\<lambda>c. c = CHR ''0''"
    define kept where "kept = rev (dropWhile ?z (rev (pad 9 ns)))"
    define zeros where "zeros = takeWhile ?z (rev (pad 9 ns))"
    have "zeros = replicate (length zeros) (CHR ''0'')"
      unfolding zeros_def by (rule replicate_length_same [symmetric]) (auto dest: set_takeWhileD)
    then have rz: "rev zeros = replicate (length zeros) (CHR ''0'')" by (metis rev_replicate)
    have split: "pad 9 ns = kept @ rev zeros"
      unfolding kept_def zeros_def rev_append [symmetric] takeWhile_dropWhile_id by (rule rev_rev_ident [symmetric])
    then have len: "length kept + length zeros = 9" by (metis length_append length_pad length_rev)
    have read: "read_digits 0 (pad 9 ns) = Some ns" using ns by (intro read_pad_small) simp
    have "read_digits 0 (replicate k (CHR ''0'')) = Some 0" for k
      by (induction k) (simp_all add: digit_value_def)
    then have "kept \<noteq> []" using read split rz False by (metis append_Nil option.inject)
    moreover have "kept @ replicate (9 - length kept) (CHR ''0'') = pad 9 ns" using split rz len by simp
    ultimately show ?thesis
      using read len False by (simp add: read_fraction_def show_fraction_def kept_def [symmetric])
  qed (simp add: read_fraction_def show_fraction_def)
qed

lemma pad_4E: obtains a b c d where "pad 4 n = [a, b, c, d]"
proof -
  have "length (pad 4 n) = Suc (Suc (Suc (Suc 0)))" by simp
  then show thesis using that by (auto simp only: length_Suc_conv length_0_conv)
qed

lemma pad_2E: obtains a b where "pad 2 n = [a, b]"
proof -
  have "length (pad 2 n) = Suc (Suc 0)" by simp
  then show thesis using that by (auto simp only: length_Suc_conv length_0_conv)
qed

lemma read_time_fields:
  assumes "y < 10000" "valid_date y m d" "d < 100" "h < 24" "mi < 60" "sec < 60" "ns < 1000000000"
  shows "read_time (pad 4 y @ ''-'' @ pad 2 m @ ''-'' @ pad 2 d @ ''T'' @ pad 2 h @ '':'' @ pad 2 mi @ '':'' @
      pad 2 sec @ show_fraction ns @ ''Z'') = Some (time_of_fields y m d h mi sec ns)"
proof -
  have m: "m < 100" using assms(2) by (simp add: valid_date_def)
  obtain a b c e where y: "pad 4 y = [a, b, c, e]" by (rule pad_4E)
  obtain m1 m2 where mm: "pad 2 m = [m1, m2]" by (rule pad_2E)
  obtain d1 d2 where dd: "pad 2 d = [d1, d2]" by (rule pad_2E)
  obtain h1 h2 where hh: "pad 2 h = [h1, h2]" by (rule pad_2E)
  obtain i1 i2 where ii: "pad 2 mi = [i1, i2]" by (rule pad_2E)
  obtain s1 s2 where ss: "pad 2 sec = [s1, s2]" by (rule pad_2E)
  have "read_digits 0 [a, b, c, e] = Some y" "read_digits 0 [m1, m2] = Some m" "read_digits 0 [d1, d2] = Some d"
    "read_digits 0 [h1, h2] = Some h" "read_digits 0 [i1, i2] = Some mi" "read_digits 0 [s1, s2] = Some sec"
    unfolding y [symmetric] mm [symmetric] dd [symmetric] hh [symmetric] ii [symmetric] ss [symmetric]
    using assms m by (simp_all del: pad.simps read_digits.simps)
  note reads = this read_show_fraction [OF assms(7)]
  show ?thesis
    unfolding read_time_def y mm dd hh ii ss using assms(2,4,5,6) reads
    by (simp add: butlast_append del: read_digits.simps)
qed

lemma read_show_instant:
  assumes "show_instant days ns = Some s" and "ns < 86400000000000"
  shows "read_time s = Some ((int days - int year0_days) * (24 * hour) + int ns)"
proof -
  obtain y m d where c: "civil days = (y, m, d)" by (cases "civil days") auto
  have y: "y < 10000" using assms(1) c by (simp add: show_instant_def split: if_splits)
  have s: "s = pad 4 y @ ''-'' @ pad 2 m @ ''-'' @ pad 2 d @ ''T'' @
      pad 2 (ns div 3600000000000) @ '':'' @ pad 2 (ns div 60000000000 mod 60) @ '':'' @
      pad 2 (ns div 1000000000 mod 60) @ show_fraction (ns mod 1000000000) @ ''Z''"
    using assms(1) c y by (simp add: show_instant_def)
  have h: "ns div 3600000000000 < 24" using assms(2) by (simp add: less_mult_imp_div_less)
  have mi: "ns div 3600000000000 * 60 + ns div 60000000000 mod 60 = ns div 60000000000"
    using div_mult_mod_eq [of "ns div 60000000000" 60] by (simp add: div_mult2_eq [symmetric])
  have sec: "ns div 60000000000 * 60 + ns div 1000000000 mod 60 = ns div 1000000000"
    using div_mult_mod_eq [of "ns div 1000000000" 60] by (simp add: div_mult2_eq [symmetric])
  have fields: "((ns div 3600000000000 * 60 + ns div 60000000000 mod 60) * 60 + ns div 1000000000 mod 60) * 1000000000
      + ns mod 1000000000 = ns"
    unfolding mi sec by (rule div_mult_mod_eq)
  have "read_time s = Some (time_of_fields y m d (ns div 3600000000000) (ns div 60000000000 mod 60)
      (ns div 1000000000 mod 60) (ns mod 1000000000))"
    unfolding s by (rule read_time_fields) (use y h civil_spec [OF c] in simp_all)
  then show ?thesis unfolding time_of_fields_def fields civil_spec(1) [OF c] .
qed

text \<open>Every time that can be written is read back; all times of the years 0 to 9999 can.\<close>

lemma read_show_time: "show_time t = Some s \<Longrightarrow> read_time s = Some t"
proof -
  assume s: "show_time t = Some s"
  let ?D = "24 * hour"
  define n where "n = t + int year0_days * ?D"
  have n: "0 \<le> n" using s by (simp add: show_time_def Let_def n_def split: if_splits)
  have i: "show_instant (nat (n div ?D)) (nat (n mod ?D)) = Some s"
    using s n by (simp only: show_time_def Let_def n_def [symmetric] not_less [symmetric] if_False)
  have "nat (n mod ?D) < 86400000000000" by (simp add: nat_less_iff)
  from read_show_instant [OF i this]
  have "read_time s = Some ((int (nat (n div ?D)) - int year0_days) * ?D + int (nat (n mod ?D)))" .
  also have "int (nat (n div ?D)) = n div ?D" using n by (simp add: pos_imp_zdiv_nonneg_iff)
  also have "int (nat (n mod ?D)) = n mod ?D" by simp
  also have "(n div ?D - int year0_days) * ?D + n mod ?D = n - int year0_days * ?D"
    using div_mult_mod_eq [of n ?D] by (simp add: left_diff_distrib)
  finally show ?thesis by (simp add: n_def)
qed

lemma days_before_mono: "y \<le> z \<Longrightarrow> days_before_year y \<le> days_before_year z"
  by (rule lift_Suc_mono_le) (simp add: days_before_Suc)

lemma show_time_defined:
  assumes "- (366 * (24 * hour)) \<le> t" and "t < 3652059 * (24 * hour)"
  shows "\<exists>s. show_time t = Some s"
proof -
  let ?D = "24 * hour"
  define n where "n = t + int year0_days * ?D"
  have n: "0 \<le> n" "n < 3652425 * ?D" using assms by (simp_all add: n_def year0_days_def)
  define days where "days = nat (n div ?D)"
  have days: "days < 3652425" using n by (simp add: days_def nat_less_iff div_less_iff_less_mult)
  obtain y m d where c: "civil days = (y, m, d)" by (cases "civil days") auto
  have "days_before_year y \<le> days"
    using civil_spec(1) [OF c] by (simp add: of_civil_def)
  then have "\<not> 10000 \<le> y" using days_before_mono [of 10000 y] days by (auto simp: days_before_year_def [of 10000])
  then have "\<exists>s. show_instant days (nat (n mod ?D)) = Some s" using c by (simp add: show_instant_def)
  then show ?thesis
    using n(1) by (simp only: show_time_def Let_def n_def [symmetric] days_def [symmetric] not_less [symmetric] if_False)
qed

end
