(* ===== verification/Json.thy ===== *)
theory Json
  imports Models GoTime "HOL-Library.Monad_Syntax"
begin

text \<open>
  \<^verbatim>\<open>encoding/json\<close> as the program uses it: \<^verbatim>\<open>Marshal\<close> and \<^verbatim>\<open>Unmarshal\<close> of
  conversations, messages and metadata. A text is represented by the value it denotes
  (objects as the list of their members in order). Strings are valid UTF-8.

  \<^verbatim>\<open>Marshal\<close> visits the keys of a map in sorted order: \<open>keys\<close> gives them for each map. It
  fails on a number that is not finite and on a time outside the years 0 to 9999. Decoding
  into \<^verbatim>\<open>interface{}\<close> makes every number a \<^verbatim>\<open>float64\<close> and leaves a time a string.
\<close>

datatype json =
    JNull
  | JBool bool
  | JInt int
  | JFloat float64
  | JString string
  | JArr "json list"
  | JObj "(string \<times> json) list"

fun opt_all :: "'a option list \<Rightarrow> 'a list option" where
  "opt_all [] = Some []"
| "opt_all (x # xs) = (case (x, opt_all xs) of (Some y, Some ys) \<Rightarrow> Some (y # ys) | _ \<Rightarrow> None)"

lemma opt_all_None [simp]: "opt_all xs = None \<longleftrightarrow> None \<in> set xs"
  by (induction xs) (auto split: option.splits)

lemma opt_all_Some: "opt_all xs = Some ys \<longleftrightarrow> xs = map Some ys"
  by (induction xs arbitrary: ys) (auto split: option.splits)

section \<open>Encoding\<close>

fun json_of_any :: "any \<Rightarrow> json option" where
  "json_of_any ANil = Some JNull"
| "json_of_any (ABool b) = Some (JBool b)"
| "json_of_any (AInt i) = Some (JInt i)"
| "json_of_any (AFloat f) = (case f of Fin _ \<Rightarrow> Some (JFloat f) | _ \<Rightarrow> None)"
| "json_of_any (AString s) = Some (JString s)"
| "json_of_any (ATime t) = map_option JString (show_time t)"
| "json_of_any (AList xs) = map_option JArr (opt_all (map json_of_any xs))"
| "json_of_any (AMap kvs) =
     map_option JObj (opt_all (map (\<lambda>kv. map_option (Pair (fst kv)) (json_of_any (snd kv))) kvs))"

type_synonym key_order = "metadata \<Rightarrow> string list"

definition json_of_metadata :: "key_order \<Rightarrow> metadata option \<Rightarrow> json option" where
  "json_of_metadata keys md =
     (case md of
        None \<Rightarrow> Some JNull
      | Some md \<Rightarrow>
          map_option JObj (opt_all (map (\<lambda>k. case md k of None \<Rightarrow> None | Some v \<Rightarrow> map_option (Pair k) (json_of_any v)) (keys md))))"

definition json_of_time :: "go_time \<Rightarrow> json option" where
  "json_of_time t = map_option JString (show_time t)"

definition json_of_time_ptr :: "go_time option \<Rightarrow> json option" where
  "json_of_time_ptr t = (case t of None \<Rightarrow> Some JNull | Some t \<Rightarrow> json_of_time t)"

text \<open>An object from its members; the encoding fails when that of a member does.\<close>

definition json_object :: "(string \<times> json option) list \<Rightarrow> json option" where
  "json_object ms = map_option JObj (opt_all (map (\<lambda>m. map_option (Pair (fst m)) (snd m)) ms))"

definition json_of_message :: "key_order \<Rightarrow> message \<Rightarrow> json option" where
  "json_of_message keys m =
     json_object
       [(''id'', Some (JString (m_ID m))), (''conversation_id'', Some (JString (m_ConversationID m))),
        (''user_id'', Some (JString (m_UserID m))), (''content'', Some (JString (m_Content m))),
        (''priority'', Some (JInt (m_Priority m))), (''status'', Some (JString (m_Status m))),
        (''queue_name'', Some (JString (m_QueueName m))), (''retry_count'', Some (JInt (m_RetryCount m))),
        (''max_retries'', Some (JInt (m_MaxRetries m))), (''timeout'', Some (JInt (m_Timeout m))),
        (''created_at'', json_of_time (m_CreatedAt m)), (''updated_at'', json_of_time (m_UpdatedAt m)),
        (''scheduled_at'', json_of_time_ptr (m_ScheduledAt m)), (''completed_at'', json_of_time_ptr (m_CompletedAt m)),
        (''metadata'', json_of_metadata keys (m_Metadata m))]"

definition json_of_messages :: "key_order \<Rightarrow> message list \<Rightarrow> json option" where
  "json_of_messages keys ms = map_option JArr (opt_all (map (json_of_message keys) ms))"

definition json_of_conversation :: "key_order \<Rightarrow> Conversation \<Rightarrow> json option" where
  "json_of_conversation keys c =
     json_object
       [(''id'', Some (JString (c_ID c))), (''user_id'', Some (JString (c_UserID c))),
        (''title'', Some (JString (c_Title c))), (''context'', Some (JString (c_Context c))),
        (''status'', Some (JString (c_Status c))), (''state'', Some (JString (c_State c))),
        (''priority'', Some (JInt (c_Priority c))), (''message_count'', Some (JInt (c_MessageCount c))),
        (''last_activity'', json_of_time (c_LastActivity c)), (''last_active_time'', json_of_time (c_LastActiveTime c)),
        (''created_at'', json_of_time (c_CreatedAt c)), (''updated_at'', json_of_time (c_UpdatedAt c)),
        (''completed_at'', json_of_time (c_CompletedAt c)), (''messages'', json_of_messages keys (c_Messages c)),
        (''metadata'', json_of_metadata keys (c_Metadata c))]"

section \<open>Decoding\<close>

fun any_of_json :: "json \<Rightarrow> any" where
  "any_of_json JNull = ANil"
| "any_of_json (JBool b) = ABool b"
| "any_of_json (JInt i) = AFloat (f64_of_int i)"
| "any_of_json (JFloat f) = AFloat f"
| "any_of_json (JString s) = AString s"
| "any_of_json (JArr xs) = AList (map any_of_json xs)"
| "any_of_json (JObj kvs) = AMap (map (\<lambda>kv. (fst kv, any_of_json (snd kv))) kvs)"

text \<open>
  A member of an object decoded into a field: the last one of that name counts, and a missing
  or a null one leaves the zero value. A value of the wrong kind is an error.
\<close>

definition member :: "string \<Rightarrow> (string \<times> json) list \<Rightarrow> json" where
  "member k kvs = (case map_of (rev kvs) k of None \<Rightarrow> JNull | Some j \<Rightarrow> j)"

fun string_of_json :: "json \<Rightarrow> string option" where
  "string_of_json JNull = Some ''''"
| "string_of_json (JString s) = Some s"
| "string_of_json _ = None"

fun int_of_json :: "json \<Rightarrow> int option" where
  "int_of_json JNull = Some 0"
| "int_of_json (JInt i) = (if in_int64 i then Some i else None)"
| "int_of_json _ = None"

fun time_of_json :: "json \<Rightarrow> go_time option" where
  "time_of_json JNull = Some zero_time"
| "time_of_json (JString s) = read_time s"
| "time_of_json _ = None"

fun time_ptr_of_json :: "json \<Rightarrow> go_time option option" where
  "time_ptr_of_json JNull = Some None"
| "time_ptr_of_json j = map_option Some (time_of_json j)"

fun metadata_of_json :: "json \<Rightarrow> metadata option option" where
  "metadata_of_json JNull = Some None"
| "metadata_of_json (JObj kvs) = Some (Some (\<lambda>k. map_option any_of_json (map_of (rev kvs) k)))"
| "metadata_of_json _ = None"

text \<open>The members read into a struct; \<^verbatim>\<open>null\<close> leaves it as it is.\<close>

fun members :: "json \<Rightarrow> (string \<times> json) list option" where
  "members JNull = Some []"
| "members (JObj kvs) = Some kvs"
| "members _ = None"

definition message_of_json :: "json \<Rightarrow> message option" where
  "message_of_json j = do {
     kvs \<leftarrow> members j;
     i \<leftarrow> string_of_json (member ''id'' kvs);
     ci \<leftarrow> string_of_json (member ''conversation_id'' kvs);
     u \<leftarrow> string_of_json (member ''user_id'' kvs);
     ct \<leftarrow> string_of_json (member ''content'' kvs);
     p \<leftarrow> int_of_json (member ''priority'' kvs);
     st \<leftarrow> string_of_json (member ''status'' kvs);
     q \<leftarrow> string_of_json (member ''queue_name'' kvs);
     rc \<leftarrow> int_of_json (member ''retry_count'' kvs);
     mr \<leftarrow> int_of_json (member ''max_retries'' kvs);
     tm \<leftarrow> int_of_json (member ''timeout'' kvs);
     ca \<leftarrow> time_of_json (member ''created_at'' kvs);
     ua \<leftarrow> time_of_json (member ''updated_at'' kvs);
     sa \<leftarrow> time_ptr_of_json (member ''scheduled_at'' kvs);
     cp \<leftarrow> time_ptr_of_json (member ''completed_at'' kvs);
     md \<leftarrow> metadata_of_json (member ''metadata'' kvs);
     Some \<lparr>m_ID = i, m_ConversationID = ci, m_UserID = u, m_Content = ct, m_Priority = p, m_Status = st,
           m_QueueName = q, m_RetryCount = rc, m_MaxRetries = mr, m_Timeout = tm, m_CreatedAt = ca,
           m_UpdatedAt = ua, m_ScheduledAt = sa, m_CompletedAt = cp, m_Metadata = md\<rparr>
   }"

fun messages_of_json :: "json \<Rightarrow> message list option" where
  "messages_of_json JNull = Some []"
| "messages_of_json (JArr js) = opt_all (map message_of_json js)"
| "messages_of_json _ = None"

definition conversation_of_json :: "json \<Rightarrow> Conversation option" where
  "conversation_of_json j = do {
     kvs \<leftarrow> members j;
     i \<leftarrow> string_of_json (member ''id'' kvs);
     u \<leftarrow> string_of_json (member ''user_id'' kvs);
     ti \<leftarrow> string_of_json (member ''title'' kvs);
     cx \<leftarrow> string_of_json (member ''context'' kvs);
     su \<leftarrow> string_of_json (member ''status'' kvs);
     st \<leftarrow> string_of_json (member ''state'' kvs);
     p \<leftarrow> int_of_json (member ''priority'' kvs);
     mc \<leftarrow> int_of_json (member ''message_count'' kvs);
     la \<leftarrow> time_of_json (member ''last_activity'' kvs);
     lt \<leftarrow> time_of_json (member ''last_active_time'' kvs);
     ca \<leftarrow> time_of_json (member ''created_at'' kvs);
     ua \<leftarrow> time_of_json (member ''updated_at'' kvs);
     cp \<leftarrow> time_of_json (member ''completed_at'' kvs);
     ms \<leftarrow> messages_of_json (member ''messages'' kvs);
     md \<leftarrow> metadata_of_json (member ''metadata'' kvs);
     Some \<lparr>c_ID = i, c_UserID = u, c_Title = ti, c_Context = cx, c_Status = su, c_State = st, c_Priority = p,
           c_MessageCount = mc, c_LastActivity = la, c_LastActiveTime = lt, c_CreatedAt = ca, c_UpdatedAt = ua,
           c_CompletedAt = cp, c_Messages = ms, c_Metadata = md\<rparr>
   }"

section \<open>What a round trip changes\<close>

fun norm_any :: "any \<Rightarrow> any" where
  "norm_any (AInt i) = AFloat (f64_of_int i)"
| "norm_any (ATime t) = (case show_time t of None \<Rightarrow> ATime t | Some s \<Rightarrow> AString s)"
| "norm_any (AList xs) = AList (map norm_any xs)"
| "norm_any (AMap kvs) = AMap (map (\<lambda>kv. (fst kv, norm_any (snd kv))) kvs)"
| "norm_any x = x"

definition norm_metadata :: "metadata option \<Rightarrow> metadata option" where
  "norm_metadata md = map_option (\<lambda>md k. map_option norm_any (md k)) md"

definition norm_message :: "message \<Rightarrow> message" where
  "norm_message m = m\<lparr>m_Metadata := norm_metadata (m_Metadata m)\<rparr>"

definition norm_conversation :: "Conversation \<Rightarrow> Conversation" where
  "norm_conversation c =
     c\<lparr>c_Messages := map norm_message (c_Messages c), c_Metadata := norm_metadata (c_Metadata c)\<rparr>"

text \<open>Go's integers are in range, and \<open>keys\<close> lists the keys of every map that is encoded.\<close>

definition keys_ok :: "key_order \<Rightarrow> metadata option \<Rightarrow> bool" where
  "keys_ok keys md = (case md of None \<Rightarrow> True | Some md \<Rightarrow> set (keys md) = dom md)"

definition message_ok :: "key_order \<Rightarrow> message \<Rightarrow> bool" where
  "message_ok keys m \<longleftrightarrow> in_int64 (m_Priority m) \<and> in_int64 (m_RetryCount m) \<and> in_int64 (m_MaxRetries m) \<and>
     in_int64 (m_Timeout m) \<and> keys_ok keys (m_Metadata m)"

definition conversation_ok :: "key_order \<Rightarrow> Conversation \<Rightarrow> bool" where
  "conversation_ok keys c \<longleftrightarrow> in_int64 (c_Priority c) \<and> in_int64 (c_MessageCount c) \<and>
     keys_ok keys (c_Metadata c) \<and> list_all (message_ok keys) (c_Messages c)"

section \<open>Round trips\<close>

lemma opt_all_map:
  assumes "opt_all (map f xs) = Some ys" and "\<And>x y. x \<in> set xs \<Longrightarrow> f x = Some y \<Longrightarrow> g y = h x"
  shows "map g ys = map h xs"
  using assms by (induction xs arbitrary: ys) (auto split: option.splits)

lemma any_round_trip: "json_of_any x = Some j \<Longrightarrow> any_of_json j = norm_any x"
proof (induction x arbitrary: j rule: json_of_any.induct)
  case (7 xs)
  then obtain js where js: "j = JArr js" "opt_all (map json_of_any xs) = Some js" by auto
  from opt_all_map [OF js(2) 7(1)] show ?case by (simp add: js)
next
  case (8 kvs)
  then obtain js where js: "j = JObj js"
    "opt_all (map (\<lambda>kv. map_option (Pair (fst kv)) (json_of_any (snd kv))) kvs) = Some js" by auto
  have "map (\<lambda>kv. (fst kv, any_of_json (snd kv))) js = map (\<lambda>kv. (fst kv, norm_any (snd kv))) kvs"
    by (rule opt_all_map [OF js(2)]) (use 8(1) in auto)
  then show ?case by (simp add: js)
qed (auto split: float64.splits)

text \<open>The members of a map that was encoded with all its keys.\<close>

lemma opt_all_members:
  "opt_all (map (\<lambda>k. case md k of None \<Rightarrow> None | Some v \<Rightarrow> map_option (Pair k) (f v)) ks) = Some kvs \<Longrightarrow>
   map fst kvs = ks \<and> (\<forall>(k, j) \<in> set kvs. \<exists>v. md k = Some v \<and> f v = Some j)"
  by (induction ks arbitrary: kvs) (auto split: option.splits)

lemma metadata_round_trip:
  assumes "json_of_metadata keys md = Some j" and "keys_ok keys md"
  shows "metadata_of_json j = Some (norm_metadata md)"
proof (cases md)
  case None
  then show ?thesis using assms by (auto simp: json_of_metadata_def norm_metadata_def)
next
  case (Some m)
  then obtain kvs where j: "j = JObj kvs"
    "opt_all (map (\<lambda>k. case m k of None \<Rightarrow> None | Some v \<Rightarrow> map_option (Pair k) (json_of_any v)) (keys m)) = Some kvs"
    using assms(1) by (auto simp: json_of_metadata_def)
  note spec = opt_all_members [OF j(2)]
  have dom: "set (map fst kvs) = dom m" using spec assms(2) Some by (simp add: keys_ok_def)
  have "map_option any_of_json (map_of (rev kvs) k) = map_option norm_any (m k)" for k
  proof (cases "map_of (rev kvs) k")
    case None
    then have "k \<notin> set (map fst kvs)" by (simp add: map_of_eq_None_iff)
    then show ?thesis using None dom by auto
  next
    case (Some x)
    then have "(k, x) \<in> set kvs" by (auto dest: map_of_SomeD)
    then obtain v where "m k = Some v" "json_of_any v = Some x" using spec by auto
    then show ?thesis using Some any_round_trip by simp
  qed
  then show ?thesis using j(1) Some by (auto simp: norm_metadata_def)
qed

lemma members_object:
  "json_object ms = Some j \<Longrightarrow> \<exists>kvs. j = JObj kvs \<and> list_all2 (\<lambda>m kv. fst kv = fst m \<and> snd m = Some (snd kv)) ms kvs"
proof -
  have "opt_all (map (\<lambda>m. map_option (Pair (fst m)) (snd m)) ms) = Some kvs \<Longrightarrow>
    list_all2 (\<lambda>m kv. fst kv = fst m \<and> snd m = Some (snd kv)) ms kvs" for kvs
    by (induction ms arbitrary: kvs) (auto split: option.splits)
  then show "json_object ms = Some j \<Longrightarrow> ?thesis" by (auto simp: json_object_def)
qed

lemma object_member:
  assumes "json_object ms = Some (JObj kvs)" and "distinct (map fst ms)" and "(k, x) \<in> set ms"
  shows "x = Some (member k kvs)"
proof -
  have all: "list_all2 (\<lambda>m kv. fst kv = fst m \<and> snd m = Some (snd kv)) ms kvs" using members_object [OF assms(1)] by simp
  then have "map fst kvs = map fst ms" by (induction rule: list_all2_induct) simp_all
  then have d: "distinct (map fst (rev kvs))" using assms(2) by (simp add: rev_map [symmetric])
  obtain j where j: "(k, j) \<in> set kvs" "x = Some j"
    using all assms(3) by (induction rule: list_all2_induct) auto
  then have "map_of (rev kvs) k = Some j" using d by (intro map_of_is_SomeI) auto
  then show ?thesis using j(2) by (simp add: member_def)
qed

lemma time_round_trip: "json_of_time t = Some j \<Longrightarrow> time_of_json j = Some t"
  by (auto simp: json_of_time_def read_show_time)

lemma time_ptr_round_trip: "json_of_time_ptr t = Some j \<Longrightarrow> time_ptr_of_json j = Some t"
  by (auto simp: json_of_time_ptr_def json_of_time_def read_show_time split: option.splits)

lemma message_round_trip:
  assumes "json_of_message keys m = Some j" and "message_ok keys m"
  shows "message_of_json j = Some (norm_message m)"
proof -
  obtain kvs where j: "j = JObj kvs" using members_object [OF assms(1) [unfolded json_of_message_def]] by blast
  note mem = object_member [OF assms(1) [unfolded json_of_message_def j]]
  have s: "member ''id'' kvs = JString (m_ID m)" "member ''conversation_id'' kvs = JString (m_ConversationID m)"
    "member ''user_id'' kvs = JString (m_UserID m)" "member ''content'' kvs = JString (m_Content m)"
    "member ''status'' kvs = JString (m_Status m)" "member ''queue_name'' kvs = JString (m_QueueName m)"
    "member ''priority'' kvs = JInt (m_Priority m)" "member ''retry_count'' kvs = JInt (m_RetryCount m)"
    "member ''max_retries'' kvs = JInt (m_MaxRetries m)" "member ''timeout'' kvs = JInt (m_Timeout m)"
    using mem [of "''id''"] mem [of "''conversation_id''"] mem [of "''user_id''"] mem [of "''content''"] mem [of "''status''"]
      mem [of "''queue_name''"] mem [of "''priority''"] mem [of "''retry_count''"] mem [of "''max_retries''"] mem [of "''timeout''"]
    by simp_all
  have t: "time_of_json (member ''created_at'' kvs) = Some (m_CreatedAt m)"
    "time_of_json (member ''updated_at'' kvs) = Some (m_UpdatedAt m)"
    "time_ptr_of_json (member ''scheduled_at'' kvs) = Some (m_ScheduledAt m)"
    "time_ptr_of_json (member ''completed_at'' kvs) = Some (m_CompletedAt m)"
    "metadata_of_json (member ''metadata'' kvs) = Some (norm_metadata (m_Metadata m))"
    using assms(2) by (auto intro!: time_round_trip time_ptr_round_trip metadata_round_trip mem simp: message_ok_def)
  show ?thesis
    using assms(2) by (simp add: message_of_json_def j s t message_ok_def norm_message_def)
qed

lemma messages_round_trip:
  assumes "json_of_messages keys ms = Some j" and "list_all (message_ok keys) ms"
  shows "messages_of_json j = Some (map norm_message ms)"
proof -
  obtain js where j: "j = JArr js" "opt_all (map (json_of_message keys) ms) = Some js"
    using assms(1) by (auto simp: json_of_messages_def)
  have "map message_of_json js = map (\<lambda>m. Some (norm_message m)) ms"
    by (rule opt_all_map [OF j(2)]) (use assms(2) in \<open>auto simp: list_all_iff intro: message_round_trip\<close>)
  then show ?thesis by (simp add: j(1) opt_all_Some)
qed

lemma norm_any_idem [simp]: "norm_any (norm_any x) = norm_any x"
  by (induction x rule: norm_any.induct) (auto split: option.splits)

lemma norm_metadata_idem [simp]: "norm_metadata (norm_metadata md) = norm_metadata md"
  by (cases md) (auto simp: norm_metadata_def option.map_comp comp_def)

lemma norm_message_idem [simp]: "norm_message (norm_message m) = norm_message m"
  by (simp add: norm_message_def)

section \<open>What can be encoded\<close>

lemma json_object_None: "json_object ms = None \<longleftrightarrow> (\<exists>m \<in> set ms. snd m = None)"
  by (force simp: json_object_def)

definition time_ok :: "go_time \<Rightarrow> bool" where
  "time_ok t \<longleftrightarrow> - 31622400000000000 \<le> t \<and> t < 315537897600000000000"

lemma json_of_time_ok: "time_ok t \<Longrightarrow> json_of_time t \<noteq> None"
  using show_time_defined [of t] by (auto simp: time_ok_def json_of_time_def)

lemma json_of_time_ptr_ok: "(case t of None \<Rightarrow> True | Some t \<Rightarrow> time_ok t) \<Longrightarrow> json_of_time_ptr t \<noteq> None"
  using json_of_time_ok by (auto simp: json_of_time_ptr_def split: option.splits)

text \<open>Metadata of finite numbers and times that can be written.\<close>

definition metadata_ok :: "key_order \<Rightarrow> metadata option \<Rightarrow> bool" where
  "metadata_ok keys md = (case md of None \<Rightarrow> True
     | Some m \<Rightarrow> list_all (\<lambda>k. case m k of None \<Rightarrow> False | Some v \<Rightarrow> json_of_any v \<noteq> None) (keys m))"

lemma json_of_metadata_ok: "metadata_ok keys md \<Longrightarrow> json_of_metadata keys md \<noteq> None"
proof (cases md)
  case (Some m)
  assume "metadata_ok keys md"
  then have "None \<notin> set (map (\<lambda>k. case m k of None \<Rightarrow> None | Some v \<Rightarrow> map_option (Pair k) (json_of_any v)) (keys m))"
    using Some by (force simp: metadata_ok_def list_all_iff split: option.splits)
  then show ?thesis unfolding opt_all_None [symmetric] by (simp add: Some json_of_metadata_def)
qed (simp add: json_of_metadata_def)

definition message_times :: "message \<Rightarrow> go_time list" where
  "message_times m = [m_CreatedAt m, m_UpdatedAt m] @ (case m_ScheduledAt m of None \<Rightarrow> [] | Some t \<Rightarrow> [t]) @
     (case m_CompletedAt m of None \<Rightarrow> [] | Some t \<Rightarrow> [t])"

definition conversation_times :: "Conversation \<Rightarrow> go_time list" where
  "conversation_times c = [c_LastActivity c, c_LastActiveTime c, c_CreatedAt c, c_UpdatedAt c, c_CompletedAt c]"

lemma json_of_message_ok:
  assumes "list_all time_ok (message_times m)" and "metadata_ok keys (m_Metadata m)"
  shows "json_of_message keys m \<noteq> None"
proof -
  have t: "json_of_time (m_CreatedAt m) \<noteq> None" "json_of_time (m_UpdatedAt m) \<noteq> None"
    using assms(1) by (auto intro!: json_of_time_ok simp: message_times_def simp del: not_None_eq)
  have p: "json_of_time_ptr (m_ScheduledAt m) \<noteq> None" "json_of_time_ptr (m_CompletedAt m) \<noteq> None"
    using assms(1) by (auto intro!: json_of_time_ptr_ok simp: message_times_def simp del: not_None_eq split: option.splits)
  show ?thesis
    unfolding json_of_message_def json_object_None using t p json_of_metadata_ok [OF assms(2)] by (simp del: not_None_eq)
qed

definition encodable :: "key_order \<Rightarrow> Conversation \<Rightarrow> bool" where
  "encodable keys c \<longleftrightarrow> list_all time_ok (conversation_times c) \<and> metadata_ok keys (c_Metadata c) \<and>
     list_all (\<lambda>m. list_all time_ok (message_times m) \<and> metadata_ok keys (m_Metadata m)) (c_Messages c)"

lemma json_of_conversation_ok:
  assumes "encodable keys c"
  shows "json_of_conversation keys c \<noteq> None"
proof -
  have "None \<notin> set (map (json_of_message keys) (c_Messages c))"
    using assms json_of_message_ok by (force simp: encodable_def list_all_iff)
  then have ms: "json_of_messages keys (c_Messages c) \<noteq> None"
    unfolding opt_all_None [symmetric] by (simp add: json_of_messages_def)
  have "\<forall>t \<in> set (conversation_times c). json_of_time t \<noteq> None"
    using assms json_of_time_ok by (simp add: encodable_def list_all_iff del: not_None_eq)
  then show ?thesis
    unfolding json_of_conversation_def json_object_None conversation_times_def
    using ms json_of_metadata_ok [of keys "c_Metadata c"] assms by (simp add: encodable_def del: not_None_eq)
qed

lemma conversation_decodes:
  assumes "json_of_conversation keys c = Some j" and "conversation_ok keys c"
  shows "conversation_of_json j = Some (norm_conversation c)"
proof -
  obtain kvs where j: "j = JObj kvs" using members_object [OF assms(1) [unfolded json_of_conversation_def]] by blast
  note mem = object_member [OF assms(1) [unfolded json_of_conversation_def j]]
  have s: "member ''id'' kvs = JString (c_ID c)" "member ''user_id'' kvs = JString (c_UserID c)"
    "member ''title'' kvs = JString (c_Title c)" "member ''context'' kvs = JString (c_Context c)"
    "member ''status'' kvs = JString (c_Status c)" "member ''state'' kvs = JString (c_State c)"
    "member ''priority'' kvs = JInt (c_Priority c)" "member ''message_count'' kvs = JInt (c_MessageCount c)"
    using mem [of "''id''"] mem [of "''user_id''"] mem [of "''title''"] mem [of "''context''"] mem [of "''status''"]
      mem [of "''state''"] mem [of "''priority''"] mem [of "''message_count''"]
    by simp_all
  have t: "time_of_json (member ''last_activity'' kvs) = Some (c_LastActivity c)"
    "time_of_json (member ''last_active_time'' kvs) = Some (c_LastActiveTime c)"
    "time_of_json (member ''created_at'' kvs) = Some (c_CreatedAt c)"
    "time_of_json (member ''updated_at'' kvs) = Some (c_UpdatedAt c)"
    "time_of_json (member ''completed_at'' kvs) = Some (c_CompletedAt c)"
    "messages_of_json (member ''messages'' kvs) = Some (map norm_message (c_Messages c))"
    "metadata_of_json (member ''metadata'' kvs) = Some (norm_metadata (c_Metadata c))"
    using assms(2)
    by (auto intro!: time_round_trip messages_round_trip metadata_round_trip mem simp: conversation_ok_def)
  show ?thesis
    using assms(2) by (simp add: conversation_of_json_def j s t conversation_ok_def norm_conversation_def)
qed

text \<open>What survives whatever the ranges and the key order: identifiers and lengths.\<close>

definition same_outline :: "Conversation \<Rightarrow> Conversation \<Rightarrow> bool" where
  "same_outline c c' \<longleftrightarrow> c_ID c' = c_ID c \<and> c_UserID c' = c_UserID c \<and>
     length (c_Messages c') = length (c_Messages c) \<and> (c_Metadata c' = None \<longleftrightarrow> c_Metadata c = None)"

lemma messages_length:
  assumes "json_of_messages keys ms = Some j" and "messages_of_json j = Some ms'"
  shows "length ms' = length ms"
proof -
  obtain js where js: "j = JArr js" "opt_all (map (json_of_message keys) ms) = Some js"
    using assms(1) by (auto simp: json_of_messages_def)
  then have "map message_of_json js = map Some ms'" "map (json_of_message keys) ms = map Some js"
    using assms(2) by (simp_all add: opt_all_Some)
  from this [THEN arg_cong, of length] show ?thesis by simp
qed

lemma metadata_nil: "json_of_metadata keys md = Some j \<Longrightarrow> metadata_of_json j = Some md' \<Longrightarrow> md' = None \<longleftrightarrow> md = None"
  by (auto simp: json_of_metadata_def split: option.splits)

lemma conversation_outline:
  assumes "json_of_conversation keys c = Some j" and "conversation_of_json j = Some c'"
  shows "same_outline c c'"
proof -
  obtain kvs where j: "j = JObj kvs" using members_object [OF assms(1) [unfolded json_of_conversation_def]] by blast
  note mem = object_member [OF assms(1) [unfolded json_of_conversation_def j]]
  have out: "string_of_json (member ''id'' kvs) = Some (c_ID c')" "string_of_json (member ''user_id'' kvs) = Some (c_UserID c')"
    "messages_of_json (member ''messages'' kvs) = Some (c_Messages c')"
    "metadata_of_json (member ''metadata'' kvs) = Some (c_Metadata c')"
    using assms(2) by (auto simp: conversation_of_json_def j Option.bind_eq_Some_conv)
  have "member ''id'' kvs = JString (c_ID c)" "member ''user_id'' kvs = JString (c_UserID c)"
    using mem [of "''id''"] mem [of "''user_id''"] by simp_all
  moreover have "json_of_messages keys (c_Messages c) = Some (member ''messages'' kvs)"
    "json_of_metadata keys (c_Metadata c) = Some (member ''metadata'' kvs)"
    by (auto intro!: mem)
  ultimately show ?thesis
    using out messages_length metadata_nil by (auto simp: same_outline_def)
qed

lemma norm_outline: "same_outline c (norm_conversation c)"
  by (simp add: same_outline_def norm_conversation_def norm_metadata_def)

section \<open>Properties\<close>

text \<open>
  C31 (JSON round trip). Decoding the encoding of a conversation gives it back, its messages
  and metadata included, with integers in metadata turned into \<^verbatim>\<open>float64\<close> and times in
  metadata into strings; what has gone through once is not changed by going through again.
\<close>

theorem conversation_round_trip:
  assumes "json_of_conversation keys c = Some j" and "conversation_ok keys c"
  shows "conversation_of_json j = Some (norm_conversation c) \<and>
    norm_conversation (norm_conversation c) = norm_conversation c"
  using conversation_decodes [OF assms] by (simp add: norm_conversation_def)

definition sample_conversation :: "string \<Rightarrow> string \<Rightarrow> Conversation" where
  "sample_conversation i u =
     \<lparr>c_ID = i, c_UserID = u, c_Title = '''', c_Context = '''', c_Status = '''', c_State = ConversationStateActive,
      c_Priority = 0, c_MessageCount = 0, c_LastActivity = 0, c_LastActiveTime = 5, c_CreatedAt = 5, c_UpdatedAt = 0,
      c_CompletedAt = 0, c_Messages = [], c_Metadata = Some [''n'' \<mapsto> AInt 3]\<rparr>"

definition sample_keys :: key_order where
  "sample_keys md = (if md ''n'' = None then [] else [''n''])"

lemma sample_encodable: "encodable sample_keys (sample_conversation i u)" "conversation_ok sample_keys (sample_conversation i u)"
  by (simp_all add: encodable_def conversation_ok_def sample_conversation_def conversation_times_def time_ok_def
      metadata_ok_def keys_ok_def sample_keys_def in_int64_def min_int64_def max_int64_def)

theorem conversation_round_trip_witness:
  "\<exists>j c'. json_of_conversation sample_keys (sample_conversation ''c'' ''u'') = Some j \<and> conversation_of_json j = Some c' \<and>
     c_ID c' = ''c'' \<and> c_Metadata c' = Some [''n'' \<mapsto> AFloat (f64_of_int 3)]"
proof -
  obtain j where j: "json_of_conversation sample_keys (sample_conversation ''c'' ''u'') = Some j"
    using json_of_conversation_ok [OF sample_encodable(1)] by blast
  show ?thesis
    using conversation_round_trip [OF j sample_encodable(2)] j
    by (auto simp: norm_conversation_def sample_conversation_def norm_metadata_def)
qed

end
