(* ===== verification/ConversationStore.thy ===== *)
theory ConversationStore
  imports Json
begin

text \<open>
  The interface \<^verbatim>\<open>PersistenceStore\<close> of \<^verbatim>\<open>internal/conversation/state_manager.go\<close> and the
  contract the state manager relies on. A store has a state of its own (\<open>'s\<close>), which its
  operations read and change; any of them may fail. \<open>contents\<close> is what the store holds under
  an identifier, \<open>after\<close> what comes back of a conversation that was saved, \<open>up\<close> says that the
  store can be reached now and stays so.
\<close>

datatype StoreError = ErrPersistenceFailure | ErrLoadFailure | ErrNotFound

record 's PersistenceStore =
  ps_SaveConversation :: "Conversation \<Rightarrow> 's \<Rightarrow> StoreError option \<times> 's"
  ps_LoadConversation :: "string \<Rightarrow> 's \<Rightarrow> (StoreError + Conversation) \<times> 's"
  ps_ListUserConversations :: "string \<Rightarrow> 's \<Rightarrow> (StoreError + string list) \<times> 's"
  ps_DeleteConversation :: "string \<Rightarrow> 's \<Rightarrow> StoreError option \<times> 's"

text \<open>
  A failing save or delete may still have had its effect. A save that succeeds stores the
  conversation under its identifier and touches no other; also one that cannot be read back
  in full keeps its outline if it can be read at all.
\<close>

locale conversation_store =
  fixes store :: "'s PersistenceStore"
    and contents :: "'s \<Rightarrow> string \<Rightarrow> Conversation option"
    and after :: "Conversation \<Rightarrow> Conversation"
    and storable :: "Conversation \<Rightarrow> bool"
    and up :: "'s \<Rightarrow> bool"
    and lawful :: bool
  assumes save_effect: "lawful \<Longrightarrow> storable c \<Longrightarrow> ps_SaveConversation store c s = (e, s') \<Longrightarrow>
      contents s' = (contents s)(c_ID c \<mapsto> after c) \<or> e \<noteq> None \<and> contents s' = contents s"
    and save_up: "lawful \<Longrightarrow> up s \<Longrightarrow> storable c \<Longrightarrow> ps_SaveConversation store c s = (e, s') \<Longrightarrow> e = None \<and> up s'"
    and load_effect: "lawful \<Longrightarrow> ps_LoadConversation store i s = (x, s') \<Longrightarrow>
      contents s' = contents s \<and> (\<forall>c. x = Inr c \<longrightarrow> contents s i = Some c) \<and> (x = Inl ErrNotFound \<longrightarrow> contents s i = None)"
    and load_up: "lawful \<Longrightarrow> up s \<Longrightarrow> contents s i = Some c \<Longrightarrow> ps_LoadConversation store i s = (x, s') \<Longrightarrow>
      x = Inr c \<and> up s'"
    and delete_effect: "lawful \<Longrightarrow> ps_DeleteConversation store i s = (e, s') \<Longrightarrow>
      contents s' = (contents s)(i := None) \<or> e \<noteq> None \<and> contents s' = contents s"
    and delete_up: "lawful \<Longrightarrow> up s \<Longrightarrow> contents s i = Some c \<Longrightarrow> ps_DeleteConversation store i s = (e, s') \<Longrightarrow>
      e = None \<and> up s'"
    and list_effect: "lawful \<Longrightarrow> ps_ListUserConversations store u s = (ids, s') \<Longrightarrow> contents s' = contents s"
    and save_any: "lawful \<Longrightarrow> ps_SaveConversation store c s = (e, s') \<Longrightarrow>
      (\<forall>i. i \<noteq> c_ID c \<longrightarrow> contents s' i = contents s i) \<and>
      (\<forall>c'. contents s' (c_ID c) = Some c' \<longrightarrow> contents s (c_ID c) = Some c' \<or> same_outline c c')"
    and after_outline: "same_outline c (after c)"
begin

lemma save_load:
  assumes "lawful" and "up s" and "storable c"
  shows "\<exists>s'. ps_SaveConversation store c s = (None, s') \<and> up s' \<and>
    contents s' = (contents s)(c_ID c \<mapsto> after c) \<and>
    fst (ps_LoadConversation store (c_ID c) s') = Inr (after c)"
proof -
  obtain e s' where s: "ps_SaveConversation store c s = (e, s')" by force
  have e: "e = None" "up s'" using save_up [OF assms s] by simp_all
  then have c: "contents s' = (contents s)(c_ID c \<mapsto> after c)" using save_effect [OF assms(1,3) s] by simp
  obtain x s'' where l: "ps_LoadConversation store (c_ID c) s' = (x, s'')" by force
  show ?thesis using load_up [OF assms(1) e(2) _ l] s e c l by simp
qed

end

end
