(* ===== verification/ConversationManager.thy ===== *)
theory ConversationManager
  imports ConversationStore
begin

text \<open>
  \<^verbatim>\<open>internal/conversation/state_manager.go\<close>: conversations in memory by identifier, the list
  of conversations of each user, and the store behind. An operation gets the state of the
  manager and that of the store and returns both. The map owns its conversations, so it holds
  values. \<^verbatim>\<open>GetConversation\<close> does not hold the lock while it looks into the store: its parts
  are definitions of their own (\<open>csm_hit\<close>, \<open>csm_fetch\<close>, \<open>csm_install\<close>).
\<close>

section \<open>State\<close>

record 's StateManagerConfig =
  smc_ConversationTTL :: duration
  smc_CleanupInterval :: duration
  smc_MaxConversations :: int
  smc_MaxContextLength :: int
  smc_MaxIdleTime :: duration
  smc_PersistenceEnabled :: bool
  smc_PersistenceStore :: "'s PersistenceStore option"

record 's StateManager =
  csm_conversations :: "string \<Rightarrow> Conversation option"
  csm_activeUsers :: "string \<Rightarrow> string list option"
  csm_conversationTTL :: duration
  csm_cleanupInterval :: duration
  csm_maxConversations :: int
  csm_maxContextLength :: int
  csm_maxIdleTime :: duration
  csm_persistenceEnabled :: bool
  csm_persistenceStore :: "'s PersistenceStore option"

definition NewConversationStateManager :: "'s StateManagerConfig \<Rightarrow> 's StateManager" where
  "NewConversationStateManager config =
     \<lparr>csm_conversations = Map.empty, csm_activeUsers = Map.empty,
      csm_conversationTTL = smc_ConversationTTL config, csm_cleanupInterval = smc_CleanupInterval config,
      csm_maxConversations = smc_MaxConversations config, csm_maxContextLength = smc_MaxContextLength config,
      csm_maxIdleTime = smc_MaxIdleTime config, csm_persistenceEnabled = smc_PersistenceEnabled config,
      csm_persistenceStore = smc_PersistenceStore config\<rparr>"

datatype ConversationError = ErrConversationNotFound | StoreFailure StoreError

text \<open>The store, when persistence is enabled and there is one.\<close>

definition csm_store :: "'s StateManager \<Rightarrow> 's PersistenceStore option" where
  "csm_store sm = (if csm_persistenceEnabled sm then csm_persistenceStore sm else None)"

text \<open>Saving into it; an error is only logged.\<close>

definition csm_persist :: "Conversation \<Rightarrow> 's StateManager \<Rightarrow> 's \<Rightarrow> 's" where
  "csm_persist conv sm s =
     (case csm_store sm of None \<Rightarrow> s | Some store \<Rightarrow> snd (ps_SaveConversation store conv s))"

definition csm_put :: "string \<Rightarrow> Conversation \<Rightarrow> 's StateManager \<Rightarrow> 's StateManager" where
  "csm_put i conv sm = sm\<lparr>csm_conversations := (csm_conversations sm)(i \<mapsto> conv)\<rparr>"

section \<open>The conversations of a user\<close>

text \<open>Archiving the oldest; \<open>nows\<close> gives the clock of each.\<close>

fun csm_archive :: "(nat \<Rightarrow> go_time) \<Rightarrow> string list \<Rightarrow> 's StateManager \<times> 's \<Rightarrow> 's StateManager \<times> 's" where
  "csm_archive nows [] state = state"
| "csm_archive nows (oldID # oldestIDs) (sm, s) =
     csm_archive (\<lambda>k. nows (Suc k)) oldestIDs
       (case csm_conversations sm oldID of
          None \<Rightarrow> (sm, s)
        | Some oldConv \<Rightarrow>
            let conv = oldConv\<lparr>c_State := ConversationStateArchived, c_CompletedAt := nows 0\<rparr>
            in (csm_put oldID conv sm, csm_persist conv sm s))"

definition csm_addToActiveUsers ::
    "(nat \<Rightarrow> go_time) \<Rightarrow> string \<Rightarrow> string \<Rightarrow> 's StateManager \<times> 's \<Rightarrow> 's StateManager \<times> 's" where
  "csm_addToActiveUsers nows userID conversationID state =
     (case state of (sm, s) \<Rightarrow>
        case csm_activeUsers sm userID of
          None \<Rightarrow> (sm\<lparr>csm_activeUsers := (csm_activeUsers sm)(userID \<mapsto> [conversationID])\<rparr>, s)
        | Some convIDs \<Rightarrow>
            if conversationID \<in> set convIDs then (sm, s)
            else let ids = convIDs @ [conversationID]
                 in if csm_maxConversations sm > 0 \<and> int (length ids) > csm_maxConversations sm
                    then let excess = length ids - nat (csm_maxConversations sm)
                         in csm_archive nows (take excess ids)
                              (sm\<lparr>csm_activeUsers := (csm_activeUsers sm)(userID \<mapsto> drop excess ids)\<rparr>, s)
                    else (sm\<lparr>csm_activeUsers := (csm_activeUsers sm)(userID \<mapsto> ids)\<rparr>, s))"

section \<open>Getting a conversation\<close>

definition csm_hit :: "go_time \<Rightarrow> string \<Rightarrow> 's StateManager \<Rightarrow> (Conversation \<times> 's StateManager) option" where
  "csm_hit now conversationID sm =
     (case csm_conversations sm conversationID of
        None \<Rightarrow> None
      | Some conv \<Rightarrow> let conv' = conv\<lparr>c_LastActiveTime := now\<rparr> in Some (conv', csm_put conversationID conv' sm))"

text \<open>The conversation of the store, or a new one.\<close>

definition csm_new_conversation :: "go_time \<times> go_time \<Rightarrow> string \<Rightarrow> string \<Rightarrow> Conversation" where
  "csm_new_conversation ts conversationID userID =
     \<lparr>c_ID = conversationID, c_UserID = userID, c_Title = '''', c_Context = '''', c_Status = '''',
      c_State = ConversationStateActive, c_Priority = 0, c_MessageCount = 0, c_LastActivity = zero_time,
      c_LastActiveTime = snd ts, c_CreatedAt = fst ts, c_UpdatedAt = zero_time, c_CompletedAt = zero_time,
      c_Messages = [], c_Metadata = Some Map.empty\<rparr>"

definition csm_fetch ::
    "go_time \<times> go_time \<Rightarrow> string \<Rightarrow> string \<Rightarrow> 's StateManager \<Rightarrow> 's \<Rightarrow> Conversation \<times> 's" where
  "csm_fetch ts conversationID userID sm s =
     (case csm_store sm of
        None \<Rightarrow> (csm_new_conversation ts conversationID userID, s)
      | Some store \<Rightarrow>
          (case ps_LoadConversation store conversationID s of
             (Inr loadedConv, s1) \<Rightarrow> (loadedConv, s1)
           | (Inl _, s1) \<Rightarrow> (csm_new_conversation ts conversationID userID, s1)))"

definition csm_install ::
    "(nat \<Rightarrow> go_time) \<Rightarrow> string \<Rightarrow> string \<Rightarrow> Conversation \<Rightarrow> 's StateManager \<times> 's \<Rightarrow> 's StateManager \<times> 's" where
  "csm_install nows conversationID userID conv state =
     csm_addToActiveUsers nows userID conversationID (csm_put conversationID conv (fst state), snd state)"

definition csm_GetConversation ::
    "go_time \<times> (go_time \<times> go_time) \<times> (nat \<Rightarrow> go_time) \<Rightarrow> string \<Rightarrow> string \<Rightarrow> 's StateManager \<times> 's
     \<Rightarrow> Conversation \<times> 's StateManager \<times> 's" where
  "csm_GetConversation clocks conversationID userID state =
     (case clocks of (now, ts, nows) \<Rightarrow>
        case state of (sm, s) \<Rightarrow>
          case csm_hit now conversationID sm of
            Some (conv, sm1) \<Rightarrow> (conv, sm1, s)
          | None \<Rightarrow>
              (case csm_fetch ts conversationID userID sm s of
                 (conv, s1) \<Rightarrow> (conv, csm_install nows conversationID userID conv (sm, s1))))"

section \<open>Changing a conversation\<close>

definition csm_cut :: "'s StateManager \<Rightarrow> message list \<Rightarrow> message list" where
  "csm_cut sm msgs =
     (if csm_maxContextLength sm > 0 \<and> int (length msgs) > csm_maxContextLength sm
      then let excess = length msgs - nat (csm_maxContextLength sm) in drop excess msgs
      else msgs)"

definition csm_AddMessage ::
    "go_time \<Rightarrow> string \<Rightarrow> message \<Rightarrow> 's StateManager \<times> 's \<Rightarrow> ConversationError option \<times> 's StateManager \<times> 's" where
  "csm_AddMessage now conversationID msg state =
     (case state of (sm, s) \<Rightarrow>
        case csm_conversations sm conversationID of
          None \<Rightarrow> (Some ErrConversationNotFound, sm, s)
        | Some conv \<Rightarrow>
            let conv' = conv\<lparr>c_Messages := csm_cut sm (c_Messages conv @ [msg]), c_LastActiveTime := now\<rparr>
            in (None, csm_put conversationID conv' sm, csm_persist conv' sm s))"

definition csm_UpdateConversationState ::
    "go_time \<Rightarrow> string \<Rightarrow> ConversationState \<Rightarrow> 's StateManager \<times> 's \<Rightarrow> ConversationError option \<times> 's StateManager \<times> 's" where
  "csm_UpdateConversationState now conversationID st state =
     (case state of (sm, s) \<Rightarrow>
        case csm_conversations sm conversationID of
          None \<Rightarrow> (Some ErrConversationNotFound, sm, s)
        | Some conv \<Rightarrow>
            let conv1 = conv\<lparr>c_State := st\<rparr>;
                conv2 = (if st = ConversationStateCompleted \<or> st = ConversationStateArchived
                         then conv1\<lparr>c_CompletedAt := now\<rparr> else conv1)
            in (None, csm_put conversationID conv2 sm, csm_persist conv2 sm s))"

text \<open>Storing a key into a \<^verbatim>\<open>nil\<close> map panics; \<open>order\<close> lists the keys of the update.\<close>

definition csm_UpdateConversationMetadata ::
    "string list \<Rightarrow> string \<Rightarrow> metadata \<Rightarrow> 's StateManager \<times> 's
     \<Rightarrow> (ConversationError option \<times> 's StateManager \<times> 's) option" where
  "csm_UpdateConversationMetadata order conversationID md state =
     (case state of (sm, s) \<Rightarrow>
        case csm_conversations sm conversationID of
          None \<Rightarrow> Some (Some ErrConversationNotFound, sm, s)
        | Some conv \<Rightarrow>
            if c_Metadata conv = None \<and> order \<noteq> [] then None
            else let conv' = conv\<lparr>c_Metadata := map_option (\<lambda>m. m ++ md) (c_Metadata conv)\<rparr>
                 in Some (None, csm_put conversationID conv' sm, csm_persist conv' sm s))"

text \<open>Out of the list of its user, and out of memory.\<close>

definition csm_forget :: "string \<Rightarrow> string \<Rightarrow> 's StateManager \<Rightarrow> 's StateManager" where
  "csm_forget userID conversationID sm =
     sm\<lparr>csm_activeUsers :=
          (case csm_activeUsers sm userID of
             None \<Rightarrow> csm_activeUsers sm
           | Some convIDs \<Rightarrow> (csm_activeUsers sm)(userID \<mapsto> filter (\<lambda>i. i \<noteq> conversationID) convIDs)),
        csm_conversations := (csm_conversations sm)(conversationID := None)\<rparr>"

definition csm_DeleteConversation ::
    "string \<Rightarrow> 's StateManager \<times> 's \<Rightarrow> ConversationError option \<times> 's StateManager \<times> 's" where
  "csm_DeleteConversation conversationID state =
     (case state of (sm, s) \<Rightarrow>
        case csm_conversations sm conversationID of
          None \<Rightarrow> (Some ErrConversationNotFound, sm, s)
        | Some conv \<Rightarrow>
            let sm1 = csm_forget (c_UserID conv) conversationID sm
            in case csm_store sm of
                 None \<Rightarrow> (None, sm1, s)
               | Some store \<Rightarrow>
                   (case ps_DeleteConversation store conversationID s of
                      (None, s1) \<Rightarrow> (None, sm1, s1)
                    | (Some err, s1) \<Rightarrow> (Some (StoreFailure err), sm1, s1)))"

section \<open>Reading\<close>

text \<open>The loop over the identifiers, which loads what is not in memory.\<close>

fun csm_collect ::
    "string list \<Rightarrow> 's StateManager \<times> 's \<Rightarrow> Conversation list \<times> 's StateManager \<times> 's" where
  "csm_collect [] state = ([], state)"
| "csm_collect (i # ids) (sm, s) =
     (case csm_conversations sm i of
        Some conv \<Rightarrow> (case csm_collect ids (sm, s) of (result, state) \<Rightarrow> (conv # result, state))
      | None \<Rightarrow>
          (case csm_store sm of
             None \<Rightarrow> csm_collect ids (sm, s)
           | Some store \<Rightarrow>
               (case ps_LoadConversation store i s of
                  (Inr loadedConv, s1) \<Rightarrow>
                    (case csm_collect ids (csm_put i loadedConv sm, s1) of (result, state) \<Rightarrow> (loadedConv # result, state))
                | (Inl _, s1) \<Rightarrow> csm_collect ids (sm, s1))))"

definition csm_GetUserConversations ::
    "string \<Rightarrow> 's StateManager \<times> 's \<Rightarrow> (StoreError + Conversation list) \<times> 's StateManager \<times> 's" where
  "csm_GetUserConversations userID state =
     (case state of (sm, s) \<Rightarrow>
        case csm_activeUsers sm userID of
          Some (i # ids) \<Rightarrow> (case csm_collect (i # ids) (sm, s) of (result, state1) \<Rightarrow> (Inr result, state1))
        | _ \<Rightarrow>
            (case csm_store sm of
               None \<Rightarrow> (Inr [], sm, s)
             | Some store \<Rightarrow>
                 (case ps_ListUserConversations store userID s of
                    (Inl err, s1) \<Rightarrow> (Inl err, sm, s1)
                  | (Inr ids, s1) \<Rightarrow>
                      (case csm_collect ids (sm, s1) of (result, state1) \<Rightarrow> (Inr result, state1)))))"

definition csm_GetConversationContext ::
    "string \<Rightarrow> int \<Rightarrow> 's StateManager \<Rightarrow> ConversationError + message list" where
  "csm_GetConversationContext conversationID limit sm =
     (case csm_conversations sm conversationID of
        None \<Rightarrow> Inl ErrConversationNotFound
      | Some conv \<Rightarrow>
          let messages = c_Messages conv
          in if limit > 0 \<and> limit < int (length messages)
             then Inr (drop (length messages - nat limit) messages) else Inr messages)"

section \<open>Cleaning up\<close>

definition csm_expired :: "go_time \<Rightarrow> 's StateManager \<Rightarrow> Conversation \<Rightarrow> bool" where
  "csm_expired now sm conv \<longleftrightarrow>
     csm_conversationTTL sm > 0 \<and> time_sub now (c_CreatedAt conv) > csm_conversationTTL sm \<or>
     csm_maxIdleTime sm > 0 \<and> time_sub now (c_LastActiveTime conv) > csm_maxIdleTime sm \<or>
     (c_State conv = ConversationStateCompleted \<or> c_State conv = ConversationStateArchived) \<and>
       time_before (time_add (c_CompletedAt conv) (24 * hour)) now"

text \<open>\<open>order\<close> is the order in which the conversations are visited.\<close>

definition csm_expired_ids :: "go_time \<Rightarrow> string list \<Rightarrow> 's StateManager \<Rightarrow> string list" where
  "csm_expired_ids now order sm =
     filter (\<lambda>i. case csm_conversations sm i of None \<Rightarrow> False | Some conv \<Rightarrow> csm_expired now sm conv) order"

fun csm_delete_all :: "string list \<Rightarrow> 's StateManager \<times> 's \<Rightarrow> 's StateManager \<times> 's" where
  "csm_delete_all [] state = state"
| "csm_delete_all (i # ids) state = csm_delete_all ids (snd (csm_DeleteConversation i state))"

definition csm_cleanupExpiredConversations ::
    "go_time \<Rightarrow> string list \<Rightarrow> 's StateManager \<times> 's \<Rightarrow> 's StateManager \<times> 's" where
  "csm_cleanupExpiredConversations now order state =
     csm_delete_all (csm_expired_ids now order (fst state)) state"

text \<open>The task over the ticks it gets; an interval that is not positive panics.\<close>

definition csm_startCleanupTask ::
    "(go_time \<times> string list) list \<Rightarrow> 's StateManager \<times> 's \<Rightarrow> ('s StateManager \<times> 's) option" where
  "csm_startCleanupTask ticks state =
     (if csm_cleanupInterval (fst state) \<le> 0 then None
      else Some (fold (\<lambda>(now, order). csm_cleanupExpiredConversations now order) ticks state))"

record ConversationStats =
  cst_total_conversations :: int
  cst_total_users :: int
  cst_conversation_states :: "string \<Rightarrow> int"

definition csm_GetStats :: "string list \<Rightarrow> string list \<Rightarrow> 's StateManager \<Rightarrow> ConversationStats" where
  "csm_GetStats order users sm =
     \<lparr>cst_total_conversations = int (length (filter (\<lambda>i. csm_conversations sm i \<noteq> None) order)),
      cst_total_users = int (length (filter (\<lambda>u. csm_activeUsers sm u \<noteq> None) users)),
      cst_conversation_states = (\<lambda>st. int (length (filter
        (\<lambda>i. case csm_conversations sm i of None \<Rightarrow> False | Some conv \<Rightarrow> c_State conv = st) order)))\<rparr>"

end
