(* ===== verification/RedisStore.thy ===== *)
theory RedisStore
  imports ConversationStore
begin

text \<open>
  \<^verbatim>\<open>RedisPersistenceStore\<close> of \<^verbatim>\<open>internal/conversation/persistence.go\<close>. The Redis client is
  a parameter: a record of the commands used, over a state \<open>'r\<close> of the server. \<open>redis_laws\<close>
  is what the commands are documented to do to the keys (\<open>view\<close>): strings and sets share one
  key space, a command for the wrong type fails, \<^verbatim>\<open>EXPIRE\<close> with a time that is not positive
  deletes the key, a set without members does not exist. A failing command may have had its
  effect. Keys that expire later do so between the operations.
\<close>

section \<open>The client\<close>

datatype redis_error = RedisNil | RedisFailure

datatype redis_value = RString json | RSet "string set"

record 'r redis_client =
  rd_Set :: "string \<Rightarrow> json \<Rightarrow> duration \<Rightarrow> 'r \<Rightarrow> redis_error option \<times> 'r"
  rd_Get :: "string \<Rightarrow> 'r \<Rightarrow> (redis_error + json) \<times> 'r"
  rd_SAdd :: "string \<Rightarrow> string \<Rightarrow> 'r \<Rightarrow> redis_error option \<times> 'r"
  rd_SMembers :: "string \<Rightarrow> 'r \<Rightarrow> (redis_error + string list) \<times> 'r"
  rd_Expire :: "string \<Rightarrow> duration \<Rightarrow> 'r \<Rightarrow> redis_error option \<times> 'r"
  rd_Del :: "string \<Rightarrow> 'r \<Rightarrow> redis_error option \<times> 'r"
  rd_SRem :: "string \<Rightarrow> string \<Rightarrow> 'r \<Rightarrow> redis_error option \<times> 'r"

type_synonym redis_view = "string \<Rightarrow> redis_value option"

definition set_value :: "string set \<Rightarrow> redis_value option" where
  "set_value S = (if S = {} then None else Some (RSet S))"

definition set_members :: "redis_value option \<Rightarrow> string set" where
  "set_members v = (case v of Some (RSet S) \<Rightarrow> S | _ \<Rightarrow> {})"

definition not_string :: "redis_value option \<Rightarrow> bool" where
  "not_string v = (case v of Some (RString _) \<Rightarrow> False | _ \<Rightarrow> True)"

text \<open>A write that succeeds has its effect, one that fails may; a server that is up does not fail.\<close>

definition writes ::
    "('r \<Rightarrow> redis_view) \<Rightarrow> ('r \<Rightarrow> bool) \<Rightarrow> 'r \<Rightarrow> redis_error option \<times> 'r \<Rightarrow> redis_view \<Rightarrow> bool" where
  "writes view up r res v \<longleftrightarrow>
     (view (snd res) = v \<or> fst res \<noteq> None \<and> view (snd res) = view r) \<and> (up r \<longrightarrow> fst res = None \<and> up (snd res))"

definition get_law ::
    "('r \<Rightarrow> redis_view) \<Rightarrow> ('r \<Rightarrow> bool) \<Rightarrow> string \<Rightarrow> 'r \<Rightarrow> (redis_error + json) \<times> 'r \<Rightarrow> bool" where
  "get_law view up k r res \<longleftrightarrow>
     view (snd res) = view r \<and> (\<forall>j. fst res = Inr j \<longrightarrow> view r k = Some (RString j)) \<and>
     (fst res = Inl RedisNil \<longrightarrow> view r k = None) \<and>
     (up r \<longrightarrow> up (snd res) \<and> (\<forall>j. view r k = Some (RString j) \<longrightarrow> fst res = Inr j) \<and>
        (view r k = None \<longrightarrow> fst res = Inl RedisNil))"

definition member_law ::
    "('r \<Rightarrow> redis_view) \<Rightarrow> ('r \<Rightarrow> bool) \<Rightarrow> string \<Rightarrow> (string set \<Rightarrow> string set) \<Rightarrow> 'r \<Rightarrow> redis_error option \<times> 'r \<Rightarrow> bool" where
  "member_law view up k f r res \<longleftrightarrow>
     (if not_string (view r k) then writes view up r res ((view r)(k := set_value (f (set_members (view r k)))))
      else view (snd res) = view r \<and> (up r \<longrightarrow> up (snd res)))"

definition members_law ::
    "('r \<Rightarrow> redis_view) \<Rightarrow> ('r \<Rightarrow> bool) \<Rightarrow> string \<Rightarrow> 'r \<Rightarrow> (redis_error + string list) \<times> 'r \<Rightarrow> bool" where
  "members_law view up k r res \<longleftrightarrow>
     view (snd res) = view r \<and> (\<forall>ms. fst res = Inr ms \<longrightarrow> set ms = set_members (view r k)) \<and>
     (up r \<longrightarrow> up (snd res) \<and> (not_string (view r k) \<longrightarrow> (\<exists>ms. fst res = Inr ms)))"

definition redis_laws :: "'r redis_client \<Rightarrow> ('r \<Rightarrow> redis_view) \<Rightarrow> ('r \<Rightarrow> bool) \<Rightarrow> bool" where
  "redis_laws client view up \<longleftrightarrow>
     (\<forall>k r. (\<forall>j d. writes view up r (rd_Set client k j d r) ((view r)(k \<mapsto> RString j))) \<and>
        get_law view up k r (rd_Get client k r) \<and>
        (\<forall>m. member_law view up k (insert m) r (rd_SAdd client k m r)) \<and>
        members_law view up k r (rd_SMembers client k r) \<and>
        (\<forall>d. writes view up r (rd_Expire client k d r) (if 0 < d then view r else (view r)(k := None))) \<and>
        writes view up r (rd_Del client k r) ((view r)(k := None)) \<and>
        (\<forall>m. member_law view up k (\<lambda>S. S - {m}) r (rd_SRem client k m r)))"

section \<open>The store\<close>

record 'r RedisPersistenceStore =
  rps_client :: "'r redis_client"
  rps_prefix :: string
  rps_expiration :: duration

definition NewRedisPersistenceStore :: "'r redis_client \<Rightarrow> string \<Rightarrow> duration \<Rightarrow> 'r RedisPersistenceStore" where
  "NewRedisPersistenceStore client prefix expiration =
     \<lparr>rps_client = client, rps_prefix = prefix, rps_expiration = expiration\<rparr>"

definition user_key :: "'r RedisPersistenceStore \<Rightarrow> string \<Rightarrow> string" where
  "user_key st userID = rps_prefix st @ ''user:'' @ userID"

text \<open>The mapping from the user; its errors are only logged.\<close>

definition redis_index_user :: "'r RedisPersistenceStore \<Rightarrow> string \<Rightarrow> string \<Rightarrow> 'r \<Rightarrow> 'r" where
  "redis_index_user st userID conversationID r1 =
     (let userKey = user_key st userID;
          (_, r2) = rd_SAdd (rps_client st) userKey conversationID r1;
          (_, r3) = rd_Expire (rps_client st) userKey (rps_expiration st) r2
      in r3)"

definition redis_SaveConversation ::
    "key_order \<Rightarrow> 'r RedisPersistenceStore \<Rightarrow> Conversation \<Rightarrow> 'r \<Rightarrow> StoreError option \<times> 'r" where
  "redis_SaveConversation keys st conversation r =
     (case json_of_conversation keys conversation of
        None \<Rightarrow> (Some ErrPersistenceFailure, r)
      | Some data \<Rightarrow>
          (case rd_Set (rps_client st) (rps_prefix st @ c_ID conversation) data (rps_expiration st) r of
             (Some _, r1) \<Rightarrow> (Some ErrPersistenceFailure, r1)
           | (None, r1) \<Rightarrow> (None, redis_index_user st (c_UserID conversation) (c_ID conversation) r1)))"

definition redis_LoadConversation ::
    "'r RedisPersistenceStore \<Rightarrow> string \<Rightarrow> 'r \<Rightarrow> (StoreError + Conversation) \<times> 'r" where
  "redis_LoadConversation st conversationID r =
     (case rd_Get (rps_client st) (rps_prefix st @ conversationID) r of
        (Inl RedisNil, r1) \<Rightarrow> (Inl ErrNotFound, r1)
      | (Inl RedisFailure, r1) \<Rightarrow> (Inl ErrLoadFailure, r1)
      | (Inr data, r1) \<Rightarrow>
          (case conversation_of_json data of
             None \<Rightarrow> (Inl ErrLoadFailure, r1)
           | Some conversation \<Rightarrow> (Inr conversation, r1)))"

definition redis_ListUserConversations ::
    "'r RedisPersistenceStore \<Rightarrow> string \<Rightarrow> 'r \<Rightarrow> (StoreError + string list) \<times> 'r" where
  "redis_ListUserConversations st userID r =
     (case rd_SMembers (rps_client st) (user_key st userID) r of
        (Inl RedisNil, r1) \<Rightarrow> (Inr [], r1)
      | (Inl RedisFailure, r1) \<Rightarrow> (Inl ErrLoadFailure, r1)
      | (Inr conversationIDs, r1) \<Rightarrow> (Inr conversationIDs, r1))"

definition redis_DeleteConversation ::
    "'r RedisPersistenceStore \<Rightarrow> string \<Rightarrow> 'r \<Rightarrow> StoreError option \<times> 'r" where
  "redis_DeleteConversation st conversationID r =
     (case redis_LoadConversation st conversationID r of
        (Inl err, r1) \<Rightarrow> (if err = ErrNotFound then None else Some err, r1)
      | (Inr conversation, r1) \<Rightarrow>
          (case rd_Del (rps_client st) (rps_prefix st @ conversationID) r1 of
             (Some _, r2) \<Rightarrow> (Some ErrPersistenceFailure, r2)
           | (None, r2) \<Rightarrow>
               let (_, r3) = rd_SRem (rps_client st) (user_key st (c_UserID conversation)) conversationID r2
               in (None, r3)))"

definition redis_store :: "key_order \<Rightarrow> 'r RedisPersistenceStore \<Rightarrow> 'r PersistenceStore" where
  "redis_store keys st =
     \<lparr>ps_SaveConversation = redis_SaveConversation keys st, ps_LoadConversation = redis_LoadConversation st,
      ps_ListUserConversations = redis_ListUserConversations st, ps_DeleteConversation = redis_DeleteConversation st\<rparr>"

definition redis_contents :: "('r \<Rightarrow> redis_view) \<Rightarrow> 'r RedisPersistenceStore \<Rightarrow> 'r \<Rightarrow> string \<Rightarrow> Conversation option" where
  "redis_contents view st r i =
     (case view r (rps_prefix st @ i) of Some (RString j) \<Rightarrow> conversation_of_json j | _ \<Rightarrow> None)"

definition storable :: "key_order \<Rightarrow> Conversation \<Rightarrow> bool" where
  "storable keys c \<longleftrightarrow> conversation_ok keys c \<and> encodable keys c"

section \<open>The contract\<close>

text \<open>The strings of the key space: the commands on sets leave them alone.\<close>

definition strings :: "redis_view \<Rightarrow> string \<Rightarrow> json option" where
  "strings v k = (case v k of Some (RString j) \<Rightarrow> Some j | _ \<Rightarrow> None)"

lemma strings_string [simp]: "strings (v(k \<mapsto> RString j)) = (strings v)(k \<mapsto> j)"
  by (auto simp: strings_def)

lemma strings_none [simp]: "strings (v(k := None)) = (strings v)(k := None)"
  by (auto simp: strings_def)

lemma strings_set: "not_string (v k) \<Longrightarrow> strings (v(k := set_value S)) = strings v"
  by (auto simp: strings_def set_value_def not_string_def split: option.splits redis_value.splits)

lemma contents_strings: "redis_contents view st r i = Option.bind (strings (view r) (rps_prefix st @ i)) conversation_of_json"
  by (simp add: redis_contents_def strings_def split: option.splits redis_value.splits)

lemma contents_cong: "view y = view r \<Longrightarrow> redis_contents view st y = redis_contents view st r"
  by (rule ext) (simp add: redis_contents_def)

lemma writes_up: "writes view up r res v \<Longrightarrow> up r \<Longrightarrow> fst res = None \<and> view (snd res) = v \<and> up (snd res)"
  by (auto simp: writes_def)

lemma redis_lawsD:
  assumes "redis_laws client view up"
  shows redis_Set: "writes view up r (rd_Set client k j d r) ((view r)(k \<mapsto> RString j))"
    and redis_Get: "get_law view up k r (rd_Get client k r)"
    and redis_SAdd: "member_law view up k (insert m) r (rd_SAdd client k m r)"
    and redis_SMembers: "members_law view up k r (rd_SMembers client k r)"
    and redis_Expire: "writes view up r (rd_Expire client k d r) (if 0 < d then view r else (view r)(k := None))"
    and redis_Del: "writes view up r (rd_Del client k r) ((view r)(k := None))"
    and redis_SRem: "member_law view up k (\<lambda>S. S - {m}) r (rd_SRem client k m r)"
  using assms by (simp_all add: redis_laws_def)

lemma member_law_strings:
  assumes "member_law view up k f r res"
  shows "strings (view (snd res)) = strings (view r)" and "up r \<Longrightarrow> up (snd res)"
proof -
  show "strings (view (snd res)) = strings (view r)"
    using assms strings_set [of "view r" k] by (cases "not_string (view r k)") (auto simp: member_law_def writes_def)
  show "up r \<Longrightarrow> up (snd res)" using assms by (simp add: member_law_def writes_def split: if_splits)
qed

definition redis_lawful :: "('r \<Rightarrow> redis_view) \<Rightarrow> ('r \<Rightarrow> bool) \<Rightarrow> 'r RedisPersistenceStore \<Rightarrow> bool" where
  "redis_lawful view up st \<longleftrightarrow> redis_laws (rps_client st) view up \<and> 0 < rps_expiration st"

text \<open>The two commands after the save itself: the user's set changes, no conversation does.\<close>

lemma redis_index:
  assumes "redis_lawful view up st"
  shows "strings (view (redis_index_user st u i r)) = strings (view r)" and "up r \<Longrightarrow> up (redis_index_user st u i r)"
    and "up r \<Longrightarrow> not_string (view r (user_key st u)) \<Longrightarrow> view (redis_index_user st u i r) =
      (view r)(user_key st u := set_value (insert i (set_members (view r (user_key st u)))))"
proof -
  have laws: "redis_laws (rps_client st) view up" "0 < rps_expiration st" using assms(1) by (simp_all add: redis_lawful_def)
  define a where "a = rd_SAdd (rps_client st) (user_key st u) i r"
  note add = redis_SAdd [OF laws(1), of "user_key st u" i r, folded a_def]
  define b where "b = rd_Expire (rps_client st) (user_key st u) (rps_expiration st) (snd a)"
  have res: "redis_index_user st u i r = snd b"
    by (simp add: redis_index_user_def Let_def a_def [symmetric] b_def case_prod_beta)
  have "writes view up (snd a) b (view (snd a))"
    using redis_Expire [OF laws(1), of "snd a" "user_key st u" "rps_expiration st"] laws(2) by (simp add: b_def)
  then have v: "view (snd b) = view (snd a)" "up (snd a) \<Longrightarrow> up (snd b)" by (auto simp: writes_def)
  show "strings (view (redis_index_user st u i r)) = strings (view r)" "up r \<Longrightarrow> up (redis_index_user st u i r)"
    using member_law_strings [OF add] v by (simp_all add: res)
  show "up r \<Longrightarrow> not_string (view r (user_key st u)) \<Longrightarrow> view (redis_index_user st u i r) =
      (view r)(user_key st u := set_value (insert i (set_members (view r (user_key st u)))))"
    using add v writes_up [of view up r a] by (simp add: res member_law_def)
qed

lemma redis_save_strings:
  assumes "redis_lawful view up st" and "redis_SaveConversation keys st c r = (e, r')"
  shows "e \<noteq> None \<and> strings (view r') = strings (view r) \<or>
      (\<exists>data. json_of_conversation keys c = Some data \<and>
         strings (view r') = (strings (view r))(rps_prefix st @ c_ID c \<mapsto> data))"
    and "up r \<Longrightarrow> json_of_conversation keys c \<noteq> None \<Longrightarrow> e = None \<and> up r'"
proof -
  have laws: "redis_laws (rps_client st) view up" using assms(1) by (simp add: redis_lawful_def)
  define a where "a = (\<lambda>data. rd_Set (rps_client st) (rps_prefix st @ c_ID c) data (rps_expiration st) r)"
  have set: "writes view up r (a data) ((view r)(rps_prefix st @ c_ID c \<mapsto> RString data))" for data
    unfolding a_def by (rule redis_Set [OF laws])
  define b where "b = (\<lambda>data. redis_index_user st (c_UserID c) (c_ID c) (snd (a data)))"
  have idx: "strings (view (b data)) = strings (view (snd (a data)))" "up (snd (a data)) \<Longrightarrow> up (b data)" for data
    unfolding b_def by (rule redis_index [OF assms(1)], rule redis_index(2) [OF assms(1)])
  have res: "(e, r') = (case json_of_conversation keys c of None \<Rightarrow> (Some ErrPersistenceFailure, r)
      | Some data \<Rightarrow> (case fst (a data) of None \<Rightarrow> (None, b data) | Some _ \<Rightarrow> (Some ErrPersistenceFailure, snd (a data))))"
    using assms(2) by (auto simp: redis_SaveConversation_def a_def b_def case_prod_beta split: option.splits)
  show "e \<noteq> None \<and> strings (view r') = strings (view r) \<or>
      (\<exists>data. json_of_conversation keys c = Some data \<and>
         strings (view r') = (strings (view r))(rps_prefix st @ c_ID c \<mapsto> data))"
  proof (cases "json_of_conversation keys c")
    case None
    then show ?thesis using res by simp
  next
    case (Some data)
    show ?thesis
    proof (cases "fst (a data)")
      case None
      then show ?thesis using set [of data] idx(1) res Some by (simp add: writes_def)
    next
      case (Some err)
      then have "e \<noteq> None" "r' = snd (a data)" using res \<open>json_of_conversation keys c = Some data\<close> by simp_all
      moreover have "strings (view (snd (a data))) = (strings (view r))(rps_prefix st @ c_ID c \<mapsto> data) \<or>
          strings (view (snd (a data))) = strings (view r)"
        using set [of data] by (auto simp: writes_def)
      ultimately show ?thesis using \<open>json_of_conversation keys c = Some data\<close> by auto
    qed
  qed
  show "e = None \<and> up r'" if "up r" "json_of_conversation keys c \<noteq> None"
    using writes_up [OF set] idx(2) res that by auto
qed

lemma contents_strings_cong: "strings (view y) = strings (view r) \<Longrightarrow> redis_contents view st y = redis_contents view st r"
  by (rule ext) (simp add: contents_strings)

lemma contents_strings_upd:
  "strings (view y) = (strings (view r))(rps_prefix st @ k \<mapsto> data) \<Longrightarrow>
   redis_contents view st y = (redis_contents view st r)(k := conversation_of_json data)"
  by (rule ext) (auto simp: contents_strings)

lemma redis_save_effect:
  assumes "redis_lawful view up st" and "storable keys c" and "redis_SaveConversation keys st c r = (e, r')"
  shows "redis_contents view st r' = (redis_contents view st r)(c_ID c \<mapsto> norm_conversation c) \<or>
      e \<noteq> None \<and> redis_contents view st r' = redis_contents view st r"
    and "up r \<Longrightarrow> e = None \<and> up r'"
proof -
  have enc: "json_of_conversation keys c \<noteq> None"
    using json_of_conversation_ok assms(2) unfolding storable_def by blast
  have dec: "conversation_of_json data = Some (norm_conversation c)" if "json_of_conversation keys c = Some data" for data
    using conversation_decodes [OF that] assms(2) by (simp add: storable_def)
  note str = redis_save_strings [OF assms(1,3)]
  show "redis_contents view st r' = (redis_contents view st r)(c_ID c \<mapsto> norm_conversation c) \<or>
      e \<noteq> None \<and> redis_contents view st r' = redis_contents view st r"
    using str(1) contents_strings_cong [of view r' r st] contents_strings_upd [of view r' r st "c_ID c"] dec by fastforce
  show "up r \<Longrightarrow> e = None \<and> up r'" using str(2) enc by blast
qed

lemma redis_save_any:
  assumes "redis_lawful view up st" and "redis_SaveConversation keys st c r = (e, r')"
  shows "(\<forall>i. i \<noteq> c_ID c \<longrightarrow> redis_contents view st r' i = redis_contents view st r i) \<and>
      (\<forall>c'. redis_contents view st r' (c_ID c) = Some c' \<longrightarrow>
         redis_contents view st r (c_ID c) = Some c' \<or> same_outline c c')"
  using redis_save_strings(1) [OF assms]
proof
  assume "e \<noteq> None \<and> strings (view r') = strings (view r)"
  then show ?thesis using contents_strings_cong [of view r' r st] by simp
next
  assume "\<exists>data. json_of_conversation keys c = Some data \<and>
      strings (view r') = (strings (view r))(rps_prefix st @ c_ID c \<mapsto> data)"
  then obtain data where data: "json_of_conversation keys c = Some data"
    "strings (view r') = (strings (view r))(rps_prefix st @ c_ID c \<mapsto> data)"
    by blast
  then show ?thesis using conversation_outline [OF data(1)] contents_strings_upd [of view r' r st, OF data(2)] by simp
qed

lemma redis_load_result:
  assumes "redis_lawful view up st" and "redis_LoadConversation st i r = (x, r')"
  shows "view r' = view r" and "x = Inr c \<Longrightarrow> redis_contents view st r i = Some c"
    and "x = Inl ErrNotFound \<Longrightarrow> redis_contents view st r i = None"
    and "up r \<Longrightarrow> up r'" and "up r \<Longrightarrow> redis_contents view st r i = Some c \<Longrightarrow> x = Inr c"
proof -
  define g where "g = rd_Get (rps_client st) (rps_prefix st @ i) r"
  have law: "get_law view up (rps_prefix st @ i) r g"
    unfolding g_def using assms(1) by (intro redis_Get) (simp add: redis_lawful_def)
  have res: "x = (case fst g of Inl RedisNil \<Rightarrow> Inl ErrNotFound | Inl RedisFailure \<Rightarrow> Inl ErrLoadFailure
      | Inr data \<Rightarrow> (case conversation_of_json data of None \<Rightarrow> Inl ErrLoadFailure | Some c \<Rightarrow> Inr c))" and r': "r' = snd g"
    using assms(2) by (cases g; auto simp: redis_LoadConversation_def g_def [symmetric]
        split: sum.splits redis_error.splits option.splits)+
  show "view r' = view r" "up r \<Longrightarrow> up r'" using law by (simp_all add: get_law_def r')
  show "redis_contents view st r i = Some c" if x: "x = Inr c"
  proof -
    obtain data where "fst g = Inr data" "conversation_of_json data = Some c"
      using x res by (auto split: sum.splits redis_error.splits option.splits)
    then show ?thesis using law by (simp add: get_law_def redis_contents_def)
  qed
  show "redis_contents view st r i = None" if x: "x = Inl ErrNotFound"
  proof -
    have "fst g = Inl RedisNil" using x res by (auto split: sum.splits redis_error.splits option.splits)
    then show ?thesis using law by (simp add: get_law_def redis_contents_def)
  qed
  show "x = Inr c" if u: "up r" and c: "redis_contents view st r i = Some c"
  proof -
    obtain j where j: "view r (rps_prefix st @ i) = Some (RString j)" "conversation_of_json j = Some c"
      using c by (auto simp: redis_contents_def split: option.splits redis_value.splits)
    have "fst g = Inr j" using law u j(1) unfolding get_law_def by blast
    then show ?thesis by (simp add: res j(2))
  qed
qed

lemma redis_delete_effect:
  assumes "redis_lawful view up st" and "redis_DeleteConversation st i r = (e, r')"
  shows "redis_contents view st r' = (redis_contents view st r)(i := None) \<or>
      e \<noteq> None \<and> redis_contents view st r' = redis_contents view st r"
    and "up r \<Longrightarrow> redis_contents view st r i = Some c \<Longrightarrow> e = None \<and> up r'"
proof -
  have laws: "redis_laws (rps_client st) view up" using assms(1) by (simp add: redis_lawful_def)
  obtain x r1 where l: "redis_LoadConversation st i r = (x, r1)" by force
  note load = redis_load_result [OF assms(1) l]
  define d where "d = rd_Del (rps_client st) (rps_prefix st @ i) r1"
  note del = redis_Del [OF laws, of r1 "rps_prefix st @ i", folded d_def]
  define b where "b = (\<lambda>u. snd (rd_SRem (rps_client st) (user_key st u) i (snd d)))"
  have rem: "strings (view (b u)) = strings (view (snd d))" "up (snd d) \<Longrightarrow> up (b u)" for u
    using member_law_strings [OF redis_SRem [OF laws, of "user_key st u" i "snd d"]] by (simp_all add: b_def)
  have res: "(e, r') = (case x of Inl err \<Rightarrow> (if err = ErrNotFound then None else Some err, r1)
      | Inr c \<Rightarrow> (case fst d of Some _ \<Rightarrow> (Some ErrPersistenceFailure, snd d) | None \<Rightarrow> (None, b (c_UserID c))))"
    using assms(2) l by (auto simp: redis_DeleteConversation_def d_def b_def case_prod_beta split: sum.splits option.splits)
  have new: "strings (view y) = (strings (view r))(rps_prefix st @ i := None) \<Longrightarrow>
      redis_contents view st y = (redis_contents view st r)(i := None)" for y
    by (rule ext) (auto simp: contents_strings)
  show "redis_contents view st r' = (redis_contents view st r)(i := None) \<or>
      e \<noteq> None \<and> redis_contents view st r' = redis_contents view st r"
  proof (cases x)
    case (Inl err)
    then have "redis_contents view st r' = redis_contents view st r" using res load(1) contents_cong by simp
    moreover have "err = ErrNotFound \<Longrightarrow> redis_contents view st r i = None" using load(3) Inl by simp
    ultimately show ?thesis using res Inl by (auto simp: fun_eq_iff)
  next
    case (Inr c)
    show ?thesis
    proof (cases "fst d")
      case None
      then have "strings (view (b (c_UserID c))) = (strings (view r))(rps_prefix st @ i := None)"
        using del rem(1) load(1) by (simp add: writes_def)
      then show ?thesis using res Inr None new by simp
    next
      case (Some err)
      then have "strings (view (snd d)) = (strings (view r))(rps_prefix st @ i := None) \<or> view (snd d) = view r"
        using del load(1) by (auto simp: writes_def)
      moreover have "e \<noteq> None" "r' = snd d" using res Inr Some by simp_all
      ultimately show ?thesis using new [of "snd d"] contents_cong [of view "snd d" r] by blast
    qed
  qed
  show "e = None \<and> up r'" if "up r" "redis_contents view st r i = Some c"
    using res load(4,5) writes_up [OF del] rem(2) that by simp
qed

text \<open>The Redis store keeps the contract, for every client that keeps the laws.\<close>

interpretation redis: conversation_store "redis_store keys st" "redis_contents view st" norm_conversation "storable keys" up
    "redis_lawful view up st"
  for keys :: key_order and st :: "'r RedisPersistenceStore" and view :: "'r \<Rightarrow> redis_view" and up :: "'r \<Rightarrow> bool"
proof unfold_locales
  note defs = redis_store_def PersistenceStore.simps
  fix c :: Conversation and s s' :: 'r and e i x u ids
  show "redis_contents view st s' = redis_contents view st s"
    if "redis_lawful view up st" "ps_ListUserConversations (redis_store keys st) u s = (ids, s')"
  proof (rule contents_cong)
    have laws: "redis_laws (rps_client st) view up" using that(1) by (simp add: redis_lawful_def)
    have "members_law view up (user_key st u) s (rd_SMembers (rps_client st) (user_key st u) s)"
      by (rule redis_SMembers [OF laws])
    then show "view s' = view s"
      using that(2) unfolding defs
      by (auto simp: redis_ListUserConversations_def members_law_def split: prod.splits sum.splits redis_error.splits)
  qed
  show "redis_contents view st s' = (redis_contents view st s)(c_ID c \<mapsto> norm_conversation c) \<or>
      e \<noteq> None \<and> redis_contents view st s' = redis_contents view st s"
    if "redis_lawful view up st" "storable keys c" "ps_SaveConversation (redis_store keys st) c s = (e, s')"
    using redis_save_effect(1) [OF that(1,2) that(3) [unfolded defs]] .
  show "e = None \<and> up s'"
    if "redis_lawful view up st" "up s" "storable keys c" "ps_SaveConversation (redis_store keys st) c s = (e, s')"
    using redis_save_effect(2) [OF that(1,3) that(4) [unfolded defs] that(2)] .
  show "redis_contents view st s' = redis_contents view st s \<and> (\<forall>c. x = Inr c \<longrightarrow> redis_contents view st s i = Some c) \<and>
      (x = Inl ErrNotFound \<longrightarrow> redis_contents view st s i = None)"
    if "redis_lawful view up st" "ps_LoadConversation (redis_store keys st) i s = (x, s')"
    using redis_load_result(1,2,3) [OF that(1) that(2) [unfolded defs]] by (auto simp: redis_contents_def)
  show "x = Inr c \<and> up s'"
    if "redis_lawful view up st" "up s" "redis_contents view st s i = Some c" "ps_LoadConversation (redis_store keys st) i s = (x, s')"
    using redis_load_result(4,5) [OF that(1) that(4) [unfolded defs] that(2)] that(3) by blast
  show "redis_contents view st s' = (redis_contents view st s)(i := None) \<or>
      e \<noteq> None \<and> redis_contents view st s' = redis_contents view st s"
    if "redis_lawful view up st" "ps_DeleteConversation (redis_store keys st) i s = (e, s')"
    using redis_delete_effect(1) [OF that(1) that(2) [unfolded defs]] .
  show "e = None \<and> up s'"
    if "redis_lawful view up st" "up s" "redis_contents view st s i = Some c" "ps_DeleteConversation (redis_store keys st) i s = (e, s')"
    using redis_delete_effect(2) [OF that(1) that(4) [unfolded defs] that(2,3)] .
  show "(\<forall>i. i \<noteq> c_ID c \<longrightarrow> redis_contents view st s' i = redis_contents view st s i) \<and>
      (\<forall>c'. redis_contents view st s' (c_ID c) = Some c' \<longrightarrow> redis_contents view st s (c_ID c) = Some c' \<or> same_outline c c')"
    if "redis_lawful view up st" "ps_SaveConversation (redis_store keys st) c s = (e, s')"
    using redis_save_any [OF that(1) that(2) [unfolded defs]] .
qed (rule norm_outline)

section \<open>A server in memory\<close>

text \<open>A client whose server is a table that never fails: the laws can be met.\<close>

type_synonym mem_redis = "string \<Rightarrow> (json + string list) option"

definition mem_members :: "mem_redis \<Rightarrow> string \<Rightarrow> string list" where
  "mem_members r k = (case r k of Some (Inr ms) \<Rightarrow> ms | _ \<Rightarrow> [])"

definition mem_put :: "string \<Rightarrow> string list \<Rightarrow> mem_redis \<Rightarrow> redis_error option \<times> mem_redis" where
  "mem_put k ms r =
     (case r k of Some (Inl _) \<Rightarrow> (Some RedisFailure, r) | _ \<Rightarrow> (None, r(k := if ms = [] then None else Some (Inr ms))))"

definition mem_client :: "mem_redis redis_client" where
  "mem_client =
     \<lparr>rd_Set = (\<lambda>k j d r. (None, r(k \<mapsto> Inl j))),
      rd_Get = (\<lambda>k r. (case r k of None \<Rightarrow> Inl RedisNil | Some (Inl j) \<Rightarrow> Inr j | Some (Inr ms) \<Rightarrow> if ms = [] then Inl RedisNil else Inl RedisFailure, r)),
      rd_SAdd = (\<lambda>k m r. mem_put k (List.insert m (mem_members r k)) r),
      rd_SMembers = (\<lambda>k r. (case r k of Some (Inl _) \<Rightarrow> Inl RedisFailure | _ \<Rightarrow> Inr (mem_members r k), r)),
      rd_Expire = (\<lambda>k d r. (None, if 0 < d then r else r(k := None))),
      rd_Del = (\<lambda>k r. (None, r(k := None))),
      rd_SRem = (\<lambda>k m r. mem_put k (filter (\<lambda>x. x \<noteq> m) (mem_members r k)) r)\<rparr>"

definition mem_view :: "mem_redis \<Rightarrow> redis_view" where
  "mem_view r k = (case r k of None \<Rightarrow> None | Some (Inl j) \<Rightarrow> Some (RString j) | Some (Inr ms) \<Rightarrow> set_value (set ms))"

lemma mem_view_set [simp]: "mem_view (r(k \<mapsto> Inl j)) = (mem_view r)(k \<mapsto> RString j)"
  "mem_view (r(k := None)) = (mem_view r)(k := None)"
  by (auto simp: mem_view_def)

lemma mem_not_string: "not_string (mem_view r k) \<longleftrightarrow> (\<forall>j. r k \<noteq> Some (Inl j))"
  by (auto simp: not_string_def mem_view_def set_value_def split: option.splits sum.splits)

lemma mem_set_members: "set_members (mem_view r k) = set (mem_members r k)"
  by (auto simp: set_members_def mem_view_def mem_members_def set_value_def split: option.splits sum.splits)

lemma mem_view_put: "mem_view (r(k := if ms = [] then None else Some (Inr ms))) = (mem_view r)(k := set_value (set ms))"
  by (rule ext) (simp add: mem_view_def set_value_def)

lemma mem_put_law:
  assumes "set ms = f (set (mem_members r k))"
  shows "member_law mem_view (\<lambda>_. True) k f r (mem_put k ms r)"
proof (cases "not_string (mem_view r k)")
  case True
  then have "mem_put k ms r = (None, r(k := if ms = [] then None else Some (Inr ms)))"
    by (auto simp: mem_not_string mem_put_def split: option.splits sum.splits)
  then show ?thesis using True by (simp add: member_law_def writes_def mem_view_put assms mem_set_members)
next
  case False
  then show ?thesis by (auto simp: member_law_def mem_put_def mem_not_string)
qed

lemma mem_laws: "redis_laws mem_client mem_view (\<lambda>_. True)"
proof -
  have "get_law mem_view (\<lambda>_. True) k r (rd_Get mem_client k r)" for k r
    by (auto simp: get_law_def mem_client_def mem_view_def set_value_def split: option.splits sum.splits)
  moreover have "members_law mem_view (\<lambda>_. True) k r (rd_SMembers mem_client k r)" for k r
    by (auto simp: members_law_def mem_client_def mem_set_members mem_not_string split: option.splits sum.splits)
  moreover have "member_law mem_view (\<lambda>_. True) k (insert m) r (rd_SAdd mem_client k m r)"
    "member_law mem_view (\<lambda>_. True) k (\<lambda>S. S - {m}) r (rd_SRem mem_client k m r)" for k m r
    unfolding mem_client_def by (auto intro!: mem_put_law)
  ultimately show ?thesis by (simp add: redis_laws_def) (simp add: mem_client_def writes_def)
qed

definition mem_store :: "mem_redis RedisPersistenceStore" where
  "mem_store = NewRedisPersistenceStore mem_client ''conversation:'' (24 * hour)"

lemma mem_lawful: "redis_lawful mem_view (\<lambda>_. True) mem_store"
  using mem_laws by (simp add: redis_lawful_def mem_store_def NewRedisPersistenceStore_def)

end
