(* ===== verification/PostgresStore.thy ===== *)
theory PostgresStore
  imports ConversationStore
begin

text \<open>
  \<^verbatim>\<open>PostgresPersistenceStore\<close> of \<^verbatim>\<open>internal/conversation/persistence.go\<close>. The gorm
  handle is a parameter: a record of the calls used, over a state \<open>'d\<close> of the database.
  \<open>gorm_laws\<close> is what they are documented to do to the rows of the table (\<open>rows\<close>): \<^verbatim>\<open>Save\<close>
  inserts or replaces the row of the primary key. The columns keep times with less precision
  than Go does (\<open>rnd\<close>), and the zero time exactly.
\<close>

record ConversationModel =
  cm_ID :: string
  cm_UserID :: string
  cm_CreatedAt :: go_time
  cm_LastActiveTime :: go_time
  cm_CompletedAt :: "go_time option"
  cm_State :: string
  cm_Messages :: json
  cm_Metadata :: json

section \<open>The database\<close>

datatype gorm_error = ErrRecordNotFound | GormFailure

record 'd gorm_db =
  db_AutoMigrate :: "'d \<Rightarrow> bool \<times> 'd"
  db_Save :: "ConversationModel \<Rightarrow> 'd \<Rightarrow> gorm_error option \<times> 'd"
  db_First :: "string \<Rightarrow> 'd \<Rightarrow> (gorm_error + ConversationModel) \<times> 'd"
  db_Pluck :: "string \<Rightarrow> 'd \<Rightarrow> (gorm_error + string list) \<times> 'd"
  db_Delete :: "string \<Rightarrow> 'd \<Rightarrow> gorm_error option \<times> 'd"

type_synonym table = "string \<Rightarrow> ConversationModel option"

definition db_row :: "(go_time \<Rightarrow> go_time) \<Rightarrow> ConversationModel \<Rightarrow> ConversationModel" where
  "db_row rnd m = m\<lparr>cm_CreatedAt := rnd (cm_CreatedAt m), cm_LastActiveTime := rnd (cm_LastActiveTime m),
     cm_CompletedAt := map_option rnd (cm_CompletedAt m)\<rparr>"

definition row_write :: "('d \<Rightarrow> table) \<Rightarrow> ('d \<Rightarrow> bool) \<Rightarrow> 'd \<Rightarrow> gorm_error option \<times> 'd \<Rightarrow> table \<Rightarrow> bool" where
  "row_write rows up d res v \<longleftrightarrow>
     (rows (snd res) = v \<or> fst res \<noteq> None \<and> rows (snd res) = rows d) \<and> (up d \<longrightarrow> fst res = None \<and> up (snd res))"

definition first_law :: "('d \<Rightarrow> table) \<Rightarrow> ('d \<Rightarrow> bool) \<Rightarrow> string \<Rightarrow> 'd \<Rightarrow> (gorm_error + ConversationModel) \<times> 'd \<Rightarrow> bool" where
  "first_law rows up i d res \<longleftrightarrow>
     rows (snd res) = rows d \<and> (\<forall>m. fst res = Inr m \<longrightarrow> rows d i = Some m) \<and>
     (fst res = Inl ErrRecordNotFound \<longrightarrow> rows d i = None) \<and>
     (up d \<longrightarrow> up (snd res) \<and> (\<forall>m. rows d i = Some m \<longrightarrow> fst res = Inr m) \<and>
        (rows d i = None \<longrightarrow> fst res = Inl ErrRecordNotFound))"

definition pluck_law :: "('d \<Rightarrow> table) \<Rightarrow> ('d \<Rightarrow> bool) \<Rightarrow> string \<Rightarrow> 'd \<Rightarrow> (gorm_error + string list) \<times> 'd \<Rightarrow> bool" where
  "pluck_law rows up u d res \<longleftrightarrow>
     rows (snd res) = rows d \<and>
     (\<forall>ids. fst res = Inr ids \<longrightarrow> set ids = {i. \<exists>m. rows d i = Some m \<and> cm_UserID m = u} \<and> distinct ids) \<and>
     (up d \<longrightarrow> up (snd res) \<and> (\<exists>ids. fst res = Inr ids))"

definition gorm_laws :: "'d gorm_db \<Rightarrow> (go_time \<Rightarrow> go_time) \<Rightarrow> ('d \<Rightarrow> table) \<Rightarrow> ('d \<Rightarrow> bool) \<Rightarrow> bool" where
  "gorm_laws db rnd rows up \<longleftrightarrow>
     (\<forall>d. (\<forall>m. row_write rows up d (db_Save db m d) ((rows d)(cm_ID m \<mapsto> db_row rnd m))) \<and>
        (\<forall>i. first_law rows up i d (db_First db i d)) \<and>
        (\<forall>u. pluck_law rows up u d (db_Pluck db u d)) \<and>
        (\<forall>i. row_write rows up d (db_Delete db i d) ((rows d)(i := None))))"

section \<open>The store\<close>

record 'd PostgresPersistenceStore =
  pps_db :: "'d gorm_db"

definition NewPostgresPersistenceStore :: "'d gorm_db \<Rightarrow> 'd \<Rightarrow> 'd PostgresPersistenceStore option \<times> 'd" where
  "NewPostgresPersistenceStore db d =
     (case db_AutoMigrate db d of (err, d1) \<Rightarrow> (if err then None else Some \<lparr>pps_db = db\<rparr>, d1))"

definition postgres_SaveConversation ::
    "key_order \<Rightarrow> 'd PostgresPersistenceStore \<Rightarrow> Conversation \<Rightarrow> 'd \<Rightarrow> StoreError option \<times> 'd" where
  "postgres_SaveConversation keys st conversation d =
     (case json_of_messages keys (c_Messages conversation) of
        None \<Rightarrow> (Some ErrPersistenceFailure, d)
      | Some messagesJSON \<Rightarrow>
          (case json_of_metadata keys (c_Metadata conversation) of
             None \<Rightarrow> (Some ErrPersistenceFailure, d)
           | Some metadataJSON \<Rightarrow>
               let model = \<lparr>cm_ID = c_ID conversation, cm_UserID = c_UserID conversation,
                     cm_CreatedAt = c_CreatedAt conversation, cm_LastActiveTime = c_LastActiveTime conversation,
                     cm_CompletedAt = (if c_CompletedAt conversation = zero_time then None else Some (c_CompletedAt conversation)),
                     cm_State = c_State conversation, cm_Messages = messagesJSON, cm_Metadata = metadataJSON\<rparr>
               in case db_Save (pps_db st) model d of
                    (Some _, d1) \<Rightarrow> (Some ErrPersistenceFailure, d1)
                  | (None, d1) \<Rightarrow> (None, d1)))"

definition conversation_of_model :: "ConversationModel \<Rightarrow> Conversation option" where
  "conversation_of_model m =
     (case messages_of_json (cm_Messages m) of
        None \<Rightarrow> None
      | Some messages \<Rightarrow>
          (case metadata_of_json (cm_Metadata m) of
             None \<Rightarrow> None
           | Some md \<Rightarrow>
               Some \<lparr>c_ID = cm_ID m, c_UserID = cm_UserID m, c_Title = '''', c_Context = '''', c_Status = '''',
                     c_State = cm_State m, c_Priority = 0, c_MessageCount = 0, c_LastActivity = zero_time,
                     c_LastActiveTime = cm_LastActiveTime m, c_CreatedAt = cm_CreatedAt m, c_UpdatedAt = zero_time,
                     c_CompletedAt = (case cm_CompletedAt m of None \<Rightarrow> zero_time | Some t \<Rightarrow> t),
                     c_Messages = messages, c_Metadata = md\<rparr>))"

definition postgres_LoadConversation ::
    "'d PostgresPersistenceStore \<Rightarrow> string \<Rightarrow> 'd \<Rightarrow> (StoreError + Conversation) \<times> 'd" where
  "postgres_LoadConversation st conversationID d =
     (case db_First (pps_db st) conversationID d of
        (Inl ErrRecordNotFound, d1) \<Rightarrow> (Inl ErrNotFound, d1)
      | (Inl GormFailure, d1) \<Rightarrow> (Inl ErrLoadFailure, d1)
      | (Inr model, d1) \<Rightarrow>
          (case conversation_of_model model of
             None \<Rightarrow> (Inl ErrLoadFailure, d1)
           | Some conversation \<Rightarrow> (Inr conversation, d1)))"

definition postgres_ListUserConversations ::
    "'d PostgresPersistenceStore \<Rightarrow> string \<Rightarrow> 'd \<Rightarrow> (StoreError + string list) \<times> 'd" where
  "postgres_ListUserConversations st userID d =
     (case db_Pluck (pps_db st) userID d of
        (Inl _, d1) \<Rightarrow> (Inl ErrLoadFailure, d1)
      | (Inr ids, d1) \<Rightarrow> (Inr ids, d1))"

definition postgres_DeleteConversation ::
    "'d PostgresPersistenceStore \<Rightarrow> string \<Rightarrow> 'd \<Rightarrow> StoreError option \<times> 'd" where
  "postgres_DeleteConversation st conversationID d =
     (case db_Delete (pps_db st) conversationID d of
        (Some _, d1) \<Rightarrow> (Some ErrPersistenceFailure, d1)
      | (None, d1) \<Rightarrow> (None, d1))"

definition postgres_store :: "key_order \<Rightarrow> 'd PostgresPersistenceStore \<Rightarrow> 'd PersistenceStore" where
  "postgres_store keys st =
     \<lparr>ps_SaveConversation = postgres_SaveConversation keys st, ps_LoadConversation = postgres_LoadConversation st,
      ps_ListUserConversations = postgres_ListUserConversations st, ps_DeleteConversation = postgres_DeleteConversation st\<rparr>"

section \<open>The contract\<close>

definition postgres_contents :: "('d \<Rightarrow> table) \<Rightarrow> 'd \<Rightarrow> string \<Rightarrow> Conversation option" where
  "postgres_contents rows d i = Option.bind (rows d i) conversation_of_model"

text \<open>What a row keeps of a conversation: not the title, context, status, priority and count.\<close>

definition kept_by_row :: "(go_time \<Rightarrow> go_time) \<Rightarrow> Conversation \<Rightarrow> Conversation" where
  "kept_by_row rnd c =
     (norm_conversation c)\<lparr>c_Title := '''', c_Context := '''', c_Status := '''', c_Priority := 0, c_MessageCount := 0,
       c_LastActivity := zero_time, c_UpdatedAt := zero_time, c_LastActiveTime := rnd (c_LastActiveTime c),
       c_CreatedAt := rnd (c_CreatedAt c),
       c_CompletedAt := (if c_CompletedAt c = zero_time then zero_time else rnd (c_CompletedAt c))\<rparr>"

definition row_storable :: "key_order \<Rightarrow> Conversation \<Rightarrow> bool" where
  "row_storable keys c \<longleftrightarrow> conversation_ok keys c \<and> json_of_messages keys (c_Messages c) \<noteq> None \<and>
     json_of_metadata keys (c_Metadata c) \<noteq> None"

definition gorm_lawful :: "(go_time \<Rightarrow> go_time) \<Rightarrow> ('d \<Rightarrow> table) \<Rightarrow> ('d \<Rightarrow> bool) \<Rightarrow> 'd PostgresPersistenceStore \<Rightarrow> bool" where
  "gorm_lawful rnd rows up st \<longleftrightarrow> gorm_laws (pps_db st) rnd rows up"

lemma gorm_lawsD:
  assumes "gorm_lawful rnd rows up st"
  shows gorm_Save: "row_write rows up d (db_Save (pps_db st) m d) ((rows d)(cm_ID m \<mapsto> db_row rnd m))"
    and gorm_First: "first_law rows up i d (db_First (pps_db st) i d)"
    and gorm_Pluck: "pluck_law rows up u d (db_Pluck (pps_db st) u d)"
    and gorm_Delete: "row_write rows up d (db_Delete (pps_db st) i d) ((rows d)(i := None))"
  using assms by (simp_all add: gorm_lawful_def gorm_laws_def)

lemma postgres_contents_cong: "rows y = rows d \<Longrightarrow> postgres_contents rows y = postgres_contents rows d"
  by (rule ext) (simp add: postgres_contents_def)

definition row_of :: "Conversation \<Rightarrow> json \<Rightarrow> json \<Rightarrow> ConversationModel" where
  "row_of c jm jd = \<lparr>cm_ID = c_ID c, cm_UserID = c_UserID c, cm_CreatedAt = c_CreatedAt c,
      cm_LastActiveTime = c_LastActiveTime c,
      cm_CompletedAt = (if c_CompletedAt c = zero_time then None else Some (c_CompletedAt c)),
      cm_State = c_State c, cm_Messages = jm, cm_Metadata = jd\<rparr>"

lemma postgres_save_rows:
  assumes "gorm_lawful rnd rows up st" and "postgres_SaveConversation keys st c d = (e, d')"
  shows "e \<noteq> None \<and> rows d' = rows d \<or>
      (\<exists>jm jd. json_of_messages keys (c_Messages c) = Some jm \<and> json_of_metadata keys (c_Metadata c) = Some jd \<and>
         rows d' = (rows d)(c_ID c \<mapsto> db_row rnd (row_of c jm jd)))"
    and "up d \<Longrightarrow> json_of_messages keys (c_Messages c) \<noteq> None \<Longrightarrow> json_of_metadata keys (c_Metadata c) \<noteq> None \<Longrightarrow>
      e = None \<and> up d'"
proof -
  define s where "s = (\<lambda>jm jd. db_Save (pps_db st) (row_of c jm jd) d)"
  have save: "row_write rows up d (s jm jd) ((rows d)(c_ID c \<mapsto> db_row rnd (row_of c jm jd)))" for jm jd
    using gorm_Save [OF assms(1), of d "row_of c jm jd"] by (simp add: s_def row_of_def)
  have res: "(e, d') = (case json_of_messages keys (c_Messages c) of None \<Rightarrow> (Some ErrPersistenceFailure, d)
      | Some jm \<Rightarrow> (case json_of_metadata keys (c_Metadata c) of None \<Rightarrow> (Some ErrPersistenceFailure, d)
      | Some jd \<Rightarrow> (if fst (s jm jd) = None then None else Some ErrPersistenceFailure, snd (s jm jd))))"
    using assms(2) by (auto simp: postgres_SaveConversation_def row_of_def s_def Let_def case_prod_beta split: option.splits)
  show "e \<noteq> None \<and> rows d' = rows d \<or>
      (\<exists>jm jd. json_of_messages keys (c_Messages c) = Some jm \<and> json_of_metadata keys (c_Metadata c) = Some jd \<and>
         rows d' = (rows d)(c_ID c \<mapsto> db_row rnd (row_of c jm jd)))"
  proof (cases "json_of_messages keys (c_Messages c) = None \<or> json_of_metadata keys (c_Metadata c) = None")
    case True
    then show ?thesis using res by (auto split: option.splits)
  next
    case False
    then obtain jm jd where j: "json_of_messages keys (c_Messages c) = Some jm" "json_of_metadata keys (c_Metadata c) = Some jd"
      by auto
    then have "e = (if fst (s jm jd) = None then None else Some ErrPersistenceFailure)" "d' = snd (s jm jd)"
      using res by simp_all
    then show ?thesis using save [of jm jd] j by (auto simp: row_write_def)
  qed
  show "e = None \<and> up d'"
    if "up d" "json_of_messages keys (c_Messages c) \<noteq> None" "json_of_metadata keys (c_Metadata c) \<noteq> None"
    using save res that by (auto simp: row_write_def)
qed

lemma postgres_contents_upd:
  "rows y = (rows d)(k \<mapsto> m) \<Longrightarrow> postgres_contents rows y = (postgres_contents rows d)(k := conversation_of_model m)"
  by (rule ext) (simp add: postgres_contents_def)

lemma postgres_save_effect:
  assumes "gorm_lawful rnd rows up st" and "row_storable keys c" and "postgres_SaveConversation keys st c d = (e, d')"
  shows "postgres_contents rows d' = (postgres_contents rows d)(c_ID c \<mapsto> kept_by_row rnd c) \<or>
      e \<noteq> None \<and> postgres_contents rows d' = postgres_contents rows d"
    and "up d \<Longrightarrow> e = None \<and> up d'"
proof -
  note res = postgres_save_rows [OF assms(1,3)]
  show "postgres_contents rows d' = (postgres_contents rows d)(c_ID c \<mapsto> kept_by_row rnd c) \<or>
      e \<noteq> None \<and> postgres_contents rows d' = postgres_contents rows d"
    using res(1)
  proof
    assume "e \<noteq> None \<and> rows d' = rows d"
    then show ?thesis using postgres_contents_cong [of rows d' d] by blast
  next
    assume "\<exists>jm jd. json_of_messages keys (c_Messages c) = Some jm \<and> json_of_metadata keys (c_Metadata c) = Some jd \<and>
         rows d' = (rows d)(c_ID c \<mapsto> db_row rnd (row_of c jm jd))"
    then obtain jm jd where j: "json_of_messages keys (c_Messages c) = Some jm" "json_of_metadata keys (c_Metadata c) = Some jd"
      "rows d' = (rows d)(c_ID c \<mapsto> db_row rnd (row_of c jm jd))"
      by blast
    have decoded: "messages_of_json jm = Some (map norm_message (c_Messages c))"
      "metadata_of_json jd = Some (norm_metadata (c_Metadata c))"
      using messages_round_trip [OF j(1)] metadata_round_trip [OF j(2)] assms(2)
      by (simp_all add: row_storable_def conversation_ok_def)
    have "conversation_of_model (db_row rnd (row_of c jm jd)) = Some (kept_by_row rnd c)"
      by (simp add: conversation_of_model_def db_row_def row_of_def decoded kept_by_row_def norm_conversation_def)
    then show ?thesis using postgres_contents_upd [of rows d' d, OF j(3)] by simp
  qed
  show "up d \<Longrightarrow> e = None \<and> up d'" using res(2) assms(2) unfolding row_storable_def by blast
qed

lemma postgres_save_any:
  assumes "gorm_lawful rnd rows up st" and "postgres_SaveConversation keys st c d = (e, d')"
  shows "(\<forall>i. i \<noteq> c_ID c \<longrightarrow> postgres_contents rows d' i = postgres_contents rows d i) \<and>
      (\<forall>c'. postgres_contents rows d' (c_ID c) = Some c' \<longrightarrow>
         postgres_contents rows d (c_ID c) = Some c' \<or> same_outline c c')"
  using postgres_save_rows(1) [OF assms]
proof
  assume "e \<noteq> None \<and> rows d' = rows d"
  then show ?thesis using postgres_contents_cong [of rows d' d] by simp
next
  assume "\<exists>jm jd. json_of_messages keys (c_Messages c) = Some jm \<and> json_of_metadata keys (c_Metadata c) = Some jd \<and>
         rows d' = (rows d)(c_ID c \<mapsto> db_row rnd (row_of c jm jd))"
  then obtain jm jd where j: "json_of_messages keys (c_Messages c) = Some jm" "json_of_metadata keys (c_Metadata c) = Some jd"
    "rows d' = (rows d)(c_ID c \<mapsto> db_row rnd (row_of c jm jd))"
    by blast
  have "same_outline c c'" if "conversation_of_model (db_row rnd (row_of c jm jd)) = Some c'" for c'
    using that messages_length [OF j(1)] metadata_nil [OF j(2)]
    by (auto simp: conversation_of_model_def db_row_def row_of_def same_outline_def split: option.splits)
  then show ?thesis by (simp add: postgres_contents_upd [of rows d' d, OF j(3)])
qed

lemma postgres_load_result:
  assumes "gorm_lawful rnd rows up st" and "postgres_LoadConversation st i d = (x, d')"
  shows "rows d' = rows d" and "x = Inr c \<Longrightarrow> postgres_contents rows d i = Some c"
    and "x = Inl ErrNotFound \<Longrightarrow> postgres_contents rows d i = None"
    and "up d \<Longrightarrow> up d'" and "up d \<Longrightarrow> postgres_contents rows d i = Some c \<Longrightarrow> x = Inr c"
proof -
  define g where "g = db_First (pps_db st) i d"
  note law = gorm_First [OF assms(1), of i d, folded g_def]
  have res: "x = (case fst g of Inl ErrRecordNotFound \<Rightarrow> Inl ErrNotFound | Inl GormFailure \<Rightarrow> Inl ErrLoadFailure
      | Inr m \<Rightarrow> (case conversation_of_model m of None \<Rightarrow> Inl ErrLoadFailure | Some c \<Rightarrow> Inr c))" and d': "d' = snd g"
    using assms(2) by (cases g; auto simp: postgres_LoadConversation_def g_def [symmetric]
        split: sum.splits gorm_error.splits option.splits)+
  show "rows d' = rows d" "up d \<Longrightarrow> up d'" using law by (simp_all add: first_law_def d')
  show "postgres_contents rows d i = Some c" if x: "x = Inr c"
  proof -
    obtain m where m: "fst g = Inr m" "conversation_of_model m = Some c"
      using x res by (auto split: sum.splits gorm_error.splits option.splits)
    then have "rows d i = Some m" using law unfolding first_law_def by blast
    then show ?thesis by (simp add: postgres_contents_def m)
  qed
  show "postgres_contents rows d i = None" if x: "x = Inl ErrNotFound"
  proof -
    have "fst g = Inl ErrRecordNotFound" using x res by (auto split: sum.splits gorm_error.splits option.splits)
    then have "rows d i = None" using law unfolding first_law_def by blast
    then show ?thesis by (simp add: postgres_contents_def)
  qed
  show "x = Inr c" if u: "up d" and c: "postgres_contents rows d i = Some c"
  proof -
    obtain m where m: "rows d i = Some m" "conversation_of_model m = Some c"
      using c by (auto simp: postgres_contents_def split: bind_splits)
    have "fst g = Inr m" using law u m(1) unfolding first_law_def by blast
    then show ?thesis by (simp add: res m(2))
  qed
qed

lemma postgres_delete_effect:
  assumes "gorm_lawful rnd rows up st" and "postgres_DeleteConversation st i d = (e, d')"
  shows "postgres_contents rows d' = (postgres_contents rows d)(i := None) \<or>
      e \<noteq> None \<and> postgres_contents rows d' = postgres_contents rows d"
    and "up d \<Longrightarrow> e = None \<and> up d'"
proof -
  define s where "s = db_Delete (pps_db st) i d"
  note del = gorm_Delete [OF assms(1), of d i, folded s_def]
  have "(e, d') = (case s of (Some _, d1) \<Rightarrow> (Some ErrPersistenceFailure, d1) | (None, d1) \<Rightarrow> (None, d1))"
    using assms(2) by (simp add: postgres_DeleteConversation_def s_def)
  then have res: "d' = snd s" "e = None \<longleftrightarrow> fst s = None" by (cases s; cases "fst s"; simp)+
  have new: "rows d' = (rows d)(i := None) \<Longrightarrow> postgres_contents rows d' = (postgres_contents rows d)(i := None)"
    by (rule ext) (auto simp: postgres_contents_def)
  show "postgres_contents rows d' = (postgres_contents rows d)(i := None) \<or>
      e \<noteq> None \<and> postgres_contents rows d' = postgres_contents rows d"
    using del new postgres_contents_cong [of rows d' d] res unfolding row_write_def by auto
  show "up d \<Longrightarrow> e = None \<and> up d'" using del res by (simp add: row_write_def)
qed

text \<open>The PostgreSQL store keeps the contract, for every database that keeps the laws.\<close>

interpretation postgres: conversation_store "postgres_store keys st" "postgres_contents rows" "kept_by_row rnd" "row_storable keys"
    up "gorm_lawful rnd rows up st"
  for keys :: key_order and st :: "'d PostgresPersistenceStore" and rnd :: "go_time \<Rightarrow> go_time" and rows :: "'d \<Rightarrow> table"
    and up :: "'d \<Rightarrow> bool"
proof unfold_locales
  note defs = postgres_store_def PersistenceStore.simps
  fix c :: Conversation and s s' :: 'd and e i x u ids
  show "postgres_contents rows s' = postgres_contents rows s"
    if "gorm_lawful rnd rows up st" "ps_ListUserConversations (postgres_store keys st) u s = (ids, s')"
    using gorm_Pluck [OF that(1), of u s] that(2) unfolding defs
    by (intro postgres_contents_cong) (auto simp: postgres_ListUserConversations_def pluck_law_def split: prod.splits sum.splits)
  show "postgres_contents rows s' = (postgres_contents rows s)(c_ID c \<mapsto> kept_by_row rnd c) \<or>
      e \<noteq> None \<and> postgres_contents rows s' = postgres_contents rows s"
    if "gorm_lawful rnd rows up st" "row_storable keys c" "ps_SaveConversation (postgres_store keys st) c s = (e, s')"
    using postgres_save_effect(1) [OF that(1,2) that(3) [unfolded defs]] .
  show "e = None \<and> up s'"
    if "gorm_lawful rnd rows up st" "up s" "row_storable keys c" "ps_SaveConversation (postgres_store keys st) c s = (e, s')"
    using postgres_save_effect(2) [OF that(1,3) that(4) [unfolded defs] that(2)] .
  show "postgres_contents rows s' = postgres_contents rows s \<and> (\<forall>c. x = Inr c \<longrightarrow> postgres_contents rows s i = Some c) \<and>
      (x = Inl ErrNotFound \<longrightarrow> postgres_contents rows s i = None)"
    if "gorm_lawful rnd rows up st" "ps_LoadConversation (postgres_store keys st) i s = (x, s')"
    using postgres_load_result(1,2,3) [OF that(1) that(2) [unfolded defs]] postgres_contents_cong [of rows s' s] by blast
  show "x = Inr c \<and> up s'"
    if "gorm_lawful rnd rows up st" "up s" "postgres_contents rows s i = Some c"
      "ps_LoadConversation (postgres_store keys st) i s = (x, s')"
    using postgres_load_result(4,5) [OF that(1) that(4) [unfolded defs] that(2)] that(3) by blast
  show "postgres_contents rows s' = (postgres_contents rows s)(i := None) \<or>
      e \<noteq> None \<and> postgres_contents rows s' = postgres_contents rows s"
    if "gorm_lawful rnd rows up st" "ps_DeleteConversation (postgres_store keys st) i s = (e, s')"
    using postgres_delete_effect(1) [OF that(1) that(2) [unfolded defs]] .
  show "e = None \<and> up s'"
    if "gorm_lawful rnd rows up st" "up s" "postgres_contents rows s i = Some c"
      "ps_DeleteConversation (postgres_store keys st) i s = (e, s')"
    using postgres_delete_effect(2) [OF that(1) that(4) [unfolded defs] that(2)] .
  show "(\<forall>i. i \<noteq> c_ID c \<longrightarrow> postgres_contents rows s' i = postgres_contents rows s i) \<and>
      (\<forall>c'. postgres_contents rows s' (c_ID c) = Some c' \<longrightarrow> postgres_contents rows s (c_ID c) = Some c' \<or> same_outline c c')"
    if "gorm_lawful rnd rows up st" "ps_SaveConversation (postgres_store keys st) c s = (e, s')"
    using postgres_save_any [OF that(1) that(2) [unfolded defs]] .
qed (simp add: same_outline_def kept_by_row_def norm_conversation_def norm_metadata_def)

section \<open>A database in memory\<close>

text \<open>A table that never fails and keeps microseconds: the laws can be met.\<close>

definition microseconds :: "go_time \<Rightarrow> go_time" where
  "microseconds t = t - t mod 1000"

definition mem_rows :: "ConversationModel list \<Rightarrow> table" where
  "mem_rows d i = find (\<lambda>m. cm_ID m = i) d"

definition mem_db :: "ConversationModel list gorm_db" where
  "mem_db =
     \<lparr>db_AutoMigrate = (\<lambda>d. (False, d)),
      db_Save = (\<lambda>m d. (None, db_row microseconds m # d)),
      db_First = (\<lambda>i d. (case mem_rows d i of None \<Rightarrow> Inl ErrRecordNotFound | Some m \<Rightarrow> Inr m, d)),
      db_Pluck = (\<lambda>u d. (Inr (filter (\<lambda>i. case mem_rows d i of None \<Rightarrow> False | Some m \<Rightarrow> cm_UserID m = u)
                              (remdups (map cm_ID d))), d)),
      db_Delete = (\<lambda>i d. (None, filter (\<lambda>m. cm_ID m \<noteq> i) d))\<rparr>"

lemma mem_rows_filter: "mem_rows (filter (\<lambda>m. cm_ID m \<noteq> i) d) = (mem_rows d)(i := None)"
  by (rule ext) (induction d; simp add: mem_rows_def)

lemma mem_rows_Some: "mem_rows d i = Some m \<Longrightarrow> i \<in> cm_ID ` set d"
  by (auto simp: mem_rows_def find_Some_iff)

lemma mem_gorm_laws: "gorm_laws mem_db microseconds mem_rows (\<lambda>_. True)"
proof -
  have "pluck_law mem_rows (\<lambda>_. True) u d (db_Pluck mem_db u d)" for u d
    by (auto simp: pluck_law_def mem_db_def dest: mem_rows_Some split: option.splits)
  moreover have "mem_rows (db_row microseconds m # d) = (mem_rows d)(cm_ID m \<mapsto> db_row microseconds m)" for m d
    by (rule ext) (simp add: mem_rows_def db_row_def)
  ultimately show ?thesis
    by (simp add: gorm_laws_def) (simp add: mem_db_def row_write_def first_law_def mem_rows_filter split: option.splits)
qed

definition mem_postgres :: "ConversationModel list PostgresPersistenceStore" where
  "mem_postgres = \<lparr>pps_db = mem_db\<rparr>"

lemma mem_postgres_lawful: "gorm_lawful microseconds mem_rows (\<lambda>_. True) mem_postgres"
  using mem_gorm_laws by (simp add: gorm_lawful_def mem_postgres_def)

end
