(* ===== verification/ConversationRuns.thy ===== *)
theory ConversationRuns
  imports ConversationManager RedisStore PostgresStore
begin

text \<open>
  Runs of the conversation state manager over a store. The events are the sections that hold
  the lock, so that every interleaving of concurrent calls is a run: beside the whole calls
  there are the two places where \<^verbatim>\<open>GetConversation\<close> and \<^verbatim>\<open>GetUserConversations\<close> put into
  memory what they found or made while they did not hold it.
\<close>

section \<open>Runs\<close>

datatype csm_event =
    EvGet "go_time \<times> (go_time \<times> go_time) \<times> (nat \<Rightarrow> go_time)" string string
  | EvInstall "nat \<Rightarrow> go_time" string string Conversation
  | EvPut string Conversation
  | EvAdd go_time string message
  | EvState go_time string ConversationState
  | EvMetadata "string list" string metadata
  | EvDelete string
  | EvList string
  | EvCleanup go_time "string list"

fun csm_step :: "csm_event \<Rightarrow> 's StateManager \<times> 's \<Rightarrow> ('s StateManager \<times> 's) option" where
  "csm_step (EvGet clocks i u) state = Some (snd (csm_GetConversation clocks i u state))"
| "csm_step (EvInstall nows i u conv) state = Some (csm_install nows i u conv state)"
| "csm_step (EvPut i conv) state = Some (csm_put i conv (fst state), snd state)"
| "csm_step (EvAdd now i msg) state = Some (snd (csm_AddMessage now i msg state))"
| "csm_step (EvState now i st) state = Some (snd (csm_UpdateConversationState now i st state))"
| "csm_step (EvMetadata order i md) state = map_option snd (csm_UpdateConversationMetadata order i md state)"
| "csm_step (EvDelete i) state = Some (snd (csm_DeleteConversation i state))"
| "csm_step (EvList u) state = Some (snd (csm_GetUserConversations u state))"
| "csm_step (EvCleanup now order) state = Some (csm_cleanupExpiredConversations now order state)"

fun csm_run :: "csm_event list \<Rightarrow> 's StateManager \<times> 's \<Rightarrow> ('s StateManager \<times> 's) option" where
  "csm_run [] state = Some state"
| "csm_run (e # es) state = (case csm_step e state of None \<Rightarrow> None | Some state' \<Rightarrow> csm_run es state')"

section \<open>Limits\<close>

text \<open>A conversation filed under its identifier, with a metadata map and no more messages than \<open>L\<close>.\<close>

definition conv_fits :: "int \<Rightarrow> string \<Rightarrow> Conversation \<Rightarrow> bool" where
  "conv_fits L i c \<longleftrightarrow> c_ID c = i \<and> c_Metadata c \<noteq> None \<and> (0 < L \<longrightarrow> int (length (c_Messages c)) \<le> L)"

definition all_fit :: "int \<Rightarrow> (string \<Rightarrow> Conversation option) \<Rightarrow> bool" where
  "all_fit L m \<longleftrightarrow> (\<forall>i c. m i = Some c \<longrightarrow> conv_fits L i c)"

definition lists_fit :: "int \<Rightarrow> (string \<Rightarrow> string list option) \<Rightarrow> bool" where
  "lists_fit M m \<longleftrightarrow> (\<forall>u ids. m u = Some ids \<longrightarrow> distinct ids \<and> (0 < M \<longrightarrow> int (length ids) \<le> M))"

fun event_fits :: "int \<Rightarrow> csm_event \<Rightarrow> bool" where
  "event_fits L (EvInstall nows i u conv) = conv_fits L i conv"
| "event_fits L (EvPut i conv) = conv_fits L i conv"
| "event_fits L e = True"

lemma all_fit_upd: "all_fit L m \<Longrightarrow> conv_fits L i c \<Longrightarrow> all_fit L (m(i \<mapsto> c))"
  by (simp add: all_fit_def)

lemma all_fit_del: "all_fit L m \<Longrightarrow> all_fit L (m(i := None))"
  by (simp add: all_fit_def)

lemma all_fitD: "all_fit L m \<Longrightarrow> m i = Some c \<Longrightarrow> conv_fits L i c"
  by (simp add: all_fit_def)

lemma lists_fit_upd:
  "lists_fit M m \<Longrightarrow> distinct ids \<Longrightarrow> (0 < M \<Longrightarrow> int (length ids) \<le> M) \<Longrightarrow> lists_fit M (m(u \<mapsto> ids))"
  by (simp add: lists_fit_def)

lemma csm_cut_fits: "csm_maxContextLength sm = L \<Longrightarrow> 0 < L \<Longrightarrow> int (length (csm_cut sm msgs)) \<le> L"
  by (auto simp: csm_cut_def Let_def)

lemma csm_put_simps [simp]:
  "csm_conversations (csm_put i c sm) = (csm_conversations sm)(i \<mapsto> c)"
  "csm_activeUsers (csm_put i c sm) = csm_activeUsers sm"
  "csm_store (csm_put i c sm) = csm_store sm"
  "csm_maxContextLength (csm_put i c sm) = csm_maxContextLength sm"
  "csm_maxConversations (csm_put i c sm) = csm_maxConversations sm"
  by (simp_all add: csm_put_def csm_store_def)

lemma csm_store_upd [simp]:
  "csm_store (sm\<lparr>csm_activeUsers := x\<rparr>) = csm_store sm" "csm_store (sm\<lparr>csm_conversations := y\<rparr>) = csm_store sm"
  by (simp_all add: csm_store_def)

section \<open>The limits hold\<close>

context conversation_store
begin

text \<open>The manager uses this store or none, and manager and store are within the limits.\<close>

definition good :: "int \<Rightarrow> int \<Rightarrow> 's StateManager \<times> 's \<Rightarrow> bool" where
  "good L M state \<longleftrightarrow>
     csm_store (fst state) \<in> {None, Some store} \<and> csm_maxContextLength (fst state) = L \<and>
     csm_maxConversations (fst state) = M \<and> all_fit L (csm_conversations (fst state)) \<and>
     lists_fit M (csm_activeUsers (fst state)) \<and> all_fit L (contents (snd state))"

lemma persist_fits:
  assumes lawful and "csm_store sm \<in> {None, Some store}" and "all_fit L (contents s)" and "conv_fits L i c"
  shows "all_fit L (contents (csm_persist c sm s))"
proof (cases "csm_store sm")
  case (Some st)
  then have st: "st = store" using assms(2) by simp
  obtain e s' where s: "ps_SaveConversation store c s = (e, s')" by force
  have "conv_fits L k c'" if c': "contents s' k = Some c'" for k c'
  proof (cases "k = c_ID c")
    case True
    then have "contents s k = Some c' \<or> same_outline c c'" using save_any [OF assms(1) s] c' by blast
    then show ?thesis using all_fitD [OF assms(3)] assms(4) True by (auto simp: same_outline_def conv_fits_def)
  next
    case False
    then show ?thesis using save_any [OF assms(1) s] c' all_fitD [OF assms(3)] by simp
  qed
  then show ?thesis by (simp add: all_fit_def csm_persist_def Some st s)
qed (simp add: csm_persist_def assms(3))

lemma put_persist_good:
  assumes lawful and "good L M (sm, s)" and "conv_fits L i c"
  shows "good L M (csm_put i c sm, csm_persist c sm s)"
  using assms persist_fits [OF assms(1), of sm L s i c] by (simp add: good_def all_fit_upd)

lemma load_good:
  assumes lawful and "good L M (sm, s)" and "ps_LoadConversation store i s = (x, s')"
  shows "good L M (sm, s')" and "x = Inr c \<Longrightarrow> conv_fits L i c"
  using assms load_effect [OF assms(1,3)] all_fitD [of L "contents s" i] by (auto simp: good_def)

lemma archive_good: "lawful \<Longrightarrow> good L M state \<Longrightarrow> good L M (csm_archive nows ids state)"
proof (induction nows ids state rule: csm_archive.induct)
  case (2 nows i ids sm s)
  show ?case
  proof (cases "csm_conversations sm i")
    case None
    then show ?thesis using 2(1) [OF 2(2)] 2(3) by simp
  next
    case (Some c)
    let ?c = "c\<lparr>c_State := ConversationStateArchived, c_CompletedAt := nows 0\<rparr>"
    have "conv_fits L i c" using 2(3) Some by (auto simp: good_def intro: all_fitD)
    then have "good L M (csm_put i ?c sm, csm_persist ?c sm s)"
      using 2(2,3) by (intro put_persist_good) (simp_all add: conv_fits_def)
    then show ?thesis using 2(1) [OF 2(2)] Some by (simp add: Let_def)
  qed
qed simp

lemma addToActiveUsers_good: "lawful \<Longrightarrow> good L M state \<Longrightarrow> good L M (csm_addToActiveUsers nows u i state)"
proof -
  assume law: lawful and g: "good L M state"
  obtain sm s where state: "state = (sm, s)" by force
  note g = g [unfolded state]
  have users: "good L M (sm\<lparr>csm_activeUsers := (csm_activeUsers sm)(u \<mapsto> ids)\<rparr>, s)"
    if "distinct ids" "0 < M \<Longrightarrow> int (length ids) \<le> M" for ids
    using g that by (auto simp: good_def intro: lists_fit_upd)
  show ?thesis
  proof (cases "csm_activeUsers sm u")
    case None
    then show ?thesis using users [of "[i]"] by (simp add: csm_addToActiveUsers_def state)
  next
    case (Some ids)
    have d: "distinct ids" "0 < M \<Longrightarrow> int (length ids) \<le> M" "csm_maxConversations sm = M"
      using g Some by (auto simp: good_def lists_fit_def)
    show ?thesis
    proof (cases "i \<in> set ids \<or> \<not> (0 < M \<and> M < int (length ids) + 1)")
      case True
      then show ?thesis using g users [of "ids @ [i]"] d Some by (auto simp: csm_addToActiveUsers_def state Let_def)
    next
      case False
      let ?ids = "ids @ [i]" and ?k = "length ids + 1 - nat M"
      have "good L M (sm\<lparr>csm_activeUsers := (csm_activeUsers sm)(u \<mapsto> drop ?k ?ids)\<rparr>, s)"
        using d(1) False by (intro users) (simp_all add: distinct_drop del: drop_append)
      from archive_good [OF law this, of nows "take ?k ?ids"] show ?thesis
        using Some False d(3) by (simp add: csm_addToActiveUsers_def state Let_def algebra_simps)
    qed
  qed
qed

lemma install_good:
  "lawful \<Longrightarrow> good L M state \<Longrightarrow> conv_fits L i c \<Longrightarrow> good L M (csm_install nows i u c state)"
  unfolding csm_install_def
  by (rule addToActiveUsers_good) (auto simp: good_def all_fit_upd)

lemma fetch_good:
  assumes lawful and "good L M (sm, s)" and "csm_fetch ts i u sm s = (c, s')"
  shows "good L M (sm, s')" and "conv_fits L i c"
proof -
  have new: "conv_fits L i (csm_new_conversation ts i u)" by (simp add: conv_fits_def csm_new_conversation_def)
  show "good L M (sm, s')" "conv_fits L i c"
    using assms(2,3) new load_good [OF assms(1,2), of i]
    by (auto simp: csm_fetch_def good_def split: option.splits prod.splits sum.splits)
qed

lemma get_good: "lawful \<Longrightarrow> good L M state \<Longrightarrow> good L M (snd (csm_GetConversation clocks i u state))"
proof -
  assume law: lawful and g: "good L M state"
  obtain sm s where state: "state = (sm, s)" by force
  obtain now ts nows where clocks: "clocks = (now, ts, nows)" by (cases clocks) auto
  show ?thesis
  proof (cases "csm_conversations sm i")
    case None
    obtain c s' where f: "csm_fetch ts i u sm s = (c, s')" by force
    show ?thesis
      using install_good [OF law fetch_good [OF law g [unfolded state] f]] None f
      by (simp add: csm_GetConversation_def clocks state csm_hit_def)
  next
    case (Some c)
    then have "conv_fits L i (c\<lparr>c_LastActiveTime := now\<rparr>)"
      using g by (auto simp: state good_def conv_fits_def dest: all_fitD)
    then show ?thesis
      using g Some by (simp add: csm_GetConversation_def clocks state csm_hit_def good_def all_fit_upd Let_def)
  qed
qed

lemma add_good: "lawful \<Longrightarrow> good L M state \<Longrightarrow> good L M (snd (csm_AddMessage now i msg state))"
proof -
  assume law: lawful and g: "good L M state"
  obtain sm s where state: "state = (sm, s)" by force
  show ?thesis
  proof (cases "csm_conversations sm i")
    case (Some c)
    let ?c = "c\<lparr>c_Messages := csm_cut sm (c_Messages c @ [msg]), c_LastActiveTime := now\<rparr>"
    have "conv_fits L i ?c"
      using g Some csm_cut_fits [of sm L] by (auto simp: state good_def conv_fits_def dest: all_fitD)
    from put_persist_good [OF law g [unfolded state] this] show ?thesis
      using Some by (simp add: csm_AddMessage_def state Let_def)
  qed (use g in \<open>simp add: csm_AddMessage_def state\<close>)
qed

lemma update_state_good: "lawful \<Longrightarrow> good L M state \<Longrightarrow> good L M (snd (csm_UpdateConversationState now i st state))"
proof -
  assume law: lawful and g: "good L M state"
  obtain sm s where state: "state = (sm, s)" by force
  show ?thesis
  proof (cases "csm_conversations sm i")
    case (Some c)
    let ?c = "if st = ConversationStateCompleted \<or> st = ConversationStateArchived
      then c\<lparr>c_State := st, c_CompletedAt := now\<rparr> else c\<lparr>c_State := st\<rparr>"
    have "conv_fits L i ?c" using g Some by (auto simp: state good_def conv_fits_def dest: all_fitD)
    from put_persist_good [OF law g [unfolded state] this] show ?thesis
      using Some by (simp add: csm_UpdateConversationState_def state Let_def)
  qed (use g in \<open>simp add: csm_UpdateConversationState_def state\<close>)
qed

text \<open>The metadata map of a conversation in memory is never \<^verbatim>\<open>nil\<close>, so no update panics.\<close>

lemma update_metadata_good:
  "lawful \<Longrightarrow> good L M state \<Longrightarrow>
   \<exists>res. csm_UpdateConversationMetadata order i md state = Some res \<and> good L M (snd res)"
proof -
  assume law: lawful and g: "good L M state"
  obtain sm s where state: "state = (sm, s)" by force
  show ?thesis
  proof (cases "csm_conversations sm i")
    case (Some c)
    have f: "conv_fits L i c" using g Some by (auto simp: state good_def dest: all_fitD)
    then have "conv_fits L i (c\<lparr>c_Metadata := map_option (\<lambda>m. m ++ md) (c_Metadata c)\<rparr>)" by (simp add: conv_fits_def)
    from put_persist_good [OF law g [unfolded state] this] show ?thesis
      using Some f by (auto simp: csm_UpdateConversationMetadata_def state Let_def conv_fits_def)
  qed (use g in \<open>simp add: csm_UpdateConversationMetadata_def state\<close>)
qed

lemma delete_good: "lawful \<Longrightarrow> good L M state \<Longrightarrow> good L M (snd (csm_DeleteConversation i state))"
proof -
  assume law: lawful and g: "good L M state"
  obtain sm s where state: "state = (sm, s)" by force
  note g = g [unfolded state]
  show ?thesis
  proof (cases "csm_conversations sm i")
    case (Some c)
    define sm1 where "sm1 = csm_forget (c_UserID c) i sm"
    have "lists_fit M (csm_activeUsers sm1)"
    proof (cases "csm_activeUsers sm (c_UserID c)")
      case None
      then show ?thesis using g by (simp add: sm1_def csm_forget_def good_def)
    next
      case (Some ids)
      then have "distinct ids" "0 < M \<Longrightarrow> int (length ids) \<le> M" using g by (auto simp: good_def lists_fit_def)
      moreover have "int (length (filter (\<lambda>k. k \<noteq> i) ids)) \<le> int (length ids)" by simp
      ultimately have "distinct (filter (\<lambda>k. k \<noteq> i) ids)" "0 < M \<Longrightarrow> int (length (filter (\<lambda>k. k \<noteq> i) ids)) \<le> M"
        using order.trans by (simp, blast)
      then show ?thesis using g Some by (auto simp: sm1_def csm_forget_def good_def intro!: lists_fit_upd)
    qed
    then have sm1: "good L M (sm1, s)" using g by (simp add: good_def sm1_def csm_forget_def all_fit_del)
    have res: "csm_DeleteConversation i (sm, s) = (case csm_store sm of None \<Rightarrow> (None, sm1, s)
        | Some store \<Rightarrow> (case ps_DeleteConversation store i s of
             (None, s1) \<Rightarrow> (None, sm1, s1) | (Some err, s1) \<Rightarrow> (Some (StoreFailure err), sm1, s1)))"
      using Some by (simp add: csm_DeleteConversation_def Let_def sm1_def [symmetric])
    show ?thesis
    proof (cases "csm_store sm")
      case None
      then show ?thesis using sm1 res by (simp add: state)
    next
      case (Some st)
      obtain e s1 where d: "ps_DeleteConversation store i s = (e, s1)" by force
      have "all_fit L (contents s1)" using delete_effect [OF law d] sm1 by (auto simp: good_def all_fit_del)
      then have "good L M (sm1, s1)" using sm1 by (simp add: good_def)
      then show ?thesis using res Some g d by (auto simp: state good_def split: option.splits)
    qed
  qed (use g in \<open>simp add: csm_DeleteConversation_def state\<close>)
qed

lemma delete_all_good: "lawful \<Longrightarrow> good L M state \<Longrightarrow> good L M (csm_delete_all ids state)"
  by (induction ids state rule: csm_delete_all.induct) (simp_all add: delete_good)

lemma collect_good: "lawful \<Longrightarrow> good L M state \<Longrightarrow> good L M (snd (csm_collect ids state))"
proof (induction ids state rule: csm_collect.induct)
  case (2 i ids sm s)
  show ?case
  proof (cases "csm_conversations sm i")
    case (Some c)
    then show ?thesis using 2 by (simp add: case_prod_beta)
  next
    case None
    show ?thesis
    proof (cases "csm_store sm")
      case None
      then show ?thesis using 2 \<open>csm_conversations sm i = None\<close> by simp
    next
      case (Some st)
      then have st: "st = store" using 2 by (simp add: good_def)
      obtain x s1 where l: "ps_LoadConversation store i s = (x, s1)" by force
      note load = load_good [OF \<open>lawful\<close> \<open>good L M (sm, s)\<close> l]
      show ?thesis
      proof (cases x)
        case (Inl err)
        then show ?thesis using 2 load(1) \<open>csm_conversations sm i = None\<close> Some st l by (simp add: case_prod_beta)
      next
        case (Inr c)
        then have "good L M (csm_put i c sm, s1)" using load by (simp add: good_def all_fit_upd)
        then show ?thesis using 2 Inr \<open>csm_conversations sm i = None\<close> Some st l by (simp add: case_prod_beta)
      qed
    qed
  qed
qed simp

lemma list_good: "lawful \<Longrightarrow> good L M state \<Longrightarrow> good L M (snd (csm_GetUserConversations u state))"
proof -
  assume law: lawful and g: "good L M state"
  obtain sm s where state: "state = (sm, s)" by force
  note g = g [unfolded state]
  show ?thesis
  proof (cases "\<exists>i ids. csm_activeUsers sm u = Some (i # ids)")
    case True
    then obtain i ids where "csm_activeUsers sm u = Some (i # ids)" by blast
    then have "snd (csm_GetUserConversations u (sm, s)) = snd (csm_collect (i # ids) (sm, s))"
      by (simp add: csm_GetUserConversations_def case_prod_beta del: csm_collect.simps)
    then show ?thesis using collect_good [OF law g, of "i # ids"] by (simp only: state)
  next
    case False
    then have no: "csm_GetUserConversations u (sm, s) = (case csm_store sm of None \<Rightarrow> (Inr [], sm, s)
        | Some store \<Rightarrow> (case ps_ListUserConversations store u s of (Inl err, s1) \<Rightarrow> (Inl err, sm, s1)
           | (Inr ids, s1) \<Rightarrow> (case csm_collect ids (sm, s1) of (result, state1) \<Rightarrow> (Inr result, state1))))"
      by (auto simp: csm_GetUserConversations_def split: option.splits list.splits)
    show ?thesis
    proof (cases "csm_store sm")
      case None
      then show ?thesis using g no by (simp add: state)
    next
      case (Some st)
      then have st: "st = store" using g by (simp add: good_def)
      obtain x s1 where l: "ps_ListUserConversations store u s = (x, s1)" by force
      have s1: "good L M (sm, s1)" using g list_effect [OF law l] by (simp add: good_def)
      then show ?thesis using collect_good [OF law s1] no Some st l by (cases x) (simp_all add: state case_prod_beta)
    qed
  qed
qed

lemma step_good:
  "lawful \<Longrightarrow> good L M state \<Longrightarrow> event_fits L e \<Longrightarrow> \<exists>state'. csm_step e state = Some state' \<and> good L M state'"
proof (cases e)
  case (EvMetadata order i md)
  then show "lawful \<Longrightarrow> good L M state \<Longrightarrow> ?thesis"
    using update_metadata_good [of L M state order i md] by auto
next
  case (EvPut i c)
  then show "lawful \<Longrightarrow> good L M state \<Longrightarrow> event_fits L e \<Longrightarrow> ?thesis"
    by (simp add: good_def all_fit_upd)
qed (simp_all add: get_good install_good add_good update_state_good delete_good list_good delete_all_good
  csm_cleanupExpiredConversations_def)

lemma run_good:
  "lawful \<Longrightarrow> good L M state \<Longrightarrow> list_all (event_fits L) es \<Longrightarrow>
   \<exists>state'. csm_run es state = Some state' \<and> good L M state'"
proof (induction es arbitrary: state)
  case (Cons e es)
  have "event_fits L e" using Cons.prems(3) by simp
  from step_good [OF Cons.prems(1,2) this]
  obtain state1 where "csm_step e state = Some state1" "good L M state1" by blast
  then show ?case using Cons by simp
qed simp

lemma new_manager_good:
  assumes "smc_PersistenceStore config \<in> {None, Some store}" and "all_fit (smc_MaxContextLength config) (contents s)"
  shows "good (smc_MaxContextLength config) (smc_MaxConversations config) (NewConversationStateManager config, s)"
  using assms by (simp add: good_def NewConversationStateManager_def csm_store_def all_fit_def lists_fit_def)

text \<open>Every run from a new manager ends, within the limits.\<close>

lemma runs_stay_within_limits:
  assumes lawful and "smc_PersistenceStore config \<in> {None, Some store}"
    and "all_fit (smc_MaxContextLength config) (contents s0)"
    and "list_all (event_fits (smc_MaxContextLength config)) es"
  shows "\<exists>sm s. csm_run es (NewConversationStateManager config, s0) = Some (sm, s) \<and>
    all_fit (smc_MaxContextLength config) (csm_conversations sm) \<and>
    lists_fit (smc_MaxConversations config) (csm_activeUsers sm) \<and>
    all_fit (smc_MaxContextLength config) (contents s)"
  using run_good [OF assms(1) new_manager_good [OF assms(2,3)] assms(4)] by (auto simp: good_def)

end

section \<open>Properties of the runs\<close>

text \<open>
  C20 (limits). Whatever calls are made, in whatever interleaving of the sections that hold the
  lock, whatever the clocks and whether or not the commands of the Redis server succeed: no
  call panics, no user ever has more conversations in the list than \<^verbatim>\<open>MaxConversations\<close> and
  none twice, and no conversation has more messages than \<^verbatim>\<open>MaxContextLength\<close>, in memory or
  in the store, if those in the store had not before.
\<close>

theorem conversations_within_limits:
  assumes "redis_lawful view up st" and "smc_PersistenceStore config \<in> {None, Some (redis_store keys st)}"
    and "all_fit (smc_MaxContextLength config) (redis_contents view st r0)"
    and "list_all (event_fits (smc_MaxContextLength config)) es"
  shows "\<exists>sm r. csm_run es (NewConversationStateManager config, r0) = Some (sm, r) \<and>
    all_fit (smc_MaxContextLength config) (csm_conversations sm) \<and>
    lists_fit (smc_MaxConversations config) (csm_activeUsers sm) \<and>
    all_fit (smc_MaxContextLength config) (redis_contents view st r)"
  by (rule redis.runs_stay_within_limits [OF assms])

text \<open>The settings of \<^verbatim>\<open>cmd/server\<close>, with smaller limits.\<close>

definition sample_csm_config :: "'s PersistenceStore option \<Rightarrow> 's StateManagerConfig" where
  "sample_csm_config store =
     \<lparr>smc_ConversationTTL = 24 * hour, smc_CleanupInterval = hour, smc_MaxConversations = 1, smc_MaxContextLength = 2,
      smc_MaxIdleTime = 30 * minute, smc_PersistenceEnabled = True, smc_PersistenceStore = store\<rparr>"

definition sample_chat :: message where
  "sample_chat = NewMessage ''m'' ''a'' ''u'' ''hello'' PriorityNormal 1 2"

theorem conversations_within_limits_witness:
  "\<exists>sm r. csm_run [EvGet (1, (1, 1), \<lambda>_. 2) ''a'' ''u'', EvAdd 3 ''a'' sample_chat, EvGet (4, (4, 4), \<lambda>_. 5) ''b'' ''u'']
      (NewConversationStateManager (sample_csm_config (Some (redis_store sample_keys mem_store))), Map.empty) = Some (sm, r) \<and>
    lists_fit 1 (csm_activeUsers sm)"
proof -
  have "all_fit 2 (redis_contents mem_view mem_store Map.empty)"
    by (simp add: all_fit_def redis_contents_def mem_view_def)
  then show ?thesis
    using conversations_within_limits [OF mem_lawful, of "sample_csm_config (Some (redis_store sample_keys mem_store))"
        sample_keys Map.empty "[EvGet (1, (1, 1), \<lambda>_. 2) ''a'' ''u'', EvAdd 3 ''a'' sample_chat, EvGet (4, (4, 4), \<lambda>_. 5) ''b'' ''u'']"]
    by (auto simp: sample_csm_config_def simp del: csm_run.simps)
qed

end
