(* ===== verification/Conversations.thy ===== *)
theory Conversations
  imports ConversationRuns
begin

text \<open>
  What the conversation state manager promises: the context is the end of the history, what
  is in memory survives a restart of the process through either store, the oldest
  conversation is archived on overflow, cleaning up removes just the expired ones, and the two
  unlocked steps of \<^verbatim>\<open>GetConversation\<close> can lose a message.
\<close>

section \<open>Survival of a restart\<close>

lemma csm_put_get [simp]: "csm_conversations (csm_put i c sm) i = Some c"
  by simp

lemma csm_new_simps [simp]:
  "csm_conversations (NewConversationStateManager config) = Map.empty"
  "csm_activeUsers (NewConversationStateManager config) = Map.empty"
  by (simp_all add: NewConversationStateManager_def)

context conversation_store
begin

text \<open>What was saved is what a new manager gets.\<close>

lemma restart:
  assumes lawful and "up s" and "csm_store sm = Some store" and "storable c" and "c_ID c = i"
    and "smc_PersistenceEnabled config" and "smc_PersistenceStore config = Some store"
  shows "\<exists>sm' s'. csm_GetConversation clocks i u (NewConversationStateManager config, csm_persist c sm s) = (after c, sm', s') \<and>
    csm_conversations sm' = [i \<mapsto> after c] \<and> csm_activeUsers sm' = [u \<mapsto> [i]]"
proof -
  obtain now ts nows where clocks: "clocks = (now, ts, nows)" by (cases clocks) auto
  obtain s1 where s1: "ps_SaveConversation store c s = (None, s1)" "fst (ps_LoadConversation store i s1) = Inr (after c)"
    using save_load [OF assms(1,2,4)] assms(5) by blast
  obtain s2 where l: "ps_LoadConversation store i s1 = (Inr (after c), s2)"
    using s1(2) by (cases "ps_LoadConversation store i s1") auto
  have p: "csm_persist c sm s = s1" by (simp add: csm_persist_def assms(3) s1(1))
  have store: "csm_store (NewConversationStateManager config) = Some store"
    using assms(6,7) by (simp add: csm_store_def NewConversationStateManager_def)
  show ?thesis
    by (simp add: clocks p csm_GetConversation_def csm_hit_def csm_fetch_def store l csm_install_def
        csm_addToActiveUsers_def)
qed

end

text \<open>
  C21 (restart with Redis). A message added while the Redis server is reachable survives a
  restart of the process: a new manager over the same server returns the conversation that
  was in memory, with the numbers of its metadata as \<^verbatim>\<open>float64\<close>.
\<close>

theorem redis_restart:
  assumes "redis_lawful view up st" and "up r" and "csm_store sm = Some (redis_store keys st)"
    and "csm_AddMessage now i msg (sm, r) = (None, sm1, r1)" and "csm_conversations sm1 i = Some c"
    and "c_ID c = i" and "storable keys c"
    and "smc_PersistenceEnabled config" and "smc_PersistenceStore config = Some (redis_store keys st)"
  shows "fst (csm_GetConversation clocks i u (NewConversationStateManager config, r1)) = norm_conversation c \<and>
    (\<exists>before. c_Messages c = before @ [msg])"
proof -
  obtain c0 where c0: "csm_conversations sm i = Some c0"
    using assms(4) by (auto simp: csm_AddMessage_def split: option.splits)
  let ?c = "c0\<lparr>c_Messages := csm_cut sm (c_Messages c0 @ [msg]), c_LastActiveTime := now\<rparr>"
  have add: "sm1 = csm_put i ?c sm" "r1 = csm_persist ?c sm r"
    using assms(4) c0 by (simp_all add: csm_AddMessage_def Let_def)
  then have c: "c = ?c" using assms(5) by simp
  have "fst (csm_GetConversation clocks i u (NewConversationStateManager config, r1)) = norm_conversation c"
    using redis.restart [OF assms(1,2,3,7,6,8,9), of clocks u] c add(2) by auto
  moreover have "\<exists>before. csm_cut sm (c_Messages c0 @ [msg]) = before @ [msg]"
    by (auto simp: csm_cut_def Let_def)
  ultimately show ?thesis by (simp add: c)
qed

definition sample_manager :: "'s PersistenceStore option \<Rightarrow> 's StateManager" where
  "sample_manager store = csm_put ''a'' (csm_new_conversation (5, 5) ''a'' ''u'') (NewConversationStateManager (sample_csm_config store))"

lemma sample_manager_add:
  "csm_AddMessage 7 ''a'' sample_chat (sample_manager (Some store), r) =
     (None, csm_put ''a'' (csm_new_conversation (5, 7) ''a'' ''u''\<lparr>c_Messages := [sample_chat]\<rparr>) (sample_manager (Some store)),
      csm_persist (csm_new_conversation (5, 7) ''a'' ''u''\<lparr>c_Messages := [sample_chat]\<rparr>) (sample_manager (Some store)) r)"
  by (simp add: csm_AddMessage_def sample_manager_def csm_cut_def Let_def csm_new_conversation_def
      NewConversationStateManager_def sample_csm_config_def csm_put_def)

lemma sample_manager_store: "csm_store (sample_manager (Some store)) = Some store"
  by (simp add: csm_store_def sample_manager_def csm_put_def NewConversationStateManager_def sample_csm_config_def)

lemma sample_manager_get:
  "csm_conversations (csm_put ''a'' (csm_new_conversation (5, 7) ''a'' ''u''\<lparr>c_Messages := [sample_chat]\<rparr>) sm) ''a'' =
     Some (csm_new_conversation (5, 7) ''a'' ''u''\<lparr>c_Messages := [sample_chat]\<rparr>)"
  "c_ID (csm_new_conversation (5, 7) ''a'' ''u''\<lparr>c_Messages := [sample_chat]\<rparr>) = ''a''"
  "smc_PersistenceEnabled (sample_csm_config store)" "smc_PersistenceStore (sample_csm_config store) = store"
  by (simp_all add: csm_new_conversation_def sample_csm_config_def)

lemma sample_chat_storable: "storable sample_keys (csm_new_conversation (5, 7) ''a'' ''u''\<lparr>c_Messages := [sample_chat]\<rparr>)"
  by (simp add: storable_def conversation_ok_def encodable_def csm_new_conversation_def conversation_times_def time_ok_def
      metadata_ok_def keys_ok_def sample_keys_def in_int64_def min_int64_def max_int64_def sample_chat_def NewMessage_def
      message_ok_def message_times_def priority_defs)

theorem redis_restart_witness:
  "\<exists>sm1 r1. csm_AddMessage 7 ''a'' sample_chat (sample_manager (Some (redis_store sample_keys mem_store)), Map.empty) = (None, sm1, r1) \<and>
     c_UserID (fst (csm_GetConversation (8, (8, 8), \<lambda>_. 9) ''a'' ''v''
       (NewConversationStateManager (sample_csm_config (Some (redis_store sample_keys mem_store))), r1))) = ''u''"
proof -
  note res = redis_restart [OF mem_lawful TrueI sample_manager_store sample_manager_add sample_manager_get(1,2) sample_chat_storable
      sample_manager_get(3,4), of "(8, (8, 8), \<lambda>_. 9)" "''v''" Map.empty]
  show ?thesis
    by (intro exI conjI, rule sample_manager_add) (use res in \<open>simp add: norm_conversation_def csm_new_conversation_def\<close>)
qed

text \<open>
  C34 (restart with PostgreSQL). The same for the PostgreSQL store: the messages, the metadata
  and the state come back, the times in the precision of the database; the title, the context,
  the status, the priority and the message count do not.
\<close>

theorem postgres_restart:
  assumes "gorm_lawful rnd rows up st" and "up d" and "csm_store sm = Some (postgres_store keys st)"
    and "csm_AddMessage now i msg (sm, d) = (None, sm1, d1)" and "csm_conversations sm1 i = Some c"
    and "c_ID c = i" and "row_storable keys c"
    and "smc_PersistenceEnabled config" and "smc_PersistenceStore config = Some (postgres_store keys st)"
  shows "let c' = fst (csm_GetConversation clocks i u (NewConversationStateManager config, d1))
    in c_ID c' = i \<and> c_UserID c' = c_UserID c \<and> c_Messages c' = map norm_message (c_Messages c) \<and>
      c_Metadata c' = norm_metadata (c_Metadata c) \<and> c_State c' = c_State c \<and> c_CreatedAt c' = rnd (c_CreatedAt c) \<and>
      c_Title c' = '''' \<and> c_Context c' = '''' \<and> c_Status c' = '''' \<and> c_Priority c' = 0 \<and> c_MessageCount c' = 0"
proof -
  obtain c0 where c0: "csm_conversations sm i = Some c0"
    using assms(4) by (auto simp: csm_AddMessage_def split: option.splits)
  have "d1 = csm_persist c sm d"
    using assms(4,5) c0 by (auto simp: csm_AddMessage_def Let_def)
  then have "fst (csm_GetConversation clocks i u (NewConversationStateManager config, d1)) = kept_by_row rnd c"
    using postgres.restart [OF assms(1,2,3,7,6,8,9), of clocks u] by auto
  then show ?thesis using assms(6) by (simp add: Let_def kept_by_row_def norm_conversation_def)
qed

theorem postgres_restart_witness:
  "\<exists>sm1 d1. csm_AddMessage 7 ''a'' sample_chat (sample_manager (Some (postgres_store sample_keys mem_postgres)), []) = (None, sm1, d1) \<and>
     c_UserID (fst (csm_GetConversation (8, (8, 8), \<lambda>_. 9) ''a'' ''v''
       (NewConversationStateManager (sample_csm_config (Some (postgres_store sample_keys mem_postgres))), d1))) = ''u''"
proof -
  let ?c = "csm_new_conversation (5, 7) ''a'' ''u''\<lparr>c_Messages := [sample_chat]\<rparr>"
  have s: "row_storable sample_keys ?c"
    using sample_chat_storable json_of_metadata_ok [of sample_keys "c_Metadata ?c"]
      json_of_message_ok [of sample_chat sample_keys]
    by (auto simp: row_storable_def storable_def encodable_def json_of_messages_def csm_new_conversation_def)
  note res = postgres_restart [OF mem_postgres_lawful TrueI sample_manager_store sample_manager_add sample_manager_get(1,2) s
      sample_manager_get(3,4), of "(8, (8, 8), \<lambda>_. 9)" "''v''" "[]"]
  show ?thesis
    by (intro exI conjI, rule sample_manager_add) (use res in \<open>simp add: Let_def csm_new_conversation_def\<close>)
qed

section \<open>The context\<close>

text \<open>The last \<open>n\<close> of a list; all of it for a limit that is not positive.\<close>

definition last_n :: "int \<Rightarrow> 'a list \<Rightarrow> 'a list" where
  "last_n n xs = (if 0 < n then drop (length xs - nat n) xs else xs)"

lemma csm_cut_last: "csm_cut sm xs = last_n (csm_maxContextLength sm) xs"
  by (auto simp: csm_cut_def last_n_def Let_def)

lemma last_n_snoc: "last_n n (last_n n xs @ [x]) = last_n n (xs @ [x])"
  by (cases "length xs \<le> nat n") (auto simp: last_n_def Suc_diff_le)

lemma last_n_last_n:
  assumes "0 < n" and "0 < k"
  shows "last_n k (last_n n xs) = last_n (min k n) xs"
proof -
  have "length (drop (length xs - nat n) xs) - nat k + (length xs - nat n) = length xs - nat (min k n)"
    using assms by auto
  then show ?thesis using assms by (simp add: last_n_def)
qed

fun csm_add_all :: "(go_time \<times> message) list \<Rightarrow> string \<Rightarrow> 's StateManager \<times> 's \<Rightarrow> 's StateManager \<times> 's" where
  "csm_add_all [] i state = state"
| "csm_add_all ((now, msg) # ms) i state = csm_add_all ms i (snd (csm_AddMessage now i msg state))"

lemma csm_add_all_spec:
  "csm_conversations sm i = Some c \<Longrightarrow> c_Messages c = last_n (csm_maxContextLength sm) old \<Longrightarrow>
   \<exists>c'. csm_conversations (fst (csm_add_all ms i (sm, s))) i = Some c' \<and>
     c_Messages c' = last_n (csm_maxContextLength sm) (old @ map snd ms)"
proof (induction ms arbitrary: sm s c old)
  case (Cons x ms)
  obtain now msg where x: "x = (now, msg)" by force
  let ?c = "c\<lparr>c_Messages := csm_cut sm (c_Messages c @ [msg]), c_LastActiveTime := now\<rparr>"
  have add: "csm_AddMessage now i msg (sm, s) = (None, csm_put i ?c sm, csm_persist ?c sm s)"
    using Cons.prems(1) by (simp add: csm_AddMessage_def Let_def)
  have "c_Messages ?c = last_n (csm_maxContextLength (csm_put i ?c sm)) (old @ [msg])"
    using Cons.prems(2) by (simp add: csm_cut_last last_n_snoc)
  from Cons.IH [OF _ this, of "csm_persist ?c sm s"] show ?case by (simp add: x add)
qed auto

text \<open>
  However many messages are added to a conversation, its context is the end of
  the whole history: the last \<^verbatim>\<open>limit\<close> of them, or all that \<^verbatim>\<open>MaxContextLength\<close> leaves when
  the limit is not positive, as if nothing had ever been cut off before.
\<close>

theorem csm_context_is_end_of_history:
  assumes "csm_conversations sm i = Some c" and "c_Messages c = last_n (csm_maxContextLength sm) history"
  shows "csm_GetConversationContext i limit (fst (csm_add_all ms i (sm, s))) =
    Inr (let all = history @ map snd ms; L = csm_maxContextLength sm
      in if 0 < limit \<and> 0 < L then last_n (min limit L) all else if 0 < limit then last_n limit all else last_n L all)"
proof -
  obtain c' where c': "csm_conversations (fst (csm_add_all ms i (sm, s))) i = Some c'"
    "c_Messages c' = last_n (csm_maxContextLength sm) (history @ map snd ms)"
    using csm_add_all_spec [OF assms] by blast
  have "csm_GetConversationContext i limit (fst (csm_add_all ms i (sm, s))) = Inr (last_n limit (c_Messages c'))"
    by (auto simp: csm_GetConversationContext_def c'(1) Let_def last_n_def)
  also have "last_n limit (c_Messages c') = (let all = history @ map snd ms; L = csm_maxContextLength sm
      in if 0 < limit \<and> 0 < L then last_n (min limit L) all else if 0 < limit then last_n limit all else last_n L all)"
    unfolding c'(2) Let_def using last_n_last_n [of "csm_maxContextLength sm" limit "history @ map snd ms"]
    by (simp add: last_n_def)
  finally show ?thesis .
qed

theorem csm_context_is_end_of_history_witness:
  "csm_GetConversationContext ''a'' 1 (fst (csm_add_all [(1, sample_chat), (2, sample_chat\<lparr>m_ID := ''n''\<rparr>)] ''a''
     (sample_manager None, ()))) = Inr [sample_chat\<lparr>m_ID := ''n''\<rparr>]"
proof -
  have c: "csm_conversations (sample_manager None) ''a'' = Some (csm_new_conversation (5, 5) ''a'' ''u'')"
    and L: "csm_maxContextLength (sample_manager None) = 2"
    by (simp_all add: sample_manager_def NewConversationStateManager_def sample_csm_config_def)
  have "c_Messages (csm_new_conversation (5, 5) ''a'' ''u'') = last_n (csm_maxContextLength (sample_manager None)) []"
    by (simp add: csm_new_conversation_def last_n_def)
  from csm_context_is_end_of_history [OF c this, of 1 "[(1, sample_chat), (2, sample_chat\<lparr>m_ID := ''n''\<rparr>)]"] show ?thesis
    by (simp add: L last_n_def Let_def min_def)
qed

section \<open>Cleaning up\<close>

definition owned_by :: "'s StateManager \<Rightarrow> string \<Rightarrow> string \<Rightarrow> bool" where
  "owned_by sm i u \<longleftrightarrow> (\<exists>c. csm_conversations sm i = Some c \<and> c_UserID c = u)"

lemma delete_conversations:
  "csm_conversations (fst (snd (csm_DeleteConversation i (sm, s)))) = (csm_conversations sm)(i := None)"
  by (auto simp: csm_DeleteConversation_def csm_forget_def Let_def split: option.splits prod.splits)

lemma filter_none: "map_option (filter (\<lambda>k. True)) x = x"
  by (cases x) simp_all

lemma delete_users:
  "csm_activeUsers (fst (snd (csm_DeleteConversation i (sm, s)))) u =
     map_option (filter (\<lambda>k. \<not> (k = i \<and> owned_by sm i u))) (csm_activeUsers sm u)"
proof (cases "csm_conversations sm i")
  case None
  then show ?thesis by (simp add: csm_DeleteConversation_def owned_by_def filter_none)
next
  case (Some c)
  have "csm_activeUsers (fst (snd (csm_DeleteConversation i (sm, s)))) = csm_activeUsers (csm_forget (c_UserID c) i sm)"
    by (simp add: csm_DeleteConversation_def Some Let_def split: option.splits prod.splits)
  moreover have "owned_by sm i u \<longleftrightarrow> c_UserID c = u" by (simp add: owned_by_def Some)
  ultimately show ?thesis
    by (cases "c_UserID c = u"; cases "csm_activeUsers sm u"; cases "csm_activeUsers sm (c_UserID c)")
      (auto simp: csm_forget_def)
qed

lemma delete_all_spec:
  "csm_conversations (fst (csm_delete_all ids (sm, s))) = (\<lambda>k. if k \<in> set ids then None else csm_conversations sm k) \<and>
   csm_activeUsers (fst (csm_delete_all ids (sm, s))) u =
     map_option (filter (\<lambda>k. \<not> (k \<in> set ids \<and> owned_by sm k u))) (csm_activeUsers sm u)"
proof (induction ids arbitrary: sm s)
  case (Cons i ids)
  obtain e sm1 s1 where d: "csm_DeleteConversation i (sm, s) = (e, sm1, s1)" by (cases "csm_DeleteConversation i (sm, s)") auto
  have sm1: "csm_conversations sm1 = (csm_conversations sm)(i := None)"
    "csm_activeUsers sm1 u = map_option (filter (\<lambda>k. \<not> (k = i \<and> owned_by sm i u))) (csm_activeUsers sm u)"
    using delete_conversations [of i sm s] delete_users [of i sm s u] by (simp_all add: d)
  have own: "owned_by sm1 k u \<longleftrightarrow> k \<noteq> i \<and> owned_by sm k u" for k by (auto simp: owned_by_def sm1(1))
  show ?case
    using Cons.IH [of sm1 s1]
    by (auto simp: d sm1 own option.map_comp comp_def filter_filter intro!: arg_cong2 [of _ _ _ _ map_option] filter_cong)
qed (simp add: filter_none)

text \<open>
  The clean-up removes from memory just the conversations that are too old,
  idle for too long, or completed or archived for more than a day, and each from the list of
  its user; all others stay as they are, whatever the order in which the map is visited and
  whatever the store answers.
\<close>

theorem csm_cleanup_exact:
  assumes "dom (csm_conversations sm) \<subseteq> set order"
  shows "let sm' = fst (csm_cleanupExpiredConversations now order (sm, s));
      gone = (\<lambda>i. \<exists>c. csm_conversations sm i = Some c \<and> csm_expired now sm c)
    in (\<forall>i. csm_conversations sm' i = (if gone i then None else csm_conversations sm i)) \<and>
      (\<forall>u. csm_activeUsers sm' u =
         map_option (filter (\<lambda>i. \<not> (gone i \<and> (\<exists>c. csm_conversations sm i = Some c \<and> c_UserID c = u)))) (csm_activeUsers sm u))"
proof -
  have ids: "i \<in> set (csm_expired_ids now order sm) \<longleftrightarrow>
      (\<exists>c. csm_conversations sm i = Some c \<and> csm_expired now sm c)" for i
    using assms by (auto simp: csm_expired_ids_def split: option.splits)
  show ?thesis
    unfolding csm_cleanupExpiredConversations_def Let_def
    using delete_all_spec [of "csm_expired_ids now order sm" sm s] by (simp add: ids owned_by_def)
qed

theorem csm_cleanup_exact_witness:
  "csm_conversations (fst (csm_cleanupExpiredConversations (2 * (24 * hour)) [''a''] (sample_manager None, ()))) ''a'' = None"
proof -
  have "dom (csm_conversations (sample_manager None :: unit StateManager)) \<subseteq> set [''a'']"
    by (simp add: sample_manager_def)
  from csm_cleanup_exact [OF this, of "2 * (24 * hour)" "()"] show ?thesis
    by (simp add: Let_def sample_manager_def NewConversationStateManager_def sample_csm_config_def csm_expired_def
        csm_put_def csm_new_conversation_def time_sub_def min_int64_def max_int64_def)
qed

section \<open>Overflow\<close>

text \<open>
  When a user whose list is full starts another conversation, the oldest one of
  the list leaves it and, if it is in memory, is archived at that moment and stays in memory;
  the new one comes last, and no other conversation of memory changes.
\<close>

theorem csm_overflow_archives_oldest:
  assumes "csm_activeUsers sm u = Some (old # ids)" and "int (length (old # ids)) = csm_maxConversations sm"
    and "i \<notin> set (old # ids)" and "csm_conversations sm i = None" and "csm_store sm = None"
  shows "let sm' = fst (snd (csm_GetConversation (now, ts, nows) i u (sm, s)))
    in csm_activeUsers sm' u = Some (ids @ [i]) \<and>
      csm_conversations sm' i = Some (csm_new_conversation ts i u) \<and>
      csm_conversations sm' old = map_option
        (\<lambda>c. c\<lparr>c_State := ConversationStateArchived, c_CompletedAt := nows 0\<rparr>) (csm_conversations sm old) \<and>
      (\<forall>k. k \<noteq> old \<and> k \<noteq> i \<longrightarrow> csm_conversations sm' k = csm_conversations sm k)"
proof -
  have excess: "length (old # ids @ [i]) - nat (csm_maxConversations sm) = 1"
    "0 < csm_maxConversations sm" "csm_maxConversations sm < int (length (old # ids @ [i]))"
    using assms(2) by auto
  have old: "old \<noteq> i" using assms(3) by auto
  show ?thesis
  proof (cases "csm_conversations sm old")
    case None
    then show ?thesis
      using assms excess old
      by (simp add: Let_def csm_GetConversation_def csm_hit_def csm_fetch_def csm_install_def csm_addToActiveUsers_def)
  next
    case (Some c)
    then show ?thesis
      using assms excess old
      by (simp add: Let_def csm_GetConversation_def csm_hit_def csm_fetch_def csm_install_def csm_addToActiveUsers_def)
  qed
qed

theorem csm_overflow_archives_oldest_witness:
  "let sm = (sample_manager None)\<lparr>csm_activeUsers := [''u'' \<mapsto> [''a'']]\<rparr>;
       sm' = fst (snd (csm_GetConversation (1, (1, 1), \<lambda>_. 2) ''b'' ''u'' (sm, ())))
   in csm_activeUsers sm' ''u'' = Some [''b''] \<and>
     map_option c_State (csm_conversations sm' ''a'') = Some ConversationStateArchived"
proof -
  let ?sm = "(sample_manager None)\<lparr>csm_activeUsers := [''u'' \<mapsto> [''a'']]\<rparr> :: unit StateManager"
  have "csm_activeUsers ?sm ''u'' = Some [''a'']" "int (length [''a'']) = csm_maxConversations ?sm"
    "''b'' \<notin> set [''a'']" "csm_conversations ?sm ''b'' = None" "csm_store ?sm = None"
    "csm_conversations ?sm ''a'' = Some (csm_new_conversation (5, 5) ''a'' ''u'')"
    by (simp_all add: sample_manager_def NewConversationStateManager_def sample_csm_config_def csm_store_def csm_put_def)
  from csm_overflow_archives_oldest [OF this(1-5), of 1 "(1, 1)" "\<lambda>_. 2" "()"] this(6) show ?thesis
    by (simp add: Let_def)
qed

section \<open>A lost message\<close>

lemma archive_messages:
  "map_option c_Messages (csm_conversations (fst (csm_archive nows ids (sm, s))) k) =
   map_option c_Messages (csm_conversations sm k)"
  by (induction nows ids "(sm, s)" arbitrary: sm s rule: csm_archive.induct)
    (auto simp: Let_def split: option.splits)

lemma install_messages:
  "map_option c_Messages (csm_conversations (fst (csm_install nows i u c (sm, s))) i) = Some (c_Messages c)"
  by (auto simp: csm_install_def csm_addToActiveUsers_def Let_def archive_messages simp del: map_option_eq_Some split: option.splits)

lemma archive_settings:
  "csm_maxContextLength (fst (csm_archive nows ids (sm, s))) = csm_maxContextLength sm"
  by (induction nows ids "(sm, s)" arbitrary: sm s rule: csm_archive.induct)
    (auto simp: Let_def split: option.splits)

lemma install_settings: "csm_maxContextLength (fst (csm_install nows i u c (sm, s))) = csm_maxContextLength sm"
  by (auto simp: csm_install_def csm_addToActiveUsers_def Let_def archive_settings split: option.splits)

lemma context_messages:
  "map_option c_Messages (csm_conversations sm i) = Some ms \<Longrightarrow> csm_GetConversationContext i 0 sm = Inr ms"
  by (auto simp: csm_GetConversationContext_def Let_def)

lemma add_message_to_empty:
  assumes "map_option c_Messages (csm_conversations sm i) = Some []"
  shows "fst (csm_AddMessage now i msg (sm, s)) = None"
    and "map_option c_Messages (csm_conversations (fst (snd (csm_AddMessage now i msg (sm, s)))) i) = Some [msg]"
proof -
  obtain c where c: "csm_conversations sm i = Some c" "c_Messages c = []" using assms by auto
  have "csm_cut sm [msg] = [msg]" by (auto simp: csm_cut_def)
  then show "fst (csm_AddMessage now i msg (sm, s)) = None"
    "map_option c_Messages (csm_conversations (fst (snd (csm_AddMessage now i msg (sm, s)))) i) = Some [msg]"
    using c by (simp_all add: csm_AddMessage_def Let_def)
qed

text \<open>
  C33 (lost message). Two requests ask for the same new conversation, both find that it does
  not exist, the first files its conversation and adds a message without an error, and then
  the second files its own: the message is gone. One request after the other would have kept
  it.
\<close>

theorem csm_lost_message:
  assumes "csm_conversations sm i = None" and "csm_store sm = None"
  shows "(let (c1, s1) = csm_fetch ts1 i u1 sm s; (c2, s2) = csm_fetch ts2 i u2 sm s1;
        state1 = csm_install nows1 i u1 c1 (sm, s2);
        (err, state2) = csm_AddMessage now i msg state1;
        state3 = csm_install nows2 i u2 c2 state2
      in err = None \<and> csm_GetConversationContext i 0 (fst state2) = Inr [msg] \<and>
        csm_GetConversationContext i 0 (fst state3) = Inr []) \<and>
    (let (_, state1) = csm_GetConversation (t1, ts1, nows1) i u1 (sm, s);
        (err, state2) = csm_AddMessage now i msg state1;
        (_, state3) = csm_GetConversation (t2, ts2, nows2) i u2 state2
      in err = None \<and> csm_GetConversationContext i 0 (fst state3) = Inr [msg])"
proof -
  have new: "csm_fetch ts i u sm s' = (csm_new_conversation ts i u, s')" for ts u s'
    by (simp add: csm_fetch_def assms(2))
  obtain sm1 s1 where st1: "csm_install nows1 i u1 (csm_new_conversation ts1 i u1) (sm, s) = (sm1, s1)" by force
  have m1: "map_option c_Messages (csm_conversations sm1 i) = Some []"
    using install_messages [of nows1 i u1 "csm_new_conversation ts1 i u1" sm s] st1 by (simp add: csm_new_conversation_def)
  obtain e sm2 s2 where st2: "csm_AddMessage now i msg (sm1, s1) = (e, sm2, s2)" by (cases "csm_AddMessage now i msg (sm1, s1)") auto
  have m2: "e = None" "map_option c_Messages (csm_conversations sm2 i) = Some [msg]"
    using add_message_to_empty [OF m1, of now msg s1] st2 by simp_all
  have m3: "map_option c_Messages (csm_conversations (fst (csm_install nows2 i u2 (csm_new_conversation ts2 i u2) (sm2, s2))) i) = Some []"
    by (simp add: install_messages csm_new_conversation_def)
  have race: "let (c1, s1) = csm_fetch ts1 i u1 sm s; (c2, s2) = csm_fetch ts2 i u2 sm s1;
        state1 = csm_install nows1 i u1 c1 (sm, s2);
        (err, state2) = csm_AddMessage now i msg state1;
        state3 = csm_install nows2 i u2 c2 state2
      in err = None \<and> csm_GetConversationContext i 0 (fst state2) = Inr [msg] \<and>
        csm_GetConversationContext i 0 (fst state3) = Inr []"
    by (simp add: Let_def new st1 st2 m2(1) context_messages [OF m2(2)] context_messages [OF m3])
  have first: "csm_GetConversation (t1, ts1, nows1) i u1 (sm, s) = (csm_new_conversation ts1 i u1, sm1, s1)"
    by (simp add: csm_GetConversation_def csm_hit_def assms(1) new st1)
  obtain c where c: "csm_conversations sm2 i = Some c" "c_Messages c = [msg]" using m2(2) by auto
  have "csm_GetConversationContext i 0 (fst (snd (csm_GetConversation (t2, ts2, nows2) i u2 (sm2, s2)))) = Inr [msg]"
    by (rule context_messages) (simp add: csm_GetConversation_def csm_hit_def c Let_def)
  then show ?thesis using race by (simp add: first st2 m2(1) case_prod_beta)
qed

theorem csm_lost_message_witness:
  "let sm = NewConversationStateManager (sample_csm_config None) :: unit StateManager;
       state2 = snd (csm_AddMessage 3 ''a'' sample_chat (csm_install (\<lambda>_. 1) ''a'' ''u'' (csm_new_conversation (1, 1) ''a'' ''u'') (sm, ())))
   in csm_GetConversationContext ''a'' 0 (fst (csm_install (\<lambda>_. 1) ''a'' ''v'' (csm_new_conversation (2, 2) ''a'' ''v'') state2)) = Inr []"
proof -
  have "csm_conversations (NewConversationStateManager (sample_csm_config None) :: unit StateManager) ''a'' = None"
    and st: "csm_store (NewConversationStateManager (sample_csm_config None) :: unit StateManager) = None"
    by (simp_all add: csm_store_def NewConversationStateManager_def sample_csm_config_def)
  from conjunct1 [OF csm_lost_message [OF this], of "(1, 1)" "''u''" "()" "(2, 2)" "''v''" "\<lambda>_. 1" 3 sample_chat "\<lambda>_. 1"]
  show ?thesis by (simp add: csm_fetch_def st Let_def case_prod_beta)
qed

end
