(* ===== verification/RedisIndex.thy ===== *)
theory RedisIndex
  imports RedisStore GoStrings
begin

text \<open>
  The index of a user's conversations that the Redis store keeps beside the conversations
  (\<^verbatim>\<open>internal/conversation/persistence.go\<close>), with the expirations of both: what it holds over runs of
  saves, deletes and waits. A conversation expires some time after it was saved, the index some
  time after the user's last save, so the index may list conversations that are gone; with an
  expiration of 0 it is lost at once.
\<close>

lemma key_not_user: "\<not> has_prefix i ''user:'' \<Longrightarrow> rps_prefix st @ i \<noteq> user_key st u"
  by (auto simp: user_key_def has_prefix_def)

lemma user_key_inj [simp]: "user_key st u = user_key st v \<longleftrightarrow> u = v"
  by (simp add: user_key_def)

lemma set_value_simps [simp]: "not_string (set_value S)" "set_members (set_value S) = S"
  by (auto simp: not_string_def set_members_def set_value_def)

lemma save_view:
  assumes "redis_lawful view up st" and "up r" and "storable keys c" and "\<not> has_prefix (c_ID c) ''user:''"
    and "not_string (view r (user_key st (c_UserID c)))"
  shows "\<exists>data. view (snd (redis_SaveConversation keys st c r)) = (view r)(rps_prefix st @ c_ID c \<mapsto> RString data,
    user_key st (c_UserID c) := set_value (insert (c_ID c) (set_members (view r (user_key st (c_UserID c))))))"
proof -
  have laws: "redis_laws (rps_client st) view up" using assms(1) by (simp add: redis_lawful_def)
  obtain data where data: "json_of_conversation keys c = Some data"
    using json_of_conversation_ok assms(3) by (auto simp: storable_def)
  define a where "a = rd_Set (rps_client st) (rps_prefix st @ c_ID c) data (rps_expiration st) r"
  have a: "fst a = None" "view (snd a) = (view r)(rps_prefix st @ c_ID c \<mapsto> RString data)" "up (snd a)"
    using writes_up [OF redis_Set [OF laws, of r "rps_prefix st @ c_ID c" data "rps_expiration st"] assms(2)]
    by (simp_all add: a_def)
  have keys: "view (snd a) (user_key st (c_UserID c)) = view r (user_key st (c_UserID c))"
    using key_not_user [OF assms(4), of st "c_UserID c"] by (simp add: a(2))
  have "snd (redis_SaveConversation keys st c r) = redis_index_user st (c_UserID c) (c_ID c) (snd a)"
    using a(1) by (cases a) (simp add: redis_SaveConversation_def data a_def [symmetric])
  moreover have "view (redis_index_user st (c_UserID c) (c_ID c) (snd a)) = (view (snd a))(user_key st (c_UserID c) :=
      set_value (insert (c_ID c) (set_members (view (snd a) (user_key st (c_UserID c))))))"
    by (rule redis_index(3) [OF assms(1) a(3)]) (simp add: keys assms(5))
  ultimately show ?thesis unfolding keys unfolding a(2) by auto
qed

lemma delete_view:
  assumes "redis_lawful view up st" and "up r" and "redis_contents view st r i = Some c" and "\<not> has_prefix i ''user:''"
    and "not_string (view r (user_key st (c_UserID c)))"
  shows "view (snd (redis_DeleteConversation st i r)) = (view r)(rps_prefix st @ i := None,
    user_key st (c_UserID c) := set_value (set_members (view r (user_key st (c_UserID c))) - {i}))"
    and "up (snd (redis_DeleteConversation st i r))"
proof -
  have laws: "redis_laws (rps_client st) view up" using assms(1) by (simp add: redis_lawful_def)
  obtain x r1 where l: "redis_LoadConversation st i r = (x, r1)" by force
  note load = redis_load_result [OF assms(1) l]
  have r1: "view r1 = view r" "up r1" "x = Inr c" using load(1,4,5) assms(2,3) by simp_all
  define d where "d = rd_Del (rps_client st) (rps_prefix st @ i) r1"
  have d: "fst d = None" "view (snd d) = (view r)(rps_prefix st @ i := None)" "up (snd d)"
    using writes_up [OF redis_Del [OF laws, of r1 "rps_prefix st @ i"] r1(2)] r1(1) by (simp_all add: d_def)
  have keys: "view (snd d) (user_key st (c_UserID c)) = view r (user_key st (c_UserID c))"
    using key_not_user [OF assms(4), of st "c_UserID c"] by (simp add: d(2))
  define e where "e = rd_SRem (rps_client st) (user_key st (c_UserID c)) i (snd d)"
  have "writes view up (snd d) e ((view (snd d))(user_key st (c_UserID c) := set_value (set_members (view r (user_key st (c_UserID c))) - {i})))"
    using redis_SRem [OF laws, of "user_key st (c_UserID c)" i "snd d"] assms(5) by (simp add: e_def member_law_def keys)
  from writes_up [OF this d(3)] have e: "view (snd e) = (view r)(rps_prefix st @ i := None,
      user_key st (c_UserID c) := set_value (set_members (view r (user_key st (c_UserID c))) - {i}))" "up (snd e)"
    by (simp_all add: d(2))
  have "snd (redis_DeleteConversation st i r) = snd e"
    using d(1) by (simp add: redis_DeleteConversation_def l r1(3) d_def [symmetric] e_def [symmetric] case_prod_beta
        split: option.split)
  then show "view (snd (redis_DeleteConversation st i r)) = (view r)(rps_prefix st @ i := None,
      user_key st (c_UserID c) := set_value (set_members (view r (user_key st (c_UserID c))) - {i}))"
    "up (snd (redis_DeleteConversation st i r))"
    using e by simp_all
qed

section \<open>Time\<close>

text \<open>
  A server whose keys expire: \<open>clock\<close> is its time, \<open>due\<close> the time at which a key expires, and
  \<open>pass\<close> lets time pass. As documented: \<^verbatim>\<open>SET\<close> with an expiration and \<^verbatim>\<open>EXPIRE\<close> on an existing
  key (which counts whole seconds) set the time, \<^verbatim>\<open>SADD\<close> and \<^verbatim>\<open>SREM\<close> leave it, and a key that
  goes, on purpose or by time, has none. Commands take no time.
\<close>

definition timing :: "('r \<Rightarrow> go_time) \<Rightarrow> ('r \<Rightarrow> string \<Rightarrow> go_time option) \<Rightarrow> 'r \<Rightarrow> 'r \<Rightarrow> (string \<Rightarrow> go_time option) \<Rightarrow> bool" where
  "timing clock due r r' ds \<longleftrightarrow> clock r' = clock r \<and> due r' = ds"

definition expired :: "go_time option \<Rightarrow> go_time \<Rightarrow> bool" where
  "expired deadline now = (case deadline of None \<Rightarrow> False | Some x \<Rightarrow> x \<le> now)"

definition pass_law ::
    "('r \<Rightarrow> redis_view) \<Rightarrow> ('r \<Rightarrow> bool) \<Rightarrow> ('r \<Rightarrow> go_time) \<Rightarrow> ('r \<Rightarrow> string \<Rightarrow> go_time option) \<Rightarrow> duration \<Rightarrow> 'r \<Rightarrow> 'r \<Rightarrow> bool" where
  "pass_law view up clock due t r r' \<longleftrightarrow> up r' \<and> clock r' = clock r + t \<and>
     (\<forall>k. view r' k = (if expired (due r k) (clock r + t) then None else view r k) \<and>
          due r' k = (if expired (due r k) (clock r + t) then None else due r k))"

definition expiry_laws ::
    "'r redis_client \<Rightarrow> ('r \<Rightarrow> redis_view) \<Rightarrow> ('r \<Rightarrow> bool) \<Rightarrow> ('r \<Rightarrow> go_time) \<Rightarrow> ('r \<Rightarrow> string \<Rightarrow> go_time option) \<Rightarrow> (duration \<Rightarrow> 'r \<Rightarrow> 'r) \<Rightarrow> bool" where
  "expiry_laws client view up clock due pass \<longleftrightarrow> (\<forall>r. up r \<longrightarrow>
     (\<forall>k j d. 0 < d \<longrightarrow> timing clock due r (snd (rd_Set client k j d r)) ((due r)(k \<mapsto> clock r + d))) \<and>
     (\<forall>k. timing clock due r (snd (rd_Get client k r)) (due r)) \<and>
     (\<forall>k. timing clock due r (snd (rd_SMembers client k r)) (due r)) \<and>
     (\<forall>k m. timing clock due r (snd (rd_SAdd client k m r)) (due r)) \<and>
     (\<forall>k d. 0 < d \<and> second dvd d \<longrightarrow>
        timing clock due r (snd (rd_Expire client k d r)) (if view r k = None then due r else (due r)(k \<mapsto> clock r + d))) \<and>
     (\<forall>k. timing clock due r (snd (rd_Del client k r)) ((due r)(k := None))) \<and>
     (\<forall>k m. timing clock due r (snd (rd_SRem client k m r))
        (if view (snd (rd_SRem client k m r)) k = None then (due r)(k := None) else due r)) \<and>
     (\<forall>t \<ge> 0. pass_law view up clock due t r (pass t r)))"

lemma expiry_lawsD:
  assumes "expiry_laws client view up clock due pass" and "up r"
  shows time_Set: "0 < d \<Longrightarrow> timing clock due r (snd (rd_Set client k j d r)) ((due r)(k \<mapsto> clock r + d))"
    and time_Get: "timing clock due r (snd (rd_Get client k r)) (due r)"
    and time_SMembers: "timing clock due r (snd (rd_SMembers client k r)) (due r)"
    and time_SAdd: "timing clock due r (snd (rd_SAdd client k m r)) (due r)"
    and time_Expire: "0 < d \<Longrightarrow> second dvd d \<Longrightarrow>
      timing clock due r (snd (rd_Expire client k d r)) (if view r k = None then due r else (due r)(k \<mapsto> clock r + d))"
    and time_Del: "timing clock due r (snd (rd_Del client k r)) ((due r)(k := None))"
    and time_SRem: "timing clock due r (snd (rd_SRem client k m r))
      (if view (snd (rd_SRem client k m r)) k = None then (due r)(k := None) else due r)"
    and time_pass: "0 \<le> t \<Longrightarrow> pass_law view up clock due t r (pass t r)"
  using assms by (simp_all add: expiry_laws_def)

lemma save_timing:
  assumes "redis_lawful view up st" and "expiry_laws (rps_client st) view up clock due pass" and "second dvd rps_expiration st"
    and "up r" and "storable keys c" and "\<not> has_prefix (c_ID c) ''user:''" and "not_string (view r (user_key st (c_UserID c)))"
  shows "timing clock due r (snd (redis_SaveConversation keys st c r)) ((due r)(rps_prefix st @ c_ID c \<mapsto> clock r + rps_expiration st,
    user_key st (c_UserID c) \<mapsto> clock r + rps_expiration st))"
proof -
  have laws: "redis_laws (rps_client st) view up" "0 < rps_expiration st" using assms(1) by (simp_all add: redis_lawful_def)
  let ?k = "user_key st (c_UserID c)"
  obtain data where data: "json_of_conversation keys c = Some data"
    using json_of_conversation_ok assms(5) by (auto simp: storable_def)
  define a where "a = rd_Set (rps_client st) (rps_prefix st @ c_ID c) data (rps_expiration st) r"
  have a: "fst a = None" "view (snd a) = (view r)(rps_prefix st @ c_ID c \<mapsto> RString data)" "up (snd a)"
    using writes_up [OF redis_Set [OF laws(1), of r "rps_prefix st @ c_ID c" data "rps_expiration st"] assms(4)]
    by (simp_all add: a_def)
  have same: "view (snd a) ?k = view r ?k" using key_not_user [OF assms(6), of st "c_UserID c"] by (simp add: a(2))
  define b where "b = rd_SAdd (rps_client st) ?k (c_ID c) (snd a)"
  have "writes view up (snd a) b ((view (snd a))(?k := set_value (insert (c_ID c) (set_members (view (snd a) ?k)))))"
    using redis_SAdd [OF laws(1), of ?k "c_ID c" "snd a"] assms(7) by (simp add: b_def member_law_def same)
  from writes_up [OF this a(3)] have b: "view (snd b) ?k \<noteq> None" "up (snd b)" by (simp_all add: set_value_def)
  have "snd (redis_SaveConversation keys st c r) = snd (rd_Expire (rps_client st) ?k (rps_expiration st) (snd b))"
    using a(1) by (cases a) (simp add: redis_SaveConversation_def data a_def [symmetric] redis_index_user_def Let_def b_def case_prod_beta)
  then show ?thesis
    using time_Set [OF assms(2,4) laws(2), of "rps_prefix st @ c_ID c" data] time_SAdd [OF assms(2) a(3), of ?k "c_ID c"]
      time_Expire [OF assms(2) b(2) laws(2) assms(3), of ?k] b(1)
    by (simp add: timing_def a_def [symmetric] b_def [symmetric])
qed

lemma load_timing:
  assumes "expiry_laws (rps_client st) view up clock due pass" and "up r"
  shows "timing clock due r (snd (redis_LoadConversation st i r)) (due r)"
  using time_Get [OF assms, of "rps_prefix st @ i"]
  by (cases "rd_Get (rps_client st) (rps_prefix st @ i) r") (auto simp: redis_LoadConversation_def split: sum.splits redis_error.splits option.splits)

lemma delete_timing:
  assumes "redis_lawful view up st" and "expiry_laws (rps_client st) view up clock due pass"
    and "up r" and "redis_contents view st r i = Some c"
  shows "timing clock due r (snd (redis_DeleteConversation st i r))
    (if view (snd (redis_DeleteConversation st i r)) (user_key st (c_UserID c)) = None
     then (due r)(rps_prefix st @ i := None, user_key st (c_UserID c) := None) else (due r)(rps_prefix st @ i := None))"
proof -
  have laws: "redis_laws (rps_client st) view up" using assms(1) by (simp add: redis_lawful_def)
  obtain x r1 where l: "redis_LoadConversation st i r = (x, r1)" by force
  note load = redis_load_result [OF assms(1) l]
  have r1: "up r1" "x = Inr c" "timing clock due r r1 (due r)"
    using load(4,5) assms(3,4) load_timing [OF assms(2,3), of i] by (simp_all add: l)
  define d where "d = rd_Del (rps_client st) (rps_prefix st @ i) r1"
  have d: "fst d = None" "up (snd d)" "timing clock due r1 (snd d) ((due r1)(rps_prefix st @ i := None))"
    using writes_up [OF redis_Del [OF laws, of r1 "rps_prefix st @ i"] r1(1)] time_Del [OF assms(2) r1(1)] by (simp_all add: d_def)
  have "snd (redis_DeleteConversation st i r) = snd (rd_SRem (rps_client st) (user_key st (c_UserID c)) i (snd d))"
    using d(1) by (simp add: redis_DeleteConversation_def l r1(2) d_def [symmetric] case_prod_beta split: option.split)
  then show ?thesis using r1(3) d(3) time_SRem [OF assms(2) d(2), of "user_key st (c_UserID c)" i] by (simp add: timing_def)
qed

section \<open>What is kept\<close>

text \<open>Time passes between the operations.\<close>

datatype store_op = Save Conversation | Delete string | Wait duration

fun redis_do :: "key_order \<Rightarrow> (duration \<Rightarrow> 'r \<Rightarrow> 'r) \<Rightarrow> 'r RedisPersistenceStore \<Rightarrow> store_op \<Rightarrow> 'r \<Rightarrow> 'r" where
  "redis_do keys pass st (Save c) r = snd (redis_SaveConversation keys st c r)"
| "redis_do keys pass st (Delete i) r = snd (redis_DeleteConversation st i r)"
| "redis_do keys pass st (Wait t) r = pass t r"

text \<open>
  The promise: a conversation is kept for the expiration after it was saved last; the index of a
  user for the expiration after any conversation of the user was saved, and it loses only
  conversations that are deleted while they are kept.
\<close>

record kept =
  kp_now :: go_time
  kp_conv :: "string \<Rightarrow> (Conversation \<times> go_time) option"
  kp_ids :: "string \<Rightarrow> string set"
  kp_due :: "string \<Rightarrow> go_time"

definition nothing_kept :: "go_time \<Rightarrow> kept" where
  "nothing_kept now = \<lparr>kp_now = now, kp_conv = Map.empty, kp_ids = \<lambda>u. {}, kp_due = \<lambda>u. now\<rparr>"

definition not_due :: "go_time \<Rightarrow> (Conversation \<times> go_time) option \<Rightarrow> (Conversation \<times> go_time) option" where
  "not_due now v = (if expired (map_option snd v) now then None else v)"

fun keep :: "duration \<Rightarrow> store_op \<Rightarrow> kept \<Rightarrow> kept" where
  "keep d (Save c) k = k\<lparr>kp_conv := (kp_conv k)(c_ID c \<mapsto> (norm_conversation c, kp_now k + d)),
     kp_ids := (kp_ids k)(c_UserID c := insert (c_ID c) (kp_ids k (c_UserID c))),
     kp_due := (kp_due k)(c_UserID c := kp_now k + d)\<rparr>"
| "keep d (Delete i) k = (case kp_conv k i of
     None \<Rightarrow> k
   | Some (c, x) \<Rightarrow> k\<lparr>kp_conv := (kp_conv k)(i := None), kp_ids := (kp_ids k)(c_UserID c := kp_ids k (c_UserID c) - {i})\<rparr>)"
| "keep d (Wait t) k = k\<lparr>kp_now := kp_now k + t, kp_conv := \<lambda>i. not_due (kp_now k + t) (kp_conv k i),
     kp_ids := \<lambda>u. if kp_due k u \<le> kp_now k + t then {} else kp_ids k u\<rparr>"

definition live :: "kept \<Rightarrow> string \<Rightarrow> string set" where
  "live k u = {i. \<exists>c x. kp_conv k i = Some (c, x) \<and> c_UserID c = u}"

fun op_ok :: "key_order \<Rightarrow> (string \<Rightarrow> string) \<Rightarrow> store_op \<Rightarrow> bool" where
  "op_ok keys owner (Save c) \<longleftrightarrow> storable keys c \<and> \<not> has_prefix (c_ID c) ''user:'' \<and> c_UserID c = owner (c_ID c)"
| "op_ok keys owner (Delete i) \<longleftrightarrow> True"
| "op_ok keys owner (Wait t) \<longleftrightarrow> 0 \<le> t"

lemma not_due_simps [simp]: "not_due now None = None" "not_due now (Some (c, x)) = (if x \<le> now then None else Some (c, x))"
  "not_due now v = Some (c, x) \<longleftrightarrow> v = Some (c, x) \<and> now < x"
  by (auto simp: not_due_def expired_def split: option.splits if_splits)

text \<open>A kept conversation is in the index, which lasts longer.\<close>

definition kept_inv :: "duration \<Rightarrow> (string \<Rightarrow> string) \<Rightarrow> kept \<Rightarrow> bool" where
  "kept_inv d owner k \<longleftrightarrow> (\<forall>i c x. kp_conv k i = Some (c, x) \<longrightarrow> c_UserID c = owner i \<and> i \<in> kp_ids k (owner i) \<and>
       x \<le> kp_due k (owner i) \<and> kp_now k < x \<and> \<not> has_prefix i ''user:'') \<and>
     (\<forall>u. kp_due k u \<le> kp_now k + d) \<and> (\<forall>u. \<forall>i \<in> kp_ids k u. owner i = u)"

lemma norm_user [simp]: "c_UserID (norm_conversation c) = c_UserID c"
  by (simp add: norm_conversation_def)

lemma kept_invD:
  assumes "kept_inv d owner k"
  shows "kp_conv k i = Some (c, x) \<Longrightarrow> c_UserID c = owner i" "kp_conv k i = Some (c, x) \<Longrightarrow> i \<in> kp_ids k (owner i)"
    and "kp_conv k i = Some (c, x) \<Longrightarrow> x \<le> kp_due k (owner i)" "kp_conv k i = Some (c, x) \<Longrightarrow> kp_now k < x"
    and "kp_conv k i = Some (c, x) \<Longrightarrow> \<not> has_prefix i ''user:''"
    and "kp_due k u \<le> kp_now k + d" "j \<in> kp_ids k u \<Longrightarrow> owner j = u"
  using assms unfolding kept_inv_def by blast+

lemma kept_step:
  assumes d: "0 < d" and inv: "kept_inv d owner k" and ok: "op_ok keys owner op"
  shows "kept_inv d owner (keep d op k)"
proof (cases op)
  case (Wait t)
  have "kp_due k u \<le> kp_now k + t + d" for u using kept_invD(6) [OF inv, of u] ok Wait by simp
  moreover have "\<not> kp_due k (owner i) \<le> kp_now k + t" if "kp_conv k i = Some (c, x)" "kp_now k + t < x" for i c x
    using kept_invD(3) [OF inv that(1)] that(2) by simp
  ultimately show ?thesis using kept_invD [OF inv] by (simp add: Wait kept_inv_def)
next
  case (Save c)
  have "x \<le> kp_now k + d" if "kp_conv k i = Some (c', x)" for i c' x
    using kept_invD(3) [OF inv that] kept_invD(6) [OF inv, of "owner i"] by simp
  then show ?thesis using kept_invD [OF inv] ok d by (simp add: Save kept_inv_def) metis
next
  case (Delete i)
  show ?thesis
  proof (cases "kp_conv k i")
    case (Some v)
    then show ?thesis using kept_invD [OF inv] by (cases v) (simp add: Delete kept_inv_def, metis)
  qed (use inv Delete in simp)
qed

text \<open>Before the first expiration nothing has gone but what was deleted.\<close>

definition kept_all :: "go_time \<Rightarrow> duration \<Rightarrow> kept \<Rightarrow> bool" where
  "kept_all t0 d k \<longleftrightarrow> t0 \<le> kp_now k \<and> (\<forall>i c x. kp_conv k i = Some (c, x) \<longrightarrow> t0 + d \<le> x) \<and>
     (\<forall>u. kp_ids k u \<noteq> {} \<longrightarrow> t0 + d \<le> kp_due k u) \<and> (kp_now k < t0 + d \<longrightarrow> (\<forall>u. kp_ids k u = live k u))"

lemma kept_allD:
  assumes "kept_all t0 d k"
  shows "t0 \<le> kp_now k" "kp_conv k i = Some (c, x) \<Longrightarrow> t0 + d \<le> x" "kp_ids k u \<noteq> {} \<Longrightarrow> t0 + d \<le> kp_due k u"
    and "kp_now k < t0 + d \<Longrightarrow> kp_ids k u = live k u"
  using assms unfolding kept_all_def by blast+

lemma kept_all_step:
  assumes inv: "kept_inv d owner k" and all: "kept_all t0 d k" and ok: "op_ok keys owner op"
  shows "kept_all t0 d (keep d op k)"
proof (cases op)
  case (Wait t)
  have "(if kp_due k u \<le> kp_now k + t then {} else kp_ids k u) = {i. \<exists>c x. kp_conv k i = Some (c, x) \<and> kp_now k + t < x \<and> c_UserID c = u}"
    if early: "kp_now k + t < t0 + d" for u
  proof -
    have ids: "kp_ids k u = live k u" using kept_allD(4) [OF all] early ok Wait by simp
    have "kp_now k + t < x" if "kp_conv k i = Some (c, x)" for i c x using kept_allD(2) [OF all that] early by simp
    then have "{i. \<exists>c x. kp_conv k i = Some (c, x) \<and> kp_now k + t < x \<and> c_UserID c = u} = live k u" by (auto simp: live_def)
    moreover have "live k u = {}" if "kp_due k u \<le> kp_now k + t" using kept_allD(3) [OF all, of u] that early ids by fastforce
    ultimately show ?thesis using ids by simp
  qed
  then show ?thesis using kept_allD(1-3) [OF all] ok Wait by (simp add: kept_all_def live_def) blast
next
  case (Save c)
  have live: "live (keep d op k) u = (if u = c_UserID c then insert (c_ID c) (live k u) else live k u)" for u
    using kept_invD(1) [OF inv] ok by (auto simp: Save live_def)
  show ?thesis using kept_allD [OF all] unfolding kept_all_def live by (simp add: Save)
next
  case (Delete i)
  show ?thesis
  proof (cases "kp_conv k i")
    case (Some v)
    obtain c x where v: "kp_conv k i = Some (c, x)" using Some by (cases v) simp
    have "live (k\<lparr>kp_conv := (kp_conv k)(i := None), kp_ids := ids\<rparr>) u = (if u = c_UserID c then live k u - {i} else live k u)" for u ids
      using v by (auto simp: live_def)
    moreover have "kp_ids k u - {i} \<noteq> {} \<Longrightarrow> t0 + d \<le> kp_due k u" for u using kept_allD(3) [OF all, of u] by blast
    ultimately show ?thesis using kept_allD [OF all] v by (simp add: kept_all_def Delete)
  qed (use all Delete in simp)
qed

lemma saved_before:
  "kp_ids k u \<subseteq> S u \<Longrightarrow> kp_ids (fold (keep d) ops k) u \<subseteq> S u \<union> {i. \<exists>c. Save c \<in> set ops \<and> c_ID c = i \<and> c_UserID c = u}"
proof (induction ops arbitrary: k S)
  case (Cons x ops)
  have "kp_ids (keep d x k) u \<subseteq> S u \<union> {i. \<exists>c. Save c = x \<and> c_ID c = i \<and> c_UserID c = u}"
    using Cons.prems by (cases x) (auto split: option.splits if_splits)
  from Cons.IH [where S = "\<lambda>u. S u \<union> {i. \<exists>c. Save c = x \<and> c_ID c = i \<and> c_UserID c = u}", OF this] show ?case by auto
qed simp

section \<open>The server keeps what is promised\<close>

definition index_inv ::
    "('r \<Rightarrow> redis_view) \<Rightarrow> ('r \<Rightarrow> bool) \<Rightarrow> ('r \<Rightarrow> go_time) \<Rightarrow> ('r \<Rightarrow> string \<Rightarrow> go_time option) \<Rightarrow> 'r RedisPersistenceStore \<Rightarrow> kept \<Rightarrow> 'r \<Rightarrow> bool" where
  "index_inv view up clock due st k r \<longleftrightarrow> up r \<and> clock r = kp_now k \<and>
     (\<forall>i. \<not> has_prefix i ''user:'' \<longrightarrow> (case kp_conv k i of
        None \<Rightarrow> view r (rps_prefix st @ i) = None
      | Some (c, x) \<Rightarrow> redis_contents view st r i = Some c \<and> due r (rps_prefix st @ i) = Some x)) \<and>
     (\<forall>u. view r (user_key st u) = set_value (kp_ids k u) \<and> (kp_ids k u \<noteq> {} \<longrightarrow> due r (user_key st u) = Some (kp_due k u)))"

lemma index_invD:
  assumes "index_inv view up clock due st k r"
  shows "up r" "clock r = kp_now k" "view r (user_key st u) = set_value (kp_ids k u)"
    and "kp_ids k u \<noteq> {} \<Longrightarrow> due r (user_key st u) = Some (kp_due k u)"
    and "\<not> has_prefix i ''user:'' \<Longrightarrow> kp_conv k i = None \<Longrightarrow> view r (rps_prefix st @ i) = None"
    and "\<not> has_prefix i ''user:'' \<Longrightarrow> kp_conv k i = Some (c, x) \<Longrightarrow> redis_contents view st r i = Some c"
    and "\<not> has_prefix i ''user:'' \<Longrightarrow> kp_conv k i = Some (c, x) \<Longrightarrow> due r (rps_prefix st @ i) = Some x"
  using assms unfolding index_inv_def by (auto dest!: spec split: option.splits)

lemma index_inv_cong:
  "index_inv view up clock due st k r \<Longrightarrow> view r' = view r \<Longrightarrow> up r' \<Longrightarrow> clock r' = clock r \<Longrightarrow> due r' = due r \<Longrightarrow>
   index_inv view up clock due st k r'"
  by (simp add: index_inv_def redis_contents_def cong: option.case_cong)

lemma index_invI:
  assumes "up r" "clock r = kp_now k"
    and "\<And>i. \<not> has_prefix i ''user:'' \<Longrightarrow> (case kp_conv k i of
        None \<Rightarrow> view r (rps_prefix st @ i) = None
      | Some (c, x) \<Rightarrow> redis_contents view st r i = Some c \<and> due r (rps_prefix st @ i) = Some x)"
    and "\<And>u. view r (user_key st u) = set_value (kp_ids k u) \<and> (kp_ids k u \<noteq> {} \<longrightarrow> due r (user_key st u) = Some (kp_due k u))"
  shows "index_inv view up clock due st k r"
  using assms by (simp add: index_inv_def)

text \<open>An identifier that begins with \<open>user:\<close> names a user's set, or nothing that is a conversation.\<close>

lemma user_ids: "has_prefix i ''user:'' \<Longrightarrow> \<exists>u. rps_prefix st @ i = user_key st u"
proof -
  assume "has_prefix i ''user:''"
  then have "i = ''user:'' @ drop (length ''user:'') i" unfolding has_prefix_def by (metis append_take_drop_id)
  then show ?thesis by (auto simp: user_key_def intro!: exI [of _ "drop (length ''user:'') i"])
qed

lemma contents_same: "view r' (rps_prefix st @ i) = view r (rps_prefix st @ i) \<Longrightarrow> redis_contents view st r' i = redis_contents view st r i"
  by (simp add: redis_contents_def)

text \<open>A server and a store with all that.\<close>

definition expiring ::
    "('r \<Rightarrow> redis_view) \<Rightarrow> ('r \<Rightarrow> bool) \<Rightarrow> ('r \<Rightarrow> go_time) \<Rightarrow> ('r \<Rightarrow> string \<Rightarrow> go_time option) \<Rightarrow> (duration \<Rightarrow> 'r \<Rightarrow> 'r) \<Rightarrow> 'r RedisPersistenceStore \<Rightarrow> bool" where
  "expiring view up clock due pass st \<longleftrightarrow>
     redis_lawful view up st \<and> expiry_laws (rps_client st) view up clock due pass \<and> second dvd rps_expiration st"

lemma expiringD:
  assumes "expiring view up clock due pass st"
  shows "redis_lawful view up st" "expiry_laws (rps_client st) view up clock due pass" "second dvd rps_expiration st"
  using assms by (simp_all add: expiring_def)

lemma save_kept:
  assumes srv: "expiring view up clock due pass st" and inv: "index_inv view up clock due st k r" and c: "storable keys c" "\<not> has_prefix (c_ID c) ''user:''"
  shows "index_inv view up clock due st (keep (rps_expiration st) (Save c) k) (snd (redis_SaveConversation keys st c r))"
proof -
  note lawful = expiringD(1) [OF srv] and expiry = expiringD(2) [OF srv] and whole = expiringD(3) [OF srv]
  note i = index_invD [OF inv]
  obtain e r' where s: "redis_SaveConversation keys st c r = (e, r')" by force
  have up: "up r'" using redis_save_effect(2) [OF lawful c(1) s i(1)] by simp
  have ns: "not_string (view r (user_key st (c_UserID c)))" by (simp add: i(3))
  obtain data where v: "view r' = (view r)(rps_prefix st @ c_ID c \<mapsto> RString data,
      user_key st (c_UserID c) := set_value (insert (c_ID c) (kp_ids k (c_UserID c))))"
    using save_view [OF lawful i(1) c ns] s i(3) by auto
  have t: "clock r' = clock r" "due r' = (due r)(rps_prefix st @ c_ID c \<mapsto> clock r + rps_expiration st,
      user_key st (c_UserID c) \<mapsto> clock r + rps_expiration st)"
    using save_timing [OF lawful expiry whole i(1) c ns] s by (simp_all add: timing_def)
  have new: "redis_contents view st r' (c_ID c) = Some (norm_conversation c)"
    using redis_save_effect(1) [OF lawful c(1) s] redis_save_effect(2) [OF lawful c(1) s i(1)] by auto
  have ne: "rps_prefix st @ j \<noteq> user_key st u" if "\<not> has_prefix j ''user:''" for j u by (rule key_not_user [OF that])
  have other: "redis_contents view st r' j = redis_contents view st r j" if "\<not> has_prefix j ''user:''" "j \<noteq> c_ID c" for j
    using that ne [OF that(1)] by (intro contents_same) (simp add: v)
  have "case kp_conv (keep (rps_expiration st) (Save c) k) j of None \<Rightarrow> view r' (rps_prefix st @ j) = None
      | Some (c', x) \<Rightarrow> redis_contents view st r' j = Some c' \<and> due r' (rps_prefix st @ j) = Some x"
    if j: "\<not> has_prefix j ''user:''" for j
  proof (cases "j = c_ID c")
    case True
    then show ?thesis using new ne [OF j] by (simp add: t i(2))
  next
    case False
    then show ?thesis using i(5-7) [OF j] other [OF j False] ne [OF j] by (simp add: v t split: option.split)
  qed
  moreover have "view r' (user_key st u) = set_value (kp_ids (keep (rps_expiration st) (Save c) k) u) \<and>
      (kp_ids (keep (rps_expiration st) (Save c) k) u \<noteq> {} \<longrightarrow> due r' (user_key st u) = Some (kp_due (keep (rps_expiration st) (Save c) k) u))" for u
    using i(3,4) ne [OF c(2)] ne [OF c(2), symmetric] by (simp add: v t i(2))
  ultimately show ?thesis using up t(1) i(2) unfolding s snd_conv by (intro index_invI) simp_all
qed

lemma delete_kept:
  assumes srv: "expiring view up clock due pass st" and inv: "index_inv view up clock due st k r" and abs: "kept_inv (rps_expiration st) owner k"
  shows "index_inv view up clock due st (keep (rps_expiration st) (Delete j) k) (snd (redis_DeleteConversation st j r))"
proof (cases "kp_conv k j")
  case None
  note lawful = expiringD(1) [OF srv] and expiry = expiringD(2) [OF srv]
  note i = index_invD [OF inv]
  obtain x r1 where l: "redis_LoadConversation st j r = (x, r1)" by force
  note load = redis_load_result [OF lawful l]
  have "redis_contents view st r j = None"
  proof (cases "has_prefix j ''user:''")
    case True
    then obtain u where "rps_prefix st @ j = user_key st u" using user_ids by blast
    then show ?thesis using i(3) by (simp add: redis_contents_def set_value_def)
  next
    case False
    then show ?thesis using i(5) None by (simp add: redis_contents_def)
  qed
  then have "\<And>c. x \<noteq> Inr c" using load(2) by auto
  then have "snd (redis_DeleteConversation st j r) = r1" by (auto simp: redis_DeleteConversation_def l split: sum.splits)
  moreover have "view r1 = view r" "up r1" "clock r1 = clock r" "due r1 = due r"
    using load(1,4) i(1) load_timing [OF expiry i(1), of j] by (simp_all add: l timing_def)
  ultimately show ?thesis using index_inv_cong [OF inv, of r1] None by simp
next
  case (Some v)
  note lawful = expiringD(1) [OF srv] and expiry = expiringD(2) [OF srv]
  note i = index_invD [OF inv]
  obtain c x where cx: "kp_conv k j = Some (c, x)" using Some by (cases v) simp
  have j: "\<not> has_prefix j ''user:''" by (rule kept_invD(5) [OF abs cx])
  note held = i(6) [OF j cx]
  have ns: "not_string (view r (user_key st (c_UserID c)))" by (simp add: i(3))
  let ?r' = "snd (redis_DeleteConversation st j r)"
  note del = delete_view [OF lawful i(1) held j ns]
  have v: "view ?r' = (view r)(rps_prefix st @ j := None, user_key st (c_UserID c) := set_value (kp_ids k (c_UserID c) - {j}))"
    by (simp add: del(1) i(3))
  note t = delete_timing [OF lawful expiry i(1) held, unfolded timing_def]
  have ne: "rps_prefix st @ l \<noteq> user_key st u" if "\<not> has_prefix l ''user:''" for l u by (rule key_not_user [OF that])
  have dues: "due ?r' (rps_prefix st @ l) = due r (rps_prefix st @ l)" if "\<not> has_prefix l ''user:''" "l \<noteq> j" for l
    using t that(2) ne [OF that(1)] by (simp split: if_splits)
  have other: "redis_contents view st ?r' l = redis_contents view st r l" if "\<not> has_prefix l ''user:''" "l \<noteq> j" for l
    using that ne [OF that(1)] by (intro contents_same) (simp add: v)
  have "case ((kp_conv k)(j := None)) l of None \<Rightarrow> view ?r' (rps_prefix st @ l) = None
      | Some (c', x) \<Rightarrow> redis_contents view st ?r' l = Some c' \<and> due ?r' (rps_prefix st @ l) = Some x"
    if l: "\<not> has_prefix l ''user:''" for l
  proof (cases "l = j")
    case True
    then show ?thesis using ne [OF l] by (simp add: v)
  next
    case False
    then show ?thesis using i(5-7) [OF l] other [OF l False] dues [OF l False] ne [OF l] by (simp add: v split: option.split)
  qed
  moreover have "view ?r' (user_key st u) = set_value (((kp_ids k)(c_UserID c := kp_ids k (c_UserID c) - {j})) u) \<and>
      (((kp_ids k)(c_UserID c := kp_ids k (c_UserID c) - {j})) u \<noteq> {} \<longrightarrow> due ?r' (user_key st u) = Some (kp_due k u))" for u
  proof (cases "u = c_UserID c")
    case True
    have "due ?r' (user_key st u) = due r (user_key st u)" if "kp_ids k u - {j} \<noteq> {}"
      using t that ne [OF j, of u] True by (simp add: v set_value_def)
    then show ?thesis using i(4) [of u] True by (auto simp: v)
  next
    case False
    have "due ?r' (user_key st u) = due r (user_key st u)" using t ne [OF j, of u] False by (simp split: if_splits)
    then show ?thesis using i(3,4) [of u] ne [OF j, of u] False by (simp add: v)
  qed
  ultimately have "index_inv view up clock due st
      (k\<lparr>kp_conv := (kp_conv k)(j := None), kp_ids := (kp_ids k)(c_UserID c := kp_ids k (c_UserID c) - {j})\<rparr>) ?r'"
    using del(2) conjunct1 [OF t] i(2) by (intro index_invI) simp_all
  then show ?thesis by (simp add: cx)
qed

lemma wait_kept:
  assumes srv: "expiring view up clock due pass st" and inv: "index_inv view up clock due st k r" and t: "0 \<le> t"
  shows "index_inv view up clock due st (keep (rps_expiration st) (Wait t) k) (pass t r)"
proof -
  note expiry = expiringD(2) [OF srv]
  note i = index_invD [OF inv]
  have p: "up (pass t r)" "clock (pass t r) = kp_now k + t"
    "view (pass t r) l = (if expired (due r l) (kp_now k + t) then None else view r l)"
    "due (pass t r) l = (if expired (due r l) (kp_now k + t) then None else due r l)" for l
    using time_pass [OF expiry i(1) t] i(2) by (simp_all add: pass_law_def)
  have "case not_due (kp_now k + t) (kp_conv k j) of None \<Rightarrow> view (pass t r) (rps_prefix st @ j) = None
      | Some (c, x) \<Rightarrow> redis_contents view st (pass t r) j = Some c \<and> due (pass t r) (rps_prefix st @ j) = Some x"
    if j: "\<not> has_prefix j ''user:''" for j
  proof (cases "kp_conv k j")
    case None
    then show ?thesis using i(5) [OF j] by (simp add: p)
  next
    case (Some v)
    obtain c x where cx: "kp_conv k j = Some (c, x)" using Some by (cases v) simp
    have "expired (due r (rps_prefix st @ j)) (kp_now k + t) \<longleftrightarrow> x \<le> kp_now k + t" by (simp add: i(7) [OF j cx] expired_def)
    then show ?thesis using i(6,7) [OF j cx] contents_same [of view "pass t r" st j r] by (simp add: cx p)
  qed
  moreover have "view (pass t r) (user_key st u) = set_value (if kp_due k u \<le> kp_now k + t then {} else kp_ids k u) \<and>
      ((if kp_due k u \<le> kp_now k + t then {} else kp_ids k u) \<noteq> {} \<longrightarrow> due (pass t r) (user_key st u) = Some (kp_due k u))" for u
  proof (cases "kp_ids k u = {}")
    case True
    then show ?thesis using i(3) [of u] by (simp add: p set_value_def)
  next
    case False
    then have "expired (due r (user_key st u)) (kp_now k + t) \<longleftrightarrow> kp_due k u \<le> kp_now k + t" using i(4) by (simp add: expired_def)
    then show ?thesis using i(3,4) [of u] False by (simp add: p set_value_def)
  qed
  ultimately show ?thesis using p(1,2) by (intro index_invI) simp_all
qed

lemma run_kept:
  assumes srv: "expiring view up clock due pass st"
  shows "index_inv view up clock due st k r \<Longrightarrow> kept_inv (rps_expiration st) owner k \<Longrightarrow> kept_all t0 (rps_expiration st) k \<Longrightarrow> list_all (op_ok keys owner) ops \<Longrightarrow>
   index_inv view up clock due st (fold (keep (rps_expiration st)) ops k) (fold (redis_do keys pass st) ops r) \<and>
   kept_inv (rps_expiration st) owner (fold (keep (rps_expiration st)) ops k) \<and>
   kept_all t0 (rps_expiration st) (fold (keep (rps_expiration st)) ops k)"
proof (induction ops arbitrary: k r)
  case (Cons x ops)
  have "0 < rps_expiration st" using expiringD(1) [OF srv] by (simp add: redis_lawful_def)
  from kept_step [OF this Cons.prems(2), of keys x] kept_all_step [OF Cons.prems(2,3), of keys x]
  have "kept_inv (rps_expiration st) owner (keep (rps_expiration st) x k)" "kept_all t0 (rps_expiration st) (keep (rps_expiration st) x k)"
    using Cons.prems(4) by simp_all
  moreover have "index_inv view up clock due st (keep (rps_expiration st) x k) (redis_do keys pass st x r)"
  proof (cases x)
    case (Save c)
    then show ?thesis using save_kept [OF srv Cons.prems(1), of keys c] Cons.prems(4) by simp
  next
    case (Delete j)
    then show ?thesis using delete_kept [OF srv Cons.prems(1,2), of j] by simp
  next
    case (Wait t)
    then show ?thesis using wait_kept [OF srv Cons.prems(1), of t] Cons.prems(4) by simp
  qed
  ultimately show ?case using Cons.IH Cons.prems(4) by simp
qed simp

section \<open>Properties\<close>

text \<open>
  C30 (index). On a reachable Redis server that starts empty and whose keys expire, after any saves
  of conversations that keep their user and whose identifiers do not begin with \<open>user:\<close>, deletes,
  and waits between them, with an expiration of whole seconds and commands that take no time: the
  list of a user is what the index is promised to hold; it has every conversation of the user that
  has not been deleted and has not expired, and only identifiers that were saved for the user;
  until the first expiration has passed it has nothing else. A conversation is loaded back while
  it is kept, and is not found once it is deleted or has expired, even if it is still listed.
\<close>

theorem redis_lists_stored:
  assumes "redis_lawful view up st" and "expiry_laws (rps_client st) view up clock due pass" and "second dvd rps_expiration st"
    and "up r0" and "view r0 = Map.empty" and "list_all (op_ok keys owner) ops"
    and "r = fold (redis_do keys pass st) ops r0" and "k = fold (keep (rps_expiration st)) ops (nothing_kept (clock r0))"
  shows "(\<exists>ids. fst (redis_ListUserConversations st u r) = Inr ids \<and> set ids = kp_ids k u \<and> live k u \<subseteq> set ids \<and>
      (\<forall>i \<in> set ids. \<exists>c. Save c \<in> set ops \<and> c_ID c = i \<and> c_UserID c = u) \<and>
      (clock r < clock r0 + rps_expiration st \<longrightarrow> set ids = live k u)) \<and>
    (\<forall>i. \<not> has_prefix i ''user:'' \<longrightarrow> fst (redis_LoadConversation st i r) =
      (case kp_conv k i of None \<Rightarrow> Inl ErrNotFound | Some (c, x) \<Rightarrow> Inr c))"
proof -
  have srv: "expiring view up clock due pass st" using assms(1-3) by (simp add: expiring_def)
  have laws: "redis_laws (rps_client st) view up" "0 < rps_expiration st" using assms(1) by (simp_all add: redis_lawful_def)
  have "index_inv view up clock due st (nothing_kept (clock r0)) r0"
    using assms(4,5) by (intro index_invI) (simp_all add: nothing_kept_def set_value_def)
  moreover have "kept_inv (rps_expiration st) owner (nothing_kept (clock r0))"
    "kept_all (clock r0) (rps_expiration st) (nothing_kept (clock r0))"
    using laws(2) by (simp_all add: kept_inv_def kept_all_def nothing_kept_def live_def)
  ultimately have inv: "index_inv view up clock due st k r" "kept_inv (rps_expiration st) owner k" "kept_all (clock r0) (rps_expiration st) k"
    using run_kept [OF srv] assms(6-8) by blast+
  note i = index_invD [OF inv(1)]
  define ms where "ms = rd_SMembers (rps_client st) (user_key st u) r"
  obtain ids where ids: "fst ms = Inr ids" "set ids = kp_ids k u"
    using redis_SMembers [OF laws(1), of "user_key st u" r] i(1,3) by (auto simp: ms_def members_law_def)
  have "fst (redis_ListUserConversations st u r) = Inr ids"
    using ids(1) by (cases ms) (simp add: redis_ListUserConversations_def ms_def [symmetric])
  moreover have "live k u \<subseteq> kp_ids k u" using kept_invD(1,2) [OF inv(2)] by (fastforce simp: live_def)
  moreover have "kp_ids k u \<subseteq> {i. \<exists>c. Save c \<in> set ops \<and> c_ID c = i \<and> c_UserID c = u}"
    using saved_before [of "nothing_kept (clock r0)" u "\<lambda>u. {}" "rps_expiration st" ops] assms(8) by (simp add: nothing_kept_def)
  moreover have "kp_ids k u = live k u" if "clock r < clock r0 + rps_expiration st" using kept_allD(4) [OF inv(3)] that i(2) by simp
  moreover have "fst (redis_LoadConversation st j r) = (case kp_conv k j of None \<Rightarrow> Inl ErrNotFound | Some (c, x) \<Rightarrow> Inr c)"
    if j: "\<not> has_prefix j ''user:''" for j
  proof (cases "kp_conv k j")
    case None
    have "get_law view up (rps_prefix st @ j) r (rd_Get (rps_client st) (rps_prefix st @ j) r)" by (rule redis_Get [OF laws(1)])
    then have "fst (rd_Get (rps_client st) (rps_prefix st @ j) r) = Inl RedisNil" using i(1) i(5) [OF j None] by (simp add: get_law_def)
    then show ?thesis
      by (cases "rd_Get (rps_client st) (rps_prefix st @ j) r") (simp add: redis_LoadConversation_def None)
  next
    case (Some v)
    obtain c x where cx: "kp_conv k j = Some (c, x)" using Some by (cases v) simp
    obtain y r1 where l: "redis_LoadConversation st j r = (y, r1)" by force
    show ?thesis using redis_load_result(5) [OF assms(1) l i(1) i(6) [OF j cx]] by (simp add: cx l)
  qed
  ultimately show ?thesis using ids(2) by (intro conjI exI [of _ ids]) auto
qed

text \<open>A server in memory with a clock: the laws can be met.\<close>

record timed_redis =
  tr_keys :: mem_redis
  tr_due :: "string \<Rightarrow> go_time option"
  tr_clock :: go_time

definition tr_put :: "(mem_redis \<Rightarrow> redis_error option \<times> mem_redis) \<Rightarrow> timed_redis \<Rightarrow> redis_error option \<times> timed_redis" where
  "tr_put cmd r = (case cmd (tr_keys r) of (e, keys) \<Rightarrow> (e, r\<lparr>tr_keys := keys\<rparr>))"

definition tr_end :: "string \<Rightarrow> timed_redis \<Rightarrow> timed_redis" where
  "tr_end k r = (if mem_view (tr_keys r) k = None then r\<lparr>tr_due := (tr_due r)(k := None)\<rparr> else r)"

definition timed_client :: "timed_redis redis_client" where
  "timed_client =
     \<lparr>rd_Set = (\<lambda>k j d r. (None, r\<lparr>tr_keys := (tr_keys r)(k \<mapsto> Inl j), tr_due := (tr_due r)(k := if 0 < d then Some (tr_clock r + d) else None)\<rparr>)),
      rd_Get = (\<lambda>k r. (fst (rd_Get mem_client k (tr_keys r)), r)),
      rd_SAdd = (\<lambda>k m. tr_put (rd_SAdd mem_client k m)),
      rd_SMembers = (\<lambda>k r. (fst (rd_SMembers mem_client k (tr_keys r)), r)),
      rd_Expire = (\<lambda>k d r. (None, if 0 < d then (if mem_view (tr_keys r) k = None then r else r\<lparr>tr_due := (tr_due r)(k \<mapsto> tr_clock r + d)\<rparr>)
         else r\<lparr>tr_keys := (tr_keys r)(k := None), tr_due := (tr_due r)(k := None)\<rparr>)),
      rd_Del = (\<lambda>k r. (None, r\<lparr>tr_keys := (tr_keys r)(k := None), tr_due := (tr_due r)(k := None)\<rparr>)),
      rd_SRem = (\<lambda>k m r. (case tr_put (rd_SRem mem_client k m) r of (e, r') \<Rightarrow> (e, tr_end k r')))\<rparr>"

definition tr_pass :: "duration \<Rightarrow> timed_redis \<Rightarrow> timed_redis" where
  "tr_pass t r = (let now = tr_clock r + t
     in \<lparr>tr_keys = \<lambda>k. if expired (tr_due r k) now then None else tr_keys r k,
         tr_due = \<lambda>k. if expired (tr_due r k) now then None else tr_due r k, tr_clock = now\<rparr>)"

definition tr_view :: "timed_redis \<Rightarrow> redis_view" where
  "tr_view r = mem_view (tr_keys r)"

lemma tr_put_fields: "fst (tr_put cmd r) = fst (cmd (tr_keys r))" "tr_keys (snd (tr_put cmd r)) = snd (cmd (tr_keys r))"
  "tr_due (snd (tr_put cmd r)) = tr_due r" "tr_clock (snd (tr_put cmd r)) = tr_clock r"
  by (simp_all add: tr_put_def split: prod.split)

lemma tr_end_fields: "tr_keys (tr_end k r) = tr_keys r" "tr_clock (tr_end k r) = tr_clock r"
  "tr_due (tr_end k r) = (if mem_view (tr_keys r) k = None then (tr_due r)(k := None) else tr_due r)"
  by (simp_all add: tr_end_def)

lemma timed_laws: "redis_laws timed_client tr_view (\<lambda>_. True)"
proof -
  have lift: "member_law tr_view (\<lambda>_. True) k f r res"
    if "member_law mem_view (\<lambda>_. True) k f (tr_keys r) (fst res, tr_keys (snd res))" for k f r and res :: "redis_error option \<times> timed_redis"
    using that by (auto simp: member_law_def writes_def tr_view_def split: if_splits)
  have "get_law tr_view (\<lambda>_. True) k r (rd_Get timed_client k r)" for k r
  proof -
    have get: "rd_Get timed_client k r = (fst (rd_Get mem_client k (tr_keys r)), r)" by (simp add: timed_client_def)
    show ?thesis using redis_Get [OF mem_laws, of k "tr_keys r"] unfolding get get_law_def tr_view_def fst_conv snd_conv by blast
  qed
  moreover have "members_law tr_view (\<lambda>_. True) k r (rd_SMembers timed_client k r)" for k r
  proof -
    have get: "rd_SMembers timed_client k r = (fst (rd_SMembers mem_client k (tr_keys r)), r)" by (simp add: timed_client_def)
    show ?thesis using redis_SMembers [OF mem_laws, of k "tr_keys r"] unfolding get members_law_def tr_view_def fst_conv snd_conv by blast
  qed
  moreover have "member_law tr_view (\<lambda>_. True) k (insert m) r (rd_SAdd timed_client k m r)" for k m r
    using lift [of k "insert m" r "rd_SAdd timed_client k m r"]
      redis_SAdd [OF mem_laws, of k m "tr_keys r"] by (simp add: timed_client_def tr_put_fields)
  moreover have "member_law tr_view (\<lambda>_. True) k (\<lambda>S. S - {m}) r (rd_SRem timed_client k m r)" for k m r
    using lift [of k "\<lambda>S. S - {m}" r "rd_SRem timed_client k m r"]
      redis_SRem [OF mem_laws, of k m "tr_keys r"] by (simp add: timed_client_def tr_put_fields tr_end_fields case_prod_beta)
  moreover have "writes tr_view (\<lambda>_. True) r (rd_Set timed_client k j d r) ((tr_view r)(k \<mapsto> RString j))"
    "writes tr_view (\<lambda>_. True) r (rd_Expire timed_client k d r) (if 0 < d then tr_view r else (tr_view r)(k := None))"
    "writes tr_view (\<lambda>_. True) r (rd_Del timed_client k r) ((tr_view r)(k := None))" for k j d r
    by (simp_all add: timed_client_def writes_def tr_view_def)
  ultimately show ?thesis by (simp add: redis_laws_def)
qed

lemma timed_expiry: "expiry_laws timed_client tr_view (\<lambda>_. True) tr_clock tr_due tr_pass"
proof -
  have "pass_law tr_view (\<lambda>_. True) tr_clock tr_due t r (tr_pass t r)" for t r
    by (auto simp: pass_law_def tr_pass_def Let_def tr_view_def mem_view_def)
  moreover have "timing tr_clock tr_due r (snd (rd_SRem timed_client k m r))
      (if tr_view (snd (rd_SRem timed_client k m r)) k = None then (tr_due r)(k := None) else tr_due r)" for k m r
    by (simp add: timed_client_def timing_def case_prod_beta tr_end_fields tr_put_fields tr_view_def)
  ultimately show ?thesis
    by (simp add: expiry_laws_def) (auto simp: timed_client_def timing_def tr_put_fields tr_view_def)
qed

definition timed_store :: "timed_redis RedisPersistenceStore" where
  "timed_store = NewRedisPersistenceStore timed_client ''conversation:'' (24 * hour)"

text \<open>
  A conversation saved at 0 h and another of the same user at 23 h: at 25 h the first has expired
  and is still listed, and a delete does not change that.
\<close>

definition stale_ops :: "store_op list" where
  "stale_ops = [Save (sample_conversation ''a'' ''u''), Wait (23 * hour), Save (sample_conversation ''b'' ''u''), Wait (2 * hour), Delete ''a'']"

theorem redis_lists_stored_witness:
  "\<exists>r ids. r = fold (redis_do sample_keys tr_pass timed_store) stale_ops \<lparr>tr_keys = Map.empty, tr_due = Map.empty, tr_clock = 0\<rparr> \<and>
     fst (redis_ListUserConversations timed_store ''u'' r) = Inr ids \<and> set ids = {''a'', ''b''} \<and>
     fst (redis_LoadConversation timed_store ''a'' r) = Inl ErrNotFound \<and>
     fst (redis_LoadConversation timed_store ''b'' r) = Inr (norm_conversation (sample_conversation ''b'' ''u''))"
proof -
  define r0 :: timed_redis where "r0 = \<lparr>tr_keys = Map.empty, tr_due = Map.empty, tr_clock = 0\<rparr>"
  have store: "rps_client timed_store = timed_client" "rps_expiration timed_store = 24 * hour"
    by (simp_all add: timed_store_def NewRedisPersistenceStore_def)
  have srv: "redis_lawful tr_view (\<lambda>_. True) timed_store" "expiry_laws (rps_client timed_store) tr_view (\<lambda>_. True) tr_clock tr_due tr_pass"
    "second dvd rps_expiration timed_store"
    using timed_laws timed_expiry by (simp_all add: redis_lawful_def store)
  have ids: "c_ID (sample_conversation i u) = i" "c_UserID (sample_conversation i u) = u" for i u
    by (simp_all add: sample_conversation_def)
  have ok: "list_all (op_ok sample_keys (\<lambda>i. ''u'')) stale_ops"
    using sample_encodable by (simp add: stale_ops_def storable_def ids has_prefix_def)
  have empty: "tr_view r0 = Map.empty" by (rule ext) (simp add: r0_def tr_view_def mem_view_def)
  define k where "k = fold (keep (24 * hour)) stale_ops (nothing_kept 0)"
  have k: "kp_conv k ''a'' = None" "kp_conv k ''b'' = Some (norm_conversation (sample_conversation ''b'' ''u''), 47 * hour)"
    "kp_ids k ''u'' = {''a'', ''b''}"
    by (simp_all add: k_def stale_ops_def nothing_kept_def ids insert_commute)
  have clock: "k = fold (keep (rps_expiration timed_store)) stale_ops (nothing_kept (tr_clock r0))"
    by (simp add: k_def store r0_def)
  note all = redis_lists_stored [OF srv TrueI empty ok refl clock, of "''u''"]
  show ?thesis
    using conjunct1 [OF all] conjunct2 [OF all, rule_format, of "''a''"] conjunct2 [OF all, rule_format, of "''b''"] k
    by (auto simp: r0_def has_prefix_def)
qed

text \<open>
  With an expiration of 0, which for \<^verbatim>\<open>SET\<close> means that the key is kept, the
  \<^verbatim>\<open>EXPIRE\<close> that follows deletes the index: the conversation is saved and can be loaded, but its
  user has no conversations.
\<close>

theorem redis_zero_expiration_loses_index:
  assumes "redis_laws (rps_client st) view up" and "rps_expiration st = 0" and "up r" and "storable keys c"
    and "\<not> has_prefix (c_ID c) ''user:''"
  shows "\<exists>r'. redis_SaveConversation keys st c r = (None, r') \<and>
    fst (redis_LoadConversation st (c_ID c) r') = Inr (norm_conversation c) \<and>
    fst (redis_ListUserConversations st (c_UserID c) r') = Inr []"
proof -
  obtain data where data: "json_of_conversation keys c = Some data"
    using json_of_conversation_ok assms(4) by (auto simp: storable_def)
  have decoded: "conversation_of_json data = Some (norm_conversation c)"
    using conversation_decodes [OF data] assms(4) by (simp add: storable_def)
  define a where "a = rd_Set (rps_client st) (rps_prefix st @ c_ID c) data 0 r"
  have a: "fst a = None" "view (snd a) = (view r)(rps_prefix st @ c_ID c \<mapsto> RString data)" "up (snd a)"
    using writes_up [OF redis_Set [OF assms(1), of r "rps_prefix st @ c_ID c" data 0] assms(3)] by (simp_all add: a_def)
  define k where "k = user_key st (c_UserID c)"
  define b where "b = rd_SAdd (rps_client st) k (c_ID c) (snd a)"
  have b: "strings (view (snd b)) = strings (view (snd a))" "up (snd b)"
    using member_law_strings [OF redis_SAdd [OF assms(1), of k "c_ID c" "snd a"]] a(3) by (simp_all add: b_def)
  define e where "e = rd_Expire (rps_client st) k 0 (snd b)"
  have e: "view (snd e) = (view (snd b))(k := None)" "up (snd e)"
    using writes_up [OF redis_Expire [OF assms(1), of "snd b" k 0] b(2)] by (simp_all add: e_def)
  have save: "redis_SaveConversation keys st c r = (None, snd e)"
    using a(1) assms(2) by (simp add: redis_SaveConversation_def data a_def [symmetric] redis_index_user_def Let_def
        b_def [symmetric] k_def [symmetric] e_def [symmetric] case_prod_beta split: option.split)
  have "rps_prefix st @ c_ID c \<noteq> k" using key_not_user [OF assms(5)] by (simp add: k_def)
  then have "strings (view (snd e)) (rps_prefix st @ c_ID c) = Some data"
    using fun_cong [OF b(1), of "rps_prefix st @ c_ID c"] by (simp add: e(1) a(2) strings_def)
  then have get: "view (snd e) (rps_prefix st @ c_ID c) = Some (RString data)"
    by (auto simp: strings_def split: option.splits redis_value.splits)
  have "fst (rd_Get (rps_client st) (rps_prefix st @ c_ID c) (snd e)) = Inr data"
    using redis_Get [OF assms(1), of "rps_prefix st @ c_ID c" "snd e"] e(2) get unfolding get_law_def by blast
  then have load: "fst (redis_LoadConversation st (c_ID c) (snd e)) = Inr (norm_conversation c)"
    by (auto simp: redis_LoadConversation_def decoded split: prod.splits sum.splits redis_error.splits)
  have none: "view (snd e) k = None" by (simp add: e(1))
  have "fst (rd_SMembers (rps_client st) k (snd e)) = Inr []"
    using redis_SMembers [OF assms(1), of k "snd e"] e(2) none
    by (auto simp: members_law_def not_string_def set_members_def)
  then have "fst (redis_ListUserConversations st (c_UserID c) (snd e)) = Inr []"
    by (auto simp: redis_ListUserConversations_def k_def split: prod.splits sum.splits redis_error.splits)
  with save load show ?thesis by blast
qed

theorem redis_zero_expiration_loses_index_witness:
  "\<exists>r'. redis_SaveConversation sample_keys (NewRedisPersistenceStore mem_client ''conversation:'' 0) (sample_conversation ''a'' ''u'') Map.empty = (None, r') \<and>
    fst (redis_ListUserConversations (NewRedisPersistenceStore mem_client ''conversation:'' 0) ''u'' r') = Inr []"
proof -
  let ?st = "NewRedisPersistenceStore mem_client ''conversation:'' 0"
  have "redis_laws (rps_client ?st) mem_view (\<lambda>_. True)" "rps_expiration ?st = 0"
    using mem_laws by (simp_all add: NewRedisPersistenceStore_def)
  moreover have "storable sample_keys (sample_conversation ''a'' ''u'')" using sample_encodable by (simp add: storable_def)
  moreover have "\<not> has_prefix (c_ID (sample_conversation ''a'' ''u'')) ''user:''" "c_UserID (sample_conversation ''a'' ''u'') = ''u''"
    by (simp_all add: sample_conversation_def has_prefix_def)
  ultimately show ?thesis
    using redis_zero_expiration_loses_index [of ?st mem_view "\<lambda>_. True" Map.empty sample_keys "sample_conversation ''a'' ''u''"] by auto
qed

end
