(* ===== verification/DatabaseState.thy ===== *)
theory DatabaseState
  imports RedisStore PostgresStore Printing
begin

text \<open>
  \<^verbatim>\<open>internal/statemanager/manager.go\<close>: conversations and messages in a database, with a map in
  the process and Redis as caches in front of it. The gorm handle is a parameter, a record of
  the calls used over a state \<open>'d\<close> of the database; the Redis client is that of \<open>RedisStore\<close>
  over a state \<open>'r\<close>. The cause that an error wraps is left out. A conversation is never changed
  through the pointers that the cache hands out, so the cache holds values.
\<close>

section \<open>The database\<close>

record 'd gorm_tables =
  gt_CreateConversation :: "Conversation \<Rightarrow> 'd \<Rightarrow> gorm_error option \<times> 'd"
  gt_FirstConversation :: "string \<Rightarrow> 'd \<Rightarrow> (gorm_error + Conversation) \<times> 'd"
  gt_UpdatesConversation :: "string \<Rightarrow> metadata \<Rightarrow> 'd \<Rightarrow> gorm_error option \<times> 'd"
  gt_DeleteConversation :: "string \<Rightarrow> 'd \<Rightarrow> gorm_error option \<times> 'd"
  gt_ConversationsOfUser :: "string \<Rightarrow> int \<Rightarrow> 'd \<Rightarrow> (gorm_error + Conversation list) \<times> 'd"
  gt_ConversationsOfStatus :: "string \<Rightarrow> int \<Rightarrow> 'd \<Rightarrow> (gorm_error + Conversation list) \<times> 'd"
  gt_CreateMessage :: "message \<Rightarrow> 'd \<Rightarrow> gorm_error option \<times> 'd"
  gt_SaveMessage :: "message \<Rightarrow> 'd \<Rightarrow> gorm_error option \<times> 'd"
  gt_MessagesOf :: "string \<Rightarrow> int \<Rightarrow> 'd \<Rightarrow> (gorm_error + message list) \<times> 'd"

section \<open>The manager\<close>

record ('d, 'r) DbStateManager =
  dsm_db :: "'d gorm_tables"
  dsm_redis :: "'r redis_client option"
  dsm_cache :: "string \<Rightarrow> Conversation option"

definition NewDbStateManager :: "'d gorm_tables \<Rightarrow> 'r redis_client option \<Rightarrow> ('d, 'r) DbStateManager" where
  "NewDbStateManager db redisClient = \<lparr>dsm_db = db, dsm_redis = redisClient, dsm_cache = Map.empty\<rparr>"

datatype StateError =
    ConversationMissing string
  | CreateConversationFailed
  | GetConversationFailed
  | UpdateConversationFailed
  | AddMessageFailed
  | GetMessagesFailed
  | GetUserConversationsFailed
  | GetActiveConversationsFailed
  | DeleteConversationFailed
  | UpdateMessageFailed

datatype CacheError = RedisNotConfigured | CodecFailure | RedisError redis_error

text \<open>The clock, counted from the first of January 1970.\<close>

definition UnixNano :: "go_time \<Rightarrow> int" where
  "UnixNano t = wrap64 (t - 62135596800 * second)"

definition generateConversationID :: "go_time \<Rightarrow> string" where
  "generateConversationID now = ''conv_'' @ sprint_int (UnixNano now)"

subsection \<open>The caches\<close>

definition dsm_cacheConversation :: "Conversation \<Rightarrow> ('d, 'r) DbStateManager \<Rightarrow> ('d, 'r) DbStateManager" where
  "dsm_cacheConversation conversation sm = sm\<lparr>dsm_cache := (dsm_cache sm)(c_ID conversation \<mapsto> conversation)\<rparr>"

definition dsm_invalidateCache :: "string \<Rightarrow> ('d, 'r) DbStateManager \<Rightarrow> ('d, 'r) DbStateManager" where
  "dsm_invalidateCache conversationID sm = sm\<lparr>dsm_cache := (dsm_cache sm)(conversationID := None)\<rparr>"

definition conversation_key :: "string \<Rightarrow> string" where
  "conversation_key conversationID = ''conversation:'' @ conversationID"

definition dsm_cacheToRedis ::
    "key_order \<Rightarrow> Conversation \<Rightarrow> ('d, 'r) DbStateManager \<Rightarrow> 'r \<Rightarrow> CacheError option \<times> 'r" where
  "dsm_cacheToRedis keys conversation sm r =
     (case dsm_redis sm of
        None \<Rightarrow> (None, r)
      | Some client \<Rightarrow>
          (case json_of_conversation keys conversation of
             None \<Rightarrow> (Some CodecFailure, r)
           | Some data \<Rightarrow>
               (case rd_Set client (conversation_key (c_ID conversation)) data (24 * hour) r of
                  (err, r1) \<Rightarrow> (map_option RedisError err, r1))))"

definition dsm_getFromRedis :: "string \<Rightarrow> ('d, 'r) DbStateManager \<Rightarrow> 'r \<Rightarrow> (CacheError + Conversation) \<times> 'r" where
  "dsm_getFromRedis conversationID sm r =
     (case dsm_redis sm of
        None \<Rightarrow> (Inl RedisNotConfigured, r)
      | Some client \<Rightarrow>
          (case rd_Get client (conversation_key conversationID) r of
             (Inl err, r1) \<Rightarrow> (Inl (RedisError err), r1)
           | (Inr data, r1) \<Rightarrow>
               (case conversation_of_json data of
                  None \<Rightarrow> (Inl CodecFailure, r1)
                | Some conversation \<Rightarrow> (Inr conversation, r1))))"

definition dsm_invalidateRedis :: "string \<Rightarrow> ('d, 'r) DbStateManager \<Rightarrow> 'r \<Rightarrow> CacheError option \<times> 'r" where
  "dsm_invalidateRedis conversationID sm r =
     (case dsm_redis sm of
        None \<Rightarrow> (None, r)
      | Some client \<Rightarrow>
          (case rd_Del client (conversation_key conversationID) r of
             (err, r1) \<Rightarrow> (map_option RedisError err, r1)))"

text \<open>Both caches at once; the errors of Redis are dropped.\<close>

type_synonym ('d, 'r) dsm_state = "('d, 'r) DbStateManager \<times> 'd \<times> 'r"

definition dsm_remember :: "key_order \<Rightarrow> Conversation \<Rightarrow> ('d, 'r) dsm_state \<Rightarrow> ('d, 'r) dsm_state" where
  "dsm_remember keys conversation state =
     (case state of (sm, d, r) \<Rightarrow>
        (dsm_cacheConversation conversation sm, d, snd (dsm_cacheToRedis keys conversation sm r)))"

definition dsm_invalidate :: "string \<Rightarrow> ('d, 'r) dsm_state \<Rightarrow> ('d, 'r) dsm_state" where
  "dsm_invalidate conversationID state =
     (case state of (sm, d, r) \<Rightarrow>
        (dsm_invalidateCache conversationID sm, d, snd (dsm_invalidateRedis conversationID sm r)))"

subsection \<open>The operations\<close>

definition dsm_new_conversation :: "(nat \<Rightarrow> go_time) \<Rightarrow> string \<Rightarrow> string \<Rightarrow> Priority \<Rightarrow> Conversation" where
  "dsm_new_conversation nows userID title priority =
     \<lparr>c_ID = generateConversationID (nows 0), c_UserID = userID, c_Title = title, c_Context = '''',
      c_Status = ''active'', c_State = '''', c_Priority = priority, c_MessageCount = 0, c_LastActivity = nows 1,
      c_LastActiveTime = zero_time, c_CreatedAt = nows 2, c_UpdatedAt = nows 3, c_CompletedAt = zero_time,
      c_Messages = [], c_Metadata = Some Map.empty\<rparr>"

definition dsm_CreateConversation ::
    "key_order \<Rightarrow> (nat \<Rightarrow> go_time) \<Rightarrow> string \<Rightarrow> string \<Rightarrow> Priority \<Rightarrow> ('d, 'r) dsm_state
     \<Rightarrow> (StateError + Conversation) \<times> ('d, 'r) dsm_state" where
  "dsm_CreateConversation keys nows userID title priority state =
     (case state of (sm, d, r) \<Rightarrow>
        let conversation = dsm_new_conversation nows userID title priority
        in case gt_CreateConversation (dsm_db sm) conversation d of
             (Some _, d1) \<Rightarrow> (Inl CreateConversationFailed, sm, d1, r)
           | (None, d1) \<Rightarrow> (Inr conversation, dsm_remember keys conversation (sm, d1, r)))"

definition dsm_GetConversation ::
    "key_order \<Rightarrow> string \<Rightarrow> ('d, 'r) dsm_state \<Rightarrow> (StateError + Conversation) \<times> ('d, 'r) dsm_state" where
  "dsm_GetConversation keys conversationID state =
     (case state of (sm, d, r) \<Rightarrow>
        case dsm_cache sm conversationID of
          Some cached \<Rightarrow> (Inr cached, sm, d, r)
        | None \<Rightarrow>
            (case dsm_getFromRedis conversationID sm r of
               (Inr conversation, r1) \<Rightarrow> (Inr conversation, dsm_cacheConversation conversation sm, d, r1)
             | (Inl _, r1) \<Rightarrow>
                 (case gt_FirstConversation (dsm_db sm) conversationID d of
                    (Inl ErrRecordNotFound, d1) \<Rightarrow> (Inl (ConversationMissing conversationID), sm, d1, r1)
                  | (Inl GormFailure, d1) \<Rightarrow> (Inl GetConversationFailed, sm, d1, r1)
                  | (Inr conversationDB, d1) \<Rightarrow> (Inr conversationDB, dsm_remember keys conversationDB (sm, d1, r1)))))"

definition dsm_UpdateConversation ::
    "string \<Rightarrow> metadata \<Rightarrow> ('d, 'r) dsm_state \<Rightarrow> StateError option \<times> ('d, 'r) dsm_state" where
  "dsm_UpdateConversation conversationID updates state =
     (case state of (sm, d, r) \<Rightarrow>
        case gt_UpdatesConversation (dsm_db sm) conversationID updates d of
          (Some _, d1) \<Rightarrow> (Some UpdateConversationFailed, sm, d1, r)
        | (None, d1) \<Rightarrow> (None, dsm_invalidate conversationID (sm, d1, r)))"

definition add_updates :: "(nat \<Rightarrow> go_time) \<Rightarrow> Conversation \<Rightarrow> message \<Rightarrow> metadata" where
  "add_updates nows conversation m =
     (let updates = [''message_count'' \<mapsto> AInt (wrap64 (c_MessageCount conversation + 1)),
                     ''last_activity'' \<mapsto> ATime (nows 0), ''updated_at'' \<mapsto> ATime (nows 1)]
      in if m_Status m = StatusCompleted
         then updates(''context'' \<mapsto> AString (c_Context conversation @ [CHR 0x0A] @ m_Content m)) else updates)"

text \<open>What follows once the conversation has been read: another operation can come between.\<close>

definition dsm_add_to ::
    "(nat \<Rightarrow> go_time) \<Rightarrow> string \<Rightarrow> Conversation \<Rightarrow> message \<Rightarrow> ('d, 'r) dsm_state \<Rightarrow> StateError option \<times> ('d, 'r) dsm_state" where
  "dsm_add_to nows conversationID conversation m state =
     (case state of (sm, d, r) \<Rightarrow>
        let m1 = m\<lparr>m_ConversationID := conversationID\<rparr>
        in case gt_CreateMessage (dsm_db sm) m1 d of
             (Some _, d1) \<Rightarrow> (Some AddMessageFailed, sm, d1, r)
           | (None, d1) \<Rightarrow> dsm_UpdateConversation conversationID (add_updates nows conversation m1) (sm, d1, r))"

definition dsm_AddMessage ::
    "key_order \<Rightarrow> (nat \<Rightarrow> go_time) \<Rightarrow> string \<Rightarrow> message \<Rightarrow> ('d, 'r) dsm_state \<Rightarrow> StateError option \<times> ('d, 'r) dsm_state" where
  "dsm_AddMessage keys nows conversationID m state =
     (case dsm_GetConversation keys conversationID state of
        (Inl err, state1) \<Rightarrow> (Some err, state1)
      | (Inr conversation, state1) \<Rightarrow> dsm_add_to nows conversationID conversation m state1)"

definition dsm_ArchiveConversation ::
    "go_time \<Rightarrow> string \<Rightarrow> ('d, 'r) dsm_state \<Rightarrow> StateError option \<times> ('d, 'r) dsm_state" where
  "dsm_ArchiveConversation now conversationID =
     dsm_UpdateConversation conversationID [''status'' \<mapsto> AString ''archived'', ''updated_at'' \<mapsto> ATime now]"

definition dsm_UpdateConversationPriority ::
    "go_time \<Rightarrow> string \<Rightarrow> Priority \<Rightarrow> ('d, 'r) dsm_state \<Rightarrow> StateError option \<times> ('d, 'r) dsm_state" where
  "dsm_UpdateConversationPriority now conversationID priority =
     dsm_UpdateConversation conversationID [''priority'' \<mapsto> AInt priority, ''updated_at'' \<mapsto> ATime now]"

definition dsm_DeleteConversation :: "string \<Rightarrow> ('d, 'r) dsm_state \<Rightarrow> StateError option \<times> ('d, 'r) dsm_state" where
  "dsm_DeleteConversation conversationID state =
     (case state of (sm, d, r) \<Rightarrow>
        case gt_DeleteConversation (dsm_db sm) conversationID d of
          (Some _, d1) \<Rightarrow> (Some DeleteConversationFailed, sm, d1, r)
        | (None, d1) \<Rightarrow> (None, dsm_invalidate conversationID (sm, d1, r)))"

definition dsm_GetConversationContext ::
    "key_order \<Rightarrow> string \<Rightarrow> ('d, 'r) dsm_state \<Rightarrow> (StateError + string) \<times> ('d, 'r) dsm_state" where
  "dsm_GetConversationContext keys conversationID state =
     (case dsm_GetConversation keys conversationID state of
        (Inl err, state1) \<Rightarrow> (Inl err, state1)
      | (Inr conversation, state1) \<Rightarrow> (Inr (c_Context conversation), state1))"

definition dsm_GetConversationMessages ::
    "string \<Rightarrow> int \<Rightarrow> ('d, 'r) dsm_state \<Rightarrow> (StateError + message list) \<times> ('d, 'r) dsm_state" where
  "dsm_GetConversationMessages conversationID limit state =
     (case state of (sm, d, r) \<Rightarrow>
        case gt_MessagesOf (dsm_db sm) conversationID limit d of
          (Inl _, d1) \<Rightarrow> (Inl GetMessagesFailed, sm, d1, r)
        | (Inr messages, d1) \<Rightarrow> (Inr messages, sm, d1, r))"

definition dsm_GetUserConversations ::
    "string \<Rightarrow> int \<Rightarrow> ('d, 'r) dsm_state \<Rightarrow> (StateError + Conversation list) \<times> ('d, 'r) dsm_state" where
  "dsm_GetUserConversations userID limit state =
     (case state of (sm, d, r) \<Rightarrow>
        case gt_ConversationsOfUser (dsm_db sm) userID limit d of
          (Inl _, d1) \<Rightarrow> (Inl GetUserConversationsFailed, sm, d1, r)
        | (Inr conversations, d1) \<Rightarrow> (Inr conversations, sm, d1, r))"

definition dsm_GetActiveConversations ::
    "int \<Rightarrow> ('d, 'r) dsm_state \<Rightarrow> (StateError + Conversation list) \<times> ('d, 'r) dsm_state" where
  "dsm_GetActiveConversations limit state =
     (case state of (sm, d, r) \<Rightarrow>
        case gt_ConversationsOfStatus (dsm_db sm) ''active'' limit d of
          (Inl _, d1) \<Rightarrow> (Inl GetActiveConversationsFailed, sm, d1, r)
        | (Inr conversations, d1) \<Rightarrow> (Inr conversations, sm, d1, r))"

definition dsm_UpdateMessage :: "message \<Rightarrow> ('d, 'r) dsm_state \<Rightarrow> StateError option \<times> ('d, 'r) dsm_state" where
  "dsm_UpdateMessage m state =
     (case state of (sm, d, r) \<Rightarrow>
        case gt_SaveMessage (dsm_db sm) m d of
          (Some _, d1) \<Rightarrow> (Some UpdateMessageFailed, sm, d1, r)
        | (None, d1) \<Rightarrow> (None, sm, d1, r))"

section \<open>What gorm and the database are documented to do\<close>

text \<open>
  The two tables by primary key, whether the database answers, how it rounds times, and which
  conversations and messages its columns take. A row keeps no messages of a conversation
  (\<^verbatim>\<open>gorm:"-"\<close>) and its metadata as JSON.
\<close>

record 'd tables =
  tb_convs :: "'d \<Rightarrow> string \<Rightarrow> Conversation option"
  tb_msgs :: "'d \<Rightarrow> string \<Rightarrow> message option"
  tb_up :: "'d \<Rightarrow> bool"
  tb_round :: "go_time \<Rightarrow> go_time"
  tb_takes :: "Conversation \<Rightarrow> bool"
  tb_takes_msg :: "message \<Rightarrow> bool"

definition conv_row :: "(go_time \<Rightarrow> go_time) \<Rightarrow> Conversation \<Rightarrow> Conversation" where
  "conv_row rnd c =
     c\<lparr>c_LastActivity := rnd (c_LastActivity c), c_LastActiveTime := rnd (c_LastActiveTime c),
       c_CreatedAt := rnd (c_CreatedAt c), c_UpdatedAt := rnd (c_UpdatedAt c), c_CompletedAt := rnd (c_CompletedAt c),
       c_Messages := [], c_Metadata := norm_metadata (c_Metadata c)\<rparr>"

definition msg_row :: "(go_time \<Rightarrow> go_time) \<Rightarrow> message \<Rightarrow> message" where
  "msg_row rnd m =
     m\<lparr>m_CreatedAt := rnd (m_CreatedAt m), m_UpdatedAt := rnd (m_UpdatedAt m),
       m_ScheduledAt := map_option rnd (m_ScheduledAt m), m_CompletedAt := map_option rnd (m_CompletedAt m),
       m_Metadata := norm_metadata (m_Metadata m)\<rparr>"

text \<open>gorm fills in the times of creation and update that are zero; a save always sets the latter.\<close>

definition msg_filled :: "message \<Rightarrow> message \<Rightarrow> bool" where
  "msg_filled m m' \<longleftrightarrow> m' = m\<lparr>m_CreatedAt := m_CreatedAt m', m_UpdatedAt := m_UpdatedAt m'\<rparr> \<and>
     (m_CreatedAt m \<noteq> zero_time \<longrightarrow> m_CreatedAt m' = m_CreatedAt m)"

text \<open>The columns that are updated in this program.\<close>

definition col_int :: "metadata \<Rightarrow> string \<Rightarrow> int \<Rightarrow> int" where
  "col_int u k x = (case u k of Some (AInt i) \<Rightarrow> i | _ \<Rightarrow> x)"

definition col_text :: "metadata \<Rightarrow> string \<Rightarrow> string \<Rightarrow> string" where
  "col_text u k x = (case u k of Some (AString s) \<Rightarrow> s | _ \<Rightarrow> x)"

definition col_time :: "metadata \<Rightarrow> string \<Rightarrow> go_time \<Rightarrow> go_time" where
  "col_time u k x = (case u k of Some (ATime t) \<Rightarrow> t | _ \<Rightarrow> x)"

definition apply_updates :: "metadata \<Rightarrow> Conversation \<Rightarrow> Conversation" where
  "apply_updates u c =
     c\<lparr>c_MessageCount := col_int u ''message_count'' (c_MessageCount c), c_Priority := col_int u ''priority'' (c_Priority c),
       c_Context := col_text u ''context'' (c_Context c), c_Status := col_text u ''status'' (c_Status c),
       c_LastActivity := col_time u ''last_activity'' (c_LastActivity c),
       c_UpdatedAt := col_time u ''updated_at'' (c_UpdatedAt c)\<rparr>"

definition known_updates :: "metadata \<Rightarrow> bool" where
  "known_updates u \<longleftrightarrow>
     (\<forall>k v. u k = Some v \<longrightarrow>
        k \<in> {''message_count'', ''priority''} \<and> (\<exists>i. v = AInt i \<and> in_int64 i) \<or>
        k \<in> {''context'', ''status''} \<and> (\<exists>s. v = AString s) \<or>
        k \<in> {''last_activity'', ''updated_at''} \<and> (\<exists>t. v = ATime t)) \<and>
     u ''updated_at'' \<noteq> None"

text \<open>
  A call that succeeds has its effect, one that fails may have it or none; a database that
  answers does what it can take (\<open>ok\<close>).
\<close>

definition same_tables :: "'d tables \<Rightarrow> 'd \<Rightarrow> 'd \<Rightarrow> bool" where
  "same_tables T d d' \<longleftrightarrow> tb_convs T d' = tb_convs T d \<and> tb_msgs T d' = tb_msgs T d"

definition table_write :: "'d tables \<Rightarrow> 'd \<Rightarrow> gorm_error option \<times> 'd \<Rightarrow> bool \<Rightarrow> ('d \<Rightarrow> bool) \<Rightarrow> bool" where
  "table_write T d res ok effect \<longleftrightarrow>
     (effect (snd res) \<or> fst res \<noteq> None \<and> same_tables T d (snd res)) \<and>
     (tb_up T d \<longrightarrow> tb_up T (snd res) \<and> (ok \<longrightarrow> fst res = None) \<and> (fst res \<noteq> None \<longrightarrow> same_tables T d (snd res)))"

definition table_first :: "'d tables \<Rightarrow> string \<Rightarrow> 'd \<Rightarrow> (gorm_error + Conversation) \<times> 'd \<Rightarrow> bool" where
  "table_first T i d res \<longleftrightarrow>
     same_tables T d (snd res) \<and> (\<forall>c. fst res = Inr c \<longrightarrow> tb_convs T d i = Some c) \<and>
     (fst res = Inl ErrRecordNotFound \<longrightarrow> tb_convs T d i = None) \<and>
     (tb_up T d \<longrightarrow> tb_up T (snd res) \<and> (\<exists>c. fst res = Inr c \<or> fst res = Inl ErrRecordNotFound))"

text \<open>The rows of a condition, those with the latest time first, at most as many as the limit.\<close>

definition latest_first :: "int \<Rightarrow> ('a \<Rightarrow> go_time) \<Rightarrow> 'a set \<Rightarrow> 'a list \<Rightarrow> bool" where
  "latest_first limit time rows xs \<longleftrightarrow>
     (\<exists>all. set all = rows \<and> distinct all \<and> sorted_wrt (\<lambda>x y. time x \<ge> time y) all \<and>
        xs = (if limit < 0 then all else take (nat limit) all))"

definition table_find ::
    "'d tables \<Rightarrow> int \<Rightarrow> ('a \<Rightarrow> go_time) \<Rightarrow> 'a set \<Rightarrow> 'd \<Rightarrow> (gorm_error + 'a list) \<times> 'd \<Rightarrow> bool" where
  "table_find T limit time rows d res \<longleftrightarrow>
     same_tables T d (snd res) \<and> (\<forall>xs. fst res = Inr xs \<longrightarrow> latest_first limit time rows xs) \<and>
     (tb_up T d \<longrightarrow> tb_up T (snd res) \<and> (\<exists>xs. fst res = Inr xs))"

definition convs_law :: "'d gorm_tables \<Rightarrow> 'd tables \<Rightarrow> 'd \<Rightarrow> bool" where
  "convs_law G T d \<longleftrightarrow>
     (\<forall>c. c_CreatedAt c \<noteq> zero_time \<and> c_UpdatedAt c \<noteq> zero_time \<longrightarrow>
        table_write T d (gt_CreateConversation G c d) (tb_convs T d (c_ID c) = None \<and> tb_takes T c)
          (\<lambda>d'. tb_convs T d (c_ID c) = None \<and> tb_msgs T d' = tb_msgs T d \<and>
             tb_convs T d' = (tb_convs T d)(c_ID c \<mapsto> conv_row (tb_round T) c))) \<and>
     (\<forall>i. table_first T i d (gt_FirstConversation G i d)) \<and>
     (\<forall>i u. known_updates u \<longrightarrow>
        table_write T d (gt_UpdatesConversation G i u d) (\<forall>c. tb_convs T d i = Some c \<longrightarrow> tb_takes T (apply_updates u c))
          (\<lambda>d'. tb_msgs T d' = tb_msgs T d \<and>
             tb_convs T d' = (tb_convs T d)(i := map_option (\<lambda>c. conv_row (tb_round T) (apply_updates u c)) (tb_convs T d i)))) \<and>
     (\<forall>i. table_write T d (gt_DeleteConversation G i d) True
        (\<lambda>d'. tb_msgs T d' = tb_msgs T d \<and> tb_convs T d' = (tb_convs T d)(i := None))) \<and>
     (\<forall>u n. table_find T n c_LastActivity {c. \<exists>i. tb_convs T d i = Some c \<and> c_UserID c = u} d (gt_ConversationsOfUser G u n d)) \<and>
     (\<forall>s n. table_find T n c_LastActivity {c. \<exists>i. tb_convs T d i = Some c \<and> c_Status c = s} d (gt_ConversationsOfStatus G s n d))"

definition msgs_law :: "'d gorm_tables \<Rightarrow> 'd tables \<Rightarrow> 'd \<Rightarrow> bool" where
  "msgs_law G T d \<longleftrightarrow>
     (\<forall>m. table_write T d (gt_CreateMessage G m d) (tb_msgs T d (m_ID m) = None \<and> tb_takes_msg T m)
        (\<lambda>d'. tb_msgs T d (m_ID m) = None \<and> tb_convs T d' = tb_convs T d \<and>
           (\<exists>m'. msg_filled m m' \<and> tb_msgs T d' = (tb_msgs T d)(m_ID m \<mapsto> msg_row (tb_round T) m')))) \<and>
     (\<forall>m. m_ID m \<noteq> '''' \<longrightarrow> table_write T d (gt_SaveMessage G m d) (tb_takes_msg T m)
        (\<lambda>d'. tb_convs T d' = tb_convs T d \<and>
           (\<exists>m'. msg_filled m m' \<and> tb_msgs T d' = (tb_msgs T d)(m_ID m \<mapsto> msg_row (tb_round T) m')))) \<and>
     (\<forall>c n. table_find T n m_CreatedAt {m. \<exists>i. tb_msgs T d i = Some m \<and> m_ConversationID m = c} d (gt_MessagesOf G c n d))"

definition state_laws :: "'d gorm_tables \<Rightarrow> 'd tables \<Rightarrow> bool" where
  "state_laws G T \<longleftrightarrow> (\<forall>t. tb_round T (tb_round T t) = tb_round T t) \<and> (\<forall>d. convs_law G T d \<and> msgs_law G T d)"

end
