(* ===== verification/StateCaches.thy ===== *)
theory StateCaches
  imports DatabaseState
begin

text \<open>
  The caches of the state manager are transparent as long as the database and Redis answer: the
  manager gives what the two tables alone would give, over any operations, restarts of the
  process and losses of keys in Redis.
\<close>

section \<open>The tables alone\<close>

datatype dsm_event =
    DCreate "nat \<Rightarrow> go_time" string string Priority
  | DGet string
  | DContext string
  | DAdd "nat \<Rightarrow> go_time" string message
  | DUpdate string metadata
  | DArchive go_time string
  | DPriority go_time string Priority
  | DDelete string
  | DRestart
  | DExpire string

datatype dsm_out =
    OConv "StateError + Conversation"
  | OText "StateError + string"
  | ODone "StateError option"
  | ONothing

fun dsm_step :: "key_order \<Rightarrow> dsm_event \<Rightarrow> ('d, 'r) dsm_state \<Rightarrow> dsm_out \<times> ('d, 'r) dsm_state" where
  "dsm_step keys (DCreate nows u t p) st = map_prod OConv id (dsm_CreateConversation keys nows u t p st)"
| "dsm_step keys (DGet i) st = map_prod OConv id (dsm_GetConversation keys i st)"
| "dsm_step keys (DContext i) st = map_prod OText id (dsm_GetConversationContext keys i st)"
| "dsm_step keys (DAdd nows i m) st = map_prod ODone id (dsm_AddMessage keys nows i m st)"
| "dsm_step keys (DUpdate i u) st = map_prod ODone id (dsm_UpdateConversation i u st)"
| "dsm_step keys (DArchive now i) st = map_prod ODone id (dsm_ArchiveConversation now i st)"
| "dsm_step keys (DPriority now i p) st = map_prod ODone id (dsm_UpdateConversationPriority now i p st)"
| "dsm_step keys (DDelete i) st = map_prod ODone id (dsm_DeleteConversation i st)"
| "dsm_step keys DRestart (sm, d, r) = (ONothing, NewDbStateManager (dsm_db sm) (dsm_redis sm), d, r)"
| "dsm_step keys (DExpire k) (sm, d, r) =
     (ONothing, sm, d, case dsm_redis sm of None \<Rightarrow> r | Some client \<Rightarrow> snd (rd_Del client k r))"

fun dsm_run :: "key_order \<Rightarrow> dsm_event list \<Rightarrow> ('d, 'r) dsm_state \<Rightarrow> dsm_out list \<times> ('d, 'r) dsm_state" where
  "dsm_run keys [] st = ([], st)"
| "dsm_run keys (e # es) st =
     (case dsm_step keys e st of (x, st1) \<Rightarrow> (case dsm_run keys es st1 of (xs, st2) \<Rightarrow> (x # xs, st2)))"

text \<open>The rows of the conversations, and to which conversation each message belongs.\<close>

type_synonym bare = "(string \<Rightarrow> Conversation option) \<times> (string \<Rightarrow> string option)"

definition bare_update :: "(go_time \<Rightarrow> go_time) \<Rightarrow> string \<Rightarrow> metadata \<Rightarrow> bare \<Rightarrow> bare" where
  "bare_update rnd i u b = ((fst b)(i := map_option (\<lambda>c. conv_row rnd (apply_updates u c)) (fst b i)), snd b)"

definition bare_get :: "string \<Rightarrow> bare \<Rightarrow> StateError + Conversation" where
  "bare_get i b = (case fst b i of None \<Rightarrow> Inl (ConversationMissing i) | Some c \<Rightarrow> Inr c)"

definition archive_updates :: "go_time \<Rightarrow> metadata" where
  "archive_updates now = [''status'' \<mapsto> AString ''archived'', ''updated_at'' \<mapsto> ATime now]"

definition priority_updates :: "go_time \<Rightarrow> Priority \<Rightarrow> metadata" where
  "priority_updates now p = [''priority'' \<mapsto> AInt p, ''updated_at'' \<mapsto> ATime now]"

fun bare_step :: "(go_time \<Rightarrow> go_time) \<Rightarrow> dsm_event \<Rightarrow> bare \<Rightarrow> dsm_out \<times> bare" where
  "bare_step rnd (DCreate nows u t p) b =
     (let c = dsm_new_conversation nows u t p
      in if fst b (c_ID c) \<noteq> None then (OConv (Inl CreateConversationFailed), b)
         else (OConv (Inr (conv_row rnd c)), (fst b)(c_ID c \<mapsto> conv_row rnd c), snd b))"
| "bare_step rnd (DGet i) b = (OConv (bare_get i b), b)"
| "bare_step rnd (DContext i) b = (OText (map_sum id c_Context (bare_get i b)), b)"
| "bare_step rnd (DAdd nows i m) b =
     (case bare_get i b of
        Inl err \<Rightarrow> (ODone (Some err), b)
      | Inr c \<Rightarrow>
          if snd b (m_ID m) \<noteq> None then (ODone (Some AddMessageFailed), b)
          else (ODone None, bare_update rnd i (add_updates nows c (m\<lparr>m_ConversationID := i\<rparr>)) (fst b, (snd b)(m_ID m \<mapsto> i))))"
| "bare_step rnd (DUpdate i u) b = (ODone None, bare_update rnd i u b)"
| "bare_step rnd (DArchive now i) b = (ODone None, bare_update rnd i (archive_updates now) b)"
| "bare_step rnd (DPriority now i p) b = (ODone None, bare_update rnd i (priority_updates now p) b)"
| "bare_step rnd (DDelete i) b = (ODone None, (fst b)(i := None), snd b)"
| "bare_step rnd DRestart b = (ONothing, b)"
| "bare_step rnd (DExpire k) b = (ONothing, b)"

fun bare_run :: "(go_time \<Rightarrow> go_time) \<Rightarrow> dsm_event list \<Rightarrow> bare \<Rightarrow> dsm_out list \<times> bare" where
  "bare_run rnd [] b = ([], b)"
| "bare_run rnd (e # es) b =
     (case bare_step rnd e b of (x, b1) \<Rightarrow> (case bare_run rnd es b1 of (xs, b2) \<Rightarrow> (x # xs, b2)))"

text \<open>What comes from a cache has times that are not rounded yet.\<close>

fun out_row :: "(go_time \<Rightarrow> go_time) \<Rightarrow> dsm_out \<Rightarrow> dsm_out" where
  "out_row rnd (OConv x) = OConv (map_sum id (conv_row rnd) x)"
| "out_row rnd out = out"

text \<open>The database takes what the events write.\<close>

definition update_ok :: "'d tables \<Rightarrow> string \<Rightarrow> metadata \<Rightarrow> bare \<Rightarrow> bool" where
  "update_ok T i u b \<longleftrightarrow>
     known_updates u \<and> (case fst b i of None \<Rightarrow> True | Some c \<Rightarrow> tb_takes T (apply_updates u c))"

fun event_takes :: "'d tables \<Rightarrow> dsm_event \<Rightarrow> bare \<Rightarrow> bool" where
  "event_takes T (DCreate nows u t p) b \<longleftrightarrow>
     nows 2 \<noteq> zero_time \<and> nows 3 \<noteq> zero_time \<and> in_int64 p \<and> tb_takes T (dsm_new_conversation nows u t p)"
| "event_takes T (DAdd nows i m) b \<longleftrightarrow> tb_takes_msg T (m\<lparr>m_ConversationID := i\<rparr>) \<and>
     (case fst b i of None \<Rightarrow> True
      | Some c \<Rightarrow> tb_takes T (apply_updates (add_updates nows c (m\<lparr>m_ConversationID := i\<rparr>)) c))"
| "event_takes T (DUpdate i u) b \<longleftrightarrow> update_ok T i u b"
| "event_takes T (DArchive now i) b \<longleftrightarrow> update_ok T i (archive_updates now) b"
| "event_takes T (DPriority now i p) b \<longleftrightarrow> update_ok T i (priority_updates now p) b"
| "event_takes T _ b \<longleftrightarrow> True"

fun run_takes :: "'d tables \<Rightarrow> dsm_event list \<Rightarrow> bare \<Rightarrow> bool" where
  "run_takes T [] b \<longleftrightarrow> True"
| "run_takes T (e # es) b \<longleftrightarrow> event_takes T e b \<and> run_takes T es (snd (bare_step (tb_round T) e b))"

section \<open>Rows and cached conversations\<close>

definition fine :: "Conversation \<Rightarrow> bool" where
  "fine c \<longleftrightarrow> in_int64 (c_Priority c) \<and> in_int64 (c_MessageCount c) \<and> c_Messages c = [] \<and>
     (case c_Metadata c of None \<Rightarrow> True | Some m \<Rightarrow> finite (dom m))"

definition sorts_keys :: "key_order \<Rightarrow> bool" where
  "sorts_keys keys \<longleftrightarrow> (\<forall>m. finite (dom m) \<longrightarrow> set (keys m) = dom m)"

lemma finite_norm_metadata:
  "(case norm_metadata md of None \<Rightarrow> True | Some m \<Rightarrow> finite (dom m)) \<longleftrightarrow> (case md of None \<Rightarrow> True | Some m \<Rightarrow> finite (dom m))"
proof (cases md)
  case (Some m)
  have "dom (\<lambda>k. map_option norm_any (m k)) = dom m" by auto
  then show ?thesis using Some by (simp add: norm_metadata_def)
qed (simp add: norm_metadata_def)

lemma fine_row [simp]: "fine c \<Longrightarrow> fine (conv_row rnd c)"
  by (simp add: fine_def conv_row_def finite_norm_metadata)

lemma fine_norm [simp]: "fine c \<Longrightarrow> fine (norm_conversation c)"
  by (simp add: fine_def norm_conversation_def finite_norm_metadata)

lemma row_simps [simp]:
  "c_ID (conv_row rnd c) = c_ID c" "c_MessageCount (conv_row rnd c) = c_MessageCount c"
  "c_Context (conv_row rnd c) = c_Context c" "conv_row rnd (norm_conversation c) = conv_row rnd c"
  by (simp_all add: conv_row_def norm_conversation_def)

lemma fine_ok: "sorts_keys keys \<Longrightarrow> fine c \<Longrightarrow> conversation_ok keys c"
  by (auto simp: sorts_keys_def fine_def conversation_ok_def keys_ok_def split: option.splits)

lemma col_int_ok: "known_updates u \<Longrightarrow> in_int64 x \<Longrightarrow> in_int64 (col_int u k x)"
  by (fastforce simp: known_updates_def col_int_def split: option.split any.split)

lemma fine_updates: "known_updates u \<Longrightarrow> fine c \<Longrightarrow> fine (apply_updates u c)"
  using col_int_ok [of u "c_Priority c"] col_int_ok [of u "c_MessageCount c"]
  by (simp add: fine_def apply_updates_def)

lemma apply_updates_ID [simp]: "c_ID (apply_updates u c) = c_ID c"
  by (simp add: apply_updates_def)

lemma known_add [simp]: "known_updates (add_updates nows c m)"
  by (simp add: known_updates_def add_updates_def Let_def)

lemma add_updates_cong:
  "c_MessageCount c' = c_MessageCount c \<Longrightarrow> c_Context c' = c_Context c \<Longrightarrow> add_updates nows c' m = add_updates nows c m"
  by (simp add: add_updates_def Let_def)

section \<open>The caches hold rows\<close>

definition cached_ok :: "'d tables \<Rightarrow> (string \<Rightarrow> Conversation option) \<Rightarrow> string \<Rightarrow> Conversation \<Rightarrow> bool" where
  "cached_ok T rows i c \<longleftrightarrow> c_ID c = i \<and> fine c \<and> rows i = Some (conv_row (tb_round T) c)"

definition rows_ok :: "'d tables \<Rightarrow> (string \<Rightarrow> Conversation option) \<Rightarrow> bool" where
  "rows_ok T rows \<longleftrightarrow> (\<forall>i c. rows i = Some c \<longrightarrow> c_ID c = i \<and> fine c \<and> conv_row (tb_round T) c = c)"

definition redis_coherent ::
    "'d tables \<Rightarrow> ('r \<Rightarrow> redis_view) \<Rightarrow> ('r \<Rightarrow> bool) \<Rightarrow> 'r redis_client option \<Rightarrow> (string \<Rightarrow> Conversation option) \<Rightarrow> 'r \<Rightarrow> bool" where
  "redis_coherent T view up redis rows r \<longleftrightarrow>
     redis \<noteq> None \<longrightarrow> up r \<and>
       (\<forall>i j. view r (conversation_key i) = Some (RString j) \<longrightarrow>
          (\<exists>c. conversation_of_json j = Some c \<and> cached_ok T rows i c))"

definition services ::
    "key_order \<Rightarrow> 'd tables \<Rightarrow> ('r \<Rightarrow> redis_view) \<Rightarrow> ('r \<Rightarrow> bool) \<Rightarrow> ('d, 'r) DbStateManager \<Rightarrow> bool" where
  "services keys T view up sm \<longleftrightarrow> sorts_keys keys \<and> state_laws (dsm_db sm) T \<and>
     (case dsm_redis sm of None \<Rightarrow> True | Some client \<Rightarrow> redis_laws client view up)"

text \<open>The tables are those of \<open>b\<close>, and the caches hold no conversation that is not in them.\<close>

definition coherent ::
    "key_order \<Rightarrow> 'd tables \<Rightarrow> ('r \<Rightarrow> redis_view) \<Rightarrow> ('r \<Rightarrow> bool) \<Rightarrow> bare \<Rightarrow> ('d, 'r) dsm_state \<Rightarrow> bool" where
  "coherent keys T view up b st \<longleftrightarrow>
     (case st of (sm, d, r) \<Rightarrow>
        services keys T view up sm \<and> tb_up T d \<and> tb_convs T d = fst b \<and>
        (\<lambda>k. map_option m_ConversationID (tb_msgs T d k)) = snd b \<and> rows_ok T (fst b) \<and>
        (\<forall>i c. dsm_cache sm i = Some c \<longrightarrow> cached_ok T (fst b) i c) \<and>
        redis_coherent T view up (dsm_redis sm) (fst b) r)"

lemma coherentD:
  assumes "coherent keys T view up b (sm, d, r)"
  shows "services keys T view up sm" "tb_up T d" "tb_convs T d = fst b"
    "(\<lambda>k. map_option m_ConversationID (tb_msgs T d k)) = snd b" "rows_ok T (fst b)"
    "dsm_cache sm i = Some c \<Longrightarrow> cached_ok T (fst b) i c" "redis_coherent T view up (dsm_redis sm) (fst b) r"
  using assms by (simp_all add: coherent_def)

lemma key_inj [simp]: "conversation_key i = conversation_key k \<longleftrightarrow> i = k"
  by (simp add: conversation_key_def)

lemma cached_ok_norm: "cached_ok T rows i c \<Longrightarrow> cached_ok T rows i (norm_conversation c)"
  by (simp add: cached_ok_def) (simp add: norm_conversation_def)

lemma row_cached: "rows_ok T rows \<Longrightarrow> rows i = Some c \<Longrightarrow> cached_ok T rows i c"
  by (simp add: rows_ok_def cached_ok_def)

text \<open>Redis: what is written is in the tables, what is read too, and a key that is deleted is gone.\<close>

lemma cacheToRedis_coherent:
  assumes "services keys T view up sm" and "redis_coherent T view up (dsm_redis sm) rows r" and "cached_ok T rows i c"
  shows "redis_coherent T view up (dsm_redis sm) rows (snd (dsm_cacheToRedis keys c sm r))"
proof (cases "dsm_redis sm")
  case None
  then show ?thesis by (simp add: redis_coherent_def)
next
  case (Some client)
  have laws: "redis_laws client view up" "sorts_keys keys" using assms(1) by (simp_all add: services_def Some)
  have up: "up r" using assms(2) by (simp add: redis_coherent_def Some)
  show ?thesis
  proof (cases "json_of_conversation keys c")
    case None
    then show ?thesis using assms(2) Some by (simp add: dsm_cacheToRedis_def)
  next
    case data: (Some data)
    have i: "c_ID c = i" using assms(3) by (simp add: cached_ok_def)
    have dec: "conversation_of_json data = Some (norm_conversation c)"
      using conversation_decodes [OF data fine_ok [OF laws(2)]] assms(3) by (simp add: cached_ok_def)
    have "up (snd (dsm_cacheToRedis keys c sm r)) \<and>
        view (snd (dsm_cacheToRedis keys c sm r)) = (view r)(conversation_key i \<mapsto> RString data)"
      using writes_up [OF redis_Set [OF laws(1)] up] by (simp add: dsm_cacheToRedis_def Some data i case_prod_beta)
    then show ?thesis
      using assms(2) cached_ok_norm [OF assms(3)] dec by (auto simp: redis_coherent_def Some)
  qed
qed

lemma getFromRedis_coherent:
  assumes "services keys T view up sm" and "redis_coherent T view up (dsm_redis sm) rows r"
    and "dsm_getFromRedis i sm r = (x, r1)"
  shows "redis_coherent T view up (dsm_redis sm) rows r1" and "x = Inr c \<Longrightarrow> cached_ok T rows i c"
proof -
  have "redis_coherent T view up (dsm_redis sm) rows r1 \<and> (x = Inr c \<longrightarrow> cached_ok T rows i c)"
  proof (cases "dsm_redis sm")
    case None
    then show ?thesis using assms(2,3) by (auto simp: dsm_getFromRedis_def)
  next
    case (Some client)
    define g where "g = rd_Get client (conversation_key i) r"
    have law: "get_law view up (conversation_key i) r g"
      unfolding g_def by (rule redis_Get) (use assms(1) Some in \<open>simp add: services_def\<close>)
    have up: "up r" using assms(2) by (simp add: redis_coherent_def Some)
    have r1: "r1 = snd g" and x: "x = (case fst g of Inl err \<Rightarrow> Inl (RedisError err)
        | Inr data \<Rightarrow> (case conversation_of_json data of None \<Rightarrow> Inl CodecFailure | Some c \<Rightarrow> Inr c))"
      using assms(3) by (cases g; auto simp: dsm_getFromRedis_def Some g_def [symmetric] split: sum.splits option.splits)+
    have same: "view r1 = view r" "up r1" using law up by (simp_all add: get_law_def r1)
    then have 1: "redis_coherent T view up (dsm_redis sm) rows r1" using assms(2) by (simp add: redis_coherent_def)
    have "cached_ok T rows i c" if xc: "x = Inr c"
    proof -
      obtain data where data: "fst g = Inr data" "conversation_of_json data = Some c"
        using xc x by (auto split: sum.splits option.splits)
      have "view r (conversation_key i) = Some (RString data)" using law data(1) by (simp add: get_law_def)
      then have "\<exists>c. conversation_of_json data = Some c \<and> cached_ok T rows i c"
        using assms(2) unfolding redis_coherent_def Some by blast
      then show ?thesis using data(2) by simp
    qed
    with 1 show ?thesis by blast
  qed
  then show "redis_coherent T view up (dsm_redis sm) rows r1" "x = Inr c \<Longrightarrow> cached_ok T rows i c" by blast+
qed

lemma invalidateRedis_coherent:
  assumes "services keys T view up sm" and "redis_coherent T view up (dsm_redis sm) rows r"
  shows "redis_coherent T view up (dsm_redis sm) (rows(i := x)) (snd (dsm_invalidateRedis i sm r))"
proof (cases "dsm_redis sm")
  case None
  then show ?thesis by (simp add: redis_coherent_def)
next
  case (Some client)
  have "up r" "redis_laws client view up" using assms by (simp_all add: redis_coherent_def services_def Some)
  from writes_up [OF redis_Del [OF this(2)] this(1)]
  have "up (snd (dsm_invalidateRedis i sm r)) \<and> view (snd (dsm_invalidateRedis i sm r)) = (view r)(conversation_key i := None)"
    by (simp add: dsm_invalidateRedis_def Some case_prod_beta)
  then show ?thesis
    using assms(2) by (auto simp: redis_coherent_def Some cached_ok_def split: if_splits)
qed

lemma remember_coherent:
  assumes "coherent keys T view up b (sm, d, r)" and "cached_ok T (fst b) i c"
  shows "coherent keys T view up b (dsm_remember keys c (sm, d, r))"
proof -
  have "c_ID c = i" using assms(2) by (simp add: cached_ok_def)
  then show ?thesis
    using assms cacheToRedis_coherent [OF coherentD(1,7) [OF assms(1)] assms(2)]
    by (simp add: coherent_def dsm_remember_def dsm_cacheConversation_def services_def)
qed

lemma invalidate_coherent:
  assumes "coherent keys T view up b (sm, d, r)" and "tb_up T d1" and "tb_convs T d1 = (fst b)(i := x)"
    and "tb_msgs T d1 = tb_msgs T d" and "\<And>c. x = Some c \<Longrightarrow> c_ID c = i \<and> fine c \<and> conv_row (tb_round T) c = c"
  shows "coherent keys T view up ((fst b)(i := x), snd b) (dsm_invalidate i (sm, d1, r))"
proof -
  have "services keys T view up sm" "tb_up T d1" "redis_coherent T view up (dsm_redis sm) ((fst b)(i := x)) (snd (dsm_invalidateRedis i sm r))"
    "rows_ok T ((fst b)(i := x))"
    using assms coherentD(1,5,7) [OF assms(1)] invalidateRedis_coherent [OF coherentD(1,7) [OF assms(1)]]
    by (auto simp: rows_ok_def)
  moreover have "cached_ok T ((fst b)(i := x)) k c" if "dsm_cache (dsm_invalidateCache i sm) k = Some c" for k c
    using coherentD(6) [OF assms(1)] that by (auto simp: dsm_invalidateCache_def cached_ok_def split: if_splits)
  moreover have "(\<lambda>k. map_option m_ConversationID (tb_msgs T d1 k)) = snd b"
    using coherentD(4) [OF assms(1)] by (simp add: assms(4))
  ultimately show ?thesis
    using assms(3) by (simp add: coherent_def dsm_invalidate_def services_def) (simp add: dsm_invalidateCache_def)
qed

section \<open>Every operation gives what the tables give\<close>

lemma state_lawsD:
  assumes "services keys T view up sm"
  shows "convs_law (dsm_db sm) T d" "msgs_law (dsm_db sm) T d" "tb_round T (tb_round T t) = tb_round T t"
  using assms by (simp_all add: services_def state_laws_def)

lemma write_up:
  assumes "table_write T d res ok effect" and "tb_up T d"
  shows "tb_up T (snd res)" and "ok \<Longrightarrow> fst res = None \<and> effect (snd res)" and "fst res = None \<Longrightarrow> effect (snd res)"
    and "fst res \<noteq> None \<Longrightarrow> same_tables T d (snd res)"
  using assms by (auto simp: table_write_def)

lemma conv_row_idem: "(\<And>t. tb_round T (tb_round T t) = tb_round T t) \<Longrightarrow>
    conv_row (tb_round T) (conv_row (tb_round T) c) = conv_row (tb_round T) c"
  by (simp add: conv_row_def)

lemma row_fine:
  assumes "services keys T view up sm" and "fine c"
  shows "fine (conv_row (tb_round T) c) \<and> conv_row (tb_round T) (conv_row (tb_round T) c) = conv_row (tb_round T) c"
  using assms(2) conv_row_idem [of T c] state_lawsD(3) [OF assms(1)] by simp

lemma coherent_tables:
  assumes "coherent keys T view up b (sm, d, r)" and "tb_up T d1" and "same_tables T d d1"
  shows "coherent keys T view up b (sm, d1, r)"
  using assms by (simp add: coherent_def same_tables_def)

lemma Get_coherent:
  assumes "coherent keys T view up b st" and "dsm_GetConversation keys i st = (x, st1)"
  shows "coherent keys T view up b st1 \<and> map_sum id (conv_row (tb_round T)) x = bare_get i b \<and>
    (\<forall>c. x = Inr c \<longrightarrow> cached_ok T (fst b) i c)"
proof -
  obtain sm d r where st: "st = (sm, d, r)" by (cases st)
  note co = assms(1) [unfolded st]
  have hit: "map_sum id (conv_row (tb_round T)) (Inr c) = bare_get i b" if "cached_ok T (fst b) i c" for c
    using that by (simp add: cached_ok_def bare_get_def)
  show ?thesis
  proof (cases "dsm_cache sm i")
    case (Some c)
    then show ?thesis using assms(2) co coherentD(6) [OF co Some] hit by (auto simp: dsm_GetConversation_def st)
  next
    case None
    obtain y r1 where y: "dsm_getFromRedis i sm r = (y, r1)" by force
    note red = getFromRedis_coherent [OF coherentD(1,7) [OF co] y]
    have co1: "coherent keys T view up b (sm, d, r1)" using co red(1) by (simp add: coherent_def)
    show ?thesis
    proof (cases y)
      case (Inr c)
      have ok: "cached_ok T (fst b) i c" using red(2) Inr by blast
      then have "coherent keys T view up b (dsm_cacheConversation c sm, d, r1)"
        using co1 by (auto simp: coherent_def dsm_cacheConversation_def services_def cached_ok_def)
      moreover have "x = Inr c" "st1 = (dsm_cacheConversation c sm, d, r1)"
        using assms(2) by (simp_all add: dsm_GetConversation_def st None y Inr)
      ultimately show ?thesis using ok hit by simp
    next
      case (Inl e)
      define f where "f = gt_FirstConversation (dsm_db sm) i d"
      have law: "table_first T i d f" using state_lawsD(1) [OF coherentD(1) [OF co]] by (simp add: f_def convs_law_def)
      have up: "tb_up T (snd f)" "same_tables T d (snd f)" using law coherentD(2) [OF co] by (simp_all add: table_first_def)
      note co2 = coherent_tables [OF co1 up]
      from law coherentD(2) [OF co] consider c where "fst f = Inr c" "fst b i = Some c"
        | "fst f = Inl ErrRecordNotFound" "fst b i = None"
        using coherentD(3) [OF co] by (auto simp: table_first_def)
      then show ?thesis
      proof cases
        case (1 c)
        have ok: "cached_ok T (fst b) i c" by (rule row_cached [OF coherentD(5) [OF co] 1(2)])
        have "x = Inr c" "st1 = dsm_remember keys c (sm, snd f, r1)"
          using assms(2) 1(1) by (cases f; simp add: dsm_GetConversation_def st None y Inl f_def [symmetric])+
        then show ?thesis using remember_coherent [OF co2 ok] ok hit by simp
      next
        case 2
        have "x = Inl (ConversationMissing i)" "st1 = (sm, snd f, r1)"
          using assms(2) 2(1) by (cases f; simp add: dsm_GetConversation_def st None y Inl f_def [symmetric])+
        then show ?thesis using co2 2(2) by (simp add: bare_get_def)
      qed
    qed
  qed
qed

lemma Update_coherent:
  assumes "coherent keys T view up b st" and "update_ok T i u b" and "dsm_UpdateConversation i u st = (x, st1)"
  shows "x = None \<and> coherent keys T view up (bare_update (tb_round T) i u b) st1"
proof -
  obtain sm d r where st: "st = (sm, d, r)" by (cases st)
  note co = assms(1) [unfolded st]
  have u: "known_updates u" "\<forall>c. tb_convs T d i = Some c \<longrightarrow> tb_takes T (apply_updates u c)"
    using assms(2) coherentD(3) [OF co] by (auto simp: update_ok_def)
  define w where "w = gt_UpdatesConversation (dsm_db sm) i u d"
  have "table_write T d w (\<forall>c. tb_convs T d i = Some c \<longrightarrow> tb_takes T (apply_updates u c))
      (\<lambda>d'. tb_msgs T d' = tb_msgs T d \<and>
         tb_convs T d' = (tb_convs T d)(i := map_option (\<lambda>c. conv_row (tb_round T) (apply_updates u c)) (tb_convs T d i)))"
    using state_lawsD(1) [OF coherentD(1) [OF co], of d] u(1) unfolding convs_law_def w_def by blast
  note w = write_up [OF this coherentD(2) [OF co]]
  have none: "fst w = None" by (rule conjunct1 [OF w(2)]) (rule u(2))
  have rows: "tb_convs T (snd w) = (fst b)(i := map_option (\<lambda>c. conv_row (tb_round T) (apply_updates u c)) (fst b i))"
    "tb_msgs T (snd w) = tb_msgs T d"
    using w(3) none coherentD(3) [OF co] by simp_all
  have row: "c_ID c = i \<and> fine c \<and> conv_row (tb_round T) c = c"
    if c: "map_option (\<lambda>c. conv_row (tb_round T) (apply_updates u c)) (fst b i) = Some c" for c
  proof -
    obtain c0 where c0: "fst b i = Some c0" "c = conv_row (tb_round T) (apply_updates u c0)" using c by auto
    then have "c_ID c0 = i" "fine c0" using coherentD(5) [OF co] by (simp_all add: rows_ok_def)
    then show ?thesis using row_fine [OF coherentD(1) [OF co] fine_updates [OF u(1)]] by (simp add: c0(2))
  qed
  have "x = None" "st1 = dsm_invalidate i (sm, snd w, r)"
    using assms(3) none by (cases w; simp add: dsm_UpdateConversation_def st w_def [symmetric])+
  then show ?thesis
    using invalidate_coherent [OF co w(1) rows row] by (simp add: bare_update_def)
qed

lemma Create_coherent:
  assumes "coherent keys T view up b st" and "event_takes T (DCreate nows u t p) b"
    and "dsm_CreateConversation keys nows u t p st = (x, st1)"
  shows "bare_step (tb_round T) (DCreate nows u t p) b = (OConv (map_sum id (conv_row (tb_round T)) x), b1) \<Longrightarrow>
    coherent keys T view up b1 st1" and "fst (bare_step (tb_round T) (DCreate nows u t p) b) = OConv (map_sum id (conv_row (tb_round T)) x)"
proof -
  obtain sm d r where st: "st = (sm, d, r)" by (cases st)
  note co = assms(1) [unfolded st]
  define c where "c = dsm_new_conversation nows u t p"
  have c: "c_CreatedAt c \<noteq> zero_time" "c_UpdatedAt c \<noteq> zero_time" "tb_takes T c" "fine c"
    using assms(2) by (simp_all add: c_def) (simp_all add: dsm_new_conversation_def fine_def in_int64_def min_int64_def max_int64_def)
  define w where "w = gt_CreateConversation (dsm_db sm) c d"
  have "table_write T d w (tb_convs T d (c_ID c) = None \<and> tb_takes T c)
      (\<lambda>d'. tb_convs T d (c_ID c) = None \<and> tb_msgs T d' = tb_msgs T d \<and>
         tb_convs T d' = (tb_convs T d)(c_ID c \<mapsto> conv_row (tb_round T) c))"
    using state_lawsD(1) [OF coherentD(1) [OF co], of d] c unfolding convs_law_def w_def by blast
  note w = write_up [OF this coherentD(2) [OF co]]
  show "fst (bare_step (tb_round T) (DCreate nows u t p) b) = OConv (map_sum id (conv_row (tb_round T)) x)"
    using assms(3) w(2,3) c(3) coherentD(3) [OF co]
    by (cases w; cases "fst b (c_ID c)"; auto simp: dsm_CreateConversation_def st c_def [symmetric] w_def [symmetric]
        Let_def split: option.splits)
  assume b1: "bare_step (tb_round T) (DCreate nows u t p) b = (OConv (map_sum id (conv_row (tb_round T)) x), b1)"
  show "coherent keys T view up b1 st1"
  proof (cases "fst w")
    case None
    then have x: "x = Inr c" "st1 = dsm_remember keys c (sm, snd w, r)"
      using assms(3) by (cases w; simp add: dsm_CreateConversation_def st Let_def c_def [symmetric] w_def [symmetric])+
    let ?rows = "(fst b)(c_ID c \<mapsto> conv_row (tb_round T) c)"
    have rows: "tb_convs T (snd w) = ?rows" "tb_msgs T (snd w) = tb_msgs T d" "fst b (c_ID c) = None"
      using w(3) None coherentD(3) [OF co] by simp_all
    have old: "cached_ok T ?rows k c'" if "cached_ok T (fst b) k c'" for k c'
      using that rows(3) by (auto simp: cached_ok_def)
    have "coherent keys T view up (?rows, snd b) (sm, snd w, r)"
      using co w(1) rows old row_fine [OF coherentD(1) [OF co] c(4)]
      by (simp add: coherent_def rows_ok_def redis_coherent_def) blast
    moreover have "cached_ok T ?rows (c_ID c) c" using c(4) by (simp add: cached_ok_def)
    ultimately have "coherent keys T view up (?rows, snd b) st1" using remember_coherent x(2) by fastforce
    then show ?thesis using b1 rows(3) by (simp add: c_def [symmetric] Let_def)
  next
    case (Some e)
    then have "x = Inl CreateConversationFailed" "st1 = (sm, snd w, r)"
      using assms(3) by (cases w; simp add: dsm_CreateConversation_def st Let_def c_def [symmetric] w_def [symmetric])+
    moreover have "b1 = b" using b1 Some w(2) c(3) coherentD(3) [OF co] by (auto simp: c_def [symmetric] Let_def split: if_splits)
    ultimately show ?thesis using coherent_tables [OF co w(1)] w(4) Some by simp
  qed
qed

lemma Delete_coherent:
  assumes "coherent keys T view up b st" and "dsm_DeleteConversation i st = (x, st1)"
  shows "x = None \<and> coherent keys T view up ((fst b)(i := None), snd b) st1"
proof -
  obtain sm d r where st: "st = (sm, d, r)" by (cases st)
  note co = assms(1) [unfolded st]
  define w where "w = gt_DeleteConversation (dsm_db sm) i d"
  have "table_write T d w True (\<lambda>d'. tb_msgs T d' = tb_msgs T d \<and> tb_convs T d' = (tb_convs T d)(i := None))"
    using state_lawsD(1) [OF coherentD(1) [OF co], of d] unfolding convs_law_def w_def by blast
  note w = write_up [OF this coherentD(2) [OF co]]
  have w2: "fst w = None" "tb_msgs T (snd w) = tb_msgs T d" "tb_convs T (snd w) = (fst b)(i := None)"
    using w(2) coherentD(3) [OF co] by simp_all
  have "x = None" "st1 = dsm_invalidate i (sm, snd w, r)"
    using assms(2) w2(1) by (cases w; simp add: dsm_DeleteConversation_def st w_def [symmetric])+
  then show ?thesis using invalidate_coherent [OF co w(1) w2(3,2)] by simp
qed

lemma add_to_coherent:
  assumes "coherent keys T view up b st" and "tb_takes_msg T (m\<lparr>m_ConversationID := i\<rparr>)"
    and "\<And>row. fst b i = Some row \<Longrightarrow> tb_takes T (apply_updates (add_updates nows c (m\<lparr>m_ConversationID := i\<rparr>)) row)"
    and "dsm_add_to nows i c m st = (x, st1)"
  shows "if snd b (m_ID m) \<noteq> None then x = Some AddMessageFailed \<and> coherent keys T view up b st1
    else x = None \<and> coherent keys T view up
      (bare_update (tb_round T) i (add_updates nows c (m\<lparr>m_ConversationID := i\<rparr>)) (fst b, (snd b)(m_ID m \<mapsto> i))) st1"
proof -
  obtain sm d r where st: "st = (sm, d, r)" by (cases st)
  note co = assms(1) [unfolded st]
  define m1 where "m1 = m\<lparr>m_ConversationID := i\<rparr>"
  have m1: "m_ID m1 = m_ID m" "m_ConversationID m1 = i" "tb_takes_msg T m1" using assms(2) by (simp_all add: m1_def)
  define w where "w = gt_CreateMessage (dsm_db sm) m1 d"
  have "table_write T d w (tb_msgs T d (m_ID m1) = None \<and> tb_takes_msg T m1)
      (\<lambda>d'. tb_msgs T d (m_ID m1) = None \<and> tb_convs T d' = tb_convs T d \<and>
         (\<exists>m'. msg_filled m1 m' \<and> tb_msgs T d' = (tb_msgs T d)(m_ID m1 \<mapsto> msg_row (tb_round T) m')))"
    using state_lawsD(2) [OF coherentD(1) [OF co], of d] unfolding msgs_law_def w_def by blast
  note w = write_up [OF this coherentD(2) [OF co]]
  have owner: "snd b (m_ID m) = map_option m_ConversationID (tb_msgs T d (m_ID m))"
    using coherentD(4) [OF co] by metis
  show ?thesis
  proof (cases "fst w")
    case (Some e)
    then have "x = Some AddMessageFailed" "st1 = (sm, snd w, r)"
      using assms(4) by (cases w; simp add: dsm_add_to_def st m1_def [symmetric] w_def [symmetric] Let_def)+
    moreover have "snd b (m_ID m) \<noteq> None" using w(2) Some m1 owner by auto
    ultimately show ?thesis using coherent_tables [OF co w(1)] w(4) Some by auto
  next
    case None
    then obtain m' where m': "msg_filled m1 m'" "tb_msgs T (snd w) = (tb_msgs T d)(m_ID m \<mapsto> msg_row (tb_round T) m')"
      "tb_convs T (snd w) = tb_convs T d" "tb_msgs T d (m_ID m) = None"
      using w(3) m1(1) by auto
    have own: "(\<lambda>k. map_option m_ConversationID (tb_msgs T (snd w) k)) = (snd b)(m_ID m \<mapsto> i)"
    proof (rule ext)
      fix k
      have "m_ConversationID m' = i" using m'(1) m1(2) unfolding msg_filled_def
        by (metis message.select_convs(2) message.surjective message.update_convs(11,12))
      then show "map_option m_ConversationID (tb_msgs T (snd w) k) = ((snd b)(m_ID m \<mapsto> i)) k"
        using fun_cong [OF coherentD(4) [OF co], of k] by (simp add: m'(2) msg_row_def)
    qed
    let ?b = "(fst b, (snd b)(m_ID m \<mapsto> i))"
    have co1: "coherent keys T view up ?b (sm, snd w, r)"
      using co own w(1) m'(3) by (simp add: coherent_def)
    have "update_ok T i (add_updates nows c m1) ?b"
      using assms(3) by (simp add: update_ok_def m1_def split: option.split)
    moreover have "dsm_UpdateConversation i (add_updates nows c m1) (sm, snd w, r) = (x, st1)"
      using assms(4) None by (cases w; simp add: dsm_add_to_def st m1_def [symmetric] w_def [symmetric] Let_def)
    ultimately have "x = None \<and> coherent keys T view up (bare_update (tb_round T) i (add_updates nows c m1) ?b) st1"
      by (rule Update_coherent [OF co1])
    then show ?thesis using m'(4) owner by (simp add: m1_def)
  qed
qed

lemma Add_coherent:
  assumes "coherent keys T view up b st" and "event_takes T (DAdd nows i m) b" and "dsm_AddMessage keys nows i m st = (x, st1)"
  shows "fst (bare_step (tb_round T) (DAdd nows i m) b) = ODone x \<and>
    coherent keys T view up (snd (bare_step (tb_round T) (DAdd nows i m) b)) st1"
proof -
  obtain y st2 where y: "dsm_GetConversation keys i st = (y, st2)" by (metis surj_pair)
  note get = Get_coherent [OF assms(1) y]
  show ?thesis
  proof (cases y)
    case (Inl e)
    then show ?thesis using get assms(3) by (auto simp: dsm_AddMessage_def y split: sum.splits)
  next
    case (Inr c)
    have bg: "bare_get i b = Inr (conv_row (tb_round T) c)" using get Inr by simp
    then have row: "fst b i = Some (conv_row (tb_round T) c)" by (auto simp: bare_get_def split: option.splits)
    have u: "add_updates nows c m1 = add_updates nows (conv_row (tb_round T) c) m1" for m1
      by (rule add_updates_cong) simp_all
    have "dsm_add_to nows i c m st2 = (x, st1)" using assms(3) by (simp add: dsm_AddMessage_def y Inr)
    from add_to_coherent [OF conjunct1 [OF get] _ _ this] show ?thesis
      using assms(2) row bg u by (auto split: if_splits)
  qed
qed

lemma step_coherent:
  assumes "coherent keys T view up b st" and "event_takes T e b" and "dsm_step keys e st = (x, st1)"
  shows "fst (bare_step (tb_round T) e b) = out_row (tb_round T) x \<and>
    coherent keys T view up (snd (bare_step (tb_round T) e b)) st1"
proof (cases e)
  case (DCreate nows u t p)
  obtain y where y: "dsm_CreateConversation keys nows u t p st = (y, st1)" "x = OConv y"
    using assms(3) DCreate by (auto simp: map_prod_def split: prod.splits)
  note cr = Create_coherent [OF assms(1) assms(2) [unfolded DCreate] y(1)]
  obtain o1 b1 where b1: "bare_step (tb_round T) (DCreate nows u t p) b = (o1, b1)" by (metis surj_pair)
  then have "o1 = OConv (map_sum id (conv_row (tb_round T)) y)" using cr(2) by simp
  then show ?thesis using cr(1) [of b1] b1 by (simp add: DCreate y(2))
next
  case (DGet i)
  then show ?thesis using Get_coherent [OF assms(1), of i] assms(3) by (cases "dsm_GetConversation keys i st") auto
next
  case (DContext i)
  obtain y st2 where y: "dsm_GetConversation keys i st = (y, st2)" by (metis surj_pair)
  note get = Get_coherent [OF assms(1) y]
  have "dsm_GetConversationContext keys i st = (map_sum id c_Context y, st2)"
    by (cases y) (simp_all add: dsm_GetConversationContext_def y)
  moreover have "map_sum id c_Context y = map_sum id c_Context (map_sum id (conv_row (tb_round T)) y)" by (cases y) simp_all
  ultimately show ?thesis using get assms(3) DContext by auto
next
  case (DAdd nows i m)
  obtain y where y: "dsm_AddMessage keys nows i m st = (y, st1)" "x = ODone y"
    using assms(3) DAdd by (auto simp: map_prod_def split: prod.splits)
  show ?thesis using Add_coherent [OF assms(1) assms(2) [unfolded DAdd] y(1)] by (simp only: DAdd y(2) out_row.simps)
next
  case (DUpdate i u)
  then show ?thesis using Update_coherent [OF assms(1), of i u] assms(2,3)
    by (cases "dsm_UpdateConversation i u st") auto
next
  case (DArchive now i)
  then show ?thesis using Update_coherent [OF assms(1), of i "archive_updates now"] assms(2,3)
    by (cases "dsm_UpdateConversation i (archive_updates now) st") (auto simp: dsm_ArchiveConversation_def archive_updates_def)
next
  case (DPriority now i p)
  then show ?thesis using Update_coherent [OF assms(1), of i "priority_updates now p"] assms(2,3)
    by (cases "dsm_UpdateConversation i (priority_updates now p) st")
      (auto simp: dsm_UpdateConversationPriority_def priority_updates_def)
next
  case (DDelete i)
  then show ?thesis using Delete_coherent [OF assms(1), of i] assms(3) by (cases "dsm_DeleteConversation i st") auto
next
  case DRestart
  then show ?thesis using assms(1,3) by (cases st) (auto simp: coherent_def NewDbStateManager_def services_def)
next
  case (DExpire k)
  obtain sm d r where st: "st = (sm, d, r)" by (cases st)
  have "redis_coherent T view up (dsm_redis sm) (fst b) (case dsm_redis sm of None \<Rightarrow> r | Some client \<Rightarrow> snd (rd_Del client k r))"
  proof (cases "dsm_redis sm")
    case (Some client)
    note co = assms(1) [unfolded st]
    have "up r" "redis_laws client view up"
      using coherentD(1,7) [OF co] by (simp_all add: redis_coherent_def services_def Some)
    from writes_up [OF redis_Del [OF this(2)] this(1), of k]
    show ?thesis using coherentD(7) [OF co] by (auto simp: redis_coherent_def Some split: if_splits)
  qed (simp add: redis_coherent_def)
  then show ?thesis using assms(1,3) DExpire by (auto simp: st coherent_def)
qed

lemma run_coherent:
  assumes "coherent keys T view up b st" and "run_takes T es b" and "dsm_run keys es st = (xs, st1)"
  shows "fst (bare_run (tb_round T) es b) = map (out_row (tb_round T)) xs \<and>
    coherent keys T view up (snd (bare_run (tb_round T) es b)) st1"
  using assms
proof (induction es arbitrary: b st xs st1)
  case (Cons e es)
  obtain x st2 where x: "dsm_step keys e st = (x, st2)" by (metis surj_pair)
  obtain xs2 st3 where xs2: "dsm_run keys es st2 = (xs2, st3)" by (metis surj_pair)
  have res: "xs = x # xs2" "st3 = st1" using Cons.prems(3) by (simp_all add: x xs2)
  obtain o1 b1 where b1: "bare_step (tb_round T) e b = (o1, b1)" by (metis surj_pair)
  have step: "o1 = out_row (tb_round T) x" "coherent keys T view up b1 st2" "run_takes T es b1"
    using step_coherent [OF Cons.prems(1) _ x] Cons.prems(2) b1 by simp_all
  from Cons.IH [OF step(2,3) xs2] show ?case using step(1) res by (simp add: b1 case_prod_beta)
qed simp

end
