(* ===== verification/StateRuns.thy ===== *)
theory StateRuns
  imports StateCaches "HOL-Library.List_Lexorder" "HOL-Library.Char_ord"
begin

text \<open>
  What holds of the state manager over whole runs, what goes wrong when two operations
  interleave, and tables in memory that keep the laws of the database.
\<close>

section \<open>Tables in memory\<close>

type_synonym mem_tables = "Conversation list \<times> message list"

definition lookup :: "('a \<Rightarrow> string) \<Rightarrow> 'a list \<Rightarrow> string \<Rightarrow> 'a option" where
  "lookup f xs k = find (\<lambda>x. f x = k) xs"

definition without :: "('a \<Rightarrow> string) \<Rightarrow> string \<Rightarrow> 'a list \<Rightarrow> 'a list" where
  "without f k xs = filter (\<lambda>x. f x \<noteq> k) xs"

fun firsts :: "('a \<Rightarrow> string) \<Rightarrow> 'a list \<Rightarrow> 'a list" where
  "firsts f [] = []"
| "firsts f (x # xs) = x # without f (f x) (firsts f xs)"

definition mem_find :: "('a \<Rightarrow> string) \<Rightarrow> ('a \<Rightarrow> bool) \<Rightarrow> ('a \<Rightarrow> go_time) \<Rightarrow> int \<Rightarrow> 'a list \<Rightarrow> 'a list" where
  "mem_find f P time limit xs =
     (let all = sort_key (\<lambda>x. - time x) (filter P (firsts f xs)) in if limit < 0 then all else take (nat limit) all)"

definition mem_insert :: "('a \<Rightarrow> string) \<Rightarrow> 'a \<Rightarrow> 'a list \<Rightarrow> 'a list" where
  "mem_insert f x xs = x # without f (f x) xs"

definition mem_state_db :: "mem_tables gorm_tables" where
  "mem_state_db =
     \<lparr>gt_CreateConversation = (\<lambda>c (cs, ms). if lookup c_ID cs (c_ID c) \<noteq> None then (Some GormFailure, cs, ms)
        else (None, mem_insert c_ID (conv_row id c) cs, ms)),
      gt_FirstConversation = (\<lambda>i (cs, ms). (case lookup c_ID cs i of None \<Rightarrow> Inl ErrRecordNotFound | Some c \<Rightarrow> Inr c, cs, ms)),
      gt_UpdatesConversation = (\<lambda>i u (cs, ms). (None, case lookup c_ID cs i of None \<Rightarrow> cs
        | Some c \<Rightarrow> mem_insert c_ID (conv_row id (apply_updates u c)) cs, ms)),
      gt_DeleteConversation = (\<lambda>i (cs, ms). (None, without c_ID i cs, ms)),
      gt_ConversationsOfUser = (\<lambda>u n (cs, ms). (Inr (mem_find c_ID (\<lambda>c. c_UserID c = u) c_LastActivity n cs), cs, ms)),
      gt_ConversationsOfStatus = (\<lambda>s n (cs, ms). (Inr (mem_find c_ID (\<lambda>c. c_Status c = s) c_LastActivity n cs), cs, ms)),
      gt_CreateMessage = (\<lambda>m (cs, ms). if lookup m_ID ms (m_ID m) \<noteq> None then (Some GormFailure, cs, ms)
        else (None, cs, mem_insert m_ID (msg_row id m) ms)),
      gt_SaveMessage = (\<lambda>m (cs, ms). (None, cs, mem_insert m_ID (msg_row id m) ms)),
      gt_MessagesOf = (\<lambda>i n (cs, ms). (Inr (mem_find m_ID (\<lambda>m. m_ConversationID m = i) m_CreatedAt n ms), cs, ms))\<rparr>"

definition mem_tb :: "mem_tables tables" where
  "mem_tb = \<lparr>tb_convs = (\<lambda>(cs, ms). lookup c_ID cs), tb_msgs = (\<lambda>(cs, ms). lookup m_ID ms), tb_up = (\<lambda>_. True),
     tb_round = id, tb_takes = (\<lambda>_. True), tb_takes_msg = (\<lambda>_. True)\<rparr>"

lemma lookup_without [simp]: "lookup f (without f k xs) = (lookup f xs)(k := None)"
  unfolding lookup_def without_def by (rule ext, induction xs) auto

lemma lookup_Cons: "lookup f (x # xs) = (lookup f xs)(f x \<mapsto> x)"
  by (rule ext) (simp add: lookup_def)

lemma lookup_insert [simp]: "lookup f (mem_insert f x xs) = (lookup f xs)(f x \<mapsto> x)"
  by (simp add: mem_insert_def lookup_Cons)

lemma lookup_key: "lookup f xs k = Some x \<Longrightarrow> f x = k"
  by (simp add: lookup_def find_Some_iff) blast

lemma set_firsts: "set (firsts f xs) = {x. \<exists>k. lookup f xs k = Some x}"
proof (induction xs)
  case (Cons y xs)
  have "(\<exists>k. lookup f (y # xs) k = Some x) \<longleftrightarrow> x = y \<or> (\<exists>k. k \<noteq> f y \<and> lookup f xs k = Some x)" for x
    by (auto simp: lookup_Cons)
  then show ?case using Cons lookup_key [of f xs] by (auto simp: without_def)
qed (simp add: lookup_def)

lemma distinct_firsts: "distinct (firsts f xs)"
  by (induction xs) (simp_all add: without_def)

lemma mem_find_law: "latest_first limit time {x. (\<exists>k. lookup f xs k = Some x) \<and> P x} (mem_find f P time limit xs)"
proof -
  let ?all = "sort_key (\<lambda>x. - time x) (filter P (firsts f xs))"
  have "set ?all = {x. (\<exists>k. lookup f xs k = Some x) \<and> P x}" using set_firsts [of f xs] by auto
  moreover have "distinct ?all" by (simp add: distinct_firsts)
  moreover have "sorted_wrt (\<lambda>x y. time x \<ge> time y) ?all"
    using sorted_sort_key [of "\<lambda>x. - time x" "filter P (firsts f xs)"] by (simp add: sorted_map)
  ultimately show ?thesis unfolding latest_first_def mem_find_def Let_def by blast
qed

lemma msg_filled_self [simp]: "msg_filled m m"
  by (simp add: msg_filled_def)

lemma conv_row_id [simp]: "conv_row (\<lambda>t. t) = conv_row id"
  by (simp add: id_def)

lemma mem_state_laws: "state_laws mem_state_db mem_tb"
proof -
  note defs = mem_state_db_def mem_tb_def table_write_def same_tables_def table_first_def table_find_def
  have "convs_law mem_state_db mem_tb d \<and> msgs_law mem_state_db mem_tb d" for d
  proof -
    obtain cs ms where d: "d = (cs, ms)" by force
    have upd: "lookup c_ID (case lookup c_ID cs i of None \<Rightarrow> cs | Some c \<Rightarrow> mem_insert c_ID (conv_row id (apply_updates u c)) cs) =
        (lookup c_ID cs)(i := map_option (\<lambda>c. conv_row id (apply_updates u c)) (lookup c_ID cs i))" for i u
      using lookup_key [of c_ID cs i] by (cases "lookup c_ID cs i") (auto simp: fun_eq_iff)
    have m: "m_ID (msg_row id m) = m_ID m" for m by (simp add: msg_row_def)
    show ?thesis unfolding convs_law_def msgs_law_def
      by (intro conjI allI impI; simp add: defs d upd m mem_find_law split: option.split; (use msg_filled_self in blast)?)
  qed
  then show ?thesis by (simp add: state_laws_def mem_tb_def)
qed

section \<open>Counting messages\<close>

definition counted :: "bare \<Rightarrow> bool" where
  "counted b \<longleftrightarrow> finite (dom (snd b)) \<and>
     (\<forall>i c. fst b i = Some c \<longrightarrow> c_MessageCount c = wrap64 (int (card {k. snd b k = Some i})))"

text \<open>Nobody writes the count, and a new identifier is not one that old messages still name.\<close>

fun event_counts :: "dsm_event \<Rightarrow> bare \<Rightarrow> bool" where
  "event_counts (DCreate nows u t p) b \<longleftrightarrow> generateConversationID (nows 0) \<notin> ran (snd b)"
| "event_counts (DUpdate i u) b \<longleftrightarrow> u ''message_count'' = None"
| "event_counts _ b \<longleftrightarrow> True"

fun run_counts :: "(go_time \<Rightarrow> go_time) \<Rightarrow> dsm_event list \<Rightarrow> bare \<Rightarrow> bool" where
  "run_counts rnd [] b \<longleftrightarrow> True"
| "run_counts rnd (e # es) b \<longleftrightarrow> event_counts e b \<and> run_counts rnd es (snd (bare_step rnd e b))"

lemma wrap64_Suc: "wrap64 (wrap64 x + 1) = wrap64 (x + 1)"
  by (simp add: wrap64_def) presburger

lemma count_update: "c_MessageCount (apply_updates u c) = col_int u ''message_count'' (c_MessageCount c)"
  by (simp add: apply_updates_def)

lemma counted_update:
  assumes "counted b" and "col_int u ''message_count'' = (\<lambda>x. x)"
  shows "counted (bare_update rnd i u b)"
  using assms by (auto simp: counted_def bare_update_def count_update split: if_splits)

lemma counted_add:
  assumes "counted b" and "fst b i = Some c" and "snd b k = None"
  shows "counted (bare_update rnd i (add_updates nows c m) (fst b, (snd b)(k \<mapsto> i)))"
proof -
  have fin: "finite (dom (snd b))" using assms(1) by (simp add: counted_def)
  have other: "{l. ((snd b)(k \<mapsto> i)) l = Some j} = {l. snd b l = Some j}" if "j \<noteq> i" for j using that assms(3) by auto
  have same: "{l. ((snd b)(k \<mapsto> i)) l = Some i} = insert k {l. snd b l = Some i}" by auto
  have "finite {l. snd b l = Some i}" by (rule finite_subset [OF _ fin]) auto
  then have card: "int (card {l. ((snd b)(k \<mapsto> i)) l = Some i}) = int (card {l. snd b l = Some i}) + 1"
    using assms(3) unfolding same by simp
  have "c_MessageCount c = wrap64 (int (card {l. snd b l = Some i}))" using assms(1,2) by (simp add: counted_def)
  then have cnt: "col_int (add_updates nows c m) ''message_count'' x = wrap64 (int (card {l. ((snd b)(k \<mapsto> i)) l = Some i}))" for x
    unfolding card by (simp add: col_int_def add_updates_def Let_def wrap64_Suc)
  show ?thesis
    unfolding counted_def bare_update_def fst_conv snd_conv
  proof (intro conjI allI impI)
    show "finite (dom ((snd b)(k \<mapsto> i)))" using fin by simp
    show "c_MessageCount c' = wrap64 (int (card {l. ((snd b)(k \<mapsto> i)) l = Some j}))"
      if c': "((fst b)(i := map_option (\<lambda>c'. conv_row rnd (apply_updates (add_updates nows c m) c')) (fst b i))) j = Some c'" for j c'
    proof (cases "j = i")
      case True
      then have "c' = conv_row rnd (apply_updates (add_updates nows c m) c)" using c' assms(2) by simp
      then show ?thesis using cnt True by (simp add: count_update)
    next
      case False
      then show ?thesis using c' assms(1) other [OF False] by (simp add: counted_def)
    qed
  qed
qed

lemma col_int_stamps:
  "col_int (archive_updates now) ''message_count'' = (\<lambda>x. x)" "col_int (priority_updates now p) ''message_count'' = (\<lambda>x. x)"
  by (simp_all add: fun_eq_iff col_int_def archive_updates_def priority_updates_def)

lemma bare_step_counted:
  assumes "counted b" and "event_counts e b"
  shows "counted (snd (bare_step rnd e b))"
proof (cases e)
  case (DCreate nows u t p)
  have "{k. snd b k = Some (generateConversationID (nows 0))} = {}" using assms(2) DCreate by (auto simp: ran_def)
  moreover have "c_ID (dsm_new_conversation nows u t p) = generateConversationID (nows 0)"
    "c_MessageCount (dsm_new_conversation nows u t p) = 0"
    by (simp_all add: dsm_new_conversation_def)
  moreover have "wrap64 0 = 0" by (simp add: in_int64_def min_int64_def max_int64_def)
  ultimately show ?thesis using assms(1) by (auto simp: DCreate Let_def counted_def split: if_splits)
next
  case (DAdd nows i m)
  show ?thesis
  proof (cases "fst b i")
    case None
    then show ?thesis using assms(1) by (simp add: DAdd bare_get_def)
  next
    case (Some c)
    then show ?thesis using assms(1) counted_add [OF assms(1) Some, of "m_ID m"] by (simp add: DAdd bare_get_def)
  qed
next
  case (DUpdate i u)
  then show ?thesis using assms by (simp add: counted_update col_int_def fun_eq_iff)
next
  case (DArchive now i)
  then show ?thesis using counted_update [OF assms(1) col_int_stamps(1)] by simp
next
  case (DPriority now i p)
  then show ?thesis using counted_update [OF assms(1) col_int_stamps(2)] by simp
next
  case (DDelete i)
  then show ?thesis using assms(1) by (auto simp: counted_def)
qed (use assms(1) in simp_all)

lemma bare_run_counted:
  "counted b \<Longrightarrow> run_counts rnd es b \<Longrightarrow> counted (snd (bare_run rnd es b))"
  by (induction es arbitrary: b) (simp_all add: case_prod_beta bare_step_counted)

section \<open>Properties\<close>

definition tables_of :: "'d tables \<Rightarrow> 'd \<Rightarrow> bare" where
  "tables_of T d = (tb_convs T d, \<lambda>k. map_option m_ConversationID (tb_msgs T d k))"

text \<open>
  C3 (caches). While the database and Redis answer and the columns take what is written, the
  results of any operations, with restarts of the process and lost keys in between, are those
  of the two tables alone, up to the rounding of times in what comes from a cache: the caches
  never show anything else than the database.
\<close>

theorem dsm_caches_transparent:
  assumes "services keys T view up sm" and "dsm_cache sm = Map.empty" and "tb_up T d" and "rows_ok T (tb_convs T d)"
    and "redis_coherent T view up (dsm_redis sm) (tb_convs T d) r" and "run_takes T es (tables_of T d)"
  shows "\<exists>xs sm' d' r'. dsm_run keys es (sm, d, r) = (xs, sm', d', r') \<and>
    bare_run (tb_round T) es (tables_of T d) = (map (out_row (tb_round T)) xs, tables_of T d')"
proof -
  obtain xs sm' d' r' where run: "dsm_run keys es (sm, d, r) = (xs, sm', d', r')" by (cases "dsm_run keys es (sm, d, r)") auto
  have "coherent keys T view up (tables_of T d) (sm, d, r)" using assms(1-5) by (simp add: coherent_def tables_of_def)
  note res = run_coherent [OF this assms(6) run]
  note co = res [THEN conjunct2]
  show ?thesis using run res coherentD(3,4) [OF co] by (intro exI conjI) (auto simp: prod_eq_iff tables_of_def)
qed

text \<open>
  C22 (message count). Under the same services, and when nobody else writes the counts, the count
  in a conversation that is got after any operations is the number of its messages in the
  database, as a 64-bit integer.
\<close>

theorem dsm_message_count_exact:
  assumes "services keys T view up sm" and "dsm_cache sm = Map.empty" and "tb_up T d" and "rows_ok T (tb_convs T d)"
    and "redis_coherent T view up (dsm_redis sm) (tb_convs T d) r"
    and "run_takes T es (tables_of T d)" and "counted (tables_of T d)" and "run_counts (tb_round T) es (tables_of T d)"
    and "dsm_run keys es (sm, d, r) = (xs, sm', d', r')" and "fst (dsm_GetConversation keys i (sm', d', r')) = Inr c"
  shows "c_MessageCount c = wrap64 (int (card {k. \<exists>m. tb_msgs T d' k = Some m \<and> m_ConversationID m = i}))"
proof -
  have "coherent keys T view up (tables_of T d) (sm, d, r)" using assms(1-5) by (simp add: coherent_def tables_of_def)
  note co = run_coherent [OF this assms(6,9), THEN conjunct2]
  define b where "b = snd (bare_run (tb_round T) es (tables_of T d))"
  have cnt: "counted b" unfolding b_def by (rule bare_run_counted [OF assms(7,8)])
  obtain st1 where "dsm_GetConversation keys i (sm', d', r') = (Inr c, st1)"
    using assms(10) by (cases "dsm_GetConversation keys i (sm', d', r')") simp
  from Get_coherent [OF co this] have "cached_ok T (fst b) i c" by (simp add: b_def)
  then have "fst b i = Some (conv_row (tb_round T) c)" by (simp add: cached_ok_def)
  then have "c_MessageCount (conv_row (tb_round T) c) = wrap64 (int (card {k. snd b k = Some i}))"
    using cnt unfolding counted_def by blast
  then have "c_MessageCount c = wrap64 (int (card {k. snd b k = Some i}))" by simp
  moreover have "{k. snd b k = Some i} = {k. \<exists>m. tb_msgs T d' k = Some m \<and> m_ConversationID m = i}"
    unfolding coherentD(4) [OF co, folded b_def, symmetric] by auto
  ultimately show ?thesis by simp
qed

text \<open>
  C38 (interleaved additions). \<open>AddMessage\<close> reads the conversation before it writes: when another
  addition to it completes in between, both messages are in the database and neither call fails,
  but the count grows by one only, and the content of the other message is missing from the
  context.
\<close>

theorem dsm_interleaved_adds:
  assumes "coherent keys T view up b st" and "fst b i = Some c0" and "\<And>c. tb_takes T c" and "\<And>m. tb_takes_msg T m"
    and "snd b (m_ID m) = None" and "snd b (m_ID m') = None" and "m_ID m \<noteq> m_ID m'" and "m_Status m' = StatusCompleted"
  shows "\<exists>c st1 st2 st3 row. dsm_GetConversation keys i st = (Inr c, st1) \<and>
    dsm_AddMessage keys nows i m st1 = (None, st2) \<and> dsm_add_to nows' i c m' st2 = (None, st3) \<and>
    (\<exists>x. tb_msgs T (fst (snd st3)) (m_ID m) = Some x \<and> m_ConversationID x = i) \<and>
    (\<exists>x. tb_msgs T (fst (snd st3)) (m_ID m') = Some x \<and> m_ConversationID x = i) \<and>
    tb_convs T (fst (snd st3)) i = Some row \<and> c_MessageCount row = wrap64 (c_MessageCount c0 + 1) \<and>
    c_Context row = c_Context c0 @ [CHR 0x0A] @ m_Content m'"
proof -
  obtain y st1 where y: "dsm_GetConversation keys i st = (y, st1)" by (metis surj_pair)
  note get = Get_coherent [OF assms(1) y]
  obtain c where c: "y = Inr c" "conv_row (tb_round T) c = c0"
    using get assms(2) by (cases y) (auto simp: bare_get_def)
  have same: "c_MessageCount c = c_MessageCount c0" "c_Context c = c_Context c0" using c(2) by auto
  obtain x2 st2 where add: "dsm_AddMessage keys nows i m st1 = (x2, st2)" by (metis surj_pair)
  have takes: "event_takes T (DAdd nows i m) b" using assms(3,4) by (simp split: option.split)
  define b1 where "b1 = snd (bare_step (tb_round T) (DAdd nows i m) b)"
  note add1 = Add_coherent [OF conjunct1 [OF get] takes add, folded b1_def]
  have b1: "fst b1 i = Some (conv_row (tb_round T) (apply_updates (add_updates nows c0 (m\<lparr>m_ConversationID := i\<rparr>)) c0))"
    "snd b1 = (snd b)(m_ID m \<mapsto> i)" and x2: "x2 = None"
    using add1 assms(2,5) by (simp_all add: b1_def bare_get_def bare_update_def)
  obtain x3 st3 where fin: "dsm_add_to nows' i c m' st2 = (x3, st3)" by (metis surj_pair)
  have "snd b1 (m_ID m') = None" using assms(6,7) b1(2) by simp
  with add_to_coherent [OF conjunct2 [OF add1] assms(4) assms(3) fin]
  have x3: "x3 = None" and co3: "coherent keys T view up
      (bare_update (tb_round T) i (add_updates nows' c (m'\<lparr>m_ConversationID := i\<rparr>)) (fst b1, (snd b1)(m_ID m' \<mapsto> i))) st3"
    by simp_all
  obtain sm3 d3 r3 where st3: "st3 = (sm3, d3, r3)" by (cases st3)
  note t = coherentD(3,4) [OF co3 [unfolded st3]]
  define row where "row = conv_row (tb_round T) (apply_updates (add_updates nows' c (m'\<lparr>m_ConversationID := i\<rparr>))
      (conv_row (tb_round T) (apply_updates (add_updates nows c0 (m\<lparr>m_ConversationID := i\<rparr>)) c0)))"
  have "tb_convs T d3 i = Some row" using b1(1) by (simp add: t(1) bare_update_def row_def)
  moreover have "c_MessageCount row = wrap64 (c_MessageCount c0 + 1)" "c_Context row = c_Context c0 @ [CHR 0x0A] @ m_Content m'"
    using assms(8) same by (simp_all add: row_def apply_updates_def col_int_def col_text_def add_updates_def Let_def)
  moreover have "map_option m_ConversationID (tb_msgs T d3 (m_ID m)) = Some i" "map_option m_ConversationID (tb_msgs T d3 (m_ID m')) = Some i"
    using fun_cong [OF t(2), of "m_ID m"] fun_cong [OF t(2), of "m_ID m'"] by (simp_all add: b1(2) bare_update_def)
  ultimately show ?thesis
    using y c(1) add x2 fin x3 by (intro exI [of _ c] exI [of _ st1] exI [of _ st2] exI [of _ st3] exI [of _ row]) (auto simp: st3)
qed

text \<open>
  When an update completes between the moment a reader has read the database
  and the moment it fills the caches, every later \<open>GetConversation\<close> in this process gives the
  conversation as it was before the update: an entry of the cache in the process never expires.
\<close>

theorem dsm_stale_read:
  assumes "coherent keys T view up b st" and "fst b i = Some c" and "update_ok T i u b"
    and "dsm_UpdateConversation i u st = (x, st1)"
  shows "x = None \<and> dsm_GetConversation keys i (dsm_remember keys c st1) = (Inr c, dsm_remember keys c st1) \<and>
    tb_convs T (fst (snd (dsm_remember keys c st1))) i = Some (conv_row (tb_round T) (apply_updates u c))"
proof -
  note up = Update_coherent [OF assms(1,3,4)]
  obtain sm d r where st1: "st1 = (sm, d, r)" by (cases st1)
  note t = coherentD(3) [OF conjunct2 [OF up, unfolded st1]]
  obtain sm0 d0 r0 where st: "st = (sm0, d0, r0)" by (cases st)
  have "c_ID c = i" using coherentD(5) [OF assms(1) [unfolded st]] assms(2) by (simp add: rows_ok_def)
  then show ?thesis
    using up t assms(2)
    by (simp add: st1 dsm_remember_def dsm_GetConversation_def dsm_cacheConversation_def bare_update_def)
qed

section \<open>Witnesses\<close>

definition sorted_keys :: key_order where
  "sorted_keys m = sorted_list_of_set (dom m)"

definition sample_db_manager :: "(mem_tables, mem_redis) DbStateManager" where
  "sample_db_manager = NewDbStateManager mem_state_db (Some mem_client)"

definition sample_note :: "string \<Rightarrow> message" where
  "sample_note i = (NewMessage i '''' ''u'' ''hello'' PriorityNormal 1 1)\<lparr>m_Status := StatusCompleted\<rparr>"

text \<open>A conversation is created, gets a message, the process restarts and reads it.\<close>

definition sample_id :: string where
  "sample_id = generateConversationID 1"

definition sample_events :: "dsm_event list" where
  "sample_events = [DCreate (\<lambda>_. 1) ''u'' ''t'' 2, DAdd (\<lambda>_. 2) sample_id (sample_note ''m''), DRestart, DGet sample_id]"

lemma sample_services: "services sorted_keys mem_tb mem_view (\<lambda>_. True) sample_db_manager"
  using mem_state_laws mem_laws
  by (simp add: services_def sorts_keys_def sorted_keys_def sample_db_manager_def NewDbStateManager_def)

lemma sample_empty: "tables_of mem_tb ([], []) = (Map.empty, Map.empty)"
  by (simp add: tables_of_def mem_tb_def lookup_def fun_eq_iff)

lemma sample_tables: "tb_convs mem_tb ([], []) = Map.empty"
  using sample_empty by (simp add: tables_of_def)

lemma sample_coherent: "rows_ok mem_tb (tb_convs mem_tb ([], []))"
  "redis_coherent mem_tb mem_view (\<lambda>_. True) (dsm_redis sample_db_manager) (tb_convs mem_tb ([], [])) Map.empty"
  by (simp_all add: sample_tables rows_ok_def redis_coherent_def mem_view_def)

lemma sample_new_conversation: "dsm_new_conversation (\<lambda>_. 1) ''u'' ''t'' 2 = (dsm_new_conversation (\<lambda>_. 1) ''u'' ''t'' 2)\<lparr>c_ID := sample_id\<rparr>"
  "c_ID (dsm_new_conversation (\<lambda>_. 1) ''u'' ''t'' 2) = sample_id" "c_MessageCount (dsm_new_conversation (\<lambda>_. 1) ''u'' ''t'' 2) = 0"
  by (simp_all add: dsm_new_conversation_def sample_id_def)

lemma mem_tb_simps [simp]: "tb_round mem_tb = id" "tb_takes mem_tb c" "tb_takes_msg mem_tb m" "tb_up mem_tb d"
  by (simp_all add: mem_tb_def)

lemma sample_takes: "run_takes mem_tb sample_events (Map.empty, Map.empty)"
  by (simp add: sample_events_def split: option.split) (simp add: in_int64_def min_int64_def max_int64_def)

lemma sample_bare: "\<exists>c b. bare_run id sample_events (Map.empty, Map.empty) =
    ([OConv (Inr (conv_row id (dsm_new_conversation (\<lambda>_. 1) ''u'' ''t'' 2))), ODone None, ONothing, OConv (Inr c)], b) \<and> c_MessageCount c = 1"
proof -
  have "wrap64 1 = 1" by (simp add: in_int64_def min_int64_def max_int64_def)
  then show ?thesis
    by (simp add: sample_events_def Let_def sample_new_conversation(2,3) bare_get_def bare_update_def sample_note_def NewMessage_def
        count_update col_int_def add_updates_def)
qed

theorem dsm_caches_transparent_witness:
  "\<exists>x1 x2 x3 c st. dsm_run sorted_keys sample_events (sample_db_manager, ([], []), Map.empty) = ([x1, x2, x3, OConv (Inr c)], st) \<and>
     c_MessageCount c = 1"
proof -
  have cache: "dsm_cache sample_db_manager = Map.empty" by (simp add: sample_db_manager_def NewDbStateManager_def)
  have takes: "run_takes mem_tb sample_events (tables_of mem_tb ([], []))" using sample_takes sample_empty by simp
  obtain xs sm' d' r' where run: "dsm_run sorted_keys sample_events (sample_db_manager, ([], []), Map.empty) = (xs, sm', d', r')"
    "bare_run id sample_events (Map.empty, Map.empty) = (map (out_row id) xs, tables_of mem_tb d')"
    using dsm_caches_transparent [OF sample_services cache mem_tb_simps(4) sample_coherent takes] sample_empty by auto
  obtain c where c: "map (out_row id) xs =
      [OConv (Inr (conv_row id (dsm_new_conversation (\<lambda>_. 1) ''u'' ''t'' 2))), ODone None, ONothing, OConv (Inr c)]" "c_MessageCount c = 1"
    using run(2) sample_bare by auto
  obtain x1 x2 x3 x4 where xs: "xs = [x1, x2, x3, x4]" "out_row id x4 = OConv (Inr c)"
    using c(1) by (auto simp: map_eq_Cons_conv)
  obtain y where y: "x4 = OConv y" "map_sum id (conv_row id) y = Inr c" using xs(2) by (cases x4) simp_all
  then obtain c4 where "x4 = OConv (Inr c4)" "conv_row id c4 = c" by (cases y) simp_all
  then show ?thesis using run(1) xs(1) c(2) by auto
qed

theorem dsm_message_count_exact_witness:
  "\<exists>xs sm' d' r' c. dsm_run sorted_keys sample_events (sample_db_manager, ([], []), Map.empty) = (xs, sm', d', r') \<and>
     fst (dsm_GetConversation sorted_keys sample_id (sm', d', r')) = Inr c \<and>
     c_MessageCount c = wrap64 (int (card {k. \<exists>m. tb_msgs mem_tb d' k = Some m \<and> m_ConversationID m = sample_id}))"
proof -
  have cache: "dsm_cache sample_db_manager = Map.empty" by (simp add: sample_db_manager_def NewDbStateManager_def)
  have takes: "run_takes mem_tb sample_events (tables_of mem_tb ([], []))" using sample_takes sample_empty by simp
  have co: "coherent sorted_keys mem_tb mem_view (\<lambda>_. True) (tables_of mem_tb ([], [])) (sample_db_manager, ([], []), Map.empty)"
    using sample_services sample_coherent cache by (simp add: coherent_def tables_of_def)
  obtain xs sm' d' r' where run: "dsm_run sorted_keys sample_events (sample_db_manager, ([], []), Map.empty) = (xs, sm', d', r')"
    by (cases "dsm_run sorted_keys sample_events (sample_db_manager, ([], []), Map.empty)") auto
  note end_state = run_coherent [OF co takes run, THEN conjunct2]
  have "fst (snd (bare_run id sample_events (Map.empty, Map.empty))) sample_id \<noteq> None"
    by (simp add: sample_events_def Let_def sample_new_conversation(2) bare_get_def bare_update_def sample_note_def NewMessage_def)
  then have "\<exists>c. bare_get sample_id (snd (bare_run id sample_events (Map.empty, Map.empty))) = Inr c" by (auto simp: bare_get_def)
  moreover obtain x st1 where x: "dsm_GetConversation sorted_keys sample_id (sm', d', r') = (x, st1)" by (metis surj_pair)
  ultimately obtain c where c: "x = Inr c" using Get_coherent [OF end_state x] sample_empty by (cases x) auto
  have "counted (tables_of mem_tb ([], []))" by (simp add: sample_empty counted_def)
  moreover have "run_counts (tb_round mem_tb) sample_events (tables_of mem_tb ([], []))"
    by (simp add: sample_empty sample_events_def)
  ultimately show ?thesis
    using dsm_message_count_exact [OF sample_services cache mem_tb_simps(4) sample_coherent takes _ _ run, of sample_id c]
      run x c by auto
qed

text \<open>A conversation in the tables, and nothing in the caches.\<close>

definition sample_row :: Conversation where
  "sample_row = dsm_new_conversation (\<lambda>_. 1) ''u'' ''t'' 2"

lemma sample_row_coherent:
  "coherent sorted_keys mem_tb mem_view (\<lambda>_. True) ([sample_id \<mapsto> sample_row], Map.empty) (sample_db_manager, ([sample_row], []), Map.empty)"
proof -
  have id: "c_ID sample_row = sample_id" by (simp add: sample_row_def sample_new_conversation(2))
  have "conv_row id sample_row = sample_row" "fine sample_row"
    by (simp_all add: sample_row_def dsm_new_conversation_def conv_row_def norm_metadata_def fine_def in_int64_def min_int64_def max_int64_def)
  moreover have "tb_convs mem_tb ([sample_row], []) = [sample_id \<mapsto> sample_row]" "tb_msgs mem_tb ([sample_row], []) = Map.empty"
    by (simp_all add: mem_tb_def lookup_def id fun_eq_iff)
  ultimately show ?thesis
    using sample_services id
    by (simp add: coherent_def rows_ok_def redis_coherent_def mem_view_def) (simp add: sample_db_manager_def NewDbStateManager_def)
qed

theorem dsm_interleaved_adds_witness:
  "\<exists>st3 row. tb_convs mem_tb (fst (snd st3)) sample_id = Some row \<and> c_MessageCount row = 1 \<and>
     tb_msgs mem_tb (fst (snd st3)) ''m1'' \<noteq> None \<and> tb_msgs mem_tb (fst (snd st3)) ''m2'' \<noteq> None"
proof -
  have "fst ([sample_id \<mapsto> sample_row], Map.empty :: string \<Rightarrow> string option) sample_id = Some sample_row" by simp
  note adds = dsm_interleaved_adds [OF sample_row_coherent this mem_tb_simps(2,3), of "sample_note ''m1''" "sample_note ''m2''"
      "\<lambda>_. 3" "\<lambda>_. 4"]
  have note_simps: "m_ID (sample_note k) = k" "m_Status (sample_note k) = StatusCompleted" for k
    by (simp_all add: sample_note_def NewMessage_def)
  have "wrap64 (c_MessageCount sample_row + 1) = 1"
    by (simp add: sample_row_def sample_new_conversation(3) in_int64_def min_int64_def max_int64_def)
  then show ?thesis using adds by (simp only: note_simps snd_conv) (simp, blast)
qed

theorem dsm_stale_read_witness:
  "\<exists>st1. dsm_UpdateConversation sample_id (priority_updates 9 1) (sample_db_manager, ([sample_row], []), Map.empty) = (None, st1) \<and>
     fst (dsm_GetConversation sorted_keys sample_id (dsm_remember sorted_keys sample_row st1)) = Inr sample_row \<and> c_Priority sample_row = 2"
proof -
  obtain x st1 where x: "dsm_UpdateConversation sample_id (priority_updates 9 1) (sample_db_manager, ([sample_row], []), Map.empty) = (x, st1)"
    by (metis surj_pair)
  have "update_ok mem_tb sample_id (priority_updates 9 1) ([sample_id \<mapsto> sample_row], Map.empty)"
    by (simp add: update_ok_def known_updates_def priority_updates_def in_int64_def min_int64_def max_int64_def)
  from dsm_stale_read [OF sample_row_coherent _ this x] x show ?thesis
    by (auto simp: sample_row_def dsm_new_conversation_def)
qed

end
