(* ===== verification/ApiServer.thy ===== *)
theory ApiServer
  imports QueueFactory LoadBalancer ResourceScheduler Preprocessor ConversationManager
begin

text \<open>
  \<^verbatim>\<open>api/handlers.go\<close>: the HTTP handlers over the components. A handler gets what gin gives it:
  the path parameters, and the body as \<^verbatim>\<open>ShouldBindJSON\<close> binds it (the left is the text of its
  error). It returns the status and the body of the reply and the new state. The clocks and the
  fresh identifiers of a request are in \<open>api_env\<close>. The server record holds the components, and
  at its end the heap of messages and endpoints of the process and the state of the store.
\<close>

section \<open>Requests and replies\<close>

record api_env =
  env_uuid :: string
  env_now :: go_time
  env_process :: "go_time \<times> go_time"
  env_order :: "Priority list"
  env_push :: "go_time \<times> go_time"
  env_get :: "go_time \<times> (go_time \<times> go_time) \<times> (nat \<Rightarrow> go_time)"
  env_add :: go_time
  env_reply :: go_time
  env_types :: "string list"
  env_resources :: "string list"
  env_allocations :: "string list"

type_synonym 'a bound = "string + 'a"

datatype reply_body =
    Fields "(string \<times> any) list"
  | OneConversation Conversation
  | Conversations "Conversation list"
  | QueueStatistics "(string \<times> QueueStats) list" "string \<Rightarrow> WorkerMetrics list option"
  | Resources "Resource list"
  | ResourceStatistics ResourceStats
  | Endpoints "Endpoint list"
  | EndpointStatistics EndpointStats
  | NoBody

type_synonym reply = "int \<times> reply_body"

definition error_reply :: "int \<Rightarrow> string \<Rightarrow> reply" where
  "error_reply code text = (code, Fields [(''error'', AString text)])"

section \<open>The server\<close>

record 's APIServer =
  api_QueueFactory :: QueueFactory
  api_Preprocessor :: Preprocessor
  api_StateManager :: "'s StateManager"
  api_LoadBalancer :: LoadBalancer
  api_ResScheduler :: ResourceScheduler
  api_AllowedOrigins :: "string list"
  api_Config :: Config
  api_messages :: mstore
  api_fresh :: mref
  api_fresh_endpoint :: eref
  api_store :: 's

definition NewAPIServer ::
    "QueueFactory \<Rightarrow> Preprocessor \<Rightarrow> 's StateManager \<Rightarrow> LoadBalancer \<Rightarrow> ResourceScheduler \<Rightarrow> string list \<Rightarrow> Config
     \<Rightarrow> mstore \<Rightarrow> 's \<Rightarrow> 's APIServer" where
  "NewAPIServer queueFactory preproc stateManager loadBalancer resScheduler allowedOrigins cfg st s =
     \<lparr>api_QueueFactory = queueFactory, api_Preprocessor = preproc, api_StateManager = stateManager,
      api_LoadBalancer = loadBalancer, api_ResScheduler = resScheduler, api_AllowedOrigins = allowedOrigins,
      api_Config = cfg, api_messages = st, api_fresh = 0, api_fresh_endpoint = 0, api_store = s\<rparr>"

text \<open>The headers that are set, and the reply when the chain ends here.\<close>

fun cors_allowed :: "string list \<Rightarrow> string \<Rightarrow> bool" where
  "cors_allowed [] origin = False"
| "cors_allowed (allowedOrigin # rest) origin =
     (if allowedOrigin = ''*'' \<or> allowedOrigin = origin then True else cors_allowed rest origin)"

definition corsMiddleware :: "string list \<Rightarrow> string \<Rightarrow> string \<Rightarrow> (string \<times> string) list \<times> reply option" where
  "corsMiddleware allowedOrigins httpMethod origin =
     (if cors_allowed allowedOrigins origin
      then [(''Access-Control-Allow-Origin'', origin),
            (''Access-Control-Allow-Methods'', ''GET, POST, PUT, DELETE, OPTIONS''),
            (''Access-Control-Allow-Headers'', ''Content-Type, Authorization''),
            (''Access-Control-Allow-Credentials'', ''true'')]
      else [],
      if httpMethod = ''OPTIONS'' then Some (204, NoBody) else None)"

section \<open>Messages\<close>

definition estimateWaitTime :: "string \<Rightarrow> duration" where
  "estimateWaitTime priority =
     (if priority = ''realtime'' then 1 * second
      else if priority = ''high'' then 5 * second
      else if priority = ''normal'' then 15 * second
      else if priority = ''low'' then 30 * second
      else 15 * second)"

definition healthCheck :: "api_env \<Rightarrow> reply" where
  "healthCheck env = (200, Fields [(''status'', AString ''ok''), (''version'', AString ''1.0.0''), (''time'', ATime (env_now env))])"

text \<open>The JSON text of the three results of the analysis, none of which needs an escape.\<close>

definition quoted :: "string \<Rightarrow> string" where
  "quoted s = [CHR 0x22] @ s @ [CHR 0x22]"

fun any_text :: "any option \<Rightarrow> string" where
  "any_text (Some (ABool b)) = (if b then ''true'' else ''false'')"
| "any_text (Some (AInt i)) = sprint_int i"
| "any_text (Some (AString s)) = quoted s"
| "any_text _ = ''null''"

definition analysis_text :: "metadata \<Rightarrow> string" where
  "analysis_text r = ''{'' @ quoted ''is_question'' @ '':'' @ any_text (r ''is_question'') @ '','' @ quoted ''sentiment'' @ '':''
     @ any_text (r ''sentiment'') @ '','' @ quoted ''word_count'' @ '':'' @ any_text (r ''word_count'') @ ''}''"

definition api_analyse :: "message \<Rightarrow> 's APIServer \<Rightarrow> message" where
  "api_analyse m s =
     (if qc_EnableMetrics (cf_Queue (api_Config s))
      then let md = (case m_Metadata m of None \<Rightarrow> Map.empty | Some md \<Rightarrow> md)
           in m\<lparr>m_Metadata := Some (md(''analysis'' \<mapsto>
                  AString (analysis_text (pp_AnalyzeMessageContent (m_Content m) (api_Preprocessor s)))))\<rparr>
      else m)"

text \<open>Identifier and times, as both handlers set them.\<close>

definition api_stamp :: "api_env \<Rightarrow> message \<Rightarrow> message" where
  "api_stamp env m =
     (if m_ID m = '''' then m\<lparr>m_ID := env_uuid env\<rparr> else m)\<lparr>m_CreatedAt := env_now env, m_UpdatedAt := env_now env\<rparr>"

text \<open>
  The push: the message is at a fresh place of the heap, and the rules of the manager may change
  it there. The result is the reply in case of an error.
\<close>

definition api_enqueue :: "api_env \<Rightarrow> message \<Rightarrow> 's APIServer \<Rightarrow> reply option \<times> message \<times> 's APIServer" where
  "api_enqueue env m s =
     (let r = api_fresh s; s1 = s\<lparr>api_messages := (api_messages s)(r := m), api_fresh := Suc r\<rparr>
      in case qf_GetQueueManager ''standard'' (api_QueueFactory s) of
           None \<Rightarrow> (Some (error_reply 500 ''Failed to access message queue''), m, s1)
         | Some (queueManager, life) \<Rightarrow>
             (case qm_PushMessage (env_push env) (Priority_String (m_Priority m)) r (queueManager, api_messages s1) of
                (err, queueManager', st') \<Rightarrow>
                  let s2 = s1\<lparr>api_messages := st',
                        api_QueueFactory := (api_QueueFactory s)\<lparr>qf_managers :=
                          (qf_managers (api_QueueFactory s))(''standard'' \<mapsto> (queueManager', life))\<rparr>\<rparr>
                  in (case err of None \<Rightarrow> None | Some _ \<Rightarrow> Some (error_reply 500 ''Failed to queue message''), st' r, s2)))"

definition updateConversationWithMessage :: "api_env \<Rightarrow> message \<Rightarrow> 's APIServer \<Rightarrow> 's APIServer" where
  "updateConversationWithMessage env m s =
     (if m_ConversationID m = '''' then s
      else case csm_GetConversation (env_get env) (m_ConversationID m) (m_UserID m) (api_StateManager s, api_store s) of
             (_, sm1, s1) \<Rightarrow>
               (case csm_AddMessage (env_add env) (m_ConversationID m) m (sm1, s1) of
                  (_, sm2, s2) \<Rightarrow> s\<lparr>api_StateManager := sm2, api_store := s2\<rparr>))"

definition submitMessage :: "api_env \<Rightarrow> message bound \<Rightarrow> 's APIServer \<Rightarrow> reply \<times> 's APIServer" where
  "submitMessage env body s =
     (case body of
        Inl err \<Rightarrow> (error_reply 400 (''Invalid message format: '' @ err), s)
      | Inr m \<Rightarrow>
          let processed = api_analyse (pp_ProcessMessage (env_process env) (env_order env) (api_stamp env m) (api_Preprocessor s)) s
          in case api_enqueue env processed s of
               (Some reply, _, s1) \<Rightarrow> (reply, s1)
             | (None, queued, s1) \<Rightarrow>
                 let s2 = (if m_ConversationID queued \<noteq> '''' then updateConversationWithMessage env queued s1 else s1)
                 in ((202, Fields [(''message_id'', AString (m_ID queued)), (''priority'', AInt (m_Priority queued)),
                       (''queue_time'', ATime (env_reply env)),
                       (''estimated_wait'', AInt (estimateWaitTime (Priority_String (m_Priority queued))))]), s2))"

definition getMessage :: "string \<Rightarrow> reply" where
  "getMessage messageID =
     (if messageID = '''' then error_reply 400 ''Message ID is required''
      else error_reply 501 ''Get message by ID not implemented yet'')"

definition listMessages :: reply where
  "listMessages = error_reply 501 ''List messages not implemented yet''"

section \<open>Conversations\<close>

definition createConversation :: "api_env \<Rightarrow> (string \<times> metadata option) bound \<Rightarrow> 's APIServer \<Rightarrow> reply \<times> 's APIServer" where
  "createConversation env body s =
     (case body of
        Inl err \<Rightarrow> (error_reply 400 (''Invalid request format: '' @ err), s)
      | Inr (userID, _) \<Rightarrow>
          (case csm_GetConversation (env_get env) (env_uuid env) userID (api_StateManager s, api_store s) of
             (conversation, sm1, s1) \<Rightarrow>
               ((201, Fields [(''conversation_id'', AString (c_ID conversation)), (''user_id'', AString (c_UserID conversation)),
                   (''created_at'', ATime (c_CreatedAt conversation)), (''state'', AString (c_State conversation))]),
                s\<lparr>api_StateManager := sm1, api_store := s1\<rparr>)))"

definition getConversation :: "api_env \<Rightarrow> string \<Rightarrow> 's APIServer \<Rightarrow> reply \<times> 's APIServer" where
  "getConversation env conversationID s =
     (if conversationID = '''' then (error_reply 400 ''Conversation ID is required'', s)
      else case csm_GetConversation (env_get env) conversationID '''' (api_StateManager s, api_store s) of
             (conversation, sm1, s1) \<Rightarrow>
               ((200, OneConversation conversation), s\<lparr>api_StateManager := sm1, api_store := s1\<rparr>))"

definition addMessageToConversation :: "api_env \<Rightarrow> string \<Rightarrow> message bound \<Rightarrow> 's APIServer \<Rightarrow> reply \<times> 's APIServer" where
  "addMessageToConversation env conversationID body s =
     (if conversationID = '''' then (error_reply 400 ''Conversation ID is required'', s)
      else case body of
             Inl err \<Rightarrow> (error_reply 400 (''Invalid message format: '' @ err), s)
           | Inr m \<Rightarrow>
               let processed = pp_ProcessMessage (env_process env) (env_order env)
                     (api_stamp env (m\<lparr>m_ConversationID := conversationID\<rparr>)) (api_Preprocessor s)
               in case csm_AddMessage (env_add env) conversationID processed (api_StateManager s, api_store s) of
                    (Some _, sm1, s1) \<Rightarrow>
                      (error_reply 500 ''Failed to add message to conversation'', s\<lparr>api_StateManager := sm1, api_store := s1\<rparr>)
                  | (None, sm1, s1) \<Rightarrow>
                      (case api_enqueue env processed (s\<lparr>api_StateManager := sm1, api_store := s1\<rparr>) of
                         (Some reply, _, s2) \<Rightarrow> (reply, s2)
                       | (None, queued, s2) \<Rightarrow>
                           ((202, Fields [(''message_id'', AString (m_ID queued)), (''conversation_id'', AString conversationID),
                               (''priority'', AInt (m_Priority queued)), (''queue_time'', ATime (env_reply env)),
                               (''estimated_wait'', AInt (estimateWaitTime (Priority_String (m_Priority queued))))]), s2)))"

definition updateConversationState :: "api_env \<Rightarrow> string \<Rightarrow> string bound \<Rightarrow> 's APIServer \<Rightarrow> reply \<times> 's APIServer" where
  "updateConversationState env conversationID body s =
     (if conversationID = '''' then (error_reply 400 ''Conversation ID is required'', s)
      else case body of
             Inl err \<Rightarrow> (error_reply 400 (''Invalid request format: '' @ err), s)
           | Inr st \<Rightarrow>
               (case csm_UpdateConversationState (env_now env) conversationID st (api_StateManager s, api_store s) of
                  (err, sm1, s1) \<Rightarrow>
                    (case err of None \<Rightarrow> (200, Fields [(''status'', AString ''updated'')])
                     | Some _ \<Rightarrow> error_reply 500 ''Failed to update conversation state'',
                     s\<lparr>api_StateManager := sm1, api_store := s1\<rparr>)))"

definition listUserConversations :: "string \<Rightarrow> 's APIServer \<Rightarrow> reply \<times> 's APIServer" where
  "listUserConversations userID s =
     (if userID = '''' then (error_reply 400 ''User ID is required'', s)
      else case csm_GetUserConversations userID (api_StateManager s, api_store s) of
             (res, sm1, s1) \<Rightarrow>
               (case res of Inl _ \<Rightarrow> error_reply 500 ''Failed to get user conversations'' | Inr cs \<Rightarrow> (200, Conversations cs),
                s\<lparr>api_StateManager := sm1, api_store := s1\<rparr>))"

section \<open>Queues, resources and endpoints\<close>

fun api_stats_of :: "string list \<Rightarrow> QueueFactory \<Rightarrow> (string \<times> QueueStats) list" where
  "api_stats_of [] qf = []"
| "api_stats_of (name # names) qf =
     (case qf_GetQueueManager name qf of
        None \<Rightarrow> api_stats_of names qf
      | Some (manager, _) \<Rightarrow>
          (case qm_GetQueueStats name manager of
             Inl _ \<Rightarrow> api_stats_of names qf
           | Inr queueStats \<Rightarrow> (name, queueStats) # api_stats_of names qf))"

definition getQueueStats :: "'s APIServer \<Rightarrow> reply" where
  "getQueueStats s =
     (200, QueueStatistics (api_stats_of [''standard'', ''delayed'', ''dead_letter'', ''priority''] (api_QueueFactory s))
       (qf_GetWorkerStats (api_QueueFactory s)))"

text \<open>A registered resource is shared with the scheduler, which sets its status.\<close>

definition registerResource :: "api_env \<Rightarrow> Resource bound \<Rightarrow> 's APIServer \<Rightarrow> reply \<times> 's APIServer" where
  "registerResource env body s =
     (case body of
        Inl err \<Rightarrow> (error_reply 400 (''Invalid resource format: '' @ err), s)
      | Inr resource \<Rightarrow>
          let resource = (if res_ID resource = '''' then resource\<lparr>res_ID := env_uuid env\<rparr> else resource)
          in case rs_RegisterResource (env_now env) resource (api_ResScheduler s) of
               (Some _, rs) \<Rightarrow> (error_reply 500 ''Failed to register resource'', s\<lparr>api_ResScheduler := rs\<rparr>)
             | (None, rs) \<Rightarrow>
                 ((201, Fields [(''resource_id'', AString (res_ID resource)),
                     (''status'', AString (case rs_resources rs (res_ID resource) of None \<Rightarrow> '''' | Some registered \<Rightarrow> res_Status registered))]),
                  s\<lparr>api_ResScheduler := rs\<rparr>))"

definition listResources :: "api_env \<Rightarrow> 's APIServer \<Rightarrow> reply" where
  "listResources env s = (200, Resources (rs_GetAllResources (env_resources env) (api_ResScheduler s)))"

definition getResourceStats :: "api_env \<Rightarrow> 's APIServer \<Rightarrow> reply" where
  "getResourceStats env s =
     (200, ResourceStatistics (rs_GetResourceStats (env_resources env) (env_allocations env) (api_ResScheduler s)))"

text \<open>The calls of the load balancer wait for its mutex.\<close>

definition registerEndpoint :: "api_env \<Rightarrow> Endpoint bound \<Rightarrow> 's APIServer \<Rightarrow> (reply \<times> 's APIServer) call" where
  "registerEndpoint env body s =
     (case body of
        Inl err \<Rightarrow> Done (error_reply 400 (''Invalid endpoint format: '' @ err), s)
      | Inr endpoint \<Rightarrow>
          let endpoint = (if ep_ID endpoint = '''' then endpoint\<lparr>ep_ID := env_uuid env\<rparr> else endpoint);
              r = api_fresh_endpoint s;
              lb = (api_LoadBalancer s)\<lparr>lb_eps := (lb_eps (api_LoadBalancer s))(r := endpoint)\<rparr>
          in case with_lock (lb_AddEndpoint (env_types env) (env_now env) r) lb of
               Done (err, lb1) \<Rightarrow>
                 Done (case err of
                         Some _ \<Rightarrow> error_reply 500 ''Failed to register endpoint''
                       | None \<Rightarrow> (201, Fields [(''endpoint_id'', AString (ep_ID (lb_eps lb1 r))),
                                               (''status'', AString (ep_Status (lb_eps lb1 r)))]),
                       s\<lparr>api_LoadBalancer := lb1, api_fresh_endpoint := Suc r\<rparr>)
             | Waits \<Rightarrow> Waits | Panics \<Rightarrow> Panics)"

definition listEndpoints :: "api_env \<Rightarrow> 's APIServer \<Rightarrow> (reply \<times> 's APIServer) call" where
  "listEndpoints env s =
     (case with_lock (\<lambda>lb. (map (lb_eps lb) (lb_GetAllEndpoints (env_types env) lb), lb)) (api_LoadBalancer s) of
        Done (eps, _) \<Rightarrow> Done ((200, Endpoints eps), s) | Waits \<Rightarrow> Waits | Panics \<Rightarrow> Panics)"

definition getEndpointStats :: "api_env \<Rightarrow> 's APIServer \<Rightarrow> (reply \<times> 's APIServer) call" where
  "getEndpointStats env s =
     (case with_lock (\<lambda>lb. (lb_GetEndpointStats (env_types env) lb, lb)) (api_LoadBalancer s) of
        Done (stats, _) \<Rightarrow> Done ((200, EndpointStatistics stats), s) | Waits \<Rightarrow> Waits | Panics \<Rightarrow> Panics)"

section \<open>Administration\<close>

text \<open>A rule is only logged.\<close>

definition addPriorityRule :: "(string \<times> string \<times> string \<times> string) bound \<Rightarrow> reply" where
  "addPriorityRule body =
     (case body of
        Inl err \<Rightarrow> error_reply 400 (''Invalid rule format: '' @ err)
      | Inr _ \<Rightarrow> (201, Fields [(''status'', AString ''rule added'')]))"

definition listPriorityRules :: reply where
  "listPriorityRules = (200, Fields [(''rules'', AList [])])"

definition setUserPriority :: "(string \<times> string) bound \<Rightarrow> 's APIServer \<Rightarrow> reply \<times> 's APIServer" where
  "setUserPriority body s =
     (case body of
        Inl err \<Rightarrow> (error_reply 400 (''Invalid request format: '' @ err), s)
      | Inr (userID, p) \<Rightarrow>
          let priority = (if p = ''high'' then PriorityHigh
                          else if p = ''normal'' then PriorityNormal
                          else if p = ''low'' then PriorityLow
                          else PriorityNormal)
          in ((200, Fields [(''status'', AString ''user priority set'')]),
              s\<lparr>api_Preprocessor := pp_SetUserPriority userID priority (api_Preprocessor s)\<rparr>))"

definition removeMessage :: "string \<Rightarrow> string \<Rightarrow> 's APIServer \<Rightarrow> reply" where
  "removeMessage queueType messageID s =
     (if messageID = '''' then error_reply 400 ''Message ID is required''
      else if queueType \<notin> {''standard'', ''delayed'', ''dead_letter'', ''priority''} then error_reply 400 ''Invalid queue type''
      else case qf_GetQueueManager queueType (api_QueueFactory s) of
             None \<Rightarrow> error_reply 500 ''Failed to access message queue''
           | Some _ \<Rightarrow> error_reply 501 ''Remove message not implemented yet'')"

definition requeueDeadLetterMessage :: "string \<Rightarrow> 's APIServer \<Rightarrow> reply" where
  "requeueDeadLetterMessage messageID s =
     (if messageID = '''' then error_reply 400 ''Message ID is required''
      else case qf_GetQueueManager ''dead_letter'' (api_QueueFactory s) of
             None \<Rightarrow> error_reply 500 ''Failed to access dead letter queue''
           | Some _ \<Rightarrow> error_reply 501 ''Requeue dead letter message not implemented yet'')"

definition requeueAllDeadLetterMessages :: "'s APIServer \<Rightarrow> reply" where
  "requeueAllDeadLetterMessages s =
     (case qf_GetQueueManager ''dead_letter'' (api_QueueFactory s) of
        None \<Rightarrow> error_reply 500 ''Failed to access dead letter queue''
      | Some _ \<Rightarrow> error_reply 501 ''Requeue all dead letter messages not implemented yet'')"

section \<open>The routes\<close>

datatype api_call =
    HealthCheck
  | SubmitMessage "message bound"
  | GetMessage string
  | ListMessages
  | CreateConversation "(string \<times> metadata option) bound"
  | GetConversation string
  | AddMessageToConversation string "message bound"
  | UpdateConversationState string "string bound"
  | ListUserConversations string
  | GetQueueStats
  | RegisterResource "Resource bound"
  | ListResources
  | GetResourceStats
  | RegisterEndpoint "Endpoint bound"
  | ListEndpoints
  | GetEndpointStats
  | AddPriorityRule "(string \<times> string \<times> string \<times> string) bound"
  | ListPriorityRules
  | SetUserPriority "(string \<times> string) bound"
  | RemoveMessage string string
  | RequeueDeadLetterMessage string
  | RequeueAllDeadLetterMessages

fun api_route :: "api_call \<Rightarrow> string \<times> string" where
  "api_route HealthCheck = (''GET'', ''/health'')"
| "api_route (SubmitMessage _) = (''POST'', ''/api/v1/messages'')"
| "api_route (GetMessage _) = (''GET'', ''/api/v1/messages/:id'')"
| "api_route ListMessages = (''GET'', ''/api/v1/messages'')"
| "api_route (CreateConversation _) = (''POST'', ''/api/v1/conversations'')"
| "api_route (GetConversation _) = (''GET'', ''/api/v1/conversations/:id'')"
| "api_route (AddMessageToConversation _ _) = (''POST'', ''/api/v1/conversations/:id/messages'')"
| "api_route (UpdateConversationState _ _) = (''PUT'', ''/api/v1/conversations/:id/state'')"
| "api_route (ListUserConversations _) = (''GET'', ''/api/v1/users/:user_id/conversations'')"
| "api_route GetQueueStats = (''GET'', ''/api/v1/queues/stats'')"
| "api_route (RegisterResource _) = (''POST'', ''/api/v1/resources'')"
| "api_route ListResources = (''GET'', ''/api/v1/resources'')"
| "api_route GetResourceStats = (''GET'', ''/api/v1/resources/stats'')"
| "api_route (RegisterEndpoint _) = (''POST'', ''/api/v1/endpoints'')"
| "api_route ListEndpoints = (''GET'', ''/api/v1/endpoints'')"
| "api_route GetEndpointStats = (''GET'', ''/api/v1/endpoints/stats'')"
| "api_route (AddPriorityRule _) = (''POST'', ''/api/v1/admin/preprocessor/rules'')"
| "api_route ListPriorityRules = (''GET'', ''/api/v1/admin/preprocessor/rules'')"
| "api_route (SetUserPriority _) = (''POST'', ''/api/v1/admin/preprocessor/user-priorities'')"
| "api_route (RemoveMessage _ _) = (''DELETE'', ''/api/v1/admin/queues/:queue_type/:id'')"
| "api_route (RequeueDeadLetterMessage _) = (''POST'', ''/api/v1/admin/dead-letter/requeue/:id'')"
| "api_route RequeueAllDeadLetterMessages = (''POST'', ''/api/v1/admin/dead-letter/requeue-all'')"

fun api_handle :: "api_env \<Rightarrow> api_call \<Rightarrow> 's APIServer \<Rightarrow> (reply \<times> 's APIServer) call" where
  "api_handle env HealthCheck s = Done (healthCheck env, s)"
| "api_handle env (SubmitMessage body) s = Done (submitMessage env body s)"
| "api_handle env (GetMessage i) s = Done (getMessage i, s)"
| "api_handle env ListMessages s = Done (listMessages, s)"
| "api_handle env (CreateConversation body) s = Done (createConversation env body s)"
| "api_handle env (GetConversation i) s = Done (getConversation env i s)"
| "api_handle env (AddMessageToConversation i body) s = Done (addMessageToConversation env i body s)"
| "api_handle env (UpdateConversationState i body) s = Done (updateConversationState env i body s)"
| "api_handle env (ListUserConversations u) s = Done (listUserConversations u s)"
| "api_handle env GetQueueStats s = Done (getQueueStats s, s)"
| "api_handle env (RegisterResource body) s = Done (registerResource env body s)"
| "api_handle env ListResources s = Done (listResources env s, s)"
| "api_handle env GetResourceStats s = Done (getResourceStats env s, s)"
| "api_handle env (RegisterEndpoint body) s = registerEndpoint env body s"
| "api_handle env ListEndpoints s = listEndpoints env s"
| "api_handle env GetEndpointStats s = getEndpointStats env s"
| "api_handle env (AddPriorityRule body) s = Done (addPriorityRule body, s)"
| "api_handle env ListPriorityRules s = Done (listPriorityRules, s)"
| "api_handle env (SetUserPriority body) s = Done (setUserPriority body s)"
| "api_handle env (RemoveMessage q i) s = Done (removeMessage q i s, s)"
| "api_handle env (RequeueDeadLetterMessage i) s = Done (requeueDeadLetterMessage i s, s)"
| "api_handle env RequeueAllDeadLetterMessages s = Done (requeueAllDeadLetterMessages s, s)"

text \<open>Requests one after the other; a handler that waits for ever answers nothing more.\<close>

fun api_run :: "(api_env \<times> api_call) list \<Rightarrow> 's APIServer \<Rightarrow> (reply list \<times> 's APIServer) call" where
  "api_run [] s = Done ([], s)"
| "api_run ((env, c) # cs) s =
     (case api_handle env c s of
        Done (reply, s1) \<Rightarrow>
          (case api_run cs s1 of Done (replies, s2) \<Rightarrow> Done (reply # replies, s2) | Waits \<Rightarrow> Waits | Panics \<Rightarrow> Panics)
      | Waits \<Rightarrow> Waits | Panics \<Rightarrow> Panics)"

end
