(* ===== verification/ServerMain.thy ===== *)
theory ServerMain
  imports ApiServer RedisStore Scheduler
begin

text \<open>
  \<^verbatim>\<open>cmd/server/main.go\<close> and \<^verbatim>\<open>cmd/scheduler/main.go\<close>: which components a process creates, from
  which parts of its configuration, and in which order. The connections to the database and to
  Redis, flags and signals are outside.
\<close>

section \<open>The server\<close>

definition initPersistenceStore :: "key_order \<Rightarrow> Config \<Rightarrow> 'r redis_client \<Rightarrow> 'r PersistenceStore" where
  "initPersistenceStore keys cfg redisClient =
     redis_store keys (NewRedisPersistenceStore redisClient ''conversation:'' (qc_MaxRetentionPeriod (cf_Queue cfg)))"

text \<open>\<open>None\<close> is a panic; the managers start their monitors.\<close>

definition startWorkers ::
    "((string \<times> string \<times> string) list \<Rightarrow> 'm \<Rightarrow> 'm option) \<Rightarrow> QueueFactory \<times> 'm \<Rightarrow> (QueueFactory \<times> 'm) option" where
  "startWorkers must_register s =
     (case qf_CreateQueueManager must_register ''standard'' StandardQueueType s of
        None \<Rightarrow> None
      | Some (_, s1) \<Rightarrow>
          (case qf_CreateQueueManager must_register ''delayed'' DelayedQueueType s1 of
             None \<Rightarrow> None
           | Some (_, s2) \<Rightarrow>
               (case qf_CreateQueueManager must_register ''priority'' PriorityQueueType s2 of
                  None \<Rightarrow> None
                | Some (_, s3) \<Rightarrow> Some s3)))"

definition server_conversations :: "Config \<Rightarrow> 'r PersistenceStore \<Rightarrow> 'r StateManagerConfig" where
  "server_conversations cfg persistenceStore =
     \<lparr>smc_ConversationTTL = qc_MaxRetentionPeriod (cf_Queue cfg), smc_CleanupInterval = qc_CleanupInterval (cf_Queue cfg),
      smc_MaxConversations = 1000, smc_MaxContextLength = 4096, smc_MaxIdleTime = 30 * minute,
      smc_PersistenceEnabled = True, smc_PersistenceStore = Some persistenceStore\<rparr>"

text \<open>
  The process up to the start of the HTTP server. The factory is shared with the API server,
  so what \<open>startWorkers\<close> creates is there too. \<open>st\<close> and \<open>eps\<close> are the heap, \<open>r\<close> is Redis and
  \<open>reg\<close> the registry of the metrics.
\<close>

definition server_main ::
    "((string \<times> string \<times> string) list \<Rightarrow> 'm \<Rightarrow> 'm option) \<Rightarrow> key_order \<Rightarrow> 'r redis_client \<Rightarrow> Config
     \<Rightarrow> mstore \<Rightarrow> estore \<Rightarrow> 'r \<Rightarrow> 'm \<Rightarrow> ('r APIServer \<times> 'm) option" where
  "server_main must_register keys redisClient cfg st eps r reg =
     (let preproc = NewPreprocessor;
          queueFactory = NewQueueFactory (cf_Queue cfg);
          resScheduler = NewResourceScheduler (cf_Scheduler cfg);
          loadBalancer = NewLoadBalancer (cf_LoadBalancer cfg) eps;
          persistenceStore = initPersistenceStore keys cfg redisClient;
          stateManager = NewConversationStateManager (server_conversations cfg persistenceStore);
          apiServer = NewAPIServer queueFactory preproc stateManager loadBalancer resScheduler [''*''] cfg st r
      in map_option (\<lambda>(queueFactory', reg'). (apiServer\<lparr>api_QueueFactory := queueFactory'\<rparr>, reg'))
           (startWorkers must_register (queueFactory, reg)))"

text \<open>The end of the process; the server itself has nothing to stop.\<close>

definition api_Stop :: "'r APIServer \<Rightarrow> 'r APIServer" where
  "api_Stop s = s"

definition server_shutdown :: "'r APIServer \<Rightarrow> 'r APIServer" where
  "server_shutdown s =
     (let s1 = api_Stop s;
          s2 = s1\<lparr>api_QueueFactory := qf_StopAll (api_QueueFactory s1)\<rparr>
      in s2\<lparr>api_ResScheduler := rs_Stop (api_ResScheduler s2)\<rparr>)"

section \<open>The scheduler\<close>

definition scheduler_config :: "Config \<Rightarrow> SchedulerConfig" where
  "scheduler_config cfg =
     \<lparr>sc_Strategy = sd_Strategy (cf_Scheduler cfg), sc_MonitorInterval = sd_CheckInterval (cf_Scheduler cfg),
      sc_ScalingThresholds = [''scale_up_queue_length'' \<mapsto> 100, ''scale_down_queue_length'' \<mapsto> 10],
      sc_ResourceLimits = [''min_endpoints'' \<mapsto> 1, ''max_endpoints'' \<mapsto> 10],
      sc_AdaptiveParameters = [''response_time_weight'' \<mapsto> round64 (1 / 2), ''error_rate_weight'' \<mapsto> round64 (3 / 10)]\<rparr>"

text \<open>
  The queue of this process is its own, so it is the same at every tick; \<open>ticks\<close> are the ticks
  until the process is told to stop.
\<close>

definition scheduler_main :: "tick list \<Rightarrow> Config \<Rightarrow> estore \<Rightarrow> (Scheduler \<times> LoadBalancer) call" where
  "scheduler_main ticks cfg eps =
     (let multiQueue = (NewMultiLevelQueue (qc_DefaultMaxSize (cf_Queue cfg)) :: mref MultiLevelQueue);
          lb = NewLoadBalancer (cf_LoadBalancer cfg) eps
      in sch_Start (map (\<lambda>t. (t, multiQueue)) ticks) (NewScheduler (scheduler_config cfg)) lb)"

section \<open>The scheduler process\<close>

text \<open>
  The process of \<^verbatim>\<open>cmd/scheduler\<close> panics at its first tick under
  every configuration and every strategy: it creates a queue of its own, adds none of the four
  levels to it, and the tick reads their statistics.
\<close>

theorem scheduler_command_panics: "scheduler_main (t # ts) cfg eps = Panics"
  by (simp add: scheduler_main_def sch_Start_def scheduleResources_new_queue NewScheduler_def Let_def)

end
