(* ===== verification/ApiRuns.thy ===== *)
theory ApiRuns
  imports ServerMain ManagerRuns Conversations
begin

text \<open>
  What the handlers do to the queue and to the conversations, and what the server of
  \<^verbatim>\<open>cmd/server\<close> answers over any requests.
\<close>

section \<open>The queue of the server\<close>

definition api_manager :: "'s APIServer \<Rightarrow> QueueManager option" where
  "api_manager s = map_option fst (qf_managers (api_QueueFactory s) ''standard'')"

definition api_waiting :: "'s APIServer \<Rightarrow> string \<Rightarrow> mref multiset" where
  "api_waiting s n = (case api_manager s of None \<Rightarrow> {#} | Some qm \<Rightarrow> qm_waiting qm n)"

definition api_ok :: "'s APIServer \<Rightarrow> bool" where
  "api_ok s \<longleftrightarrow> (case api_manager s of None \<Rightarrow> True | Some qm \<Rightarrow> qm_inv qm)"

text \<open>What the push leaves alone, and what it does, from the contract of the queue manager.\<close>

lemma enqueue_frame:
  assumes "api_enqueue env m s = (res, queued, s')"
  shows "api_StateManager s' = api_StateManager s" "api_store s' = api_store s" "api_Preprocessor s' = api_Preprocessor s"
    "api_LoadBalancer s' = api_LoadBalancer s" "api_Config s' = api_Config s"
  using assms by (auto simp: api_enqueue_def Let_def split: option.splits prod.splits)

lemma enqueue_effect:
  assumes "api_ok s" and "api_enqueue env m s = (res, queued, s')"
  shows "api_ok s'" and "\<exists>p. queued = m\<lparr>m_Priority := p\<rparr>"
    and "res = None \<Longrightarrow> api_waiting s' = (api_waiting s)(Priority_String (m_Priority m) :=
        add_mset (api_fresh s) (api_waiting s (Priority_String (m_Priority m)))) \<and>
      api_messages s' (api_fresh s) = queued"
    and "res = Some r \<Longrightarrow> api_waiting s' = api_waiting s \<and> fst r = 500"
proof -
  have same: "\<exists>p. m = m\<lparr>m_Priority := p\<rparr>" by (rule exI [of _ "m_Priority m"]) simp
  have "api_ok s' \<and> (\<exists>p. queued = m\<lparr>m_Priority := p\<rparr>) \<and>
    (res = None \<longrightarrow> api_waiting s' = (api_waiting s)(Priority_String (m_Priority m) :=
        add_mset (api_fresh s) (api_waiting s (Priority_String (m_Priority m)))) \<and>
      api_messages s' (api_fresh s) = queued) \<and>
    (res \<noteq> None \<longrightarrow> api_waiting s' = api_waiting s \<and> fst (the res) = 500)"
  proof (cases "qf_managers (api_QueueFactory s) ''standard''")
    case None
    then have "res = Some (error_reply 500 ''Failed to access message queue'')" "queued = m"
      "api_QueueFactory s' = api_QueueFactory s"
      using assms(2) by (auto simp: api_enqueue_def Let_def qf_GetQueueManager_def)
    then show ?thesis using assms(1) same by (simp add: api_ok_def api_waiting_def api_manager_def fun_eq_iff error_reply_def)
  next
    case (Some managed)
    obtain qm life where ql: "managed = (qm, life)" by force
    have ok: "qm_inv qm" using assms(1) by (simp add: api_ok_def api_manager_def Some ql)
    let ?n = "Priority_String (m_Priority m)" and ?st = "(api_messages s)(api_fresh s := m)"
    obtain err qm' st' where push: "qm_PushMessage (env_push env) ?n (api_fresh s) (qm, ?st) = (err, qm', st')"
      by (metis prod_cases3)
    have res: "res = (case err of None \<Rightarrow> None | Some _ \<Rightarrow> Some (error_reply 500 ''Failed to queue message''))"
      "queued = st' (api_fresh s)" "api_messages s' = st'" "api_manager s' = Some qm'"
      using assms(2) Some ql push by (auto simp: api_enqueue_def Let_def qf_GetQueueManager_def api_manager_def)
    have "\<exists>p. st' (api_fresh s) = m\<lparr>m_Priority := p\<rparr>"
      using qm_sink.push_store [of "env_push env" ?n "api_fresh s" qm ?st] push by simp
    moreover have "qm_inv qm'" using qm_sink.push_keeps_ok [OF ok, of "env_push env" ?n "api_fresh s" ?st] push by simp
    moreover have "qm_waiting qm' = (if err = None then (qm_waiting qm)(?n := add_mset (api_fresh s) (qm_waiting qm ?n)) else qm_waiting qm)"
      using qm_sink.push_delivers [OF ok, of "env_push env" ?n "api_fresh s" ?st]
        qm_sink.push_fails [OF ok, of "env_push env" ?n "api_fresh s" ?st] push by (cases err) simp_all
    moreover have "api_waiting s = qm_waiting qm" by (simp add: api_waiting_def api_manager_def Some ql fun_eq_iff)
    moreover have "api_waiting s' = qm_waiting qm'" by (simp add: api_waiting_def res(4) fun_eq_iff)
    ultimately show ?thesis using res by (cases err) (simp_all add: api_ok_def error_reply_def)
  qed
  then show "api_ok s'" "\<exists>p. queued = m\<lparr>m_Priority := p\<rparr>"
    "res = None \<Longrightarrow> api_waiting s' = (api_waiting s)(Priority_String (m_Priority m) :=
        add_mset (api_fresh s) (api_waiting s (Priority_String (m_Priority m)))) \<and>
      api_messages s' (api_fresh s) = queued"
    "res = Some r \<Longrightarrow> api_waiting s' = api_waiting s \<and> fst r = 500" by auto
qed

section \<open>The conversation of a message\<close>

definition api_history :: "'s APIServer \<Rightarrow> string \<Rightarrow> message list" where
  "api_history s i = (case csm_conversations (api_StateManager s) i of None \<Rightarrow> [] | Some c \<Rightarrow> c_Messages c)"

lemma get_in_memory:
  assumes "csm_GetConversation clocks i u (sm, s) = (c, sm', s')"
  shows "\<exists>c'. csm_conversations sm' i = Some c'" and "csm_maxContextLength sm' = csm_maxContextLength sm"
proof -
  obtain now ts nows where clocks: "clocks = (now, ts, nows)" by (cases clocks)
  have "(\<exists>c'. csm_conversations sm' i = Some c') \<and> csm_maxContextLength sm' = csm_maxContextLength sm"
  proof (cases "csm_hit now i sm")
    case None
    obtain c1 s1 where f: "csm_fetch ts i u sm s = (c1, s1)" by force
    have "csm_install nows i u c1 (sm, s1) = (sm', s')" using assms None f by (auto simp: csm_GetConversation_def clocks)
    then have sm': "sm' = fst (csm_install nows i u c1 (sm, s1))" by simp
    show ?thesis using install_messages [of nows i u c1 sm s1] install_settings [of nows i u c1 sm s1]
      by (auto simp: sm')
  next
    case (Some h)
    then show ?thesis using assms by (cases h) (auto simp: csm_GetConversation_def clocks csm_hit_def Let_def csm_put_def split: option.splits)
  qed
  then show "\<exists>c'. csm_conversations sm' i = Some c'" "csm_maxContextLength sm' = csm_maxContextLength sm" by simp_all
qed

lemma cut_snoc: "\<exists>before. csm_cut sm (xs @ [x]) = before @ [x]"
  by (auto simp: csm_cut_def Let_def)

lemma update_with_message:
  assumes "m_ConversationID m \<noteq> ''''"
  shows "\<exists>before. api_history (updateConversationWithMessage env m s) (m_ConversationID m) = before @ [m]"
proof -
  obtain c sm1 s1 where get: "csm_GetConversation (env_get env) (m_ConversationID m) (m_UserID m) (api_StateManager s, api_store s) = (c, sm1, s1)"
    by (metis prod_cases3)
  obtain c1 where c1: "csm_conversations sm1 (m_ConversationID m) = Some c1" using get_in_memory(1) [OF get] by blast
  show ?thesis using cut_snoc [of sm1 "c_Messages c1" m] assms
    by (simp add: updateConversationWithMessage_def get csm_AddMessage_def c1 Let_def api_history_def)
qed

lemma update_frame:
  "api_QueueFactory (updateConversationWithMessage env m s) = api_QueueFactory s"
  "api_messages (updateConversationWithMessage env m s) = api_messages s"
  by (simp_all add: updateConversationWithMessage_def split: prod.split)

section \<open>The server that cmd/server starts\<close>

text \<open>The manager has no queue, and nobody holds the mutex of the load balancer.\<close>

definition closed :: "'s APIServer \<Rightarrow> bool" where
  "closed s \<longleftrightarrow> (\<exists>qm. api_manager s = Some qm \<and> qm_queues qm = Map.empty) \<and> \<not> lb_locked (api_LoadBalancer s)"

lemma closed_enqueue:
  assumes "closed s"
  shows "\<exists>s'. api_enqueue env m s = (Some (error_reply 500 ''Failed to queue message''), m, s') \<and> closed s'"
proof -
  obtain qm life where qm: "qf_managers (api_QueueFactory s) ''standard'' = Some (qm, life)" "qm_queues qm = Map.empty"
    using assms by (auto simp: closed_def api_manager_def)
  have "\<not> lb_locked (api_LoadBalancer s)" using assms by (simp add: closed_def)
  then show ?thesis
    using qm by (simp add: api_enqueue_def Let_def qf_GetQueueManager_def qm_PushMessage_def closed_def api_manager_def)
qed

lemma closed_upd [simp]:
  "closed (s\<lparr>api_StateManager := sm, api_store := st\<rparr>) = closed s" "closed (s\<lparr>api_ResScheduler := rs\<rparr>) = closed s"
  "closed (s\<lparr>api_Preprocessor := p\<rparr>) = closed s"
  by (simp_all add: closed_def api_manager_def)

lemma closed_submit:
  assumes "closed s" and "submitMessage env body s = (reply, s')"
  shows "closed s' \<and> fst reply \<in> {400, 500}"
proof (cases body)
  case (Inl err)
  then show ?thesis using assms by (auto simp: submitMessage_def error_reply_def)
next
  case (Inr m)
  define pm where "pm = api_analyse (pp_ProcessMessage (env_process env) (env_order env) (api_stamp env m) (api_Preprocessor s)) s"
  obtain s1 where "api_enqueue env pm s = (Some (error_reply 500 ''Failed to queue message''), pm, s1)" "closed s1"
    using closed_enqueue [OF assms(1), of env pm] by blast
  then show ?thesis using assms Inr by (auto simp: submitMessage_def pm_def [symmetric] Let_def error_reply_def)
qed

lemma closed_add:
  assumes "closed s" and "addMessageToConversation env i body s = (reply, s')"
  shows "closed s' \<and> fst reply \<in> {400, 500}"
proof (cases "i = '''' \<or> (\<exists>err. body = Inl err)")
  case True
  then have "s' = s \<and> fst reply = 400" using assms(2)
    by (cases "i = ''''") (auto simp: addMessageToConversation_def error_reply_def)
  then show ?thesis using assms(1) by simp
next
  case False
  then obtain m where m: "body = Inr m" "i \<noteq> ''''" by (cases body) auto
  define pm where "pm = pp_ProcessMessage (env_process env) (env_order env) (api_stamp env (m\<lparr>m_ConversationID := i\<rparr>)) (api_Preprocessor s)"
  obtain err sm1 s1 where add: "csm_AddMessage (env_add env) i pm (api_StateManager s, api_store s) = (err, sm1, s1)"
    by (metis prod_cases3)
  obtain s2 where s2: "api_enqueue env pm (s\<lparr>api_StateManager := sm1, api_store := s1\<rparr>) = (Some (error_reply 500 ''Failed to queue message''), pm, s2)"
    "closed s2"
    using closed_enqueue [of "s\<lparr>api_StateManager := sm1, api_store := s1\<rparr>" env pm] assms(1) by auto
  show ?thesis
    using assms m add s2 by (cases err) (auto simp: addMessageToConversation_def pm_def [symmetric] Let_def error_reply_def)
qed

lemma lb_AddEndpoint_locked: "lb_locked (snd (lb_AddEndpoint order now r lb)) = lb_locked lb"
  by (simp add: lb_AddEndpoint_def lb_update_def Let_def)

lemma closed_handle:
  assumes "closed s"
  shows "\<exists>reply s'. api_handle env c s = Done (reply, s') \<and> closed s' \<and> fst reply \<noteq> 202"
proof (cases c)
  case (SubmitMessage body)
  then show ?thesis using closed_submit [OF assms, of env body] by (cases "submitMessage env body s") auto
next
  case (AddMessageToConversation i body)
  then show ?thesis using closed_add [OF assms, of env i body] by (cases "addMessageToConversation env i body s") auto
next
  case (RegisterEndpoint body)
  have free: "\<not> lb_locked (api_LoadBalancer s)" using assms by (simp add: closed_def)
  show ?thesis
  proof (cases body)
    case (Inr e)
    define e1 where "e1 = (if ep_ID e = '''' then e\<lparr>ep_ID := env_uuid env\<rparr> else e)"
    define lb where "lb = (api_LoadBalancer s)\<lparr>lb_eps := (lb_eps (api_LoadBalancer s))(api_fresh_endpoint s := e1)\<rparr>"
    obtain err lb1 where add: "lb_AddEndpoint (env_types env) (env_now env) (api_fresh_endpoint s) lb = (err, lb1)" by force
    have "\<not> lb_locked lb" using free by (simp add: lb_def)
    moreover from this have "\<not> lb_locked lb1" using lb_AddEndpoint_locked [of "env_types env" "env_now env" "api_fresh_endpoint s" lb] add by simp
    ultimately show ?thesis
      using assms add by (cases err) (simp_all add: RegisterEndpoint Inr registerEndpoint_def Let_def with_lock_def e1_def [symmetric]
          lb_def [symmetric] closed_def api_manager_def error_reply_def)
  qed (simp add: RegisterEndpoint registerEndpoint_def assms error_reply_def)
next
  case ListEndpoints
  then show ?thesis using assms by (simp add: listEndpoints_def with_lock_def closed_def)
next
  case GetEndpointStats
  then show ?thesis using assms by (simp add: getEndpointStats_def with_lock_def closed_def)
next
  case (CreateConversation body)
  then show ?thesis using assms by (auto simp: createConversation_def error_reply_def split: sum.split prod.split)
next
  case (GetConversation i)
  then show ?thesis using assms by (auto simp: getConversation_def error_reply_def split: prod.split)
next
  case (UpdateConversationState i body)
  then show ?thesis
    using assms by (auto simp: updateConversationState_def error_reply_def split: sum.split prod.split option.split)
next
  case (ListUserConversations u)
  then show ?thesis using assms by (auto simp: listUserConversations_def error_reply_def split: sum.split prod.split)
next
  case (RegisterResource body)
  then show ?thesis
    using assms by (auto simp: registerResource_def Let_def error_reply_def split: sum.split prod.split option.split)
next
  case (SetUserPriority body)
  then show ?thesis using assms by (auto simp: setUserPriority_def error_reply_def Let_def split: sum.split prod.split)
qed (use assms in \<open>auto simp: healthCheck_def getMessage_def listMessages_def getQueueStats_def listResources_def
    getResourceStats_def addPriorityRule_def listPriorityRules_def removeMessage_def requeueDeadLetterMessage_def
    requeueAllDeadLetterMessages_def error_reply_def split: sum.split option.split\<close>)

lemma closed_run:
  "closed s \<Longrightarrow> \<exists>replies s'. api_run cs s = Done (replies, s') \<and> closed s' \<and> length replies = length cs \<and> 202 \<notin> fst ` set replies"
proof (induction cs arbitrary: s)
  case (Cons ec cs)
  obtain env c where ec: "ec = (env, c)" by force
  obtain reply s1 where h: "api_handle env c s = Done (reply, s1)" "closed s1" "fst reply \<noteq> 202"
    using closed_handle [OF Cons.prems] by blast
  obtain replies s2 where r: "api_run cs s1 = Done (replies, s2)" "closed s2" "length replies = length cs" "202 \<notin> fst ` set replies"
    using Cons.IH [OF h(2)] by blast
  then show ?case using h ec by auto
qed simp

lemma create_manager:
  assumes "qf_CreateQueueManager must_register name t (qf, reg) = Some (mg, qf', reg')"
  shows "qf_config qf' = qf_config qf" "\<forall>k qm life. qf_managers qf' k = Some (qm, life) \<longrightarrow> qf_managers qf k = Some (qm, life) \<or> qm_queues qm = Map.empty"
    "qf_managers qf' name \<noteq> None" "qf_managers qf k \<noteq> None \<Longrightarrow> qf_managers qf' k \<noteq> None"
  using assms
  by (auto simp: qf_CreateQueueManager_def NewQueueManager_def Let_def split: option.splits if_splits)

lemma server_closed:
  assumes "server_main must_register keys client cfg st eps r reg = Some (s, reg')"
  shows "closed s"
proof -
  obtain qf' where qf': "startWorkers must_register (NewQueueFactory (cf_Queue cfg), reg) = Some (qf', reg')"
    "api_QueueFactory s = qf'" "api_LoadBalancer s = NewLoadBalancer (cf_LoadBalancer cfg) eps"
    using assms by (auto simp: server_main_def Let_def NewAPIServer_def)
  obtain m1 qf1 reg1 where 1: "qf_CreateQueueManager must_register ''standard'' StandardQueueType (NewQueueFactory (cf_Queue cfg), reg) = Some (m1, qf1, reg1)"
    and rest: "(case qf_CreateQueueManager must_register ''delayed'' DelayedQueueType (qf1, reg1) of None \<Rightarrow> None
      | Some (_, s2) \<Rightarrow> (case qf_CreateQueueManager must_register ''priority'' PriorityQueueType s2 of None \<Rightarrow> None | Some (_, s3) \<Rightarrow> Some s3)) = Some (qf', reg')"
    using qf'(1) by (auto simp: startWorkers_def split: option.splits)
  obtain m2 qf2 reg2 where 2: "qf_CreateQueueManager must_register ''delayed'' DelayedQueueType (qf1, reg1) = Some (m2, qf2, reg2)"
    and rest2: "(case qf_CreateQueueManager must_register ''priority'' PriorityQueueType (qf2, reg2) of None \<Rightarrow> None | Some (_, s3) \<Rightarrow> Some s3) = Some (qf', reg')"
    using rest by (auto split: option.splits)
  obtain m3 where 3: "qf_CreateQueueManager must_register ''priority'' PriorityQueueType (qf2, reg2) = Some (m3, qf', reg')"
    using rest2 by (auto split: option.splits)
  have "qf_managers qf' ''standard'' \<noteq> None"
    using create_manager(3) [OF 1] create_manager(4) [OF 2] create_manager(4) [OF 3] by blast
  then obtain qm life where qm: "qf_managers qf' ''standard'' = Some (qm, life)" by auto
  then have "qm_queues qm = Map.empty"
    using create_manager(2) [OF 1] create_manager(2) [OF 2] create_manager(2) [OF 3]
    by (metis NewQueueFactory_def QueueFactory.select_convs(1) option.distinct(1))
  then show ?thesis using qm qf' by (simp add: closed_def api_manager_def NewLoadBalancer_def Let_def)
qed

end
