(* ===== verification/ServerRuns.thy ===== *)
theory ServerRuns
  imports ApiRuns
begin

text \<open>
  The properties of the API server: what a submitted message leaves behind, what a conversation
  goes through, and what the server that \<^verbatim>\<open>cmd/server\<close> starts does with messages of a
  conversation; the process around it is in ServerProcess.
\<close>

section \<open>A server with a queue\<close>

definition sample_server :: "unit APIServer" where
  "sample_server =
     NewAPIServer
       ((NewQueueFactory (cf_Queue GetDefaultConfig))\<lparr>qf_managers :=
          [''standard'' \<mapsto> (qm_CreateQueue ''high'' 10 1 (qm_init (sample_config\<lparr>qmc_PriorityAdjustRules := []\<rparr>)), life_init)]\<rparr>)
       NewPreprocessor (sample_manager None) (NewLoadBalancer sample_lb_config sample_estore)
       (NewResourceScheduler (cf_Scheduler GetDefaultConfig)) [''*''] GetDefaultConfig (\<lambda>r. sample_message) ()"

definition sample_api_env :: api_env where
  "sample_api_env =
     \<lparr>env_uuid = ''id'', env_now = 10, env_process = (10, 10), env_order = [PriorityRealtime, PriorityHigh], env_push = (11, 11),
      env_get = (12, (12, 12), \<lambda>_. 12), env_add = 13, env_reply = 14, env_types = [], env_resources = [], env_allocations = []\<rparr>"

definition sample_post :: message where
  "sample_post = (NewMessage '''' ''a'' ''u'' ''hello'' PriorityHigh 1 1)"

lemma sample_server_ok: "api_ok sample_server"
  by (simp add: api_ok_def api_manager_def sample_server_def NewAPIServer_def qm_sync_CreateQueue [unfolded qm_sync_def] qm_inv_init)

section \<open>Submitting\<close>

text \<open>The message as it reaches the queue.\<close>

definition analysed :: "api_env \<Rightarrow> message \<Rightarrow> 's APIServer \<Rightarrow> message" where
  "analysed env m s =
     api_analyse (pp_ProcessMessage (env_process env) (env_order env) (api_stamp env m) (api_Preprocessor s)) s"

text \<open>
  C4 (submission). A message that is submitted is analysed and then all of this happens, or
  nothing of it but the error: the reply is 202, the reference of the message joins the queue
  of its priority, the message behind it is the analysed one up to the priority the rules of
  the manager give it, and when it names a conversation the history of the conversation ends
  with it. Otherwise the reply is 500 and the queues, the conversations and the store are as
  before.
\<close>

theorem submit_all_or_nothing:
  assumes "api_ok s" and "submitMessage env (Inr m) s = (reply, s')"
  shows "if fst reply = 202
    then api_waiting s' = (api_waiting s)(Priority_String (m_Priority (analysed env m s)) :=
          add_mset (api_fresh s) (api_waiting s (Priority_String (m_Priority (analysed env m s))))) \<and>
      (\<exists>p. api_messages s' (api_fresh s) = (analysed env m s)\<lparr>m_Priority := p\<rparr> \<and>
        (m_ConversationID (analysed env m s) \<noteq> '''' \<longrightarrow>
          (\<exists>before. api_history s' (m_ConversationID (analysed env m s)) = before @ [(analysed env m s)\<lparr>m_Priority := p\<rparr>])))
    else fst reply = 500 \<and> api_waiting s' = api_waiting s \<and> api_StateManager s' = api_StateManager s \<and> api_store s' = api_store s"
proof -
  obtain res queued s1 where enq: "api_enqueue env (analysed env m s) s = (res, queued, s1)" by (metis prod_cases3)
  note effect = enqueue_effect [OF assms(1) enq] and frame = enqueue_frame [OF enq]
  show ?thesis
  proof (cases res)
    case (Some r)
    then have "reply = r" "s' = s1" using assms(2) enq by (simp_all add: submitMessage_def analysed_def Let_def)
    then show ?thesis using effect(4) [OF Some] frame by simp
  next
    case None
    then have "fst reply = 202" and s': "s' = (if m_ConversationID queued \<noteq> '''' then updateConversationWithMessage env queued s1 else s1)"
      using assms(2) enq by (auto simp: submitMessage_def analysed_def Let_def)
    obtain p where p: "queued = (analysed env m s)\<lparr>m_Priority := p\<rparr>" using effect(2) by blast
    have "api_waiting s' = api_waiting s1" "api_messages s' = api_messages s1"
      by (simp_all add: s' update_frame api_waiting_def api_manager_def fun_eq_iff)
    moreover have "\<exists>before. api_history s' (m_ConversationID queued) = before @ [queued]" if "m_ConversationID queued \<noteq> ''''"
      using update_with_message [OF that] that by (simp add: s')
    ultimately show ?thesis using effect(3) [OF None] \<open>fst reply = 202\<close> p by auto
  qed
qed

lemma sample_analysed:
  "m_Priority (analysed sample_api_env sample_post sample_server) = PriorityHigh"
  "m_ConversationID (analysed sample_api_env sample_post sample_server) = ''a''"
  by (simp_all add: analysed_def api_analyse_def pp_ProcessMessage_def api_stamp_def sample_post_def NewMessage_def
      priority_defs Let_def)

lemma sample_push: "fst (api_enqueue sample_api_env m sample_server) = None" if "m_Priority m = PriorityHigh"
  using that
  by (simp add: api_enqueue_def sample_server_def NewAPIServer_def qf_GetQueueManager_def qm_PushMessage_def
      qm_CreateQueue_def qm_init_def sample_config_def NewMultiLevelQueue_def mlq_AddQueue_def mlq_Push_def qm_apply_rules_def
      Priority_String_def priority_defs Let_def pq_Init_Nil)

theorem submit_all_or_nothing_witness:
  "api_waiting (snd (submitMessage sample_api_env (Inr sample_post) sample_server)) ''high'' = {#0#}"
proof -
  obtain reply s' where sub: "submitMessage sample_api_env (Inr sample_post) sample_server = (reply, s')" by (metis surj_pair)
  have "fst reply = 202" using sub sample_push [OF sample_analysed(1)]
    by (auto simp: submitMessage_def analysed_def Let_def split: prod.splits)
  moreover have "api_waiting sample_server ''high'' = {#}" "api_fresh sample_server = 0"
    by (simp_all add: api_waiting_def api_manager_def sample_server_def NewAPIServer_def qm_waiting_def qm_CreateQueue_def
        qm_init_def sample_config_def NewMultiLevelQueue_def mlq_AddQueue_def mlq_waiting_def pq_entries_def Let_def pq_Init_Nil)
  ultimately show ?thesis
    using submit_all_or_nothing [OF sample_server_ok sub] sub sample_analysed by (simp add: Priority_String_def priority_defs)
qed

section \<open>What the server answers\<close>

lemma closed_waiting: "closed s \<Longrightarrow> api_waiting s n = {#}"
  by (auto simp: closed_def api_waiting_def qm_waiting_def)

text \<open>Without metrics nothing is registered, and the server starts.\<close>

lemma create_total:
  "\<not> qc_EnableMetrics (qf_config qf) \<Longrightarrow> \<exists>mg qf'. qf_CreateQueueManager must_register n t (qf, reg) = Some (mg, qf', reg) \<and> qf_config qf' = qf_config qf"
  by (auto simp: qf_CreateQueueManager_def qf_createManagerConfig_def NewQueueManager_def Let_def split: option.splits)

lemma server_total:
  assumes "\<not> qc_EnableMetrics (cf_Queue cfg)"
  shows "\<exists>s. server_main must_register keys client cfg st eps r reg = Some (s, reg)"
proof -
  have "\<not> qc_EnableMetrics (qf_config (NewQueueFactory (cf_Queue cfg)))" using assms by (simp add: NewQueueFactory_def)
  then obtain m1 qf1 where 1: "qf_CreateQueueManager must_register ''standard'' StandardQueueType (NewQueueFactory (cf_Queue cfg), reg) =
      Some (m1, qf1, reg)" "\<not> qc_EnableMetrics (qf_config qf1)"
    using create_total by metis
  obtain m2 qf2 where 2: "qf_CreateQueueManager must_register ''delayed'' DelayedQueueType (qf1, reg) = Some (m2, qf2, reg)"
    "\<not> qc_EnableMetrics (qf_config qf2)"
    using create_total 1(2) by metis
  obtain m3 qf3 where "qf_CreateQueueManager must_register ''priority'' PriorityQueueType (qf2, reg) = Some (m3, qf3, reg)"
    using create_total 2(2) by metis
  with 1(1) 2(1) show ?thesis by (simp add: server_main_def startWorkers_def Let_def)
qed

definition quiet_config :: Config where
  "quiet_config = GetDefaultConfig\<lparr>cf_Queue := (cf_Queue GetDefaultConfig)\<lparr>qc_EnableMetrics := False\<rparr>\<rparr>"

text \<open>
  With metrics enabled, and a registry that refuses the names it holds, the
  server panics while it starts: the first manager registers the names and the second one
  registers them again.
\<close>

theorem server_metrics_panics:
  assumes "\<And>names reg n. n \<in> set names \<Longrightarrow> n \<in> held reg \<Longrightarrow> must_register names reg = None"
    and "\<And>names reg reg'. must_register names reg = Some reg' \<Longrightarrow> set names \<subseteq> held reg'"
    and "qc_EnableMetrics (cf_Queue cfg)"
  shows "server_main must_register keys client cfg st eps r reg = None"
proof (cases "qf_CreateQueueManager must_register ''standard'' StandardQueueType (NewQueueFactory (cf_Queue cfg), reg)")
  case (Some res)
  obtain manager qf1 reg1 where res: "res = (manager, qf1, reg1)" by (metis surj_pair)
  have "qf_CreateQueueManager must_register ''delayed'' DelayedQueueType (qf1, reg1) = None"
    by (rule qf_second_manager_panics [OF assms Some [unfolded res]]) simp_all
  then show ?thesis by (simp add: server_main_def startWorkers_def Some res Let_def)
qed (simp add: server_main_def startWorkers_def Let_def)

theorem server_metrics_panics_witness:
  "server_main sample_register sample_keys mem_client GetDefaultConfig (\<lambda>_. sample_post) sample_estore Map.empty [] = None"
  by (rule server_metrics_panics [where held = set]) (auto simp: sample_register_def GetDefaultConfig_def split: if_splits)

section \<open>A new conversation\<close>

lemma archive_other:
  "i \<notin> set ids \<Longrightarrow> csm_conversations (fst (csm_archive nows ids (sm, s))) i = csm_conversations sm i"
  by (induction nows ids "(sm, s)" arbitrary: sm s rule: csm_archive.induct)
    (auto simp: Let_def csm_put_def split: option.splits)

lemma install_keeps: "csm_conversations (fst (csm_install nows i u c (sm, s))) i = Some c"
proof -
  have "i \<notin> set (take (length (ids @ [i]) - nat k) (ids @ [i]))" if "i \<notin> set ids" "0 < k" for ids and k :: int
    using that by (auto dest: in_set_takeD)
  then show ?thesis
    by (auto simp: csm_install_def csm_addToActiveUsers_def Let_def archive_other simp del: length_append split: option.splits)
qed

lemma create_effect:
  assumes "csm_conversations (api_StateManager s) (env_uuid env) = None"
    and "\<And>store. csm_store (api_StateManager s) = Some store \<Longrightarrow> \<exists>err. fst (ps_LoadConversation store (env_uuid env) (api_store s)) = Inl err"
  shows "\<exists>created ts s'. createConversation env (Inr (u, md)) s = ((201, created), s') \<and>
    csm_conversations (api_StateManager s') (env_uuid env) = Some (csm_new_conversation ts (env_uuid env) u) \<and>
    csm_maxContextLength (api_StateManager s') = csm_maxContextLength (api_StateManager s)"
proof -
  let ?i = "env_uuid env"
  obtain now ts nows where clocks: "env_get env = (now, ts, nows)" by (cases "env_get env")
  let ?new = "csm_new_conversation ts ?i u"
  obtain r1 where fetch: "csm_fetch ts ?i u (api_StateManager s) (api_store s) = (?new, r1)"
    using assms(2) by (cases "csm_store (api_StateManager s)") (force simp: csm_fetch_def split: prod.splits sum.splits)+
  obtain sm1 s1 where inst: "csm_install nows ?i u ?new (api_StateManager s, r1) = (sm1, s1)" by (metis surj_pair)
  have "csm_GetConversation (env_get env) ?i u (api_StateManager s, api_store s) = (?new, sm1, s1)"
    by (simp add: csm_GetConversation_def clocks csm_hit_def assms(1) fetch inst)
  moreover have "csm_conversations sm1 ?i = Some ?new" "csm_maxContextLength sm1 = csm_maxContextLength (api_StateManager s)"
    using install_keeps [of nows ?i u ?new "api_StateManager s" r1] install_settings [of nows ?i u ?new "api_StateManager s" r1] inst
    by simp_all
  ultimately show ?thesis by (cases ts) (auto simp: createConversation_def)
qed

section \<open>Messages of a conversation\<close>

lemma add_step:
  assumes "closed s" and "i \<noteq> ''''" and "csm_conversations (api_StateManager s) i = Some c"
    and "int (length (c_Messages c)) < csm_maxContextLength (api_StateManager s)"
    and "addMessageToConversation env i (Inr m) s = (reply, s')"
  shows "closed s' \<and> fst reply = 500 \<and> csm_maxContextLength (api_StateManager s') = csm_maxContextLength (api_StateManager s) \<and>
    (\<exists>c'. csm_conversations (api_StateManager s') i = Some c' \<and> length (c_Messages c') = Suc (length (c_Messages c)))"
proof -
  define pm where "pm = pp_ProcessMessage (env_process env) (env_order env) (api_stamp env (m\<lparr>m_ConversationID := i\<rparr>)) (api_Preprocessor s)"
  obtain err sm1 s1 where add: "csm_AddMessage (env_add env) i pm (api_StateManager s, api_store s) = (err, sm1, s1)"
    by (metis prod_cases3)
  have "csm_cut (api_StateManager s) (c_Messages c @ [pm]) = c_Messages c @ [pm]" using assms(4) by (simp add: csm_cut_def)
  then have sm1: "err = None" "csm_maxContextLength sm1 = csm_maxContextLength (api_StateManager s)"
    "\<exists>c'. csm_conversations sm1 i = Some c' \<and> length (c_Messages c') = Suc (length (c_Messages c))"
    using add assms(3) by (auto simp: csm_AddMessage_def Let_def)
  let ?s1 = "s\<lparr>api_StateManager := sm1, api_store := s1\<rparr>"
  obtain s2 where s2: "api_enqueue env pm ?s1 = (Some (error_reply 500 ''Failed to queue message''), pm, s2)" "closed s2"
    using closed_enqueue [of ?s1 env pm] assms(1) by auto
  have "reply = error_reply 500 ''Failed to queue message''" "s' = s2"
    using assms(2,5) add s2(1) sm1(1) by (simp_all add: addMessageToConversation_def pm_def [symmetric] Let_def)
  then show ?thesis using s2(2) enqueue_frame(1) [OF s2(1)] sm1(2,3) by (simp add: error_reply_def)
qed

text \<open>
  Messages that are added to a conversation of the server of
  \<^verbatim>\<open>cmd/server\<close> are all answered with 500, and yet all of them stay in its history, also when
  they are the same message sent again: the handler stores the message before it finds that
  there is no queue for it.
\<close>

theorem failed_adds_accumulate:
  assumes "server_main must_register keys client cfg st eps r reg = Some (s0, reg')" and "api_run cs s0 = Done (replies0, s)"
    and "i \<noteq> ''''" and "csm_conversations (api_StateManager s) i = Some c"
    and "int (length (c_Messages c) + length posts) \<le> csm_maxContextLength (api_StateManager s)"
  shows "\<exists>replies s'. api_run (map (\<lambda>(env, m). (env, AddMessageToConversation i (Inr m))) posts) s = Done (replies, s') \<and>
    map fst replies = replicate (length posts) 500 \<and>
    length (api_history s' i) = length (c_Messages c) + length posts"
proof -
  have "closed s" using closed_run [OF server_closed [OF assms(1)], of cs] assms(2) by auto
  then show ?thesis
    using assms(3-5)
  proof (induction posts arbitrary: s c)
    case Nil
    then show ?case by (simp add: api_history_def)
  next
    case (Cons p posts)
    obtain env m where p: "p = (env, m)" by force
    obtain reply s1 where add: "addMessageToConversation env i (Inr m) s = (reply, s1)" by (metis surj_pair)
    have "int (length (c_Messages c)) < csm_maxContextLength (api_StateManager s)" using Cons.prems(4) by simp
    from add_step [OF Cons.prems(1-3) this add] obtain c' where s1: "closed s1" "fst reply = 500"
      "csm_maxContextLength (api_StateManager s1) = csm_maxContextLength (api_StateManager s)"
      "csm_conversations (api_StateManager s1) i = Some c'" "length (c_Messages c') = Suc (length (c_Messages c))" by blast
    have "int (length (c_Messages c') + length posts) \<le> csm_maxContextLength (api_StateManager s1)"
      using Cons.prems(4) s1(3,5) by simp
    from Cons.IH [OF s1(1) Cons.prems(2) s1(4) this] show ?case using p add s1(2,5) by auto
  qed
qed

section \<open>The life of a conversation\<close>

text \<open>
  When the fresh identifier is new to the server and to its store,
  creating a conversation, setting its state and reading it answers 201, 200 and 200, and what
  is read belongs to the user, is in that state and has no message.
\<close>

theorem api_conversation_lifecycle:
  assumes "env_uuid env \<noteq> ''''" and "csm_conversations (api_StateManager s) (env_uuid env) = None"
    and "\<And>store. csm_store (api_StateManager s) = Some store \<Longrightarrow> \<exists>err. fst (ps_LoadConversation store (env_uuid env) (api_store s)) = Inl err"
  shows "\<exists>created c s'. api_run [(env, CreateConversation (Inr (u, md))), (env1, UpdateConversationState (env_uuid env) (Inr st)),
      (env2, GetConversation (env_uuid env))] s =
        Done ([(201, created), (200, Fields [(''status'', AString ''updated'')]), (200, OneConversation c)], s') \<and>
    c_ID c = env_uuid env \<and> c_UserID c = u \<and> c_State c = st \<and> c_Messages c = []"
proof -
  let ?i = "env_uuid env"
  obtain now2 ts2 nows2 where clocks2: "env_get env2 = (now2, ts2, nows2)" by (cases "env_get env2")
  obtain created ts s1 where created: "createConversation env (Inr (u, md)) s = ((201, created), s1)"
    "csm_conversations (api_StateManager s1) ?i = Some (csm_new_conversation ts ?i u)"
    using create_effect [OF assms(2,3)] by blast
  obtain sm2 r2 c2 where upd: "csm_UpdateConversationState (env_now env1) ?i st (api_StateManager s1, api_store s1) = (None, sm2, r2)"
    "csm_conversations sm2 ?i = Some c2" "c_ID c2 = ?i" "c_UserID c2 = u" "c_State c2 = st" "c_Messages c2 = []"
    using created(2) by (simp add: csm_UpdateConversationState_def Let_def csm_new_conversation_def)
  show ?thesis
    using assms(1) created(1) upd
    by (simp add: updateConversationState_def getConversation_def csm_GetConversation_def clocks2 csm_hit_def Let_def)
qed

lemma sample_server_new:
  "csm_conversations (api_StateManager sample_server) ''id'' = None" "csm_store (api_StateManager sample_server) = None"
  by (simp_all add: sample_server_def NewAPIServer_def sample_manager_def sample_csm_config_def NewConversationStateManager_def
      csm_store_def csm_put_def)

theorem api_conversation_lifecycle_witness:
  "\<exists>created c s'. api_run [(sample_api_env, CreateConversation (Inr (''u'', None))),
      (sample_api_env, UpdateConversationState ''id'' (Inr ConversationStateInactive)), (sample_api_env, GetConversation ''id'')] sample_server =
        Done ([(201, created), (200, Fields [(''status'', AString ''updated'')]), (200, OneConversation c)], s') \<and>
    c_ID c = ''id'' \<and> c_UserID c = ''u'' \<and> c_State c = ConversationStateInactive \<and> c_Messages c = []"
proof -
  have i: "env_uuid sample_api_env = ''id''" by (simp add: sample_api_env_def)
  show ?thesis
    using api_conversation_lifecycle [of sample_api_env sample_server "''u''" None sample_api_env ConversationStateInactive sample_api_env]
      sample_server_new by (simp add: i)
qed

lemma server_conversations_new:
  assumes "server_main must_register keys client cfg st eps r reg = Some (s, reg')"
  shows "api_StateManager s = NewConversationStateManager (server_conversations cfg (initPersistenceStore keys cfg client))"
    and "api_store s = r"
  using assms by (auto simp: server_main_def NewAPIServer_def Let_def)

theorem failed_adds_accumulate_witness:
  "\<exists>s replies s'. server_main sample_register sample_keys mem_client quiet_config (\<lambda>_. sample_post) sample_estore Map.empty [] = Some (s, []) \<and>
     api_run ((sample_api_env, CreateConversation (Inr (''u'', None))) #
       [(sample_api_env, AddMessageToConversation ''id'' (Inr sample_post)), (sample_api_env, AddMessageToConversation ''id'' (Inr sample_post))]) s =
       Done (replies, s') \<and> map fst (tl replies) = [500, 500] \<and> length (api_history s' ''id'') = 2"
proof -
  obtain s where s: "server_main sample_register sample_keys mem_client quiet_config (\<lambda>_. sample_post) sample_estore Map.empty [] = Some (s, [])"
    using server_total [of quiet_config sample_register sample_keys mem_client "\<lambda>_. sample_post" sample_estore Map.empty "[]"]
    by (auto simp: quiet_config_def)
  note new = server_conversations_new [OF s]
  have i: "env_uuid sample_api_env = ''id''" by (simp add: sample_api_env_def)
  have max: "csm_maxContextLength (api_StateManager s) = 4096"
    by (simp add: new NewConversationStateManager_def server_conversations_def)
  have load: "\<exists>err. fst (ps_LoadConversation store (env_uuid sample_api_env) (api_store s)) = Inl err"
    if "csm_store (api_StateManager s) = Some store" for store
    using that by (auto simp: new csm_store_def NewConversationStateManager_def server_conversations_def initPersistenceStore_def
        redis_store_def redis_LoadConversation_def NewRedisPersistenceStore_def mem_client_def)
  have none: "csm_conversations (api_StateManager s) (env_uuid sample_api_env) = None" by (simp add: new)
  obtain created ts s1 where created: "createConversation sample_api_env (Inr (''u'', None)) s = ((201, created), s1)"
    "csm_conversations (api_StateManager s1) ''id'' = Some (csm_new_conversation ts ''id'' ''u'')"
    "csm_maxContextLength (api_StateManager s1) = 4096"
    using create_effect [OF none load, of "''u''" None] i max by auto
  have "api_run [(sample_api_env, CreateConversation (Inr (''u'', None)))] s = Done ([(201, created)], s1)" using created(1) by simp
  from failed_adds_accumulate [OF s this _ created(2), of "[(sample_api_env, sample_post), (sample_api_env, sample_post)]"] created(3)
  obtain replies s' where run: "api_run [(sample_api_env, AddMessageToConversation ''id'' (Inr sample_post)),
      (sample_api_env, AddMessageToConversation ''id'' (Inr sample_post))] s1 = Done (replies, s')"
    "map fst replies = [500, 500]" "length (api_history s' ''id'') = 2"
    by (auto simp: csm_new_conversation_def numeral_2_eq_2)
  have "api_run ((sample_api_env, CreateConversation (Inr (''u'', None))) #
       [(sample_api_env, AddMessageToConversation ''id'' (Inr sample_post)), (sample_api_env, AddMessageToConversation ''id'' (Inr sample_post))]) s =
       Done ((201, created) # replies, s')"
    using created(1) run(1) by (simp del: api_handle.simps add: api_handle.simps(5))
  then show ?thesis using s run(2,3) by (metis list.sel(3))
qed

end
