(* ===== verification/PriorityTypes.thy ===== *)
theory PriorityTypes
  imports ServerRuns
begin

text \<open>
  The priorities of the program are the integers 1 to 4, but the type of a priority is
  \<^verbatim>\<open>int\<close>, and the body of a request may hold any. Which bodies keep all the priorities that the
  server holds within 1 to 4.
\<close>

definition priorities :: "Priority set" where
  "priorities = {PriorityRealtime, PriorityHigh, PriorityNormal, PriorityLow}"

lemma named_typed: "priority_named t = Some q \<Longrightarrow> q \<in> priorities"
  by (auto simp: priority_named_def priorities_def Let_def split: if_splits)

text \<open>A body either has a priority, or it has none and does not name an unknown one either.\<close>

definition post_typed :: "message \<Rightarrow> bool" where
  "post_typed m \<longleftrightarrow> m_Priority m \<in> priorities \<or>
     m_Priority m = 0 \<and> (\<forall>md t. m_Metadata m = Some md \<longrightarrow> metadata_string md ''user_priority'' = Some t \<longrightarrow> priority_named t \<noteq> None)"

fun call_typed :: "api_call \<Rightarrow> bool" where
  "call_typed (SubmitMessage (Inr m)) = post_typed m"
| "call_typed (AddMessageToConversation i (Inr m)) = post_typed m"
| "call_typed _ = True"

definition pp_typed :: "Preprocessor \<Rightarrow> bool" where
  "pp_typed p \<longleftrightarrow> ran (pp_userPriorities p) \<subseteq> priorities \<and> pp_defaultPriority p \<in> priorities \<and> dom (pp_keywordPatterns p) \<subseteq> priorities"

definition rules_typed :: "'s APIServer \<Rightarrow> bool" where
  "rules_typed s \<longleftrightarrow> (\<forall>qm. api_manager s = Some qm \<longrightarrow> par_NewPriority ` set (qmc_PriorityAdjustRules (qm_config qm)) \<subseteq> priorities)"

definition api_typed :: "'s APIServer \<Rightarrow> bool" where
  "api_typed s \<longleftrightarrow> pp_typed (api_Preprocessor s) \<and> rules_typed s \<and> (\<forall>r < api_fresh s. m_Priority (api_messages s r) \<in> priorities)"

section \<open>The parts\<close>

lemma analyze_typed:
  assumes "pp_typed p"
  shows "pp_analyzePriority order msg p \<in> priorities"
proof -
  obtain hs hp where h: "highest_loop (pp_scores p (m_Content msg) order) 0 (pp_defaultPriority p) = (hs, hp)" by force
  have "hp = pp_defaultPriority p \<or> pp_keywordPatterns p hp \<noteq> None"
    using highest_loop_spec [OF h] by (auto simp: pp_scores_set)
  then show ?thesis
    using assms h by (auto simp: pp_analyzePriority_def pp_typed_def Let_def dest: named_typed split: option.splits)
qed

lemma process_typed:
  assumes "pp_typed p" and "post_typed m"
  shows "m_Priority (pp_ProcessMessage nows order m p) \<in> priorities"
proof (cases "m_Priority m \<noteq> PriorityNormal \<and> m_Priority m \<noteq> 0")
  case True
  then show ?thesis using assms(2) by (simp add: pp_ProcessMessage_def post_typed_def Let_def)
next
  case False
  define md where "md = (case m_Metadata m of None \<Rightarrow> Map.empty | Some md \<Rightarrow> md)"
  have "m_Priority m \<in> priorities" if "metadata_string md ''user_priority'' = Some t" "priority_named t = None" for t
    using assms(2) that False by (auto simp: post_typed_def md_def metadata_string_def priorities_def split: option.splits)
  then have "fst (pp_decide order m md p) \<in> priorities"
    using assms(1) analyze_typed [OF assms(1)]
    by (auto simp: pp_decide_def pp_typed_def Let_def ran_def dest: named_typed split: option.splits)
  then show ?thesis using False by (auto simp: pp_ProcessMessage_def Let_def md_def [symmetric] case_prod_beta)
qed

lemma post_typed_stamp:
  "post_typed (api_stamp env m) = post_typed m" "post_typed (m\<lparr>m_ConversationID := i\<rparr>) = post_typed m"
  by (simp_all add: post_typed_def api_stamp_def)

lemma analyse_priority: "m_Priority (api_analyse m s) = m_Priority m"
  by (simp add: api_analyse_def Let_def)

lemma rules_apply_typed:
  "par_NewPriority ` set rules \<subseteq> priorities \<Longrightarrow> m_Priority m \<in> priorities \<Longrightarrow> m_Priority (qm_applyPriorityRules rules m) \<in> priorities"
  by (induction rules) auto

lemma push_typed:
  assumes "qm_PushMessage ts n r (qm, st) = (err, qm', st')" and "m_Priority (st r) \<in> priorities"
    and "par_NewPriority ` set (qmc_PriorityAdjustRules (qm_config qm)) \<subseteq> priorities"
  shows "qm_config qm' = qm_config qm" "m_Priority (st' r) \<in> priorities" "r' \<noteq> r \<Longrightarrow> st' r' = st r'"
  using assms rules_apply_typed [OF assms(3,2)]
  by (auto simp: qm_PushMessage_def qm_apply_rules_def qm_emit_def qm_set_queue_def Let_def split: option.splits prod.splits)

lemma enqueue_typed:
  assumes "api_typed s" and "m_Priority m \<in> priorities" and "api_enqueue env m s = (res, queued, s')"
  shows "api_typed s'"
proof (cases "qf_managers (api_QueueFactory s) ''standard''")
  case None
  then have "s' = s\<lparr>api_messages := (api_messages s)(api_fresh s := m), api_fresh := Suc (api_fresh s)\<rparr>"
    using assms(3) by (auto simp: api_enqueue_def Let_def qf_GetQueueManager_def)
  then show ?thesis using assms(1,2) None by (auto simp: api_typed_def rules_typed_def api_manager_def less_Suc_eq)
next
  case (Some managed)
  obtain qm life where ql: "managed = (qm, life)" by force
  let ?st = "(api_messages s)(api_fresh s := m)"
  obtain err qm' st' where push: "qm_PushMessage (env_push env) (Priority_String (m_Priority m)) (api_fresh s) (qm, ?st) = (err, qm', st')"
    by (metis prod_cases3)
  have rules: "par_NewPriority ` set (qmc_PriorityAdjustRules (qm_config qm)) \<subseteq> priorities"
    using assms(1) by (simp add: api_typed_def rules_typed_def api_manager_def Some ql)
  have s': "api_messages s' = st'" "api_manager s' = Some qm'" "api_fresh s' = Suc (api_fresh s)" "api_Preprocessor s' = api_Preprocessor s"
    using assms(3) Some ql push by (auto simp: api_enqueue_def Let_def qf_GetQueueManager_def api_manager_def)
  note p = push_typed [OF push _ rules]
  show ?thesis
    using assms(1,2) p rules by (auto simp: api_typed_def rules_typed_def s' less_Suc_eq)
qed

lemma typed_upd [simp]:
  "api_typed (s\<lparr>api_StateManager := sm, api_store := st\<rparr>) = api_typed s" "api_typed (s\<lparr>api_ResScheduler := rs\<rparr>) = api_typed s"
  "api_typed (s\<lparr>api_LoadBalancer := lb, api_fresh_endpoint := r\<rparr>) = api_typed s"
  by (simp_all add: api_typed_def rules_typed_def api_manager_def)

lemma update_typed: "api_typed s \<Longrightarrow> api_typed (updateConversationWithMessage env m s)"
  by (simp add: updateConversationWithMessage_def split: prod.split)

section \<open>The handlers\<close>

lemma submit_typed:
  assumes "api_typed s" and "post_typed m" and "submitMessage env (Inr m) s = (reply, s')"
  shows "api_typed s'"
proof -
  obtain res queued s1 where enq: "api_enqueue env (analysed env m s) s = (res, queued, s1)" by (metis prod_cases3)
  have "m_Priority (analysed env m s) \<in> priorities"
    using assms(1,2) by (simp add: analysed_def analyse_priority process_typed post_typed_stamp api_typed_def)
  then have "api_typed s1" by (rule enqueue_typed [OF assms(1) _ enq])
  then show ?thesis
    using assms(3) enq update_typed [of s1] by (cases res) (auto simp: submitMessage_def analysed_def Let_def split: if_splits)
qed

lemma add_typed:
  assumes "api_typed s" and "post_typed m" and "addMessageToConversation env i (Inr m) s = (reply, s')"
  shows "api_typed s'"
proof (cases "i = ''''")
  case False
  define pm where "pm = pp_ProcessMessage (env_process env) (env_order env) (api_stamp env (m\<lparr>m_ConversationID := i\<rparr>)) (api_Preprocessor s)"
  have pm: "m_Priority pm \<in> priorities"
    using assms(1,2) by (simp add: pm_def process_typed post_typed_stamp api_typed_def)
  obtain err sm1 s1 where add: "csm_AddMessage (env_add env) i pm (api_StateManager s, api_store s) = (err, sm1, s1)"
    by (metis prod_cases3)
  obtain res queued s2 where enq: "api_enqueue env pm (s\<lparr>api_StateManager := sm1, api_store := s1\<rparr>) = (res, queued, s2)" by (metis prod_cases3)
  have "api_typed s2" by (rule enqueue_typed [OF _ pm enq]) (simp add: assms(1))
  then show ?thesis
    using assms(1,3) False add enq
    by (cases err; cases res) (auto simp: addMessageToConversation_def pm_def [symmetric] Let_def)
qed (use assms in \<open>simp add: addMessageToConversation_def\<close>)

lemma pp_typed_set: "pp_typed p \<Longrightarrow> q \<in> priorities \<Longrightarrow> pp_typed (pp_SetUserPriority u q p)"
  by (auto simp: pp_typed_def pp_SetUserPriority_def ran_def)

lemma typed_preprocessor: "api_typed s \<Longrightarrow> pp_typed p \<Longrightarrow> api_typed (s\<lparr>api_Preprocessor := p\<rparr>)"
  by (simp add: api_typed_def rules_typed_def api_manager_def)

lemma user_priority_typed:
  assumes "api_typed s" and "setUserPriority body s = (reply, s')"
  shows "api_typed s'"
proof (cases body)
  case (Inr b)
  obtain u name where b: "b = (u, name)" by force
  define q where "q = (if name = ''high'' then PriorityHigh else if name = ''normal'' then PriorityNormal
      else if name = ''low'' then PriorityLow else PriorityNormal)"
  have "s' = s\<lparr>api_Preprocessor := pp_SetUserPriority u q (api_Preprocessor s)\<rparr>"
    using assms(2) by (simp add: setUserPriority_def Inr b q_def [symmetric] Let_def)
  moreover have "q \<in> priorities" by (simp add: q_def priorities_def)
  ultimately show ?thesis using assms(1) by (simp add: typed_preprocessor pp_typed_set api_typed_def [of s])
qed (use assms in \<open>simp add: setUserPriority_def\<close>)

lemma endpoint_typed:
  assumes "api_typed s" and "registerEndpoint env body s = Done (reply, s')"
  shows "api_typed s'"
proof (cases body)
  case (Inr e)
  define e1 where "e1 = (if ep_ID e = '''' then e\<lparr>ep_ID := env_uuid env\<rparr> else e)"
  define lb where "lb = (api_LoadBalancer s)\<lparr>lb_eps := (lb_eps (api_LoadBalancer s))(api_fresh_endpoint s := e1)\<rparr>"
  have "\<exists>lb1 r. s' = s\<lparr>api_LoadBalancer := lb1, api_fresh_endpoint := r\<rparr>"
    using assms(2) by (cases "with_lock (lb_AddEndpoint (env_types env) (env_now env) (api_fresh_endpoint s)) lb")
      (auto simp: registerEndpoint_def Inr Let_def e1_def [symmetric] lb_def [symmetric])
  then show ?thesis using assms(1) by auto
qed (use assms in \<open>simp add: registerEndpoint_def\<close>)

lemma resource_typed:
  assumes "api_typed s" and "registerResource env body s = (reply, s')"
  shows "api_typed s'"
proof (cases body)
  case (Inr e)
  define e1 where "e1 = (if res_ID e = '''' then e\<lparr>res_ID := env_uuid env\<rparr> else e)"
  obtain err rs1 where "rs_RegisterResource (env_now env) e1 (api_ResScheduler s) = (err, rs1)" by force
  then have "s' = s\<lparr>api_ResScheduler := rs1\<rparr>"
    using assms(2) by (cases err) (auto simp: registerResource_def Inr Let_def e1_def [symmetric])
  then show ?thesis using assms(1) by simp
qed (use assms in \<open>simp add: registerResource_def\<close>)

lemma handle_typed:
  assumes "api_typed s" and "call_typed c" and "api_handle env c s = Done (reply, s')"
  shows "api_typed s'"
proof (cases c)
  case (SubmitMessage body)
  show ?thesis
  proof (cases body)
    case (Inr m)
    then show ?thesis using assms(2,3) submit_typed [OF assms(1), of m env reply s'] SubmitMessage by simp
  qed (use assms SubmitMessage in \<open>simp add: submitMessage_def\<close>)
next
  case (AddMessageToConversation i body)
  show ?thesis
  proof (cases body)
    case (Inr m)
    then show ?thesis using assms(2,3) add_typed [OF assms(1), of m env i reply s'] AddMessageToConversation by simp
  qed (use assms AddMessageToConversation in \<open>simp add: addMessageToConversation_def split: if_splits\<close>)
next
  case (RegisterEndpoint body)
  then show ?thesis using assms endpoint_typed by simp
next
  case (SetUserPriority body)
  then show ?thesis using assms user_priority_typed by simp
next
  case (CreateConversation body)
  then show ?thesis using assms by (auto simp: createConversation_def split: sum.splits prod.splits)
next
  case (GetConversation i)
  then show ?thesis using assms by (auto simp: getConversation_def split: if_splits prod.splits)
next
  case (UpdateConversationState i body)
  then show ?thesis using assms by (auto simp: updateConversationState_def split: if_splits sum.splits prod.splits)
next
  case (ListUserConversations u)
  then show ?thesis using assms by (auto simp: listUserConversations_def split: if_splits prod.splits)
next
  case (RegisterResource body)
  then show ?thesis using assms resource_typed by simp
next
  case ListEndpoints
  then show ?thesis using assms by (auto simp: listEndpoints_def split: call.splits)
next
  case GetEndpointStats
  then show ?thesis using assms by (auto simp: getEndpointStats_def split: call.splits)
qed (use assms in auto)

text \<open>
  C14 (priorities). Over any requests whose bodies have a priority of 1 to 4, or none and no
  unknown name for one in their metadata, all priorities that the server holds stay within
  1 to 4: those of its users, and of every message that it has taken into its heap, whichever
  rule of the manager or analysis set it; so each has one of the four queue names.
\<close>

theorem api_run_well_typed:
  assumes "api_typed s" and "list_all (\<lambda>(env, c). call_typed c) cs" and "api_run cs s = Done (replies, s')"
  shows "api_typed s' \<and> (\<forall>r < api_fresh s'. Priority_String (m_Priority (api_messages s' r)) \<in> {''realtime'', ''high'', ''normal'', ''low''})"
proof -
  have "api_typed s'"
    using assms
  proof (induction cs arbitrary: s replies)
    case (Cons ec cs)
    obtain env c where ec: "ec = (env, c)" by force
    obtain reply s1 rest where "api_handle env c s = Done (reply, s1)" "api_run cs s1 = Done (rest, s')"
      using Cons.prems(3) ec by (auto split: call.splits)
    then show ?case using Cons.IH [of s1 rest] Cons.prems(1,2) ec handle_typed [of s c env reply s1] by simp
  qed simp
  moreover have "Priority_String p \<in> {''realtime'', ''high'', ''normal'', ''low''}" if "p \<in> priorities" for p
    using that by (auto simp: priorities_def Priority_String_def)
  ultimately show ?thesis by (simp add: api_typed_def)
qed

lemma sample_server_typed: "api_typed sample_server"
  by (simp add: api_typed_def rules_typed_def pp_typed_def sample_server_def NewAPIServer_def NewPreprocessor_def api_manager_def
      qm_CreateQueue_def qm_init_def qm_emit_def qm_set_queue_def priorities_def Let_def)

theorem api_run_well_typed_witness:
  "api_typed (snd (submitMessage sample_api_env (Inr sample_post) sample_server))"
proof -
  obtain reply s' where sub: "submitMessage sample_api_env (Inr sample_post) sample_server = (reply, s')" by (metis surj_pair)
  have "post_typed sample_post" by (simp add: post_typed_def sample_post_def NewMessage_def priorities_def)
  then show ?thesis
    using api_run_well_typed [OF sample_server_typed, of "[(sample_api_env, SubmitMessage (Inr sample_post))]" "[reply]" s'] sub by simp
qed

end
