(* ===== verification/Gateway.thy ===== *)
theory Gateway
  imports MultiLevelQueue Config DatabaseState Printing
begin

text \<open>
  \<^verbatim>\<open>cmd/api-gateway/main.go\<close>: the process with the queue it creates, and its handlers. A body is
  what \<^verbatim>\<open>ShouldBindJSON\<close> binds, the left the text of its error; of the texts of other errors
  only the part that the handler adds is kept.
\<close>

record ('d, 'r) gateway =
  gw_queue :: "mref MultiLevelQueue"
  gw_messages :: mstore
  gw_fresh :: mref
  gw_state :: "('d, 'r) dsm_state"

definition gateway_main ::
    "go_time \<Rightarrow> Config \<Rightarrow> 'd gorm_tables \<Rightarrow> 'r redis_client \<Rightarrow> mstore \<Rightarrow> 'd \<Rightarrow> 'r \<Rightarrow> ('d, 'r) gateway" where
  "gateway_main now cfg db rdb st d r =
     \<lparr>gw_queue = fold (\<lambda>l. mlq_AddQueue (Priority_String (ql_Priority l)) now) (qc_Levels (cf_Queue cfg))
                   (NewMultiLevelQueue (qc_DefaultMaxSize (cf_Queue cfg))),
      gw_messages = st, gw_fresh = 0, gw_state = (NewDbStateManager db (Some rdb), d, r)\<rparr>"

datatype gateway_body =
    GFields "(string \<times> string) list"
  | GStats "(string \<times> QueueStats) list"
  | GConversation Conversation

type_synonym gateway_reply = "int \<times> gateway_body"

definition gw_error :: "int \<Rightarrow> string \<Rightarrow> gateway_reply" where
  "gw_error code text = (code, GFields [(''error'', text)])"

record gateway_env =
  ge_uuid :: string
  ge_created :: go_time
  ge_updated :: go_time
  ge_push :: "go_time \<times> go_time"
  ge_nows :: "nat \<Rightarrow> go_time"

section \<open>Messages\<close>

definition gw_health :: gateway_reply where
  "gw_health = (200, GFields [(''status'', ''ok'')])"

definition gw_defaults :: "gateway_env \<Rightarrow> message \<Rightarrow> message" where
  "gw_defaults env msg =
     (let m1 = (if m_ID msg = '''' then msg\<lparr>m_ID := ge_uuid env\<rparr> else msg);
          m2 = (if m_Status m1 = '''' then m1\<lparr>m_Status := StatusPending\<rparr> else m1);
          m3 = (if m_CreatedAt m2 = zero_time then m2\<lparr>m_CreatedAt := ge_created env\<rparr> else m2)
      in m3\<lparr>m_UpdatedAt := ge_updated env\<rparr>)"

definition gw_postMessage :: "gateway_env \<Rightarrow> string + message \<Rightarrow> ('d, 'r) gateway \<Rightarrow> gateway_reply \<times> ('d, 'r) gateway" where
  "gw_postMessage env body g =
     (case body of
        Inl err \<Rightarrow> (gw_error 400 err, g)
      | Inr msg \<Rightarrow>
          let m = gw_defaults env msg; r = gw_fresh g;
              g1 = g\<lparr>gw_messages := (gw_messages g)(r := m), gw_fresh := Suc r\<rparr>
          in case mlq_Push (Priority_String (m_Priority m)) r (m_Priority m) (fst (ge_push env)) (snd (ge_push env)) (gw_queue g1) of
               (Some err, queue) \<Rightarrow> (gw_error 500 ''Failed to add message to queue: '', g1\<lparr>gw_queue := queue\<rparr>)
             | (None, queue) \<Rightarrow>
                 ((202, GFields [(''message'', ''Message accepted''), (''id'', m_ID m)]), g1\<lparr>gw_queue := queue\<rparr>))"

definition gw_getMessage :: "string \<Rightarrow> gateway_reply" where
  "gw_getMessage msgID = (200, GFields [(''message'', ''Message status endpoint (not implemented)''), (''id'', msgID)])"

definition gw_queueStats :: "('d, 'r) gateway \<Rightarrow> gateway_reply" where
  "gw_queueStats g =
     (200, GStats (List.map_filter (\<lambda>queueName. case mlq_GetStats queueName (gw_queue g) of
                                                  Inl _ \<Rightarrow> None | Inr queueStats \<Rightarrow> Some (queueName, queueStats))
                     [''realtime'', ''high'', ''normal'', ''low'']))"

section \<open>Conversations\<close>

definition gw_postConversation ::
    "key_order \<Rightarrow> gateway_env \<Rightarrow> string + Conversation \<Rightarrow> ('d, 'r) gateway \<Rightarrow> gateway_reply \<times> ('d, 'r) gateway" where
  "gw_postConversation keys env body g =
     (case body of
        Inl err \<Rightarrow> (gw_error 400 err, g)
      | Inr conv \<Rightarrow>
          (case dsm_CreateConversation keys (ge_nows env) (c_UserID conv) (c_Title conv) (c_Priority conv) (gw_state g) of
             (Inl err, st) \<Rightarrow> (gw_error 500 ''Failed to create conversation: '', g\<lparr>gw_state := st\<rparr>)
           | (Inr createdConv, st) \<Rightarrow> ((201, GConversation createdConv), g\<lparr>gw_state := st\<rparr>)))"

definition gw_getConversation :: "key_order \<Rightarrow> string \<Rightarrow> ('d, 'r) gateway \<Rightarrow> gateway_reply \<times> ('d, 'r) gateway" where
  "gw_getConversation keys convID g =
     (case dsm_GetConversation keys convID (gw_state g) of
        (Inl err, st) \<Rightarrow> (gw_error 404 ''Conversation not found: '', g\<lparr>gw_state := st\<rparr>)
      | (Inr conv, st) \<Rightarrow> ((200, GConversation conv), g\<lparr>gw_state := st\<rparr>))"

definition gw_postConversationMessage ::
    "key_order \<Rightarrow> gateway_env \<Rightarrow> string \<Rightarrow> string + message \<Rightarrow> ('d, 'r) gateway \<Rightarrow> gateway_reply \<times> ('d, 'r) gateway" where
  "gw_postConversationMessage keys env convID body g =
     (case body of
        Inl err \<Rightarrow> (gw_error 400 err, g)
      | Inr msg \<Rightarrow>
          (case dsm_AddMessage keys (ge_nows env) convID (msg\<lparr>m_ConversationID := convID\<rparr>) (gw_state g) of
             (Some err, st) \<Rightarrow> (gw_error 500 ''Failed to add message to conversation: '', g\<lparr>gw_state := st\<rparr>)
           | (None, st) \<Rightarrow> ((200, GFields [(''message'', ''Message added successfully'')]), g\<lparr>gw_state := st\<rparr>)))"

section \<open>Runs\<close>

datatype gateway_call =
    GHealth
  | GPostMessage "string + message"
  | GGetMessage string
  | GQueueStats
  | GPostConversation "string + Conversation"
  | GGetConversation string
  | GPostConversationMessage string "string + message"

fun gw_handle :: "key_order \<Rightarrow> gateway_env \<Rightarrow> gateway_call \<Rightarrow> ('d, 'r) gateway \<Rightarrow> gateway_reply \<times> ('d, 'r) gateway" where
  "gw_handle keys env GHealth g = (gw_health, g)"
| "gw_handle keys env (GPostMessage body) g = gw_postMessage env body g"
| "gw_handle keys env (GGetMessage i) g = (gw_getMessage i, g)"
| "gw_handle keys env GQueueStats g = (gw_queueStats g, g)"
| "gw_handle keys env (GPostConversation body) g = gw_postConversation keys env body g"
| "gw_handle keys env (GGetConversation i) g = gw_getConversation keys i g"
| "gw_handle keys env (GPostConversationMessage i body) g = gw_postConversationMessage keys env i body g"

fun gw_run :: "key_order \<Rightarrow> (gateway_env \<times> gateway_call) list \<Rightarrow> ('d, 'r) gateway \<Rightarrow> gateway_reply list \<times> ('d, 'r) gateway" where
  "gw_run keys [] g = ([], g)"
| "gw_run keys ((env, c) # cs) g =
     (case gw_handle keys env c g of
        (reply, g1) \<Rightarrow> (case gw_run keys cs g1 of (replies, g2) \<Rightarrow> (reply # replies, g2)))"

end
