(* ===== verification/GatewayRuns.thy ===== *)
theory GatewayRuns
  imports Gateway StateRuns
begin

text \<open>
  Runs of the gateway: how many messages it accepts, and what becomes of messages without an
  identifier.
\<close>

definition sample_gateway_env :: gateway_env where
  "sample_gateway_env = \<lparr>ge_uuid = ''id'', ge_created = 2, ge_updated = 2, ge_push = (3, 3), ge_nows = (\<lambda>_. 4)\<rparr>"

definition sample_body :: message where
  "sample_body = NewMessage '''' '''' ''u'' ''hello'' PriorityHigh 1 1"

section \<open>Accepted messages\<close>

fun queue_of :: "gateway_call \<Rightarrow> string option" where
  "queue_of (GPostMessage (Inr m)) = Some (Priority_String (m_Priority m))"
| "queue_of _ = None"

text \<open>How many posts to a queue are answered with 202.\<close>

definition accepted :: "string \<Rightarrow> (gateway_env \<times> gateway_call) list \<Rightarrow> gateway_reply list \<Rightarrow> nat" where
  "accepted n cs replies = length (filter (\<lambda>((env, c), reply). queue_of c = Some n \<and> fst reply = 202) (zip cs replies))"

lemma push_length:
  assumes "mlq_inv q" and "mlq_Push n m p t t' q = (err, q')"
  shows "mlq_inv q' \<and> mlq_maxSize q' = mlq_maxSize q \<and> (err = None \<longrightarrow> mlq_queues q n \<noteq> None) \<and>
    (\<forall>k. map_option length (mlq_queues q' k) = (if k = n \<and> err = None then map_option Suc else id) (map_option length (mlq_queues q k)))"
proof (cases "mlq_queues q n")
  case None
  then show ?thesis using assms by (auto simp: mlq_Push_def)
next
  case (Some pq)
  have wf: "pq_wf pq" using mlq_inv_lookup [OF assms(1) Some] by blast
  have "length (pq_heap_Push pq it) = Suc (length pq)" for it
    using arg_cong [OF pq_mset_Push [OF wf, of it], of size] by (simp add: pq_entries_def)
  moreover have "mlq_inv q'" using mlq_inv_Push [OF assms(1), of n m p t t'] assms(2) by simp
  ultimately show ?thesis using assms(2) Some by (auto simp: mlq_Push_def mlq_updateStats_def Let_def split: if_splits option.splits)
qed

lemma gw_defaults_priority: "m_Priority (gw_defaults env m) = m_Priority m"
  by (simp add: gw_defaults_def Let_def)

lemma handle_length:
  assumes "mlq_inv (gw_queue g)" and "gw_handle keys env c g = (reply, g')"
  shows "mlq_inv (gw_queue g') \<and> mlq_maxSize (gw_queue g') = mlq_maxSize (gw_queue g) \<and>
    (\<forall>k. (queue_of c = Some k \<and> fst reply = 202 \<longrightarrow> mlq_queues (gw_queue g) k \<noteq> None) \<and>
       map_option length (mlq_queues (gw_queue g') k) =
       (if queue_of c = Some k \<and> fst reply = 202 then map_option Suc else id) (map_option length (mlq_queues (gw_queue g) k)))"
proof (cases "\<exists>m. c = GPostMessage (Inr m)")
  case True
  then obtain m where c: "c = GPostMessage (Inr m)" by blast
  let ?m = "gw_defaults env m"
  obtain err q' where push: "mlq_Push (Priority_String (m_Priority ?m)) (gw_fresh g) (m_Priority ?m) (fst (ge_push env)) (snd (ge_push env)) (gw_queue g) = (err, q')"
    by force
  have "gw_queue g' = q'" "fst reply = 202 \<longleftrightarrow> err = None"
    using assms(2) push by (auto simp: c gw_postMessage_def gw_error_def Let_def split: option.splits)
  then show ?thesis using push_length [OF assms(1) push] by (auto simp: c gw_defaults_priority)
next
  case False
  then have "gw_queue g' = gw_queue g \<and> queue_of c = None"
    using assms(2)
    by (cases c rule: queue_of.cases)
      (auto simp: gw_postMessage_def gw_postConversation_def gw_getConversation_def gw_postConversationMessage_def
        split: sum.splits prod.splits option.splits)
  then show ?thesis using assms(1) by simp
qed

lemma run_length:
  assumes "mlq_inv (gw_queue g)" and "gw_run keys cs g = (replies, g')"
  shows "mlq_inv (gw_queue g') \<and> mlq_maxSize (gw_queue g') = mlq_maxSize (gw_queue g) \<and> length replies = length cs \<and>
    (\<forall>k. (mlq_queues (gw_queue g) k = None \<longrightarrow> accepted k cs replies = 0) \<and>
      map_option length (mlq_queues (gw_queue g') k) = map_option (\<lambda>n. n + accepted k cs replies) (map_option length (mlq_queues (gw_queue g) k)))"
  using assms
proof (induction cs arbitrary: g replies)
  case Nil
  then show ?case by (simp add: accepted_def map_option.identity)
next
  case (Cons ec cs)
  obtain env c where ec: "ec = (env, c)" by force
  obtain reply g1 where h: "gw_handle keys env c g = (reply, g1)" by (metis surj_pair)
  obtain rest where r: "gw_run keys cs g1 = (rest, g')" "replies = reply # rest" using Cons.prems(2) ec h by (auto split: prod.splits)
  note one = handle_length [OF Cons.prems(1) h]
  note more = Cons.IH [OF conjunct1 [OF one] r(1)]
  have "accepted k (ec # cs) replies = (if queue_of c = Some k \<and> fst reply = 202 then 1 else 0) + accepted k cs rest" for k
    by (simp add: accepted_def ec r(2))
  moreover have "mlq_queues (gw_queue g1) k = None \<longleftrightarrow> mlq_queues (gw_queue g) k = None" for k
    using spec [OF conjunct2 [OF conjunct2 [OF one]], of k]
    by (cases "mlq_queues (gw_queue g) k"; cases "mlq_queues (gw_queue g1) k") (auto split: if_splits)
  ultimately show ?case using one more by (auto simp: r(2) option.map_comp comp_def)
qed

lemma levels_length:
  "mlq_inv q \<Longrightarrow> \<forall>k pq. mlq_queues q k = Some pq \<longrightarrow> pq = [] \<Longrightarrow>
   mlq_inv (fold (\<lambda>l. mlq_AddQueue (f l) now) levels q) \<and>
   mlq_maxSize (fold (\<lambda>l. mlq_AddQueue (f l) now) levels q) = mlq_maxSize q \<and>
   (\<forall>k. mlq_queues (fold (\<lambda>l. mlq_AddQueue (f l) now) levels q) k =
      (if k \<in> f ` set levels then Some [] else mlq_queues q k))"
proof (induction levels arbitrary: q)
  case (Cons l levels)
  let ?q = "mlq_AddQueue (f l) now q"
  have q: "mlq_inv ?q" "\<forall>k pq. mlq_queues ?q k = Some pq \<longrightarrow> pq = []" "mlq_maxSize ?q = mlq_maxSize q"
    "mlq_queues ?q k = (if k = f l then Some [] else mlq_queues q k)" for k
    using Cons.prems mlq_inv_AddQueue [OF Cons.prems(1), of "f l" now] by (auto simp: mlq_AddQueue_def pq_Init_Nil)
  show ?case using Cons.IH [OF q(1,2)] q(3,4) by simp
qed simp

text \<open>
  C37 (capacity of the gateway). The gateway never takes a message out of its queues: after any
  requests the length of a queue is the number of posts it accepted for it, so with a limit on
  the size it accepts at most that many messages of a priority while it runs. A priority that
  is not among its levels has no queue, and none of its messages is accepted.
\<close>

theorem gateway_keeps_accepted:
  assumes "gw_run keys cs (gateway_main now cfg db rdb st d r) = (replies, g)"
  shows "length replies = length cs \<and>
    (if n \<in> (\<lambda>l. Priority_String (ql_Priority l)) ` set (qc_Levels (cf_Queue cfg))
     then mlq_Size n (gw_queue g) = Inr (int (accepted n cs replies)) \<and>
       (0 < qc_DefaultMaxSize (cf_Queue cfg) \<longrightarrow> int (accepted n cs replies) \<le> qc_DefaultMaxSize (cf_Queue cfg))
     else mlq_Size n (gw_queue g) = Inl ErrQueueNotFound \<and> accepted n cs replies = 0)"
proof -
  let ?g = "gateway_main now cfg db rdb st d r"
  have new: "mlq_inv (NewMultiLevelQueue (qc_DefaultMaxSize (cf_Queue cfg)) :: mref MultiLevelQueue)"
    "\<forall>k pq. mlq_queues (NewMultiLevelQueue (qc_DefaultMaxSize (cf_Queue cfg)) :: mref MultiLevelQueue) k = Some pq \<longrightarrow> pq = []"
    by (rule mlq_inv_new) (simp add: NewMultiLevelQueue_def)
  note start = levels_length [OF new, of "\<lambda>l. Priority_String (ql_Priority l)" now "qc_Levels (cf_Queue cfg)"]
  have inv: "mlq_inv (gw_queue ?g)" and max: "mlq_maxSize (gw_queue ?g) = qc_DefaultMaxSize (cf_Queue cfg)"
    and queues: "mlq_queues (gw_queue ?g) n =
      (if n \<in> (\<lambda>l. Priority_String (ql_Priority l)) ` set (qc_Levels (cf_Queue cfg)) then Some [] else None)"
    using start by (simp_all add: gateway_main_def NewMultiLevelQueue_def)
  note run = run_length [OF inv assms]
  have len: "map_option length (mlq_queues (gw_queue g) n) =
      map_option (\<lambda>k. k + accepted n cs replies) (map_option length (mlq_queues (gw_queue ?g) n))" using run by blast
  show ?thesis
  proof (cases "n \<in> (\<lambda>l. Priority_String (ql_Priority l)) ` set (qc_Levels (cf_Queue cfg))")
    case True
    then obtain pq where pq: "mlq_queues (gw_queue g) n = Some pq" "length pq = accepted n cs replies"
      using len queues by auto
    then show ?thesis using run True max mlq_inv_lookup [OF _ pq(1)] by (auto simp: mlq_Size_def)
  next
    case False
    then have "mlq_queues (gw_queue g) n = None" using len queues by simp
    moreover have "accepted n cs replies = 0" using run queues False by simp
    ultimately have "mlq_queues (gw_queue g) n = None" "accepted n cs replies = 0" by simp_all
    then show ?thesis using run False by (simp add: mlq_Size_def)
  qed
qed

theorem gateway_keeps_accepted_witness:
  "\<exists>replies g. gw_run sorted_keys [(sample_gateway_env, GPostMessage (Inr sample_body)), (sample_gateway_env, GPostMessage (Inr sample_body))]
     (gateway_main 1 GetDefaultConfig mem_state_db mem_client (\<lambda>_. sample_body) ([], []) Map.empty) = (replies, g) \<and>
     mlq_Size ''high'' (gw_queue g) = Inr (int (accepted ''high'' [(sample_gateway_env, GPostMessage (Inr sample_body)),
       (sample_gateway_env, GPostMessage (Inr sample_body))] replies))"
proof -
  let ?cs = "[(sample_gateway_env, GPostMessage (Inr sample_body)), (sample_gateway_env, GPostMessage (Inr sample_body))]"
  obtain replies g where run: "gw_run sorted_keys ?cs (gateway_main 1 GetDefaultConfig mem_state_db mem_client (\<lambda>_. sample_body) ([], []) Map.empty) =
    (replies, g)" by (metis surj_pair)
  have "''high'' \<in> (\<lambda>l. Priority_String (ql_Priority l)) ` set (qc_Levels (cf_Queue GetDefaultConfig))"
    by (simp add: GetDefaultConfig_def Priority_String_def priority_defs)
  then show ?thesis using gateway_keeps_accepted [OF run, of "''high''"] run by auto
qed

section \<open>Messages without an identifier\<close>

text \<open>What every call keeps: the tables behind, and a message that is in them.\<close>

definition keeps :: "'d tables \<Rightarrow> string \<Rightarrow> ('d, 'r) dsm_state \<Rightarrow> ('d, 'r) dsm_state \<Rightarrow> bool" where
  "keeps T k st st' \<longleftrightarrow> dsm_db (fst st') = dsm_db (fst st) \<and>
     (tb_msgs T (fst (snd st)) k \<noteq> None \<longrightarrow> tb_msgs T (fst (snd st')) k \<noteq> None)"

lemma keeps_refl [simp]: "keeps T k st st"
  by (simp add: keeps_def)

lemma keeps_trans: "keeps T k a b \<Longrightarrow> keeps T k b c \<Longrightarrow> keeps T k a c"
  by (simp add: keeps_def)

lemma dsm_db_caches [simp]:
  "dsm_db (dsm_cacheConversation c sm) = dsm_db sm" "dsm_db (dsm_invalidateCache i sm) = dsm_db sm"
  by (simp_all add: dsm_cacheConversation_def dsm_invalidateCache_def)

lemma remember_keeps: "fst (snd (dsm_remember keys c st)) = fst (snd st)" "dsm_db (fst (dsm_remember keys c st)) = dsm_db (fst st)"
  by (simp_all add: dsm_remember_def split: prod.split)

lemma invalidate_keeps: "fst (snd (dsm_invalidate i st)) = fst (snd st)" "dsm_db (fst (dsm_invalidate i st)) = dsm_db (fst st)"
  by (simp_all add: dsm_invalidate_def split: prod.split)

text \<open>The laws of the database, for what is asked here.\<close>

lemma first_messages:
  assumes "state_laws G T" and "gt_FirstConversation G i d = (y, d1)"
  shows "tb_msgs T d1 = tb_msgs T d"
proof -
  have "convs_law G T d" using assms(1) by (simp add: state_laws_def)
  then have "table_first T i d (y, d1)" unfolding convs_law_def assms(2) [symmetric] by blast
  then show ?thesis by (simp add: table_first_def same_tables_def)
qed

lemma updates_messages:
  assumes "state_laws G T" and "known_updates u" and "gt_UpdatesConversation G i u d = (y, d1)"
  shows "tb_msgs T d1 = tb_msgs T d"
proof -
  have "convs_law G T d" using assms(1) by (simp add: state_laws_def)
  then have "table_write T d (y, d1) (\<forall>c. tb_convs T d i = Some c \<longrightarrow> tb_takes T (apply_updates u c))
      (\<lambda>d'. tb_msgs T d' = tb_msgs T d \<and>
         tb_convs T d' = (tb_convs T d)(i := map_option (\<lambda>c. conv_row (tb_round T) (apply_updates u c)) (tb_convs T d i)))"
    using assms(2) unfolding convs_law_def assms(3) [symmetric] by blast
  then show ?thesis by (auto simp: table_write_def same_tables_def)
qed

lemma creates_messages:
  assumes "state_laws G T" and "c_CreatedAt c \<noteq> zero_time" and "c_UpdatedAt c \<noteq> zero_time"
    and "gt_CreateConversation G c d = (y, d1)"
  shows "tb_msgs T d1 = tb_msgs T d"
proof -
  have "convs_law G T d" using assms(1) by (simp add: state_laws_def)
  then have "table_write T d (y, d1) (tb_convs T d (c_ID c) = None \<and> tb_takes T c)
      (\<lambda>d'. tb_convs T d (c_ID c) = None \<and> tb_msgs T d' = tb_msgs T d \<and>
         tb_convs T d' = (tb_convs T d)(c_ID c \<mapsto> conv_row (tb_round T) c))"
    using assms(2,3) unfolding convs_law_def assms(4) [symmetric] by blast
  then show ?thesis by (auto simp: table_write_def same_tables_def)
qed

lemma message_created:
  assumes "state_laws G T" and "gt_CreateMessage G m d = (y, d1)"
  shows "tb_msgs T d k \<noteq> None \<longrightarrow> tb_msgs T d1 k \<noteq> None"
    and "y = None \<Longrightarrow> tb_msgs T d (m_ID m) = None \<and> tb_msgs T d1 (m_ID m) \<noteq> None"
proof -
  define effect where "effect d' \<longleftrightarrow> tb_msgs T d (m_ID m) = None \<and> tb_convs T d' = tb_convs T d \<and>
      (\<exists>m'. msg_filled m m' \<and> tb_msgs T d' = (tb_msgs T d)(m_ID m \<mapsto> msg_row (tb_round T) m'))" for d'
  have law: "msgs_law G T d" using assms(1) by (simp add: state_laws_def)
  have "table_write T d (y, d1) (tb_msgs T d (m_ID m) = None \<and> tb_takes_msg T m) effect"
    using law unfolding msgs_law_def effect_def assms(2) [symmetric] by blast
  then have "effect d1 \<or> y \<noteq> None \<and> tb_msgs T d1 = tb_msgs T d" by (auto simp: table_write_def same_tables_def)
  then show "tb_msgs T d k \<noteq> None \<longrightarrow> tb_msgs T d1 k \<noteq> None"
    "y = None \<Longrightarrow> tb_msgs T d (m_ID m) = None \<and> tb_msgs T d1 (m_ID m) \<noteq> None"
    by (auto simp: effect_def)
qed

lemma get_keeps:
  assumes "state_laws (dsm_db (fst st)) T" and "dsm_GetConversation keys i st = (x, st')"
  shows "keeps T k st st'"
proof -
  obtain sm d r where st: "st = (sm, d, r)" by (cases st)
  obtain y d1 where first: "gt_FirstConversation (dsm_db sm) i d = (y, d1)" by force
  have "tb_msgs T d1 = tb_msgs T d" using assms(1) first by (auto simp: st intro: first_messages)
  then show ?thesis
    using assms(2) first
    by (auto simp: st dsm_GetConversation_def keeps_def remember_keeps split: option.splits prod.splits sum.splits gorm_error.splits)
qed

lemma update_keeps:
  assumes "state_laws (dsm_db (fst st)) T" and "known_updates u" and "dsm_UpdateConversation i u st = (x, st')"
  shows "keeps T k st st'"
proof -
  obtain sm d r where st: "st = (sm, d, r)" by (cases st)
  obtain y d1 where up: "gt_UpdatesConversation (dsm_db sm) i u d = (y, d1)" by force
  have "tb_msgs T d1 = tb_msgs T d" using assms(1,2) up by (auto simp: st intro: updates_messages)
  then show ?thesis
    using assms(3) up by (auto simp: st dsm_UpdateConversation_def keeps_def invalidate_keeps split: option.splits)
qed

lemma create_keeps:
  assumes "state_laws (dsm_db (fst st)) T" and "nows 2 \<noteq> zero_time" and "nows 3 \<noteq> zero_time"
    and "dsm_CreateConversation keys nows u t p st = (x, st')"
  shows "keeps T k st st'"
proof -
  obtain sm d r where st: "st = (sm, d, r)" by (cases st)
  obtain y d1 where new: "gt_CreateConversation (dsm_db sm) (dsm_new_conversation nows u t p) d = (y, d1)" by force
  have "tb_msgs T d1 = tb_msgs T d"
    by (rule creates_messages [OF _ _ _ new]) (use assms(1-3) in \<open>simp_all add: st dsm_new_conversation_def\<close>)
  then show ?thesis
    using assms(4) new by (auto simp: st dsm_CreateConversation_def keeps_def remember_keeps Let_def split: option.splits)
qed

lemma add_keeps:
  assumes "state_laws (dsm_db (fst st)) T" and "dsm_AddMessage keys nows i m st = (x, st')"
  shows "keeps T k st st'"
    and "x = None \<Longrightarrow> tb_msgs T (fst (snd st)) (m_ID m) = None \<and> tb_msgs T (fst (snd st')) (m_ID m) \<noteq> None"
proof -
  obtain y st1 where get: "dsm_GetConversation keys i st = (y, st1)" by (metis surj_pair)
  obtain sm1 d1 r1 where st1: "st1 = (sm1, d1, r1)" by (cases st1)
  have k1: "keeps T k' st st1" for k' by (rule get_keeps [OF assms(1) get])
  have laws: "state_laws (dsm_db sm1) T" using k1 assms(1) by (simp add: keeps_def st1)
  show "keeps T k st st'"
    "x = None \<Longrightarrow> tb_msgs T (fst (snd st)) (m_ID m) = None \<and> tb_msgs T (fst (snd st')) (m_ID m) \<noteq> None"
  proof (atomize (full), cases y)
    case (Inl err)
    then show "keeps T k st st' \<and> (x = None \<longrightarrow> tb_msgs T (fst (snd st)) (m_ID m) = None \<and> tb_msgs T (fst (snd st')) (m_ID m) \<noteq> None)"
      using assms(2) get k1 by (auto simp: dsm_AddMessage_def)
  next
    case (Inr c)
    let ?m = "m\<lparr>m_ConversationID := i\<rparr>"
    obtain z d2 where msg: "gt_CreateMessage (dsm_db sm1) ?m d1 = (z, d2)" by force
    note created = message_created [OF laws msg]
    have add: "dsm_add_to nows i c m (sm1, d1, r1) = (x, st')" using assms(2) get Inr by (simp add: dsm_AddMessage_def st1)
    show "keeps T k st st' \<and> (x = None \<longrightarrow> tb_msgs T (fst (snd st)) (m_ID m) = None \<and> tb_msgs T (fst (snd st')) (m_ID m) \<noteq> None)"
    proof (cases z)
      case None
      then have up: "dsm_UpdateConversation i (add_updates nows c ?m) (sm1, d2, r1) = (x, st')"
        using add msg by (simp add: dsm_add_to_def Let_def)
      have k2: "keeps T k' (sm1, d2, r1) st'" for k' by (rule update_keeps [OF _ known_add up]) (simp add: laws)
      have "tb_msgs T (fst (snd st)) (m_ID m) = None"
        using k1 [of "m_ID m"] created(2) [OF None] by (cases "tb_msgs T (fst (snd st)) (m_ID m)") (simp_all add: keeps_def st1)
      then show ?thesis using k1 k2 created(1) created(2) [OF None] by (auto simp: keeps_def st1)
    next
      case (Some err)
      then have "x \<noteq> None" "st' = (sm1, d2, r1)" using add msg by (auto simp: dsm_add_to_def Let_def)
      then show ?thesis using k1 created(1) by (auto simp: keeps_def st1)
    qed
  qed
qed

text \<open>A post to a conversation whose body has no identifier.\<close>

fun anonymous :: "gateway_call \<Rightarrow> bool" where
  "anonymous (GPostConversationMessage i (Inr m)) = (m_ID m = '''')"
| "anonymous _ = False"

definition clock_runs :: "gateway_env \<Rightarrow> bool" where
  "clock_runs env \<longleftrightarrow> ge_nows env 2 \<noteq> zero_time \<and> ge_nows env 3 \<noteq> zero_time"

lemma handle_keeps:
  assumes "state_laws (dsm_db (fst (gw_state g))) T" and "clock_runs env" and "gw_handle keys env c g = (reply, g')"
  shows "keeps T k (gw_state g) (gw_state g')"
    and "anonymous c \<Longrightarrow> fst reply = 200 \<Longrightarrow> tb_msgs T (fst (snd (gw_state g))) '''' = None \<and> tb_msgs T (fst (snd (gw_state g'))) '''' \<noteq> None"
proof -
  have "keeps T k (gw_state g) (gw_state g') \<and>
    (anonymous c \<and> fst reply = 200 \<longrightarrow> tb_msgs T (fst (snd (gw_state g))) '''' = None \<and> tb_msgs T (fst (snd (gw_state g'))) '''' \<noteq> None)"
  proof (cases c)
    case (GPostMessage body)
    then have "gw_state g' = gw_state g"
      using assms(3) by (auto simp: gw_postMessage_def Let_def split: sum.splits prod.splits option.splits)
    then show ?thesis by (simp add: GPostMessage)
  next
    case (GPostConversation body)
    show ?thesis
    proof (cases body)
      case (Inr conv)
      obtain x st where new: "dsm_CreateConversation keys (ge_nows env) (c_UserID conv) (c_Title conv) (c_Priority conv) (gw_state g) = (x, st)"
        by (metis surj_pair)
      have "gw_state g' = st" using assms(3) new by (auto simp: GPostConversation Inr gw_postConversation_def split: sum.splits)
      then show ?thesis
        using create_keeps [OF assms(1) _ _ new] assms(2) by (simp add: clock_runs_def GPostConversation)
    qed (use assms(3) in \<open>simp add: GPostConversation gw_postConversation_def\<close>)
  next
    case (GGetConversation i)
    obtain x st where get: "dsm_GetConversation keys i (gw_state g) = (x, st)" by (metis surj_pair)
    have "gw_state g' = st" using assms(3) get by (auto simp: GGetConversation gw_getConversation_def split: sum.splits)
    then show ?thesis using get_keeps [OF assms(1) get] by (simp add: GGetConversation)
  next
    case (GPostConversationMessage i body)
    show ?thesis
    proof (cases body)
      case (Inr m)
      obtain x st where add: "dsm_AddMessage keys (ge_nows env) i (m\<lparr>m_ConversationID := i\<rparr>) (gw_state g) = (x, st)" by (metis surj_pair)
      have "gw_state g' = st" "fst reply = 200 \<longleftrightarrow> x = None"
        using assms(3) add by (auto simp: GPostConversationMessage Inr gw_postConversationMessage_def gw_error_def split: option.splits)
      then show ?thesis using add_keeps [OF assms(1) add] by (auto simp: GPostConversationMessage Inr)
    qed (use assms(3) in \<open>simp add: GPostConversationMessage gw_postConversationMessage_def\<close>)
  qed (use assms(3) in auto)
  then show "keeps T k (gw_state g) (gw_state g')"
    "anonymous c \<Longrightarrow> fst reply = 200 \<Longrightarrow> tb_msgs T (fst (snd (gw_state g))) '''' = None \<and> tb_msgs T (fst (snd (gw_state g'))) '''' \<noteq> None"
    by simp_all
qed

lemma run_anonymous:
  assumes "state_laws (dsm_db (fst (gw_state g))) T" and "list_all (\<lambda>(env, c). clock_runs env) cs" and "gw_run keys cs g = (replies, g')"
  shows "length (filter (\<lambda>((env, c), reply). anonymous c \<and> fst reply = 200) (zip cs replies)) \<le>
    (if tb_msgs T (fst (snd (gw_state g))) '''' = None then 1 else 0)"
  using assms
proof (induction cs arbitrary: g replies)
  case (Cons ec cs)
  obtain env c where ec: "ec = (env, c)" by force
  obtain reply g1 where h: "gw_handle keys env c g = (reply, g1)" by (metis surj_pair)
  obtain rest where r: "gw_run keys cs g1 = (rest, g')" "replies = reply # rest" using Cons.prems(3) ec h by (auto split: prod.splits)
  have clock: "clock_runs env" "list_all (\<lambda>(env, c). clock_runs env) cs" using Cons.prems(2) ec by simp_all
  note one = handle_keeps [OF Cons.prems(1) clock(1) h]
  have laws: "state_laws (dsm_db (fst (gw_state g1))) T" using one(1) Cons.prems(1) by (simp add: keeps_def)
  show ?case using Cons.IH [OF laws clock(2) r(1)] one(1) [of "''''"] one(2) by (auto simp: ec r(2) keeps_def split: if_splits)
qed simp

text \<open>
  C39 (messages without an identifier). Posting to a conversation sets no identifier, and the
  identifier is the primary key: whatever a run of the gateway does, at most one post without
  one is ever answered with 200, over all conversations; the others fail.
\<close>

theorem gateway_one_anonymous_message:
  assumes "state_laws db T" and "list_all (\<lambda>(env, c). clock_runs env) cs"
    and "gw_run keys cs (gateway_main now cfg db rdb st d r) = (replies, g)"
  shows "length (filter (\<lambda>((env, c), reply). anonymous c \<and> fst reply = 200) (zip cs replies)) \<le> 1"
proof -
  have "state_laws (dsm_db (fst (gw_state (gateway_main now cfg db rdb st d r)))) T"
    using assms(1) by (simp add: gateway_main_def NewDbStateManager_def)
  from run_anonymous [OF this assms(2,3)] show ?thesis by (simp split: if_splits)
qed

theorem gateway_one_anonymous_message_witness:
  "let cs = [(sample_gateway_env, GPostConversationMessage sample_id (Inr sample_body)), (sample_gateway_env, GPostConversationMessage sample_id (Inr sample_body))]
   in length (filter (\<lambda>((env, c), reply). anonymous c \<and> fst reply = 200)
     (zip cs (fst (gw_run sorted_keys cs (gateway_main 1 GetDefaultConfig mem_state_db mem_client (\<lambda>_. sample_body) ([sample_row], []) Map.empty))))) \<le> 1"
proof -
  have "clock_runs sample_gateway_env" by (simp add: clock_runs_def sample_gateway_env_def)
  then show ?thesis
    unfolding Let_def by (intro gateway_one_anonymous_message [OF mem_state_laws]) (auto intro: prod.collapse [symmetric])
qed

end
