(* ===== verification/QueueWorker.thy ===== *)
theory QueueWorker
  imports MultiLevelQueue Config DatabaseState
begin

text \<open>
  \<^verbatim>\<open>cmd/queue-manager/main.go\<close>: the queue of the process, and the loop of a worker that takes
  messages in the order of their priority, waits for a time that stands for the processing, and
  completes them. Here one worker runs; \<open>WorkerPool\<close> has all of them. \<^verbatim>\<open>CompletedAt\<close> points to \<^verbatim>\<open>UpdatedAt\<close> of the
  same message; it is a copy here.
\<close>

record ('d, 'r) queue_process =
  qp_queue :: "mref MultiLevelQueue"
  qp_messages :: mstore
  qp_state :: "('d, 'r) dsm_state"

definition queue_levels :: "go_time \<Rightarrow> QueueLevel list \<Rightarrow> mref MultiLevelQueue \<Rightarrow> mref MultiLevelQueue" where
  "queue_levels now levels q = fold (\<lambda>l. mlq_AddQueue (ql_Name l) now) levels q"

definition queue_manager_main ::
    "go_time \<Rightarrow> Config \<Rightarrow> 'd gorm_tables \<Rightarrow> 'r redis_client \<Rightarrow> mstore \<Rightarrow> 'd \<Rightarrow> 'r \<Rightarrow> ('d, 'r) queue_process" where
  "queue_manager_main now cfg db rdb st d r =
     \<lparr>qp_queue = queue_levels now (qc_Levels (cf_Queue cfg)) (NewMultiLevelQueue (qc_DefaultMaxSize (cf_Queue cfg))),
      qp_messages = st, qp_state = (NewDbStateManager db (Some rdb), d, r)\<rparr>"

section \<open>The loop of a worker\<close>

definition queue_names :: "string list" where
  "queue_names = [''realtime'', ''high'', ''normal'', ''low'']"

fun qp_poll :: "string list \<Rightarrow> go_time \<Rightarrow> 'm MultiLevelQueue \<Rightarrow> 'm option \<times> 'm MultiLevelQueue" where
  "qp_poll [] now queue = (None, queue)"
| "qp_poll (queueName # names) now queue =
     (case mlq_Pop queueName now queue of
        (Inr msg, queue') \<Rightarrow> (Some msg, queue')
      | (Inl err, queue') \<Rightarrow> qp_poll names now queue')"

definition processingTime :: "Priority \<Rightarrow> duration" where
  "processingTime p =
     (if p = PriorityRealtime then 500 * millisecond
      else if p = PriorityHigh then 1 * second
      else if p = PriorityNormal then 2 * second
      else if p = PriorityLow then 3 * second
      else 2 * second)"

text \<open>
  One turn. \<open>qe_stop\<close> tells whether the context is done at its start, and \<open>qe_cancelled\<close> whether it
  is cancelled while the message is processed; the latter ends at \<open>qe_done\<close>, the processing
  time after \<open>qe_start\<close> at the earliest.
\<close>

record turn =
  qe_stop :: bool
  qe_pop :: go_time
  qe_start :: go_time
  qe_cancelled :: bool
  qe_done :: go_time

datatype turn_result = Stopped | Slept | Completed mref | Abandoned mref

definition qp_complete :: "turn \<Rightarrow> mref \<Rightarrow> ('d, 'r) queue_process \<Rightarrow> turn_result \<times> ('d, 'r) queue_process" where
  "qp_complete t r s =
     (let m1 = (qp_messages s r)\<lparr>m_Status := StatusProcessing, m_UpdatedAt := qe_start t\<rparr>
      in if qe_cancelled t then (Abandoned r, s\<lparr>qp_messages := (qp_messages s)(r := m1)\<rparr>)
         else let m2 = m1\<lparr>m_Status := StatusCompleted, m_UpdatedAt := qe_done t, m_CompletedAt := Some (qe_done t)\<rparr>;
                  s2 = s\<lparr>qp_messages := (qp_messages s)(r := m2)\<rparr>
              in if m_ConversationID m2 \<noteq> ''''
                 then (Completed r, s2\<lparr>qp_state := snd (dsm_UpdateMessage m2 (qp_state s2))\<rparr>)
                 else (Completed r, s2))"

definition qp_turn :: "turn \<Rightarrow> ('d, 'r) queue_process \<Rightarrow> turn_result \<times> ('d, 'r) queue_process" where
  "qp_turn t s =
     (if qe_stop t then (Stopped, s)
      else case qp_poll queue_names (qe_pop t) (qp_queue s) of
             (None, queue) \<Rightarrow> (Slept, s\<lparr>qp_queue := queue\<rparr>)
           | (Some r, queue) \<Rightarrow> qp_complete t r (s\<lparr>qp_queue := queue\<rparr>))"

fun processMessages :: "turn list \<Rightarrow> ('d, 'r) queue_process \<Rightarrow> turn_result list \<times> ('d, 'r) queue_process" where
  "processMessages [] s = ([], s)"
| "processMessages (t # ts) s =
     (case qp_turn t s of
        (Stopped, s1) \<Rightarrow> ([Stopped], s1)
      | (Abandoned r, s1) \<Rightarrow> ([Abandoned r], s1)
      | (result, s1) \<Rightarrow> (case processMessages ts s1 of (results, s2) \<Rightarrow> (result # results, s2)))"

section \<open>The order of completion\<close>

text \<open>The waiting messages, queue after queue, each in the order of priority and arrival.\<close>

fun waiting_in :: "string list \<Rightarrow> 'm MultiLevelQueue \<Rightarrow> 'm list" where
  "waiting_in [] q = []"
| "waiting_in (n # ns) q = (case mlq_abs q n of None \<Rightarrow> [] | Some es \<Rightarrow> map fst es) @ waiting_in ns q"

lemma waiting_in_cong: "(\<And>n. n \<in> set ns \<Longrightarrow> mlq_abs q' n = mlq_abs q n) \<Longrightarrow> waiting_in ns q' = waiting_in ns q"
  by (induction ns) simp_all

lemma pop_spec:
  assumes "mlq_inv q" and "mlq_unique q" and "mlq_Pop n now q = (res, q')"
  shows "mlq_inv q' \<and> mlq_unique q' \<and>
    (case mlq_abs q n of Some (e # es) \<Rightarrow> res = Inr (fst e) \<and> mlq_abs q' = (mlq_abs q)(n \<mapsto> es)
     | _ \<Rightarrow> (\<exists>err. res = Inl err) \<and> mlq_abs q' = mlq_abs q)"
proof -
  have step: "mlq_step (OpPop n now) q = (case res of Inl e \<Rightarrow> OError e | Inr m \<Rightarrow> OMessage m, q')"
    using assms(3) by (cases res) simp_all
  have ref: "spec_step (mlq_maxSize q) (OpPop n now) (mlq_abs q) = (fst (mlq_step (OpPop n now) q), mlq_abs q')" "mlq_unique q'"
    using mlq_step_refines [OF assms(1,2), of "OpPop n now"] step by simp_all
  have "mlq_inv q'" using mlq_step_inv [OF assms(1), of "OpPop n now"] unfolding step by simp
  then show ?thesis
    using ref(2) ref(1) [unfolded step] by (cases res) (auto split: option.splits list.splits)
qed

lemma poll_spec:
  assumes "mlq_inv q" and "mlq_unique q" and "distinct ns" and "qp_poll ns now q = (m, q')"
  shows "mlq_inv q' \<and> mlq_unique q' \<and> (\<forall>k. k \<notin> set ns \<longrightarrow> mlq_abs q' k = mlq_abs q k) \<and>
    (case waiting_in ns q of [] \<Rightarrow> m = None \<and> mlq_abs q' = mlq_abs q | r # rs \<Rightarrow> m = Some r \<and> waiting_in ns q' = rs)"
  using assms
proof (induction ns arbitrary: q)
  case (Cons n ns)
  obtain res q1 where pop: "mlq_Pop n now q = (res, q1)" by force
  note spec = pop_spec [OF Cons.prems(1,2) pop]
  show ?case
  proof (cases "case mlq_abs q n of Some (e # es) \<Rightarrow> True | _ \<Rightarrow> False")
    case True
    then obtain e es where e: "mlq_abs q n = Some (e # es)" by (auto split: option.splits list.splits)
    then have q1: "res = Inr (fst e)" "mlq_abs q1 = (mlq_abs q)(n \<mapsto> es)" using spec by simp_all
    then have "m = Some (fst e)" "q' = q1" using Cons.prems(4) pop by simp_all
    moreover have "waiting_in ns q1 = waiting_in ns q" using Cons.prems(3) q1(2) by (intro waiting_in_cong) auto
    ultimately show ?thesis using spec e q1(2) by simp
  next
    case False
    then have q1: "\<exists>err. res = Inl err" "mlq_abs q1 = mlq_abs q"
      "(case mlq_abs q n of None \<Rightarrow> [] | Some es \<Rightarrow> map fst es) = []"
      using spec by (auto split: option.splits list.splits)
    then have poll: "qp_poll ns now q1 = (m, q')" using Cons.prems(4) pop by auto
    have "waiting_in ns q1 = waiting_in ns q" using q1(2) by (intro waiting_in_cong) simp
    then show ?thesis using Cons.IH [OF _ _ _ poll] spec Cons.prems(3) q1(2,3) by (auto split: list.splits)
  qed
qed simp

lemma complete_spec:
  assumes "\<not> qe_cancelled t"
  shows "fst (qp_complete t r s) = Completed r" "qp_queue (snd (qp_complete t r s)) = qp_queue s"
    "m_Status (qp_messages (snd (qp_complete t r s)) r) = StatusCompleted"
    "r' \<noteq> r \<Longrightarrow> qp_messages (snd (qp_complete t r s)) r' = qp_messages s r'"
  using assms by (simp_all add: qp_complete_def Let_def)

lemma turns_spec:
  assumes "mlq_inv (qp_queue s)" and "mlq_unique (qp_queue s)"
    and "list_all (\<lambda>t. \<not> qe_stop t \<and> \<not> qe_cancelled t) ts" and "length ts = length (waiting_in queue_names (qp_queue s))"
  shows "fst (processMessages ts s) = map Completed (waiting_in queue_names (qp_queue s)) \<and>
    waiting_in queue_names (qp_queue (snd (processMessages ts s))) = [] \<and>
    (\<forall>r. m_Status (qp_messages s r) = StatusCompleted \<or> r \<in> set (waiting_in queue_names (qp_queue s)) \<longrightarrow>
       m_Status (qp_messages (snd (processMessages ts s)) r) = StatusCompleted)"
  using assms
proof (induction ts arbitrary: s)
  case (Cons t ts)
  obtain r rs where w: "waiting_in queue_names (qp_queue s) = r # rs" using Cons.prems(4) by (metis length_0_conv list.exhaust list.discI)
  obtain m q' where poll: "qp_poll queue_names (qe_pop t) (qp_queue s) = (m, q')" by force
  have "distinct queue_names" by (simp add: queue_names_def)
  from poll_spec [OF Cons.prems(1,2) this poll] have q': "mlq_inv q'" "mlq_unique q'" "m = Some r" "waiting_in queue_names q' = rs"
    by (simp_all add: w)
  have t: "\<not> qe_stop t" "\<not> qe_cancelled t" using Cons.prems(3) by simp_all
  define s1 where "s1 = snd (qp_complete t r (s\<lparr>qp_queue := q'\<rparr>))"
  note c = complete_spec [OF t(2), where r = r and s = "s\<lparr>qp_queue := q'\<rparr>", folded s1_def]
  have turn: "qp_turn t s = (Completed r, s1)"
    using c(1) by (simp add: qp_turn_def t poll q'(3) s1_def prod_eq_iff)
  have "fst (processMessages ts s1) = map Completed rs \<and> waiting_in queue_names (qp_queue (snd (processMessages ts s1))) = [] \<and>
      (\<forall>r'. m_Status (qp_messages s1 r') = StatusCompleted \<or> r' \<in> set rs \<longrightarrow>
         m_Status (qp_messages (snd (processMessages ts s1)) r') = StatusCompleted)"
    using Cons.IH [of s1] Cons.prems(3,4) q' c(2) w by simp
  moreover have "m_Status (qp_messages s1 r') = StatusCompleted"
    if "m_Status (qp_messages s r') = StatusCompleted \<or> r' = r" for r'
    using that c(3) c(4) by (cases "r' = r") simp_all
  ultimately show ?case by (auto simp: turn w case_prod_beta)
qed simp

text \<open>
  C11 (order of completion). A worker that is not stopped completes the waiting messages in as
  many turns as there are: all of the realtime queue first, then high, normal and low, each
  queue in the order of priority and arrival; then nothing waits.
\<close>

theorem worker_completes_in_order:
  assumes "mlq_run ops (NewMultiLevelQueue k) = (outs, qp_queue s)" and "sorted_wrt (<) (push_times ops)"
    and "list_all (\<lambda>t. \<not> qe_stop t \<and> \<not> qe_cancelled t) ts"
    and "waiting = waiting_in [''realtime'', ''high'', ''normal'', ''low''] (qp_queue s)" and "length ts = length waiting"
  shows "fst (processMessages ts s) = map Completed waiting \<and>
    waiting_in [''realtime'', ''high'', ''normal'', ''low''] (qp_queue (snd (processMessages ts s))) = [] \<and>
    (\<forall>r \<in> set waiting. m_Status (qp_messages (snd (processMessages ts s)) r) = StatusCompleted)"
proof -
  have inv: "mlq_inv (qp_queue s)" "mlq_unique (qp_queue s)"
    using mlq_reachable_inv [of ops k] mlq_reachable_unique [OF assms(2), of k] assms(1) by simp_all
  have w: "waiting = waiting_in queue_names (qp_queue s)" using assms(4) by (simp add: queue_names_def)
  from turns_spec [OF inv assms(3)] show ?thesis using assms(5) unfolding w by (simp add: queue_names_def [symmetric])
qed

definition sample_queue_ops :: "mref mlq_op list" where
  "sample_queue_ops = [OpAddQueue ''high'' 1, OpAddQueue ''low'' 1, OpPush ''low'' 7 4 2 2, OpPush ''high'' 8 2 3 3, OpPush ''high'' 9 2 4 4]"

definition sample_turn :: turn where
  "sample_turn = \<lparr>qe_stop = False, qe_pop = 5, qe_start = 5, qe_cancelled = False, qe_done = 6\<rparr>"

definition sample_process :: "('d, 'r) dsm_state \<Rightarrow> ('d, 'r) queue_process" where
  "sample_process st =
     \<lparr>qp_queue = snd (mlq_run sample_queue_ops (NewMultiLevelQueue 10)), qp_messages = (\<lambda>_. NewMessage ''m'' '''' ''u'' ''hello'' 2 1 1), qp_state = st\<rparr>"

lemma sample_waiting_names: "waiting_in queue_names (qp_queue (sample_process st)) = [8, 9, 7]"
  by (simp add: sample_process_def, code_simp)
    (simp add: pq.sorted_view_def pq_entries_def entry_of_def entry_key_def less_eq_item_key_def)

theorem worker_completes_in_order_witness:
  "\<forall>st :: (unit, unit) dsm_state. fst (processMessages [sample_turn, sample_turn, sample_turn] (sample_process st)) = [Completed 8, Completed 9, Completed 7]"
proof
  fix st :: "(unit, unit) dsm_state"
  have mlq: "mlq_run sample_queue_ops (NewMultiLevelQueue 10) = (fst (mlq_run sample_queue_ops (NewMultiLevelQueue 10)), qp_queue (sample_process st))"
    by (simp add: sample_process_def)
  have w: "[8, 9, 7] = waiting_in [''realtime'', ''high'', ''normal'', ''low''] (qp_queue (sample_process st))"
    using sample_waiting_names [of st] by (simp add: queue_names_def del: waiting_in.simps)
  have times: "sorted_wrt (<) (push_times sample_queue_ops)" by (simp add: sample_queue_ops_def)
  have turns: "list_all (\<lambda>t. \<not> qe_stop t \<and> \<not> qe_cancelled t) [sample_turn, sample_turn, sample_turn]" by (simp add: sample_turn_def)
  show "fst (processMessages [sample_turn, sample_turn, sample_turn] (sample_process st)) = [Completed 8, Completed 9, Completed 7]"
    using worker_completes_in_order [OF mlq times turns w] by (simp del: processMessages.simps waiting_in.simps)
qed

end
