(* ===== verification/WorkerPool.thy ===== *)
theory WorkerPool
  imports QueueWorker
begin

text \<open>
  The workers of \<^verbatim>\<open>cmd/queue-manager/main.go\<close> together: each goroutine runs \<^verbatim>\<open>processMessages\<close> on
  the one queue of the process. A labelled step relation over the local states of the workers;
  every pop of a single queue is a step of its own, so the polls of the workers interleave.
\<close>

section \<open>States and steps\<close>

text \<open>\<open>QPolling\<close> has the queues left to try, \<open>QWorking\<close> the message that is being processed.\<close>

datatype qworker = QTop | QPolling "string list" | QSleeping | QWorking mref | QStopped

record ('d, 'r) pool =
  pl_process :: "('d, 'r) queue_process"
  pl_workers :: "qworker list"
  pl_cancelled :: bool

definition pool_init :: "nat \<Rightarrow> ('d, 'r) queue_process \<Rightarrow> ('d, 'r) pool" where
  "pool_init workerCount s = \<lparr>pl_process = s, pl_workers = replicate workerCount QTop, pl_cancelled = False\<rparr>"

datatype pool_event = PTop nat | PPop nat go_time go_time | PWake nat | PDone nat go_time mref | PAbandon nat mref | PCancel

definition pool_go :: "nat \<Rightarrow> qworker \<Rightarrow> ('d, 'r) queue_process \<Rightarrow> ('d, 'r) pool \<Rightarrow> ('d, 'r) pool" where
  "pool_go i w s p = p\<lparr>pl_process := s, pl_workers := (pl_workers p)[i := w]\<rparr>"

definition pool_at :: "nat \<Rightarrow> qworker \<Rightarrow> ('d, 'r) pool \<Rightarrow> bool" where
  "pool_at i w p \<longleftrightarrow> i < length (pl_workers p) \<and> pl_workers p ! i = w"

text \<open>The message of a pop is marked as processing, and at the end as completed.\<close>

definition mark_processing :: "go_time \<Rightarrow> mref \<Rightarrow> ('d, 'r) queue_process \<Rightarrow> ('d, 'r) queue_process" where
  "mark_processing now r s =
     s\<lparr>qp_messages := (qp_messages s)(r := (qp_messages s r)\<lparr>m_Status := StatusProcessing, m_UpdatedAt := now\<rparr>)\<rparr>"

definition mark_completed :: "go_time \<Rightarrow> mref \<Rightarrow> ('d, 'r) queue_process \<Rightarrow> ('d, 'r) queue_process" where
  "mark_completed now r s =
     (let m = (qp_messages s r)\<lparr>m_Status := StatusCompleted, m_UpdatedAt := now, m_CompletedAt := Some now\<rparr>;
          s1 = s\<lparr>qp_messages := (qp_messages s)(r := m)\<rparr>
      in if m_ConversationID m \<noteq> '''' then s1\<lparr>qp_state := snd (dsm_UpdateMessage m (qp_state s1))\<rparr> else s1)"

text \<open>
  The end of the processing time and the cancellation race: a worker whose time is over completes
  its message also when the context has been cancelled since.
\<close>

inductive pool_step :: "pool_event \<Rightarrow> ('d, 'r) pool \<Rightarrow> ('d, 'r) pool \<Rightarrow> bool" where
  top: "pool_at i QTop p \<Longrightarrow>
    pool_step (PTop i) p (pool_go i (if pl_cancelled p then QStopped else QPolling queue_names) (pl_process p) p)"
| hit: "pool_at i (QPolling (n # ns)) p \<Longrightarrow> mlq_Pop n now (qp_queue (pl_process p)) = (Inr r, queue) \<Longrightarrow>
    pool_step (PPop i now start) p (pool_go i (QWorking r) (mark_processing start r (pl_process p\<lparr>qp_queue := queue\<rparr>)) p)"
| miss: "pool_at i (QPolling (n # ns)) p \<Longrightarrow> mlq_Pop n now (qp_queue (pl_process p)) = (Inl err, queue) \<Longrightarrow>
    pool_step (PPop i now start) p
      (pool_go i (if ns = [] then QSleeping else QPolling ns) (pl_process p\<lparr>qp_queue := queue\<rparr>) p)"
| wake: "pool_at i QSleeping p \<Longrightarrow> pool_step (PWake i) p (pool_go i QTop (pl_process p) p)"
| finish: "pool_at i (QWorking r) p \<Longrightarrow> pool_step (PDone i now r) p (pool_go i QTop (mark_completed now r (pl_process p)) p)"
| abandon: "pool_at i (QWorking r) p \<Longrightarrow> pl_cancelled p \<Longrightarrow> pool_step (PAbandon i r) p (pool_go i QStopped (pl_process p) p)"
| cancel: "pool_step PCancel p (p\<lparr>pl_cancelled := True\<rparr>)"

inductive_cases pool_stepE: "pool_step ev p p'"

inductive pool_run :: "('d, 'r) pool \<Rightarrow> pool_event list \<Rightarrow> ('d, 'r) pool \<Rightarrow> bool" where
  nil: "pool_run p [] p"
| snoc: "pool_run p evs p1 \<Longrightarrow> pool_step ev p1 p2 \<Longrightarrow> pool_run p (evs @ [ev]) p2"

section \<open>Where the messages are\<close>

fun completed_by :: "pool_event list \<Rightarrow> mref multiset" where
  "completed_by [] = {#}"
| "completed_by (PDone i now r # evs) = add_mset r (completed_by evs)"
| "completed_by (_ # evs) = completed_by evs"

fun abandoned_by :: "pool_event list \<Rightarrow> mref multiset" where
  "abandoned_by [] = {#}"
| "abandoned_by (PAbandon i r # evs) = add_mset r (abandoned_by evs)"
| "abandoned_by (_ # evs) = abandoned_by evs"

lemma completed_append [simp]: "completed_by (xs @ ys) = completed_by xs + completed_by ys"
  by (induction xs rule: completed_by.induct) simp_all

lemma abandoned_append [simp]: "abandoned_by (xs @ ys) = abandoned_by xs + abandoned_by ys"
  by (induction xs rule: abandoned_by.induct) simp_all

fun held_by :: "qworker \<Rightarrow> mref list" where
  "held_by (QWorking r) = [r]"
| "held_by _ = []"

definition held :: "('d, 'r) pool \<Rightarrow> mref multiset" where
  "held p = mset (concat (map held_by (pl_workers p)))"

definition waiting :: "('d, 'r) pool \<Rightarrow> mref multiset" where
  "waiting p = mset (waiting_in queue_names (qp_queue (pl_process p)))"

lemma held_update: "pool_at i w p \<Longrightarrow> mset (held_by w') + held p = mset (held_by w) + held (pool_go i w' s p)"
proof -
  have "i < length ws \<Longrightarrow> mset (concat (map held_by (ws[i := w']))) + mset (held_by (ws ! i)) =
      mset (concat (map held_by ws)) + mset (held_by w')" for ws
  proof (induction ws arbitrary: i)
    case (Cons y ys)
    then show ?case by (cases i) (auto simp: union_assoc ac_simps)
  qed simp
  then show "pool_at i w p \<Longrightarrow> ?thesis" by (auto simp: held_def pool_at_def pool_go_def ac_simps)
qed

text \<open>The statuses of what is held and what is through.\<close>

definition pool_inv :: "pool_event list \<Rightarrow> ('d, 'r) pool \<Rightarrow> ('d, 'r) pool \<Rightarrow> bool" where
  "pool_inv evs p0 p \<longleftrightarrow>
     mlq_inv (qp_queue (pl_process p)) \<and> mlq_unique (qp_queue (pl_process p)) \<and>
     (\<forall>ns. QPolling ns \<in> set (pl_workers p) \<longrightarrow> set ns \<subseteq> set queue_names) \<and>
     waiting p0 = waiting p + held p + completed_by evs + abandoned_by evs \<and>
     (pl_cancelled p \<or> QStopped \<notin> set (pl_workers p) \<and> abandoned_by evs = {#})"

lemma waiting_pop:
  assumes "mlq_inv q" and "mlq_unique q" and "mlq_Pop n now q = (res, q')" and "n \<in> set ns" and "distinct ns"
  shows "mset (waiting_in ns q) = (case res of Inl err \<Rightarrow> {#} | Inr r \<Rightarrow> {#r#}) + mset (waiting_in ns q')"
proof -
  note spec = pop_spec [OF assms(1-3)]
  have other: "mlq_abs q' k = mlq_abs q k" if "k \<noteq> n" for k
    using spec that by (auto split: option.splits list.splits)
  have here: "mset (case mlq_abs q n of None \<Rightarrow> [] | Some es \<Rightarrow> map fst es) =
      (case res of Inl err \<Rightarrow> {#} | Inr r \<Rightarrow> {#r#}) + mset (case mlq_abs q' n of None \<Rightarrow> [] | Some es \<Rightarrow> map fst es)"
    using spec by (auto split: option.splits list.splits)
  have "n \<in> set ks \<Longrightarrow> distinct ks \<Longrightarrow> mset (waiting_in ks q) = (case res of Inl err \<Rightarrow> {#} | Inr r \<Rightarrow> {#r#}) + mset (waiting_in ks q')" for ks
  proof (induction ks)
    case (Cons k ks)
    show ?case
    proof (cases "k = n")
      case True
      then have "waiting_in ks q' = waiting_in ks q" using Cons.prems(2) other True by (intro waiting_in_cong) (metis distinct.simps(2))
      then show ?thesis using True here by (simp add: ac_simps)
    next
      case False
      then show ?thesis using Cons other [OF False] by (simp add: ac_simps)
    qed
  qed simp
  then show ?thesis using assms(4,5) .
qed

lemma queue_frame [simp]:
  "qp_queue (mark_processing now r s) = qp_queue s" "qp_queue (mark_completed now r s) = qp_queue s"
  by (simp_all add: mark_processing_def mark_completed_def Let_def)

lemma go_simps [simp]:
  "pl_process (pool_go i w s p) = s" "pl_cancelled (pool_go i w s p) = pl_cancelled p"
  "pl_workers (pool_go i w s p) = (pl_workers p)[i := w]" "waiting (pool_go i w s p) = mset (waiting_in queue_names (qp_queue s))"
  by (simp_all add: pool_go_def waiting_def)

lemma distinct_queue_names: "distinct queue_names"
  by (simp add: queue_names_def)

lemma pool_step_inv:
  assumes "pool_inv evs p0 p" and "pool_step ev p p'"
  shows "pool_inv (evs @ [ev]) p0 p'"
  using assms(2)
proof cases
  case (hit i n ns now r queue start)
  have n: "n \<in> set queue_names" using assms(1) hit(3) by (force simp: pool_inv_def pool_at_def dest: nth_mem)
  have inv: "mlq_inv (qp_queue (pl_process p))" "mlq_unique (qp_queue (pl_process p))" using assms(1) by (simp_all add: pool_inv_def)
  have "waiting p = {#r#} + mset (waiting_in queue_names queue)"
    using waiting_pop [OF inv hit(4) n distinct_queue_names] by (simp add: waiting_def)
  then show ?thesis
    using assms(1) pop_spec [OF inv hit(4)] held_update [OF hit(3), of "QWorking r"] hit
    by (auto simp: pool_inv_def dest!: set_update_subset_insert [THEN subsetD])
next
  case (miss i n ns now err queue start)
  have n: "n \<in> set queue_names" and ns: "set ns \<subseteq> set queue_names"
    using assms(1) miss(3) by (force simp: pool_inv_def pool_at_def dest: nth_mem)+
  have inv: "mlq_inv (qp_queue (pl_process p))" "mlq_unique (qp_queue (pl_process p))" using assms(1) by (simp_all add: pool_inv_def)
  have "waiting p = mset (waiting_in queue_names queue)"
    using waiting_pop [OF inv miss(4) n distinct_queue_names] by (simp add: waiting_def)
  then show ?thesis
    using assms(1) pop_spec [OF inv miss(4)] held_update [OF miss(3), of "if ns = [] then QSleeping else QPolling ns"] miss ns
    by (auto simp: pool_inv_def dest!: set_update_subset_insert [THEN subsetD] split: if_splits)
next
  case (top i)
  then show ?thesis
    using assms(1) held_update [OF top(3), of "if pl_cancelled p then QStopped else QPolling queue_names"]
    by (auto simp: pool_inv_def waiting_def [of p] dest!: set_update_subset_insert [THEN subsetD] split: if_splits)
next
  case (wake i)
  then show ?thesis
    using assms(1) held_update [OF wake(3), of QTop]
    by (auto simp: pool_inv_def waiting_def [of p] dest!: set_update_subset_insert [THEN subsetD])
next
  case (finish i r now)
  then show ?thesis
    using assms(1) held_update [OF finish(3), of QTop]
    by (auto simp: pool_inv_def waiting_def [of p] dest!: set_update_subset_insert [THEN subsetD])
next
  case (abandon i r)
  then show ?thesis
    using assms(1) held_update [OF abandon(3), of QStopped]
    by (auto simp: pool_inv_def waiting_def [of p] dest!: set_update_subset_insert [THEN subsetD])
qed (use assms(1) in \<open>auto simp: pool_inv_def waiting_def held_def\<close>)

lemma pool_run_inv: "pool_run p0 evs p \<Longrightarrow> pool_inv [] p0 p0 \<Longrightarrow> pool_inv evs p0 p"
  by (induction rule: pool_run.induct) (auto intro: pool_step_inv)

section \<open>The status of the messages\<close>

lemma mark_status [simp]:
  "m_Status (qp_messages (mark_processing now r s) r') = (if r' = r then StatusProcessing else m_Status (qp_messages s r'))"
  "m_Status (qp_messages (mark_completed now r s) r') = (if r' = r then StatusCompleted else m_Status (qp_messages s r'))"
  by (simp_all add: mark_processing_def mark_completed_def Let_def)

definition status_inv :: "pool_event list \<Rightarrow> ('d, 'r) pool \<Rightarrow> bool" where
  "status_inv evs p \<longleftrightarrow>
     (\<forall>r. r \<in># completed_by evs \<longrightarrow> m_Status (qp_messages (pl_process p) r) = StatusCompleted) \<and>
     (\<forall>r. r \<in># held p + abandoned_by evs \<longrightarrow> m_Status (qp_messages (pl_process p) r) = StatusProcessing)"

text \<open>A message that is at one place is at no other.\<close>

lemma one_place:
  assumes "pool_inv evs p0 p" and "\<forall>r. count (waiting p0) r \<le> 1"
  shows "count (waiting p) r + count (held p) r + count (completed_by evs) r + count (abandoned_by evs) r \<le> 1"
proof -
  have "count (waiting p0) r = count (waiting p + held p + completed_by evs + abandoned_by evs) r"
    using assms(1) by (simp add: pool_inv_def)
  then show ?thesis using assms(2) by (metis count_union)
qed

lemma status_step:
  assumes "pool_inv evs p0 p" and "\<forall>r. count (waiting p0) r \<le> 1" and "status_inv evs p" and "pool_step ev p p'"
  shows "status_inv (evs @ [ev]) p'"
  using assms(4)
proof cases
  case (hit i n ns now r queue start)
  have n: "n \<in> set queue_names" using assms(1) hit(3) by (force simp: pool_inv_def pool_at_def dest: nth_mem)
  have inv: "mlq_inv (qp_queue (pl_process p))" "mlq_unique (qp_queue (pl_process p))" using assms(1) by (simp_all add: pool_inv_def)
  have "r \<in># waiting p"
    using waiting_pop [OF inv hit(4) n distinct_queue_names] by (simp add: waiting_def)
  then have "r \<notin># held p" "r \<notin># completed_by evs" "r \<notin># abandoned_by evs"
    using one_place [OF assms(1,2), of r] by (auto simp: count_greater_zero_iff [symmetric] simp del: count_greater_zero_iff)
  moreover have "held p' = add_mset r (held p)" using held_update [OF hit(3), of "QWorking r"] hit(2) by simp
  ultimately show ?thesis using assms(3) hit(1,2) by (auto simp: status_inv_def)
next
  case (finish i r now)
  have h: "held p = add_mset r (held p')" using held_update [OF finish(3), of QTop] finish(2) by simp
  then have "r \<notin># held p'" "r \<notin># abandoned_by evs"
    using one_place [OF assms(1,2), of r] by (auto simp: count_greater_zero_iff [symmetric] simp del: count_greater_zero_iff)
  then show ?thesis using assms(3) h finish(1,2) by (auto simp: status_inv_def)
next
  case (abandon i r)
  have "held p = add_mset r (held p')" using held_update [OF abandon(3), of QStopped] abandon(2) by simp
  then show ?thesis using assms(3) abandon(1,2) by (auto simp: status_inv_def)
next
  case (top i)
  have "held p' = held p" using held_update [OF top(3), of "if pl_cancelled p then QStopped else QPolling queue_names"] top(2)
    by (simp split: if_splits)
  then show ?thesis using assms(3) top(1,2) by (auto simp: status_inv_def)
next
  case (miss i n ns now err queue start)
  have "held p' = held p" using held_update [OF miss(3), of "if ns = [] then QSleeping else QPolling ns"] miss(2)
    by (simp split: if_splits)
  then show ?thesis using assms(3) miss(1,2) by (auto simp: status_inv_def)
next
  case (wake i)
  have "held p' = held p" using held_update [OF wake(3), of QTop] wake(2) by simp
  then show ?thesis using assms(3) wake(1,2) by (auto simp: status_inv_def)
qed (use assms(3) in \<open>auto simp: status_inv_def held_def\<close>)

lemma status_run:
  "pool_run p0 evs p \<Longrightarrow> pool_inv [] p0 p0 \<Longrightarrow> \<forall>r. count (waiting p0) r \<le> 1 \<Longrightarrow> status_inv [] p0 \<Longrightarrow> status_inv evs p"
proof (induction rule: pool_run.induct)
  case (snoc p evs p1 ev p2)
  show ?case
    by (rule status_step [OF pool_run_inv [OF snoc.hyps(1) snoc.prems(1)] snoc.prems(2) snoc.IH [OF snoc.prems] snoc.hyps(2)])
qed simp

lemma held_init [simp]: "held (pool_init n s) = {#}"
  by (induction n) (simp_all add: held_def pool_init_def)

text \<open>
  C6 (sharing the queue). In every interleaving of any number of workers over the queue, each
  message that waited at the start is in one place: still waiting, held by one worker, completed
  by one worker, or abandoned. None is completed twice and none is lost without a cancellation;
  but what a worker holds when the process is cancelled is abandoned, and then it is in no queue
  and stays in the status of being processed.
\<close>

theorem workers_share_queue:
  assumes "mlq_run ops (NewMultiLevelQueue k) = (outs, qp_queue s)" and "sorted_wrt (<) (push_times ops)"
    and "distinct (waiting_in queue_names (qp_queue s))" and "pool_run (pool_init n s) evs p"
  shows "mset (waiting_in queue_names (qp_queue s)) = waiting p + held p + completed_by evs + abandoned_by evs \<and>
    (\<forall>r. count (completed_by evs) r \<le> 1) \<and> (\<not> pl_cancelled p \<longrightarrow> abandoned_by evs = {#}) \<and>
    (\<forall>r \<in># completed_by evs. m_Status (qp_messages (pl_process p) r) = StatusCompleted) \<and>
    (\<forall>r \<in># abandoned_by evs. m_Status (qp_messages (pl_process p) r) = StatusProcessing \<and> r \<notin># waiting p)"
proof -
  have "mlq_inv (qp_queue s)" "mlq_unique (qp_queue s)"
    using mlq_reachable_inv [of ops k] mlq_reachable_unique [OF assms(2), of k] assms(1) by simp_all
  then have init: "pool_inv [] (pool_init n s) (pool_init n s)" "status_inv [] (pool_init n s)"
    by (simp_all add: pool_inv_def status_inv_def) (simp add: pool_init_def)
  have w0: "waiting (pool_init n s) = mset (waiting_in queue_names (qp_queue s))" by (simp add: waiting_def pool_init_def)
  have once: "\<forall>r. count (waiting (pool_init n s)) r \<le> 1"
    using assms(3) by (simp add: w0 distinct_count_atmost_1)
  note inv = pool_run_inv [OF assms(4) init(1)]
  have "count (completed_by evs) r \<le> 1" "r \<in># abandoned_by evs \<longrightarrow> r \<notin># waiting p" for r
    using one_place [OF inv once, of r] by (auto simp: count_greater_zero_iff [symmetric] simp del: count_greater_zero_iff)
  then show ?thesis
    using inv status_run [OF assms(4) init(1) once init(2)] by (auto simp: pool_inv_def w0 status_inv_def)
qed

theorem workers_share_queue_witness:
  "\<forall>st :: (unit, unit) dsm_state. \<exists>p. pool_run (pool_init 1 (sample_process st))
       ([] @ [PTop 0] @ [PPop 0 5 5] @ [PPop 0 5 6] @ [PCancel] @ [PAbandon 0 8]) p \<and>
     m_Status (qp_messages (pl_process p) 8) = StatusProcessing \<and> 8 \<notin># waiting p"
proof
  fix st :: "(unit, unit) dsm_state"
  let ?s = "sample_process st"
  let ?p0 = "pool_init 1 ?s"
  obtain err q1 where miss: "mlq_Pop ''realtime'' 5 (qp_queue ?s) = (Inl err, q1)" "q1 = qp_queue ?s"
  proof -
    have "mlq_queues (qp_queue ?s) ''realtime'' = None" by (simp add: sample_process_def, code_simp)
    then show ?thesis using that by (simp add: mlq_Pop_def)
  qed
  have "fst (mlq_Pop ''high'' 5 (qp_queue ?s)) = Inr 8" by (simp add: sample_process_def, code_simp)
  then obtain q2 where hit: "mlq_Pop ''high'' 5 q1 = (Inr 8, q2)" by (metis miss(2) prod.collapse)
  define p1 where "p1 = pool_go 0 (QPolling queue_names) ?s ?p0"
  define p2 where "p2 = pool_go 0 (QPolling [''high'', ''normal'', ''low'']) (?s\<lparr>qp_queue := q1\<rparr>) p1"
  define p3 where "p3 = pool_go 0 (QWorking 8) (mark_processing 6 8 (?s\<lparr>qp_queue := q2\<rparr>)) p2"
  define p4 where "p4 = p3\<lparr>pl_cancelled := True\<rparr>"
  define p5 where "p5 = pool_go 0 QStopped (pl_process p4) p4"
  have s1: "pool_step (PTop 0) ?p0 p1" using pool_step.top [of 0 ?p0] by (simp add: p1_def pool_at_def pool_init_def)
  have s2: "pool_step (PPop 0 5 5) p1 p2"
    using pool_step.miss [of 0 "''realtime''" "[''high'', ''normal'', ''low'']" p1 5 err q1 5] miss
    by (simp add: p2_def p1_def pool_at_def pool_init_def queue_names_def)
  have s3: "pool_step (PPop 0 5 6) p2 p3"
    using pool_step.hit [of 0 "''high''" "[''normal'', ''low'']" p2 5 8 q2 6] hit
    by (simp add: p3_def p2_def p1_def pool_at_def pool_init_def)
  have s4: "pool_step PCancel p3 p4" unfolding p4_def by (rule pool_step.cancel)
  have s5: "pool_step (PAbandon 0 8) p4 p5"
    using pool_step.abandon [of 0 8 p4] by (simp add: p5_def p4_def p3_def p2_def p1_def pool_at_def pool_init_def)
  have run: "pool_run ?p0 ([] @ [PTop 0] @ [PPop 0 5 5] @ [PPop 0 5 6] @ [PCancel] @ [PAbandon 0 8]) p5"
    unfolding append_assoc [symmetric]
    by (intro pool_run.snoc [OF _ s5] pool_run.snoc [OF _ s4] pool_run.snoc [OF _ s3] pool_run.snoc [OF _ s2] pool_run.snoc [OF _ s1] pool_run.nil)
  have "mlq_run sample_queue_ops (NewMultiLevelQueue 10) = (fst (mlq_run sample_queue_ops (NewMultiLevelQueue 10)), qp_queue ?s)"
    by (simp add: sample_process_def)
  moreover have "sorted_wrt (<) (push_times sample_queue_ops)" by (simp add: sample_queue_ops_def)
  ultimately have "\<forall>r \<in># abandoned_by ([] @ [PTop 0] @ [PPop 0 5 5] @ [PPop 0 5 6] @ [PCancel] @ [PAbandon 0 8]).
      m_Status (qp_messages (pl_process p5) r) = StatusProcessing \<and> r \<notin># waiting p5"
    using workers_share_queue [OF _ _ _ run] sample_waiting_names [of st] by simp
  then show "\<exists>p. pool_run ?p0 ([] @ [PTop 0] @ [PPop 0 5 5] @ [PPop 0 5 6] @ [PCancel] @ [PAbandon 0 8]) p \<and>
     m_Status (qp_messages (pl_process p) 8) = StatusProcessing \<and> 8 \<notin># waiting p" using run by auto
qed

section \<open>Shutdown\<close>

text \<open>Steps that are left to a worker when the context is cancelled.\<close>

fun qworker_weight :: "qworker \<Rightarrow> nat" where
  "qworker_weight QTop = 1"
| "qworker_weight (QPolling ns) = 3 + length ns"
| "qworker_weight QSleeping = 2"
| "qworker_weight (QWorking r) = 2"
| "qworker_weight QStopped = 0"

definition pool_weight :: "('d, 'r) pool \<Rightarrow> nat" where
  "pool_weight p = sum_list (map qworker_weight (pl_workers p))"

lemma sum_list_replace: "i < length xs \<Longrightarrow> sum_list (map g (xs[i := x])) + g (xs ! i) = sum_list (map g xs) + (g x :: nat)"
  by (induction xs arbitrary: i) (auto simp: nth_Cons split: nat.splits)

lemma pool_weight_go: "pool_at i w p \<Longrightarrow> qworker_weight w' < qworker_weight w \<Longrightarrow> pool_weight (pool_go i w' s p) < pool_weight p"
  using sum_list_replace [of i "pl_workers p" qworker_weight w'] by (auto simp: pool_weight_def pool_at_def)

lemma pool_step_cancelled:
  "pool_step ev p p' \<Longrightarrow> pl_cancelled p \<Longrightarrow> pl_cancelled p' \<and> (if ev = PCancel then p' = p else pool_weight p' < pool_weight p)"
  by (erule pool_stepE) (auto intro: pool_weight_go)

lemma pool_run_cancelled:
  "pool_run p evs p' \<Longrightarrow> pl_cancelled p \<Longrightarrow> pl_cancelled p' \<and> length (filter (\<lambda>ev. ev \<noteq> PCancel) evs) + pool_weight p' \<le> pool_weight p"
proof (induction rule: pool_run.induct)
  case (snoc p evs p1 ev p2)
  then show ?case using pool_step_cancelled [OF snoc.hyps(2)] by (auto split: if_splits)
qed simp

text \<open>A worker polls a queue that is left to try, and the workers stay the same number.\<close>

definition polls_something :: "('d, 'r) pool \<Rightarrow> bool" where
  "polls_something p \<longleftrightarrow> (\<forall>w \<in> set (pl_workers p). w \<noteq> QPolling [] \<and> qworker_weight w \<le> 7)"

lemma polls_go: "polls_something p \<Longrightarrow> w' \<noteq> QPolling [] \<and> qworker_weight w' \<le> 7 \<Longrightarrow> polls_something (pool_go i w' s p)"
  by (auto simp: polls_something_def dest!: set_update_subset_insert [THEN subsetD])

lemma pool_step_polls:
  assumes "polls_something p" and "pool_step ev p p'"
  shows "polls_something p' \<and> length (pl_workers p') = length (pl_workers p)"
  using assms(2)
proof cases
  case (miss i n ns now err queue start)
  have "qworker_weight (QPolling (n # ns)) \<le> 7" using miss(3) assms(1) by (auto simp: polls_something_def pool_at_def dest!: nth_mem)
  then show ?thesis using miss(2) by (auto intro: polls_go [OF assms(1)])
next
  case cancel
  then show ?thesis using assms(1) by (simp add: polls_something_def)
qed (auto intro: polls_go [OF assms(1)] simp: queue_names_def)

lemma pool_run_polls: "pool_run p evs p' \<Longrightarrow> polls_something p \<Longrightarrow> polls_something p' \<and> length (pl_workers p') = length (pl_workers p)"
  by (induction rule: pool_run.induct) (auto dest: pool_step_polls)

lemma polls_init: "polls_something (pool_init n s)" "length (pl_workers (pool_init n s)) = n"
  by (auto simp: polls_something_def pool_init_def)

lemma pool_progress:
  assumes "polls_something p" and "pl_cancelled p" and "w \<in> set (pl_workers p)" and "w \<noteq> QStopped"
  shows "\<exists>ev p'. ev \<noteq> PCancel \<and> pool_step ev p p'"
proof -
  obtain i where i: "pool_at i w p" using assms(3) by (auto simp: pool_at_def in_set_conv_nth)
  show ?thesis
  proof (cases w)
    case QTop
    then show ?thesis using pool_step.top i by (metis pool_event.distinct(9))
  next
    case (QPolling ns)
    then obtain n ns' where "w = QPolling (n # ns')" using assms(1,3) by (cases ns) (auto simp: polls_something_def)
    moreover obtain res queue where "mlq_Pop n 0 (qp_queue (pl_process p)) = (res, queue)" by (metis surj_pair)
    ultimately show ?thesis
      using pool_step.hit [of i n ns' p 0] pool_step.miss [of i n ns' p 0] i by (cases res) (metis pool_event.distinct(17))+
  next
    case QSleeping
    then show ?thesis using pool_step.wake i by (metis pool_event.distinct(23))
  next
    case (QWorking r)
    then show ?thesis using pool_step.finish i by (metis pool_event.distinct(27))
  qed (use assms(4) in simp)
qed

text \<open>
  C13 (shutdown terminates). Once the context of the process is cancelled, its \<^verbatim>\<open>workerCount\<close> workers
  take at most 7 steps each in every interleaving, and as long as one of them has not returned some
  worker can take a step: the process ends under every schedule. Then no worker holds a message.
\<close>

theorem pool_shutdown:
  assumes "pool_run (pool_init n s) evs p" and "pl_cancelled p" and "pool_run p evs' p'"
  shows "length (filter (\<lambda>ev. ev \<noteq> PCancel) evs') \<le> 7 * n \<and>
    (if \<forall>w \<in> set (pl_workers p'). w = QStopped then held p' = {#} else \<exists>ev p''. ev \<noteq> PCancel \<and> pool_step ev p' p'')"
proof -
  have ok: "polls_something p" "length (pl_workers p) = n" using pool_run_polls [OF assms(1) polls_init(1)] polls_init(2) by auto
  have "sum_list (map qworker_weight ws) \<le> 7 * length ws" if "\<forall>w \<in> set ws. qworker_weight w \<le> 7" for ws
    using that by (induction ws) auto
  then have "pool_weight p \<le> 7 * n" using ok by (auto simp: pool_weight_def polls_something_def)
  then have "length (filter (\<lambda>ev. ev \<noteq> PCancel) evs') \<le> 7 * n" "pl_cancelled p'"
    using pool_run_cancelled [OF assms(3,2)] by simp_all
  moreover have "held p' = {#}" if "\<forall>w \<in> set (pl_workers p'). w = QStopped"
  proof -
    have "map held_by (pl_workers p') = map (\<lambda>_. []) (pl_workers p')" using that by (intro map_cong) auto
    then show ?thesis by (simp add: held_def)
  qed
  moreover have "polls_something p'" using pool_run_polls [OF assms(3) ok(1)] by simp
  ultimately show ?thesis using pool_progress by (auto split: if_splits)
qed

theorem pool_shutdown_witness:
  "\<forall>st :: (unit, unit) dsm_state. \<exists>p. pool_run (pool_init 1 (sample_process st)) ([] @ [PCancel]) p \<and> pl_cancelled p \<and>
     (\<exists>ev p''. ev \<noteq> PCancel \<and> pool_step ev p p'')"
proof
  fix st :: "(unit, unit) dsm_state"
  let ?p = "(pool_init 1 (sample_process st))\<lparr>pl_cancelled := True\<rparr>"
  have run: "pool_run (pool_init 1 (sample_process st)) ([] @ [PCancel]) ?p"
    by (rule pool_run.snoc [OF pool_run.nil pool_step.cancel])
  from pool_shutdown [OF run _ pool_run.nil] run
  show "\<exists>p. pool_run (pool_init 1 (sample_process st)) ([] @ [PCancel]) p \<and> pl_cancelled p \<and> (\<exists>ev p''. ev \<noteq> PCancel \<and> pool_step ev p p'')"
    by (intro exI [of _ ?p]) (simp add: pool_init_def)
qed

end
