(* ===== verification/FactoryRuns.thy ===== *)
theory FactoryRuns
  imports QueueFactory WorkerLifecycle
begin

text \<open>
  The queue factory with everything it has started (\<^verbatim>\<open>internal/priorityqueue/queue_factory.go\<close>):
  the monitor of each manager and the goroutines of each worker run beside the calls of the
  clients. A labelled step relation that composes \<open>life_step\<close> of \<open>MonitorLifecycle\<close> and
  \<open>worker_step\<close> of \<open>WorkerLifecycle\<close>; the workers of a queue share its manager, and all share
  the store of the messages. \<^verbatim>\<open>StopAll\<close> stops one after the other, and holds the mutex of the
  factory meanwhile.
\<close>

section \<open>States and steps\<close>

text \<open>What \<^verbatim>\<open>StopAll\<close> has still to stop, and whether it waits in the \<^verbatim>\<open>Stop\<close> of the first of them.\<close>

datatype stop_task = StopWorker string nat | StopManager string

record 'r factory_sys =
  fs_managers :: "string \<Rightarrow> managed option"
  fs_workers :: "string \<Rightarrow> worker_sys list option"
  fs_config :: QueueConfig
  fs_store :: mstore
  fs_registry :: 'r
  fs_stop :: "(stop_task list \<times> bool) option"
  fs_panicked :: bool

definition fs_init :: "QueueConfig \<Rightarrow> mstore \<Rightarrow> 'r \<Rightarrow> 'r factory_sys" where
  "fs_init config st reg = \<lparr>fs_managers = Map.empty, fs_workers = Map.empty, fs_config = config, fs_store = st,
     fs_registry = reg, fs_stop = None, fs_panicked = False\<rparr>"

text \<open>The data of the factory, without the goroutines.\<close>

definition fs_factory :: "'r factory_sys \<Rightarrow> QueueFactory" where
  "fs_factory s = \<lparr>qf_managers = fs_managers s, qf_workers = (\<lambda>q. map_option (map ws_worker) (fs_workers s q)),
     qf_config = fs_config s\<rparr>"

text \<open>A worker as \<open>worker_step\<close> has it, with the manager and the store it works on; and back.\<close>

definition fs_view :: "string \<Rightarrow> worker_sys \<Rightarrow> 'r factory_sys \<Rightarrow> worker_sys option" where
  "fs_view q w s = map_option (\<lambda>(qm, l). w\<lparr>ws_queues := (qm, fs_store s)\<rparr>) (fs_managers s q)"

definition fs_put :: "string \<Rightarrow> nat \<Rightarrow> worker_sys \<Rightarrow> 'r factory_sys \<Rightarrow> 'r factory_sys" where
  "fs_put q i w s = s\<lparr>fs_managers := (fs_managers s)(q := map_option (\<lambda>(qm, l). (fst (ws_queues w), l)) (fs_managers s q)),
     fs_workers := (fs_workers s)(q := map_option (\<lambda>ws. ws[i := w]) (fs_workers s q)),
     fs_store := snd (ws_queues w), fs_panicked := ws_panicked w\<rparr>"

definition fs_raw :: "string \<Rightarrow> nat \<Rightarrow> 'r factory_sys \<Rightarrow> worker_sys option" where
  "fs_raw q i s = (case fs_workers s q of None \<Rightarrow> None | Some ws \<Rightarrow> if i < length ws then Some (ws ! i) else None)"

definition fs_worker_at :: "string \<Rightarrow> nat \<Rightarrow> 'r factory_sys \<Rightarrow> worker_sys option" where
  "fs_worker_at q i s = (case fs_raw q i s of None \<Rightarrow> None | Some w \<Rightarrow> fs_view q w s)"

definition fs_set_life :: "string \<Rightarrow> QueueManager \<Rightarrow> life \<Rightarrow> 'r factory_sys \<Rightarrow> 'r factory_sys" where
  "fs_set_life n qm l s = s\<lparr>fs_managers := (fs_managers s)(n \<mapsto> (qm, l)), fs_panicked := lf_panicked l\<rparr>"

text \<open>\<^verbatim>\<open>CreateWorkers\<close> starts each of the new workers.\<close>

definition fs_started :: "qm_state \<Rightarrow> Worker \<Rightarrow> worker_sys" where
  "fs_started qs w = (ws_init w qs)\<lparr>ws_loops := [LStarting]\<rparr>"

text \<open>The order of \<^verbatim>\<open>StopAll\<close>; \<open>qs\<close> and \<open>ns\<close> are the orders in which it visits the two maps.\<close>

definition stop_tasks :: "string list \<Rightarrow> string list \<Rightarrow> 'r factory_sys \<Rightarrow> stop_task list" where
  "stop_tasks qs ns s =
     concat (map (\<lambda>q. case fs_workers s q of None \<Rightarrow> [] | Some ws \<Rightarrow> map (StopWorker q) [0..<length ws]) qs) @ map StopManager ns"

datatype factory_event =
    FCreateManager string QueueType
  | FCreateWorkers string int
  | FUse string qm_op
  | FWorker string nat worker_event
  | FMonitor string life_event
  | FStopAll "string list" "string list"
  | FStopCall stop_task
  | FStopReturn stop_task
  | FStopDone

text \<open>
  \<open>procs\<close> gives each worker the function it was created with. A client may use a manager it got
  earlier at any time. A panic in a goroutine ends the program; one in \<^verbatim>\<open>CreateQueueManager\<close> or
  \<^verbatim>\<open>CreateWorkers\<close> is left to the caller, and then nothing has changed.
\<close>

inductive factory_step ::
    "((string \<times> string \<times> string) list \<Rightarrow> 'r \<Rightarrow> 'r option) \<Rightarrow> (float64 \<Rightarrow> int) \<Rightarrow> (string \<Rightarrow> nat \<Rightarrow> process_fun)
     \<Rightarrow> factory_event \<Rightarrow> 'r factory_sys \<Rightarrow> 'r factory_sys \<Rightarrow> bool"
  for must_register impl procs where
  create_manager: "\<not> fs_panicked s \<Longrightarrow> fs_stop s = None \<Longrightarrow>
    qf_CreateQueueManager must_register name queueType (fs_factory s, fs_registry s) = Some (m, qf, reg) \<Longrightarrow>
    factory_step must_register impl procs (FCreateManager name queueType) s (s\<lparr>fs_managers := qf_managers qf, fs_registry := reg\<rparr>)"
| create_workers: "\<not> fs_panicked s \<Longrightarrow> fs_stop s = None \<Longrightarrow> fs_managers s q = Some (qm, l) \<Longrightarrow>
    qf_CreateWorkers q n (fs_factory s) = Some (Some ws, qf) \<Longrightarrow>
    factory_step must_register impl procs (FCreateWorkers q n) s
      (s\<lparr>fs_workers := (fs_workers s)(q \<mapsto> (case fs_workers s q of None \<Rightarrow> [] | Some old \<Rightarrow> old) @ map (fs_started (qm, fs_store s)) ws)\<rparr>)"
| client_use: "\<not> fs_panicked s \<Longrightarrow> fs_managers s n = Some (qm, l) \<Longrightarrow> qm_step op (qm, fs_store s) = Some (qm', st) \<Longrightarrow>
    factory_step must_register impl procs (FUse n op) s (s\<lparr>fs_managers := (fs_managers s)(n \<mapsto> (qm', l)), fs_store := st\<rparr>)"
| worker: "\<not> fs_panicked s \<Longrightarrow> fs_worker_at q i s = Some w \<Longrightarrow> ws_internal ev \<Longrightarrow> worker_step impl (procs q i) ev w w' \<Longrightarrow>
    factory_step must_register impl procs (FWorker q i ev) s (fs_put q i w' s)"
| monitor: "\<not> fs_panicked s \<Longrightarrow> fs_managers s n = Some (qm, l) \<Longrightarrow> ev \<in> {Tickers, Exit} \<Longrightarrow> life_step (qm_config qm) ev l l' \<Longrightarrow>
    factory_step must_register impl procs (FMonitor n ev) s (fs_set_life n qm l' s)"
| stop_all: "\<not> fs_panicked s \<Longrightarrow> fs_stop s = None \<Longrightarrow> distinct qs \<Longrightarrow> set qs = dom (fs_workers s) \<Longrightarrow>
    distinct ns \<Longrightarrow> set ns = dom (fs_managers s) \<Longrightarrow>
    factory_step must_register impl procs (FStopAll qs ns) s (s\<lparr>fs_stop := Some (stop_tasks qs ns s, False)\<rparr>)"
| stop_worker: "\<not> fs_panicked s \<Longrightarrow> fs_stop s = Some (StopWorker q i # ts, False) \<Longrightarrow> fs_worker_at q i s = Some w \<Longrightarrow>
    worker_step impl (procs q i) WStop w w' \<Longrightarrow>
    factory_step must_register impl procs (FStopCall (StopWorker q i)) s ((fs_put q i w' s)\<lparr>fs_stop := Some (StopWorker q i # ts, True)\<rparr>)"
| worker_stopped: "\<not> fs_panicked s \<Longrightarrow> fs_stop s = Some (StopWorker q i # ts, True) \<Longrightarrow> fs_worker_at q i s = Some w \<Longrightarrow>
    worker_step impl (procs q i) WStopped w w' \<Longrightarrow>
    factory_step must_register impl procs (FStopReturn (StopWorker q i)) s ((fs_put q i w' s)\<lparr>fs_stop := Some (ts, False)\<rparr>)"
| stop_manager: "\<not> fs_panicked s \<Longrightarrow> fs_stop s = Some (StopManager n # ts, False) \<Longrightarrow> fs_managers s n = Some (qm, l) \<Longrightarrow>
    life_step (qm_config qm) StopCall l l' \<Longrightarrow>
    factory_step must_register impl procs (FStopCall (StopManager n)) s ((fs_set_life n qm l' s)\<lparr>fs_stop := Some (StopManager n # ts, True)\<rparr>)"
| manager_stopped: "\<not> fs_panicked s \<Longrightarrow> fs_stop s = Some (StopManager n # ts, True) \<Longrightarrow> fs_managers s n = Some (qm, l) \<Longrightarrow>
    life_step (qm_config qm) StopReturn l l' \<Longrightarrow>
    factory_step must_register impl procs (FStopReturn (StopManager n)) s ((fs_set_life n qm l' s)\<lparr>fs_stop := Some (ts, False)\<rparr>)"
| stop_done: "\<not> fs_panicked s \<Longrightarrow> fs_stop s = Some ([], False) \<Longrightarrow>
    factory_step must_register impl procs FStopDone s (s\<lparr>fs_workers := Map.empty, fs_managers := Map.empty, fs_stop := None\<rparr>)"

inductive_cases factory_stepE: "factory_step must_register impl procs ev s s'"

inductive factory_run ::
    "((string \<times> string \<times> string) list \<Rightarrow> 'r \<Rightarrow> 'r option) \<Rightarrow> (float64 \<Rightarrow> int) \<Rightarrow> (string \<Rightarrow> nat \<Rightarrow> process_fun)
     \<Rightarrow> 'r factory_sys \<Rightarrow> factory_event list \<Rightarrow> 'r factory_sys \<Rightarrow> bool"
  for must_register impl procs where
  nil: "factory_run must_register impl procs s [] s"
| snoc: "factory_run must_register impl procs s evs s1 \<Longrightarrow> factory_step must_register impl procs ev s1 s2 \<Longrightarrow>
    factory_run must_register impl procs s (evs @ [ev]) s2"

section \<open>Invariants\<close>

text \<open>The events of one worker.\<close>

fun worker_events :: "string \<Rightarrow> nat \<Rightarrow> factory_event list \<Rightarrow> worker_event list" where
  "worker_events q i [] = []"
| "worker_events q i (FWorker q' j ev # evs) = (if q' = q \<and> j = i then ev # worker_events q i evs else worker_events q i evs)"
| "worker_events q i (FStopCall t # evs) = (if t = StopWorker q i then WStop # worker_events q i evs else worker_events q i evs)"
| "worker_events q i (FStopReturn t # evs) = (if t = StopWorker q i then WStopped # worker_events q i evs else worker_events q i evs)"
| "worker_events q i (_ # evs) = worker_events q i evs"

lemma worker_events_append [simp]: "worker_events q i (xs @ ys) = worker_events q i xs @ worker_events q i ys"
  by (induction q i xs rule: worker_events.induct) simp_all

text \<open>The calls that wait in the \<^verbatim>\<open>Stop\<close> of a task.\<close>

definition waiting_at :: "stop_task \<Rightarrow> 'r factory_sys \<Rightarrow> nat" where
  "waiting_at t s = (case fs_stop s of Some (t' # ts, True) \<Rightarrow> if t' = t then 1 else 0 | _ \<Rightarrow> 0)"

definition worker_ok :: "QueueConfig \<Rightarrow> worker_event list \<Rightarrow> nat \<Rightarrow> worker_sys \<Rightarrow> bool" where
  "worker_ok config evs k w \<longleftrightarrow> ws_inv evs w w \<and> sends_something w \<and> ws_stopping w = k \<and> \<not> ws_panicked w \<and>
     w_maxConcurrent (ws_worker w) = ws_MaxConcurrent (qc_Worker config) \<and>
     w_processInterval (ws_worker w) = ws_ProcessInterval (qc_Worker config) \<and>
     w_maxBatchSize (ws_worker w) = ws_MaxBatchSize (qc_Worker config)"

definition monitor_ok :: "QueueConfig \<Rightarrow> nat \<Rightarrow> managed \<Rightarrow> bool" where
  "monitor_ok config k m \<longleftrightarrow> qm_inv (fst m) \<and>
     qmc_MonitorInterval (qm_config (fst m)) = qc_MonitorInterval config \<and>
     qmc_CleanupInterval (qm_config (fst m)) = qc_CleanupInterval config \<and>
     lf_starting (snd m) + lf_looping (snd m) + (if lf_doneClosed (snd m) then 1 else 0) = 1 \<and>
     lf_stopping (snd m) = k \<and> (0 < k \<longrightarrow> lf_cancelled (snd m)) \<and> \<not> lf_panicked (snd m)"

text \<open>What is not on the list of \<^verbatim>\<open>StopAll\<close> any more has ended; the workers come before the managers.\<close>

fun task_exists :: "stop_task \<Rightarrow> 'r factory_sys \<Rightarrow> bool" where
  "task_exists (StopWorker q i) s \<longleftrightarrow> fs_raw q i s \<noteq> None"
| "task_exists (StopManager n) s \<longleftrightarrow> fs_managers s n \<noteq> None"

fun task_ended :: "stop_task \<Rightarrow> 'r factory_sys \<Rightarrow> bool" where
  "task_ended (StopWorker q i) s \<longleftrightarrow> (case fs_raw q i s of None \<Rightarrow> True | Some w \<Rightarrow> all_ended w)"
| "task_ended (StopManager n) s \<longleftrightarrow> (case fs_managers s n of None \<Rightarrow> True | Some m \<Rightarrow> lf_doneClosed (snd m))"

fun workers_first :: "stop_task list \<Rightarrow> bool" where
  "workers_first [] \<longleftrightarrow> True"
| "workers_first (StopWorker q i # ts) \<longleftrightarrow> workers_first ts"
| "workers_first (StopManager n # ts) \<longleftrightarrow> (\<forall>t \<in> set ts. case t of StopWorker q i \<Rightarrow> False | StopManager n' \<Rightarrow> True)"

definition stop_ok :: "stop_task list \<Rightarrow> 'r factory_sys \<Rightarrow> bool" where
  "stop_ok ts s \<longleftrightarrow> distinct ts \<and> workers_first ts \<and> (\<forall>t \<in> set ts. task_exists t s) \<and> (\<forall>t. t \<notin> set ts \<longrightarrow> task_ended t s)"

definition fs_inv :: "QueueConfig \<Rightarrow> factory_event list \<Rightarrow> 'r factory_sys \<Rightarrow> bool" where
  "fs_inv config evs s \<longleftrightarrow> fs_config s = config \<and> finite (dom (fs_managers s)) \<and> finite (dom (fs_workers s)) \<and>
     dom (fs_workers s) \<subseteq> dom (fs_managers s) \<and>
     (\<forall>q i w. fs_raw q i s = Some w \<longrightarrow> worker_ok config (worker_events q i evs) (waiting_at (StopWorker q i) s) w) \<and>
     (\<forall>q i. fs_raw q i s = None \<longrightarrow> popped (worker_events q i evs) = finished (worker_events q i evs)) \<and>
     (\<forall>n m. fs_managers s n = Some m \<longrightarrow> monitor_ok config (waiting_at (StopManager n) s) m) \<and>
     (\<forall>ts b. fs_stop s = Some (ts, b) \<longrightarrow> stop_ok ts s)"

lemma worker_ok_queues [simp]: "worker_ok config evs k (w\<lparr>ws_queues := qs\<rparr>) = worker_ok config evs k w"
  by (simp add: worker_ok_def ws_inv_def in_flight_def sends_something_def)

lemma all_ended_queues [simp]: "all_ended (w\<lparr>ws_queues := qs\<rparr>) = all_ended w"
  by (simp add: all_ended_def)

lemma fs_raw_put [simp]:
  "fs_raw q' j (fs_put q i w s) = (if q' = q \<and> j = i \<and> fs_raw q i s \<noteq> None then Some w else fs_raw q' j s)"
  by (auto simp: fs_raw_def fs_put_def split: option.splits)

lemma fs_raw_frame [simp]:
  "fs_raw q i (fs_set_life n qm l s) = fs_raw q i s"
  "fs_raw q i (s\<lparr>fs_stop := x\<rparr>) = fs_raw q i s"
  "fs_raw q i (s\<lparr>fs_managers := ms\<rparr>) = fs_raw q i s"
  "fs_raw q i (s\<lparr>fs_registry := reg\<rparr>) = fs_raw q i s"
  "fs_raw q i (s\<lparr>fs_store := st\<rparr>) = fs_raw q i s"
  by (simp_all add: fs_raw_def fs_set_life_def)

lemma fs_worker_at_raw:
  "fs_worker_at q i s = Some w \<longleftrightarrow>
     (\<exists>w0 qm l. fs_raw q i s = Some w0 \<and> fs_managers s q = Some (qm, l) \<and> w = w0\<lparr>ws_queues := (qm, fs_store s)\<rparr>)"
  by (auto simp: fs_worker_at_def fs_view_def split: option.splits)

text \<open>What a step of a worker does to the manager it works on.\<close>

lemma processMessage_queues:
  assumes "worker_processMessage impl f t r (w, qs) = (w', qs')" and "qm_inv (fst qs)"
  shows "qm_inv (fst qs') \<and> qm_config (fst qs') = qm_config (fst qs)"
proof -
  obtain qm st where qs: "qs = (qm, st)" by (metis surj_pair)
  obtain err st1 where f: "f r st = (err, st1)" by (metis surj_pair)
  have push: "qm_inv (fst (snd (qm_PushMessage (wt_push t) n r (qm, st2)))) \<and>
      qm_config (fst (snd (qm_PushMessage (wt_push t) n r (qm, st2)))) = qm_config qm"
    for n st2 using qm_step_inv [of "(qm, st2)" "QPush (wt_push t) n r"] assms(2) qs by simp
  have fail: "qm_inv (qm_FailMessage now n qm) \<and> qm_config (qm_FailMessage now n qm) = qm_config qm" for now n
    using qm_step_inv [of "(qm, st)" "QFail now n"] assms(2) qs by simp
  have complete: "qm_inv (qm_CompleteMessage now n d qm) \<and> qm_config (qm_CompleteMessage now n d qm) = qm_config qm" for now n d
    using qm_step_inv [of "(qm, st)" "QComplete now n d"] assms(2) qs by simp
  show ?thesis using assms(1) push fail complete
    by (auto simp: qs f worker_processMessage_def worker_handleFailure_def worker_handleSuccess_def Let_def split: if_splits)
qed

lemma worker_step_queues:
  assumes "worker_step impl f ev w w'" and "qm_inv (fst (ws_queues w))"
  shows "qm_inv (fst (ws_queues w')) \<and> qm_config (fst (ws_queues w')) = qm_config (fst (ws_queues w))"
  using assms
proof cases
  case (tick i nows res qs rs)
  then show ?thesis using qm_step_inv [of "ws_queues w" "QBatchPop nows (w_queueName (ws_worker w)) (w_maxBatchSize (ws_worker w))" qs] assms(2)
    by simp
qed (auto dest: processMessage_queues)

lemma worker_step_frame:
  "worker_step impl f ev w w' \<Longrightarrow>
     w_maxConcurrent (ws_worker w') = w_maxConcurrent (ws_worker w) \<and> w_processInterval (ws_worker w') = w_processInterval (ws_worker w) \<and>
     w_maxBatchSize (ws_worker w') = w_maxBatchSize (ws_worker w) \<and>
     ws_stopping w' = (case ev of WStop \<Rightarrow> ws_stopping w + 1 | WStopped \<Rightarrow> ws_stopping w - 1 | _ \<Rightarrow> ws_stopping w)"
  by (erule worker_stepE) (auto dest: processMessage_frame)

lemma worker_ok_step:
  assumes "worker_ok config evs k w" and "worker_step impl f ev w w'" and "\<not> ws_panicked w'"
  shows "worker_ok config (evs @ [ev]) (ws_stopping w') w'"
proof -
  have "ws_inv (evs @ [ev]) w w'" using worker_step_inv [OF _ assms(2)] assms(1) by (simp add: worker_ok_def)
  moreover have "sends_something w'" using sends_step assms(1,2) by (auto simp: worker_ok_def)
  ultimately show ?thesis using worker_step_frame [OF assms(2)] assms(1,3) by (simp add: worker_ok_def ws_inv_def)
qed

lemma ended_step: "worker_step impl f ev w w' \<Longrightarrow> all_ended w \<Longrightarrow> ev \<noteq> WStart \<Longrightarrow> all_ended w'"
  using ended_run [OF worker_run_single] by fastforce

lemma monitor_ok_step:
  "monitor_ok config k (qm, l) \<Longrightarrow> life_step (qm_config qm) ev l l' \<Longrightarrow> ev \<noteq> Start \<Longrightarrow> \<not> lf_panicked l' \<Longrightarrow>
   monitor_ok config (lf_stopping l') (qm, l') \<and> (lf_doneClosed l \<longrightarrow> lf_doneClosed l') \<and>
   lf_stopping l' = (case ev of StopCall \<Rightarrow> k + 1 | StopReturn \<Rightarrow> k - 1 | _ \<Rightarrow> k) \<and> (ev = StopReturn \<longrightarrow> lf_doneClosed l')"
  by (erule life_stepE) (auto simp: monitor_ok_def split: if_splits)

lemma waiting_at_frame [simp]:
  "waiting_at t (fs_put q i w s) = waiting_at t s"
  "waiting_at t (fs_set_life n qm l s) = waiting_at t s"
  "waiting_at t (s\<lparr>fs_managers := ms\<rparr>) = waiting_at t s"
  "waiting_at t (s\<lparr>fs_workers := ws\<rparr>) = waiting_at t s"
  "waiting_at t (s\<lparr>fs_registry := reg\<rparr>) = waiting_at t s"
  "waiting_at t (s\<lparr>fs_store := st\<rparr>) = waiting_at t s"
  by (simp_all add: waiting_at_def fs_put_def fs_set_life_def)

lemma fs_frame [simp]:
  "fs_config (fs_put q i w s) = fs_config s" "fs_stop (fs_put q i w s) = fs_stop s" "fs_panicked (fs_put q i w s) = ws_panicked w"
  "dom (fs_managers (fs_put q i w s)) = dom (fs_managers s)" "dom (fs_workers (fs_put q i w s)) = dom (fs_workers s)"
  "fs_config (fs_set_life n qm l s) = fs_config s" "fs_stop (fs_set_life n qm l s) = fs_stop s" "fs_panicked (fs_set_life n qm l s) = lf_panicked l"
  "fs_workers (fs_set_life n qm l s) = fs_workers s" "fs_managers (fs_set_life n qm l s) = (fs_managers s)(n \<mapsto> (qm, l))"
  by (auto simp: fs_put_def fs_set_life_def dom_def)

lemma fs_managers_put:
  "fs_managers (fs_put q i w s) n = (if n = q then map_option (\<lambda>(qm, l). (fst (ws_queues w), l)) (fs_managers s q) else fs_managers s n)"
  by (simp add: fs_put_def)

lemma monitor_ok_queues:
  "monitor_ok config k (qm, l) \<Longrightarrow> qm_inv qm' \<and> qm_config qm' = qm_config qm \<Longrightarrow> monitor_ok config k (qm', l)"
  by (simp add: monitor_ok_def)

text \<open>A step of one worker, whatever becomes of \<open>fs_stop\<close>.\<close>

lemma fs_inv_worker:
  assumes inv: "fs_inv config evs s" and at: "fs_worker_at q i s = Some w" and step: "worker_step impl f ev w w'"
    and "ev \<noteq> WStart" and np: "\<not> ws_panicked w'"
    and evs: "\<And>q' j. worker_events q' j evs' = worker_events q' j evs @ (if q' = q \<and> j = i then [ev] else [])"
    and wait: "\<And>t. waiting_at t s' = (if t = StopWorker q i then ws_stopping w' else waiting_at t s)"
    and s': "s' = (fs_put q i w' s)\<lparr>fs_stop := x\<rparr>"
    and stop: "\<And>ts b. x = Some (ts, b) \<Longrightarrow> stop_ok ts s'"
  shows "fs_inv config evs' s'"
proof -
  obtain w0 qm l where w0: "fs_raw q i s = Some w0" "fs_managers s q = Some (qm, l)" "w = w0\<lparr>ws_queues := (qm, fs_store s)\<rparr>"
    using at by (auto simp: fs_worker_at_raw)
  have ok: "worker_ok config (worker_events q i evs) (waiting_at (StopWorker q i) s) w"
    using inv w0 by (simp add: fs_inv_def)
  have ok': "worker_ok config (worker_events q i evs') (ws_stopping w') w'"
    using worker_ok_step [OF ok step np] evs [of q i] by simp
  have mon: "monitor_ok config (waiting_at (StopManager n) s) m" if "fs_managers s n = Some m" for n m
    using that inv by (cases m) (simp add: fs_inv_def)
  have "qm_inv (fst (ws_queues w))" using mon [OF w0(2)] by (simp add: w0(3) monitor_ok_def)
  then have "qm_inv (fst (ws_queues w')) \<and> qm_config (fst (ws_queues w')) = qm_config qm"
    using worker_step_queues [OF step] by (simp add: w0(3))
  then have qm: "monitor_ok config (waiting_at (StopManager q) s) (fst (ws_queues w'), l)"
    by (rule monitor_ok_queues [OF mon [OF w0(2)]])
  have "monitor_ok config (waiting_at (StopManager n) s') m" if "fs_managers s' n = Some m" for n m
    using that mon w0(2) qm wait [of "StopManager n"] by (cases "n = q") (simp_all add: s' fs_managers_put)
  moreover have "worker_ok config (worker_events q' j evs') (waiting_at (StopWorker q' j) s') v" if "fs_raw q' j s' = Some v" for q' j v
    using that inv w0 ok' wait [of "StopWorker q' j"] evs [of q' j] by (auto simp: s' fs_inv_def split: if_splits)
  moreover have "popped (worker_events q' j evs') = finished (worker_events q' j evs')" if "fs_raw q' j s' = None" for q' j
    using that inv w0 evs [of q' j] by (auto simp: s' fs_inv_def split: if_splits)
  ultimately show ?thesis using inv stop by (simp add: s' fs_inv_def)
qed

text \<open>A step of one monitor.\<close>

lemma fs_inv_monitor:
  assumes inv: "fs_inv config evs s" and at: "fs_managers s n = Some (qm, l)" and step: "life_step (qm_config qm) ev l l'"
    and "ev \<noteq> Start" and np: "\<not> lf_panicked l'"
    and evs: "\<And>q j. worker_events q j evs' = worker_events q j evs"
    and wait: "\<And>t. waiting_at t s' = (if t = StopManager n then lf_stopping l' else waiting_at t s)"
    and s': "s' = (fs_set_life n qm l' s)\<lparr>fs_stop := x\<rparr>"
    and stop: "\<And>ts b. x = Some (ts, b) \<Longrightarrow> stop_ok ts s'"
  shows "fs_inv config evs' s'"
proof -
  have mon: "monitor_ok config (waiting_at (StopManager n') s) m" if "fs_managers s n' = Some m" for n' m
    using that inv by (cases m) (simp add: fs_inv_def)
  have "monitor_ok config (lf_stopping l') (qm, l')"
    using monitor_ok_step [OF mon [OF at] step assms(4,5)] by blast
  then have "monitor_ok config (waiting_at (StopManager n') s') m" if "fs_managers s' n' = Some m" for n' m
    using that mon wait [of "StopManager n'"] by (cases "n' = n") (simp_all add: s')
  then show ?thesis using inv stop wait at
    by (auto simp: s' fs_inv_def evs)
qed

text \<open>The list of \<^verbatim>\<open>StopAll\<close>.\<close>

lemma stop_ok_mono:
  "stop_ok ts s \<Longrightarrow> (\<And>t. task_exists t s \<Longrightarrow> task_exists t s') \<Longrightarrow> (\<And>t. task_ended t s \<Longrightarrow> task_ended t s') \<Longrightarrow> stop_ok ts s'"
  by (simp add: stop_ok_def)

lemma workers_first_tl: "workers_first (t # ts) \<Longrightarrow> workers_first ts"
proof (cases t)
  case (StopManager n)
  assume "workers_first (t # ts)"
  then show ?thesis using StopManager by (cases ts rule: workers_first.cases) auto
qed simp

lemma stop_ok_tl: "stop_ok (t # ts) s \<Longrightarrow> task_ended t s \<Longrightarrow> stop_ok ts s"
  using workers_first_tl by (simp add: stop_ok_def) metis

lemma stop_ok_fs_stop [simp]: "stop_ok ts (s\<lparr>fs_stop := x\<rparr>) = stop_ok ts s"
proof -
  have "task_exists t (s\<lparr>fs_stop := x\<rparr>) = task_exists t s" "task_ended t (s\<lparr>fs_stop := x\<rparr>) = task_ended t s" for t
    by (cases t; simp)+
  then show ?thesis by (simp add: stop_ok_def)
qed

lemma stop_ok_put:
  assumes "stop_ok ts s" and "fs_worker_at q i s = Some w" and "all_ended w \<Longrightarrow> all_ended w'"
  shows "stop_ok ts (fs_put q i w' s)"
proof (rule stop_ok_mono [OF assms(1)])
  have raw: "fs_raw q i s \<noteq> None" "all_ended (the (fs_raw q i s)) \<Longrightarrow> all_ended w'"
    using assms(2,3) by (auto simp: fs_worker_at_raw)
  show "task_exists t (fs_put q i w' s)" if "task_exists t s" for t
    using that by (cases t) (auto simp: fs_managers_put)
  show "task_ended t (fs_put q i w' s)" if "task_ended t s" for t
    using that raw by (cases t) (auto simp: fs_managers_put split: option.splits)
qed

lemma stop_ok_life:
  assumes "stop_ok ts s" and "fs_managers s n = Some (qm, l)" and "lf_doneClosed l \<Longrightarrow> lf_doneClosed l'"
  shows "stop_ok ts (fs_set_life n qm l' s)"
proof (rule stop_ok_mono [OF assms(1)])
  show "task_exists t (fs_set_life n qm l' s)" if "task_exists t s" for t
    using that by (cases t) auto
  show "task_ended t (fs_set_life n qm l' s)" if "task_ended t s" for t
    using that assms(2,3) by (cases t) (auto split: option.splits)
qed

lemma in_stop_tasks:
  "t \<in> set (stop_tasks qs ns s) \<longleftrightarrow>
     (case t of StopWorker q i \<Rightarrow> q \<in> set qs \<and> fs_raw q i s \<noteq> None | StopManager n \<Rightarrow> n \<in> set ns)"
  by (cases t) (force simp: stop_tasks_def fs_raw_def split: option.splits if_splits)+

lemma workers_first_append: "(\<And>t. t \<in> set us \<Longrightarrow> \<exists>q i. t = StopWorker q i) \<Longrightarrow> workers_first (us @ map StopManager ns)"
proof (induction us)
  case Nil
  show ?case by (cases ns) auto
next
  case (Cons t us)
  then obtain q i where "t = StopWorker q i" by (meson list.set_intros(1))
  with Cons show ?case by simp
qed

lemma stop_tasks_ok:
  assumes "distinct qs" "set qs = dom (fs_workers s)" "distinct ns" "set ns = dom (fs_managers s)"
  shows "stop_ok (stop_tasks qs ns s) s"
proof -
  define f where "f q = (case fs_workers s q of None \<Rightarrow> [] | Some ws \<Rightarrow> map (StopWorker q) [0..<length ws])" for q
  have f: "t \<in> set (f q) \<Longrightarrow> \<exists>i. t = StopWorker q i" for t q by (auto simp: f_def split: option.splits)
  have "distinct (f q)" for q by (auto simp: f_def distinct_map inj_on_def split: option.splits)
  moreover have "set (f q) \<inter> set (f q') = {}" if "q \<noteq> q'" for q q'
    using that f [of _ q] f [of _ q'] by auto
  ultimately have "distinct (concat (map f qs))" using assms(1)
    by (induction qs) (simp_all add: disjoint_iff, metis)
  moreover have "distinct (map StopManager ns)" using assms(3) by (auto simp: distinct_map inj_on_def)
  moreover have "workers_first (stop_tasks qs ns s)"
    unfolding stop_tasks_def by (rule workers_first_append) (use f in \<open>fastforce simp: f_def\<close>)
  moreover have "set (concat (map f qs)) \<inter> set (map StopManager ns) = {}" using f by fastforce
  ultimately have "distinct (stop_tasks qs ns s)" "workers_first (stop_tasks qs ns s)"
    by (simp_all add: stop_tasks_def f_def [abs_def])
  moreover have "task_exists t s" if "t \<in> set (stop_tasks qs ns s)" for t
    using that assms(4) by (auto simp: in_stop_tasks split: stop_task.splits)
  moreover have "task_ended t s" if "t \<notin> set (stop_tasks qs ns s)" for t
    using that assms(2,4) by (cases t) (auto simp: in_stop_tasks fs_raw_def split: option.splits if_splits)
  ultimately show ?thesis by (simp add: stop_ok_def)
qed

lemma waiting_at_idle [simp]: "fs_stop s = None \<Longrightarrow> waiting_at t s = 0" "fs_stop s = Some (ts, False) \<Longrightarrow> waiting_at t s = 0"
  by (simp_all add: waiting_at_def split: list.splits)

lemma manager_config_intervals:
  "qmc_MonitorInterval (qf_createManagerConfig queueType qf) = qc_MonitorInterval (qf_config qf)"
  "qmc_CleanupInterval (qf_createManagerConfig queueType qf) = qc_CleanupInterval (qf_config qf)"
  by (simp_all add: qf_createManagerConfig_def Let_def)

lemma fs_inv_create_manager:
  assumes inv: "fs_inv config evs s" and idle: "fs_stop s = None"
    and create: "qf_CreateQueueManager must_register name queueType (fs_factory s, fs_registry s) = Some (m, qf, reg)"
  shows "fs_inv config (evs @ [FCreateManager name queueType]) (s\<lparr>fs_managers := qf_managers qf, fs_registry := reg\<rparr>)"
proof (cases "fs_managers s name")
  case (Some m')
  then have "qf_managers qf = fs_managers s" using create by (auto simp: qf_CreateQueueManager_def fs_factory_def)
  then show ?thesis using inv idle by (simp add: fs_inv_def)
next
  case None
  then obtain qm where qm: "NewQueueManager must_register (qf_createManagerConfig queueType (fs_factory s)) (fs_registry s) = Some (qm, reg)"
    "qf_managers qf = (fs_managers s)(name \<mapsto> (qm, life_Start life_init))"
    using create by (auto simp: qf_CreateQueueManager_def fs_factory_def Let_def split: option.splits)
  have "qm = qm_init (qf_createManagerConfig queueType (fs_factory s))" by (rule NewQueueManager_init [OF qm(1)])
  then have "monitor_ok config 0 (qm, life_Start life_init)"
    using inv qm_inv_init manager_config_intervals [of queueType "fs_factory s"]
    by (simp add: monitor_ok_def life_Start_def life_init_def fs_inv_def) (simp add: qm_init_def fs_factory_def)
  then show ?thesis using inv idle qm(2) by (auto simp: fs_inv_def)
qed

lemma started_ok:
  assumes "ws_MaxConcurrent (qc_Worker config) = w_maxConcurrent w" "ws_ProcessInterval (qc_Worker config) = w_processInterval w"
    "ws_MaxBatchSize (qc_Worker config) = w_maxBatchSize w" "popped evs = finished evs"
  shows "worker_ok config evs 0 (fs_started qs w)"
  using assms by (simp add: worker_ok_def fs_started_def ws_init_def ws_inv_def in_flight_def sends_something_def)

lemma qf_make_workers_config:
  "qf_make_workers q is qf = Some ws \<Longrightarrow> w \<in> set ws \<Longrightarrow>
     ws_MaxConcurrent (qc_Worker (qf_config qf)) = w_maxConcurrent w \<and> ws_ProcessInterval (qc_Worker (qf_config qf)) = w_processInterval w \<and>
     ws_MaxBatchSize (qc_Worker (qf_config qf)) = w_maxBatchSize w"
  by (induction q "is" qf arbitrary: ws rule: qf_make_workers.induct)
    (auto simp: NewWorker_def qf_worker_config_def Let_def split: option.splits if_splits)

lemma fs_inv_create_workers:
  assumes inv: "fs_inv config evs s" and idle: "fs_stop s = None" and at: "fs_managers s q = Some (qm, l)"
    and create: "qf_CreateWorkers q n (fs_factory s) = Some (Some ws, qf)"
  shows "fs_inv config (evs @ [FCreateWorkers q n])
    (s\<lparr>fs_workers := (fs_workers s)(q \<mapsto> (case fs_workers s q of None \<Rightarrow> [] | Some old \<Rightarrow> old) @ map (fs_started (qm, fs_store s)) ws)\<rparr>)"
    (is "fs_inv _ _ ?s")
proof -
  have conf: "fs_config s = config" using inv by (simp add: fs_inv_def)
  have made: "qf_make_workers q [0..<nat n] (fs_factory s) = Some ws"
    using create by (auto simp: qf_CreateWorkers_def Let_def split: if_splits option.splits)
  have new: "worker_ok config evs' 0 (fs_started qs w)" if "w \<in> set ws" "popped evs' = finished evs'" for w evs' qs
    using started_ok [OF _ _ _ that(2)] qf_make_workers_config [OF made that(1)] conf by (simp add: fs_factory_def)
  define k where "k = (case fs_workers s q of None \<Rightarrow> 0 | Some old \<Rightarrow> length old)"
  have raw: "fs_raw q' i ?s = (case fs_raw q' i s of Some w \<Rightarrow> Some w
      | None \<Rightarrow> if q' = q \<and> i < k + length ws then Some (fs_started (qm, fs_store s) (ws ! (i - k))) else None)" for q' i
    by (auto simp: fs_raw_def k_def nth_append split: option.splits)
  have "worker_ok config (worker_events q' i (evs @ [FCreateWorkers q n])) (waiting_at (StopWorker q' i) ?s) w" if "fs_raw q' i ?s = Some w" for q' i w
  proof (cases "fs_raw q' i s")
    case (Some w')
    then show ?thesis using that raw [of q' i] inv by (simp add: fs_inv_def)
  next
    case None
    then have "popped (worker_events q' i evs) = finished (worker_events q' i evs)" using inv by (simp add: fs_inv_def)
    moreover have "q' = q \<Longrightarrow> k \<le> i" using None by (auto simp: fs_raw_def k_def split: option.splits if_splits)
    then have "i - k < length ws" "w = fs_started (qm, fs_store s) (ws ! (i - k))"
      using that raw [of q' i] None by (auto split: if_splits)
    then obtain w0 where "w0 \<in> set ws" "w = fs_started (qm, fs_store s) w0" using nth_mem by blast
    ultimately show ?thesis using new idle by simp
  qed
  moreover have "popped (worker_events q' i (evs @ [FCreateWorkers q n])) = finished (worker_events q' i (evs @ [FCreateWorkers q n]))"
    if "fs_raw q' i ?s = None" for q' i
    using that raw [of q' i] inv by (auto simp: fs_inv_def split: option.splits)
  ultimately show ?thesis using inv at idle by (auto simp: fs_inv_def)
qed

lemma fs_inv_use:
  assumes inv: "fs_inv config evs s" and at: "fs_managers s n = Some (qm, l)" and step: "qm_step op (qm, fs_store s) = Some (qm', st)"
  shows "fs_inv config (evs @ [FUse n op]) (s\<lparr>fs_managers := (fs_managers s)(n \<mapsto> (qm', l)), fs_store := st\<rparr>)" (is "fs_inv _ _ ?s")
proof -
  have mon: "monitor_ok config (waiting_at (StopManager n') s) m" if "fs_managers s n' = Some m" for n' m
    using that inv by (cases m) (simp add: fs_inv_def)
  have "qm_inv qm' \<and> qm_config qm' = qm_config qm" using qm_step_inv [OF _ step] mon [OF at] by (simp add: monitor_ok_def)
  then have "monitor_ok config (waiting_at (StopManager n) s) (qm', l)" by (rule monitor_ok_queues [OF mon [OF at]])
  then have "monitor_ok config (waiting_at (StopManager n') ?s) m" if "fs_managers ?s n' = Some m" for n' m
    using that mon by (cases "n' = n") simp_all
  moreover have "stop_ok ts ?s" if "fs_stop s = Some (ts, b)" for ts b
  proof (rule stop_ok_mono)
    show "stop_ok ts s" using that inv by (simp add: fs_inv_def)
    show "task_exists t ?s" if "task_exists t s" for t using that at by (cases t) auto
    show "task_ended t ?s" if "task_ended t s" for t using that at by (cases t) auto
  qed
  ultimately show ?thesis using inv at by (auto simp: fs_inv_def)
qed

lemma worker_ok_at:
  assumes "fs_inv config evs s" and "fs_worker_at q i s = Some w"
  shows "worker_ok config (worker_events q i evs) (waiting_at (StopWorker q i) s) w"
  using assms by (auto simp: fs_inv_def fs_worker_at_raw)

lemma monitor_ok_at: "fs_inv config evs s \<Longrightarrow> fs_managers s n = Some m \<Longrightarrow> monitor_ok config (waiting_at (StopManager n) s) m"
  by (cases m) (simp add: fs_inv_def)

lemma waiting_at_stop:
  "waiting_at t (s\<lparr>fs_stop := Some (t' # ts, True)\<rparr>) = (if t = t' then 1 else 0)"
  "waiting_at t (s\<lparr>fs_stop := Some (ts, False)\<rparr>) = 0"
  by (auto simp: waiting_at_def split: list.splits)

lemma stop_ok_at: "fs_inv config evs s \<Longrightarrow> fs_stop s = Some (ts, b) \<Longrightarrow> stop_ok ts s"
  by (simp add: fs_inv_def)

lemma internal_not_start: "ws_internal ev \<Longrightarrow> ev \<noteq> WStart"
  by auto

lemma fs_step_inv:
  assumes inv: "fs_inv config evs s" and step: "factory_step must_register impl procs ev s s'" and np: "\<not> fs_panicked s'"
  shows "fs_inv config (evs @ [ev]) s'"
  using step
proof cases
  case (create_manager name queueType m qf reg)
  then show ?thesis using fs_inv_create_manager [OF inv] by simp
next
  case (create_workers q qm l n ws qf)
  then show ?thesis using fs_inv_create_workers [OF inv] by simp
next
  case (client_use n qm l op qm' st)
  then show ?thesis using fs_inv_use [OF inv] by simp
next
  case (worker q i w ev' w')
  have "ws_stopping w' = ws_stopping w" using worker_step_frame [OF worker(6)] worker(5) by (cases ev') auto
  then have "ws_stopping w' = waiting_at (StopWorker q i) s" using worker_ok_at [OF inv worker(4)] by (simp add: worker_ok_def)
  moreover have "stop_ok ts (fs_put q i w' s)" if "fs_stop s = Some (ts, b)" for ts b
    using stop_ok_put [OF stop_ok_at [OF inv that] worker(4)] ended_step [OF worker(6)] internal_not_start [OF worker(5)] by blast
  ultimately show ?thesis unfolding worker(1,2)
    using np worker(2) internal_not_start [OF worker(5)]
    by (intro fs_inv_worker [OF inv worker(4,6), where x = "fs_stop s"]) auto
next
  case (monitor n qm l ev' l')
  have k: "lf_stopping l' = waiting_at (StopManager n) s" "lf_doneClosed l \<Longrightarrow> lf_doneClosed l'"
    using monitor_ok_step [OF monitor_ok_at [OF inv monitor(4)] monitor(6)] monitor(5) np monitor(2) by auto
  have "stop_ok ts (fs_set_life n qm l' s)" if "fs_stop s = Some (ts, b)" for ts b
    by (rule stop_ok_life [OF stop_ok_at [OF inv that] monitor(4) k(2)])
  then show ?thesis unfolding monitor(1,2)
    using monitor(2,5) np k(1)
    by (intro fs_inv_monitor [OF inv monitor(4,6), where x = "fs_stop s"]) auto
next
  case (stop_all qs ns)
  then have "stop_ok (stop_tasks qs ns s) s" by (intro stop_tasks_ok)
  then have "stop_ok (stop_tasks qs ns s) s'" using stop_all(2) by simp
  moreover have "waiting_at t s' = waiting_at t s" for t using stop_all by (simp add: waiting_at_stop)
  ultimately show ?thesis using inv stop_all(1,2) by (simp add: fs_inv_def)
next
  case (stop_worker q i ts w w')
  have "ws_stopping w' = 1"
    using worker_step_frame [OF stop_worker(6)] worker_ok_at [OF inv stop_worker(5)] stop_worker(4) by (simp add: worker_ok_def)
  moreover have "stop_ok (StopWorker q i # ts) (fs_put q i w' s)"
    using stop_ok_put [OF stop_ok_at [OF inv stop_worker(4)] stop_worker(5)] ended_step [OF stop_worker(6)] by blast
  ultimately show ?thesis unfolding stop_worker(1,2)
    using np stop_worker(2,4)
    by (intro fs_inv_worker [OF inv stop_worker(5,6), where x = "Some (StopWorker q i # ts, True)"]) (auto simp: waiting_at_stop)
next
  case (worker_stopped q i ts w w')
  have "ws_stopping w' = 0"
    using worker_step_frame [OF worker_stopped(6)] worker_ok_at [OF inv worker_stopped(5)] worker_stopped(4)
    by (simp add: worker_ok_def waiting_at_def)
  moreover have ended: "all_ended w'" using worker_stopped(6) by (auto elim!: worker_stepE simp: all_ended_def)
  have "stop_ok (StopWorker q i # ts) (fs_put q i w' s)"
    using stop_ok_put [OF stop_ok_at [OF inv worker_stopped(4)] worker_stopped(5)] ended by blast
  then have "stop_ok ts (fs_put q i w' s)" by (rule stop_ok_tl) (use ended in \<open>simp split: option.splits\<close>)
  moreover have "waiting_at t s = (if t = StopWorker q i then 1 else 0)" for t using worker_stopped(4) by (simp add: waiting_at_def)
  ultimately show ?thesis unfolding worker_stopped(1,2)
    using np worker_stopped(2)
    by (intro fs_inv_worker [OF inv worker_stopped(5,6), where x = "Some (ts, False)"]) (auto simp: waiting_at_stop)
next
  case (stop_manager n ts qm l l')
  have k: "lf_stopping l' = 1" "lf_doneClosed l \<Longrightarrow> lf_doneClosed l'"
    using monitor_ok_step [OF monitor_ok_at [OF inv stop_manager(5)] stop_manager(6)] np stop_manager(2,4) by auto
  have "stop_ok (StopManager n # ts) (fs_set_life n qm l' s)"
    by (rule stop_ok_life [OF stop_ok_at [OF inv stop_manager(4)] stop_manager(5) k(2)])
  then show ?thesis unfolding stop_manager(1,2)
    using np stop_manager(2,4) k(1)
    by (intro fs_inv_monitor [OF inv stop_manager(5,6), where x = "Some (StopManager n # ts, True)"]) (auto simp: waiting_at_stop)
next
  case (manager_stopped n ts qm l l')
  have wait: "waiting_at t s = (if t = StopManager n then 1 else 0)" for t using manager_stopped(4) by (simp add: waiting_at_def)
  have k: "lf_stopping l' = 0" "lf_doneClosed l'" "lf_doneClosed l \<Longrightarrow> lf_doneClosed l'"
    using monitor_ok_step [OF monitor_ok_at [OF inv manager_stopped(5)] manager_stopped(6)] np manager_stopped(2) wait by auto
  have "stop_ok (StopManager n # ts) (fs_set_life n qm l' s)"
    by (rule stop_ok_life [OF stop_ok_at [OF inv manager_stopped(4)] manager_stopped(5) k(3)])
  then have "stop_ok ts (fs_set_life n qm l' s)" by (rule stop_ok_tl) (use k(2) in simp)
  then show ?thesis unfolding manager_stopped(1,2)
    using np manager_stopped(2) k(1) wait
    by (intro fs_inv_monitor [OF inv manager_stopped(5,6), where x = "Some (ts, False)"]) (auto simp: waiting_at_stop)
next
  case stop_done
  have "popped (worker_events q i evs) = finished (worker_events q i evs)" for q i
  proof (cases "fs_raw q i s")
    case None
    then show ?thesis using inv by (simp add: fs_inv_def)
  next
    case (Some w)
    have "task_ended (StopWorker q i) s" using stop_ok_at [OF inv stop_done(4)] by (simp add: stop_ok_def)
    then have "in_flight w = {#}" using Some ended_in_flight by simp
    moreover have "worker_ok config (worker_events q i evs) (waiting_at (StopWorker q i) s) w" using Some inv by (simp add: fs_inv_def)
    ultimately show ?thesis by (simp add: worker_ok_def ws_inv_def)
  qed
  moreover have "fs_raw q i s' = None" for q i using stop_done(2) by (simp add: fs_raw_def)
  ultimately show ?thesis using inv stop_done(1,2) by (simp add: fs_inv_def)
qed

lemma fs_run_inv:
  assumes "factory_run must_register impl procs (fs_init config st reg) evs s" and "\<not> fs_panicked s"
  shows "fs_inv config evs s"
  using assms
proof (induction "fs_init config st reg" evs s rule: factory_run.induct)
  case nil
  show ?case by (simp add: fs_inv_def fs_init_def fs_raw_def)
next
  case (snoc evs s1 ev s2)
  then have "\<not> fs_panicked s1" by (auto elim: factory_stepE)
  then show ?case using snoc fs_step_inv by blast
qed

section \<open>No panic\<close>

text \<open>A configuration with which every goroutine can go on.\<close>

definition factory_live :: "QueueConfig \<Rightarrow> bool" where
  "factory_live config \<longleftrightarrow> 0 < ws_ProcessInterval (qc_Worker config) \<and> 0 < ws_MaxConcurrent (qc_Worker config) \<and>
     0 \<le> ws_MaxBatchSize (qc_Worker config) \<and> 0 < qc_MonitorInterval config \<and> 0 < qc_CleanupInterval config"

lemma batch_pop_panics: "qm_BatchPopMessages nows n k s = None \<Longrightarrow> k < 0"
  by (auto simp: qm_BatchPopMessages_def split: prod.splits option.splits if_splits)

lemma worker_ok_live:
  "worker_ok config evs k w \<Longrightarrow> factory_live config \<Longrightarrow> worker_step impl f ev w w' \<Longrightarrow> \<not> ws_panicked w'"
  by (erule worker_stepE) (auto simp: worker_ok_def factory_live_def dest: batch_pop_panics)

lemma monitor_ok_live:
  "monitor_ok config k (qm, l) \<Longrightarrow> factory_live config \<Longrightarrow> life_step (qm_config qm) ev l l' \<Longrightarrow> \<not> lf_panicked l'"
  by (erule life_stepE) (auto simp: monitor_ok_def factory_live_def tickers_ok_def split: if_splits)

lemma fs_step_live:
  assumes "fs_inv config evs s" and "factory_live config" and "factory_step must_register impl procs ev s s'"
  shows "\<not> fs_panicked s'"
  using assms(3)
proof cases
  case (worker q i w ev' w')
  then show ?thesis using worker_ok_live [OF worker_ok_at [OF assms(1)] assms(2)] by simp
next
  case (stop_worker q i ts w w')
  then show ?thesis using worker_ok_live [OF worker_ok_at [OF assms(1)] assms(2)] by simp
next
  case (worker_stopped q i ts w w')
  then show ?thesis using worker_ok_live [OF worker_ok_at [OF assms(1)] assms(2)] by simp
next
  case (monitor n qm l ev' l')
  then show ?thesis using monitor_ok_live [OF monitor_ok_at [OF assms(1)] assms(2)] by simp
next
  case (stop_manager n ts qm l l')
  then show ?thesis using monitor_ok_live [OF monitor_ok_at [OF assms(1)] assms(2)] by simp
next
  case (manager_stopped n ts qm l l')
  then show ?thesis using monitor_ok_live [OF monitor_ok_at [OF assms(1)] assms(2)] by simp
qed simp_all

lemma fs_run_live:
  assumes "factory_run must_register impl procs s0 evs s" and "fs_inv config evs0 s0" and "factory_live config" and "\<not> fs_panicked s0"
  shows "fs_inv config (evs0 @ evs) s \<and> \<not> fs_panicked s"
  using assms
proof (induction s0 evs s rule: factory_run.induct)
  case (snoc s0 evs s1 ev s2)
  then have inv: "fs_inv config (evs0 @ evs) s1" by simp
  then have "\<not> fs_panicked s2" using fs_step_live snoc by blast
  then show ?case using fs_step_inv [OF inv snoc.hyps(2)] by simp
qed simp

lemma factory_run_append:
  "factory_run must_register impl procs s1 evs' s2 \<Longrightarrow> factory_run must_register impl procs s evs s1 \<Longrightarrow>
   factory_run must_register impl procs s (evs @ evs') s2"
  by (induction rule: factory_run.induct) (auto simp: append_assoc [symmetric] intro: factory_run.snoc simp del: append_assoc)

lemma factory_run_single: "factory_step must_register impl procs ev s s' \<Longrightarrow> factory_run must_register impl procs s [ev] s'"
  using factory_run.snoc [OF factory_run.nil] by fastforce

section \<open>StopAll returns\<close>

text \<open>The steps of the goroutines and of \<^verbatim>\<open>StopAll\<close>: what happens without a client.\<close>

fun fs_internal :: "factory_event \<Rightarrow> bool" where
  "fs_internal (FWorker q i ev) \<longleftrightarrow> True"
| "fs_internal (FMonitor n ev) \<longleftrightarrow> True"
| "fs_internal (FStopCall t) \<longleftrightarrow> True"
| "fs_internal (FStopReturn t) \<longleftrightarrow> True"
| "fs_internal FStopDone \<longleftrightarrow> True"
| "fs_internal _ \<longleftrightarrow> False"

lemma fs_worker_at_put:
  assumes "fs_worker_at q i s = Some w"
  shows "fs_worker_at q i (fs_put q i w' s) = Some w'"
  using assms by (auto simp: fs_worker_at_raw fs_managers_put) (simp add: fs_put_def)

text \<open>A run of one worker is a run of the factory.\<close>

lemma factory_run_worker:
  assumes "worker_run impl (procs q i) w evs w'" and "list_all ws_internal evs" and "fs_worker_at q i s = Some w" and "\<not> fs_panicked s"
    and "\<not> ws_panicked w"
  shows "\<exists>evs' s'. factory_run must_register impl procs s evs' s' \<and> list_all fs_internal evs' \<and>
    fs_worker_at q i s' = Some w' \<and> fs_stop s' = fs_stop s \<and> fs_panicked s' = ws_panicked w'"
  using assms
proof (induction w evs w' rule: worker_run.induct)
  case (nil w)
  then show ?case by (intro exI [of _ "[]"] exI [of _ s]) (simp add: factory_run.nil)
next
  case (snoc w evs w1 ev w2)
  then obtain evs' s' where run: "factory_run must_register impl procs s evs' s'" "list_all fs_internal evs'"
    "fs_worker_at q i s' = Some w1" "fs_stop s' = fs_stop s" "fs_panicked s' = ws_panicked w1"
    by auto
  have "\<not> ws_panicked w1" using snoc.hyps(2) by (auto elim: worker_stepE)
  then have "factory_step must_register impl procs (FWorker q i ev) s' (fs_put q i w2 s')"
    using run(3,5) snoc.hyps(2) snoc.prems(1) by (intro factory_step.worker) auto
  then have "factory_run must_register impl procs s (evs' @ [FWorker q i ev]) (fs_put q i w2 s')" by (rule factory_run.snoc [OF run(1)])
  then show ?case using run(2,4) fs_worker_at_put [OF run(3)]
    by (intro exI [of _ "evs' @ [FWorker q i ev]"] exI [of _ "fs_put q i w2 s'"]) simp
qed

lemma factory_run_monitor:
  assumes "life_run (qm_config qm) l evs l'" and "set evs \<subseteq> {Tickers, Exit}" and "fs_managers s n = Some (qm, l)"
    and "\<not> fs_panicked s" and "\<not> lf_panicked l"
  shows "\<exists>evs' s'. factory_run must_register impl procs s evs' s' \<and> list_all fs_internal evs' \<and>
    fs_managers s' n = Some (qm, l') \<and> fs_stop s' = fs_stop s \<and> fs_panicked s' = lf_panicked l'"
  using assms
proof (induction rule: life_run.induct)
  case nil
  then show ?case by (intro exI [of _ "[]"] exI [of _ s]) (simp add: factory_run.nil)
next
  case (snoc evs l1 ev l2)
  then obtain evs' s' where run: "factory_run must_register impl procs s evs' s'" "list_all fs_internal evs'"
    "fs_managers s' n = Some (qm, l1)" "fs_stop s' = fs_stop s" "fs_panicked s' = lf_panicked l1"
    by auto
  have "\<not> lf_panicked l1" using snoc.hyps(2) by (auto elim: life_stepE)
  then have "factory_step must_register impl procs (FMonitor n ev) s' (fs_set_life n qm l2 s')"
    using run(3,5) snoc.hyps(2) snoc.prems(1) by (intro factory_step.monitor) auto
  then have "factory_run must_register impl procs s (evs' @ [FMonitor n ev]) (fs_set_life n qm l2 s')" by (rule factory_run.snoc [OF run(1)])
  then show ?case using run(2,4)
    by (intro exI [of _ "evs' @ [FMonitor n ev]"] exI [of _ "fs_set_life n qm l2 s'"]) simp
qed

lemma weight_zero_ended: "ws_weight w = 0 \<Longrightarrow> all_ended w"
proof -
  assume w: "ws_weight w = 0"
  have "pc = LEnded" if "pc \<in> set (ws_loops w)" for pc
    using w that by (cases pc) (auto simp: ws_weight_def)
  then show "all_ended w" using w by (auto simp: all_ended_def list_all_iff ws_weight_def)
qed

lemma monitor_can_close:
  assumes "monitor_ok config k (qm, l)" and "factory_live config" and "lf_cancelled l"
  shows "\<exists>evs l'. life_run (qm_config qm) l evs l' \<and> set evs \<subseteq> {Tickers, Exit} \<and> lf_doneClosed l' \<and> \<not> lf_panicked l' \<and>
    lf_stopping l' = lf_stopping l"
proof -
  have ok: "tickers_ok (qm_config qm)" "\<not> lf_panicked l" using assms(1,2) by (auto simp: monitor_ok_def tickers_ok_def factory_live_def)
  have exit: "\<exists>evs l'. life_run (qm_config qm) l1 evs l' \<and> set evs \<subseteq> {Tickers, Exit} \<and> lf_doneClosed l' \<and> \<not> lf_panicked l' \<and>
      lf_stopping l' = lf_stopping l1"
    if "\<not> lf_panicked l1" "0 < lf_looping l1" "lf_cancelled l1" "\<not> lf_doneClosed l1" for l1
    using life_run_single [OF life_step.exit [OF that]] that(1)
    by (intro exI [of _ "[Exit]"] exI [of _ "l1\<lparr>lf_looping := lf_looping l1 - 1, lf_doneClosed := True\<rparr>"]) simp
  consider "lf_doneClosed l" | "\<not> lf_doneClosed l" "0 < lf_looping l" | "\<not> lf_doneClosed l" "0 < lf_starting l"
    using assms(1) by (cases "lf_doneClosed l"; cases "lf_looping l") (auto simp: monitor_ok_def)
  then show ?thesis
  proof cases
    case 1
    then show ?thesis using ok by (intro exI [of _ "[]"] exI [of _ l]) (simp add: life_run.nil)
  next
    case 2
    then show ?thesis using exit ok assms(3) by blast
  next
    case 3
    let ?l = "l\<lparr>lf_starting := lf_starting l - 1, lf_looping := lf_looping l + 1\<rparr>"
    have step: "life_step (qm_config qm) Tickers l ?l" using 3 ok by (intro life_step.tickers) auto
    obtain evs l' where "life_run (qm_config qm) ?l evs l'" "set evs \<subseteq> {Tickers, Exit}" "lf_doneClosed l'" "\<not> lf_panicked l'"
      "lf_stopping l' = lf_stopping ?l"
      using exit [of ?l] 3 ok assms(3) by auto
    then show ?thesis using life_run_Cons [OF step]
      by (intro exI [of _ "Tickers # evs"] exI [of _ l']) auto
  qed
qed

text \<open>One task of \<^verbatim>\<open>StopAll\<close>, first when it waits already.\<close>

lemma task_returns:
  assumes inv: "fs_inv config evs0 s" and live: "factory_live config" and np: "\<not> fs_panicked s" and stop: "fs_stop s = Some (t # ts, True)"
  shows "\<exists>evs s'. factory_run must_register impl procs s evs s' \<and> list_all fs_internal evs \<and> fs_stop s' = Some (ts, False)"
proof (cases t)
  case (StopWorker q i)
  have "fs_raw q i s \<noteq> None" using stop_ok_at [OF inv stop] StopWorker by (simp add: stop_ok_def)
  moreover have "fs_managers s q \<noteq> None" using calculation inv by (auto simp: fs_inv_def fs_raw_def split: option.splits)
  ultimately obtain w where w: "fs_worker_at q i s = Some w" by (auto simp: fs_worker_at_def fs_view_def)
  have ok: "worker_ok config (worker_events q i evs0) 1 w" using worker_ok_at [OF inv w] stop StopWorker by (simp add: waiting_at_def)
  then have "ws_ready w" using live by (simp add: ws_ready_def worker_ok_def ws_inv_def factory_live_def)
  then obtain wevs w1 where w1: "worker_run impl (procs q i) w wevs w1" "list_all ws_internal wevs" "ws_weight w1 = 0" "\<not> ws_panicked w1"
    "ws_stopping w1 = ws_stopping w" using ws_drains by blast
  have "\<not> ws_panicked w" using ok by (simp add: worker_ok_def)
  then obtain evs s1 where s1: "factory_run must_register impl procs s evs s1" "list_all fs_internal evs"
    "fs_worker_at q i s1 = Some w1" "fs_stop s1 = fs_stop s" "\<not> fs_panicked s1"
    using factory_run_worker [where s = s and must_register = must_register and procs = procs and q = q and i = i, OF w1(1,2) w np] w1(4) by auto
  have "worker_step impl (procs q i) WStopped w1 (w1\<lparr>ws_stopping := ws_stopping w1 - 1\<rparr>)"
    using weight_zero_ended [OF w1(3)] w1(4,5) ok by (intro worker_step.stopped) (auto simp: all_ended_def worker_ok_def)
  then have "factory_step must_register impl procs (FStopReturn t) s1
      ((fs_put q i (w1\<lparr>ws_stopping := ws_stopping w1 - 1\<rparr>) s1)\<lparr>fs_stop := Some (ts, False)\<rparr>)"
    using s1 stop unfolding StopWorker by (intro factory_step.worker_stopped) auto
  from factory_run.snoc [OF s1(1) this] show ?thesis using s1(2) by fastforce
next
  case (StopManager n)
  have "fs_managers s n \<noteq> None" using stop_ok_at [OF inv stop] StopManager by (simp add: stop_ok_def)
  then obtain qm l where m: "fs_managers s n = Some (qm, l)" by auto
  have ok: "monitor_ok config 1 (qm, l)" using monitor_ok_at [OF inv m] stop StopManager by (simp add: waiting_at_def)
  then obtain levs l1 where l1: "life_run (qm_config qm) l levs l1" "set levs \<subseteq> {Tickers, Exit}" "lf_doneClosed l1" "\<not> lf_panicked l1"
    "lf_stopping l1 = 1" using monitor_can_close [OF ok live] by (auto simp: monitor_ok_def)
  have "\<not> lf_panicked l" using ok by (simp add: monitor_ok_def)
  then obtain evs s1 where s1: "factory_run must_register impl procs s evs s1" "list_all fs_internal evs"
    "fs_managers s1 n = Some (qm, l1)" "fs_stop s1 = fs_stop s" "\<not> fs_panicked s1"
    using factory_run_monitor [where s = s and must_register = must_register and impl = impl and procs = procs, OF l1(1,2) m np] l1(4) by auto
  have "life_step (qm_config qm) StopReturn l1 (l1\<lparr>lf_stopping := lf_stopping l1 - 1, lf_stopped := lf_stopped l1 + 1\<rparr>)"
    using l1 by (intro life_step.stop_return) auto
  then have "factory_step must_register impl procs (FStopReturn t) s1
      ((fs_set_life n qm (l1\<lparr>lf_stopping := lf_stopping l1 - 1, lf_stopped := lf_stopped l1 + 1\<rparr>) s1)\<lparr>fs_stop := Some (ts, False)\<rparr>)"
    using s1 stop unfolding StopManager by (intro factory_step.manager_stopped) auto
  from factory_run.snoc [OF s1(1) this] show ?thesis using s1(2) by fastforce
qed

lemma task_called:
  assumes inv: "fs_inv config evs0 s" and np: "\<not> fs_panicked s" and stop: "fs_stop s = Some (t # ts, False)"
  shows "\<exists>s'. factory_step must_register impl procs (FStopCall t) s s' \<and> fs_stop s' = Some (t # ts, True)"
proof (cases t)
  case (StopWorker q i)
  have "fs_raw q i s \<noteq> None" using stop_ok_at [OF inv stop] StopWorker by (simp add: stop_ok_def)
  moreover have "fs_managers s q \<noteq> None" using calculation inv by (auto simp: fs_inv_def fs_raw_def split: option.splits)
  ultimately obtain w where w: "fs_worker_at q i s = Some w" by (auto simp: fs_worker_at_def fs_view_def)
  have "\<not> ws_panicked w" using worker_ok_at [OF inv w] by (simp add: worker_ok_def)
  then show ?thesis
    using factory_step.stop_worker [OF np stop [unfolded StopWorker] w worker_step.stop] StopWorker by fastforce
next
  case (StopManager n)
  have "fs_managers s n \<noteq> None" using stop_ok_at [OF inv stop] StopManager by (simp add: stop_ok_def)
  then obtain qm l where m: "fs_managers s n = Some (qm, l)" by auto
  have "\<not> lf_panicked l" using monitor_ok_at [OF inv m] by (simp add: monitor_ok_def)
  then show ?thesis
    using factory_step.stop_manager [OF np stop [unfolded StopManager] m life_step.stop_call] StopManager by fastforce
qed

lemma tasks_return:
  assumes "fs_inv config evs0 s" and "factory_live config" and "\<not> fs_panicked s" and "fs_stop s = Some (ts, b)" and "b \<Longrightarrow> ts \<noteq> []"
  shows "\<exists>evs s'. factory_run must_register impl procs s evs s' \<and> list_all fs_internal evs \<and> fs_stop s' = Some ([], False)"
  using assms
proof (induction ts arbitrary: b evs0 s)
  case Nil
  then show ?case by (intro exI [of _ "[]"] exI [of _ s]) (auto intro: factory_run.nil)
next
  case (Cons t ts)
  obtain evs1 s1 where s1: "factory_run must_register impl procs s evs1 s1" "list_all fs_internal evs1" "fs_stop s1 = Some (t # ts, True)"
  proof (cases b)
    case True
    then show ?thesis using that [OF factory_run.nil] Cons.prems(4) by simp
  next
    case False
    then obtain s' where "factory_step must_register impl procs (FStopCall t) s s'" "fs_stop s' = Some (t # ts, True)"
      using task_called [OF Cons.prems(1,3), of t ts must_register impl procs] Cons.prems(4) by auto
    then show ?thesis using that [OF factory_run_single] by simp
  qed
  have inv1: "fs_inv config (evs0 @ evs1) s1" "\<not> fs_panicked s1" using fs_run_live [OF s1(1) Cons.prems(1-3)] by simp_all
  obtain evs2 s2 where s2: "factory_run must_register impl procs s1 evs2 s2" "list_all fs_internal evs2" "fs_stop s2 = Some (ts, False)"
    using task_returns [OF inv1(1) Cons.prems(2) inv1(2) s1(3)] by blast
  have inv2: "fs_inv config ((evs0 @ evs1) @ evs2) s2" "\<not> fs_panicked s2" using fs_run_live [OF s2(1) inv1(1) Cons.prems(2) inv1(2)] by simp_all
  obtain evs3 s3 where "factory_run must_register impl procs s2 evs3 s3" "list_all fs_internal evs3" "fs_stop s3 = Some ([], False)"
    using Cons.IH [OF inv2(1) Cons.prems(2) inv2(2) s2(3)] by auto
  then show ?case using factory_run_append [OF _ factory_run_append [OF s2(1) s1(1)]] s1(2) s2(2)
    by (metis append_assoc list_all_append)
qed

lemma fs_init_inv: "fs_inv config [] (fs_init config st reg)"
  using fs_run_inv [OF factory_run.nil] by (simp add: fs_init_def)

lemma stop_all_waits: "factory_run must_register impl procs s0 evs s \<Longrightarrow> fs_stop s0 = None \<Longrightarrow> fs_stop s = Some (ts, True) \<Longrightarrow> ts \<noteq> []"
proof (induction arbitrary: ts rule: factory_run.induct)
  case (snoc s0 evs s1 ev s2)
  then show ?case by (auto elim!: factory_stepE)
qed simp

section \<open>Properties\<close>

text \<open>A sample: a queue with two workers, and \<^verbatim>\<open>StopAll\<close> has been called.\<close>

definition sample_factory_events :: "factory_event list" where
  "sample_factory_events = [FCreateManager ''standard'' StandardQueueType, FCreateWorkers ''standard'' 2, FStopAll [''standard''] [''standard'']]"

lemma sample_factory_run:
  "\<exists>s. factory_run sample_register impl procs (fs_init (cf_Queue GetDefaultConfig) st []) sample_factory_events s \<and> fs_stop s \<noteq> None"
proof -
  let ?s0 = "fs_init (cf_Queue GetDefaultConfig) st ([] :: (string \<times> string \<times> string) list)"
  have "qf_CreateQueueManager sample_register ''standard'' StandardQueueType (fs_factory ?s0, fs_registry ?s0) \<noteq> None"
    by (simp add: qf_CreateQueueManager_def fs_factory_def fs_init_def NewQueueManager_def initMetrics_def sample_register_def Let_def)
  then obtain m qf reg where c: "qf_CreateQueueManager sample_register ''standard'' StandardQueueType (fs_factory ?s0, fs_registry ?s0) = Some (m, qf, reg)"
    by auto
  let ?s1 = "?s0\<lparr>fs_managers := qf_managers qf, fs_registry := reg\<rparr>"
  have 1: "factory_step sample_register impl procs (FCreateManager ''standard'' StandardQueueType) ?s0 ?s1"
    by (rule factory_step.create_manager [OF _ _ c]) (simp_all add: fs_init_def)
  obtain qm l where qm: "qf_managers qf = [''standard'' \<mapsto> (qm, l)]"
    using c by (auto simp: qf_CreateQueueManager_def fs_factory_def fs_init_def Let_def split: option.splits)
  obtain ws qf' where w: "qf_CreateWorkers ''standard'' 2 (fs_factory ?s1) = Some (Some ws, qf')"
    using qf_default_config [of "fs_factory ?s1" "''standard''" 2 StandardQueueType] by (auto simp: fs_factory_def fs_init_def qm)
  let ?s2 = "?s1\<lparr>fs_workers := (fs_workers ?s1)(''standard'' \<mapsto> (case fs_workers ?s1 ''standard'' of None \<Rightarrow> [] | Some old \<Rightarrow> old) @
      map (fs_started (qm, fs_store ?s1)) ws)\<rparr>"
  have 2: "factory_step sample_register impl procs (FCreateWorkers ''standard'' 2) ?s1 ?s2"
    by (rule factory_step.create_workers [OF _ _ _ w]) (simp_all add: fs_init_def qm)
  let ?s3 = "?s2\<lparr>fs_stop := Some (stop_tasks [''standard''] [''standard''] ?s2, False)\<rparr>"
  have 3: "factory_step sample_register impl procs (FStopAll [''standard''] [''standard'']) ?s2 ?s3"
    by (rule factory_step.stop_all) (simp_all add: fs_init_def qm)
  have "factory_run sample_register impl procs ?s0 sample_factory_events ?s3"
    using factory_run.snoc [OF factory_run.snoc [OF factory_run.snoc [OF factory_run.nil 1] 2] 3] by (simp add: sample_factory_events_def)
  then show ?thesis by (intro exI [of _ ?s3]) simp
qed

text \<open>A \<^verbatim>\<open>StopAll\<close> that has begun can get through all that it stops.\<close>

lemma stop_all_done:
  assumes "factory_live config" and "factory_run must_register impl procs (fs_init config st reg) evs s" and "fs_stop s \<noteq> None"
  shows "\<exists>evs' s1. factory_run must_register impl procs s evs' s1 \<and> list_all fs_internal evs' \<and> fs_stop s1 = Some ([], False)"
proof -
  obtain ts b where stop: "fs_stop s = Some (ts, b)" using assms(3) by auto
  have inv: "fs_inv config ([] @ evs) s" and np: "\<not> fs_panicked s"
    using fs_run_live [OF assms(2) fs_init_inv assms(1)] by (simp_all add: fs_init_def)
  have "ts \<noteq> []" if b using stop_all_waits [OF assms(2)] stop that by (simp add: fs_init_def)
  then show ?thesis using tasks_return [OF inv assms(1) np stop] by blast
qed

text \<open>
  C12 (StopAll returns). With positive intervals and places for messages, no run of the factory, its
  monitors, its workers and its clients panics; and whenever a \<^verbatim>\<open>StopAll\<close> is on its way it can return
  without any further call, and leaves the factory empty.
\<close>

theorem factory_stop_all_returns:
  assumes "factory_live config" and "factory_run must_register impl procs (fs_init config st reg) evs s"
  shows "\<not> fs_panicked s \<and>
    (fs_stop s \<noteq> None \<longrightarrow> (\<exists>evs' s'. factory_run must_register impl procs s (evs' @ [FStopDone]) s' \<and> list_all fs_internal evs' \<and>
       fs_factory s' = qf_StopAll (fs_factory s)))"
proof -
  have inv: "fs_inv config ([] @ evs) s" and np: "\<not> fs_panicked s"
    using fs_run_live [OF assms(2) fs_init_inv assms(1)] by (simp_all add: fs_init_def)
  have "\<exists>evs' s'. factory_run must_register impl procs s (evs' @ [FStopDone]) s' \<and> list_all fs_internal evs' \<and>
       fs_factory s' = qf_StopAll (fs_factory s)" if stop: "fs_stop s = Some (ts, b)" for ts b
  proof -
    obtain evs' s1 where s1: "factory_run must_register impl procs s evs' s1" "list_all fs_internal evs'" "fs_stop s1 = Some ([], False)"
      using stop_all_done [OF assms] stop by blast
    have ok: "fs_inv config (([] @ evs) @ evs') s1" "\<not> fs_panicked s1" using fs_run_live [OF s1(1) inv assms(1) np] by simp_all
    let ?s2 = "s1\<lparr>fs_workers := Map.empty, fs_managers := Map.empty, fs_stop := None\<rparr>"
    have "factory_run must_register impl procs s (evs' @ [FStopDone]) ?s2"
      by (rule factory_run.snoc [OF s1(1) factory_step.stop_done [OF ok(2) s1(3)]])
    moreover have "fs_factory ?s2 = qf_StopAll (fs_factory s)"
      using ok(1) inv by (simp add: fs_factory_def qf_StopAll_def fs_inv_def)
    ultimately show ?thesis using s1(2) by blast
  qed
  with np show ?thesis by auto
qed

theorem factory_stop_all_returns_witness:
  "\<exists>s evs' s'. factory_run sample_register (\<lambda>_. 0) (\<lambda>_ _. always_fails) (fs_init (cf_Queue GetDefaultConfig) (snd sample_state) []) sample_factory_events s \<and>
     factory_run sample_register (\<lambda>_. 0) (\<lambda>_ _. always_fails) s (evs' @ [FStopDone]) s' \<and> qf_managers (fs_factory s') = Map.empty"
proof -
  obtain s where s: "factory_run sample_register (\<lambda>_. 0) (\<lambda>_ _. always_fails) (fs_init (cf_Queue GetDefaultConfig) (snd sample_state) []) sample_factory_events s"
    "fs_stop s \<noteq> None" using sample_factory_run by blast
  have "factory_live (cf_Queue GetDefaultConfig)" by (simp add: factory_live_def GetDefaultConfig_def)
  from factory_stop_all_returns [OF this s(1)] s show ?thesis by (fastforce simp: qf_StopAll_def)
qed

text \<open>
  C8 (StopAll waits for everything). Under every configuration and in every interleaving: while
  \<^verbatim>\<open>StopAll\<close> stops a manager, every worker has ended; when it is done every worker and every monitor
  has ended, and each worker has processed every message that it popped, as often as it popped it;
  and no worker ever processes more messages at once than it has places.
\<close>

theorem factory_stop_all_awaits:
  assumes "factory_run must_register impl procs (fs_init config st reg) evs s" and "\<not> fs_panicked s"
  shows "(\<forall>n ts b q i w. fs_stop s = Some (StopManager n # ts, b) \<and> fs_worker_at q i s = Some w \<longrightarrow> all_ended w) \<and>
    (fs_stop s = Some ([], False) \<longrightarrow>
       (\<forall>q i w. fs_worker_at q i s = Some w \<longrightarrow> all_ended w) \<and>
       (\<forall>n qm l. fs_managers s n = Some (qm, l) \<longrightarrow> lf_starting l = 0 \<and> lf_looping l = 0) \<and>
       (\<forall>q i. popped (worker_events q i evs) = finished (worker_events q i evs))) \<and>
    (\<forall>q i w. fs_worker_at q i s = Some w \<longrightarrow> int (length (ws_running w)) \<le> max 0 (ws_MaxConcurrent (qc_Worker config)))"
proof -
  have inv: "fs_inv config evs s" by (rule fs_run_inv [OF assms])
  have ended: "all_ended w" if "fs_stop s = Some (ts, b)" "StopWorker q i \<notin> set ts" "fs_worker_at q i s = Some w" for ts b q i w
  proof -
    have "task_ended (StopWorker q i) s" using stop_ok_at [OF inv that(1)] that(2) unfolding stop_ok_def by blast
    then show ?thesis using that(3) by (auto simp: fs_worker_at_raw)
  qed
  have order: "StopWorker q i \<notin> set (StopManager n # ts)" if "fs_stop s = Some (StopManager n # ts, b)" for n ts b q i
    using stop_ok_at [OF inv that] by (fastforce simp: stop_ok_def)
  have monitors: "lf_starting l = 0 \<and> lf_looping l = 0" if "fs_stop s = Some ([], False)" "fs_managers s n = Some (qm, l)" for n qm l
  proof -
    have "task_ended (StopManager n) s" using stop_ok_at [OF inv that(1)] by (simp add: stop_ok_def)
    then show ?thesis using that(2) monitor_ok_at [OF inv that(2)] by (simp add: monitor_ok_def)
  qed
  have "popped (worker_events q i evs) = finished (worker_events q i evs)" if "fs_stop s = Some ([], False)" for q i
  proof (cases "fs_raw q i s")
    case None
    then show ?thesis using inv by (simp add: fs_inv_def)
  next
    case (Some w)
    have "task_ended (StopWorker q i) s" using stop_ok_at [OF inv that] by (simp add: stop_ok_def)
    then have "in_flight w = {#}" using Some ended_in_flight by simp
    moreover have "worker_ok config (worker_events q i evs) (waiting_at (StopWorker q i) s) w" using Some inv by (simp add: fs_inv_def)
    ultimately show ?thesis by (simp add: worker_ok_def ws_inv_def)
  qed
  moreover have "int (length (ws_running w)) \<le> max 0 (ws_MaxConcurrent (qc_Worker config))" if "fs_worker_at q i s = Some w" for q i w
    using worker_ok_at [OF inv that] by (auto simp: worker_ok_def ws_inv_def)
  ultimately show ?thesis using ended order monitors by (metis list.set(1) empty_iff)
qed

theorem factory_stop_all_awaits_witness:
  "\<exists>evs s. factory_run sample_register (\<lambda>_. 0) (\<lambda>_ _. always_fails) (fs_init (cf_Queue GetDefaultConfig) (snd sample_state) []) (sample_factory_events @ evs) s \<and>
     fs_stop s = Some ([], False) \<and> (\<forall>q i w. fs_worker_at q i s = Some w \<longrightarrow> all_ended w \<and> int (length (ws_running w)) \<le> 50) \<and>
     (\<forall>n qm l. fs_managers s n = Some (qm, l) \<longrightarrow> lf_looping l = 0)"
proof -
  let ?s0 = "fs_init (cf_Queue GetDefaultConfig) (snd sample_state) []"
  obtain s1 where s1: "factory_run sample_register (\<lambda>_. 0) (\<lambda>_ _. always_fails) ?s0 sample_factory_events s1" "fs_stop s1 \<noteq> None"
    using sample_factory_run by blast
  have live: "factory_live (cf_Queue GetDefaultConfig)" by (simp add: factory_live_def GetDefaultConfig_def)
  obtain evs s where s: "factory_run sample_register (\<lambda>_. 0) (\<lambda>_ _. always_fails) s1 evs s" "fs_stop s = Some ([], False)"
    using stop_all_done [OF live s1] by blast
  have run: "factory_run sample_register (\<lambda>_. 0) (\<lambda>_ _. always_fails) ?s0 (sample_factory_events @ evs) s"
    by (rule factory_run_append [OF s(1) s1(1)])
  have "\<not> fs_panicked s" using fs_run_live [OF run fs_init_inv live] by (simp add: fs_init_def)
  from factory_stop_all_awaits [OF run this] s(2)
  have "\<forall>q i w. fs_worker_at q i s = Some w \<longrightarrow> all_ended w" "\<forall>n qm l. fs_managers s n = Some (qm, l) \<longrightarrow> lf_looping l = 0"
    "\<forall>q i w. fs_worker_at q i s = Some w \<longrightarrow> int (length (ws_running w)) \<le> 50" by (auto simp: GetDefaultConfig_def)
  with run s(2) show ?thesis by blast
qed

section \<open>Without intervals\<close>

definition monitors_unborn :: "'r factory_sys \<Rightarrow> bool" where
  "monitors_unborn s \<longleftrightarrow> (\<forall>n qm l. fs_managers s n = Some (qm, l) \<longrightarrow> lf_looping l = 0 \<and> \<not> lf_doneClosed l)"

lemma unborn_step:
  assumes "fs_inv config evs s" and "\<not> (0 < qc_MonitorInterval config \<and> 0 < qc_CleanupInterval config)"
    and "monitors_unborn s" and "factory_step must_register impl procs ev s s'"
  shows "monitors_unborn s' \<and> (\<forall>n e. ev = FMonitor n e \<longrightarrow> fs_panicked s')"
  using assms(4)
proof cases
  case (create_manager name queueType m qf reg)
  then show ?thesis using assms(3)
    by (auto simp: monitors_unborn_def qf_CreateQueueManager_def fs_factory_def life_Start_def life_init_def Let_def split: option.splits if_splits)
next
  case (worker q i w ev' w')
  then show ?thesis using assms(3) by (auto simp: monitors_unborn_def fs_managers_put split: if_splits)
next
  case (stop_worker q i ts w w')
  then show ?thesis using assms(3) by (auto simp: monitors_unborn_def fs_managers_put split: if_splits)
next
  case (worker_stopped q i ts w w')
  then show ?thesis using assms(3) by (auto simp: monitors_unborn_def fs_managers_put split: if_splits)
next
  case (monitor n qm l ev' l')
  have "\<not> tickers_ok (qm_config qm)" using monitor_ok_at [OF assms(1) monitor(4)] assms(2) by (auto simp: monitor_ok_def tickers_ok_def)
  moreover have "lf_looping l = 0 \<and> \<not> lf_doneClosed l" using assms(3) monitor(4) by (fastforce simp: monitors_unborn_def)
  ultimately have "lf_panicked l' \<and> lf_looping l' = 0 \<and> \<not> lf_doneClosed l'" using monitor(5,6) by (auto elim!: life_stepE)
  then show ?thesis using assms(3) monitor(2) by (auto simp: monitors_unborn_def)
next
  case (stop_manager n ts qm l l')
  have "lf_looping l = 0 \<and> \<not> lf_doneClosed l" using assms(3) stop_manager(5) by (fastforce simp: monitors_unborn_def)
  then have "lf_looping l' = 0 \<and> \<not> lf_doneClosed l'" using stop_manager(6) by (auto elim!: life_stepE)
  then show ?thesis using assms(3) stop_manager(1,2) by (auto simp: monitors_unborn_def)
next
  case (manager_stopped n ts qm l l')
  have "lf_looping l = 0 \<and> \<not> lf_doneClosed l" using assms(3) manager_stopped(5) by (fastforce simp: monitors_unborn_def)
  then have False using manager_stopped(6) by (auto elim!: life_stepE)
  then show ?thesis by simp
qed (use assms(3) in \<open>auto simp: monitors_unborn_def split: if_splits\<close>)

text \<open>
  With an interval that is not positive each monitor crashes the program as soon as it runs, and
  until then no \<^verbatim>\<open>StopAll\<close> of a factory with a manager returns.
\<close>

theorem factory_without_intervals:
  assumes "\<not> (0 < qc_MonitorInterval config \<and> 0 < qc_CleanupInterval config)"
    and "factory_run must_register impl procs (fs_init config st reg) evs s" and "factory_step must_register impl procs ev s s'"
  shows "(\<forall>n e. ev = FMonitor n e \<longrightarrow> fs_panicked s') \<and> (ev = FStopDone \<longrightarrow> fs_managers s = Map.empty)"
proof -
  have unborn: "monitors_unborn s" if "factory_run must_register impl procs (fs_init config st reg) evs s" "\<not> fs_panicked s" for evs s
    using that
  proof (induction "fs_init config st reg" evs s rule: factory_run.induct)
    case nil
    show ?case by (simp add: monitors_unborn_def fs_init_def)
  next
    case (snoc evs s1 ev s2)
    have np: "\<not> fs_panicked s1" using snoc.hyps(3) by (auto elim: factory_stepE)
    show ?case using unborn_step [OF fs_run_inv [OF snoc.hyps(1) np] assms(1) snoc.hyps(2) [OF np] snoc.hyps(3)] by simp
  qed
  have np: "\<not> fs_panicked s" using assms(3) by (auto elim: factory_stepE)
  note inv = fs_run_inv [OF assms(2) np]
  have "fs_managers s n = None" if "ev = FStopDone" for n
  proof (rule ccontr)
    assume "fs_managers s n \<noteq> None"
    then obtain qm l where m: "fs_managers s n = Some (qm, l)" by auto
    have "fs_stop s = Some ([], False)" using assms(3) that by (auto elim: factory_stepE)
    then have "task_ended (StopManager n) s" using stop_ok_at [OF inv] by (auto simp: stop_ok_def simp del: task_ended.simps)
    then have "lf_doneClosed l" using m by simp
    moreover have "\<not> lf_doneClosed l" using m unborn [OF assms(2) np] by (auto simp: monitors_unborn_def)
    ultimately show False by blast
  qed
  then show ?thesis using unborn_step [OF inv assms(1) unborn [OF assms(2) np] assms(3)] by auto
qed

end
