(* ===== verification/ServerProcess.thy ===== *)
theory ServerProcess
  imports ServerRuns
begin

text \<open>
  The process of \<^verbatim>\<open>cmd/server\<close> while it runs: the requests it answers and the goroutines that its
  components have started, each of which can end the process by a panic.
\<close>

section \<open>The settings of the tasks\<close>

lemma csm_put_interval [simp]: "csm_cleanupInterval (csm_put i c sm) = csm_cleanupInterval sm"
  by (simp add: csm_put_def)









text \<open>What no request touches: the managers, the waiting requests for resources, and the intervals.\<close>

definition same_tasks :: "'s APIServer \<Rightarrow> 's APIServer \<Rightarrow> bool" where
  "same_tasks s s' \<longleftrightarrow> api_QueueFactory s' = api_QueueFactory s \<and>
     rs_pendingQueue (api_ResScheduler s') = rs_pendingQueue (api_ResScheduler s) \<and> rs_config (api_ResScheduler s') = rs_config (api_ResScheduler s) \<and>
     csm_cleanupInterval (api_StateManager s') = csm_cleanupInterval (api_StateManager s)"

lemma same_tasks_refl [simp]: "same_tasks s s"
  by (simp add: same_tasks_def)

lemma same_tasks_manager [simp]:
  "csm_cleanupInterval sm = csm_cleanupInterval (api_StateManager s) \<Longrightarrow> same_tasks s (s\<lparr>api_StateManager := sm, api_store := st\<rparr>)"
  by (simp add: same_tasks_def)



section \<open>The process\<close>

text \<open>
  The goroutines that run beside the requests: the monitor of each manager, whose life is kept with
  it; the cleanup of the conversations; the monitor of the resources and the processing of waiting
  requests; and the health checks. \<open>sp_cleanup\<close> and \<open>sp_resources\<close> tell whether the task has made its
  ticker. The load balancer checks its endpoints only with a positive interval, and never starts its
  cleanup of sessions, for the time it sets for that is 0.
\<close>

record 's server_sys =
  sp_api :: "'s APIServer"
  sp_cleanup :: bool
  sp_resources :: bool
  sp_panicked :: bool


datatype server_event =
    PRequest api_env api_call reply
  | PMonitor string
  | PMonitorTick string "string list"
  | PCleanup
  | PCleanupTick go_time "string list"
  | PResources
  | PResourcesTick "go_time \<times> go_time \<times> go_time \<times> go_time" "string list \<times> string list"
  | PPending "nat \<Rightarrow> go_time \<times> attempt"
  | PHealthCheck go_time eref

definition set_manager :: "string \<Rightarrow> QueueManager \<Rightarrow> life \<Rightarrow> 's APIServer \<Rightarrow> 's APIServer" where
  "set_manager n qm l s = s\<lparr>api_QueueFactory := (api_QueueFactory s)\<lparr>qf_managers := (qf_managers (api_QueueFactory s))(n \<mapsto> (qm, l))\<rparr>\<rparr>"

text \<open>
  \<^verbatim>\<open>NewTicker\<close> panics on an interval that is not positive, and a panic in a goroutine ends the
  program. Requests, ticks and passes are steps of their own; the thresholds that a monitor checks
  are only logged, and a pass of the waiting requests is also started by a new resource. A request
  whose handler waits for a mutex or panics has no step. This is the process until it is told to stop.
\<close>

inductive server_step :: "server_event \<Rightarrow> 's server_sys \<Rightarrow> 's server_sys \<Rightarrow> bool" where
  request: "\<not> sp_panicked s \<Longrightarrow> api_handle env c (sp_api s) = Done (reply, a) \<Longrightarrow>
    server_step (PRequest env c reply) s (s\<lparr>sp_api := a\<rparr>)"
| monitor: "\<not> sp_panicked s \<Longrightarrow> qf_managers (api_QueueFactory (sp_api s)) n = Some (qm, l) \<Longrightarrow> life_step (qm_config qm) Tickers l l' \<Longrightarrow>
    server_step (PMonitor n) s (s\<lparr>sp_api := set_manager n qm l' (sp_api s), sp_panicked := lf_panicked l'\<rparr>)"
| monitor_tick: "\<not> sp_panicked s \<Longrightarrow> qf_managers (api_QueueFactory (sp_api s)) n = Some (qm, l) \<Longrightarrow> 0 < lf_looping l \<Longrightarrow>
    set names = dom (qm_queues qm) \<Longrightarrow>
    server_step (PMonitorTick n names) s (s\<lparr>sp_api := set_manager n (qm_updateQueueMetrics names qm) l (sp_api s)\<rparr>)"
| cleanup: "\<not> sp_panicked s \<Longrightarrow> \<not> sp_cleanup s \<Longrightarrow> 0 < csm_cleanupInterval (api_StateManager (sp_api s)) \<Longrightarrow>
    server_step PCleanup s (s\<lparr>sp_cleanup := True\<rparr>)"
| cleanup_panic: "\<not> sp_panicked s \<Longrightarrow> \<not> sp_cleanup s \<Longrightarrow> csm_cleanupInterval (api_StateManager (sp_api s)) \<le> 0 \<Longrightarrow>
    server_step PCleanup s (s\<lparr>sp_panicked := True\<rparr>)"
| cleanup_tick: "\<not> sp_panicked s \<Longrightarrow> sp_cleanup s \<Longrightarrow>
    csm_cleanupExpiredConversations now order (api_StateManager (sp_api s), api_store (sp_api s)) = (sm, st) \<Longrightarrow>
    server_step (PCleanupTick now order) s (s\<lparr>sp_api := (sp_api s)\<lparr>api_StateManager := sm, api_store := st\<rparr>\<rparr>)"
| resources: "\<not> sp_panicked s \<Longrightarrow> \<not> sp_resources s \<Longrightarrow> 0 < rsc_ResourceCheckPeriod (rs_config (api_ResScheduler (sp_api s))) \<Longrightarrow>
    server_step PResources s (s\<lparr>sp_resources := True\<rparr>)"
| resources_panic: "\<not> sp_panicked s \<Longrightarrow> \<not> sp_resources s \<Longrightarrow> rsc_ResourceCheckPeriod (rs_config (api_ResScheduler (sp_api s))) \<le> 0 \<Longrightarrow>
    server_step PResources s (s\<lparr>sp_panicked := True\<rparr>)"
| resources_tick: "\<not> sp_panicked s \<Longrightarrow> sp_resources s \<Longrightarrow>
    server_step (PResourcesTick nows orders) s
      (s\<lparr>sp_api := (sp_api s)\<lparr>api_ResScheduler := snd (rs_monitor_tick nows orders (api_ResScheduler (sp_api s)))\<rparr>\<rparr>)"
| pending: "\<not> sp_panicked s \<Longrightarrow> rs_processPendingRequests ts (api_ResScheduler (sp_api s)) = Some rs \<Longrightarrow>
    server_step (PPending ts) s (s\<lparr>sp_api := (sp_api s)\<lparr>api_ResScheduler := rs\<rparr>\<rparr>)"
| pending_panic: "\<not> sp_panicked s \<Longrightarrow> rs_processPendingRequests ts (api_ResScheduler (sp_api s)) = None \<Longrightarrow>
    server_step (PPending ts) s (s\<lparr>sp_panicked := True\<rparr>)"
| health_check: "\<not> sp_panicked s \<Longrightarrow> lb_starts_healthCheckLoop (api_LoadBalancer (sp_api s)) \<Longrightarrow>
    with_lock (\<lambda>lb. ((), lb_checkEndpointHealth now r lb)) (api_LoadBalancer (sp_api s)) = Done (u, lb) \<Longrightarrow>
    server_step (PHealthCheck now r) s (s\<lparr>sp_api := (sp_api s)\<lparr>api_LoadBalancer := lb\<rparr>\<rparr>)"

inductive_cases server_stepE: "server_step ev s s'"


section \<open>What the process keeps\<close>













section \<open>Properties\<close>



end
