(* ===== verification/Startup.thy ===== *)
theory Startup
  imports ServerMain FactoryRuns WorkerPool Gateway
begin

text \<open>
  The four processes from their start to their end: \<^verbatim>\<open>LoadConfig\<close> of \<^verbatim>\<open>pkg/config/config.go\<close>, and of
  each \<^verbatim>\<open>main\<close> under \<^verbatim>\<open>cmd/\<close> the loading of the configuration, the logger, the connections and what
  a failure of each leads to, before the parts that \<open>ServerMain\<close>, \<open>QueueWorker\<close>, \<open>WorkerPool\<close> and
  \<open>Gateway\<close> model. The libraries are the fields of \<open>services\<close>: viper, zap, gorm with its Postgres
  driver, and the Redis client.
\<close>

section \<open>The libraries\<close>

text \<open>Viper keeps its settings in a global; \<open>'v\<close> is that state.\<close>

record 'v viper =
  vp_SetConfigName :: "string \<Rightarrow> 'v \<Rightarrow> 'v"
  vp_SetConfigType :: "string \<Rightarrow> 'v \<Rightarrow> 'v"
  vp_AddConfigPath :: "string \<Rightarrow> 'v \<Rightarrow> 'v"
  vp_AutomaticEnv :: "'v \<Rightarrow> 'v"
  vp_ReadInConfig :: "'v \<Rightarrow> string option \<times> 'v"
  vp_Unmarshal :: "'v \<Rightarrow> string + Config"

record redis_options =
  ro_Addr :: string
  ro_Password :: string
  ro_DB :: int
  ro_PoolSize :: int

text \<open>\<^verbatim>\<open>NewClient\<close> does not connect; \<^verbatim>\<open>Ping\<close> is the first command. \<open>'l\<close> is a logger.\<close>

record ('v, 'l, 'd, 'r) services =
  sv_viper :: "'v viper"
  sv_NewDevelopment :: "string + 'l"
  sv_NewProduction :: "string + 'l"
  sv_Open :: "string \<Rightarrow> string + 'd gorm_tables"
  sv_AutoMigrate :: "'d gorm_tables \<Rightarrow> 'd \<Rightarrow> string option \<times> 'd"
  sv_NewClient :: "redis_options \<Rightarrow> 'r redis_client"
  sv_Ping :: "'r redis_client \<Rightarrow> 'r \<Rightarrow> string option \<times> 'r"
  sv_Close :: "'r redis_client \<Rightarrow> 'r \<Rightarrow> 'r"

section \<open>The configuration\<close>

definition LoadConfig :: "'v viper \<Rightarrow> string \<Rightarrow> 'v \<Rightarrow> (string + Config) \<times> 'v" where
  "LoadConfig viper configPath v =
     (let v1 = vp_SetConfigName viper ''config'' v;
          v2 = vp_SetConfigType viper ''yaml'' v1;
          v3 = vp_AddConfigPath viper configPath v2;
          v4 = vp_AddConfigPath viper ''.'' v3;
          v5 = vp_AddConfigPath viper ''./configs'' v4;
          v6 = vp_AutomaticEnv viper v5
      in case vp_ReadInConfig viper v6 of
           (Some err, v7) \<Rightarrow> (Inl err, v7)
         | (None, v7) \<Rightarrow> (vp_Unmarshal viper v7, v7))"

section \<open>The start of each process\<close>

text \<open>With each of these a process prints the error and exits with status 1.\<close>

datatype start_error =
    LoadFailed string
  | LoggerFailed string
  | PostgresFailed string
  | MigrateFailed string
  | RedisFailed string

subsection \<open>The server\<close>

definition initLogger :: "('v, 'l, 'd, 'r) services \<Rightarrow> LoggingConfig \<Rightarrow> string + 'l" where
  "initLogger sv cfg = (if lg_Level cfg = ''debug'' then sv_NewDevelopment sv else sv_NewProduction sv)"

definition server_dsn :: "PostgresConfig \<Rightarrow> string" where
  "server_dsn cfg =
     ''host='' @ pg_Host cfg @ '' port='' @ sprint_int (pg_Port cfg) @ '' user='' @ pg_User cfg @
     '' password='' @ pg_Password cfg @ '' dbname='' @ pg_DBName cfg @ '' sslmode='' @ pg_SSLMode cfg"

definition initDatabase :: "('v, 'l, 'd, 'r) services \<Rightarrow> PostgresConfig \<Rightarrow> string + 'd gorm_tables" where
  "initDatabase sv cfg = sv_Open sv (server_dsn cfg)"

definition initRedis :: "('v, 'l, 'd, 'r) services \<Rightarrow> RedisConfig \<Rightarrow> 'r \<Rightarrow> 'r redis_client \<times> string option \<times> 'r" where
  "initRedis sv cfg r =
     (let client = sv_NewClient sv \<lparr>ro_Addr = rc_Addr cfg, ro_Password = rc_Password cfg, ro_DB = rc_DB cfg, ro_PoolSize = rc_PoolSize cfg\<rparr>
      in (client, sv_Ping sv client r))"

definition server_start ::
    "('v, 'l, 'd, 'r) services \<Rightarrow> string \<Rightarrow> 'v \<Rightarrow> 'r \<Rightarrow> (start_error + Config \<times> 'l \<times> 'd gorm_tables \<times> 'r redis_client) \<times> 'v \<times> 'r" where
  "server_start sv configPath v r =
     (case LoadConfig (sv_viper sv) configPath v of
        (Inl err, v1) \<Rightarrow> (Inl (LoadFailed err), v1, r)
      | (Inr cfg, v1) \<Rightarrow>
          (case initLogger sv (cf_Logging cfg) of
             Inl err \<Rightarrow> (Inl (LoggerFailed err), v1, r)
           | Inr logger \<Rightarrow>
               (case initDatabase sv (dc_Postgres (cf_Database cfg)) of
                  Inl err \<Rightarrow> (Inl (PostgresFailed err), v1, r)
                | Inr db \<Rightarrow>
                    (case initRedis sv (dc_Redis (cf_Database cfg)) r of
                       (client, Some err, r1) \<Rightarrow> (Inl (RedisFailed err), v1, r1)
                     | (client, None, r1) \<Rightarrow> (Inr (cfg, logger, db, client), v1, r1)))))"

text \<open>The address it listens on.\<close>

definition server_address :: "Config \<Rightarrow> string" where
  "server_address cfg = sc_Host (cf_Server cfg) @ '':'' @ sprint_int (sc_Port (cf_Server cfg))"

text \<open>
  Start and the components of the server; the inner option is a panic of \<open>server_main\<close>. The path
  is that of the flag \<^verbatim>\<open>-config\<close>, and the one below without it.
\<close>

definition server_default_path :: string where
  "server_default_path = ''./configs''"

definition server_process ::
    "((string \<times> string \<times> string) list \<Rightarrow> 'm \<Rightarrow> 'm option) \<Rightarrow> key_order \<Rightarrow> ('v, 'l, 'd, 'r) services \<Rightarrow> string \<Rightarrow> mstore \<Rightarrow> estore
     \<Rightarrow> 'v \<Rightarrow> 'r \<Rightarrow> 'm \<Rightarrow> start_error + (string \<times> 'r APIServer \<times> 'm) option" where
  "server_process must_register keys sv configPath st eps v r reg =
     (case server_start sv configPath v r of
        (Inl err, _, _) \<Rightarrow> Inl err
      | (Inr (cfg, logger, db, client), _, r1) \<Rightarrow>
          Inr (map_option (\<lambda>(s, reg1). (server_address cfg, s, reg1)) (server_main must_register keys client cfg st eps r1 reg)))"

subsection \<open>The scheduler\<close>

definition scheduler_dsn :: "PostgresConfig \<Rightarrow> string" where
  "scheduler_dsn cfg =
     ''host='' @ pg_Host cfg @ '' user='' @ pg_User cfg @ '' password='' @ pg_Password cfg @
     '' dbname='' @ pg_DBName cfg @ '' port='' @ sprint_int (pg_Port cfg) @ '' sslmode='' @ pg_SSLMode cfg"

text \<open>The options without a pool size, as the other three processes give them: 0 is the default of the library.\<close>

definition plain_options :: "RedisConfig \<Rightarrow> redis_options" where
  "plain_options cfg = \<lparr>ro_Addr = rc_Addr cfg, ro_Password = rc_Password cfg, ro_DB = rc_DB cfg, ro_PoolSize = 0\<rparr>"

definition scheduler_start ::
    "('v, 'l, 'd, 'r) services \<Rightarrow> 'v \<Rightarrow> 'r \<Rightarrow> (start_error + Config \<times> 'r redis_client) \<times> 'v \<times> 'r" where
  "scheduler_start sv v r =
     (case LoadConfig (sv_viper sv) ''configs/config.yaml'' v of
        (Inl err, v1) \<Rightarrow> (Inl (LoadFailed err), v1, r)
      | (Inr cfg, v1) \<Rightarrow>
          (case sv_Open sv (scheduler_dsn (dc_Postgres (cf_Database cfg))) of
             Inl err \<Rightarrow> (Inl (PostgresFailed err), v1, r)
           | Inr db \<Rightarrow>
               let rdb = sv_NewClient sv (plain_options (dc_Redis (cf_Database cfg)))
               in (case sv_Ping sv rdb r of
                     (Some err, r1) \<Rightarrow> (Inl (RedisFailed err), v1, r1)
                   | (None, r1) \<Rightarrow> (Inr (cfg, rdb), v1, r1))))"

text \<open>
  \<open>ticks\<close> are those until the signal, which cancels the context; the wait for the goroutine of the
  scheduler is behind the result, and then the client is closed.
\<close>

definition scheduler_process ::
    "('v, 'l, 'd, 'r) services \<Rightarrow> tick list \<Rightarrow> estore \<Rightarrow> 'v \<Rightarrow> 'r \<Rightarrow> start_error + ((Scheduler \<times> LoadBalancer) \<times> 'r) call" where
  "scheduler_process sv ticks eps v r =
     (case scheduler_start sv v r of
        (Inl err, _, _) \<Rightarrow> Inl err
      | (Inr (cfg, rdb), _, r1) \<Rightarrow>
          Inr (case scheduler_main ticks cfg eps of Done res \<Rightarrow> Done (res, sv_Close sv rdb r1) | Waits \<Rightarrow> Waits | Panics \<Rightarrow> Panics))"

subsection \<open>The queue manager\<close>

definition queue_manager_dsn :: "PostgresConfig \<Rightarrow> string" where
  "queue_manager_dsn cfg =
     ''host='' @ pg_Host cfg @ '' user='' @ pg_User cfg @ '' password='' @ pg_Password cfg @
     '' dbname='' @ pg_DBName cfg @ '' port='' @ sprint_int (pg_Port cfg) @ '' sslmode=disable TimeZone=Asia/Shanghai''"

definition queue_manager_start ::
    "('v, 'l, 'd, 'r) services \<Rightarrow> 'v \<Rightarrow> 'r \<Rightarrow> (start_error + Config \<times> 'd gorm_tables \<times> 'r redis_client) \<times> 'v \<times> 'r" where
  "queue_manager_start sv v r =
     (case LoadConfig (sv_viper sv) ''configs/config.yaml'' v of
        (Inl err, v1) \<Rightarrow> (Inl (LoadFailed err), v1, r)
      | (Inr cfg, v1) \<Rightarrow>
          (case sv_Open sv (queue_manager_dsn (dc_Postgres (cf_Database cfg))) of
             Inl err \<Rightarrow> (Inl (PostgresFailed err), v1, r)
           | Inr db \<Rightarrow>
               let rdb = sv_NewClient sv (plain_options (dc_Redis (cf_Database cfg)))
               in (case sv_Ping sv rdb r of
                     (Some err, r1) \<Rightarrow> (Inl (RedisFailed err), v1, r1)
                   | (None, r1) \<Rightarrow> (Inr (cfg, db, rdb), v1, r1))))"

text \<open>As many workers as the configuration says; none when it says 0 or less.\<close>

definition queue_manager_pool :: "Config \<Rightarrow> ('d, 'r) queue_process \<Rightarrow> ('d, 'r) pool" where
  "queue_manager_pool cfg s = pool_init (nat (ws_MaxConcurrent (qc_Worker (cf_Queue cfg)))) s"

definition queue_manager_process ::
    "('v, 'l, 'd, 'r) services \<Rightarrow> go_time \<Rightarrow> mstore \<Rightarrow> 'd \<Rightarrow> 'v \<Rightarrow> 'r \<Rightarrow> start_error + ('d, 'r) pool" where
  "queue_manager_process sv now st d v r =
     (case queue_manager_start sv v r of
        (Inl err, _, _) \<Rightarrow> Inl err
      | (Inr (cfg, db, rdb), _, r1) \<Rightarrow> Inr (queue_manager_pool cfg (queue_manager_main now cfg db rdb st d r1)))"

text \<open>The end, when all workers have returned.\<close>

definition queue_manager_exit :: "('v, 'l, 'd, 'r) services \<Rightarrow> 'r redis_client \<Rightarrow> ('d, 'r) pool \<Rightarrow> 'r option" where
  "queue_manager_exit sv rdb p =
     (if list_all (\<lambda>w. w = QStopped) (pl_workers p) then Some (sv_Close sv rdb (snd (snd (qp_state (pl_process p))))) else None)"

subsection \<open>The gateway\<close>

definition gateway_dsn :: "PostgresConfig \<Rightarrow> string" where
  "gateway_dsn cfg =
     ''host='' @ pg_Host cfg @ '' user='' @ pg_User cfg @ '' password='' @ pg_Password cfg @
     '' dbname='' @ pg_DBName cfg @ '' port='' @ sprint_int (pg_Port cfg) @ '' sslmode=disable TimeZone=Asia/Shanghai''"

definition gateway_start ::
    "('v, 'l, 'd, 'r) services \<Rightarrow> 'v \<Rightarrow> 'd \<Rightarrow> 'r \<Rightarrow> (start_error + Config \<times> 'd gorm_tables \<times> 'r redis_client) \<times> 'v \<times> 'd \<times> 'r" where
  "gateway_start sv v d r =
     (case LoadConfig (sv_viper sv) ''configs/config.yaml'' v of
        (Inl err, v1) \<Rightarrow> (Inl (LoadFailed err), v1, d, r)
      | (Inr cfg, v1) \<Rightarrow>
          (case sv_Open sv (gateway_dsn (dc_Postgres (cf_Database cfg))) of
             Inl err \<Rightarrow> (Inl (PostgresFailed err), v1, d, r)
           | Inr db \<Rightarrow>
               (case sv_AutoMigrate sv db d of
                  (Some err, d1) \<Rightarrow> (Inl (MigrateFailed err), v1, d1, r)
                | (None, d1) \<Rightarrow>
                    let rdb = sv_NewClient sv (plain_options (dc_Redis (cf_Database cfg)))
                    in (case sv_Ping sv rdb r of
                          (Some err, r1) \<Rightarrow> (Inl (RedisFailed err), v1, d1, r1)
                        | (None, r1) \<Rightarrow> (Inr (cfg, db, rdb), v1, d1, r1)))))"

definition gateway_address :: "Config \<Rightarrow> string" where
  "gateway_address cfg = '':'' @ sprint_int (sc_Port (cf_Server cfg))"

text \<open>The requests until the signal, then the client is closed.\<close>

definition gateway_process ::
    "('v, 'l, 'd, 'r) services \<Rightarrow> go_time \<Rightarrow> key_order \<Rightarrow> (gateway_env \<times> gateway_call) list \<Rightarrow> mstore \<Rightarrow> 'v \<Rightarrow> 'd \<Rightarrow> 'r
     \<Rightarrow> start_error + string \<times> gateway_reply list \<times> ('d, 'r) gateway" where
  "gateway_process sv now keys calls st v d r =
     (case gateway_start sv v d r of
        (Inl err, _, _, _) \<Rightarrow> Inl err
      | (Inr (cfg, db, rdb), _, d1, r1) \<Rightarrow>
          (case gw_run keys calls (gateway_main now cfg db rdb st d1 r1) of
             (replies, g) \<Rightarrow>
               Inr (gateway_address cfg, replies,
                    g\<lparr>gw_state := (fst (gw_state g), fst (snd (gw_state g)), sv_Close sv rdb (snd (snd (gw_state g))))\<rparr>)))"

end
