(* ===== verification/StartupRuns.thy ===== *)
theory StartupRuns
  imports Startup GatewayRuns ServerRuns
begin

text \<open>
  What the processes of \<^verbatim>\<open>cmd/\<close> do from their start: the text that names the database, and the
  configuration file that the repository ships.
\<close>

section \<open>The name of the database\<close>

definition blank_free :: "string \<Rightarrow> bool" where
  "blank_free s \<longleftrightarrow> CHR '' '' \<notin> set s"

lemma append_blank: "blank_free xs \<Longrightarrow> blank_free ys \<Longrightarrow> xs @ CHR '' '' # r = ys @ CHR '' '' # r' \<longleftrightarrow> xs = ys \<and> r = r'"
proof (induction xs arbitrary: ys)
  case Nil
  then show ?case by (cases ys) (auto simp: blank_free_def)
next
  case (Cons x xs)
  then show ?case by (cases ys) (auto simp: blank_free_def)
qed

lemma sprint_nat_digits: "c \<in> set (sprint_nat n) \<Longrightarrow> \<exists>d < 10. c = digit d"
proof (induction n rule: sprint_nat.induct)
  case (1 n)
  have "c \<in> set (sprint_nat (n div 10)) \<and> \<not> n < 10 \<or> c = digit n \<and> n < 10 \<or> c = digit (n mod 10)"
    using 1(2) by (subst (asm) sprint_nat.simps) (auto split: if_splits)
  moreover have "n mod 10 < 10" by simp
  ultimately show ?case using 1(1) by blast
qed

lemma digit_ne: "d < 10 \<Longrightarrow> digit d \<noteq> CHR '' ''" "d < 10 \<Longrightarrow> digit d \<noteq> CHR ''-''"
  by (simp_all add: digit_def char_of_eq_iff take_bit_eq_mod)

lemma sprint_int_blank_free: "blank_free (sprint_int i)"
  using sprint_nat_digits digit_ne by (fastforce simp: sprint_int_def blank_free_def)

lemma sprint_int_inj: "sprint_int i = sprint_int j \<longleftrightarrow> i = j"
proof
  have minus: "CHR ''-'' # xs \<noteq> sprint_nat n" for xs n
    using sprint_nat_digits [of "CHR ''-''" n] digit_ne(2) by (metis list.set_intros(1))
  show "sprint_int i = sprint_int j \<Longrightarrow> i = j"
    using minus minus [symmetric] by (auto simp: sprint_int_def dest!: sprint_nat_inj split: if_splits)
qed simp

definition pg_blank_free :: "PostgresConfig \<Rightarrow> bool" where
  "pg_blank_free cfg \<longleftrightarrow> blank_free (pg_Host cfg) \<and> blank_free (pg_User cfg) \<and> blank_free (pg_Password cfg) \<and> blank_free (pg_DBName cfg)"

text \<open>
  C40 (the name of the database). Among configurations without blanks in host, user, password and
  database, the name that the server gives to the driver determines the configuration; the names of
  the gateway and of the queue manager determine everything but the SSL mode. But nothing is
  quoted: two different configurations with a blank in the password have the same name.
\<close>

theorem dsn_determines_config:
  "(pg_blank_free c \<and> pg_blank_free c' \<longrightarrow>
     (server_dsn c = server_dsn c' \<longleftrightarrow> c = c') \<and> (scheduler_dsn c = scheduler_dsn c' \<longleftrightarrow> c = c') \<and>
     (gateway_dsn c = gateway_dsn c' \<longleftrightarrow> c' = c\<lparr>pg_SSLMode := pg_SSLMode c'\<rparr>) \<and> queue_manager_dsn c = gateway_dsn c) \<and>
   (\<exists>a b. a \<noteq> b \<and> server_dsn a = server_dsn b)"
proof (intro conjI impI)
  assume free: "pg_blank_free c \<and> pg_blank_free c'"
  note simps = append_blank sprint_int_blank_free sprint_int_inj pg_blank_free_def
  show "server_dsn c = server_dsn c' \<longleftrightarrow> c = c'"
    using free by (auto simp: server_dsn_def simps intro: PostgresConfig.equality)
  show "scheduler_dsn c = scheduler_dsn c' \<longleftrightarrow> c = c'"
    using free by (auto simp: scheduler_dsn_def simps intro: PostgresConfig.equality)
  show "gateway_dsn c = gateway_dsn c' \<longleftrightarrow> c' = c\<lparr>pg_SSLMode := pg_SSLMode c'\<rparr>"
    using free by (cases c; cases c') (auto simp: gateway_dsn_def simps)
  show "queue_manager_dsn c = gateway_dsn c" by (simp add: queue_manager_dsn_def gateway_dsn_def)
next
  let ?a = "\<lparr>pg_Host = ''h'', pg_Port = 1, pg_User = ''u'', pg_Password = ''a dbname=b'', pg_DBName = ''c'', pg_SSLMode = ''''\<rparr>"
  let ?b = "\<lparr>pg_Host = ''h'', pg_Port = 1, pg_User = ''u'', pg_Password = ''a'', pg_DBName = ''b dbname=c'', pg_SSLMode = ''''\<rparr>"
  show "\<exists>a b. a \<noteq> b \<and> server_dsn a = server_dsn b"
    by (rule exI [of _ ?a], rule exI [of _ ?b]) (simp add: server_dsn_def)
qed

theorem dsn_determines_config_witness:
  "server_dsn (dc_Postgres (cf_Database GetDefaultConfig)) \<noteq> server_dsn ((dc_Postgres (cf_Database GetDefaultConfig))\<lparr>pg_User := ''x''\<rparr>)"
proof -
  let ?c = "dc_Postgres (cf_Database GetDefaultConfig)"
  have "pg_blank_free ?c \<and> pg_blank_free (?c\<lparr>pg_User := ''x''\<rparr>)"
    by (simp add: pg_blank_free_def blank_free_def GetDefaultConfig_def)
  then have "server_dsn ?c = server_dsn (?c\<lparr>pg_User := ''x''\<rparr>) \<longleftrightarrow> ?c = ?c\<lparr>pg_User := ''x''\<rparr>"
    using dsn_determines_config by blast
  then show ?thesis by (simp add: GetDefaultConfig_def)
qed

section \<open>The configuration file of the repository\<close>

text \<open>
  \<^verbatim>\<open>configs/config.yaml\<close> as \<^verbatim>\<open>Unmarshal\<close> reads it: the zero value where the file has no key.
\<close>

definition shipped_config :: Config where
  "shipped_config =
     \<lparr>cf_Server = \<lparr>sc_Port = 8080, sc_Host = ''0.0.0.0'', sc_Mode = ''debug''\<rparr>,
      cf_Database =
        \<lparr>dc_Postgres = \<lparr>pg_Host = ''localhost'', pg_Port = 5432, pg_User = ''postgres'', pg_Password = ''password'',
           pg_DBName = ''llm_queue'', pg_SSLMode = ''disable''\<rparr>,
         dc_Redis = \<lparr>rc_Addr = ''localhost:6379'', rc_Password = '''', rc_DB = 0, rc_PoolSize = 100\<rparr>\<rparr>,
      cf_Queue =
        \<lparr>qc_Levels =
           [\<lparr>ql_Name = ''realtime'', ql_Priority = 1, ql_MaxWaitTime = second, ql_MaxConcurrent = 100\<rparr>,
            \<lparr>ql_Name = ''high'', ql_Priority = 2, ql_MaxWaitTime = 5 * second, ql_MaxConcurrent = 200\<rparr>,
            \<lparr>ql_Name = ''normal'', ql_Priority = 3, ql_MaxWaitTime = 30 * second, ql_MaxConcurrent = 500\<rparr>,
            \<lparr>ql_Name = ''low'', ql_Priority = 4, ql_MaxWaitTime = 5 * minute, ql_MaxConcurrent = 1000\<rparr>],
         qc_DefaultMaxSize = 0, qc_MonitorInterval = 0, qc_CleanupInterval = 0, qc_MaxRetentionPeriod = 0,
         qc_EnableMetrics = False, qc_EnableAutoScaling = False, qc_ScalingThresholds = Map.empty,
         qc_Worker = \<lparr>ws_MaxBatchSize = 0, ws_ProcessInterval = 0, ws_MaxConcurrent = 0\<rparr>,
         qc_Retry = \<lparr>rt_InitialBackoff = 0, rt_MaxBackoff = 0, rt_Factor = Fin 0, rt_MaxRetries = 0\<rparr>\<rparr>,
      cf_Scheduler = \<lparr>sd_Strategy = ''priority_weighted'', sd_CheckInterval = 100 * millisecond, sd_MaxRetries = 3, sd_Timeout = 30 * second\<rparr>,
      cf_LoadBalancer = \<lparr>lc_Algorithm = ''weighted_round_robin'', lc_HealthCheckInterval = 30 * second, lc_MaxFailures = 3,
        lc_EnableSessionAffinity = False, lc_SessionTimeout = 0\<rparr>,
      cf_Logging = \<lparr>lg_Level = ''info'', lg_Format = ''json'', lg_Output = ''stdout''\<rparr>,
      cf_Metrics = \<lparr>mc_Enabled = True, mc_Port = 9090, mc_Path = ''/metrics''\<rparr>\<rparr>"

text \<open>The managers of the server are those of a run of the factory.\<close>

definition server_factory_events :: "factory_event list" where
  "server_factory_events =
     [FCreateManager ''standard'' StandardQueueType, FCreateManager ''delayed'' DelayedQueueType, FCreateManager ''priority'' PriorityQueueType]"

lemma create_manager_step:
  assumes "qf_CreateQueueManager must_register name queueType (fs_factory s, fs_registry s) = Some (m, qf, reg)"
    and "\<not> fs_panicked s" and "fs_stop s = None"
  shows "\<exists>s'. factory_step must_register impl procs (FCreateManager name queueType) s s' \<and> fs_factory s' = qf \<and> fs_registry s' = reg \<and>
    \<not> fs_panicked s' \<and> fs_stop s' = None"
proof -
  have "qf_workers qf = qf_workers (fs_factory s)" "qf_config qf = qf_config (fs_factory s)"
    using assms(1) by (auto simp: qf_CreateQueueManager_def Let_def split: option.splits)
  then have "fs_factory (s\<lparr>fs_managers := qf_managers qf, fs_registry := reg\<rparr>) = qf"
    by (cases qf) (simp add: fs_factory_def)
  then show ?thesis using factory_step.create_manager [OF assms(2,3,1), of impl procs] assms(2,3)
    by (intro exI [of _ "s\<lparr>fs_managers := qf_managers qf, fs_registry := reg\<rparr>"]) simp
qed

lemma startWorkers_run:
  assumes "startWorkers must_register (NewQueueFactory config, reg) = Some (qf, reg')"
  shows "\<exists>s. factory_run must_register impl procs (fs_init config st reg) server_factory_events s \<and> fs_factory s = qf \<and> fs_registry s = reg'"
proof -
  obtain m1 qf1 reg1 where 1: "qf_CreateQueueManager must_register ''standard'' StandardQueueType (NewQueueFactory config, reg) = Some (m1, qf1, reg1)"
    and rest: "(case qf_CreateQueueManager must_register ''delayed'' DelayedQueueType (qf1, reg1) of None \<Rightarrow> None
      | Some (_, s2) \<Rightarrow> (case qf_CreateQueueManager must_register ''priority'' PriorityQueueType s2 of None \<Rightarrow> None | Some (_, s3) \<Rightarrow> Some s3)) = Some (qf, reg')"
    using assms by (auto simp: startWorkers_def split: option.splits)
  obtain m2 qf2 reg2 where 2: "qf_CreateQueueManager must_register ''delayed'' DelayedQueueType (qf1, reg1) = Some (m2, qf2, reg2)"
    and rest2: "(case qf_CreateQueueManager must_register ''priority'' PriorityQueueType (qf2, reg2) of None \<Rightarrow> None | Some (_, s3) \<Rightarrow> Some s3) = Some (qf, reg')"
    using rest by (auto split: option.splits)
  obtain m3 where 3: "qf_CreateQueueManager must_register ''priority'' PriorityQueueType (qf2, reg2) = Some (m3, qf, reg')"
    using rest2 by (auto split: option.splits)
  let ?s0 = "fs_init config st reg"
  have s0: "fs_factory ?s0 = NewQueueFactory config" "fs_registry ?s0 = reg" "\<not> fs_panicked ?s0" "fs_stop ?s0 = None"
    by (simp_all add: fs_factory_def fs_init_def NewQueueFactory_def)
  obtain s1 where s1: "factory_step must_register impl procs (FCreateManager ''standard'' StandardQueueType) ?s0 s1"
    "fs_factory s1 = qf1" "fs_registry s1 = reg1" "\<not> fs_panicked s1" "fs_stop s1 = None"
    using create_manager_step [of must_register "''standard''" StandardQueueType ?s0] 1 s0 by metis
  obtain s2 where s2: "factory_step must_register impl procs (FCreateManager ''delayed'' DelayedQueueType) s1 s2"
    "fs_factory s2 = qf2" "fs_registry s2 = reg2" "\<not> fs_panicked s2" "fs_stop s2 = None"
    using create_manager_step [of must_register "''delayed''" DelayedQueueType s1] 2 s1 by metis
  obtain s3 where s3: "factory_step must_register impl procs (FCreateManager ''priority'' PriorityQueueType) s2 s3"
    "fs_factory s3 = qf" "fs_registry s3 = reg'"
    using create_manager_step [of must_register "''priority''" PriorityQueueType s2] 3 s2 by metis
  have "factory_run must_register impl procs ?s0 ((([] @ [FCreateManager ''standard'' StandardQueueType]) @ [FCreateManager ''delayed'' DelayedQueueType]) @
      [FCreateManager ''priority'' PriorityQueueType]) s3"
    by (rule factory_run.snoc [OF factory_run.snoc [OF factory_run.snoc [OF factory_run.nil s1(1)] s2(1)] s3(1)])
  then show ?thesis using s3(2,3) by (auto simp: server_factory_events_def)
qed

lemma shipped_queue [simp]:
  "qc_DefaultMaxSize (cf_Queue shipped_config) = 0" "qc_MonitorInterval (cf_Queue shipped_config) = 0"
  "qc_CleanupInterval (cf_Queue shipped_config) = 0" "ws_MaxConcurrent (qc_Worker (cf_Queue shipped_config)) = 0"
  by (simp_all add: shipped_config_def)

text \<open>Without a limit the gateway accepts every post to a queue that it has.\<close>

definition posts :: "string \<Rightarrow> (gateway_env \<times> gateway_call) list \<Rightarrow> nat" where
  "posts n cs = length (filter (\<lambda>(env, c). queue_of c = Some n) cs)"

lemma handle_unlimited:
  assumes "mlq_maxSize (gw_queue g) \<le> 0" and "queue_of c = Some n" and "mlq_queues (gw_queue g) n \<noteq> None"
    and "gw_handle keys env c g = (reply, g')"
  shows "fst reply = 202"
proof -
  obtain m where c: "c = GPostMessage (Inr m)" "n = Priority_String (m_Priority m)" using assms(2) by (cases c rule: queue_of.cases) auto
  have "\<exists>q'. mlq_Push n r p t t' (gw_queue g) = (None, q')" for r p t t'
    using assms(1,3) by (auto simp: mlq_Push_def Let_def)
  then obtain q' where "mlq_Push n (gw_fresh g) (m_Priority m) (fst (ge_push env)) (snd (ge_push env)) (gw_queue g) = (None, q')" by blast
  then show ?thesis using assms(4) by (auto simp: c gw_postMessage_def gw_defaults_priority Let_def)
qed

lemma run_unlimited:
  assumes "mlq_inv (gw_queue g)" and "mlq_maxSize (gw_queue g) \<le> 0" and "mlq_queues (gw_queue g) n \<noteq> None"
    and "gw_run keys cs g = (replies, g')"
  shows "accepted n cs replies = posts n cs"
  using assms
proof (induction cs arbitrary: g replies)
  case (Cons ec cs)
  obtain env c where ec: "ec = (env, c)" by (metis surj_pair)
  obtain reply g1 where h: "gw_handle keys env c g = (reply, g1)" by (metis surj_pair)
  obtain rest where r: "gw_run keys cs g1 = (rest, g')" "replies = reply # rest" using Cons.prems(4) ec h by (auto split: prod.splits)
  note one = handle_length [OF Cons.prems(1) h]
  have "mlq_queues (gw_queue g1) n \<noteq> None"
    using spec [OF conjunct2 [OF conjunct2 [OF one]], of n] Cons.prems(3) by (auto split: if_splits)
  then have "accepted n cs rest = posts n cs" using Cons.IH [OF _ _ _ r(1)] one Cons.prems(2) by simp
  then show ?case using handle_unlimited [OF Cons.prems(2) _ Cons.prems(3) h] by (auto simp: accepted_def posts_def ec r(2))
qed (simp add: accepted_def posts_def)

lemma gateway_unlimited:
  assumes "qc_DefaultMaxSize (cf_Queue cfg) \<le> 0" and "n \<in> (\<lambda>l. Priority_String (ql_Priority l)) ` set (qc_Levels (cf_Queue cfg))"
    and "gw_run keys cs (gateway_main now cfg db rdb st d r) = (replies, g)"
  shows "accepted n cs replies = posts n cs"
proof -
  have new: "mlq_inv (NewMultiLevelQueue (qc_DefaultMaxSize (cf_Queue cfg)) :: mref MultiLevelQueue)"
    "\<forall>k pq. mlq_queues (NewMultiLevelQueue (qc_DefaultMaxSize (cf_Queue cfg)) :: mref MultiLevelQueue) k = Some pq \<longrightarrow> pq = []"
    by (rule mlq_inv_new) (simp add: NewMultiLevelQueue_def)
  note start = levels_length [OF new, of "\<lambda>l. Priority_String (ql_Priority l)" now "qc_Levels (cf_Queue cfg)"]
  show ?thesis
    using start assms(1,2) by (intro run_unlimited [OF _ _ _ assms(3)]) (auto simp: gateway_main_def NewMultiLevelQueue_def)
qed

lemma no_workers: "pool_run p evs p' \<Longrightarrow> pl_workers p = [] \<Longrightarrow> pl_workers p' = [] \<and> pl_process p' = pl_process p \<and> completed_by evs = {#}"
  by (induction rule: pool_run.induct) (auto elim!: pool_stepE simp: pool_at_def)

lemma shipped_load:
  assumes "\<And>path v. fst (LoadConfig (sv_viper sv) path v) = Inr shipped_config"
  obtains v1 where "LoadConfig (sv_viper sv) path v = (Inr shipped_config, v1)"
  using assms [of path v] by (metis prod.collapse)

lemma shipped_scheduler:
  assumes "\<And>path v. fst (LoadConfig (sv_viper sv) path v) = Inr shipped_config" and "scheduler_process sv (t # ts) eps v r = Inr res"
  shows "res = Panics"
proof -
  obtain v1 where "LoadConfig (sv_viper sv) ''configs/config.yaml'' v = (Inr shipped_config, v1)" using shipped_load [OF assms(1)] by blast
  then show ?thesis using assms(2)
    by (auto simp: scheduler_process_def scheduler_start_def scheduler_command_panics Let_def split: sum.splits prod.splits option.splits)
qed

lemma shipped_queue_manager:
  assumes "\<And>path v. fst (LoadConfig (sv_viper sv) path v) = Inr shipped_config" and "queue_manager_process sv now st d v r = Inr p"
  shows "pl_workers p = []"
proof -
  obtain v1 where "LoadConfig (sv_viper sv) ''configs/config.yaml'' v = (Inr shipped_config, v1)" using shipped_load [OF assms(1)] by blast
  then show ?thesis using assms(2)
    by (auto simp: queue_manager_process_def queue_manager_start_def queue_manager_pool_def pool_init_def Let_def
        split: sum.splits prod.splits option.splits)
qed

lemma shipped_gateway:
  fixes sv :: "('v, 'l, 'd, 'r) services"
  assumes "\<And>path v. fst (LoadConfig (sv_viper sv) path v) = Inr shipped_config"
    and "gateway_process sv now keys calls st v d r = Inr (addr, replies, g)" and "n \<in> set queue_names"
  shows "accepted n calls replies = posts n calls"
proof -
  obtain v1 where "LoadConfig (sv_viper sv) ''configs/config.yaml'' v = (Inr shipped_config, v1)" using shipped_load [OF assms(1)] by blast
  then have "\<exists>(db :: 'd gorm_tables) (rdb :: 'r redis_client) d1 r1 g1. gw_run keys calls (gateway_main now shipped_config db rdb st d1 r1) = (replies, g1)"
    using assms(2) by (auto simp: gateway_process_def gateway_start_def Let_def split: sum.splits prod.splits option.splits) blast
  then obtain db :: "'d gorm_tables" and rdb :: "'r redis_client" and d1 r1 g1 where "gw_run keys calls (gateway_main now shipped_config db rdb st d1 r1) = (replies, g1)" by blast
  moreover have "n \<in> (\<lambda>l. Priority_String (ql_Priority l)) ` set (qc_Levels (cf_Queue shipped_config))"
    using assms(3) by (auto simp: shipped_config_def queue_names_def Priority_String_def priority_defs)
  ultimately show ?thesis using gateway_unlimited by (metis order_refl shipped_queue(1))
qed

lemma shipped_server:
  assumes "\<And>path v. fst (LoadConfig (sv_viper sv) path v) = Inr shipped_config"
    and "server_process must_register keys sv path st eps v r reg = Inr (Some (addr, s, reg'))"
  shows "csm_startCleanupTask ticks (api_StateManager s, x) = None"
    and "startWorkers must_register (NewQueueFactory (cf_Queue shipped_config), reg) = Some (api_QueueFactory s, reg')"
proof -
  obtain v1 where "LoadConfig (sv_viper sv) path v = (Inr shipped_config, v1)" using shipped_load [OF assms(1)] by blast
  then obtain client r1 where main: "server_main must_register keys client shipped_config st eps r1 reg = Some (s, reg')"
    using assms(2) by (auto simp: server_process_def server_start_def Let_def split: sum.splits prod.splits option.splits)
  show "csm_startCleanupTask ticks (api_StateManager s, x) = None"
    using main by (auto simp: server_main_def NewAPIServer_def csm_startCleanupTask_def NewConversationStateManager_def server_conversations_def Let_def)
  show "startWorkers must_register (NewQueueFactory (cf_Queue shipped_config), reg) = Some (api_QueueFactory s, reg')"
    using main by (auto simp: server_main_def Let_def)
qed

text \<open>
  C24 (the shipped configuration). With the configuration file of the repository each of the processes
  lacks something: the scheduler panics at its first tick; the queue manager has no worker, and nothing it
  holds is ever touched; the gateway has no limit and keeps every message that is posted with one
  of the four priorities; the cleanup task of the server panics, and so does each monitor of its
  three managers as soon as it runs, and before that its factory can not be stopped.
\<close>

theorem shipped_configuration:
  assumes "\<And>path v. fst (LoadConfig (sv_viper sv) path v) = Inr shipped_config"
  shows "(\<forall>res. scheduler_process sv (t # ts) eps v r = Inr res \<longrightarrow> res = Panics) \<and>
    (\<forall>p evs p'. queue_manager_process sv now st d v r = Inr p \<and> pool_run p evs p' \<longrightarrow>
       pl_workers p' = [] \<and> pl_process p' = pl_process p \<and> completed_by evs = {#}) \<and>
    (\<forall>addr replies g. gateway_process sv now keys calls st v d r = Inr (addr, replies, g) \<longrightarrow>
       (\<forall>n \<in> set queue_names. accepted n calls replies = posts n calls)) \<and>
    (\<forall>addr s reg'. server_process must_register keys sv path st eps v r reg = Inr (Some (addr, s, reg')) \<longrightarrow>
       csm_startCleanupTask ticks (api_StateManager s, api_store s) = None \<and>
       (\<exists>f. factory_run must_register impl procs (fs_init (cf_Queue shipped_config) st reg) server_factory_events f \<and>
          fs_factory f = api_QueueFactory s \<and>
          (\<forall>evs f1 ev f2. factory_run must_register impl procs f evs f1 \<and> factory_step must_register impl procs ev f1 f2 \<longrightarrow>
             (\<forall>n e. ev = FMonitor n e \<longrightarrow> fs_panicked f2) \<and> (ev = FStopDone \<longrightarrow> fs_managers f1 = Map.empty))))"
proof -
  have server: "\<exists>f. factory_run must_register impl procs (fs_init (cf_Queue shipped_config) st reg) server_factory_events f \<and>
      fs_factory f = api_QueueFactory s \<and>
      (\<forall>evs f1 ev f2. factory_run must_register impl procs f evs f1 \<and> factory_step must_register impl procs ev f1 f2 \<longrightarrow>
         (\<forall>n e. ev = FMonitor n e \<longrightarrow> fs_panicked f2) \<and> (ev = FStopDone \<longrightarrow> fs_managers f1 = Map.empty))"
    if started: "server_process must_register keys sv path st eps v r reg = Inr (Some (addr, s, reg'))" for addr s reg'
  proof -
    obtain f where f: "factory_run must_register impl procs (fs_init (cf_Queue shipped_config) st reg) server_factory_events f"
      "fs_factory f = api_QueueFactory s"
      using startWorkers_run [OF shipped_server(2) [OF assms started]] by blast
    have "(\<forall>n e. ev = FMonitor n e \<longrightarrow> fs_panicked f2) \<and> (ev = FStopDone \<longrightarrow> fs_managers f1 = Map.empty)"
      if "factory_run must_register impl procs f evs f1" "factory_step must_register impl procs ev f1 f2" for evs f1 ev f2
      by (rule factory_without_intervals [OF _ factory_run_append [OF that(1) f(1)] that(2)]) simp
    with f show ?thesis by blast
  qed
  have pool: "pl_workers p' = [] \<and> pl_process p' = pl_process p \<and> completed_by evs = {#}"
    if "queue_manager_process sv now st d v r = Inr p \<and> pool_run p evs p'" for p evs p'
    using that shipped_queue_manager [OF assms] no_workers by blast
  show ?thesis
    by (intro conjI allI impI ballI)
      (erule shipped_scheduler [OF assms] pool [THEN conjunct1] pool [THEN conjunct2, THEN conjunct1] pool [THEN conjunct2, THEN conjunct2]
        shipped_gateway [OF assms] shipped_server(1) [OF assms] server; assumption?)+
qed

definition sample_services :: "(unit, unit, mem_tables, mem_redis) services" where
  "sample_services =
     \<lparr>sv_viper = \<lparr>vp_SetConfigName = \<lambda>_ v. v, vp_SetConfigType = \<lambda>_ v. v, vp_AddConfigPath = \<lambda>_ v. v, vp_AutomaticEnv = \<lambda>v. v,
        vp_ReadInConfig = \<lambda>v. (None, v), vp_Unmarshal = \<lambda>_. Inr shipped_config\<rparr>,
      sv_NewDevelopment = Inr (), sv_NewProduction = Inr (), sv_Open = (\<lambda>_. Inr mem_state_db), sv_AutoMigrate = (\<lambda>_ d. (None, d)),
      sv_NewClient = (\<lambda>_. mem_client), sv_Ping = (\<lambda>_ r. (None, r)), sv_Close = (\<lambda>_ r. r)\<rparr>"

theorem shipped_configuration_witness:
  "\<exists>p. queue_manager_process sample_services 1 (\<lambda>_. sample_body) ([], []) () Map.empty = Inr p \<and> pl_workers p = []"
proof -
  have load: "fst (LoadConfig (sv_viper sample_services) path v) = Inr shipped_config" for path v
    by (simp add: LoadConfig_def sample_services_def)
  have "\<exists>p. queue_manager_process sample_services 1 (\<lambda>_. sample_body) ([], []) () Map.empty = Inr p"
    by (simp add: queue_manager_process_def queue_manager_start_def LoadConfig_def sample_services_def)
  then obtain p where p: "queue_manager_process sample_services 1 (\<lambda>_. sample_body) ([], []) () Map.empty = Inr p" by blast
  from shipped_configuration [OF load, THEN conjunct2, THEN conjunct1, rule_format, OF conjI [OF p pool_run.nil]] p
  show ?thesis by blast
qed

end
