(* ===== verification/Spec2Isabelle.thy ===== *)
theory Spec2Isabelle
  imports GaugeSeries MonitorLifecycle DeadLetterQueue WorkerDrains DelayedQueue QueueFactory ConcurrentRequests PendingOrder Scheduler Preprocessor Conversations RedisIndex
    StateRuns PriorityTypes GatewayRuns WorkerPool FactoryRuns ServerProcess StartupRuns
begin

text \<open>
  A model of the LLM message queue (Go, \<^verbatim>\<open>src/\<close>) and the theorems about it.

  \<^bold>\<open>The program.\<close> A message gets a priority from the preprocessor and is pushed into a queue
  of a manager. A queue is a binary heap ordered by priority and arrival. Workers pop batches,
  process them and push failed messages again; a message out of retries goes to the dead letter
  queue. A delayed queue holds messages until their time and then hands them over. The load
  balancer picks an endpoint for a message, the resource scheduler grants the capacity of
  resources to requests, and the scheduler adds and removes endpoints by the load. The messages
  of a conversation are kept by a conversation manager, over a Redis or a Postgres store. A
  second, older state manager keeps conversations and messages in a database behind two caches.
  Four processes are built from these: the API server over the queue manager, the conversation
  manager and the rest, the gateway and the queue manager process over a queue and the older
  state manager, and the scheduler process.

  \<^bold>\<open>Theories and sources\<close> (below \<^verbatim>\<open>src/internal/\<close> unless said otherwise).
  \<^item> \<open>Prelude\<close>, \<open>Float64\<close>, \<open>Printing\<close>, \<open>GoStrings\<close>: the language: times, 64-bit integers,
    \<^verbatim>\<open>float64\<close> with its rounding, \<^verbatim>\<open>fmt\<close> and \<^verbatim>\<open>strings\<close>.
  \<^item> \<open>GoHeap\<close>: \<^verbatim>\<open>container/heap\<close> over any slice type (the locale of the heap interface).
  \<^item> \<open>Models\<close>: \<^verbatim>\<open>pkg/models/message.go\<close>; \<open>Config\<close>: \<^verbatim>\<open>pkg/config/config.go\<close>.
  \<^item> \<open>MultiLevelQueue\<close>: \<^verbatim>\<open>priorityqueue/queue.go\<close>.
  \<^item> \<open>QueueManager\<close>, \<open>ManagerRuns\<close>, \<open>GaugeSeries\<close>, \<open>MonitorLifecycle\<close>:
    \<^verbatim>\<open>priorityqueue/queue_manager.go\<close>: the operations, whole runs of them, the series of the gauges
    after a run, and the start and stop of the monitor goroutine.
  \<^item> \<open>ExchangeSort\<close>, \<open>DeadLetterQueue\<close>: \<^verbatim>\<open>priorityqueue/dead_letter_queue.go\<close>.
  \<^item> \<open>Backoff\<close>, \<open>Worker\<close>, \<open>WorkerLifecycle\<close>, \<open>WorkerDrains\<close>: \<^verbatim>\<open>priorityqueue/worker.go\<close>: what is done
    with one message as functions, the goroutines of a worker with \<^verbatim>\<open>Start\<close> and \<^verbatim>\<open>Stop\<close> as a step
    relation, and the work they have left.
  \<^item> \<open>DelayedQueue\<close>: \<^verbatim>\<open>priorityqueue/delayed_queue.go\<close>, its goroutines as a step relation.
  \<^item> \<open>QueueFactory\<close>, \<open>FactoryRuns\<close>: \<^verbatim>\<open>priorityqueue/queue_factory.go\<close>: the operations, and the factory
    as a step relation over the monitor goroutines and the workers it has made, with \<^verbatim>\<open>StopAll\<close>
    going through them one by one.
  \<^item> \<open>EndpointSelection\<close>, \<open>LoadBalancer\<close>, \<open>ConcurrentRequests\<close>: \<^verbatim>\<open>loadbalancer/load_balancer.go\<close>: the
    strategies, the methods, and calls of \<^verbatim>\<open>GetEndpoint\<close> that interleave, as a step relation.
  \<^item> \<open>Resources\<close>, \<open>ResourceScheduler\<close>, \<open>ResourceRuns\<close>, \<open>PendingOrder\<close>: \<^verbatim>\<open>scheduler/resource_scheduler.go\<close>:
    the methods, their interleavings, and the order of the waiting requests.
  \<^item> \<open>Scheduler\<close>: \<^verbatim>\<open>scheduler/scheduler.go\<close>.
  \<^item> \<open>Preprocessor\<close>: \<^verbatim>\<open>preprocessor/preprocessor.go\<close>.
  \<^item> \<open>GoTime\<close>, \<open>Json\<close>: the text of times (RFC 3339, in UTC) and \<^verbatim>\<open>encoding/json\<close> on the messages
    and conversations of \<open>Models\<close>; JSON text is a tree with its members in order.
  \<^item> \<open>ConversationStore\<close>: the interface of the stores, as a locale that \<open>RedisStore\<close> and
    \<open>PostgresStore\<close> (\<^verbatim>\<open>conversation/persistence.go\<close>) interpret; \<open>RedisIndex\<close> is about the index
    of a user's conversations in Redis, whose keys expire.
  \<^item> \<open>ConversationManager\<close>, \<open>ConversationRuns\<close>, \<open>Conversations\<close>:
    \<^verbatim>\<open>conversation/state_manager.go\<close>: the operations, whole runs of them over any lawful store,
    and what holds over the two stores.
  \<^item> \<open>DatabaseState\<close>, \<open>StateCaches\<close>, \<open>StateRuns\<close>: \<^verbatim>\<open>statemanager/manager.go\<close>: the operations over the
    database and the caches, the specification by the two tables alone with the invariant that
    relates them, and runs with restarts.
  \<^item> \<open>ApiServer\<close>: \<^verbatim>\<open>api/handlers.go\<close> (not below \<^verbatim>\<open>internal\<close>), every handler with its routes;
    \<open>ApiRuns\<close>, \<open>ServerRuns\<close>, \<open>PriorityTypes\<close>: what requests do to queues and conversations.
  \<^item> \<open>ServerProcess\<close>: the process of \<^verbatim>\<open>cmd/server\<close> while it runs, requests and the goroutines of its
    components as a step relation.
  \<^item> \<open>ServerMain\<close>, \<open>QueueWorker\<close>, \<open>WorkerPool\<close>, \<open>Gateway\<close>, \<open>GatewayRuns\<close>: the commands \<^verbatim>\<open>cmd/server\<close> and
    \<^verbatim>\<open>cmd/scheduler\<close>, \<^verbatim>\<open>cmd/queue-manager\<close>, \<^verbatim>\<open>cmd/api-gateway\<close>.
  \<^item> \<open>Startup\<close>, \<open>StartupRuns\<close>: the start of the four commands, from \<^verbatim>\<open>LoadConfig\<close> to the running process
    or the message it ends with, and what becomes of the configuration file of the repository.
  \<^item> \<open>Interfaces\<close>: what the workers, the dead letter queue and the delayed queue rely on when
    they push (\<open>message_sink\<close>, \<open>accepting_sink\<close>), and the backoff strategies, as locales,
    interpreted where the providers are modelled.

  \<^bold>\<open>Conventions.\<close> Each call of \<^verbatim>\<open>time.Now\<close>, each random draw, each fresh identifier and each
  order in which Go visits a map is an argument of the operation that uses it. An error is the
  left of a sum, or an option when it is the only result; a panic is \<open>None\<close> of an outer
  option, or \<open>Panics\<close> beside \<open>Waits\<close> (blocked for ever) in the load balancer. Pointers shared
  between components are references into an explicit store (\<open>mstore\<close>, \<open>estore\<close>). Operations
  under a mutex are one step; goroutines are step relations or interleavings of such steps. Methods
  that take their mutex several times are such interleavings where it matters: \<open>lb_GetEndpoint\<close> is
  the call that nothing interrupts, and its three sections are steps in \<open>ConcurrentRequests\<close>. A
  request reaches a handler with its path parameters and with the body as gin binds it, the left
  of the sum being the text of the binding error; the reply is the status and the body. Of an
  error that wraps another only the outer text is kept. The loop of the queue manager
  process is a function for one worker, and a step relation for any number. The copy of a message
  that a conversation holds shares its metadata map with the queued message, which is not written
  later.

  \<^bold>\<open>What is shown.\<close> The heap based queue returns the messages in the stable order by priority and
  refines an ordered list, errors included; its counters account for every message, and so do the
  series of the gauges taken together, while the single series drift. Batch requeueing takes out
  exactly the chosen letters. A worker empties its queue in every interleaving of its goroutines;
  its retries are bounded by the backoff, which the floating-point loop computes exactly. The
  delayed queue loses nothing, releases on time and can always go on. The balancing strategies
  pick what they promise and the state stays in its bounds; a session keeps its endpoint once it
  is saved, but two first requests at the same time can be given different ones. Grants of the
  resource scheduler never exceed what was free, no request is lost, and the waiting ones are in
  order unless a pass puts some back behind others. Scaling stays within its limits. The analysis
  of the content is deterministic but for ties. Conversations survive a restart in the form their
  store keeps, stay within their limits, and are cleaned up just when they expire; two interleaved
  requests can lose a message. The index in Redis lists the conversations that are kept, and some
  that have expired. The caches of the older state manager never show anything but the tables, and
  its message count is exact, unless two additions interleave. A submission to the API server
  happens completely or not at all, and the priorities it holds stay among the four; but the
  server as its command starts it has no queue, accepts nothing, keeps the conversation messages
  it refuses, panics at the start when metrics are enabled, and later when an interval is not
  positive. The gateway accepts at most what its queues
  hold. A worker of the queue manager process completes messages in order, and several share
  the queue without completing a message twice, but lose what they hold when the process is
  cancelled; stopping a \<^verbatim>\<open>Worker\<close> waits for all it has popped and always returns, if it has a place
  for a message; \<^verbatim>\<open>StopAll\<close> of the factory returns after every monitor and every worker, and can
  always still return. A cancelled pool of the queue manager process comes to rest in a bounded
  number of steps. The text that opens the database determines the settings in it as
  long as they have no blanks; with the configuration file of the repository the queue manager
  starts no worker, and every monitor of the server panics, as it leaves out their intervals.

  \<^bold>\<open>Parameters.\<close> The Redis client, the gorm handle and the Prometheus registry are arguments;
  \<open>redis_laws\<close>, \<open>gorm_laws\<close> and \<open>state_laws\<close> state their documented effect on keys and rows, failures
  included, \<open>expiry_laws\<close> that of the times at which keys expire, and they are shown to hold of
  clients and of tables in memory. (Of a row with a zero creation time \<open>gorm_laws\<close> keep it as given,
  where gorm would fill it in; the program always sets it.) Reading the configuration
  (viper), making a logger (zap) and opening and probing the connections are the fields of the
  records \<open>viper\<close> and \<open>services\<close>, arguments of the starts of the commands.

  \<^bold>\<open>Bounds and fuel.\<close> No definition uses fuel: the loops are structural or have a measure.
  Integers are unbounded where the source only counts, and wrapped to 64 bits where a value can
  leave the range (backoff, loads, weights).

  \<^bold>\<open>Not modelled.\<close> The text of log lines and of Prometheus metrics (a log of metric events stands
  for them); non-ASCII text in the preprocessor; of the commands, the parsing of flags, the
  delivery of signals, the HTTP router and its listening socket. These are calls into libraries
  with no logic of the program in between.
\<close>

end
